(* ===== verification/Prelude.thy ===== *)
theory Prelude
  imports Main "HOL-Library.State_Monad" "HOL-Library.Word" "HOL-Library.Multiset"
    "HOL-Library.Signed_Division"
begin

text \<open>
  What the component theories share: the machine types, the execution of a stateful
  handler (\<open>wp\<close>, the weakest precondition of a program of the state monad, with
  its equations as simplification rules) and a few lemmas on lists.
\<close>

unbundle bit_operations_syntax

type_synonym int32 = "32 word"
type_synonym uint32 = "32 word"
type_synonym uint8 = "8 word"
type_synonym addr = nat

section \<open>Signed integers\<close>

text \<open>Division of \<open>int\<close> rounds towards zero.\<close>

instantiation word :: (len) signed_divide
begin

definition signed_divide_word :: "'a word \<Rightarrow> 'a word \<Rightarrow> 'a word" where
  "signed_divide_word a b = word_of_int (sint a sdiv sint b)"

instance ..

end

lemma sint_small:
  fixes x :: "'a::len word"
  assumes "unat x < 2 ^ (LENGTH('a) - 1)"
  shows "sint x = int (unat x)"
proof -
  have "int (unat x) < 2 ^ (LENGTH('a) - 1)" and "- (2 ^ (LENGTH('a) - 1)) \<le> (0::int)"
    using assms by (simp_all only: of_nat_less_numeral_power_cancel_iff) simp
  then have "signed_take_bit (LENGTH('a) - 1) (int (unat x)) = int (unat x)"
    by (intro signed_take_bit_int_eq_self order_trans [OF _ of_nat_0_le_iff]) 
  then show ?thesis
    by (simp add: sint_uint)
qed

lemma signed_div_mod_nat:
  "int n sdiv int m = int (n div m)" "int n smod int m = int (n mod m)"
  by (simp_all add: signed_divide_int_def signed_modulo_int_def zdiv_int zmod_int sgn_if)

section \<open>Programs over an explicit state\<close>

text \<open>
  A C++ method that mutates its object is a program of the library's state monad:
  \<open>run_state m s\<close> is its return value and the state it leaves. \<open>wp m Q s\<close> says
  that running \<open>m\<close> from \<open>s\<close> ends with a value and a state that satisfy \<open>Q\<close>. All
  programs of the model are total, so this is total correctness.
\<close>

definition wp :: "('s, 'a) state \<Rightarrow> ('a \<Rightarrow> 's \<Rightarrow> bool) \<Rightarrow> 's \<Rightarrow> bool" where
  "wp m Q s = (case run_state m s of (a, s') \<Rightarrow> Q a s')"

named_theorems wp_simps
  "equations that compute the weakest precondition of a program"

lemma wp_return [wp_simps]: "wp (State_Monad.return a) Q s = Q a s"
  by (simp add: wp_def)

lemma wp_bind [wp_simps]: "wp (State_Monad.bind m f) Q s = wp m (\<lambda>a. wp (f a) Q) s"
  by (simp add: wp_def split: prod.splits)

lemma wp_get [wp_simps]: "wp State_Monad.get Q s = Q s s"
  by (simp add: wp_def)

lemma wp_set [wp_simps]: "wp (State_Monad.set s') Q s = Q () s'"
  by (simp add: wp_def)

lemma wp_update [wp_simps]: "wp (State_Monad.update f) Q s = Q () (f s)"
  by (simp add: wp_def State_Monad.update_def)

lemma wp_if [wp_simps]:
  "wp (if b then m else n) Q s = (if b then wp m Q s else wp n Q s)"
  by simp

lemma wp_let [wp_simps]: "wp (Let v f) Q s = Let v (\<lambda>x. wp (f x) Q s)"
  by simp

lemma wp_run: "wp m Q s \<longleftrightarrow> Q (fst (run_state m s)) (snd (run_state m s))"
  by (simp add: wp_def split: prod.splits)

lemma wp_run_state: "wp m Q s \<Longrightarrow> run_state m s = (a, t) \<Longrightarrow> Q a t"
  by (simp add: wp_def)

lemma wp_conj: "wp m (\<lambda>a t. P a t \<and> Q a t) s \<longleftrightarrow> wp m P s \<and> wp m Q s"
  by (simp add: wp_run)

lemma wp_mono: "wp m P s \<Longrightarrow> (\<And>a t. P a t \<Longrightarrow> Q a t) \<Longrightarrow> wp m Q s"
  by (simp add: wp_run)

section \<open>Programs that may fail\<close>

text \<open>Run the second program on the result of the first, unless that failed.\<close>

definition and_then :: "'e + 'a \<Rightarrow> ('a \<Rightarrow> 'e + 'b) \<Rightarrow> 'e + 'b" where
  "and_then m f = (case m of Inl e \<Rightarrow> Inl e | Inr a \<Rightarrow> f a)"

lemma and_then_simps [simp]: "and_then (Inl e) f = Inl e" "and_then (Inr a) f = f a"
  by (simp_all add: and_then_def)

text \<open>
  \<open>ensures m P\<close>: a program that may go wrong does not, and its result satisfies \<open>P\<close>.
\<close>

definition ensures :: "'a option \<Rightarrow> ('a \<Rightarrow> bool) \<Rightarrow> bool" where
  "ensures m P \<longleftrightarrow> (case m of None \<Rightarrow> False | Some x \<Rightarrow> P x)"

lemma ensures_simps [simp]:
  "ensures (Some x) P = P x" "\<not> ensures None P"
  "ensures (Option.bind m f) P = ensures m (\<lambda>x. ensures (f x) P)"
  by (auto simp: ensures_def split: option.splits bind_splits)

lemma ensures_if: "ensures (if b then m else n) P = (if b then ensures m P else ensures n P)"
  by simp

lemma ensuresI: "m = Some x \<Longrightarrow> P x \<Longrightarrow> ensures m P"
  by simp

lemma ensuresE: "ensures m P \<Longrightarrow> (\<And>x. m = Some x \<Longrightarrow> P x \<Longrightarrow> Q) \<Longrightarrow> Q"
  by (cases m) auto

lemma ensures_mono: "ensures m P \<Longrightarrow> (\<And>x. P x \<Longrightarrow> Q x) \<Longrightarrow> ensures m Q"
  by (cases m) auto

section \<open>Refinement of a sequence of operations\<close>

text \<open>
  A component with pointers is related to a specification without them. Its operations may
  go wrong (a read through a dead pointer): they return \<open>None\<close> then. \<open>run_steps\<close> runs a
  sequence of operations of the component, \<open>run_spec\<close> of the specification, and
  \<open>run_ok\<close> says that the environment kept its part of the contract (\<open>malloc\<close> returned
  fresh memory) at every operation of the run.
\<close>

fun run_steps :: "('op \<Rightarrow> 'c \<Rightarrow> ('r \<times> 'c) option) \<Rightarrow> 'op list \<Rightarrow> 'c \<Rightarrow> ('r list \<times> 'c) option" where
  "run_steps step [] c = Some ([], c)"
| "run_steps step (op # ops) c = do {
     (r, c') \<leftarrow> step op c;
     (rs, c'') \<leftarrow> run_steps step ops c';
     Some (r # rs, c'') }"

fun run_spec :: "('op \<Rightarrow> 'a \<Rightarrow> 'r \<times> 'a) \<Rightarrow> 'op list \<Rightarrow> 'a \<Rightarrow> 'r list \<times> 'a" where
  "run_spec spec [] a = ([], a)"
| "run_spec spec (op # ops) a =
    (let (r, a') = spec op a; (rs, a'') = run_spec spec ops a' in (r # rs, a''))"

fun run_ok :: "('op \<Rightarrow> 'c \<Rightarrow> ('r \<times> 'c) option) \<Rightarrow> ('op \<Rightarrow> 'c \<Rightarrow> bool) \<Rightarrow> 'op list \<Rightarrow> 'c \<Rightarrow> bool" where
  "run_ok step ok [] c = True"
| "run_ok step ok (op # ops) c =
    (ok op c \<and> (case step op c of None \<Rightarrow> True | Some (r, c') \<Rightarrow> run_ok step ok ops c'))"

locale refinement =
  fixes step :: "'op \<Rightarrow> 'c \<Rightarrow> ('r \<times> 'c) option"
    and spec :: "'op \<Rightarrow> 'a \<Rightarrow> 'r \<times> 'a"
    and rep :: "'c \<Rightarrow> 'a \<Rightarrow> bool"
    and ok :: "'op \<Rightarrow> 'c \<Rightarrow> bool"
  assumes simulates: "rep c a \<Longrightarrow> ok op c \<Longrightarrow>
    \<exists>c'. step op c = Some (fst (spec op a), c') \<and> rep c' (snd (spec op a))"
begin

lemma run_simulates:
  "rep c a \<Longrightarrow> run_ok step ok ops c \<Longrightarrow>
    \<exists>c'. run_steps step ops c = Some (fst (run_spec spec ops a), c')
       \<and> rep c' (snd (run_spec spec ops a))"
proof (induction ops arbitrary: c a)
  case Nil
  then show ?case
    by simp
next
  case (Cons op ops)
  from Cons.prems obtain c1 where step: "step op c = Some (fst (spec op a), c1)"
    and rep: "rep c1 (snd (spec op a))"
    using simulates [of c a op] by auto
  moreover have "run_ok step ok ops c1"
    using Cons.prems(2) step by simp
  ultimately show ?case
    using Cons.IH [of c1 "snd (spec op a)"] by (auto split: prod.splits)
qed

end

text \<open>
  The same for a component whose operations keep an invariant under a contract of their users.
\<close>

locale safe_runs =
  fixes step :: "'op \<Rightarrow> 'c \<Rightarrow> ('r \<times> 'c) option"
    and inv :: "'c \<Rightarrow> bool"
    and ok :: "'op \<Rightarrow> 'c \<Rightarrow> bool"
  assumes kept: "inv c \<Longrightarrow> ok op c \<Longrightarrow> ensures (step op c) (\<lambda>(r, c'). inv c')"
begin

lemma run_kept:
  "inv c \<Longrightarrow> run_ok step ok ops c \<Longrightarrow> ensures (run_steps step ops c) (\<lambda>(rs, c'). inv c')"
proof (induction ops arbitrary: c)
  case (Cons op ops)
  obtain r c1 where step: "step op c = Some (r, c1)" "inv c1"
    using kept [of c op] Cons.prems by (auto elim!: ensuresE)
  moreover obtain rs c2 where "run_steps step ops c1 = Some (rs, c2)" "inv c2"
    using Cons.IH [of c1] Cons.prems(2) step by (auto elim!: ensuresE)
  ultimately show ?case
    by simp
qed simp

end

end
