(* ===== verification/CamList.thy ===== *)
theory CamList
  imports Prelude
begin

text \<open>
  The intrusive circular list of \<open>cam_list.h\<close> over an explicit heap. A node is a C
  structure with two pointers and a data pointer; the heap maps the addresses of the live
  structures to them. Every access to a node goes through the heap and is \<open>None\<close> when the
  node is not live, so a use after \<open>free\<close> is visible.
\<close>

section \<open>Nodes and the list operations\<close>

record 'a camera_q_node =
  list_next :: addr
  list_prev :: addr
  node_data :: "'a option"

type_synonym 'a qheap = "addr \<rightharpoonup> 'a camera_q_node"

definition get_next :: "addr \<Rightarrow> 'a qheap \<Rightarrow> addr option" where
  "get_next p h = map_option list_next (h p)"

definition get_prev :: "addr \<Rightarrow> 'a qheap \<Rightarrow> addr option" where
  "get_prev p h = map_option list_prev (h p)"

definition get_data :: "addr \<Rightarrow> 'a qheap \<Rightarrow> 'a option option" where
  "get_data p h = map_option node_data (h p)"

definition set_next :: "addr \<Rightarrow> addr \<Rightarrow> 'a qheap \<Rightarrow> 'a qheap option" where
  "set_next p v h = map_option (\<lambda>n. h(p \<mapsto> n\<lparr>list_next := v\<rparr>)) (h p)"

definition set_prev :: "addr \<Rightarrow> addr \<Rightarrow> 'a qheap \<Rightarrow> 'a qheap option" where
  "set_prev p v h = map_option (\<lambda>n. h(p \<mapsto> n\<lparr>list_prev := v\<rparr>)) (h p)"

definition free_node :: "addr \<Rightarrow> 'a qheap \<Rightarrow> 'a qheap option" where
  "free_node p h = map_option (\<lambda>n. h(p := None)) (h p)"

definition cam_list_init :: "addr \<Rightarrow> 'a qheap \<Rightarrow> 'a qheap option" where
  "cam_list_init p h = do { h \<leftarrow> set_next p p h; set_prev p p h }"

definition cam_list_add_tail_node :: "addr \<Rightarrow> addr \<Rightarrow> 'a qheap \<Rightarrow> 'a qheap option" where
  "cam_list_add_tail_node item head h = do {
     prev \<leftarrow> get_prev head h;
     h \<leftarrow> set_prev head item h;
     h \<leftarrow> set_next item head h;
     h \<leftarrow> set_prev item prev h;
     set_next prev item h }"

definition cam_list_insert_before_node :: "addr \<Rightarrow> addr \<Rightarrow> 'a qheap \<Rightarrow> 'a qheap option" where
  "cam_list_insert_before_node item node h = do {
     h \<leftarrow> set_next item node h;
     prev \<leftarrow> get_prev node h;
     h \<leftarrow> set_prev item prev h;
     prev \<leftarrow> get_prev item h;
     h \<leftarrow> set_next prev item h;
     set_prev node item h }"

definition cam_list_del_node :: "addr \<Rightarrow> 'a qheap \<Rightarrow> 'a qheap option" where
  "cam_list_del_node p h = do {
     prev \<leftarrow> get_prev p h;
     next \<leftarrow> get_next p h;
     v \<leftarrow> get_prev p h;
     h \<leftarrow> set_prev next v h;
     v \<leftarrow> get_next p h;
     h \<leftarrow> set_next prev v h;
     h \<leftarrow> set_next p p h;
     set_prev p p h }"

section \<open>The links of a list\<close>

text \<open>\<open>links h a xs b\<close>: from \<open>a\<close> through the nodes \<open>xs\<close> to \<open>b\<close>, both ways.\<close>

fun links :: "'a qheap \<Rightarrow> addr \<Rightarrow> addr list \<Rightarrow> addr \<Rightarrow> bool" where
  "links h a [] b = (get_next a h = Some b \<and> get_prev b h = Some a)"
| "links h a (x # xs) b = (get_next a h = Some x \<and> get_prev x h = Some a \<and> links h x xs b)"

lemma links_append: "links h a (xs @ y # ys) b = (links h a xs y \<and> links h y ys b)"
  by (induction xs arbitrary: a) auto

lemma links_ends:
  assumes "links h a xs b"
  shows "get_next a h = Some (hd (xs @ [b]))" and "get_prev b h = Some (last (a # xs))"
  using assms by (induction h a xs b rule: links.induct) auto

text \<open>What the links depend on.\<close>

lemma links_frame:
  assumes "links h a xs b"
    and "\<And>p. p \<in> set (a # xs) \<Longrightarrow> get_next p h' = get_next p h"
    and "\<And>p. p \<in> set (xs @ [b]) \<Longrightarrow> get_prev p h' = get_prev p h"
  shows "links h' a xs b"
  using assms by (induction h a xs b rule: links.induct) auto

text \<open>Moving the end of a list from \<open>b\<close> to \<open>c\<close>.\<close>

lemma links_retarget:
  assumes "links h a xs b"
    and "get_next (last (a # xs)) h' = Some c"
    and "get_prev c h' = Some (last (a # xs))"
    and "\<And>p. p \<in> set (butlast (a # xs)) \<Longrightarrow> get_next p h' = get_next p h"
    and "\<And>p. p \<in> set xs \<Longrightarrow> get_prev p h' = get_prev p h"
  shows "links h' a xs c"
  using assms by (induction h a xs b rule: links.induct) auto

lemma links_live:
  assumes "links h a xs b"
  shows "\<forall>p\<in>set (a # xs @ [b]). h p \<noteq> None"
  using assms
  by (induction h a xs b rule: links.induct) (auto simp: get_next_def get_prev_def)

section \<open>Stores and loads\<close>

lemma get_set [simp]:
  "set_next p v h = Some h' \<Longrightarrow> get_next q h' = (if q = p then Some v else get_next q h)"
  "set_next p v h = Some h' \<Longrightarrow> get_prev q h' = get_prev q h"
  "set_next p v h = Some h' \<Longrightarrow> get_data q h' = get_data q h"
  "set_prev p v h = Some h' \<Longrightarrow> get_prev q h' = (if q = p then Some v else get_prev q h)"
  "set_prev p v h = Some h' \<Longrightarrow> get_next q h' = get_next q h"
  "set_prev p v h = Some h' \<Longrightarrow> get_data q h' = get_data q h"
  by (auto simp: set_next_def set_prev_def get_next_def get_prev_def get_data_def)

lemma get_upd [simp]:
  "get_next q (h(p \<mapsto> n)) = (if q = p then Some (list_next n) else get_next q h)"
  "get_prev q (h(p \<mapsto> n)) = (if q = p then Some (list_prev n) else get_prev q h)"
  "get_data q (h(p \<mapsto> n)) = (if q = p then Some (node_data n) else get_data q h)"
  by (simp_all add: get_next_def get_prev_def get_data_def)

lemma data_frame:
  assumes "map (\<lambda>n. get_data n h) ns = map Some ds"
    and "\<And>n. n \<in> set ns \<Longrightarrow> get_data n h' = get_data n h"
  shows "map (\<lambda>n. get_data n h') ns = map Some ds"
  using assms by (metis (no_types, lifting) map_eq_conv)

lemma set_live [simp]:
  "set_next p v h = Some h' \<Longrightarrow> (h' q = None) = (h q = None)"
  "set_prev p v h = Some h' \<Longrightarrow> (h' q = None) = (h q = None)"
  by (auto simp: set_next_def set_prev_def split: if_splits)

lemma set_possible:
  "h p \<noteq> None \<Longrightarrow> \<exists>h'. set_next p v h = Some h'"
  "h p \<noteq> None \<Longrightarrow> \<exists>h'. set_prev p v h = Some h'"
  by (auto simp: set_next_def set_prev_def)

text \<open>\<open>h\<close> and \<open>h'\<close> have the same live nodes with the same data.\<close>

definition same_nodes :: "'a qheap \<Rightarrow> 'a qheap \<Rightarrow> bool" where
  "same_nodes h h' \<longleftrightarrow> (\<forall>q. get_data q h' = get_data q h)"

lemma same_nodes_refl [simp]: "same_nodes h h"
  by (simp add: same_nodes_def)

lemma same_nodes_trans [trans]: "same_nodes h h' \<Longrightarrow> same_nodes h' h'' \<Longrightarrow> same_nodes h h''"
  by (simp add: same_nodes_def)

lemma same_nodes_live: "same_nodes h h' \<Longrightarrow> (h' q = None) = (h q = None)"
  by (simp add: same_nodes_def get_data_def) (metis map_option_is_None)

lemma same_nodes_set [simp]:
  "set_next p v h = Some h' \<Longrightarrow> same_nodes h h'"
  "set_prev p v h = Some h' \<Longrightarrow> same_nodes h h'"
  by (simp_all add: same_nodes_def)

lemma same_nodes_data: "same_nodes h h' \<Longrightarrow> get_data q h' = get_data q h"
  by (simp add: same_nodes_def)

section \<open>The operations on a linked list\<close>

lemma add_tail_effect:
  assumes "h head \<noteq> None" "h item \<noteq> None" "h p \<noteq> None" "get_prev head h = Some p"
    and "item \<noteq> head" "item \<noteq> p"
  obtains h' where "cam_list_add_tail_node item head h = Some h'" and "same_nodes h h'"
    and "\<forall>q. get_next q h' =
      (if q = p then Some item else if q = item then Some head else get_next q h)"
    and "\<forall>q. get_prev q h' =
      (if q = item then Some p else if q = head then Some item else get_prev q h)"
proof -
  obtain h1 where 1: "set_prev head item h = Some h1"
    using assms(1) set_possible by blast
  obtain h2 where 2: "set_next item head h1 = Some h2"
    using assms(2) 1 set_possible by (metis set_live(2))
  obtain h3 where 3: "set_prev item p h2 = Some h3"
    using assms(2) 1 2 set_possible by (metis set_live)
  obtain h4 where 4: "set_next p item h3 = Some h4"
    using assms(3) 1 2 3 set_possible by (metis set_live)
  show thesis
  proof
    show "cam_list_add_tail_node item head h = Some h4"
      using 1 2 3 4 assms(4) by (simp add: cam_list_add_tail_node_def)
    show "same_nodes h h4"
      using 1 2 3 4 by (meson same_nodes_set same_nodes_trans)
  qed (use 1 2 3 4 assms in auto)
qed

lemma del_effect:
  assumes "get_prev x h = Some p" "get_next x h = Some n" "h p \<noteq> None" "h n \<noteq> None"
    and "p \<noteq> x" "n \<noteq> x"
  obtains h' where "cam_list_del_node x h = Some h'" and "same_nodes h h'"
    and "\<forall>q. get_next q h' =
      (if q = x then Some x else if q = p then Some n else get_next q h)"
    and "\<forall>q. get_prev q h' =
      (if q = x then Some x else if q = n then Some p else get_prev q h)"
proof -
  have x: "h x \<noteq> None"
    using assms(1) by (auto simp: get_prev_def)
  obtain h1 where 1: "set_prev n p h = Some h1"
    using assms(4) set_possible by blast
  obtain h2 where 2: "set_next p n h1 = Some h2"
    using assms(3) 1 set_possible by (metis set_live(2))
  obtain h3 where 3: "set_next x x h2 = Some h3"
    using x 1 2 set_possible by (metis set_live)
  obtain h4 where 4: "set_prev x x h3 = Some h4"
    using x 1 2 3 set_possible by (metis set_live)
  show thesis
  proof
    show "cam_list_del_node x h = Some h4"
      using 1 2 3 4 assms by (simp add: cam_list_del_node_def)
    show "same_nodes h h4"
      using 1 2 3 4 by (meson same_nodes_set same_nodes_trans)
  qed (use 1 2 3 4 assms in auto)
qed

lemma butlast_not_last: "distinct xs \<Longrightarrow> q \<in> set (butlast xs) \<Longrightarrow> q \<noteq> last xs"
  by (induction xs rule: rev_induct) auto

lemma add_tail_links:
  assumes "links h head ns head" and "distinct (head # ns)"
    and "h item \<noteq> None" and "item \<notin> set (head # ns)"
  obtains h' where "cam_list_add_tail_node item head h = Some h'" and "same_nodes h h'"
    and "links h' head (ns @ [item]) head"
proof -
  let ?p = "last (head # ns)"
  have live: "h head \<noteq> None" "h ?p \<noteq> None"
    using links_live [OF assms(1)] last_in_set [of "head # ns"] by auto
  have item: "item \<noteq> head" "item \<noteq> ?p"
    using assms(4) last_in_set [of "head # ns"] by auto
  obtain h' where *: "cam_list_add_tail_node item head h = Some h'" "same_nodes h h'"
    and nxt: "\<forall>q. get_next q h' =
      (if q = ?p then Some item else if q = item then Some head else get_next q h)"
    and prv: "\<forall>q. get_prev q h' =
      (if q = item then Some ?p else if q = head then Some item else get_prev q h)"
    by (rule add_tail_effect
        [OF live(1) assms(3) live(2) links_ends(2) [OF assms(1)] item])
  have "links h' head ns item"
    using assms(2,4) butlast_not_last [OF assms(2)] in_set_butlastD [of _ "head # ns"]
    by (intro links_retarget [OF assms(1)]) (auto simp: nxt prv)
  moreover have "get_next item h' = Some head" "get_prev head h' = Some item"
    using item by (auto simp: nxt prv)
  ultimately show thesis
    using * that by (simp add: links_append)
qed

lemma del_links:
  assumes "links h head (xs @ x # ys) head" and "distinct (head # xs @ x # ys)"
  obtains h' where "cam_list_del_node x h = Some h'" and "same_nodes h h'"
    and "links h' head (xs @ ys) head"
proof -
  let ?p = "last (head # xs)" and ?n = "hd (ys @ [head])"
  have left: "links h head xs x" and right: "links h x ys head"
    using assms(1) by (simp_all add: links_append)
  have p: "?p \<in> set (head # xs)" and n: "?n \<in> set (ys @ [head])"
    using last_in_set [of "head # xs"] hd_in_set [of "ys @ [head]"] by auto
  then have live: "h ?p \<noteq> None" "h ?n \<noteq> None" and diff: "?p \<noteq> x" "?n \<noteq> x"
    using links_live [OF left] links_live [OF right] assms(2) by auto
  obtain h' where *: "cam_list_del_node x h = Some h'" "same_nodes h h'"
    and nxt: "\<forall>q. get_next q h' =
      (if q = x then Some x else if q = ?p then Some ?n else get_next q h)"
    and prv: "\<forall>q. get_prev q h' =
      (if q = x then Some x else if q = ?n then Some ?p else get_prev q h)"
    by (rule del_effect [OF links_ends(2) [OF left] links_ends(1) [OF right] live diff])
  have dp: "distinct (head # xs)"
    using assms(2) by simp
  have n_fresh: "?n \<notin> set xs" and x_fresh: "x \<notin> set (head # xs)"
    using n assms(2) by auto
  have new_left: "links h' head xs ?n"
  proof (rule links_retarget [OF left])
    fix q
    assume "q \<in> set (butlast (head # xs))"
    then show "get_next q h' = get_next q h"
      using butlast_not_last [OF dp] in_set_butlastD [of q "head # xs"] x_fresh
      by (auto simp: nxt)
  next
    fix q
    assume "q \<in> set xs"
    then show "get_prev q h' = get_prev q h"
      using n_fresh x_fresh by (auto simp: prv)
  qed (use diff in \<open>simp_all add: nxt prv\<close>)
  have "links h' head (xs @ ys) head"
  proof (cases ys)
    case Nil
    then show ?thesis
      using new_left by simp
  next
    case (Cons y zs)
    have right': "links h y zs head" and y: "?n = y"
      using right Cons by auto
    have "links h' y zs head"
    proof (rule links_frame [OF right'])
      fix q
      assume "q \<in> set (y # zs)"
      then have "q \<noteq> x" "q \<noteq> ?p"
        using assms(2) p Cons by auto
      then show "get_next q h' = get_next q h"
        by (simp only: nxt if_False)
    next
      fix q
      assume "q \<in> set (zs @ [head])"
      then have "q \<noteq> x" "q \<noteq> y"
        using assms(2) Cons by auto
      then show "get_prev q h' = get_prev q h"
        by (simp only: prv y if_False)
    qed
    then show ?thesis
      using new_left Cons by (simp add: links_append)
  qed
  then show thesis
    using * that by blast
qed

end
