(* ===== verification/CamQueue.thy ===== *)
theory CamQueue
  imports CamList
begin

text \<open>
  \<open>QCameraQueue\<close>: the queue of data pointers on top of the circular list, with its active
  flag, and its refinement of a plain list. Data pointers are \<open>'a option\<close>: \<open>None\<close> is NULL.
  The mutex makes each operation atomic, so an operation is one step. \<open>malloc\<close> is the
  environment's: its result, 0 or a fresh address, is an argument of the operations.
\<close>

section \<open>The queue\<close>

text \<open>
  \<open>freed\<close> and \<open>dataFn_calls\<close> record the data given to \<open>free\<close> and to the release function,
  which is called when there is one (\<open>m_dataFn\<close>).
\<close>

record 'a camera_queue =
  m_head :: addr
  q_heap :: "'a qheap"
  m_size :: int32
  m_active :: bool
  m_dataFn :: bool
  freed :: "'a list"
  dataFn_calls :: "'a list"

definition new_node :: "'a option \<Rightarrow> 'a camera_q_node" where
  "new_node data = \<lparr>list_next = 0, list_prev = 0, node_data = data\<rparr>"

definition QCameraQueue :: "addr \<Rightarrow> bool \<Rightarrow> 'a camera_queue option" where
  "QCameraQueue head rel_fn = do {
     h \<leftarrow> cam_list_init head [head \<mapsto> new_node None];
     Some \<lparr>m_head = head, q_heap = h, m_size = 0, m_active = True, m_dataFn = rel_fn,
           freed = [], dataFn_calls = []\<rparr> }"

definition queue_init :: "'a camera_queue \<Rightarrow> 'a camera_queue" where
  "queue_init q = q\<lparr>m_active := True\<rparr>"

definition isEmpty :: "'a camera_queue \<Rightarrow> bool" where
  "isEmpty q = (if 0 <s m_size q then False else True)"

definition getCurrentSize :: "'a camera_queue \<Rightarrow> int" where
  "getCurrentSize q = sint (m_size q)"

definition enqueue :: "addr \<Rightarrow> 'a option \<Rightarrow> 'a camera_queue \<Rightarrow> (bool \<times> 'a camera_queue) option" where
  "enqueue node data q =
    (if node = 0 then Some (False, q)
     else do {
       let h = (q_heap q)(node \<mapsto> new_node data);
       if m_active q then do {
         h \<leftarrow> cam_list_add_tail_node node (m_head q) h;
         Some (True, q\<lparr>q_heap := h, m_size := m_size q + 1\<rparr>) }
       else do {
         h \<leftarrow> free_node node h;
         Some (False, q\<lparr>q_heap := h\<rparr>) } })"

definition link_at_head :: "addr \<Rightarrow> addr \<Rightarrow> 'a qheap \<Rightarrow> 'a qheap option" where
  "link_at_head node head h = do {
     p_next \<leftarrow> get_next head h;
     h \<leftarrow> set_next head node h;
     h \<leftarrow> set_prev p_next node h;
     h \<leftarrow> set_next node p_next h;
     set_prev node head h }"

definition enqueueWithPriority ::
  "addr \<Rightarrow> 'a option \<Rightarrow> 'a camera_queue \<Rightarrow> (bool \<times> 'a camera_queue) option" where
  "enqueueWithPriority node data q =
    (if node = 0 then Some (False, q)
     else do {
       let h = (q_heap q)(node \<mapsto> new_node data);
       if m_active q then do {
         h \<leftarrow> link_at_head node (m_head q) h;
         Some (True, q\<lparr>q_heap := h, m_size := m_size q + 1\<rparr>) }
       else do {
         h \<leftarrow> free_node node h;
         Some (False, q\<lparr>q_heap := h\<rparr>) } })"

definition peek :: "'a camera_queue \<Rightarrow> 'a option option" where
  "peek q =
    (if m_active q then do {
       pos \<leftarrow> get_next (m_head q) (q_heap q);
       if pos \<noteq> m_head q then get_data pos (q_heap q) else Some None }
     else Some None)"

definition dequeue :: "bool \<Rightarrow> 'a camera_queue \<Rightarrow> ('a option \<times> 'a camera_queue) option" where
  "dequeue bFromHead q =
    (if m_active q then do {
       pos \<leftarrow> (if bFromHead then get_next (m_head q) (q_heap q)
              else get_prev (m_head q) (q_heap q));
       if pos \<noteq> m_head q then do {
         h \<leftarrow> cam_list_del_node pos (q_heap q);
         data \<leftarrow> get_data pos h;
         h \<leftarrow> free_node pos h;
         Some (data, q\<lparr>q_heap := h, m_size := m_size q - 1\<rparr>) }
       else Some (None, q) }
     else Some (None, q))"

text \<open>The loop of \<open>dequeue(match, match_data)\<close>: the first node whose data match.\<close>

partial_function (option) dequeue_loop ::
  "('a option \<Rightarrow> bool) \<Rightarrow> addr \<Rightarrow> addr \<Rightarrow> 'a qheap \<Rightarrow> int32 \<Rightarrow>
    ('a option \<times> 'a qheap \<times> int32) option" where
  "dequeue_loop match head pos h sz =
    (if pos = head then Some (None, h, sz)
     else do {
       next \<leftarrow> get_next pos h;
       data \<leftarrow> get_data pos h;
       if match data then do {
         h \<leftarrow> cam_list_del_node pos h;
         data \<leftarrow> get_data pos h;
         h \<leftarrow> free_node pos h;
         Some (data, h, sz - 1) }
       else dequeue_loop match head next h sz })"

definition dequeue_match :: "('m \<Rightarrow> 'a option \<Rightarrow> bool) option \<Rightarrow> 'm option \<Rightarrow> 'a camera_queue \<Rightarrow>
    ('a option \<times> 'a camera_queue) option" where
  "dequeue_match match match_data q = (case (match, match_data) of
     (Some f, Some d) \<Rightarrow>
       if m_active q then do {
         pos \<leftarrow> get_next (m_head q) (q_heap q);
         (data, h, sz) \<leftarrow> dequeue_loop (f d) (m_head q) pos (q_heap q) (m_size q);
         Some (data, q\<lparr>q_heap := h, m_size := sz\<rparr>) }
       else Some (None, q)
   | _ \<Rightarrow> Some (None, q))"

text \<open>
  The loops of \<open>flush\<close> and \<open>flushNodes\<close>: the next position is read before the node goes;
  the data released are accumulated.
\<close>

definition non_null :: "'a option \<Rightarrow> 'a list" where
  "non_null data = (case data of None \<Rightarrow> [] | Some x \<Rightarrow> [x])"

lemma non_null_simps [simp]: "non_null None = []" "non_null (Some x) = [x]"
  by (simp_all add: non_null_def)

partial_function (option) flush_loop ::
  "addr \<Rightarrow> addr \<Rightarrow> 'a qheap \<Rightarrow> int32 \<Rightarrow> 'a list \<Rightarrow> ('a qheap \<times> int32 \<times> 'a list) option" where
  "flush_loop head pos h sz rel =
    (if pos = head then Some (h, sz, rel)
     else do {
       next \<leftarrow> get_next pos h;
       h \<leftarrow> cam_list_del_node pos h;
       data \<leftarrow> get_data pos h;
       h \<leftarrow> free_node pos h;
       flush_loop head next h (sz - 1) (rel @ non_null data) })"

partial_function (option) flushNodes_loop ::
  "('a option \<Rightarrow> bool) \<Rightarrow> addr \<Rightarrow> addr \<Rightarrow> 'a qheap \<Rightarrow> int32 \<Rightarrow> 'a list \<Rightarrow>
    ('a qheap \<times> int32 \<times> 'a list) option" where
  "flushNodes_loop match head pos h sz rel =
    (if pos = head then Some (h, sz, rel)
     else do {
       next \<leftarrow> get_next pos h;
       data \<leftarrow> get_data pos h;
       if match data then do {
         h \<leftarrow> cam_list_del_node pos h;
         data \<leftarrow> get_data pos h;
         h \<leftarrow> free_node pos h;
         flushNodes_loop match head next h (sz - 1) (rel @ non_null data) }
       else flushNodes_loop match head next h sz rel })"

definition release_all :: "'a list \<Rightarrow> 'a camera_queue \<Rightarrow> 'a camera_queue" where
  "release_all rel q = q\<lparr>freed := freed q @ rel,
     dataFn_calls := dataFn_calls q @ (if m_dataFn q then rel else [])\<rparr>"

definition flush :: "'a camera_queue \<Rightarrow> 'a camera_queue option" where
  "flush q =
    (if m_active q then do {
       pos \<leftarrow> get_next (m_head q) (q_heap q);
       (h, sz, rel) \<leftarrow> flush_loop (m_head q) pos (q_heap q) (m_size q) [];
       Some (release_all rel (q\<lparr>q_heap := h, m_size := 0, m_active := False\<rparr>)) }
     else Some q)"

definition flushNodes :: "('a option \<Rightarrow> bool) option \<Rightarrow> 'a camera_queue \<Rightarrow> 'a camera_queue option" where
  "flushNodes match q = (case match of
     None \<Rightarrow> Some q
   | Some f \<Rightarrow>
       if m_active q then do {
         pos \<leftarrow> get_next (m_head q) (q_heap q);
         (h, sz, rel) \<leftarrow> flushNodes_loop f (m_head q) pos (q_heap q) (m_size q) [];
         Some (release_all rel (q\<lparr>q_heap := h, m_size := sz\<rparr>)) }
       else Some q)"

definition flushNodes_data ::
  "('m \<Rightarrow> 'a option \<Rightarrow> bool) option \<Rightarrow> 'm \<Rightarrow> 'a camera_queue \<Rightarrow> 'a camera_queue option" where
  "flushNodes_data match match_data q = (case match of
     None \<Rightarrow> Some q
   | Some f \<Rightarrow>
       if m_active q then do {
         pos \<leftarrow> get_next (m_head q) (q_heap q);
         (h, sz, rel) \<leftarrow> flushNodes_loop (f match_data) (m_head q) pos (q_heap q) (m_size q) [];
         Some (release_all rel (q\<lparr>q_heap := h, m_size := sz\<rparr>)) }
       else Some q)"

section \<open>The list a queue stands for\<close>

text \<open>
  \<open>heap_list h head ns ds\<close>: the heap holds the head and the nodes \<open>ns\<close>, nothing else,
  linked in a circle in this order, with the data \<open>ds\<close>.
\<close>

definition heap_list :: "'a qheap \<Rightarrow> addr \<Rightarrow> addr list \<Rightarrow> 'a option list \<Rightarrow> bool" where
  "heap_list h head ns ds \<longleftrightarrow>
    links h head ns head \<and> distinct (head # ns) \<and> dom h = set (head # ns)
    \<and> map (\<lambda>n. get_data n h) ns = map Some ds"

lemma heap_list_length: "heap_list h head ns ds \<Longrightarrow> length ns = length ds"
  unfolding heap_list_def by (metis length_map)

lemma heap_list_card: "heap_list h head ns ds \<Longrightarrow> card (dom h) = Suc (length ds)"
  using heap_list_length [of h head ns ds] by (simp add: heap_list_def distinct_card)

lemma heap_list_first:
  "heap_list h head ns ds \<Longrightarrow> get_next head h = Some (hd (ns @ [head]))"
  by (simp add: heap_list_def links_ends)

lemma heap_list_last:
  "heap_list h head ns ds \<Longrightarrow> get_prev head h = Some (last (head # ns))"
  unfolding heap_list_def using links_ends(2) by blast

lemma heap_list_node:
  assumes "heap_list h head (xs @ x # ys) ds"
  shows "get_next x h = Some (hd (ys @ [head]))" and "x \<noteq> head"
  using assms by (auto simp: heap_list_def links_append links_ends)

lemma free_node_effect:
  assumes "h x \<noteq> None"
  obtains h' where "free_node x h = Some h'" and "dom h' = dom h - {x}"
    and "\<forall>q. q \<noteq> x \<longrightarrow> get_next q h' = get_next q h \<and> get_prev q h' = get_prev q h
           \<and> get_data q h' = get_data q h"
  using assms that [of "h(x := None)"]
  by (auto simp: free_node_def get_next_def get_prev_def get_data_def)

text \<open>Unlinking a node, reading its data and freeing it.\<close>

lemma heap_list_remove:
  assumes "heap_list h head (xs @ x # ys) (ds @ d # es)" and "length xs = length ds"
  obtains h1 h2 where "cam_list_del_node x h = Some h1" and "get_data x h1 = Some d"
    and "free_node x h1 = Some h2" and "heap_list h2 head (xs @ ys) (ds @ es)"
proof -
  have data: "map (\<lambda>n. get_data n h) xs = map Some ds" "get_data x h = Some d"
      "map (\<lambda>n. get_data n h) ys = map Some es"
    and dist: "distinct (head # xs @ x # ys)" and dom: "dom h = set (head # xs @ x # ys)"
    and links: "links h head (xs @ x # ys) head"
    using assms by (auto simp: heap_list_def append_eq_append_conv)
  obtain h1 where 1: "cam_list_del_node x h = Some h1" "same_nodes h h1"
    "links h1 head (xs @ ys) head"
    using del_links [OF links dist] .
  have live: "h1 x \<noteq> None"
    using same_nodes_live [OF 1(2), of x] dom by auto
  obtain h2 where 2: "free_node x h1 = Some h2" "dom h2 = dom h1 - {x}"
    "\<forall>q. q \<noteq> x \<longrightarrow> get_next q h2 = get_next q h1 \<and> get_prev q h2 = get_prev q h1
       \<and> get_data q h2 = get_data q h1"
    using free_node_effect [of h1 x, OF live] .
  have "dom h1 = dom h"
    using same_nodes_live [OF 1(2)] by (auto simp: dom_def)
  moreover have "links h2 head (xs @ ys) head"
    by (rule links_frame [OF 1(3)]) (use dist 2(3) in auto)
  moreover have "map (\<lambda>n. get_data n h2) (xs @ ys) = map Some (ds @ es)"
  proof (rule data_frame [where h = h])
    fix n
    assume "n \<in> set (xs @ ys)"
    then have "n \<noteq> x"
      using dist by auto
    then show "get_data n h2 = get_data n h"
      using 2(3) same_nodes_data [OF 1(2), of n] by simp
  qed (use data in simp)
  ultimately have "heap_list h2 head (xs @ ys) (ds @ es)"
    using dist dom 2(2) by (auto simp: heap_list_def)
  then show thesis
    using that 1(1) 2(1) data(2) same_nodes_data [OF 1(2)] by auto
qed

text \<open>Adding a fresh node, at either end.\<close>

lemma heap_list_fresh:
  assumes "heap_list h head ns ds" and "h node = None"
  shows "links (h(node \<mapsto> new_node d)) head ns head" and "node \<notin> set (head # ns)"
    and "map (\<lambda>n. get_data n (h(node \<mapsto> new_node d))) ns = map Some ds"
proof -
  show fresh: "node \<notin> set (head # ns)"
    using assms by (auto simp: heap_list_def)
  show "links (h(node \<mapsto> new_node d)) head ns head"
    by (rule links_frame [of h]) (use assms(1) fresh in \<open>auto simp: heap_list_def\<close>)
  show "map (\<lambda>n. get_data n (h(node \<mapsto> new_node d))) ns = map Some ds"
    by (rule data_frame [of h]) (use assms(1) fresh in \<open>auto simp: heap_list_def\<close>)
qed

lemma heap_list_add:
  assumes "heap_list h head ns ds" and "h node = None"
    and "same_nodes (h(node \<mapsto> new_node d)) h'"
    and "links h' head ns' head" and "set ns' = insert node (set ns)" and "distinct ns'"
    and "map (\<lambda>n. get_data n (h(node \<mapsto> new_node d))) ns' = map Some ds'"
  shows "heap_list h' head ns' ds'"
proof -
  have "dom h' = dom (h(node \<mapsto> new_node d))"
    using same_nodes_live [OF assms(3)] by (auto simp: dom_def)
  moreover have "map (\<lambda>n. get_data n h') ns' = map Some ds'"
    using assms(7) same_nodes_data [OF assms(3)] by simp
  ultimately show ?thesis
    using assms heap_list_fresh(2) [OF assms(1,2)] by (auto simp: heap_list_def)
qed

lemma heap_list_add_tail:
  assumes "heap_list h head ns ds" and "h node = None"
  obtains h' where "cam_list_add_tail_node node head (h(node \<mapsto> new_node d)) = Some h'"
    and "heap_list h' head (ns @ [node]) (ds @ [d])"
proof -
  let ?h = "h(node \<mapsto> new_node d)"
  note fresh = heap_list_fresh [OF assms]
  have dist: "distinct (head # ns)"
    using assms(1) by (simp add: heap_list_def)
  obtain h' where h': "cam_list_add_tail_node node head ?h = Some h'" "same_nodes ?h h'"
      "links h' head (ns @ [node]) head"
    using add_tail_links [OF fresh(1) dist _ fresh(2)] by auto
  moreover have "heap_list h' head (ns @ [node]) (ds @ [d])"
    by (rule heap_list_add [OF assms h'(2,3)])
      (use fresh dist in \<open>auto simp: get_data_def new_node_def\<close>)
  ultimately show thesis
    using that by blast
qed

lemma link_at_head_effect:
  assumes "h head \<noteq> None" "h node \<noteq> None" "h n \<noteq> None" "get_next head h = Some n"
    and "node \<noteq> head" "node \<noteq> n"
  obtains h' where "link_at_head node head h = Some h'" and "same_nodes h h'"
    and "\<forall>q. get_next q h' =
      (if q = node then Some n else if q = head then Some node else get_next q h)"
    and "\<forall>q. get_prev q h' =
      (if q = node then Some head else if q = n then Some node else get_prev q h)"
proof -
  obtain h1 where 1: "set_next head node h = Some h1"
    using assms(1) set_possible by blast
  obtain h2 where 2: "set_prev n node h1 = Some h2"
    using assms(3) 1 set_possible by (metis set_live(1))
  obtain h3 where 3: "set_next node n h2 = Some h3"
    using assms(2) 1 2 set_possible by (metis set_live)
  obtain h4 where 4: "set_prev node head h3 = Some h4"
    using assms(2) 1 2 3 set_possible by (metis set_live)
  show thesis
  proof
    show "link_at_head node head h = Some h4"
      using 1 2 3 4 assms(4) by (simp add: link_at_head_def)
    show "same_nodes h h4"
      using 1 2 3 4 by (meson same_nodes_set same_nodes_trans)
  qed (use 1 2 3 4 assms in auto)
qed

lemma heap_list_add_head:
  assumes "heap_list h head ns ds" and "h node = None"
  obtains h' where "link_at_head node head (h(node \<mapsto> new_node d)) = Some h'"
    and "heap_list h' head (node # ns) (d # ds)"
proof -
  let ?h = "h(node \<mapsto> new_node d)" and ?n = "hd (ns @ [head])"
  note fresh = heap_list_fresh [OF assms]
  have dist: "distinct (head # ns)"
    using assms(1) by (simp add: heap_list_def)
  have n: "?n \<in> set (head # ns)"
    using hd_in_set [of "ns @ [head]"] by auto
  have live: "?h head \<noteq> None" "?h node \<noteq> None" "?h ?n \<noteq> None"
    and diff: "node \<noteq> head" "node \<noteq> ?n"
    using bspec [OF links_live [OF fresh(1)], of ?n] bspec [OF links_live [OF fresh(1)], of head]
      fresh(2) n by auto
  obtain h' where h': "link_at_head node head ?h = Some h'" "same_nodes ?h h'"
    and nxt: "\<forall>q. get_next q h' =
      (if q = node then Some ?n else if q = head then Some node else get_next q ?h)"
    and prv: "\<forall>q. get_prev q h' =
      (if q = node then Some head else if q = ?n then Some node else get_prev q ?h)"
    by (rule link_at_head_effect [OF live links_ends(1) [OF fresh(1)] diff])
  have "links h' node ns head"
  proof (cases ns)
    case Nil
    then show ?thesis
      using diff by (simp add: nxt prv)
  next
    case (Cons y zs)
    have "links ?h y zs head" and y: "?n = y"
      using fresh(1) Cons by auto
    then have "links h' y zs head"
      by (rule_tac links_frame) (use fresh(2) dist Cons y in \<open>auto simp: nxt prv\<close>)
    then show ?thesis
      using diff Cons by (simp add: nxt prv)
  qed
  then have links: "links h' head (node # ns) head"
    using diff by (simp add: nxt prv)
  have "heap_list h' head (node # ns) (d # ds)"
    by (rule heap_list_add [OF assms h'(2) links])
      (use fresh dist in \<open>auto simp: get_data_def new_node_def\<close>)
  then show thesis
    using that h'(1) by blast
qed

section \<open>The loops\<close>

text \<open>
  A loop stands at the first of the nodes \<open>ys\<close> it has not visited. From a well-formed list
  it returns, whatever the matching function.
\<close>

lemma heap_list_at:
  assumes "heap_list h head (xs @ y # ys) dts" and "length xs = length ds"
    and "dts = ds @ es"
  obtains e es' where "es = e # es'" and "get_next y h = Some (hd (ys @ [head]))"
    and "get_data y h = Some e" and "y \<noteq> head"
proof -
  have "length es = Suc (length ys)"
    using heap_list_length [OF assms(1)] assms(2,3) by simp
  then obtain e es' where es: "es = e # es'"
    by (cases es) auto
  have "map (\<lambda>n. get_data n h) (xs @ y # ys) = map Some (ds @ e # es')"
    using assms(1,3) es by (simp only: heap_list_def)
  then have "get_data y h = Some e"
    using assms(2) by (simp add: append_eq_append_conv)
  then show thesis
    using that es heap_list_node [OF assms(1)] by blast
qed

lemma flushNodes_loop_correct:
  assumes "heap_list h head (xs @ ys) (ds @ es)" and "length xs = length ds"
  shows "\<exists>h' ns'. flushNodes_loop match head (hd (ys @ [head])) h sz rel =
      Some (h', sz - of_nat (length (filter match es)),
            rel @ concat (map non_null (filter match es)))
    \<and> heap_list h' head ns' (ds @ filter (\<lambda>d. \<not> match d) es)"
  using assms
proof (induction ys arbitrary: xs ds es h sz rel)
  case Nil
  then have "es = []"
    using heap_list_length [OF Nil(1)] by simp
  then show ?case
    using Nil by (auto simp: flushNodes_loop.simps)
next
  case (Cons y ys)
  obtain e es' where es: "es = e # es'" and at: "get_next y h = Some (hd (ys @ [head]))"
      "get_data y h = Some e" "y \<noteq> head"
    using heap_list_at [OF Cons.prems refl] .
  show ?case
  proof (cases "match e")
    case True
    obtain h1 h2 where "cam_list_del_node y h = Some h1" "get_data y h1 = Some e"
      "free_node y h1 = Some h2" and h2: "heap_list h2 head (xs @ ys) (ds @ es')"
      using heap_list_remove [OF Cons.prems [unfolded es]] .
    then have "flushNodes_loop match head y h sz rel =
        flushNodes_loop match head (hd (ys @ [head])) h2 (sz - 1) (rel @ non_null e)"
      using at True by (simp add: flushNodes_loop.simps [of match head y])
    then show ?thesis
      using Cons.IH [OF h2 Cons.prems(2), of "sz - 1" "rel @ non_null e"] True es
      by (simp add: algebra_simps)
  next
    case False
    have "heap_list h head ((xs @ [y]) @ ys) ((ds @ [e]) @ es')"
      using Cons.prems(1) es by simp
    from Cons.IH [OF this, of sz rel] Cons.prems(2) show ?thesis
      using at False es by (simp add: flushNodes_loop.simps [of match head y])
  qed
qed

lemma flush_loop_correct:
  assumes "heap_list h head ys es"
  shows "\<exists>h'. flush_loop head (hd (ys @ [head])) h sz rel =
      Some (h', sz - of_nat (length es), rel @ concat (map non_null es))
    \<and> heap_list h' head [] []"
  using assms
proof (induction ys arbitrary: es h sz rel)
  case Nil
  then show ?case
    using heap_list_length [OF Nil] by (auto simp: flush_loop.simps)
next
  case (Cons y ys)
  have prem: "heap_list h head ([] @ y # ys) ([] @ es)" "length [] = length []"
    using Cons.prems by simp_all
  obtain e es' where es: "es = e # es'" and at: "get_next y h = Some (hd (ys @ [head]))"
      "get_data y h = Some e" "y \<noteq> head"
    using heap_list_at [OF prem refl] .
  obtain h1 h2 where "cam_list_del_node y h = Some h1" "get_data y h1 = Some e"
    "free_node y h1 = Some h2" and h2: "heap_list h2 head ([] @ ys) ([] @ es')"
    using heap_list_remove [OF prem [unfolded es]] .
  then have "flush_loop head y h sz rel =
      flush_loop head (hd (ys @ [head])) h2 (sz - 1) (rel @ non_null e)"
    using at by (simp add: flush_loop.simps [of head y])
  then show ?case
    using Cons.IH [of h2 es' "sz - 1" "rel @ non_null e"] h2 es by (simp add: algebra_simps)
qed

lemma dequeue_loop_correct:
  assumes "heap_list h head (xs @ ys) (ds @ es)" and "length xs = length ds"
  shows "case dropWhile (\<lambda>d. \<not> match d) es of
      [] \<Rightarrow> dequeue_loop match head (hd (ys @ [head])) h sz = Some (None, h, sz)
    | d # rest \<Rightarrow> \<exists>h' ns'. dequeue_loop match head (hd (ys @ [head])) h sz = Some (d, h', sz - 1)
        \<and> heap_list h' head ns' (ds @ takeWhile (\<lambda>d. \<not> match d) es @ rest)"
  using assms
proof (induction ys arbitrary: xs ds es)
  case Nil
  then have "es = []"
    using heap_list_length [OF Nil(1)] by simp
  then show ?case
    by (simp add: dequeue_loop.simps)
next
  case (Cons y ys)
  obtain e es' where es: "es = e # es'" and at: "get_next y h = Some (hd (ys @ [head]))"
      "get_data y h = Some e" "y \<noteq> head"
    using heap_list_at [OF Cons.prems refl] .
  show ?case
  proof (cases "match e")
    case True
    obtain h1 h2 where "cam_list_del_node y h = Some h1" "get_data y h1 = Some e"
      "free_node y h1 = Some h2" and h2: "heap_list h2 head (xs @ ys) (ds @ es')"
      using heap_list_remove [OF Cons.prems [unfolded es]] .
    then show ?thesis
      using at True es by (auto simp: dequeue_loop.simps [of match head y])
  next
    case False
    have "heap_list h head ((xs @ [y]) @ ys) ((ds @ [e]) @ es')"
      using Cons.prems(1) es by simp
    from Cons.IH [OF this] Cons.prems(2) show ?thesis
      using at False es
      by (cases "dropWhile (\<lambda>d. \<not> match d) es'")
        (simp_all add: dequeue_loop.simps [of match head y] del: dropWhile_eq_Nil_conv)
  qed
qed

section \<open>Refinement of a plain list\<close>

text \<open>The specification: the data in order, and what became of the data released.\<close>

record 'a fifo =
  items :: "'a option list"
  active :: bool
  rel_fn :: bool
  released :: "'a list"
  rel_calls :: "'a list"

datatype ('a, 'm) queue_op =
    Init
  | IsEmpty
  | GetCurrentSize
  | Enqueue addr "'a option"
  | EnqueueWithPriority addr "'a option"
  | Peek
  | Dequeue bool
  | DequeueMatch "('m \<Rightarrow> 'a option \<Rightarrow> bool) option" "'m option"
  | Flush
  | FlushNodes "('a option \<Rightarrow> bool) option"
  | FlushNodesData "('m \<Rightarrow> 'a option \<Rightarrow> bool) option" 'm

datatype 'a queue_result = Done | Truth bool | Size int | Data "'a option"

definition queue_step ::
  "('a, 'm) queue_op \<Rightarrow> 'a camera_queue \<Rightarrow> ('a queue_result \<times> 'a camera_queue) option" where
  "queue_step op q = (case op of
     Init \<Rightarrow> Some (Done, queue_init q)
   | IsEmpty \<Rightarrow> Some (Truth (isEmpty q), q)
   | GetCurrentSize \<Rightarrow> Some (Size (getCurrentSize q), q)
   | Enqueue node data \<Rightarrow> map_option (apfst Truth) (enqueue node data q)
   | EnqueueWithPriority node data \<Rightarrow> map_option (apfst Truth) (enqueueWithPriority node data q)
   | Peek \<Rightarrow> map_option (\<lambda>d. (Data d, q)) (peek q)
   | Dequeue bFromHead \<Rightarrow> map_option (apfst Data) (dequeue bFromHead q)
   | DequeueMatch match d \<Rightarrow> map_option (apfst Data) (dequeue_match match d q)
   | Flush \<Rightarrow> map_option (Pair Done) (flush q)
   | FlushNodes match \<Rightarrow> map_option (Pair Done) (flushNodes match q)
   | FlushNodesData match d \<Rightarrow> map_option (Pair Done) (flushNodes_data match d q))"

definition fifo_take_match ::
  "('a option \<Rightarrow> bool) \<Rightarrow> 'a fifo \<Rightarrow> 'a queue_result \<times> 'a fifo" where
  "fifo_take_match match f = (case dropWhile (\<lambda>d. \<not> match d) (items f) of
     [] \<Rightarrow> (Data None, f)
   | d # rest \<Rightarrow> (Data d, f\<lparr>items := takeWhile (\<lambda>d. \<not> match d) (items f) @ rest\<rparr>))"

definition fifo_release :: "('a option \<Rightarrow> bool) \<Rightarrow> 'a fifo \<Rightarrow> 'a fifo" where
  "fifo_release match f = (let gone = concat (map non_null (filter match (items f))) in
     f\<lparr>items := filter (\<lambda>d. \<not> match d) (items f), released := released f @ gone,
       rel_calls := rel_calls f @ (if rel_fn f then gone else [])\<rparr>)"

definition fifo_step :: "('a, 'm) queue_op \<Rightarrow> 'a fifo \<Rightarrow> 'a queue_result \<times> 'a fifo" where
  "fifo_step op f = (case op of
     Init \<Rightarrow> (Done, f\<lparr>active := True\<rparr>)
   | IsEmpty \<Rightarrow> (Truth (items f = []), f)
   | GetCurrentSize \<Rightarrow> (Size (int (length (items f))), f)
   | Enqueue node data \<Rightarrow>
       if node \<noteq> 0 \<and> active f then (Truth True, f\<lparr>items := items f @ [data]\<rparr>)
       else (Truth False, f)
   | EnqueueWithPriority node data \<Rightarrow>
       if node \<noteq> 0 \<and> active f then (Truth True, f\<lparr>items := data # items f\<rparr>)
       else (Truth False, f)
   | Peek \<Rightarrow> (Data (if active f \<and> items f \<noteq> [] then hd (items f) else None), f)
   | Dequeue bFromHead \<Rightarrow>
       if active f \<and> items f \<noteq> [] then
         (if bFromHead then (Data (hd (items f)), f\<lparr>items := tl (items f)\<rparr>)
          else (Data (last (items f)), f\<lparr>items := butlast (items f)\<rparr>))
       else (Data None, f)
   | DequeueMatch match d \<Rightarrow>
       (case (match, d) of
          (Some m, Some x) \<Rightarrow> if active f then fifo_take_match (m x) f else (Data None, f)
        | _ \<Rightarrow> (Data None, f))
   | Flush \<Rightarrow>
       (Done, if active f then (fifo_release (\<lambda>d. True) f)\<lparr>active := False\<rparr> else f)
   | FlushNodes match \<Rightarrow>
       (Done, case match of Some m \<Rightarrow> if active f then fifo_release m f else f | None \<Rightarrow> f)
   | FlushNodesData match d \<Rightarrow>
       (Done, case match of Some m \<Rightarrow> if active f then fifo_release (m d) f else f
              | None \<Rightarrow> f))"

text \<open>
  What \<open>malloc\<close> guarantees: NULL, or a block that is not live; and there is no room for
  \<open>2 ^ 31\<close> nodes.
\<close>

fun malloc_ok :: "('a, 'm) queue_op \<Rightarrow> 'a camera_queue \<Rightarrow> bool" where
  "malloc_ok (Enqueue node data) q =
    (node = 0 \<or> q_heap q node = None \<and> card (dom (q_heap q)) < 2 ^ 31)"
| "malloc_ok (EnqueueWithPriority node data) q =
    (node = 0 \<or> q_heap q node = None \<and> card (dom (q_heap q)) < 2 ^ 31)"
| "malloc_ok _ q = True"

definition represents :: "'a camera_queue \<Rightarrow> 'a fifo \<Rightarrow> bool" where
  "represents q f \<longleftrightarrow> (\<exists>ns. heap_list (q_heap q) (m_head q) ns (items f))
    \<and> m_size q = of_nat (length (items f)) \<and> length (items f) < 2 ^ 31
    \<and> m_active q = active f \<and> m_dataFn q = rel_fn f
    \<and> freed q = released f \<and> dataFn_calls q = rel_calls f"

text \<open>One lemma per operation.\<close>

lemma size_nonzero: "n < 2 ^ 31 \<Longrightarrow> (0 <s (of_nat n :: int32)) = (0 < n)"
  by (simp add: word_sless_alt signed_of_nat signed_take_bit_int_eq_self_iff
      take_bit_int_eq_self_iff signed_take_bit_int_eq_self)

lemma size_value: "n < 2 ^ 31 \<Longrightarrow> sint (of_nat n :: int32) = int n"
  by (simp add: signed_of_nat signed_take_bit_int_eq_self)

definition simulated :: "('a, 'm) queue_op \<Rightarrow> 'a camera_queue \<Rightarrow> 'a fifo \<Rightarrow> bool" where
  "simulated op q f \<longleftrightarrow> (\<exists>q'. queue_step op q = Some (fst (fifo_step op f), q')
     \<and> represents q' (snd (fifo_step op f)))"

lemma simulatedI:
  "queue_step op q = Some (r, q') \<Longrightarrow> fifo_step op f = (r, f') \<Longrightarrow> represents q' f' \<Longrightarrow>
    simulated op q f"
  by (simp add: simulated_def)

lemmas step_defs = simulated_def queue_step_def fifo_step_def

lemma representsE:
  assumes "represents q f"
  obtains ns where "heap_list (q_heap q) (m_head q) ns (items f)"
  using assms by (auto simp: represents_def)

lemma new_node_freed:
  "q_heap q node = None \<Longrightarrow>
    free_node node ((q_heap q)(node \<mapsto> new_node data)) = Some (q_heap q)"
  by (auto simp: free_node_def)

lemma enqueue_simulated:
  assumes rep: "represents q f" and ok: "malloc_ok (Enqueue node data) q"
  shows "simulated (Enqueue node data) q f"
proof (cases "node = 0 \<or> \<not> active f")
  case True
  then show ?thesis
    using rep ok
    by (intro simulatedI [of _ q "Truth False" q f f])
      (auto simp: step_defs enqueue_def new_node_freed represents_def)
next
  case False
  obtain ns where ns: "heap_list (q_heap q) (m_head q) ns (items f)"
    using rep by (rule representsE)
  have fresh: "q_heap q node = None" and room: "Suc (length (items f)) < 2 ^ 31"
    using ok False heap_list_card [OF ns] by auto
  obtain h' where "cam_list_add_tail_node node (m_head q)
      ((q_heap q)(node \<mapsto> new_node data)) = Some h'"
    and "heap_list h' (m_head q) (ns @ [node]) (items f @ [data])"
    using heap_list_add_tail [OF ns fresh] .
  then show ?thesis
    using rep False room by (auto simp: step_defs enqueue_def represents_def add.commute)
qed

lemma enqueueWithPriority_simulated:
  assumes rep: "represents q f" and ok: "malloc_ok (EnqueueWithPriority node data) q"
  shows "simulated (EnqueueWithPriority node data) q f"
proof (cases "node = 0 \<or> \<not> active f")
  case True
  then show ?thesis
    using rep ok
    by (intro simulatedI [of _ q "Truth False" q f f])
      (auto simp: step_defs enqueueWithPriority_def new_node_freed represents_def)
next
  case False
  obtain ns where ns: "heap_list (q_heap q) (m_head q) ns (items f)"
    using rep by (rule representsE)
  have fresh: "q_heap q node = None" and room: "Suc (length (items f)) < 2 ^ 31"
    using ok False heap_list_card [OF ns] by auto
  obtain h' where "link_at_head node (m_head q)
      ((q_heap q)(node \<mapsto> new_node data)) = Some h'"
    and "heap_list h' (m_head q) (node # ns) (data # items f)"
    using heap_list_add_head [OF ns fresh] .
  then show ?thesis
    using rep False room
    by (auto simp: step_defs enqueueWithPriority_def represents_def add.commute)
qed

lemma peek_simulated:
  assumes rep: "represents q f"
  shows "simulated Peek q f"
proof -
  obtain ns where ns: "heap_list (q_heap q) (m_head q) ns (items f)"
    using rep by (rule representsE)
  have act: "m_active q = active f"
    using rep by (simp add: represents_def)
  show ?thesis
  proof (cases ns)
    case Nil
    then have "items f = []"
      using heap_list_length [OF ns] by simp
    then show ?thesis
      using heap_list_first [OF ns] Nil act rep by (simp add: step_defs peek_def)
  next
    case (Cons x xs)
    then have "heap_list (q_heap q) (m_head q) ([] @ x # xs) (items f)"
      using ns by simp
    then obtain e es where "items f = e # es" "get_data x (q_heap q) = Some e" "x \<noteq> m_head q"
      by (rule heap_list_at [where ds = "[]" and es = "items f"]) auto
    then show ?thesis
      using heap_list_first [OF ns] Cons act rep by (simp add: step_defs peek_def)
  qed
qed

text \<open>The size counts down with the list.\<close>

lemma size_down: "(of_nat (Suc n) :: int32) - 1 = of_nat n"
  by simp

lemma dequeue_simulated:
  assumes rep: "represents q f"
  shows "simulated (Dequeue b) q f"
proof -
  obtain ns where ns: "heap_list (q_heap q) (m_head q) ns (items f)"
    using rep by (rule representsE)
  have act: "m_active q = active f"
    using rep by (simp add: represents_def)
  show ?thesis
  proof (cases "active f \<and> items f \<noteq> []")
    case False
    then have "\<not> active f \<or> ns = []"
      using heap_list_length [OF ns] by auto
    then show ?thesis
      using False heap_list_first [OF ns] heap_list_last [OF ns] act rep
      by (auto simp: step_defs dequeue_def)
  next
    case True
    obtain xs x ys ds d es where split: "ns = xs @ x # ys" "items f = ds @ d # es"
        "length xs = length ds"
      and pos: "(if b then get_next (m_head q) (q_heap q)
          else get_prev (m_head q) (q_heap q)) = Some x"
      and res: "d = (if b then hd (items f) else last (items f))"
        "ds @ es = (if b then tl (items f) else butlast (items f))"
    proof (cases b)
      case True
      then show thesis
        using that [of "[]" "hd ns" "tl ns" "[]" "hd (items f)" "tl (items f)"]
          \<open>active f \<and> items f \<noteq> []\<close> heap_list_length [OF ns] heap_list_first [OF ns]
        by (cases ns) auto
    next
      case False
      have "ns \<noteq> []"
        using heap_list_length [OF ns] True by auto
      then show thesis
        using that [of "butlast ns" "last ns" "[]" "butlast (items f)" "last (items f)" "[]"]
          True False heap_list_length [OF ns] heap_list_last [OF ns] by simp
    qed
    note ns' = ns [unfolded split(1,2)]
    obtain h1 h2 where "cam_list_del_node x (q_heap q) = Some h1" "get_data x h1 = Some d"
      "free_node x h1 = Some h2" "heap_list h2 (m_head q) (xs @ ys) (ds @ es)"
      using heap_list_remove [OF ns' split(3)] .
    moreover have "x \<noteq> m_head q"
      using heap_list_node(2) [OF ns'] .
    ultimately show ?thesis
      using rep act True pos split(2) res [symmetric]
      by (cases b) (auto simp: step_defs dequeue_def represents_def)
  qed
qed

lemma inactive_simulated:
  assumes "represents q f" and "\<not> active f"
  shows "simulated Flush q f" and "simulated (FlushNodes match) q f"
  using assms
  by (auto simp: step_defs flush_def flushNodes_def represents_def split: option.split)

lemma dequeue_match_simulated:
  assumes rep: "represents q f"
  shows "simulated (DequeueMatch match d) q f"
proof (cases "active f \<and> match \<noteq> None \<and> d \<noteq> None")
  case False
  then have "queue_step (DequeueMatch match d) q = Some (Data None, q)"
    and "fifo_step (DequeueMatch match d) f = (Data None, f)"
    using rep by (cases match; cases d; simp add: queue_step_def fifo_step_def
        dequeue_match_def represents_def)+
  then show ?thesis
    using rep by (rule simulatedI)
next
  case True
  then obtain m x where args: "match = Some m" "d = Some x" and act: "m_active q" "active f"
    using rep by (auto simp: represents_def)
  obtain ns where ns: "heap_list (q_heap q) (m_head q) ns (items f)"
    using rep by (rule representsE)
  note first = heap_list_first [OF ns]
  note loop = dequeue_loop_correct [of "q_heap q" "m_head q" "[]" ns "[]" "items f" "m x"
      "m_size q"]
  show ?thesis
  proof (cases "dropWhile (\<lambda>d. \<not> m x d) (items f)")
    case Nil
    then have "fifo_step (DequeueMatch match d) f = (Data None, f)"
      using args act by (simp add: fifo_step_def fifo_take_match_def
          del: dropWhile_eq_Nil_conv)
    moreover have "queue_step (DequeueMatch match d) q = Some (Data None, q)"
      using loop ns Nil first args act
      by (simp add: queue_step_def dequeue_match_def del: dropWhile_eq_Nil_conv)
    ultimately show ?thesis
      using rep by (blast intro: simulatedI)
  next
    case (Cons z rest)
    have len: "length (items f) = Suc (length (takeWhile (\<lambda>d. \<not> m x d) (items f) @ rest))"
      using takeWhile_dropWhile_id [of "\<lambda>d. \<not> m x d" "items f"] Cons
      by (metis add_Suc_right length_Cons length_append)
    obtain h' ns' where "dequeue_loop (m x) (m_head q) (hd (ns @ [m_head q])) (q_heap q)
          (m_size q) = Some (z, h', m_size q - 1)"
      and "heap_list h' (m_head q) ns' (takeWhile (\<lambda>d. \<not> m x d) (items f) @ rest)"
      using loop ns Cons by auto
    then show ?thesis
      using rep first args act Cons len
      by (auto simp: step_defs dequeue_match_def fifo_take_match_def represents_def)
  qed
qed

lemma flush_simulated:
  assumes rep: "represents q f"
  shows "simulated Flush q f"
proof (cases "active f")
  case False
  then show ?thesis
    using inactive_simulated(1) [OF rep] by blast
next
  case True
  obtain ns where ns: "heap_list (q_heap q) (m_head q) ns (items f)"
    using rep by (rule representsE)
  from flush_loop_correct [OF ns, of "m_size q" "[]"]
  obtain h' where "flush_loop (m_head q) (hd (ns @ [m_head q])) (q_heap q) (m_size q) [] =
      Some (h', m_size q - of_nat (length (items f)), concat (map non_null (items f)))"
    and "heap_list h' (m_head q) [] []"
    by auto
  then have "queue_step Flush q = Some (Done,
      release_all (concat (map non_null (items f)))
        (q\<lparr>q_heap := h', m_size := 0, m_active := False\<rparr>))"
    using rep True heap_list_first [OF ns]
    by (simp add: queue_step_def flush_def represents_def)
  moreover have "fifo_step Flush f = (Done, (fifo_release (\<lambda>d. True) f)\<lparr>active := False\<rparr>)"
    using True by (simp add: fifo_step_def)
  moreover have "represents (release_all (concat (map non_null (items f)))
        (q\<lparr>q_heap := h', m_size := 0, m_active := False\<rparr>))
      ((fifo_release (\<lambda>d. True) f)\<lparr>active := False\<rparr>)"
    using rep \<open>heap_list h' (m_head q) [] []\<close>
    by (auto simp: represents_def release_all_def fifo_release_def Let_def)
  ultimately show ?thesis
    by (rule simulatedI)
qed

lemma size_filter:
  "(of_nat (length xs) :: int32) - of_nat (length (filter P xs)) =
     of_nat (length (filter (\<lambda>x. \<not> P x) xs))"
  using sum_length_filter_compl [of P xs] by (metis add_diff_cancel_left' of_nat_add)

lemma flushNodes_simulated:
  assumes rep: "represents q f"
  shows "simulated (FlushNodes match) q f"
proof (cases "active f \<and> match \<noteq> None")
  case False
  then show ?thesis
    using inactive_simulated(2) [OF rep] rep by (auto simp: step_defs flushNodes_def)
next
  case True
  then obtain m where match: "match = Some m" and act: "m_active q" "active f"
    using rep by (auto simp: represents_def)
  obtain ns where ns: "heap_list (q_heap q) (m_head q) ns (items f)"
    using rep by (rule representsE)
  from flushNodes_loop_correct [of "q_heap q" "m_head q" "[]" ns "[]" "items f" m
      "m_size q" "[]"] ns
  obtain h' ns' where "flushNodes_loop m (m_head q) (hd (ns @ [m_head q])) (q_heap q)
      (m_size q) [] = Some (h', m_size q - of_nat (length (filter m (items f))),
        concat (map non_null (filter m (items f))))"
    and "heap_list h' (m_head q) ns' (filter (\<lambda>d. \<not> m d) (items f))"
    by auto
  moreover have "length (filter (\<lambda>d. \<not> m d) (items f)) < 2 ^ 31"
    using rep by (auto simp: represents_def intro: le_less_trans [OF length_filter_le])
  ultimately show ?thesis
    using rep act match heap_list_first [OF ns]
    by (auto simp: step_defs flushNodes_def release_all_def fifo_release_def represents_def
        size_filter Let_def)
qed

lemma flushNodes_data_is_flushNodes:
  fixes match :: "('m \<Rightarrow> 'a option \<Rightarrow> bool) option" and d :: 'm
  defines "op \<equiv> FlushNodes (map_option (\<lambda>m. m d) match) :: ('a, 'm) queue_op"
  shows "queue_step (FlushNodesData match d) q = queue_step op q"
    and "fifo_step (FlushNodesData match d) f = fifo_step op f"
  unfolding op_def
  by (auto simp: queue_step_def fifo_step_def flushNodes_data_def flushNodes_def
      split: option.split)

lemma queue_simulated:
  assumes "represents q f" and "malloc_ok op q"
  shows "simulated op q f"
proof (cases op)
  case Init
  then show ?thesis
    using assms(1) by (auto simp: step_defs queue_init_def represents_def)
next
  case IsEmpty
  then show ?thesis
    using assms(1) by (auto simp: step_defs isEmpty_def represents_def size_nonzero)
next
  case GetCurrentSize
  then show ?thesis
    using assms(1) by (auto simp: step_defs getCurrentSize_def represents_def size_value)
next
  case (FlushNodesData match d)
  then show ?thesis
    using flushNodes_simulated [OF assms(1), of "map_option (\<lambda>m. m d) match"]
    by (simp add: simulated_def flushNodes_data_is_flushNodes)
qed (use assms in \<open>simp_all add: enqueue_simulated enqueueWithPriority_simulated
  peek_simulated dequeue_simulated dequeue_match_simulated flush_simulated
  flushNodes_simulated del: malloc_ok.simps\<close>)

interpretation camq: refinement queue_step fifo_step represents malloc_ok
  using queue_simulated by unfold_locales (simp add: simulated_def)

section \<open>Runs of the queue\<close>

definition empty_fifo :: "bool \<Rightarrow> 'a fifo" where
  "empty_fifo fn = \<lparr>items = [], active = True, rel_fn = fn, released = [], rel_calls = []\<rparr>"

lemma QCameraQueue_represents:
  assumes "QCameraQueue head fn = Some q"
  shows "represents q (empty_fifo fn)"
proof -
  let ?n = "(new_node None)\<lparr>list_next := head, list_prev := head\<rparr>"
  have "q = \<lparr>m_head = head, q_heap = [head \<mapsto> ?n], m_size = 0, m_active = True,
      m_dataFn = fn, freed = [], dataFn_calls = []\<rparr>"
    using assms by (simp add: QCameraQueue_def cam_list_init_def set_next_def set_prev_def)
  moreover have "heap_list [head \<mapsto> ?n] head [] []"
    by (simp add: heap_list_def)
  ultimately show ?thesis
    by (auto simp: represents_def empty_fifo_def)
qed

text \<open>The data pointers a run took in, and those it handed out, in order.\<close>

fun accepted :: "('a, 'm) queue_op list \<Rightarrow> 'a queue_result list \<Rightarrow> 'a list" where
  "accepted (Enqueue node data # ops) (Truth True # rs) = non_null data @ accepted ops rs"
| "accepted (EnqueueWithPriority node data # ops) (Truth True # rs) =
    non_null data @ accepted ops rs"
| "accepted (op # ops) (r # rs) = accepted ops rs"
| "accepted _ _ = []"

fun handed_out :: "('a, 'm) queue_op list \<Rightarrow> 'a queue_result list \<Rightarrow> 'a list" where
  "handed_out (Dequeue b # ops) (Data data # rs) = non_null data @ handed_out ops rs"
| "handed_out (DequeueMatch m d # ops) (Data data # rs) = non_null data @ handed_out ops rs"
| "handed_out (op # ops) (r # rs) = handed_out ops rs"
| "handed_out _ _ = []"

definition contents :: "'a fifo \<Rightarrow> 'a list" where
  "contents f = concat (map non_null (items f))"

lemma mset_partition:
  "mset (concat (map non_null (filter (\<lambda>d. \<not> P d) xs)))
     + mset (concat (map non_null (filter P xs))) = mset (concat (map non_null xs))"
  by (induction xs) auto

lemma mset_butlast:
  "xs \<noteq> [] \<Longrightarrow> mset (concat (map non_null (butlast xs))) + mset (non_null (last xs))
     = mset (concat (map non_null xs))"
  by (induction xs rule: rev_induct) auto

lemma mset_dropWhile:
  assumes "dropWhile P xs = d # rest"
  shows "mset (concat (map non_null (takeWhile P xs))) + mset (concat (map non_null rest))
    + mset (non_null d) = mset (concat (map non_null xs))"
proof -
  have "xs = takeWhile P xs @ d # rest"
    using assms by (metis takeWhile_dropWhile_id)
  then have "concat (map non_null xs) = concat (map non_null (takeWhile P xs)) @ non_null d
      @ concat (map non_null rest)"
    by (metis concat.simps(2) concat_append list.simps(9) map_append)
  then show ?thesis
    by (simp add: ac_simps)
qed

lemma fifo_release_owned:
  "mset (contents (fifo_release m f)) + mset (released (fifo_release m f)) =
     mset (contents f) + mset (released f)"
  using mset_partition [of m "items f"]
  by (simp add: fifo_release_def contents_def Let_def ac_simps)

lemma fifo_step_owned:
  assumes "fifo_step op f = (r, f')"
  shows "mset (contents f') + mset (released f') + mset (handed_out [op] [r]) =
     mset (contents f) + mset (released f) + mset (accepted [op] [r])"
proof (cases op)
  case (Dequeue b)
  then show ?thesis
    using assms mset_butlast [of "items f"]
    by (cases "items f")
      (auto simp: fifo_step_def contents_def ac_simps split: if_splits)
next
  case (DequeueMatch m d)
  then show ?thesis
    using assms
    by (auto simp: fifo_step_def fifo_take_match_def contents_def ac_simps
        simp del: dropWhile_eq_Nil_conv dest!: mset_dropWhile
        split: if_splits option.splits list.splits)
next
  case Flush
  then show ?thesis
    using assms fifo_release_owned [of "\<lambda>d. True" f]
    by (auto simp: fifo_step_def contents_def split: if_splits)
qed (use assms in \<open>auto simp: fifo_step_def contents_def fifo_release_owned [unfolded contents_def]
  split: if_splits option.splits\<close>)

lemma accepted_Cons: "accepted (op # ops) (r # rs) = accepted [op] [r] @ accepted ops rs"
  by (cases "(op # ops, r # rs)" rule: accepted.cases) auto

lemma handed_out_Cons: "handed_out (op # ops) (r # rs) = handed_out [op] [r] @ handed_out ops rs"
  by (cases "(op # ops, r # rs)" rule: handed_out.cases) auto

lemma run_spec_owned:
  assumes "run_spec fifo_step ops f = (rs, f')"
  shows "mset (contents f') + mset (released f') + mset (handed_out ops rs) =
     mset (contents f) + mset (released f) + mset (accepted ops rs)"
  using assms
proof (induction ops arbitrary: f rs)
  case Nil
  then show ?case
    by simp
next
  case (Cons op ops)
  obtain r f1 where step: "fifo_step op f = (r, f1)"
    by fastforce
  obtain rs1 where rest: "run_spec fifo_step ops f1 = (rs1, f')" and rs: "rs = r # rs1"
    using Cons.prems step by (auto split: prod.splits)
  have "mset (contents f') + mset (released f') + mset (handed_out (op # ops) rs) =
      (mset (contents f1) + mset (released f1) + mset (handed_out [op] [r]))
        + mset (accepted ops rs1)"
    using Cons.IH [OF rest] rs by (simp add: handed_out_Cons [of op ops] ac_simps)
  also have "\<dots> = mset (contents f) + mset (released f) + mset (accepted (op # ops) rs)"
    using fifo_step_owned [OF step] rs
    by (simp add: accepted_Cons [of op ops] ac_simps)
  finally show ?case .
qed

section \<open>Properties\<close>

definition a_queue :: "nat camera_queue" where
  "a_queue = \<lparr>m_head = 10,
     q_heap = [10 \<mapsto> \<lparr>list_next = 10, list_prev = 10, node_data = None\<rparr>], m_size = 0,
     m_active = True, m_dataFn = True, freed = [], dataFn_calls = []\<rparr>"

definition some_ops :: "(nat, nat) queue_op list" where
  "some_ops = [Enqueue 1 (Some 5), EnqueueWithPriority 2 (Some 6), Dequeue False, Flush,
     Enqueue 1 (Some 7)]"

lemma a_queue_made: "QCameraQueue 10 True = Some a_queue"
  by (simp add: a_queue_def QCameraQueue_def cam_list_init_def set_next_def set_prev_def
      new_node_def)

lemmas run_queue_simps = a_queue_def some_ops_def queue_step_def enqueue_def
  enqueueWithPriority_def dequeue_def flush_def release_all_def link_at_head_def
  cam_list_add_tail_node_def cam_list_del_node_def set_next_def set_prev_def get_next_def
  get_prev_def get_data_def free_node_def new_node_def flush_loop.simps

lemma some_ops_run:
  "run_ok queue_step malloc_ok some_ops a_queue"
  "\<exists>q'. run_steps queue_step some_ops a_queue =
     Some ([Truth True, Truth True, Data (Some 5), Done, Truth False], q') \<and> freed q' = [6]"
  by (simp_all add: run_queue_simps)

text \<open>
  C1: a queue behaves as a list. From the constructor, any sequence of operations runs to
  its end without touching a dead node, gives the results the list gives, and leaves a heap
  that holds the nodes of the list in their order and no other: enqueue appends, enqueue
  with priority prepends, dequeue takes the first or the last element or the first that
  matches, the flushes release what they remove.
\<close>

theorem queue_refines_list:
  assumes "QCameraQueue head fn = Some q" and "run_ok queue_step malloc_ok ops q"
  shows "\<exists>q'. run_steps queue_step ops q =
      Some (fst (run_spec fifo_step ops (empty_fifo fn)), q')
    \<and> represents q' (snd (run_spec fifo_step ops (empty_fifo fn)))"
proof -
  have "represents q (empty_fifo fn)"
    using assms(1) by (rule QCameraQueue_represents)
  then show ?thesis
    using assms(2) by (rule camq.run_simulates)
qed

theorem queue_refines_list_witness:
  "\<exists>q'. run_steps queue_step some_ops a_queue =
    Some ([Truth True, Truth True, Data (Some 5), Done, Truth False], q')"
  using queue_refines_list [OF a_queue_made some_ops_run(1)]
  by (auto simp: some_ops_def fifo_step_def fifo_release_def empty_fifo_def)

text \<open>
  C23: every data pointer the queue takes in has one owner: over any run, the data accepted
  are, with their multiplicities, the data handed out by dequeue, the data released by the
  flushes and the data still queued. Nothing is lost, nothing is released twice.
\<close>

theorem queue_data_owned_once:
  assumes "QCameraQueue head fn = Some q" and "run_ok queue_step malloc_ok ops q"
    and "run_steps queue_step ops q = Some (rs, q')"
  shows "\<exists>ds. (\<exists>ns. heap_list (q_heap q') (m_head q') ns ds)
    \<and> mset (accepted ops rs) =
        mset (handed_out ops rs) + mset (freed q') + mset (concat (map non_null ds))"
proof -
  have "represents q (empty_fifo fn)"
    using assms(1) by (rule QCameraQueue_represents)
  from camq.run_simulates [OF this assms(2)] assms(3)
  obtain f' where spec: "run_spec fifo_step ops (empty_fifo fn) = (rs, f')"
    and rep: "represents q' f'"
    by (metis (no_types, lifting) Pair_inject option.inject prod.collapse)
  have "mset (accepted ops rs) =
      mset (handed_out ops rs) + mset (freed q') + mset (concat (map non_null (items f')))"
    using run_spec_owned [OF spec] rep
    by (simp add: represents_def empty_fifo_def contents_def ac_simps)
  then show ?thesis
    using rep by (auto simp: represents_def)
qed

theorem queue_data_owned_once_witness:
  "accepted some_ops [Truth True, Truth True, Data (Some 5), Done, Truth False] = [5, 6]
   \<and> (\<exists>q' ds. run_steps queue_step some_ops a_queue =
       Some ([Truth True, Truth True, Data (Some 5), Done, Truth False], q')
     \<and> mset [5, 6] = mset [5] + mset (freed q') + mset (concat (map non_null ds)))"
proof -
  obtain q' where q': "run_steps queue_step some_ops a_queue =
      Some ([Truth True, Truth True, Data (Some 5), Done, Truth False], q')"
    using some_ops_run(2) by blast
  then show ?thesis
    using queue_data_owned_once [OF a_queue_made some_ops_run(1) q']
    by (auto simp: some_ops_def)
qed

text \<open>
  A flush of an active queue frees every node but the head, passes every data pointer
  to the release function (when there is one) and to \<open>free\<close> once, in order, and leaves the
  queue refusing data until it is initialised again.
\<close>

theorem flush_empties:
  assumes "represents q f" and "active f"
  shows "\<exists>q'. flush q = Some q' \<and> dom (q_heap q') = {m_head q'} \<and> m_size q' = 0
    \<and> freed q' = freed q @ contents f
    \<and> dataFn_calls q' = dataFn_calls q @ (if m_dataFn q then contents f else [])
    \<and> (\<forall>node data. q_heap q' node = None \<longrightarrow> enqueue node data q' = Some (False, q'))"
proof -
  obtain q' where q': "queue_step Flush q = Some (Done, q')"
    and rep: "represents q' ((fifo_release (\<lambda>d. True) f)\<lparr>active := False\<rparr>)"
    using flush_simulated [OF assms(1)] assms(2) by (auto simp: simulated_def fifo_step_def)
  obtain ns where ns: "heap_list (q_heap q') (m_head q') ns []"
    using rep by (auto simp: represents_def fifo_release_def Let_def)
  then have "dom (q_heap q') = {m_head q'}"
    using heap_list_length [OF ns] by (simp add: heap_list_def)
  moreover have "flush q = Some q'"
    using q' by (auto simp: queue_step_def)
  ultimately show ?thesis
    using rep assms
    by (auto simp: represents_def fifo_release_def contents_def Let_def enqueue_def
        new_node_freed)
qed

theorem flush_empties_witness:
  "\<exists>q'. flush a_queue = Some q' \<and> dom (q_heap q') = {m_head q'}"
  using flush_empties [OF QCameraQueue_represents [OF a_queue_made]]
  by (auto simp: empty_fifo_def)

end
