(* ===== verification/CamTypes.thy ===== *)
theory CamTypes
  imports Prelude
begin

text \<open>
  The data of the camera HAL's state machine (\<open>QCameraStateMachine.h\<close>) and the
  operations its event handlers are written with. The handlers run on the state
  machine's thread and call methods of the object \<open>m_parent\<close>, the hardware interface
  (HWI). Those calls are the boundary of this model: each is an element of \<open>hwi_op\<close>,
  is recorded in \<open>hwi_log\<close>, and returns whatever the interface \<open>m_parent\<close> answers, a
  function of everything that was called before. Every theorem holds for every such
  function, so for every behaviour of the hardware, of the drivers and of the parts of
  the HWI that are not modelled.
\<close>

section \<open>Events and states\<close>

datatype sm_evt =
    QCAMERA_SM_EVT_SET_PREVIEW_WINDOW
  | QCAMERA_SM_EVT_SET_CALLBACKS
  | QCAMERA_SM_EVT_ENABLE_MSG_TYPE
  | QCAMERA_SM_EVT_DISABLE_MSG_TYPE
  | QCAMERA_SM_EVT_MSG_TYPE_ENABLED
  | QCAMERA_SM_EVT_SET_PARAMS
  | QCAMERA_SM_EVT_SET_PARAMS_STOP
  | QCAMERA_SM_EVT_SET_PARAMS_COMMIT
  | QCAMERA_SM_EVT_SET_PARAMS_RESTART
  | QCAMERA_SM_EVT_GET_PARAMS
  | QCAMERA_SM_EVT_PUT_PARAMS
  | QCAMERA_SM_EVT_PREPARE_PREVIEW
  | QCAMERA_SM_EVT_START_PREVIEW
  | QCAMERA_SM_EVT_START_NODISPLAY_PREVIEW
  | QCAMERA_SM_EVT_STOP_PREVIEW
  | QCAMERA_SM_EVT_PREVIEW_ENABLED
  | QCAMERA_SM_EVT_STORE_METADATA_IN_BUFS
  | QCAMERA_SM_EVT_PRE_START_RECORDING
  | QCAMERA_SM_EVT_START_RECORDING
  | QCAMERA_SM_EVT_STOP_RECORDING
  | QCAMERA_SM_EVT_RECORDING_ENABLED
  | QCAMERA_SM_EVT_RELEASE_RECORIDNG_FRAME
  | QCAMERA_SM_EVT_PREPARE_SNAPSHOT
  | QCAMERA_SM_EVT_PRE_TAKE_PICTURE
  | QCAMERA_SM_EVT_TAKE_PICTURE
  | QCAMERA_SM_EVT_CANCEL_PICTURE
  | QCAMERA_SM_EVT_START_AUTO_FOCUS
  | QCAMERA_SM_EVT_STOP_AUTO_FOCUS
  | QCAMERA_SM_EVT_SEND_COMMAND
  | QCAMERA_SM_EVT_RELEASE
  | QCAMERA_SM_EVT_DUMP
  | QCAMERA_SM_EVT_REG_FACE_IMAGE
  | QCAMERA_SM_EVT_EVT_INTERNAL
  | QCAMERA_SM_EVT_EVT_NOTIFY
  | QCAMERA_SM_EVT_JPEG_EVT_NOTIFY
  | QCAMERA_SM_EVT_SNAPSHOT_DONE
  | QCAMERA_SM_EVT_THERMAL_NOTIFY
  | QCAMERA_SM_EVT_STOP_CAPTURE_CHANNEL
  | QCAMERA_SM_EVT_RESTART_PERVIEW
  | QCAMERA_SM_EVT_DELAYED_RESTART
  | QCAMERA_SM_EVT_SEND_COMMAND_RESTART
  | QCAMERA_SM_EVT_RESTART_START_PREVIEW
  | QCAMERA_SM_EVT_RESTART_STOP_PREVIEW
  | QCAMERA_SM_EVT_MAX

text \<open>The numbers of the enumerators; the first is 1, the others follow.\<close>

definition sm_evt_list :: "sm_evt list" where
  "sm_evt_list =
    [QCAMERA_SM_EVT_SET_PREVIEW_WINDOW, QCAMERA_SM_EVT_SET_CALLBACKS,
     QCAMERA_SM_EVT_ENABLE_MSG_TYPE, QCAMERA_SM_EVT_DISABLE_MSG_TYPE,
     QCAMERA_SM_EVT_MSG_TYPE_ENABLED, QCAMERA_SM_EVT_SET_PARAMS,
     QCAMERA_SM_EVT_SET_PARAMS_STOP, QCAMERA_SM_EVT_SET_PARAMS_COMMIT,
     QCAMERA_SM_EVT_SET_PARAMS_RESTART, QCAMERA_SM_EVT_GET_PARAMS,
     QCAMERA_SM_EVT_PUT_PARAMS, QCAMERA_SM_EVT_PREPARE_PREVIEW,
     QCAMERA_SM_EVT_START_PREVIEW, QCAMERA_SM_EVT_START_NODISPLAY_PREVIEW,
     QCAMERA_SM_EVT_STOP_PREVIEW, QCAMERA_SM_EVT_PREVIEW_ENABLED,
     QCAMERA_SM_EVT_STORE_METADATA_IN_BUFS, QCAMERA_SM_EVT_PRE_START_RECORDING,
     QCAMERA_SM_EVT_START_RECORDING, QCAMERA_SM_EVT_STOP_RECORDING,
     QCAMERA_SM_EVT_RECORDING_ENABLED, QCAMERA_SM_EVT_RELEASE_RECORIDNG_FRAME,
     QCAMERA_SM_EVT_PREPARE_SNAPSHOT, QCAMERA_SM_EVT_PRE_TAKE_PICTURE,
     QCAMERA_SM_EVT_TAKE_PICTURE, QCAMERA_SM_EVT_CANCEL_PICTURE,
     QCAMERA_SM_EVT_START_AUTO_FOCUS, QCAMERA_SM_EVT_STOP_AUTO_FOCUS,
     QCAMERA_SM_EVT_SEND_COMMAND, QCAMERA_SM_EVT_RELEASE, QCAMERA_SM_EVT_DUMP,
     QCAMERA_SM_EVT_REG_FACE_IMAGE, QCAMERA_SM_EVT_EVT_INTERNAL,
     QCAMERA_SM_EVT_EVT_NOTIFY, QCAMERA_SM_EVT_JPEG_EVT_NOTIFY,
     QCAMERA_SM_EVT_SNAPSHOT_DONE, QCAMERA_SM_EVT_THERMAL_NOTIFY,
     QCAMERA_SM_EVT_STOP_CAPTURE_CHANNEL, QCAMERA_SM_EVT_RESTART_PERVIEW,
     QCAMERA_SM_EVT_DELAYED_RESTART, QCAMERA_SM_EVT_SEND_COMMAND_RESTART,
     QCAMERA_SM_EVT_RESTART_START_PREVIEW, QCAMERA_SM_EVT_RESTART_STOP_PREVIEW,
     QCAMERA_SM_EVT_MAX]"

fun position :: "'a \<Rightarrow> 'a list \<Rightarrow> nat" where
  "position x [] = 0"
| "position x (y # ys) = (if x = y then 0 else Suc (position x ys))"

definition sm_evt_code :: "sm_evt \<Rightarrow> int32" where
  "sm_evt_code e = of_nat (Suc (position e sm_evt_list))"

datatype sm_state =
    QCAMERA_SM_STATE_PREVIEW_STOPPED
  | QCAMERA_SM_STATE_PREVIEW_READY
  | QCAMERA_SM_STATE_PREVIEWING
  | QCAMERA_SM_STATE_PREPARE_SNAPSHOT
  | QCAMERA_SM_STATE_PIC_TAKING
  | QCAMERA_SM_STATE_RECORDING
  | QCAMERA_SM_STATE_VIDEO_PIC_TAKING
  | QCAMERA_SM_STATE_PREVIEW_PIC_TAKING

section \<open>Results\<close>

text \<open>
  Status codes, symbolically: the code compares them with \<open>NO_ERROR\<close> (0) only.
  \<open>OTHER_ERROR\<close> is any other non-zero code a method of the HWI may return.
\<close>

datatype status_t =
    NO_ERROR | INVALID_OPERATION | UNKNOWN_ERROR | BAD_VALUE | NO_MEMORY | DEAD_OBJECT
  | OTHER_ERROR int32

datatype result_type =
    QCAMERA_API_RESULT_TYPE_DEF
  | QCAMERA_API_RESULT_TYPE_ENABLE_FLAG
  | QCAMERA_API_RESULT_TYPE_PARAMS
  | QCAMERA_API_RESULT_TYPE_HANDLE
  | QCAMERA_API_RESULT_TYPE_MAX

text \<open>The union of \<open>qcamera_api_result_t\<close>; \<open>NoValue\<close> is the zeroed union.\<close>

datatype result_value = NoValue | Enabled int32 | Params addr | Handle int32

record api_result =
  status :: status_t
  request_api :: sm_evt
  result_kind :: result_type
  result_value :: result_value

section \<open>Payloads\<close>

text \<open>
  A handler receives its payload as an untyped pointer and casts it to the type its event
  carries. The record below gives, for each of these types, what a read through the cast
  pointer finds; \<open>pl_addr\<close> is the pointer itself.
\<close>

datatype internal_evt_type =
    QCAMERA_INTERNAL_EVT_FOCUS_UPDATE
  | QCAMERA_INTERNAL_EVT_PREP_SNAPSHOT_DONE
  | QCAMERA_INTERNAL_EVT_FACE_DETECT_RESULT
  | QCAMERA_INTERNAL_EVT_HISTOGRAM_STATS
  | QCAMERA_INTERNAL_EVT_CROP_INFO
  | QCAMERA_INTERNAL_EVT_ASD_UPDATE
  | QCAMERA_INTERNAL_EVT_READY_FOR_SNAPSHOT
  | QCAMERA_INTERNAL_EVT_LED_MODE_OVERRIDE
  | QCAMERA_INTERNAL_EVT_AWB_UPDATE
  | QCAMERA_INTERNAL_EVT_AE_UPDATE
  | QCAMERA_INTERNAL_EVT_FOCUS_POS_UPDATE
  | QCAMERA_INTERNAL_EVT_HDR_UPDATE
  | QCAMERA_INTERNAL_EVT_RETRO_AEC_UNLOCK
  | QCAMERA_INTERNAL_EVT_ZSL_CAPTURE_DONE
  | QCAMERA_INTERNAL_EVT_MAX

datatype cam_event_type =
    CAM_EVENT_TYPE_MAP_UNMAP_DONE
  | CAM_EVENT_TYPE_AUTO_FOCUS_DONE
  | CAM_EVENT_TYPE_ZOOM_DONE
  | CAM_EVENT_TYPE_DAEMON_DIED
  | CAM_EVENT_TYPE_INT_TAKE_JPEG
  | CAM_EVENT_TYPE_INT_TAKE_RAW
  | CAM_EVENT_TYPE_DAEMON_PULL_REQ
  | CAM_EVENT_TYPE_CAC_DONE
  | CAM_EVENT_TYPE_MAX

text \<open>Camera commands; the two the state machine inspects are named.\<close>

datatype camera_cmd = CAMERA_CMD_LONGSHOT_ON | CAMERA_CMD_LONGSHOT_OFF | CAMERA_CMD_OTHER int32

record setcb_payload =
  notify_cb :: addr
  data_cb :: addr
  data_cb_timestamp :: addr
  get_memory :: addr
  cb_user :: addr

record command_payload =
  cmd :: camera_cmd
  arg1 :: int32
  arg2 :: int32

record reg_face_payload =
  img_ptr :: addr
  config :: addr

record internal_evt_payload =
  evt_type :: internal_evt_type
  evt_data :: addr

record payload =
  pl_addr :: addr
  pl_int32 :: int32
  pl_setcb :: setcb_payload
  pl_command :: command_payload
  pl_reg_face :: reg_face_payload
  pl_internal :: internal_evt_payload
  pl_server_event_type :: cam_event_type

end
