(* ===== verification/CamHwi.thy ===== *)
theory CamHwi
  imports CamTypes
begin

text \<open>
  The calls a handler makes on \<open>m_parent\<close>, the state of the state machine object, and the
  programs the handlers share: a call, a reply to the API caller, \<open>applyDelayedMsgs\<close>.
\<close>

section \<open>The interface m_parent\<close>

datatype hwi_query =
    IsZSLMode | IsLongshotEnabled | IsPreviewRestartEnabled | IsRetroPicture
  | IsCACEnabled | IsOEMFeatEnabled | IsCaptureShutterEnabled | GetRecordingHintValue

datatype hwi_notify =
    ProcessAutoFocusEvent addr
  | ProcessPrepSnapshotDoneEvent addr
  | ProcessFaceDetectionResult addr
  | ProcessHistogramStats addr
  | ProcessZoomEvent addr
  | ProcessASDUpdate addr
  | UpdateFlashMode addr
  | TransAwbMetaToParams addr
  | ProcessAEInfo addr
  | ProcessFocusPositionInfo addr
  | ProcessHDRData addr
  | ProcessRetroAECUnlock
  | ProcessZSLCaptureDone
  | ProcessJpegNotify addr
  | UpdateThermalLevel addr
  | SendEvtNotify_ServerDied
  | PlayShutter
  | Set_mCACDoneReceived

datatype hwi_param =
    UpdateParameters addr
  | CommitParameterChanges
  | SetNeedRestart bool
  | GetParameters
  | PutParameters addr
  | MallocNullParams
  | MemoryPoolClear
  | UpdateRecordingHintValue bool
  | UpdateZSLModeValue bool
  | GetManualCaptureMode

datatype hwi_op =
    WaitDeferredWork_mParamInitJob
  | SetPreviewWindow addr
  | Get_mPreviewWindow
  | SetCallBacks setcb_payload
  | EnableMsgType int32
  | DisableMsgType int32
  | MsgTypeEnabled int32
  | PreparePreview
  | StartPreview
  | StopPreview
  | UnpreparePreview
  | Set_m_bPreviewStarted
  | Release
  | StoreMetaDataInBuffers int32
  | Dump int32
  | SendCommand command_payload
  | CloseNativeHandle addr
  | ReleaseRecordingFrame addr
  | AutoFocus
  | CancelAutoFocus
  | RegisterFaceImage reg_face_payload
  | PreStartRecording
  | StartRecording
  | StopRecording
  | PrepareHardwareForSnapshot bool
  | PreTakePicture
  | TakePicture
  | LongShot
  | CancelPicture
  | TakeLiveSnapshot
  | CancelLiveSnapshot
  | UnconfigureAdvancedCapture
  | StopChannel_ZSL
  | StopChannel_PREVIEW
  | StopCaptureChannel bool
  | Query hwi_query
  | Notify hwi_notify
  | Param hwi_param

text \<open>
  An answer: the status code, the boolean, the pointer and the integer (returned, or
  stored through a reference parameter); a method uses the components of its C++ type.
\<close>

record hwi_answer =
  ret :: status_t
  flag :: bool
  ptr :: addr
  out :: int32

datatype hwi_event =
    HwiCall hwi_op hwi_answer
  | ApiResult api_result
  | EvtResult api_result

text \<open>
  \<open>m_parent\<close> with the constants of the platform headers that are not part of the
  repository: the preview-frame bit of the message mask, and whether the build defines
  \<open>VANILLA_HAL\<close>.
\<close>

record hwi =
  answer :: "hwi_event list \<Rightarrow> hwi_op \<Rightarrow> hwi_answer"
  CAMERA_MSG_PREVIEW_FRAME :: int32
  VANILLA_HAL :: bool

definition CAM_MANUAL_CAPTURE_TYPE_3 :: int32 where
  "CAM_MANUAL_CAPTURE_TYPE_3 = 3"

section \<open>The state machine object\<close>

text \<open>
  The log holds what the handlers did to \<open>m_parent\<close>, newest first. The queues and the
  thread are in \<open>CamThread\<close>.
\<close>

record sm =
  m_parent :: hwi
  m_state :: sm_state
  m_bDelayPreviewMsgs :: bool
  m_bPreviewNeedsRestart :: bool
  m_bPreviewDelayedRestart :: bool
  m_DelayedMsgs :: int32
  m_RestoreZSL :: bool
  m_bPreviewCallbackNeeded :: bool
  hwi_log :: "hwi_event list"

text \<open>
  The constructor leaves \<open>m_bPreviewNeedsRestart\<close> and \<open>m_bPreviewDelayedRestart\<close>
  uninitialised: their initial values are arguments here.
\<close>

definition QCameraStateMachine :: "hwi \<Rightarrow> bool \<Rightarrow> bool \<Rightarrow> sm" where
  "QCameraStateMachine ctrl needs delayed =
    \<lparr> m_parent = ctrl, m_state = QCAMERA_SM_STATE_PREVIEW_STOPPED,
      m_bDelayPreviewMsgs = False, m_bPreviewNeedsRestart = needs,
      m_bPreviewDelayedRestart = delayed, m_DelayedMsgs = 0, m_RestoreZSL = True,
      m_bPreviewCallbackNeeded = True, hwi_log = [] \<rparr>"

definition setPreviewCallbackNeeded :: "bool \<Rightarrow> sm \<Rightarrow> sm" where
  "setPreviewCallbackNeeded enabled s = s\<lparr>m_bPreviewCallbackNeeded := enabled\<rparr>"

section \<open>Programs the handlers are made of\<close>

type_synonym 'a smprog = "(sm, 'a) state"

definition sm_log :: "hwi_event \<Rightarrow> unit smprog" where
  "sm_log e = State_Monad.update (\<lambda>s. s\<lparr>hwi_log := e # hwi_log s\<rparr>)"

definition hwi_answer_of :: "sm \<Rightarrow> hwi_op \<Rightarrow> hwi_answer" where
  "hwi_answer_of s op = answer (m_parent s) (hwi_log s) op"

definition hwi_call :: "hwi_op \<Rightarrow> hwi_answer smprog" where
  "hwi_call op = do {
     s \<leftarrow> State_Monad.get;
     let a = hwi_answer_of s op;
     sm_log (HwiCall op a);
     State_Monad.return a }"

text \<open>A call for its status, its truth value, or its effect alone.\<close>

definition call_rc :: "hwi_op \<Rightarrow> status_t smprog" where
  "call_rc op = do { a \<leftarrow> hwi_call op; State_Monad.return (ret a) }"

definition query :: "hwi_query \<Rightarrow> bool smprog" where
  "query q = do { a \<leftarrow> hwi_call (Query q); State_Monad.return (flag a) }"

definition invoke :: "hwi_op \<Rightarrow> unit smprog" where
  "invoke op = do { hwi_call op; State_Monad.return () }"

definition goto_state :: "sm_state \<Rightarrow> unit smprog" where
  "goto_state st = State_Monad.update (\<lambda>s. s\<lparr>m_state := st\<rparr>)"

definition set_delay :: "bool \<Rightarrow> unit smprog" where
  "set_delay b = State_Monad.update (\<lambda>s. s\<lparr>m_bDelayPreviewMsgs := b\<rparr>)"

text \<open>\<open>result.status = ...; m_parent->signalAPIResult(&result)\<close> and its variants.\<close>

definition signalAPIResult :: "api_result \<Rightarrow> unit smprog" where
  "signalAPIResult r = sm_log (ApiResult r)"

definition signalEvtResult :: "api_result \<Rightarrow> unit smprog" where
  "signalEvtResult r = sm_log (EvtResult r)"

definition def_result :: "sm_evt \<Rightarrow> status_t \<Rightarrow> api_result" where
  "def_result evt rc =
    \<lparr> status = rc, request_api = evt, result_kind = QCAMERA_API_RESULT_TYPE_DEF,
      result_value = NoValue \<rparr>"

definition reply :: "sm_evt \<Rightarrow> status_t \<Rightarrow> status_t smprog" where
  "reply evt rc = do { signalAPIResult (def_result evt rc); State_Monad.return rc }"

definition reply_enabled :: "sm_evt \<Rightarrow> status_t \<Rightarrow> int32 \<Rightarrow> status_t smprog" where
  "reply_enabled evt rc enabled = do {
     signalAPIResult \<lparr> status = rc, request_api = evt,
       result_kind = QCAMERA_API_RESULT_TYPE_ENABLE_FLAG, result_value = Enabled enabled \<rparr>;
     State_Monad.return rc }"

definition reply_evt :: "sm_evt \<Rightarrow> status_t \<Rightarrow> status_t smprog" where
  "reply_evt evt rc = do { signalEvtResult (def_result evt rc); State_Monad.return rc }"

text \<open>The commonest body: call one method and reply with its status.\<close>

definition call_reply :: "sm_evt \<Rightarrow> hwi_op \<Rightarrow> status_t smprog" where
  "call_reply evt op = do { rc \<leftarrow> call_rc op; reply evt rc }"

text \<open>\<open>Error!! cannot handle evt in state\<close>, and \<open>no ops here\<close>.\<close>

definition cannot_handle :: "sm_evt \<Rightarrow> status_t smprog" where
  "cannot_handle evt = reply evt INVALID_OPERATION"

definition no_op :: "sm_evt \<Rightarrow> status_t smprog" where
  "no_op evt = reply evt NO_ERROR"

text \<open>An event with neither action nor reply: the handler returns its initial \<open>rc\<close>.\<close>

definition ignore :: "status_t smprog" where
  "ignore = State_Monad.return NO_ERROR"

text \<open>
  The guard of the stopped state: wait for the deferred parameter initialisation, and
  carry on only when it succeeded.
\<close>

definition after_param_init :: "status_t smprog \<Rightarrow> status_t smprog" where
  "after_param_init m = do {
     rc \<leftarrow> call_rc WaitDeferredWork_mParamInitJob;
     if rc \<noteq> NO_ERROR then State_Monad.return rc else m }"

definition msg_type_enabled :: "sm_evt \<Rightarrow> payload \<Rightarrow> status_t smprog" where
  "msg_type_enabled evt p = do {
     a \<leftarrow> hwi_call (MsgTypeEnabled (pl_int32 p));
     reply_enabled evt NO_ERROR (out a) }"

definition reply_params :: "sm_evt \<Rightarrow> addr \<Rightarrow> status_t smprog" where
  "reply_params evt params = do {
     let rc = (if params \<noteq> 0 then NO_ERROR else UNKNOWN_ERROR);
     signalAPIResult \<lparr> status = rc, request_api = evt,
       result_kind = QCAMERA_API_RESULT_TYPE_PARAMS, result_value = Params params \<rparr>;
     State_Monad.return rc }"

definition get_params :: "sm_evt \<Rightarrow> status_t smprog" where
  "get_params evt = do { a \<leftarrow> hwi_call (Param GetParameters); reply_params evt (ptr a) }"

definition register_face :: "sm_evt \<Rightarrow> payload \<Rightarrow> status_t smprog" where
  "register_face evt p = do {
     a \<leftarrow> hwi_call (RegisterFaceImage (pl_reg_face p));
     signalAPIResult \<lparr> status = ret a, request_api = evt,
       result_kind = QCAMERA_API_RESULT_TYPE_HANDLE, result_value = Handle (out a) \<rparr>;
     State_Monad.return (ret a) }"

definition free_video_handle :: "payload \<Rightarrow> status_t smprog" where
  "free_video_handle p = do { invoke (CloseNativeHandle (pl_addr p)); State_Monad.return NO_ERROR }"

text \<open>\<open>isZSLMode() || isLongshotEnabled()\<close>, evaluated left to right.\<close>

definition zsl_or_longshot :: "bool smprog" where
  "zsl_or_longshot = do {
     zsl \<leftarrow> query IsZSLMode;
     if zsl then State_Monad.return True else query IsLongshotEnabled }"

text \<open>\<open>applyDelayedMsgs\<close>: the message types held back during a ZSL snapshot.\<close>

definition applyDelayedMsgs :: "status_t smprog" where
  "applyDelayedMsgs = do {
     s \<leftarrow> State_Monad.get;
     if m_bDelayPreviewMsgs s \<and> m_DelayedMsgs s \<noteq> 0 then do {
       rc \<leftarrow> call_rc (EnableMsgType (m_DelayedMsgs s));
       State_Monad.update (\<lambda>s. s\<lparr>m_bDelayPreviewMsgs := False, m_DelayedMsgs := 0\<rparr>);
       State_Monad.return rc }
     else if m_bDelayPreviewMsgs s then do {
       set_delay False;
       State_Monad.return NO_ERROR }
     else State_Monad.return NO_ERROR }"

section \<open>Reading the log\<close>

text \<open>The API results signalled so far, newest first, and whether recording is on.\<close>

fun api_results :: "hwi_event list \<Rightarrow> api_result list" where
  "api_results [] = []"
| "api_results (ApiResult r # es) = r # api_results es"
| "api_results (HwiCall op a # es) = api_results es"
| "api_results (EvtResult r # es) = api_results es"

fun evt_results :: "hwi_event list \<Rightarrow> api_result list" where
  "evt_results [] = []"
| "evt_results (EvtResult r # es) = r # evt_results es"
| "evt_results (HwiCall op a # es) = evt_results es"
| "evt_results (ApiResult r # es) = evt_results es"

fun recording_on :: "hwi_event list \<Rightarrow> bool" where
  "recording_on [] = False"
| "recording_on (HwiCall op a # es) =
    (if op = StartRecording \<and> ret a = NO_ERROR then True
     else if op = StopRecording then False
     else recording_on es)"
| "recording_on (ApiResult r # es) = recording_on es"
| "recording_on (EvtResult r # es) = recording_on es"

lemmas sm_prog_defs = sm_log_def hwi_call_def call_rc_def query_def invoke_def goto_state_def
  set_delay_def signalAPIResult_def signalEvtResult_def reply_def reply_enabled_def
  reply_evt_def call_reply_def cannot_handle_def no_op_def ignore_def after_param_init_def
  msg_type_enabled_def reply_params_def get_params_def register_face_def
  free_video_handle_def applyDelayedMsgs_def zsl_or_longshot_def Let_def

end
