(* ===== verification/CamPreviewStopped.thy ===== *)
theory CamPreviewStopped
  imports CamHwi
begin

text \<open>
  \<open>procEvtPreviewStoppedState\<close>, the handler of the state PREVIEW_STOPPED. The C++
  function is one \<open>switch\<close> over the event; its groups of consecutive cases are definitions
  of their own, each handing the events it does not list to the next group.
\<close>

definition procEvtPreviewStoppedState_events :: "sm_evt \<Rightarrow> payload \<Rightarrow> status_t smprog" where
  "procEvtPreviewStoppedState_events evt p = (case evt of
     QCAMERA_SM_EVT_RELEASE_RECORIDNG_FRAME \<Rightarrow> free_video_handle p
   | QCAMERA_SM_EVT_PRE_START_RECORDING \<Rightarrow> cannot_handle evt
   | QCAMERA_SM_EVT_RESTART_STOP_PREVIEW \<Rightarrow> cannot_handle evt
   | QCAMERA_SM_EVT_RESTART_START_PREVIEW \<Rightarrow> cannot_handle evt
   | QCAMERA_SM_EVT_START_RECORDING \<Rightarrow> cannot_handle evt
   | QCAMERA_SM_EVT_STOP_RECORDING \<Rightarrow> cannot_handle evt
   | QCAMERA_SM_EVT_PREPARE_SNAPSHOT \<Rightarrow> cannot_handle evt
   | QCAMERA_SM_EVT_PRE_TAKE_PICTURE \<Rightarrow> cannot_handle evt
   | QCAMERA_SM_EVT_TAKE_PICTURE \<Rightarrow> cannot_handle evt
   | QCAMERA_SM_EVT_START_AUTO_FOCUS \<Rightarrow> no_op evt
   | QCAMERA_SM_EVT_CANCEL_PICTURE \<Rightarrow> no_op evt
   | QCAMERA_SM_EVT_STOP_AUTO_FOCUS \<Rightarrow> do {
       rc \<leftarrow> after_param_init (call_rc CancelAutoFocus);
       reply evt rc }
   | QCAMERA_SM_EVT_REG_FACE_IMAGE \<Rightarrow> register_face evt p
   | QCAMERA_SM_EVT_THERMAL_NOTIFY \<Rightarrow>
       after_param_init (call_rc (Notify (UpdateThermalLevel (pl_addr p))))
   | QCAMERA_SM_EVT_EVT_NOTIFY \<Rightarrow>
       (case pl_server_event_type p of
          CAM_EVENT_TYPE_DAEMON_DIED \<Rightarrow> do { invoke (Notify SendEvtNotify_ServerDied); ignore }
        | _ \<Rightarrow> ignore)
   | QCAMERA_SM_EVT_SNAPSHOT_DONE \<Rightarrow> reply_evt evt NO_ERROR
   | QCAMERA_SM_EVT_EVT_INTERNAL \<Rightarrow>
       (case evt_type (pl_internal p) of
          QCAMERA_INTERNAL_EVT_LED_MODE_OVERRIDE \<Rightarrow>
            after_param_init (call_rc (Notify (UpdateFlashMode (evt_data (pl_internal p)))))
        | _ \<Rightarrow> ignore)
   | _ \<Rightarrow> ignore)"

definition procEvtPreviewStoppedState_preview :: "sm_evt \<Rightarrow> payload \<Rightarrow> status_t smprog" where
  "procEvtPreviewStoppedState_preview evt p = (case evt of
     QCAMERA_SM_EVT_PREPARE_PREVIEW \<Rightarrow> do {
       rc \<leftarrow> after_param_init (call_rc PreparePreview);
       (if rc = NO_ERROR then goto_state QCAMERA_SM_STATE_PREVIEW_READY
        else State_Monad.return ());
       reply evt rc }
   | QCAMERA_SM_EVT_START_PREVIEW \<Rightarrow> do {
       rc \<leftarrow> after_param_init (do {
         w \<leftarrow> hwi_call Get_mPreviewWindow;
         if ptr w = 0 then do {
           rc \<leftarrow> call_rc PreparePreview;
           (if rc = NO_ERROR then goto_state QCAMERA_SM_STATE_PREVIEW_READY
            else State_Monad.return ());
           State_Monad.return rc }
         else do {
           rc \<leftarrow> call_rc PreparePreview;
           if rc = NO_ERROR then do {
             applyDelayedMsgs;
             rc \<leftarrow> call_rc StartPreview;
             (if rc \<noteq> NO_ERROR then invoke UnpreparePreview
              else goto_state QCAMERA_SM_STATE_PREVIEWING);
             State_Monad.return rc }
           else State_Monad.return rc } });
       reply evt rc }
   | QCAMERA_SM_EVT_START_NODISPLAY_PREVIEW \<Rightarrow> do {
       rc \<leftarrow> after_param_init (call_rc PreparePreview);
       rc \<leftarrow> (if rc = NO_ERROR then do {
           applyDelayedMsgs;
           rc \<leftarrow> call_rc StartPreview;
           (if rc \<noteq> NO_ERROR then invoke UnpreparePreview
            else goto_state QCAMERA_SM_STATE_PREVIEWING);
           State_Monad.return rc }
         else State_Monad.return rc);
       reply evt rc }
   | QCAMERA_SM_EVT_STOP_PREVIEW \<Rightarrow> no_op evt
   | QCAMERA_SM_EVT_PREVIEW_ENABLED \<Rightarrow> reply_enabled evt NO_ERROR 0
   | QCAMERA_SM_EVT_RECORDING_ENABLED \<Rightarrow> reply_enabled evt NO_ERROR 0
   | QCAMERA_SM_EVT_RELEASE \<Rightarrow> call_reply evt Release
   | QCAMERA_SM_EVT_STORE_METADATA_IN_BUFS \<Rightarrow>
       call_reply evt (StoreMetaDataInBuffers (pl_int32 p))
   | QCAMERA_SM_EVT_DUMP \<Rightarrow> do {
       rc \<leftarrow> after_param_init (call_rc (Dump (pl_int32 p)));
       reply evt rc }
   | QCAMERA_SM_EVT_SEND_COMMAND \<Rightarrow> do {
       rc \<leftarrow> after_param_init (call_rc (SendCommand (pl_command p)));
       reply evt rc }
   | _ \<Rightarrow> procEvtPreviewStoppedState_events evt p)"

definition procEvtPreviewStoppedState :: "sm_evt \<Rightarrow> payload \<Rightarrow> status_t smprog" where
  "procEvtPreviewStoppedState evt p = (case evt of
     QCAMERA_SM_EVT_SET_PREVIEW_WINDOW \<Rightarrow> call_reply evt (SetPreviewWindow (pl_addr p))
   | QCAMERA_SM_EVT_SET_CALLBACKS \<Rightarrow> call_reply evt (SetCallBacks (pl_setcb p))
   | QCAMERA_SM_EVT_ENABLE_MSG_TYPE \<Rightarrow> do {
       rc \<leftarrow> after_param_init (call_rc (EnableMsgType (pl_int32 p)));
       reply evt rc }
   | QCAMERA_SM_EVT_DISABLE_MSG_TYPE \<Rightarrow> do {
       rc \<leftarrow> after_param_init (call_rc (DisableMsgType (pl_int32 p)));
       reply evt rc }
   | QCAMERA_SM_EVT_MSG_TYPE_ENABLED \<Rightarrow> msg_type_enabled evt p
   | QCAMERA_SM_EVT_SET_PARAMS \<Rightarrow> do {
       rc \<leftarrow> after_param_init (call_rc (Param (UpdateParameters (pl_addr p))));
       reply evt rc }
   | QCAMERA_SM_EVT_SET_PARAMS_STOP \<Rightarrow> do { invoke (Param MemoryPoolClear); reply evt NO_ERROR }
   | QCAMERA_SM_EVT_SET_PARAMS_COMMIT \<Rightarrow> call_reply evt (Param CommitParameterChanges)
   | QCAMERA_SM_EVT_SET_PARAMS_RESTART \<Rightarrow> do {
       invoke (Param (SetNeedRestart False));
       reply evt NO_ERROR }
   | QCAMERA_SM_EVT_GET_PARAMS \<Rightarrow> do {
       rc \<leftarrow> call_rc WaitDeferredWork_mParamInitJob;
       a \<leftarrow> (if rc \<noteq> NO_ERROR then hwi_call (Param MallocNullParams)
            else hwi_call (Param GetParameters));
       reply_params evt (ptr a) }
   | QCAMERA_SM_EVT_PUT_PARAMS \<Rightarrow> call_reply evt (Param (PutParameters (pl_addr p)))
   | _ \<Rightarrow> procEvtPreviewStoppedState_preview evt p)"

lemmas procEvtPreviewStoppedState_defs = procEvtPreviewStoppedState_def
  procEvtPreviewStoppedState_preview_def procEvtPreviewStoppedState_events_def

end
