(* ===== verification/CamPreviewReady.thy ===== *)
theory CamPreviewReady
  imports CamHwi
begin

text \<open>
  \<open>procEvtPreviewReadyState\<close>, the handler of the state PREVIEW_READY (preview prepared,
  no window yet), in three groups of consecutive cases.
\<close>

definition procEvtPreviewReadyState_events :: "sm_evt \<Rightarrow> payload \<Rightarrow> status_t smprog" where
  "procEvtPreviewReadyState_events evt p = (case evt of
     QCAMERA_SM_EVT_RELEASE_RECORIDNG_FRAME \<Rightarrow> free_video_handle p
   | QCAMERA_SM_EVT_PRE_START_RECORDING \<Rightarrow> cannot_handle evt
   | QCAMERA_SM_EVT_RESTART_STOP_PREVIEW \<Rightarrow> cannot_handle evt
   | QCAMERA_SM_EVT_RESTART_START_PREVIEW \<Rightarrow> cannot_handle evt
   | QCAMERA_SM_EVT_START_RECORDING \<Rightarrow> cannot_handle evt
   | QCAMERA_SM_EVT_STOP_RECORDING \<Rightarrow> cannot_handle evt
   | QCAMERA_SM_EVT_PREPARE_SNAPSHOT \<Rightarrow> cannot_handle evt
   | QCAMERA_SM_EVT_PRE_TAKE_PICTURE \<Rightarrow> cannot_handle evt
   | QCAMERA_SM_EVT_TAKE_PICTURE \<Rightarrow> cannot_handle evt
   | QCAMERA_SM_EVT_CANCEL_PICTURE \<Rightarrow> cannot_handle evt
   | QCAMERA_SM_EVT_RELEASE \<Rightarrow> cannot_handle evt
   | QCAMERA_SM_EVT_EVT_NOTIFY \<Rightarrow>
       (case pl_server_event_type p of
          CAM_EVENT_TYPE_DAEMON_DIED \<Rightarrow> do { invoke (Notify SendEvtNotify_ServerDied); ignore }
        | _ \<Rightarrow> ignore)
   | QCAMERA_SM_EVT_SNAPSHOT_DONE \<Rightarrow> reply_evt evt NO_ERROR
   | QCAMERA_SM_EVT_EVT_INTERNAL \<Rightarrow>
       (case evt_type (pl_internal p) of
          QCAMERA_INTERNAL_EVT_LED_MODE_OVERRIDE \<Rightarrow>
            call_rc (Notify (UpdateFlashMode (evt_data (pl_internal p))))
        | _ \<Rightarrow> ignore)
   | _ \<Rightarrow> ignore)"

text \<open>Start the preview; if that fails, give the preparation up and stop.\<close>

definition start_preview_or_stop :: "status_t smprog" where
  "start_preview_or_stop = do {
     rc \<leftarrow> call_rc StartPreview;
     (if rc \<noteq> NO_ERROR then do {
        invoke UnpreparePreview;
        goto_state QCAMERA_SM_STATE_PREVIEW_STOPPED }
      else goto_state QCAMERA_SM_STATE_PREVIEWING);
     State_Monad.return rc }"

definition procEvtPreviewReadyState_preview :: "sm_evt \<Rightarrow> payload \<Rightarrow> status_t smprog" where
  "procEvtPreviewReadyState_preview evt p = (case evt of
     QCAMERA_SM_EVT_PREPARE_PREVIEW \<Rightarrow> no_op evt
   | QCAMERA_SM_EVT_START_NODISPLAY_PREVIEW \<Rightarrow> do {
       start_preview_or_stop;
       reply evt NO_ERROR }
   | QCAMERA_SM_EVT_START_PREVIEW \<Rightarrow> do {
       w \<leftarrow> hwi_call Get_mPreviewWindow;
       (if ptr w \<noteq> 0 then start_preview_or_stop else State_Monad.return NO_ERROR);
       reply evt NO_ERROR }
   | QCAMERA_SM_EVT_STOP_PREVIEW \<Rightarrow> do {
       invoke UnpreparePreview;
       goto_state QCAMERA_SM_STATE_PREVIEW_STOPPED;
       reply evt NO_ERROR }
   | QCAMERA_SM_EVT_PREVIEW_ENABLED \<Rightarrow> reply_enabled evt NO_ERROR 1
   | QCAMERA_SM_EVT_RECORDING_ENABLED \<Rightarrow> reply_enabled evt NO_ERROR 0
   | QCAMERA_SM_EVT_STORE_METADATA_IN_BUFS \<Rightarrow>
       call_reply evt (StoreMetaDataInBuffers (pl_int32 p))
   | QCAMERA_SM_EVT_DUMP \<Rightarrow> call_reply evt (Dump (pl_int32 p))
   | QCAMERA_SM_EVT_START_AUTO_FOCUS \<Rightarrow> call_reply evt AutoFocus
   | QCAMERA_SM_EVT_STOP_AUTO_FOCUS \<Rightarrow> call_reply evt CancelAutoFocus
   | QCAMERA_SM_EVT_SEND_COMMAND \<Rightarrow> call_reply evt (SendCommand (pl_command p))
   | QCAMERA_SM_EVT_REG_FACE_IMAGE \<Rightarrow> register_face evt p
   | _ \<Rightarrow> procEvtPreviewReadyState_events evt p)"

definition procEvtPreviewReadyState :: "sm_evt \<Rightarrow> payload \<Rightarrow> status_t smprog" where
  "procEvtPreviewReadyState evt p = (case evt of
     QCAMERA_SM_EVT_SET_PREVIEW_WINDOW \<Rightarrow> do {
       invoke (SetPreviewWindow (pl_addr p));
       w \<leftarrow> hwi_call Get_mPreviewWindow;
       rc \<leftarrow> (if ptr w \<noteq> 0 then do { applyDelayedMsgs; start_preview_or_stop }
             else State_Monad.return NO_ERROR);
       reply evt rc }
   | QCAMERA_SM_EVT_SET_CALLBACKS \<Rightarrow> call_reply evt (SetCallBacks (pl_setcb p))
   | QCAMERA_SM_EVT_ENABLE_MSG_TYPE \<Rightarrow> call_reply evt (EnableMsgType (pl_int32 p))
   | QCAMERA_SM_EVT_DISABLE_MSG_TYPE \<Rightarrow> call_reply evt (DisableMsgType (pl_int32 p))
   | QCAMERA_SM_EVT_MSG_TYPE_ENABLED \<Rightarrow> msg_type_enabled evt p
   | QCAMERA_SM_EVT_SET_PARAMS \<Rightarrow> call_reply evt (Param (UpdateParameters (pl_addr p)))
   | QCAMERA_SM_EVT_SET_PARAMS_STOP \<Rightarrow> do {
       invoke UnpreparePreview;
       invoke (Param MemoryPoolClear);
       reply evt NO_ERROR }
   | QCAMERA_SM_EVT_SET_PARAMS_COMMIT \<Rightarrow> call_reply evt (Param CommitParameterChanges)
   | QCAMERA_SM_EVT_SET_PARAMS_RESTART \<Rightarrow> do {
       rc \<leftarrow> call_rc PreparePreview;
       (if rc \<noteq> NO_ERROR then goto_state QCAMERA_SM_STATE_PREVIEW_STOPPED
        else State_Monad.return ());
       invoke (Param (SetNeedRestart False));
       reply evt rc }
   | QCAMERA_SM_EVT_GET_PARAMS \<Rightarrow> get_params evt
   | QCAMERA_SM_EVT_PUT_PARAMS \<Rightarrow> call_reply evt (Param (PutParameters (pl_addr p)))
   | _ \<Rightarrow> procEvtPreviewReadyState_preview evt p)"

lemmas procEvtPreviewReadyState_defs = procEvtPreviewReadyState_def
  procEvtPreviewReadyState_preview_def procEvtPreviewReadyState_events_def
  start_preview_or_stop_def

end
