(* ===== verification/CamPreviewing.thy ===== *)
theory CamPreviewing
  imports CamHwi
begin

text \<open>
  \<open>procEvtPreviewingState\<close>, the handler of the state PREVIEWING, in five groups of
  consecutive cases: the entry group with the messages and parameters, the preview and
  recording group, the capture group, the command group, and the asynchronous events.
\<close>

section \<open>Asynchronous events\<close>

definition previewing_internal_evt :: "internal_evt_payload \<Rightarrow> status_t smprog" where
  "previewing_internal_evt e = (case evt_type e of
     QCAMERA_INTERNAL_EVT_FOCUS_UPDATE \<Rightarrow> call_rc (Notify (ProcessAutoFocusEvent (evt_data e)))
   | QCAMERA_INTERNAL_EVT_PREP_SNAPSHOT_DONE \<Rightarrow> ignore
   | QCAMERA_INTERNAL_EVT_FACE_DETECT_RESULT \<Rightarrow>
       call_rc (Notify (ProcessFaceDetectionResult (evt_data e)))
   | QCAMERA_INTERNAL_EVT_HISTOGRAM_STATS \<Rightarrow>
       call_rc (Notify (ProcessHistogramStats (evt_data e)))
   | QCAMERA_INTERNAL_EVT_CROP_INFO \<Rightarrow> call_rc (Notify (ProcessZoomEvent (evt_data e)))
   | QCAMERA_INTERNAL_EVT_ASD_UPDATE \<Rightarrow> call_rc (Notify (ProcessASDUpdate (evt_data e)))
   | QCAMERA_INTERNAL_EVT_LED_MODE_OVERRIDE \<Rightarrow> call_rc (Notify (UpdateFlashMode (evt_data e)))
   | QCAMERA_INTERNAL_EVT_AWB_UPDATE \<Rightarrow> call_rc (Notify (TransAwbMetaToParams (evt_data e)))
   | QCAMERA_INTERNAL_EVT_AE_UPDATE \<Rightarrow> call_rc (Notify (ProcessAEInfo (evt_data e)))
   | QCAMERA_INTERNAL_EVT_FOCUS_POS_UPDATE \<Rightarrow>
       call_rc (Notify (ProcessFocusPositionInfo (evt_data e)))
   | QCAMERA_INTERNAL_EVT_HDR_UPDATE \<Rightarrow> call_rc (Notify (ProcessHDRData (evt_data e)))
   | QCAMERA_INTERNAL_EVT_RETRO_AEC_UNLOCK \<Rightarrow> call_rc (Notify ProcessRetroAECUnlock)
   | QCAMERA_INTERNAL_EVT_ZSL_CAPTURE_DONE \<Rightarrow> call_rc (Notify ProcessZSLCaptureDone)
   | _ \<Rightarrow> ignore)"

definition procEvtPreviewingState_events :: "sm_evt \<Rightarrow> payload \<Rightarrow> status_t smprog" where
  "procEvtPreviewingState_events evt p = (case evt of
     QCAMERA_SM_EVT_EVT_NOTIFY \<Rightarrow>
       (case pl_server_event_type p of
          CAM_EVENT_TYPE_DAEMON_DIED \<Rightarrow> do { invoke (Notify SendEvtNotify_ServerDied); ignore }
        | _ \<Rightarrow> ignore)
   | QCAMERA_SM_EVT_THERMAL_NOTIFY \<Rightarrow> call_rc (Notify (UpdateThermalLevel (pl_addr p)))
   | QCAMERA_SM_EVT_SNAPSHOT_DONE \<Rightarrow> reply_evt evt NO_ERROR
   | QCAMERA_SM_EVT_RESTART_STOP_PREVIEW \<Rightarrow> do {
       invoke StopPreview;
       reply evt NO_ERROR }
   | QCAMERA_SM_EVT_RESTART_START_PREVIEW \<Rightarrow> do {
       rc \<leftarrow> call_rc PreparePreview;
       rc \<leftarrow> (if rc = NO_ERROR then call_rc StartPreview else State_Monad.return rc);
       reply evt rc }
   | _ \<Rightarrow> ignore)"

section \<open>Commands\<close>

text \<open>
  \<open>sendCommand\<close> may ask for a preview restart, at once or delayed until
  \<open>SEND_COMMAND_RESTART\<close>; both flags are read from the command's arguments.
\<close>

definition prepare_and_start :: "bool \<Rightarrow> status_t smprog" where
  "prepare_and_start apply_delayed = do {
     rc \<leftarrow> call_rc PreparePreview;
     if rc = NO_ERROR then do {
       (if apply_delayed then applyDelayedMsgs else State_Monad.return NO_ERROR);
       rc \<leftarrow> call_rc StartPreview;
       (if rc \<noteq> NO_ERROR then invoke UnpreparePreview else State_Monad.return ());
       State_Monad.return rc }
     else State_Monad.return rc }"

definition procEvtPreviewingState_command :: "sm_evt \<Rightarrow> payload \<Rightarrow> status_t smprog" where
  "procEvtPreviewingState_command evt p = (case evt of
     QCAMERA_SM_EVT_SEND_COMMAND \<Rightarrow> do {
       let c = pl_command p;
       rc \<leftarrow> call_rc (SendCommand c);
       State_Monad.update (\<lambda>s. s\<lparr>
         m_bPreviewNeedsRestart := (sm_evt_code QCAMERA_SM_EVT_RESTART_PERVIEW = arg1 c),
         m_bPreviewDelayedRestart := (sm_evt_code QCAMERA_SM_EVT_DELAYED_RESTART = arg2 c)\<rparr>);
       s \<leftarrow> State_Monad.get;
       rc \<leftarrow> (if \<not> VANILLA_HAL (m_parent s) \<and> cmd c = CAMERA_CMD_LONGSHOT_ON
                \<and> m_bPreviewNeedsRestart s then do {
           invoke StopPreview;
           invoke (Param MemoryPoolClear);
           if \<not> m_bPreviewDelayedRestart s then prepare_and_start True
           else State_Monad.return rc }
         else State_Monad.return rc);
       reply evt rc }
   | QCAMERA_SM_EVT_SEND_COMMAND_RESTART \<Rightarrow> do {
       s \<leftarrow> State_Monad.get;
       rc \<leftarrow> (if \<not> VANILLA_HAL (m_parent s) \<and> cmd (pl_command p) = CAMERA_CMD_LONGSHOT_ON
                \<and> m_bPreviewNeedsRestart s \<and> m_bPreviewDelayedRestart s
              then prepare_and_start False
              else State_Monad.return NO_ERROR);
       reply evt rc }
   | QCAMERA_SM_EVT_REG_FACE_IMAGE \<Rightarrow> register_face evt p
   | QCAMERA_SM_EVT_RELEASE_RECORIDNG_FRAME \<Rightarrow> free_video_handle p
   | QCAMERA_SM_EVT_CANCEL_PICTURE \<Rightarrow> cannot_handle evt
   | QCAMERA_SM_EVT_STOP_RECORDING \<Rightarrow> cannot_handle evt
   | QCAMERA_SM_EVT_RELEASE \<Rightarrow> cannot_handle evt
   | QCAMERA_SM_EVT_EVT_INTERNAL \<Rightarrow> previewing_internal_evt (pl_internal p)
   | _ \<Rightarrow> procEvtPreviewingState_events evt p)"

section \<open>Taking a picture\<close>

text \<open>\<open>QCAMERA_SM_EVT_TAKE_PICTURE\<close> while previewing, in its three parts.\<close>

definition take_picture_leave_recording_hint :: "status_t smprog" where
  "take_picture_leave_recording_hint = do {
     hint \<leftarrow> query GetRecordingHintValue;
     if hint then do {
       invoke StopPreview;
       invoke (Param (UpdateRecordingHintValue False));
       prepare_and_start False }
     else State_Monad.return NO_ERROR }"

definition take_picture_zsl :: "sm_evt \<Rightarrow> status_t smprog" where
  "take_picture_zsl evt = do {
     restartPreview \<leftarrow> query IsPreviewRestartEnabled;
     manual \<leftarrow> (if restartPreview then do {
         a \<leftarrow> hwi_call (Param GetManualCaptureMode);
         State_Monad.return (CAM_MANUAL_CAPTURE_TYPE_3 \<le> out a) }
       else State_Monad.return False);
     (if manual then do {
        invoke StopPreview;
        invoke (Param (UpdateZSLModeValue False));
        State_Monad.update (\<lambda>s. s\<lparr>m_RestoreZSL := True, m_bDelayPreviewMsgs := True\<rparr>);
        goto_state QCAMERA_SM_STATE_PIC_TAKING }
      else do {
        goto_state QCAMERA_SM_STATE_PREVIEW_PIC_TAKING;
        set_delay True });
     rc \<leftarrow> call_rc TakePicture;
     (if rc \<noteq> NO_ERROR then do {
        invoke UnconfigureAdvancedCapture;
        goto_state QCAMERA_SM_STATE_PREVIEWING }
      else State_Monad.return ());
     retro \<leftarrow> query IsRetroPicture;
     if \<not> retro \<or> rc \<noteq> NO_ERROR then reply evt rc else State_Monad.return rc }"

definition take_picture_regular :: "sm_evt \<Rightarrow> status_t smprog" where
  "take_picture_regular evt = do {
     goto_state QCAMERA_SM_STATE_PIC_TAKING;
     rc \<leftarrow> call_rc TakePicture;
     (if rc \<noteq> NO_ERROR then do {
        invoke UnconfigureAdvancedCapture;
        invoke StopPreview;
        temp_rc \<leftarrow> call_rc PreparePreview;
        if temp_rc = NO_ERROR then do {
          temp_rc \<leftarrow> call_rc StartPreview;
          if temp_rc \<noteq> NO_ERROR then do {
            invoke UnpreparePreview;
            goto_state QCAMERA_SM_STATE_PREVIEW_STOPPED }
          else goto_state QCAMERA_SM_STATE_PREVIEWING }
        else goto_state QCAMERA_SM_STATE_PREVIEW_STOPPED }
      else State_Monad.return ());
     reply evt rc }"

definition take_picture :: "sm_evt \<Rightarrow> status_t smprog" where
  "take_picture evt = do {
     take_picture_leave_recording_hint;
     b \<leftarrow> zsl_or_longshot;
     if b then take_picture_zsl evt else take_picture_regular evt }"

definition procEvtPreviewingState_capture :: "sm_evt \<Rightarrow> payload \<Rightarrow> status_t smprog" where
  "procEvtPreviewingState_capture evt p = (case evt of
     QCAMERA_SM_EVT_PREPARE_SNAPSHOT \<Rightarrow> do {
       rc \<leftarrow> call_rc (PrepareHardwareForSnapshot False);
       if rc = NO_ERROR then do {
         goto_state QCAMERA_SM_STATE_PREPARE_SNAPSHOT;
         applyDelayedMsgs;
         State_Monad.return rc }
       else reply evt rc }
   | QCAMERA_SM_EVT_PRE_TAKE_PICTURE \<Rightarrow> call_reply evt PreTakePicture
   | QCAMERA_SM_EVT_TAKE_PICTURE \<Rightarrow> take_picture evt
   | _ \<Rightarrow> procEvtPreviewingState_command evt p)"

section \<open>Preview, recording, focus\<close>

definition procEvtPreviewingState_preview :: "sm_evt \<Rightarrow> payload \<Rightarrow> status_t smprog" where
  "procEvtPreviewingState_preview evt p = (case evt of
     QCAMERA_SM_EVT_PREPARE_PREVIEW \<Rightarrow> no_op evt
   | QCAMERA_SM_EVT_START_PREVIEW \<Rightarrow> do { applyDelayedMsgs; reply evt NO_ERROR }
   | QCAMERA_SM_EVT_START_NODISPLAY_PREVIEW \<Rightarrow> do { applyDelayedMsgs; reply evt NO_ERROR }
   | QCAMERA_SM_EVT_STOP_PREVIEW \<Rightarrow> do {
       rc \<leftarrow> call_rc StopPreview;
       applyDelayedMsgs;
       goto_state QCAMERA_SM_STATE_PREVIEW_STOPPED;
       reply evt rc }
   | QCAMERA_SM_EVT_PREVIEW_ENABLED \<Rightarrow> do {
       applyDelayedMsgs;
       reply_enabled evt NO_ERROR 1 }
   | QCAMERA_SM_EVT_RECORDING_ENABLED \<Rightarrow> reply_enabled evt NO_ERROR 0
   | QCAMERA_SM_EVT_STORE_METADATA_IN_BUFS \<Rightarrow>
       call_reply evt (StoreMetaDataInBuffers (pl_int32 p))
   | QCAMERA_SM_EVT_DUMP \<Rightarrow> call_reply evt (Dump (pl_int32 p))
   | QCAMERA_SM_EVT_START_AUTO_FOCUS \<Rightarrow> call_reply evt AutoFocus
   | QCAMERA_SM_EVT_STOP_AUTO_FOCUS \<Rightarrow> call_reply evt CancelAutoFocus
   | QCAMERA_SM_EVT_PRE_START_RECORDING \<Rightarrow> call_reply evt PreStartRecording
   | QCAMERA_SM_EVT_START_RECORDING \<Rightarrow> do {
       rc \<leftarrow> call_rc StartRecording;
       (if rc = NO_ERROR then do {
          goto_state QCAMERA_SM_STATE_RECORDING;
          applyDelayedMsgs;
          State_Monad.return () }
        else State_Monad.return ());
       reply evt rc }
   | _ \<Rightarrow> procEvtPreviewingState_capture evt p)"

section \<open>Entry: messages and parameters\<close>

text \<open>
  While preview messages are held back, enabling the preview-frame message is remembered
  in \<open>m_DelayedMsgs\<close> instead, disabling it forgets it, and the query counts it in.
\<close>

definition enable_msgs_delayed :: "sm_evt \<Rightarrow> payload \<Rightarrow> status_t smprog" where
  "enable_msgs_delayed evt p = do {
     s \<leftarrow> State_Monad.get;
     let frame = CAMERA_MSG_PREVIEW_FRAME (m_parent s);
     enable_msgs \<leftarrow> (if m_bDelayPreviewMsgs s \<and> pl_int32 p AND frame \<noteq> 0 then do {
         State_Monad.update (\<lambda>s. s\<lparr>m_DelayedMsgs := frame\<rparr>);
         State_Monad.return (pl_int32 p AND NOT frame) }
       else State_Monad.return (pl_int32 p));
     call_reply evt (EnableMsgType enable_msgs) }"

definition disable_msgs_delayed :: "sm_evt \<Rightarrow> payload \<Rightarrow> status_t smprog" where
  "disable_msgs_delayed evt p = do {
     s \<leftarrow> State_Monad.get;
     (if m_bDelayPreviewMsgs s \<and> m_DelayedMsgs s \<noteq> 0 then do {
        let d = m_DelayedMsgs s AND NOT (pl_int32 p);
        State_Monad.update (\<lambda>s. s\<lparr>m_DelayedMsgs := d\<rparr>);
        if d = 0 then set_delay False else State_Monad.return () }
      else State_Monad.return ());
     call_reply evt (DisableMsgType (pl_int32 p)) }"

definition msg_type_enabled_delayed :: "sm_evt \<Rightarrow> payload \<Rightarrow> status_t smprog" where
  "msg_type_enabled_delayed evt p = do {
     let msgs = pl_int32 p;
     a \<leftarrow> hwi_call (MsgTypeEnabled msgs);
     s \<leftarrow> State_Monad.get;
     let enabled = (if m_bDelayPreviewMsgs s \<and> m_DelayedMsgs s \<noteq> 0
                    then out a OR (msgs AND m_DelayedMsgs s) else out a);
     reply_enabled evt NO_ERROR enabled }"

definition procEvtPreviewingState :: "sm_evt \<Rightarrow> payload \<Rightarrow> status_t smprog" where
  "procEvtPreviewingState evt p = (case evt of
     QCAMERA_SM_EVT_SET_PREVIEW_WINDOW \<Rightarrow> cannot_handle evt
   | QCAMERA_SM_EVT_SET_CALLBACKS \<Rightarrow> call_reply evt (SetCallBacks (pl_setcb p))
   | QCAMERA_SM_EVT_ENABLE_MSG_TYPE \<Rightarrow> enable_msgs_delayed evt p
   | QCAMERA_SM_EVT_DISABLE_MSG_TYPE \<Rightarrow> disable_msgs_delayed evt p
   | QCAMERA_SM_EVT_MSG_TYPE_ENABLED \<Rightarrow> msg_type_enabled_delayed evt p
   | QCAMERA_SM_EVT_SET_PARAMS \<Rightarrow> call_reply evt (Param (UpdateParameters (pl_addr p)))
   | QCAMERA_SM_EVT_SET_PARAMS_STOP \<Rightarrow> do {
       rc \<leftarrow> call_rc StopPreview;
       invoke (Param MemoryPoolClear);
       reply evt rc }
   | QCAMERA_SM_EVT_SET_PARAMS_COMMIT \<Rightarrow> call_reply evt (Param CommitParameterChanges)
   | QCAMERA_SM_EVT_SET_PARAMS_RESTART \<Rightarrow> do {
       rc \<leftarrow> call_rc PreparePreview;
       rc \<leftarrow> (if rc = NO_ERROR then do {
           applyDelayedMsgs;
           rc \<leftarrow> call_rc StartPreview;
           (if rc \<noteq> NO_ERROR then invoke UnpreparePreview else State_Monad.return ());
           (if rc \<noteq> NO_ERROR then goto_state QCAMERA_SM_STATE_PREVIEW_STOPPED
            else State_Monad.return ());
           State_Monad.return rc }
         else State_Monad.return rc);
       invoke (Param (SetNeedRestart False));
       reply evt rc }
   | QCAMERA_SM_EVT_GET_PARAMS \<Rightarrow> get_params evt
   | QCAMERA_SM_EVT_PUT_PARAMS \<Rightarrow> call_reply evt (Param (PutParameters (pl_addr p)))
   | _ \<Rightarrow> procEvtPreviewingState_preview evt p)"

lemmas take_picture_defs = take_picture_leave_recording_hint_def prepare_and_start_def
  take_picture_zsl_def take_picture_regular_def

lemmas procEvtPreviewingState_defs = procEvtPreviewingState_def
  procEvtPreviewingState_preview_def procEvtPreviewingState_capture_def
  procEvtPreviewingState_command_def procEvtPreviewingState_events_def
  previewing_internal_evt_def prepare_and_start_def enable_msgs_delayed_def
  disable_msgs_delayed_def msg_type_enabled_delayed_def

end
