(* ===== verification/CamRecording.thy ===== *)
theory CamRecording
  imports CamHwi
begin

text \<open>
  \<open>procEvtRecordingState\<close>, the handler of the state RECORDING, and
  \<open>procEvtVideoPicTakingState\<close>, the handler of VIDEO_PIC_TAKING (a live snapshot during
  recording). Each has its messages and parameters, its camera operations, and its
  asynchronous events.
\<close>

section \<open>Recording\<close>

definition recording_internal_evt :: "internal_evt_payload \<Rightarrow> status_t smprog" where
  "recording_internal_evt e = (case evt_type e of
     QCAMERA_INTERNAL_EVT_FOCUS_UPDATE \<Rightarrow> call_rc (Notify (ProcessAutoFocusEvent (evt_data e)))
   | QCAMERA_INTERNAL_EVT_PREP_SNAPSHOT_DONE \<Rightarrow> ignore
   | QCAMERA_INTERNAL_EVT_FACE_DETECT_RESULT \<Rightarrow>
       call_rc (Notify (ProcessFaceDetectionResult (evt_data e)))
   | QCAMERA_INTERNAL_EVT_HISTOGRAM_STATS \<Rightarrow>
       call_rc (Notify (ProcessHistogramStats (evt_data e)))
   | QCAMERA_INTERNAL_EVT_CROP_INFO \<Rightarrow> call_rc (Notify (ProcessZoomEvent (evt_data e)))
   | QCAMERA_INTERNAL_EVT_ASD_UPDATE \<Rightarrow> call_rc (Notify (ProcessASDUpdate (evt_data e)))
   | QCAMERA_INTERNAL_EVT_LED_MODE_OVERRIDE \<Rightarrow> ignore
   | QCAMERA_INTERNAL_EVT_AWB_UPDATE \<Rightarrow> call_rc (Notify (TransAwbMetaToParams (evt_data e)))
   | QCAMERA_INTERNAL_EVT_AE_UPDATE \<Rightarrow> call_rc (Notify (ProcessAEInfo (evt_data e)))
   | QCAMERA_INTERNAL_EVT_FOCUS_POS_UPDATE \<Rightarrow>
       call_rc (Notify (ProcessFocusPositionInfo (evt_data e)))
   | QCAMERA_INTERNAL_EVT_HDR_UPDATE \<Rightarrow> call_rc (Notify (ProcessHDRData (evt_data e)))
   | QCAMERA_INTERNAL_EVT_RETRO_AEC_UNLOCK \<Rightarrow> call_rc (Notify ProcessRetroAECUnlock)
   | QCAMERA_INTERNAL_EVT_ZSL_CAPTURE_DONE \<Rightarrow> call_rc (Notify ProcessZSLCaptureDone)
   | _ \<Rightarrow> ignore)"

definition procEvtRecordingState_events :: "sm_evt \<Rightarrow> payload \<Rightarrow> status_t smprog" where
  "procEvtRecordingState_events evt p = (case evt of
     QCAMERA_SM_EVT_EVT_NOTIFY \<Rightarrow>
       (case pl_server_event_type p of
          CAM_EVENT_TYPE_DAEMON_DIED \<Rightarrow> do { invoke (Notify SendEvtNotify_ServerDied); ignore }
        | _ \<Rightarrow> ignore)
   | QCAMERA_SM_EVT_THERMAL_NOTIFY \<Rightarrow> call_rc (Notify (UpdateThermalLevel (pl_addr p)))
   | QCAMERA_SM_EVT_SNAPSHOT_DONE \<Rightarrow> reply_evt evt NO_ERROR
   | _ \<Rightarrow> ignore)"

definition procEvtRecordingState_capture :: "sm_evt \<Rightarrow> payload \<Rightarrow> status_t smprog" where
  "procEvtRecordingState_capture evt p = (case evt of
     QCAMERA_SM_EVT_DUMP \<Rightarrow> call_reply evt (Dump (pl_int32 p))
   | QCAMERA_SM_EVT_START_AUTO_FOCUS \<Rightarrow> call_reply evt AutoFocus
   | QCAMERA_SM_EVT_STOP_AUTO_FOCUS \<Rightarrow> call_reply evt CancelAutoFocus
   | QCAMERA_SM_EVT_SEND_COMMAND \<Rightarrow> call_reply evt (SendCommand (pl_command p))
   | QCAMERA_SM_EVT_PRE_TAKE_PICTURE \<Rightarrow> no_op evt
   | QCAMERA_SM_EVT_TAKE_PICTURE \<Rightarrow> do {
       goto_state QCAMERA_SM_STATE_VIDEO_PIC_TAKING;
       rc \<leftarrow> call_rc TakeLiveSnapshot;
       (if rc \<noteq> NO_ERROR then do {
          invoke UnconfigureAdvancedCapture;
          goto_state QCAMERA_SM_STATE_RECORDING }
        else State_Monad.return ());
       reply evt rc }
   | QCAMERA_SM_EVT_PRE_START_RECORDING \<Rightarrow> no_op evt
   | QCAMERA_SM_EVT_RESTART_STOP_PREVIEW \<Rightarrow> no_op evt
   | QCAMERA_SM_EVT_RESTART_START_PREVIEW \<Rightarrow> no_op evt
   | QCAMERA_SM_EVT_START_RECORDING \<Rightarrow> no_op evt
   | QCAMERA_SM_EVT_STOP_RECORDING \<Rightarrow> do {
       rc \<leftarrow> call_rc StopRecording;
       goto_state QCAMERA_SM_STATE_PREVIEWING;
       reply evt rc }
   | QCAMERA_SM_EVT_STOP_PREVIEW \<Rightarrow> do {
       invoke StopRecording;
       goto_state QCAMERA_SM_STATE_PREVIEWING;
       rc \<leftarrow> call_rc StopPreview;
       goto_state QCAMERA_SM_STATE_PREVIEW_STOPPED;
       reply evt rc }
   | QCAMERA_SM_EVT_RELEASE_RECORIDNG_FRAME \<Rightarrow>
       call_reply evt (ReleaseRecordingFrame (pl_addr p))
   | QCAMERA_SM_EVT_REG_FACE_IMAGE \<Rightarrow> register_face evt p
   | QCAMERA_SM_EVT_PREPARE_SNAPSHOT \<Rightarrow> no_op evt
   | QCAMERA_SM_EVT_CANCEL_PICTURE \<Rightarrow> cannot_handle evt
   | QCAMERA_SM_EVT_START_NODISPLAY_PREVIEW \<Rightarrow> cannot_handle evt
   | QCAMERA_SM_EVT_RELEASE \<Rightarrow> cannot_handle evt
   | QCAMERA_SM_EVT_EVT_INTERNAL \<Rightarrow> recording_internal_evt (pl_internal p)
   | _ \<Rightarrow> procEvtRecordingState_events evt p)"

text \<open>Parameters that need a preview restart are refused while recording.\<close>

definition set_params_no_restart :: "sm_evt \<Rightarrow> payload \<Rightarrow> status_t smprog" where
  "set_params_no_restart evt p = do {
     a \<leftarrow> hwi_call (Param (UpdateParameters (pl_addr p)));
     let rc = (if ret a = NO_ERROR \<and> flag a then BAD_VALUE else ret a);
     (if rc \<noteq> NO_ERROR then invoke (Param (SetNeedRestart False)) else State_Monad.return ());
     reply evt rc }"

definition procEvtRecordingState :: "sm_evt \<Rightarrow> payload \<Rightarrow> status_t smprog" where
  "procEvtRecordingState evt p = (case evt of
     QCAMERA_SM_EVT_PREPARE_PREVIEW \<Rightarrow> no_op evt
   | QCAMERA_SM_EVT_START_PREVIEW \<Rightarrow> no_op evt
   | QCAMERA_SM_EVT_SET_PREVIEW_WINDOW \<Rightarrow> no_op evt
   | QCAMERA_SM_EVT_SET_CALLBACKS \<Rightarrow> call_reply evt (SetCallBacks (pl_setcb p))
   | QCAMERA_SM_EVT_ENABLE_MSG_TYPE \<Rightarrow> call_reply evt (EnableMsgType (pl_int32 p))
   | QCAMERA_SM_EVT_DISABLE_MSG_TYPE \<Rightarrow> call_reply evt (DisableMsgType (pl_int32 p))
   | QCAMERA_SM_EVT_MSG_TYPE_ENABLED \<Rightarrow> msg_type_enabled evt p
   | QCAMERA_SM_EVT_SET_PARAMS \<Rightarrow> set_params_no_restart evt p
   | QCAMERA_SM_EVT_SET_PARAMS_COMMIT \<Rightarrow> call_reply evt (Param CommitParameterChanges)
   | QCAMERA_SM_EVT_SET_PARAMS_STOP \<Rightarrow> cannot_handle evt
   | QCAMERA_SM_EVT_SET_PARAMS_RESTART \<Rightarrow> cannot_handle evt
   | QCAMERA_SM_EVT_GET_PARAMS \<Rightarrow> get_params evt
   | QCAMERA_SM_EVT_PUT_PARAMS \<Rightarrow> call_reply evt (Param (PutParameters (pl_addr p)))
   | QCAMERA_SM_EVT_PREVIEW_ENABLED \<Rightarrow> reply_enabled evt NO_ERROR 0
   | QCAMERA_SM_EVT_RECORDING_ENABLED \<Rightarrow> reply_enabled evt NO_ERROR 1
   | QCAMERA_SM_EVT_STORE_METADATA_IN_BUFS \<Rightarrow>
       call_reply evt (StoreMetaDataInBuffers (pl_int32 p))
   | _ \<Rightarrow> procEvtRecordingState_capture evt p)"

lemmas procEvtRecordingState_defs = procEvtRecordingState_def
  procEvtRecordingState_capture_def procEvtRecordingState_events_def
  recording_internal_evt_def set_params_no_restart_def

section \<open>A live snapshot during recording\<close>

definition video_pic_internal_evt :: "internal_evt_payload \<Rightarrow> status_t smprog" where
  "video_pic_internal_evt e = (case evt_type e of
     QCAMERA_INTERNAL_EVT_FOCUS_UPDATE \<Rightarrow> call_rc (Notify (ProcessAutoFocusEvent (evt_data e)))
   | QCAMERA_INTERNAL_EVT_PREP_SNAPSHOT_DONE \<Rightarrow> ignore
   | QCAMERA_INTERNAL_EVT_FACE_DETECT_RESULT \<Rightarrow>
       call_rc (Notify (ProcessFaceDetectionResult (evt_data e)))
   | QCAMERA_INTERNAL_EVT_HISTOGRAM_STATS \<Rightarrow>
       call_rc (Notify (ProcessHistogramStats (evt_data e)))
   | QCAMERA_INTERNAL_EVT_CROP_INFO \<Rightarrow> call_rc (Notify (ProcessZoomEvent (evt_data e)))
   | QCAMERA_INTERNAL_EVT_ASD_UPDATE \<Rightarrow> call_rc (Notify (ProcessASDUpdate (evt_data e)))
   | QCAMERA_INTERNAL_EVT_LED_MODE_OVERRIDE \<Rightarrow> ignore
   | QCAMERA_INTERNAL_EVT_AWB_UPDATE \<Rightarrow> call_rc (Notify (TransAwbMetaToParams (evt_data e)))
   | QCAMERA_INTERNAL_EVT_AE_UPDATE \<Rightarrow> call_rc (Notify (ProcessAEInfo (evt_data e)))
   | QCAMERA_INTERNAL_EVT_FOCUS_POS_UPDATE \<Rightarrow>
       call_rc (Notify (ProcessFocusPositionInfo (evt_data e)))
   | QCAMERA_INTERNAL_EVT_HDR_UPDATE \<Rightarrow> call_rc (Notify (ProcessHDRData (evt_data e)))
   | QCAMERA_INTERNAL_EVT_RETRO_AEC_UNLOCK \<Rightarrow> call_rc (Notify ProcessRetroAECUnlock)
   | QCAMERA_INTERNAL_EVT_ZSL_CAPTURE_DONE \<Rightarrow> call_rc (Notify ProcessZSLCaptureDone)
   | _ \<Rightarrow> ignore)"

definition procEvtVideoPicTakingState_events :: "sm_evt \<Rightarrow> payload \<Rightarrow> status_t smprog" where
  "procEvtVideoPicTakingState_events evt p = (case evt of
     QCAMERA_SM_EVT_EVT_NOTIFY \<Rightarrow>
       (case pl_server_event_type p of
          CAM_EVENT_TYPE_DAEMON_DIED \<Rightarrow> do { invoke (Notify SendEvtNotify_ServerDied); ignore }
        | _ \<Rightarrow> ignore)
   | QCAMERA_SM_EVT_JPEG_EVT_NOTIFY \<Rightarrow> call_rc (Notify (ProcessJpegNotify (pl_addr p)))
   | QCAMERA_SM_EVT_SNAPSHOT_DONE \<Rightarrow> do {
       rc \<leftarrow> call_rc CancelLiveSnapshot;
       goto_state QCAMERA_SM_STATE_RECORDING;
       reply_evt evt rc }
   | QCAMERA_SM_EVT_THERMAL_NOTIFY \<Rightarrow> call_rc (Notify (UpdateThermalLevel (pl_addr p)))
   | _ \<Rightarrow> ignore)"

definition procEvtVideoPicTakingState_capture :: "sm_evt \<Rightarrow> payload \<Rightarrow> status_t smprog" where
  "procEvtVideoPicTakingState_capture evt p = (case evt of
     QCAMERA_SM_EVT_DUMP \<Rightarrow> call_reply evt (Dump (pl_int32 p))
   | QCAMERA_SM_EVT_START_AUTO_FOCUS \<Rightarrow> call_reply evt AutoFocus
   | QCAMERA_SM_EVT_STOP_AUTO_FOCUS \<Rightarrow> call_reply evt CancelAutoFocus
   | QCAMERA_SM_EVT_SEND_COMMAND \<Rightarrow> call_reply evt (SendCommand (pl_command p))
   | QCAMERA_SM_EVT_STOP_RECORDING \<Rightarrow> do {
       invoke CancelLiveSnapshot;
       goto_state QCAMERA_SM_STATE_RECORDING;
       rc \<leftarrow> call_rc StopRecording;
       goto_state QCAMERA_SM_STATE_PREVIEWING;
       reply evt rc }
   | QCAMERA_SM_EVT_RELEASE_RECORIDNG_FRAME \<Rightarrow>
       call_reply evt (ReleaseRecordingFrame (pl_addr p))
   | QCAMERA_SM_EVT_CANCEL_PICTURE \<Rightarrow> do {
       rc \<leftarrow> call_rc CancelLiveSnapshot;
       goto_state QCAMERA_SM_STATE_RECORDING;
       reply evt rc }
   | QCAMERA_SM_EVT_REG_FACE_IMAGE \<Rightarrow> register_face evt p
   | QCAMERA_SM_EVT_STOP_PREVIEW \<Rightarrow> do {
       invoke CancelLiveSnapshot;
       goto_state QCAMERA_SM_STATE_RECORDING;
       invoke StopRecording;
       goto_state QCAMERA_SM_STATE_PREVIEWING;
       rc \<leftarrow> call_rc StopPreview;
       goto_state QCAMERA_SM_STATE_PREVIEW_STOPPED;
       reply evt rc }
   | QCAMERA_SM_EVT_PRE_START_RECORDING \<Rightarrow> cannot_handle evt
   | QCAMERA_SM_EVT_RESTART_STOP_PREVIEW \<Rightarrow> cannot_handle evt
   | QCAMERA_SM_EVT_RESTART_START_PREVIEW \<Rightarrow> cannot_handle evt
   | QCAMERA_SM_EVT_START_RECORDING \<Rightarrow> cannot_handle evt
   | QCAMERA_SM_EVT_PREPARE_PREVIEW \<Rightarrow> cannot_handle evt
   | QCAMERA_SM_EVT_START_PREVIEW \<Rightarrow> cannot_handle evt
   | QCAMERA_SM_EVT_START_NODISPLAY_PREVIEW \<Rightarrow> cannot_handle evt
   | QCAMERA_SM_EVT_PREPARE_SNAPSHOT \<Rightarrow> cannot_handle evt
   | QCAMERA_SM_EVT_PRE_TAKE_PICTURE \<Rightarrow> cannot_handle evt
   | QCAMERA_SM_EVT_TAKE_PICTURE \<Rightarrow> cannot_handle evt
   | QCAMERA_SM_EVT_RELEASE \<Rightarrow> cannot_handle evt
   | QCAMERA_SM_EVT_EVT_INTERNAL \<Rightarrow> video_pic_internal_evt (pl_internal p)
   | _ \<Rightarrow> procEvtVideoPicTakingState_events evt p)"

definition procEvtVideoPicTakingState :: "sm_evt \<Rightarrow> payload \<Rightarrow> status_t smprog" where
  "procEvtVideoPicTakingState evt p = (case evt of
     QCAMERA_SM_EVT_SET_PREVIEW_WINDOW \<Rightarrow> cannot_handle evt
   | QCAMERA_SM_EVT_SET_CALLBACKS \<Rightarrow> call_reply evt (SetCallBacks (pl_setcb p))
   | QCAMERA_SM_EVT_ENABLE_MSG_TYPE \<Rightarrow> call_reply evt (EnableMsgType (pl_int32 p))
   | QCAMERA_SM_EVT_DISABLE_MSG_TYPE \<Rightarrow> call_reply evt (DisableMsgType (pl_int32 p))
   | QCAMERA_SM_EVT_MSG_TYPE_ENABLED \<Rightarrow> msg_type_enabled evt p
   | QCAMERA_SM_EVT_SET_PARAMS \<Rightarrow> set_params_no_restart evt p
   | QCAMERA_SM_EVT_SET_PARAMS_COMMIT \<Rightarrow> call_reply evt (Param CommitParameterChanges)
   | QCAMERA_SM_EVT_SET_PARAMS_STOP \<Rightarrow> cannot_handle evt
   | QCAMERA_SM_EVT_SET_PARAMS_RESTART \<Rightarrow> cannot_handle evt
   | QCAMERA_SM_EVT_GET_PARAMS \<Rightarrow> get_params evt
   | QCAMERA_SM_EVT_PUT_PARAMS \<Rightarrow> call_reply evt (Param (PutParameters (pl_addr p)))
   | QCAMERA_SM_EVT_PREVIEW_ENABLED \<Rightarrow> reply_enabled evt NO_ERROR 1
   | QCAMERA_SM_EVT_RECORDING_ENABLED \<Rightarrow> reply_enabled evt NO_ERROR 1
   | QCAMERA_SM_EVT_STORE_METADATA_IN_BUFS \<Rightarrow>
       call_reply evt (StoreMetaDataInBuffers (pl_int32 p))
   | _ \<Rightarrow> procEvtVideoPicTakingState_capture evt p)"

lemmas procEvtVideoPicTakingState_defs = procEvtVideoPicTakingState_def
  procEvtVideoPicTakingState_capture_def procEvtVideoPicTakingState_events_def
  video_pic_internal_evt_def set_params_no_restart_def

end
