(* ===== verification/CamPrepareSnapshot.thy ===== *)
theory CamPrepareSnapshot
  imports CamHwi
begin

text \<open>
  \<open>procEvtPrepareSnapshotState\<close>, the handler of the state PREPARE_SNAPSHOT: the API call
  \<open>prepare_snapshot\<close> is pending, every other API call is rejected, and the internal
  event PREP_SNAPSHOT_DONE answers the pending call.
\<close>

definition prepare_snapshot_internal_evt :: "internal_evt_payload \<Rightarrow> status_t smprog" where
  "prepare_snapshot_internal_evt e = (case evt_type e of
     QCAMERA_INTERNAL_EVT_FOCUS_UPDATE \<Rightarrow> call_rc (Notify (ProcessAutoFocusEvent (evt_data e)))
   | QCAMERA_INTERNAL_EVT_PREP_SNAPSHOT_DONE \<Rightarrow> do {
       invoke (Notify (ProcessPrepSnapshotDoneEvent (evt_data e)));
       goto_state QCAMERA_SM_STATE_PREVIEWING;
       signalAPIResult (def_result QCAMERA_SM_EVT_PREPARE_SNAPSHOT NO_ERROR);
       ignore }
   | QCAMERA_INTERNAL_EVT_FACE_DETECT_RESULT \<Rightarrow>
       call_rc (Notify (ProcessFaceDetectionResult (evt_data e)))
   | QCAMERA_INTERNAL_EVT_HISTOGRAM_STATS \<Rightarrow>
       call_rc (Notify (ProcessHistogramStats (evt_data e)))
   | QCAMERA_INTERNAL_EVT_CROP_INFO \<Rightarrow> call_rc (Notify (ProcessZoomEvent (evt_data e)))
   | QCAMERA_INTERNAL_EVT_ASD_UPDATE \<Rightarrow> call_rc (Notify (ProcessASDUpdate (evt_data e)))
   | QCAMERA_INTERNAL_EVT_LED_MODE_OVERRIDE \<Rightarrow> ignore
   | QCAMERA_INTERNAL_EVT_AWB_UPDATE \<Rightarrow> call_rc (Notify (TransAwbMetaToParams (evt_data e)))
   | QCAMERA_INTERNAL_EVT_AE_UPDATE \<Rightarrow> call_rc (Notify (ProcessAEInfo (evt_data e)))
   | QCAMERA_INTERNAL_EVT_FOCUS_POS_UPDATE \<Rightarrow>
       call_rc (Notify (ProcessFocusPositionInfo (evt_data e)))
   | QCAMERA_INTERNAL_EVT_HDR_UPDATE \<Rightarrow> call_rc (Notify (ProcessHDRData (evt_data e)))
   | QCAMERA_INTERNAL_EVT_RETRO_AEC_UNLOCK \<Rightarrow> call_rc (Notify ProcessRetroAECUnlock)
   | QCAMERA_INTERNAL_EVT_ZSL_CAPTURE_DONE \<Rightarrow> call_rc (Notify ProcessZSLCaptureDone)
   | _ \<Rightarrow> ignore)"

text \<open>
  The camera daemon died: wake the callers that may be waiting for a prepared snapshot or
  a picture, then tell the application.
\<close>

definition daemon_died_wake_callers :: "unit smprog" where
  "daemon_died_wake_callers = do {
     signalAPIResult (def_result QCAMERA_SM_EVT_PREPARE_SNAPSHOT NO_ERROR);
     signalAPIResult (def_result QCAMERA_SM_EVT_TAKE_PICTURE NO_ERROR);
     invoke (Notify SendEvtNotify_ServerDied) }"

definition procEvtPrepareSnapshotState_events :: "sm_evt \<Rightarrow> payload \<Rightarrow> status_t smprog" where
  "procEvtPrepareSnapshotState_events evt p = (case evt of
     QCAMERA_SM_EVT_EVT_NOTIFY \<Rightarrow>
       (case pl_server_event_type p of
          CAM_EVENT_TYPE_DAEMON_DIED \<Rightarrow> do { daemon_died_wake_callers; ignore }
        | _ \<Rightarrow> ignore)
   | QCAMERA_SM_EVT_SNAPSHOT_DONE \<Rightarrow> reply_evt evt NO_ERROR
   | QCAMERA_SM_EVT_THERMAL_NOTIFY \<Rightarrow> call_rc (Notify (UpdateThermalLevel (pl_addr p)))
   | _ \<Rightarrow> ignore)"

definition procEvtPrepareSnapshotState :: "sm_evt \<Rightarrow> payload \<Rightarrow> status_t smprog" where
  "procEvtPrepareSnapshotState evt p = (case evt of
     QCAMERA_SM_EVT_SET_PREVIEW_WINDOW \<Rightarrow> cannot_handle evt
   | QCAMERA_SM_EVT_SET_CALLBACKS \<Rightarrow> cannot_handle evt
   | QCAMERA_SM_EVT_ENABLE_MSG_TYPE \<Rightarrow> cannot_handle evt
   | QCAMERA_SM_EVT_DISABLE_MSG_TYPE \<Rightarrow> cannot_handle evt
   | QCAMERA_SM_EVT_MSG_TYPE_ENABLED \<Rightarrow> cannot_handle evt
   | QCAMERA_SM_EVT_SET_PARAMS \<Rightarrow> cannot_handle evt
   | QCAMERA_SM_EVT_SET_PARAMS_STOP \<Rightarrow> cannot_handle evt
   | QCAMERA_SM_EVT_SET_PARAMS_COMMIT \<Rightarrow> cannot_handle evt
   | QCAMERA_SM_EVT_SET_PARAMS_RESTART \<Rightarrow> cannot_handle evt
   | QCAMERA_SM_EVT_GET_PARAMS \<Rightarrow> cannot_handle evt
   | QCAMERA_SM_EVT_PUT_PARAMS \<Rightarrow> cannot_handle evt
   | QCAMERA_SM_EVT_PREPARE_PREVIEW \<Rightarrow> cannot_handle evt
   | QCAMERA_SM_EVT_START_PREVIEW \<Rightarrow> cannot_handle evt
   | QCAMERA_SM_EVT_START_NODISPLAY_PREVIEW \<Rightarrow> cannot_handle evt
   | QCAMERA_SM_EVT_STOP_PREVIEW \<Rightarrow> cannot_handle evt
   | QCAMERA_SM_EVT_PREVIEW_ENABLED \<Rightarrow> cannot_handle evt
   | QCAMERA_SM_EVT_RECORDING_ENABLED \<Rightarrow> cannot_handle evt
   | QCAMERA_SM_EVT_STORE_METADATA_IN_BUFS \<Rightarrow> cannot_handle evt
   | QCAMERA_SM_EVT_DUMP \<Rightarrow> cannot_handle evt
   | QCAMERA_SM_EVT_START_AUTO_FOCUS \<Rightarrow> cannot_handle evt
   | QCAMERA_SM_EVT_STOP_AUTO_FOCUS \<Rightarrow> cannot_handle evt
   | QCAMERA_SM_EVT_PRE_START_RECORDING \<Rightarrow> cannot_handle evt
   | QCAMERA_SM_EVT_RESTART_STOP_PREVIEW \<Rightarrow> cannot_handle evt
   | QCAMERA_SM_EVT_RESTART_START_PREVIEW \<Rightarrow> cannot_handle evt
   | QCAMERA_SM_EVT_START_RECORDING \<Rightarrow> cannot_handle evt
   | QCAMERA_SM_EVT_PRE_TAKE_PICTURE \<Rightarrow> cannot_handle evt
   | QCAMERA_SM_EVT_TAKE_PICTURE \<Rightarrow> cannot_handle evt
   | QCAMERA_SM_EVT_PREPARE_SNAPSHOT \<Rightarrow> cannot_handle evt
   | QCAMERA_SM_EVT_SEND_COMMAND \<Rightarrow> cannot_handle evt
   | QCAMERA_SM_EVT_CANCEL_PICTURE \<Rightarrow> cannot_handle evt
   | QCAMERA_SM_EVT_STOP_RECORDING \<Rightarrow> cannot_handle evt
   | QCAMERA_SM_EVT_RELEASE_RECORIDNG_FRAME \<Rightarrow> cannot_handle evt
   | QCAMERA_SM_EVT_RELEASE \<Rightarrow> cannot_handle evt
   | QCAMERA_SM_EVT_EVT_INTERNAL \<Rightarrow> prepare_snapshot_internal_evt (pl_internal p)
   | _ \<Rightarrow> procEvtPrepareSnapshotState_events evt p)"

lemmas procEvtPrepareSnapshotState_defs = procEvtPrepareSnapshotState_def
  procEvtPrepareSnapshotState_events_def prepare_snapshot_internal_evt_def
  daemon_died_wake_callers_def

end
