(* ===== verification/CamPicTaking.thy ===== *)
theory CamPicTaking
  imports CamPrepareSnapshot
begin

text \<open>
  \<open>procEvtPicTakingState\<close>, the handler of the state PIC_TAKING (a picture is taken with
  the preview stopped), in four groups of consecutive cases.
\<close>

definition pic_taking_internal_evt :: "internal_evt_payload \<Rightarrow> status_t smprog" where
  "pic_taking_internal_evt e = (case evt_type e of
     QCAMERA_INTERNAL_EVT_FOCUS_UPDATE \<Rightarrow> call_rc (Notify (ProcessAutoFocusEvent (evt_data e)))
   | QCAMERA_INTERNAL_EVT_PREP_SNAPSHOT_DONE \<Rightarrow> ignore
   | QCAMERA_INTERNAL_EVT_FACE_DETECT_RESULT \<Rightarrow> ignore
   | QCAMERA_INTERNAL_EVT_HISTOGRAM_STATS \<Rightarrow> ignore
   | QCAMERA_INTERNAL_EVT_CROP_INFO \<Rightarrow> call_rc (Notify (ProcessZoomEvent (evt_data e)))
   | QCAMERA_INTERNAL_EVT_ASD_UPDATE \<Rightarrow> call_rc (Notify (ProcessASDUpdate (evt_data e)))
   | QCAMERA_INTERNAL_EVT_LED_MODE_OVERRIDE \<Rightarrow> ignore
   | QCAMERA_INTERNAL_EVT_AWB_UPDATE \<Rightarrow> call_rc (Notify (TransAwbMetaToParams (evt_data e)))
   | QCAMERA_INTERNAL_EVT_AE_UPDATE \<Rightarrow> call_rc (Notify (ProcessAEInfo (evt_data e)))
   | QCAMERA_INTERNAL_EVT_FOCUS_POS_UPDATE \<Rightarrow>
       call_rc (Notify (ProcessFocusPositionInfo (evt_data e)))
   | QCAMERA_INTERNAL_EVT_HDR_UPDATE \<Rightarrow> call_rc (Notify (ProcessHDRData (evt_data e)))
   | QCAMERA_INTERNAL_EVT_RETRO_AEC_UNLOCK \<Rightarrow> call_rc (Notify ProcessRetroAECUnlock)
   | QCAMERA_INTERNAL_EVT_ZSL_CAPTURE_DONE \<Rightarrow> call_rc (Notify ProcessZSLCaptureDone)
   | _ \<Rightarrow> ignore)"

text \<open>
  Chromatic aberration correction is done: play the shutter sound of a long shot.
  The conditions are evaluated left to right, as the C++ operators do.
\<close>

definition cac_done :: "unit smprog" where
  "cac_done = do {
     cac \<leftarrow> query IsCACEnabled;
     feat \<leftarrow> (if cac then State_Monad.return True else query IsOEMFeatEnabled);
     if feat then do {
       longshot \<leftarrow> query IsLongshotEnabled;
       silent \<leftarrow> (if longshot then do {
           shutter \<leftarrow> query IsCaptureShutterEnabled;
           State_Monad.return (\<not> shutter) }
         else State_Monad.return False);
       (if silent then invoke (Notify PlayShutter) else State_Monad.return ());
       invoke (Notify Set_mCACDoneReceived) }
     else State_Monad.return () }"

definition procEvtPicTakingState_events :: "sm_evt \<Rightarrow> payload \<Rightarrow> status_t smprog" where
  "procEvtPicTakingState_events evt p = (case evt of
     QCAMERA_SM_EVT_EVT_NOTIFY \<Rightarrow>
       (case pl_server_event_type p of
          CAM_EVENT_TYPE_DAEMON_DIED \<Rightarrow> do { daemon_died_wake_callers; ignore }
        | CAM_EVENT_TYPE_CAC_DONE \<Rightarrow> do { cac_done; ignore }
        | _ \<Rightarrow> ignore)
   | QCAMERA_SM_EVT_JPEG_EVT_NOTIFY \<Rightarrow> call_rc (Notify (ProcessJpegNotify (pl_addr p)))
   | QCAMERA_SM_EVT_STOP_CAPTURE_CHANNEL \<Rightarrow> do {
       restartPreview \<leftarrow> query IsPreviewRestartEnabled;
       rc \<leftarrow> call_rc (StopCaptureChannel restartPreview);
       rc \<leftarrow> (if restartPreview \<and> rc = NO_ERROR then do {
           invoke UnconfigureAdvancedCapture;
           rc \<leftarrow> call_rc PreparePreview;
           if rc = NO_ERROR then do {
             invoke Set_m_bPreviewStarted;
             applyDelayedMsgs;
             call_rc StartPreview }
           else State_Monad.return rc }
         else State_Monad.return rc);
       reply evt rc }
   | QCAMERA_SM_EVT_SNAPSHOT_DONE \<Rightarrow> do {
       rc \<leftarrow> call_rc CancelPicture;
       restartPreview \<leftarrow> query IsPreviewRestartEnabled;
       rc \<leftarrow> (if restartPreview then do {
           a \<leftarrow> hwi_call (Param GetManualCaptureMode);
           rc \<leftarrow> (if CAM_MANUAL_CAPTURE_TYPE_3 \<le> out a then do {
               s \<leftarrow> State_Monad.get;
               invoke (Param (UpdateZSLModeValue (m_RestoreZSL s)));
               State_Monad.update (\<lambda>s. s\<lparr>m_RestoreZSL := False\<rparr>);
               rc \<leftarrow> call_rc PreparePreview;
               if rc = NO_ERROR then do {
                 invoke Set_m_bPreviewStarted;
                 applyDelayedMsgs;
                 call_rc StartPreview }
               else State_Monad.return rc }
             else State_Monad.return rc);
           goto_state QCAMERA_SM_STATE_PREVIEWING;
           State_Monad.return rc }
         else do {
           goto_state QCAMERA_SM_STATE_PREVIEW_STOPPED;
           State_Monad.return rc });
       reply_evt evt rc }
   | QCAMERA_SM_EVT_THERMAL_NOTIFY \<Rightarrow> call_rc (Notify (UpdateThermalLevel (pl_addr p)))
   | _ \<Rightarrow> ignore)"

definition procEvtPicTakingState_capture :: "sm_evt \<Rightarrow> payload \<Rightarrow> status_t smprog" where
  "procEvtPicTakingState_capture evt p = (case evt of
     QCAMERA_SM_EVT_SEND_COMMAND \<Rightarrow> do {
       rc \<leftarrow> call_rc (SendCommand (pl_command p));
       s \<leftarrow> State_Monad.get;
       (if \<not> VANILLA_HAL (m_parent s) \<and> cmd (pl_command p) = CAMERA_CMD_LONGSHOT_OFF
        then goto_state QCAMERA_SM_STATE_PREVIEWING else State_Monad.return ());
       reply evt rc }
   | QCAMERA_SM_EVT_CANCEL_PICTURE \<Rightarrow> do {
       rc \<leftarrow> call_rc CancelPicture;
       goto_state QCAMERA_SM_STATE_PREVIEW_STOPPED;
       reply evt rc }
   | QCAMERA_SM_EVT_REG_FACE_IMAGE \<Rightarrow> register_face evt p
   | QCAMERA_SM_EVT_PRE_TAKE_PICTURE \<Rightarrow> do {
       longshot \<leftarrow> query IsLongshotEnabled;
       reply evt (if longshot then NO_ERROR else INVALID_OPERATION) }
   | QCAMERA_SM_EVT_TAKE_PICTURE \<Rightarrow> do {
       longshot \<leftarrow> query IsLongshotEnabled;
       rc \<leftarrow> (if longshot then call_rc LongShot else State_Monad.return INVALID_OPERATION);
       reply evt rc }
   | QCAMERA_SM_EVT_PREPARE_SNAPSHOT \<Rightarrow> cannot_handle evt
   | QCAMERA_SM_EVT_PRE_START_RECORDING \<Rightarrow> cannot_handle evt
   | QCAMERA_SM_EVT_RESTART_STOP_PREVIEW \<Rightarrow> cannot_handle evt
   | QCAMERA_SM_EVT_RESTART_START_PREVIEW \<Rightarrow> cannot_handle evt
   | QCAMERA_SM_EVT_START_RECORDING \<Rightarrow> cannot_handle evt
   | QCAMERA_SM_EVT_STOP_RECORDING \<Rightarrow> cannot_handle evt
   | QCAMERA_SM_EVT_RELEASE_RECORIDNG_FRAME \<Rightarrow> cannot_handle evt
   | QCAMERA_SM_EVT_PREPARE_PREVIEW \<Rightarrow> cannot_handle evt
   | QCAMERA_SM_EVT_START_PREVIEW \<Rightarrow> cannot_handle evt
   | QCAMERA_SM_EVT_START_NODISPLAY_PREVIEW \<Rightarrow> cannot_handle evt
   | QCAMERA_SM_EVT_RELEASE \<Rightarrow> cannot_handle evt
   | QCAMERA_SM_EVT_EVT_INTERNAL \<Rightarrow> pic_taking_internal_evt (pl_internal p)
   | _ \<Rightarrow> procEvtPicTakingState_events evt p)"

definition procEvtPicTakingState :: "sm_evt \<Rightarrow> payload \<Rightarrow> status_t smprog" where
  "procEvtPicTakingState evt p = (case evt of
     QCAMERA_SM_EVT_SET_PREVIEW_WINDOW \<Rightarrow> cannot_handle evt
   | QCAMERA_SM_EVT_SET_CALLBACKS \<Rightarrow> call_reply evt (SetCallBacks (pl_setcb p))
   | QCAMERA_SM_EVT_ENABLE_MSG_TYPE \<Rightarrow> call_reply evt (EnableMsgType (pl_int32 p))
   | QCAMERA_SM_EVT_DISABLE_MSG_TYPE \<Rightarrow> call_reply evt (DisableMsgType (pl_int32 p))
   | QCAMERA_SM_EVT_MSG_TYPE_ENABLED \<Rightarrow> msg_type_enabled evt p
   | QCAMERA_SM_EVT_SET_PARAMS \<Rightarrow> call_reply evt (Param (UpdateParameters (pl_addr p)))
   | QCAMERA_SM_EVT_SET_PARAMS_STOP \<Rightarrow> reply evt NO_ERROR
   | QCAMERA_SM_EVT_SET_PARAMS_COMMIT \<Rightarrow> call_reply evt (Param CommitParameterChanges)
   | QCAMERA_SM_EVT_SET_PARAMS_RESTART \<Rightarrow> do {
       invoke (Param (SetNeedRestart False));
       reply evt NO_ERROR }
   | QCAMERA_SM_EVT_GET_PARAMS \<Rightarrow> get_params evt
   | QCAMERA_SM_EVT_PUT_PARAMS \<Rightarrow> call_reply evt (Param (PutParameters (pl_addr p)))
   | QCAMERA_SM_EVT_STOP_PREVIEW \<Rightarrow> do {
       rc \<leftarrow> call_rc CancelPicture;
       goto_state QCAMERA_SM_STATE_PREVIEW_STOPPED;
       reply evt rc }
   | QCAMERA_SM_EVT_PREVIEW_ENABLED \<Rightarrow> reply_enabled evt NO_ERROR 0
   | QCAMERA_SM_EVT_RECORDING_ENABLED \<Rightarrow> reply_enabled evt NO_ERROR 0
   | QCAMERA_SM_EVT_STORE_METADATA_IN_BUFS \<Rightarrow>
       call_reply evt (StoreMetaDataInBuffers (pl_int32 p))
   | QCAMERA_SM_EVT_DUMP \<Rightarrow> call_reply evt (Dump (pl_int32 p))
   | QCAMERA_SM_EVT_START_AUTO_FOCUS \<Rightarrow> call_reply evt AutoFocus
   | QCAMERA_SM_EVT_STOP_AUTO_FOCUS \<Rightarrow> call_reply evt CancelAutoFocus
   | _ \<Rightarrow> procEvtPicTakingState_capture evt p)"

lemmas procEvtPicTakingState_defs = procEvtPicTakingState_def
  procEvtPicTakingState_capture_def procEvtPicTakingState_events_def
  pic_taking_internal_evt_def cac_done_def daemon_died_wake_callers_def

end
