(* ===== verification/CamPreviewPicTaking.thy ===== *)
theory CamPreviewPicTaking
  imports CamPicTaking
begin

text \<open>
  \<open>procEvtPreviewPicTakingState\<close>, the handler of the state PREVIEW_PIC_TAKING (a ZSL or
  live snapshot while the preview runs), in four groups of consecutive cases.
\<close>

text \<open>
  Two internal events end the waiting of an API caller here, in retro-picture mode only:
  PREP_SNAPSHOT_DONE answers \<open>prepare_snapshot\<close>, READY_FOR_SNAPSHOT \<open>take_picture\<close>.
\<close>

definition preview_pic_internal_evt :: "internal_evt_payload \<Rightarrow> status_t smprog" where
  "preview_pic_internal_evt e = (case evt_type e of
     QCAMERA_INTERNAL_EVT_FOCUS_UPDATE \<Rightarrow> call_rc (Notify (ProcessAutoFocusEvent (evt_data e)))
   | QCAMERA_INTERNAL_EVT_PREP_SNAPSHOT_DONE \<Rightarrow> do {
       retro \<leftarrow> query IsRetroPicture;
       (if retro then do {
          invoke (Notify (ProcessPrepSnapshotDoneEvent (evt_data e)));
          signalAPIResult (def_result QCAMERA_SM_EVT_PREPARE_SNAPSHOT NO_ERROR) }
        else State_Monad.return ());
       ignore }
   | QCAMERA_INTERNAL_EVT_FACE_DETECT_RESULT \<Rightarrow>
       call_rc (Notify (ProcessFaceDetectionResult (evt_data e)))
   | QCAMERA_INTERNAL_EVT_READY_FOR_SNAPSHOT \<Rightarrow> do {
       retro \<leftarrow> query IsRetroPicture;
       (if retro then
          signalAPIResult (def_result QCAMERA_SM_EVT_TAKE_PICTURE NO_ERROR)
        else State_Monad.return ());
       ignore }
   | QCAMERA_INTERNAL_EVT_HISTOGRAM_STATS \<Rightarrow>
       call_rc (Notify (ProcessHistogramStats (evt_data e)))
   | QCAMERA_INTERNAL_EVT_CROP_INFO \<Rightarrow> call_rc (Notify (ProcessZoomEvent (evt_data e)))
   | QCAMERA_INTERNAL_EVT_ASD_UPDATE \<Rightarrow> call_rc (Notify (ProcessASDUpdate (evt_data e)))
   | QCAMERA_INTERNAL_EVT_LED_MODE_OVERRIDE \<Rightarrow> ignore
   | QCAMERA_INTERNAL_EVT_AWB_UPDATE \<Rightarrow> call_rc (Notify (TransAwbMetaToParams (evt_data e)))
   | QCAMERA_INTERNAL_EVT_AE_UPDATE \<Rightarrow> call_rc (Notify (ProcessAEInfo (evt_data e)))
   | QCAMERA_INTERNAL_EVT_FOCUS_POS_UPDATE \<Rightarrow>
       call_rc (Notify (ProcessFocusPositionInfo (evt_data e)))
   | QCAMERA_INTERNAL_EVT_HDR_UPDATE \<Rightarrow> call_rc (Notify (ProcessHDRData (evt_data e)))
   | QCAMERA_INTERNAL_EVT_RETRO_AEC_UNLOCK \<Rightarrow> call_rc (Notify ProcessRetroAECUnlock)
   | QCAMERA_INTERNAL_EVT_ZSL_CAPTURE_DONE \<Rightarrow> call_rc (Notify ProcessZSLCaptureDone)
   | _ \<Rightarrow> ignore)"

text \<open>Cancel the running capture: a ZSL or long-shot picture, or a live snapshot.\<close>

definition cancel_zsl_or_live :: "status_t smprog" where
  "cancel_zsl_or_live = do {
     b \<leftarrow> zsl_or_longshot;
     if b then call_rc CancelPicture else call_rc CancelLiveSnapshot }"

definition procEvtPreviewPicTakingState_events :: "sm_evt \<Rightarrow> payload \<Rightarrow> status_t smprog" where
  "procEvtPreviewPicTakingState_events evt p = (case evt of
     QCAMERA_SM_EVT_EVT_NOTIFY \<Rightarrow>
       (case pl_server_event_type p of
          CAM_EVENT_TYPE_DAEMON_DIED \<Rightarrow> do { daemon_died_wake_callers; ignore }
        | CAM_EVENT_TYPE_CAC_DONE \<Rightarrow> do { cac_done; ignore }
        | _ \<Rightarrow> ignore)
   | QCAMERA_SM_EVT_JPEG_EVT_NOTIFY \<Rightarrow> call_rc (Notify (ProcessJpegNotify (pl_addr p)))
   | QCAMERA_SM_EVT_SNAPSHOT_DONE \<Rightarrow> do {
       rc \<leftarrow> cancel_zsl_or_live;
       goto_state QCAMERA_SM_STATE_PREVIEWING;
       retro \<leftarrow> query IsRetroPicture;
       (if retro then signalAPIResult (def_result evt rc) else State_Monad.return ());
       reply_evt evt rc }
   | QCAMERA_SM_EVT_THERMAL_NOTIFY \<Rightarrow> call_rc (Notify (UpdateThermalLevel (pl_addr p)))
   | QCAMERA_SM_EVT_RESTART_STOP_PREVIEW \<Rightarrow> do {
       invoke StopPreview;
       reply evt NO_ERROR }
   | QCAMERA_SM_EVT_RESTART_START_PREVIEW \<Rightarrow> do {
       rc \<leftarrow> call_rc PreparePreview;
       rc \<leftarrow> (if rc = NO_ERROR then call_rc StartPreview else State_Monad.return rc);
       reply evt rc }
   | _ \<Rightarrow> ignore)"

definition procEvtPreviewPicTakingState_snapshot :: "sm_evt \<Rightarrow> payload \<Rightarrow> status_t smprog" where
  "procEvtPreviewPicTakingState_snapshot evt p = (case evt of
     QCAMERA_SM_EVT_REG_FACE_IMAGE \<Rightarrow> register_face evt p
   | QCAMERA_SM_EVT_PRE_TAKE_PICTURE \<Rightarrow> do {
       longshot \<leftarrow> query IsLongshotEnabled;
       reply evt (if longshot then NO_ERROR else INVALID_OPERATION) }
   | QCAMERA_SM_EVT_TAKE_PICTURE \<Rightarrow> do {
       longshot \<leftarrow> query IsLongshotEnabled;
       rc \<leftarrow> (if longshot then call_rc LongShot else State_Monad.return INVALID_OPERATION);
       reply evt rc }
   | QCAMERA_SM_EVT_PREPARE_SNAPSHOT \<Rightarrow> do {
       retro \<leftarrow> query IsRetroPicture;
       if retro then do {
         rc \<leftarrow> call_rc (PrepareHardwareForSnapshot False);
         if rc \<noteq> NO_ERROR then reply evt rc else State_Monad.return rc }
       else cannot_handle evt }
   | QCAMERA_SM_EVT_STOP_RECORDING \<Rightarrow> cannot_handle evt
   | QCAMERA_SM_EVT_PREPARE_PREVIEW \<Rightarrow> cannot_handle evt
   | QCAMERA_SM_EVT_START_PREVIEW \<Rightarrow> cannot_handle evt
   | QCAMERA_SM_EVT_START_NODISPLAY_PREVIEW \<Rightarrow> cannot_handle evt
   | QCAMERA_SM_EVT_SET_PREVIEW_WINDOW \<Rightarrow> cannot_handle evt
   | QCAMERA_SM_EVT_RELEASE \<Rightarrow> cannot_handle evt
   | QCAMERA_SM_EVT_EVT_INTERNAL \<Rightarrow> preview_pic_internal_evt (pl_internal p)
   | _ \<Rightarrow> procEvtPreviewPicTakingState_events evt p)"

definition procEvtPreviewPicTakingState_capture :: "sm_evt \<Rightarrow> payload \<Rightarrow> status_t smprog" where
  "procEvtPreviewPicTakingState_capture evt p = (case evt of
     QCAMERA_SM_EVT_STORE_METADATA_IN_BUFS \<Rightarrow>
       call_reply evt (StoreMetaDataInBuffers (pl_int32 p))
   | QCAMERA_SM_EVT_DUMP \<Rightarrow> call_reply evt (Dump (pl_int32 p))
   | QCAMERA_SM_EVT_START_AUTO_FOCUS \<Rightarrow> call_reply evt AutoFocus
   | QCAMERA_SM_EVT_STOP_AUTO_FOCUS \<Rightarrow> call_reply evt CancelAutoFocus
   | QCAMERA_SM_EVT_SEND_COMMAND \<Rightarrow> do {
       rc \<leftarrow> call_rc (SendCommand (pl_command p));
       s \<leftarrow> State_Monad.get;
       (if \<not> VANILLA_HAL (m_parent s) \<and> cmd (pl_command p) = CAMERA_CMD_LONGSHOT_OFF
        then goto_state QCAMERA_SM_STATE_PREVIEWING else State_Monad.return ());
       reply evt rc }
   | QCAMERA_SM_EVT_RELEASE_RECORIDNG_FRAME \<Rightarrow>
       call_reply evt (ReleaseRecordingFrame (pl_addr p))
   | QCAMERA_SM_EVT_CANCEL_PICTURE \<Rightarrow> do {
       rc \<leftarrow> cancel_zsl_or_live;
       goto_state QCAMERA_SM_STATE_PREVIEWING;
       reply evt rc }
   | QCAMERA_SM_EVT_STOP_PREVIEW \<Rightarrow> do {
       zsl \<leftarrow> query IsZSLMode;
       rc \<leftarrow> (if zsl then do {
           rc \<leftarrow> call_rc CancelPicture;
           invoke StopChannel_ZSL;
           State_Monad.return rc }
         else do {
           longshot \<leftarrow> query IsLongshotEnabled;
           if longshot then call_rc CancelPicture
           else do {
             rc \<leftarrow> call_rc CancelLiveSnapshot;
             invoke StopChannel_PREVIEW;
             State_Monad.return rc } });
       invoke UnpreparePreview;
       goto_state QCAMERA_SM_STATE_PREVIEW_STOPPED;
       reply evt rc }
   | QCAMERA_SM_EVT_PRE_START_RECORDING \<Rightarrow> do {
       b \<leftarrow> zsl_or_longshot;
       rc \<leftarrow> (if b then State_Monad.return INVALID_OPERATION else call_rc PreStartRecording);
       reply evt rc }
   | QCAMERA_SM_EVT_START_RECORDING \<Rightarrow> do {
       b \<leftarrow> zsl_or_longshot;
       rc \<leftarrow> (if b then State_Monad.return INVALID_OPERATION
         else do {
           rc \<leftarrow> call_rc StartRecording;
           (if rc = NO_ERROR then goto_state QCAMERA_SM_STATE_VIDEO_PIC_TAKING
            else State_Monad.return ());
           State_Monad.return rc });
       reply evt rc }
   | _ \<Rightarrow> procEvtPreviewPicTakingState_snapshot evt p)"

definition procEvtPreviewPicTakingState :: "sm_evt \<Rightarrow> payload \<Rightarrow> status_t smprog" where
  "procEvtPreviewPicTakingState evt p = (case evt of
     QCAMERA_SM_EVT_SET_CALLBACKS \<Rightarrow> call_reply evt (SetCallBacks (pl_setcb p))
   | QCAMERA_SM_EVT_ENABLE_MSG_TYPE \<Rightarrow> call_reply evt (EnableMsgType (pl_int32 p))
   | QCAMERA_SM_EVT_DISABLE_MSG_TYPE \<Rightarrow> call_reply evt (DisableMsgType (pl_int32 p))
   | QCAMERA_SM_EVT_MSG_TYPE_ENABLED \<Rightarrow> msg_type_enabled evt p
   | QCAMERA_SM_EVT_SET_PARAMS \<Rightarrow> call_reply evt (Param (UpdateParameters (pl_addr p)))
   | QCAMERA_SM_EVT_SET_PARAMS_STOP \<Rightarrow> do {
       rc \<leftarrow> call_rc StopPreview;
       invoke (Param MemoryPoolClear);
       reply evt rc }
   | QCAMERA_SM_EVT_SET_PARAMS_COMMIT \<Rightarrow> call_reply evt (Param CommitParameterChanges)
   | QCAMERA_SM_EVT_SET_PARAMS_RESTART \<Rightarrow> do {
       rc \<leftarrow> call_rc PreparePreview;
       rc \<leftarrow> (if rc = NO_ERROR then do {
           applyDelayedMsgs;
           rc \<leftarrow> call_rc StartPreview;
           (if rc \<noteq> NO_ERROR then invoke UnpreparePreview else State_Monad.return ());
           State_Monad.return rc }
         else State_Monad.return rc);
       (if rc \<noteq> NO_ERROR then goto_state QCAMERA_SM_STATE_PIC_TAKING
        else State_Monad.return ());
       invoke (Param (SetNeedRestart False));
       reply evt rc }
   | QCAMERA_SM_EVT_GET_PARAMS \<Rightarrow> get_params evt
   | QCAMERA_SM_EVT_PUT_PARAMS \<Rightarrow> call_reply evt (Param (PutParameters (pl_addr p)))
   | QCAMERA_SM_EVT_PREVIEW_ENABLED \<Rightarrow> reply_enabled evt NO_ERROR 1
   | QCAMERA_SM_EVT_RECORDING_ENABLED \<Rightarrow> reply_enabled evt NO_ERROR 0
   | _ \<Rightarrow> procEvtPreviewPicTakingState_capture evt p)"

lemmas procEvtPreviewPicTakingState_defs = procEvtPreviewPicTakingState_def
  procEvtPreviewPicTakingState_capture_def procEvtPreviewPicTakingState_snapshot_def
  procEvtPreviewPicTakingState_events_def preview_pic_internal_evt_def
  cancel_zsl_or_live_def cac_done_def daemon_died_wake_callers_def

end
