(* ===== verification/CamStateMachine.thy ===== *)
theory CamStateMachine
  imports CamPreviewStopped CamPreviewReady CamPreviewing CamRecording CamPreviewPicTaking
begin

text \<open>
  The state machine as a whole: \<open>stateMachine\<close>, which hands an event to the handler of
  the current state, the queries on the state, and \<open>dump\<close>.
\<close>

definition stateMachine :: "sm_evt \<Rightarrow> payload \<Rightarrow> status_t smprog" where
  "stateMachine evt p = do {
     s \<leftarrow> State_Monad.get;
     (case m_state s of
        QCAMERA_SM_STATE_PREVIEW_STOPPED \<Rightarrow> procEvtPreviewStoppedState evt p
      | QCAMERA_SM_STATE_PREVIEW_READY \<Rightarrow> procEvtPreviewReadyState evt p
      | QCAMERA_SM_STATE_PREVIEWING \<Rightarrow> procEvtPreviewingState evt p
      | QCAMERA_SM_STATE_PREPARE_SNAPSHOT \<Rightarrow> procEvtPrepareSnapshotState evt p
      | QCAMERA_SM_STATE_PIC_TAKING \<Rightarrow> procEvtPicTakingState evt p
      | QCAMERA_SM_STATE_RECORDING \<Rightarrow> procEvtRecordingState evt p
      | QCAMERA_SM_STATE_VIDEO_PIC_TAKING \<Rightarrow> procEvtVideoPicTakingState evt p
      | QCAMERA_SM_STATE_PREVIEW_PIC_TAKING \<Rightarrow> procEvtPreviewPicTakingState evt p) }"

definition isRecording :: "sm \<Rightarrow> bool" where
  "isRecording s = (case m_state s of
     QCAMERA_SM_STATE_RECORDING \<Rightarrow> True
   | QCAMERA_SM_STATE_VIDEO_PIC_TAKING \<Rightarrow> True
   | _ \<Rightarrow> False)"

definition isPreviewRunning :: "sm \<Rightarrow> bool" where
  "isPreviewRunning s = (case m_state s of
     QCAMERA_SM_STATE_PREVIEWING \<Rightarrow> True
   | QCAMERA_SM_STATE_RECORDING \<Rightarrow> True
   | QCAMERA_SM_STATE_VIDEO_PIC_TAKING \<Rightarrow> True
   | QCAMERA_SM_STATE_PREVIEW_PIC_TAKING \<Rightarrow> True
   | QCAMERA_SM_STATE_PREPARE_SNAPSHOT \<Rightarrow> True
   | QCAMERA_SM_STATE_PREVIEW_READY \<Rightarrow> True
   | _ \<Rightarrow> False)"

definition isPreviewReady :: "sm \<Rightarrow> bool" where
  "isPreviewReady s = (case m_state s of QCAMERA_SM_STATE_PREVIEW_READY \<Rightarrow> True | _ \<Rightarrow> False)"

definition isCaptureRunning :: "sm \<Rightarrow> bool" where
  "isCaptureRunning s = (case m_state s of
     QCAMERA_SM_STATE_PIC_TAKING \<Rightarrow> True
   | QCAMERA_SM_STATE_VIDEO_PIC_TAKING \<Rightarrow> True
   | QCAMERA_SM_STATE_PREVIEW_PIC_TAKING \<Rightarrow> True
   | _ \<Rightarrow> False)"

definition isNonZSLCaptureRunning :: "sm \<Rightarrow> bool" where
  "isNonZSLCaptureRunning s =
    (case m_state s of QCAMERA_SM_STATE_PIC_TAKING \<Rightarrow> True | _ \<Rightarrow> False)"

text \<open>The text \<open>dump\<close> composes; \<open>%d\<close> prints a truth value as 0 or 1.\<close>

definition show_bool :: "bool \<Rightarrow> string" where
  "show_bool b = (if b then ''1'' else ''0'')"

fun show_sm_state :: "sm_state \<Rightarrow> string \<times> string" where
  "show_sm_state QCAMERA_SM_STATE_PREVIEW_STOPPED =
    (''0'', '' QCAMERA_SM_STATE_PREVIEW_STOPPED '')"
| "show_sm_state QCAMERA_SM_STATE_PREVIEW_READY =
    (''1'', '' QCAMERA_SM_STATE_PREVIEW_READY '')"
| "show_sm_state QCAMERA_SM_STATE_PREVIEWING =
    (''2'', '' QCAMERA_SM_STATE_PREVIEWING '')"
| "show_sm_state QCAMERA_SM_STATE_PREPARE_SNAPSHOT =
    (''3'', '' QCAMERA_SM_STATE_PREPARE_SNAPSHOT '')"
| "show_sm_state QCAMERA_SM_STATE_PIC_TAKING =
    (''4'', '' QCAMERA_SM_STATE_PIC_TAKING '')"
| "show_sm_state QCAMERA_SM_STATE_RECORDING =
    (''5'', '' QCAMERA_SM_STATE_RECORDING '')"
| "show_sm_state QCAMERA_SM_STATE_VIDEO_PIC_TAKING =
    (''6'', '' QCAMERA_SM_STATE_VIDEO_PIC_TAKING '')"
| "show_sm_state QCAMERA_SM_STATE_PREVIEW_PIC_TAKING =
    (''7'', '' QCAMERA_SM_STATE_PREVIEW_PIC_TAKING '')"

definition newline :: string where
  "newline = [CHR 0x0A]"

definition dump :: "sm \<Rightarrow> string" where
  "dump s = newline
    @ ''Is Preview Running: '' @ show_bool (isPreviewRunning s) @ newline
    @ ''Is Capture Running: '' @ show_bool (isCaptureRunning s) @ newline
    @ ''Is Non ZSL Capture Running: '' @ show_bool (isNonZSLCaptureRunning s) @ newline
    @ ''Current State: '' @ fst (show_sm_state (m_state s)) @ '' '' @ newline
    @ snd (show_sm_state (m_state s)) @ newline"

section \<open>Specification: the state graph\<close>

text \<open>The states an event may lead to from a state, over all behaviours of the hardware.\<close>

definition sm_succ :: "sm_state \<Rightarrow> sm_evt \<Rightarrow> sm_state set" where
  "sm_succ st evt = (case st of
     QCAMERA_SM_STATE_PREVIEW_STOPPED \<Rightarrow> (case evt of
         QCAMERA_SM_EVT_PREPARE_PREVIEW \<Rightarrow> {st, QCAMERA_SM_STATE_PREVIEW_READY}
       | QCAMERA_SM_EVT_START_PREVIEW \<Rightarrow>
           {st, QCAMERA_SM_STATE_PREVIEW_READY, QCAMERA_SM_STATE_PREVIEWING}
       | QCAMERA_SM_EVT_START_NODISPLAY_PREVIEW \<Rightarrow> {st, QCAMERA_SM_STATE_PREVIEWING}
       | _ \<Rightarrow> {st})
   | QCAMERA_SM_STATE_PREVIEW_READY \<Rightarrow> (case evt of
         QCAMERA_SM_EVT_SET_PREVIEW_WINDOW \<Rightarrow>
           {st, QCAMERA_SM_STATE_PREVIEW_STOPPED, QCAMERA_SM_STATE_PREVIEWING}
       | QCAMERA_SM_EVT_SET_PARAMS_RESTART \<Rightarrow> {st, QCAMERA_SM_STATE_PREVIEW_STOPPED}
       | QCAMERA_SM_EVT_START_PREVIEW \<Rightarrow>
           {st, QCAMERA_SM_STATE_PREVIEW_STOPPED, QCAMERA_SM_STATE_PREVIEWING}
       | QCAMERA_SM_EVT_START_NODISPLAY_PREVIEW \<Rightarrow>
           {QCAMERA_SM_STATE_PREVIEW_STOPPED, QCAMERA_SM_STATE_PREVIEWING}
       | QCAMERA_SM_EVT_STOP_PREVIEW \<Rightarrow> {QCAMERA_SM_STATE_PREVIEW_STOPPED}
       | _ \<Rightarrow> {st})
   | QCAMERA_SM_STATE_PREVIEWING \<Rightarrow> (case evt of
         QCAMERA_SM_EVT_SET_PARAMS_RESTART \<Rightarrow> {st, QCAMERA_SM_STATE_PREVIEW_STOPPED}
       | QCAMERA_SM_EVT_STOP_PREVIEW \<Rightarrow> {QCAMERA_SM_STATE_PREVIEW_STOPPED}
       | QCAMERA_SM_EVT_START_RECORDING \<Rightarrow> {st, QCAMERA_SM_STATE_RECORDING}
       | QCAMERA_SM_EVT_PREPARE_SNAPSHOT \<Rightarrow> {st, QCAMERA_SM_STATE_PREPARE_SNAPSHOT}
       | QCAMERA_SM_EVT_TAKE_PICTURE \<Rightarrow>
           {st, QCAMERA_SM_STATE_PREVIEW_STOPPED, QCAMERA_SM_STATE_PIC_TAKING,
            QCAMERA_SM_STATE_PREVIEW_PIC_TAKING}
       | _ \<Rightarrow> {st})
   | QCAMERA_SM_STATE_PREPARE_SNAPSHOT \<Rightarrow> (case evt of
         QCAMERA_SM_EVT_EVT_INTERNAL \<Rightarrow> {st, QCAMERA_SM_STATE_PREVIEWING}
       | _ \<Rightarrow> {st})
   | QCAMERA_SM_STATE_PIC_TAKING \<Rightarrow> (case evt of
         QCAMERA_SM_EVT_STOP_PREVIEW \<Rightarrow> {QCAMERA_SM_STATE_PREVIEW_STOPPED}
       | QCAMERA_SM_EVT_CANCEL_PICTURE \<Rightarrow> {QCAMERA_SM_STATE_PREVIEW_STOPPED}
       | QCAMERA_SM_EVT_SEND_COMMAND \<Rightarrow> {st, QCAMERA_SM_STATE_PREVIEWING}
       | QCAMERA_SM_EVT_SNAPSHOT_DONE \<Rightarrow>
           {QCAMERA_SM_STATE_PREVIEW_STOPPED, QCAMERA_SM_STATE_PREVIEWING}
       | _ \<Rightarrow> {st})
   | QCAMERA_SM_STATE_RECORDING \<Rightarrow> (case evt of
         QCAMERA_SM_EVT_TAKE_PICTURE \<Rightarrow> {st, QCAMERA_SM_STATE_VIDEO_PIC_TAKING}
       | QCAMERA_SM_EVT_STOP_RECORDING \<Rightarrow> {QCAMERA_SM_STATE_PREVIEWING}
       | QCAMERA_SM_EVT_STOP_PREVIEW \<Rightarrow> {QCAMERA_SM_STATE_PREVIEW_STOPPED}
       | _ \<Rightarrow> {st})
   | QCAMERA_SM_STATE_VIDEO_PIC_TAKING \<Rightarrow> (case evt of
         QCAMERA_SM_EVT_STOP_RECORDING \<Rightarrow> {QCAMERA_SM_STATE_PREVIEWING}
       | QCAMERA_SM_EVT_CANCEL_PICTURE \<Rightarrow> {QCAMERA_SM_STATE_RECORDING}
       | QCAMERA_SM_EVT_STOP_PREVIEW \<Rightarrow> {QCAMERA_SM_STATE_PREVIEW_STOPPED}
       | QCAMERA_SM_EVT_SNAPSHOT_DONE \<Rightarrow> {QCAMERA_SM_STATE_RECORDING}
       | _ \<Rightarrow> {st})
   | QCAMERA_SM_STATE_PREVIEW_PIC_TAKING \<Rightarrow> (case evt of
         QCAMERA_SM_EVT_SET_PARAMS_RESTART \<Rightarrow> {st, QCAMERA_SM_STATE_PIC_TAKING}
       | QCAMERA_SM_EVT_SEND_COMMAND \<Rightarrow> {st, QCAMERA_SM_STATE_PREVIEWING}
       | QCAMERA_SM_EVT_CANCEL_PICTURE \<Rightarrow> {QCAMERA_SM_STATE_PREVIEWING}
       | QCAMERA_SM_EVT_STOP_PREVIEW \<Rightarrow> {QCAMERA_SM_STATE_PREVIEW_STOPPED}
       | QCAMERA_SM_EVT_START_RECORDING \<Rightarrow> {st, QCAMERA_SM_STATE_VIDEO_PIC_TAKING}
       | QCAMERA_SM_EVT_SNAPSHOT_DONE \<Rightarrow> {QCAMERA_SM_STATE_PREVIEWING}
       | _ \<Rightarrow> {st}))"

section \<open>Specification: replies, calls, recording, delayed messages\<close>

text \<open>
  The events an API call posts and then waits for (\<open>processAPI\<close> followed by
  \<open>waitAPIResult\<close> in \<open>QCamera2HWI.cpp\<close>).
\<close>

definition waits_for_reply :: "sm_evt \<Rightarrow> bool" where
  "waits_for_reply evt \<longleftrightarrow> evt \<notin>
    {QCAMERA_SM_EVT_EVT_INTERNAL, QCAMERA_SM_EVT_EVT_NOTIFY, QCAMERA_SM_EVT_JPEG_EVT_NOTIFY,
     QCAMERA_SM_EVT_SNAPSHOT_DONE, QCAMERA_SM_EVT_THERMAL_NOTIFY,
     QCAMERA_SM_EVT_STOP_CAPTURE_CHANNEL, QCAMERA_SM_EVT_RESTART_PERVIEW,
     QCAMERA_SM_EVT_DELAYED_RESTART, QCAMERA_SM_EVT_MAX}"

text \<open>
  Such an event gets no reply in these states: the handler frees a recording frame without
  signalling, or has no case for the event at all.
\<close>

definition no_reply_case :: "sm_state \<Rightarrow> sm_evt \<Rightarrow> bool" where
  "no_reply_case st evt = (case evt of
     QCAMERA_SM_EVT_RELEASE_RECORIDNG_FRAME \<Rightarrow>
       st \<in> {QCAMERA_SM_STATE_PREVIEW_STOPPED, QCAMERA_SM_STATE_PREVIEW_READY,
             QCAMERA_SM_STATE_PREVIEWING}
   | QCAMERA_SM_EVT_SEND_COMMAND_RESTART \<Rightarrow> st \<noteq> QCAMERA_SM_STATE_PREVIEWING
   | QCAMERA_SM_EVT_REG_FACE_IMAGE \<Rightarrow> st = QCAMERA_SM_STATE_PREPARE_SNAPSHOT
   | _ \<Rightarrow> False)"

text \<open>The calls whose reply may come later, from an internal event.\<close>

definition deferrable :: "sm_state \<Rightarrow> sm_evt \<Rightarrow> bool" where
  "deferrable st evt \<longleftrightarrow>
     st = QCAMERA_SM_STATE_PREVIEWING \<and>
       (evt = QCAMERA_SM_EVT_PREPARE_SNAPSHOT \<or> evt = QCAMERA_SM_EVT_TAKE_PICTURE)
   \<or> st = QCAMERA_SM_STATE_PREVIEW_PIC_TAKING \<and> evt = QCAMERA_SM_EVT_PREPARE_SNAPSHOT"

text \<open>Exactly one more API result: for this event, with this status.\<close>

definition answered :: "sm \<Rightarrow> sm_evt \<Rightarrow> status_t \<Rightarrow> sm \<Rightarrow> bool" where
  "answered s evt rc t \<longleftrightarrow> (\<exists>k v. api_results (hwi_log t) =
     \<lparr>status = rc, request_api = evt, result_kind = k, result_value = v\<rparr>
       # api_results (hwi_log s))"

definition unanswered :: "sm \<Rightarrow> sm \<Rightarrow> bool" where
  "unanswered s t \<longleftrightarrow> api_results (hwi_log t) = api_results (hwi_log s)"

text \<open>Which camera operations a state may ask the HWI for; the others are unrestricted.\<close>

definition op_allowed :: "sm_state \<Rightarrow> hwi_op \<Rightarrow> bool" where
  "op_allowed st op = (case op of
     StartRecording \<Rightarrow> st \<in> {QCAMERA_SM_STATE_PREVIEWING, QCAMERA_SM_STATE_PREVIEW_PIC_TAKING}
   | PreStartRecording \<Rightarrow> st \<in> {QCAMERA_SM_STATE_PREVIEWING, QCAMERA_SM_STATE_PREVIEW_PIC_TAKING}
   | StopRecording \<Rightarrow> st \<in> {QCAMERA_SM_STATE_RECORDING, QCAMERA_SM_STATE_VIDEO_PIC_TAKING}
   | TakeLiveSnapshot \<Rightarrow> st = QCAMERA_SM_STATE_RECORDING
   | CancelLiveSnapshot \<Rightarrow>
       st \<in> {QCAMERA_SM_STATE_VIDEO_PIC_TAKING, QCAMERA_SM_STATE_PREVIEW_PIC_TAKING}
   | PreTakePicture \<Rightarrow> st = QCAMERA_SM_STATE_PREVIEWING
   | TakePicture \<Rightarrow> st = QCAMERA_SM_STATE_PREVIEWING
   | LongShot \<Rightarrow> st \<in> {QCAMERA_SM_STATE_PIC_TAKING, QCAMERA_SM_STATE_PREVIEW_PIC_TAKING}
   | CancelPicture \<Rightarrow> st \<in> {QCAMERA_SM_STATE_PIC_TAKING, QCAMERA_SM_STATE_PREVIEW_PIC_TAKING}
   | PrepareHardwareForSnapshot b \<Rightarrow>
       st \<in> {QCAMERA_SM_STATE_PREVIEWING, QCAMERA_SM_STATE_PREVIEW_PIC_TAKING}
   | SetPreviewWindow w \<Rightarrow> st \<in> {QCAMERA_SM_STATE_PREVIEW_STOPPED, QCAMERA_SM_STATE_PREVIEW_READY}
   | StartPreview \<Rightarrow> st \<notin> {QCAMERA_SM_STATE_PREPARE_SNAPSHOT, QCAMERA_SM_STATE_RECORDING,
                           QCAMERA_SM_STATE_VIDEO_PIC_TAKING}
   | PreparePreview \<Rightarrow> st \<notin> {QCAMERA_SM_STATE_PREPARE_SNAPSHOT, QCAMERA_SM_STATE_RECORDING,
                             QCAMERA_SM_STATE_VIDEO_PIC_TAKING}
   | StopPreview \<Rightarrow> st \<in> {QCAMERA_SM_STATE_PREVIEWING, QCAMERA_SM_STATE_RECORDING,
                         QCAMERA_SM_STATE_VIDEO_PIC_TAKING, QCAMERA_SM_STATE_PREVIEW_PIC_TAKING}
   | StopCaptureChannel b \<Rightarrow> st = QCAMERA_SM_STATE_PIC_TAKING
   | Release \<Rightarrow> st = QCAMERA_SM_STATE_PREVIEW_STOPPED
   | _ \<Rightarrow> True)"

text \<open>
  What the handling of \<open>evt\<close> in the state \<open>st\<close> may log: such calls; an API result
  for \<open>evt\<close> itself, or, from an event no caller waits for and in the states where a caller
  may still be waiting, for PREPARE_SNAPSHOT or TAKE_PICTURE; an event result for
  SNAPSHOT_DONE.
\<close>

definition result_allowed :: "sm_state \<Rightarrow> sm_evt \<Rightarrow> api_result \<Rightarrow> bool" where
  "result_allowed st evt r \<longleftrightarrow> request_api r = evt
   \<or> \<not> waits_for_reply evt
     \<and> request_api r \<in> {QCAMERA_SM_EVT_PREPARE_SNAPSHOT, QCAMERA_SM_EVT_TAKE_PICTURE}
     \<and> st \<in> {QCAMERA_SM_STATE_PREPARE_SNAPSHOT, QCAMERA_SM_STATE_PIC_TAKING,
             QCAMERA_SM_STATE_PREVIEW_PIC_TAKING}"

fun event_allowed :: "sm_state \<Rightarrow> sm_evt \<Rightarrow> hwi_event \<Rightarrow> bool" where
  "event_allowed st evt (HwiCall op a) = op_allowed st op"
| "event_allowed st evt (ApiResult r) = result_allowed st evt r"
| "event_allowed st evt (EvtResult r) =
    (evt = QCAMERA_SM_EVT_SNAPSHOT_DONE \<and> request_api r = evt)"

text \<open>
  The discipline of recording, over the whole log: recording is started only when it is
  off, stopped only when it is on, and a live snapshot is taken only while it is on.
\<close>

fun recording_disciplined :: "hwi_event list \<Rightarrow> bool" where
  "recording_disciplined [] = True"
| "recording_disciplined (HwiCall op a # es) =
    (recording_disciplined es
     \<and> (op = StartRecording \<longrightarrow> \<not> recording_on es)
     \<and> (op = StopRecording \<longrightarrow> recording_on es)
     \<and> (op = TakeLiveSnapshot \<longrightarrow> recording_on es))"
| "recording_disciplined (ApiResult r # es) = recording_disciplined es"
| "recording_disciplined (EvtResult r # es) = recording_disciplined es"

definition recording_inv :: "sm \<Rightarrow> bool" where
  "recording_inv s \<longleftrightarrow>
    recording_on (hwi_log s) = isRecording s \<and> recording_disciplined (hwi_log s)"

text \<open>
  Messages are held back only under the delay flag, and only the preview-frame message is.
\<close>

definition delayed_msgs_inv :: "sm \<Rightarrow> bool" where
  "delayed_msgs_inv s \<longleftrightarrow>
    m_DelayedMsgs s AND NOT (CAMERA_MSG_PREVIEW_FRAME (m_parent s)) = 0
    \<and> (m_DelayedMsgs s \<noteq> 0 \<longrightarrow> m_bDelayPreviewMsgs s)"

text \<open>A reply put off: nothing is signalled yet, and the state remembers the capture.\<close>

definition deferred :: "sm \<Rightarrow> sm_evt \<Rightarrow> status_t \<Rightarrow> sm \<Rightarrow> bool" where
  "deferred s evt rc t \<longleftrightarrow> unanswered s t \<and> rc = NO_ERROR \<and>
    m_state t \<in> (if evt = QCAMERA_SM_EVT_TAKE_PICTURE
                  then {QCAMERA_SM_STATE_PIC_TAKING, QCAMERA_SM_STATE_PREVIEW_PIC_TAKING}
                  else {QCAMERA_SM_STATE_PREPARE_SNAPSHOT, QCAMERA_SM_STATE_PREVIEW_PIC_TAKING})"

definition replies_ok :: "sm \<Rightarrow> sm_evt \<Rightarrow> status_t \<Rightarrow> sm \<Rightarrow> bool" where
  "replies_ok s evt rc t \<longleftrightarrow>
    (waits_for_reply evt \<longrightarrow>
       (if no_reply_case (m_state s) evt then unanswered s t
        else answered s evt rc t \<or> deferrable (m_state s) evt \<and> deferred s evt rc t))"

text \<open>The edges of the state graph that start something.\<close>

definition starting :: "sm_state \<Rightarrow> sm_state \<Rightarrow> bool" where
  "starting st st' \<longleftrightarrow> st \<noteq> st' \<and> (case st of
     QCAMERA_SM_STATE_PREVIEW_STOPPED \<Rightarrow> True
   | QCAMERA_SM_STATE_PREVIEW_READY \<Rightarrow> st' = QCAMERA_SM_STATE_PREVIEWING
   | QCAMERA_SM_STATE_PREVIEWING \<Rightarrow> st' \<noteq> QCAMERA_SM_STATE_PREVIEW_STOPPED
   | QCAMERA_SM_STATE_RECORDING \<Rightarrow> st' = QCAMERA_SM_STATE_VIDEO_PIC_TAKING
   | QCAMERA_SM_STATE_PREVIEW_PIC_TAKING \<Rightarrow> st' = QCAMERA_SM_STATE_VIDEO_PIC_TAKING
   | _ \<Rightarrow> False)"

text \<open>The handling of one event adds these entries to the log.\<close>

definition log_extends :: "(hwi_event \<Rightarrow> bool) \<Rightarrow> hwi_event list \<Rightarrow> hwi_event list \<Rightarrow> bool" where
  "log_extends P l l' \<longleftrightarrow> (\<exists>es. l' = es @ l \<and> list_all P es)"

text \<open>The contract of a handler: what it may do from \<open>s\<close> on \<open>evt\<close>.\<close>

definition step_contract :: "sm \<Rightarrow> sm_evt \<Rightarrow> status_t \<Rightarrow> sm \<Rightarrow> bool" where
  "step_contract s evt rc t \<longleftrightarrow>
    m_state t \<in> sm_succ (m_state s) evt
    \<and> m_parent t = m_parent s
    \<and> m_bPreviewCallbackNeeded t = m_bPreviewCallbackNeeded s
    \<and> log_extends (event_allowed (m_state s) evt) (hwi_log s) (hwi_log t)
    \<and> (recording_inv s \<longrightarrow> recording_inv t)
    \<and> (delayed_msgs_inv s \<longrightarrow> delayed_msgs_inv t)
    \<and> (starting (m_state s) (m_state t) \<longrightarrow> rc = NO_ERROR)
    \<and> replies_ok s evt rc t"

end
