(* ===== verification/CamInvariants.thy ===== *)
theory CamInvariants
  imports CamStateMachine
begin

text \<open>
  Every handler keeps the contract \<open>step_contract\<close>. The contract is stated as the locale
  \<open>state_handler\<close>, interpreted on the eight handlers of the code; the facts that follow
  for \<open>stateMachine\<close> and for every reachable state are proved from it.
\<close>

section \<open>Logs\<close>

lemma log_extends_refl [simp]: "log_extends P l l"
  by (auto simp: log_extends_def)

lemma log_extends_Cons [simp]: "P e \<Longrightarrow> log_extends P l l' \<Longrightarrow> log_extends P l (e # l')"
  unfolding log_extends_def by (metis append_Cons list.pred_inject(2))

lemma delayed_msgs_clear [simp]:
  fixes d p f :: int32
  shows "d AND NOT f = 0 \<Longrightarrow> (d AND NOT p) AND NOT f = 0"
  by (metis and.assoc and.commute and_zero_eq)

lemmas step_contract_simps = sm_prog_defs def_result_def wp_simps step_contract_def
  sm_succ_def op_allowed_def result_allowed_def recording_inv_def isRecording_def
  delayed_msgs_inv_def replies_ok_def waits_for_reply_def no_reply_case_def deferrable_def
  answered_def unanswered_def deferred_def starting_def

section \<open>TAKE_PICTURE while previewing\<close>

text \<open>
  The first part of \<open>take_picture\<close> only makes plain calls: they concern neither replies
  nor recording, and the state machine's own fields do not change.
\<close>

fun plain :: "hwi_event \<Rightarrow> bool" where
  "plain (HwiCall op a) = (case op of
     StopPreview \<Rightarrow> True | PreparePreview \<Rightarrow> True | StartPreview \<Rightarrow> True
   | UnpreparePreview \<Rightarrow> True | Query q \<Rightarrow> True | Param q \<Rightarrow> True | _ \<Rightarrow> False)"
| "plain (ApiResult r) = False"
| "plain (EvtResult r) = False"

lemma plain_cases:
  assumes "plain e"
  obtains op a where "e = HwiCall op a"
    and "op \<in> {StopPreview, PreparePreview, StartPreview, UnpreparePreview}
               \<union> range Query \<union> range Param"
  using assms by (cases e) (auto split: hwi_op.splits)

lemma plain_append [simp]:
  assumes "list_all plain es"
  shows "api_results (es @ l) = api_results l"
    and "recording_on (es @ l) = recording_on l"
    and "recording_disciplined (es @ l) = recording_disciplined l"
    and "log_extends (event_allowed QCAMERA_SM_STATE_PREVIEWING evt) l (es @ l)"
  using assms by (induction es) (auto elim!: plain_cases simp: op_allowed_def)

lemma take_picture_prefix:
  "wp take_picture_leave_recording_hint (\<lambda>_. wp zsl_or_longshot
     (\<lambda>b t. \<exists>es. t = s\<lparr>hwi_log := es @ hwi_log s\<rparr> \<and> list_all plain es)) s"
proof -
  have "wp take_picture_leave_recording_hint (\<lambda>_. wp zsl_or_longshot
     (\<lambda>b t. t = s\<lparr>hwi_log := hwi_log t\<rparr> \<and> log_extends plain (hwi_log s) (hwi_log t))) s"
    by (simp add: take_picture_defs sm_prog_defs wp_simps)
  then show ?thesis
    by (elim wp_mono) (metis log_extends_def)
qed

lemma wp_take_picture:
  assumes "\<And>es. list_all plain es \<Longrightarrow>
      wp (take_picture_zsl evt) Q (s\<lparr>hwi_log := es @ hwi_log s\<rparr>)"
    and "\<And>es. list_all plain es \<Longrightarrow>
      wp (take_picture_regular evt) Q (s\<lparr>hwi_log := es @ hwi_log s\<rparr>)"
  shows "wp (take_picture evt) Q s"
  unfolding take_picture_def wp_bind wp_if
  by (rule wp_mono [OF take_picture_prefix], erule wp_mono) (auto intro: assms)

section \<open>The handlers keep the contract\<close>

locale state_handler =
  fixes st :: sm_state and handle :: "sm_evt \<Rightarrow> payload \<Rightarrow> status_t smprog"
  assumes handle_contract: "m_state s = st \<Longrightarrow> wp (handle evt p) (step_contract s evt) s"
begin

lemma run_contract:
  "m_state s = st \<Longrightarrow> run_state (handle evt p) s = (rc, t) \<Longrightarrow> step_contract s evt rc t"
  using handle_contract [of s evt p] by (simp add: wp_run)

end

lemma stopped_contract:
  "m_state s = QCAMERA_SM_STATE_PREVIEW_STOPPED \<Longrightarrow>
    wp (procEvtPreviewStoppedState evt p) (step_contract s evt) s"
  by (cases evt; simp add: procEvtPreviewStoppedState_defs step_contract_simps
    split: cam_event_type.split internal_evt_type.split)

lemma ready_contract:
  "m_state s = QCAMERA_SM_STATE_PREVIEW_READY \<Longrightarrow>
    wp (procEvtPreviewReadyState evt p) (step_contract s evt) s"
  by (cases evt; simp add: procEvtPreviewReadyState_defs step_contract_simps
    split: cam_event_type.split internal_evt_type.split)

lemma previewing_contract:
  "m_state s = QCAMERA_SM_STATE_PREVIEWING \<Longrightarrow>
    wp (procEvtPreviewingState evt p) (step_contract s evt) s"
proof (cases "evt = QCAMERA_SM_EVT_TAKE_PICTURE")
  case True
  moreover assume "m_state s = QCAMERA_SM_STATE_PREVIEWING"
  ultimately show ?thesis
    apply (simp add: procEvtPreviewingState_defs)
    by (rule wp_take_picture; simp add: take_picture_defs step_contract_simps)
next
  case False
  moreover assume "m_state s = QCAMERA_SM_STATE_PREVIEWING"
  ultimately show ?thesis
    by (cases evt; simp add: procEvtPreviewingState_defs step_contract_simps
      split: cam_event_type.split internal_evt_type.split)
qed

lemma prepare_snapshot_contract:
  "m_state s = QCAMERA_SM_STATE_PREPARE_SNAPSHOT \<Longrightarrow>
    wp (procEvtPrepareSnapshotState evt p) (step_contract s evt) s"
  by (cases evt; simp add: procEvtPrepareSnapshotState_defs step_contract_simps
    split: cam_event_type.split internal_evt_type.split)

lemma pic_taking_contract:
  "m_state s = QCAMERA_SM_STATE_PIC_TAKING \<Longrightarrow>
    wp (procEvtPicTakingState evt p) (step_contract s evt) s"
  by (cases evt; simp add: procEvtPicTakingState_defs step_contract_simps
    split: cam_event_type.split internal_evt_type.split)

lemma recording_contract:
  "m_state s = QCAMERA_SM_STATE_RECORDING \<Longrightarrow>
    wp (procEvtRecordingState evt p) (step_contract s evt) s"
  by (cases evt; simp add: procEvtRecordingState_defs step_contract_simps
    split: cam_event_type.split internal_evt_type.split)

lemma video_pic_contract:
  "m_state s = QCAMERA_SM_STATE_VIDEO_PIC_TAKING \<Longrightarrow>
    wp (procEvtVideoPicTakingState evt p) (step_contract s evt) s"
  by (cases evt; simp add: procEvtVideoPicTakingState_defs step_contract_simps
    split: cam_event_type.split internal_evt_type.split)

lemma preview_pic_contract:
  "m_state s = QCAMERA_SM_STATE_PREVIEW_PIC_TAKING \<Longrightarrow>
    wp (procEvtPreviewPicTakingState evt p) (step_contract s evt) s"
  by (cases evt; simp add: procEvtPreviewPicTakingState_defs step_contract_simps
    split: cam_event_type.split internal_evt_type.split)

interpretation stopped: state_handler QCAMERA_SM_STATE_PREVIEW_STOPPED procEvtPreviewStoppedState
  by unfold_locales (rule stopped_contract)

interpretation ready: state_handler QCAMERA_SM_STATE_PREVIEW_READY procEvtPreviewReadyState
  by unfold_locales (rule ready_contract)

interpretation previewing: state_handler QCAMERA_SM_STATE_PREVIEWING procEvtPreviewingState
  by unfold_locales (rule previewing_contract)

interpretation prepare_snapshot: state_handler QCAMERA_SM_STATE_PREPARE_SNAPSHOT procEvtPrepareSnapshotState
  by unfold_locales (rule prepare_snapshot_contract)

interpretation pic_taking: state_handler QCAMERA_SM_STATE_PIC_TAKING procEvtPicTakingState
  by unfold_locales (rule pic_taking_contract)

interpretation recording: state_handler QCAMERA_SM_STATE_RECORDING procEvtRecordingState
  by unfold_locales (rule recording_contract)

interpretation video_pic: state_handler QCAMERA_SM_STATE_VIDEO_PIC_TAKING procEvtVideoPicTakingState
  by unfold_locales (rule video_pic_contract)

interpretation preview_pic: state_handler QCAMERA_SM_STATE_PREVIEW_PIC_TAKING procEvtPreviewPicTakingState
  by unfold_locales (rule preview_pic_contract)

lemma stateMachine_run:
  assumes "run_state (stateMachine evt p) s = (rc, t)"
  shows "step_contract s evt rc t"
  using assms unfolding stateMachine_def
  by (cases "m_state s")
    (simp_all add: stopped.run_contract ready.run_contract previewing.run_contract
      prepare_snapshot.run_contract pic_taking.run_contract recording.run_contract
      video_pic.run_contract preview_pic.run_contract)

section \<open>Reachable states\<close>

text \<open>
  The states of an object driven by \<open>ctrl\<close>: built by the constructor, changed by the
  handling of events and by \<open>setPreviewCallbackNeeded\<close>.
\<close>

inductive sm_reachable :: "hwi \<Rightarrow> sm \<Rightarrow> bool" for ctrl :: hwi where
  sm_init: "sm_reachable ctrl (QCameraStateMachine ctrl needs delayed)"
| sm_event: "sm_reachable ctrl s \<Longrightarrow> run_state (stateMachine evt p) s = (rc, t) \<Longrightarrow>
    sm_reachable ctrl t"
| sm_callback: "sm_reachable ctrl s \<Longrightarrow> sm_reachable ctrl (setPreviewCallbackNeeded b s)"

lemma reachable_invariants:
  "sm_reachable ctrl s \<Longrightarrow> m_parent s = ctrl \<and> recording_inv s \<and> delayed_msgs_inv s"
proof (induction rule: sm_reachable.induct)
  case (sm_init needs delayed)
  show ?case
    by (simp add: QCameraStateMachine_def recording_inv_def isRecording_def
        delayed_msgs_inv_def)
next
  case (sm_event s evt p rc t)
  then show ?case
    using stateMachine_run [of evt p s rc t] by (simp add: step_contract_def)
next
  case (sm_callback s b)
  then show ?case
    by (auto simp: setPreviewCallbackNeeded_def recording_inv_def isRecording_def
        delayed_msgs_inv_def)
qed

lemma reachable_step:
  assumes "sm_reachable ctrl s"
  shows "sm_reachable ctrl (snd (run_state (stateMachine evt p) s))"
  using assms by (metis sm_event prod.collapse)

text \<open>Handling a sequence of events, in order.\<close>

fun run_events :: "(sm_evt \<times> payload) list \<Rightarrow> sm \<Rightarrow> sm" where
  "run_events [] s = s"
| "run_events ((evt, p) # es) s = run_events es (snd (run_state (stateMachine evt p) s))"

lemma run_events_reachable:
  "sm_reachable ctrl s \<Longrightarrow> sm_reachable ctrl (run_events es s)"
  by (induction es s rule: run_events.induct) (auto intro: reachable_step)

section \<open>Scripted hardware\<close>

text \<open>
  Concrete interfaces and payloads, on which the witnesses run the handlers: every call is
  answered by a fixed function of the operation. Preview frames have message bit 16.
\<close>

definition scripted :: "(hwi_op \<Rightarrow> hwi_answer) \<Rightarrow> hwi" where
  "scripted f =
    \<lparr>answer = \<lambda>log op. f op, CAMERA_MSG_PREVIEW_FRAME = 16, VANILLA_HAL = False\<rparr>"

definition answers :: "status_t \<Rightarrow> bool \<Rightarrow> addr \<Rightarrow> hwi_answer" where
  "answers rc b w = \<lparr>ret = rc, flag = b, ptr = w, out = 0\<rparr>"

definition obj_in :: "sm_state \<Rightarrow> (hwi_op \<Rightarrow> hwi_answer) \<Rightarrow> sm" where
  "obj_in st f = (QCameraStateMachine (scripted f) False False)\<lparr>m_state := st\<rparr>"

definition a_payload :: "internal_evt_type \<Rightarrow> camera_cmd \<Rightarrow> int32 \<Rightarrow> payload" where
  "a_payload e c n = \<lparr>pl_addr = 0, pl_int32 = n,
    pl_setcb = \<lparr>notify_cb = 0, data_cb = 0, data_cb_timestamp = 0, get_memory = 0, cb_user = 0\<rparr>,
    pl_command = \<lparr>cmd = c, arg1 = 0, arg2 = 0\<rparr>, pl_reg_face = \<lparr>img_ptr = 0, config = 0\<rparr>,
    pl_internal = \<lparr>evt_type = e, evt_data = 0\<rparr>, pl_server_event_type = CAM_EVENT_TYPE_MAX\<rparr>"

definition prep_done :: payload where
  "prep_done = a_payload QCAMERA_INTERNAL_EVT_PREP_SNAPSHOT_DONE CAMERA_CMD_LONGSHOT_OFF 0"

definition plain_payload :: payload where
  "plain_payload = a_payload QCAMERA_INTERNAL_EVT_MAX CAMERA_CMD_LONGSHOT_ON 16"

text \<open>All calls succeed; no query holds.\<close>

definition ok_hwi :: "hwi_op \<Rightarrow> hwi_answer" where
  "ok_hwi op = answers NO_ERROR False 1"

lemmas scripted_simps = scripted_def answers_def obj_in_def a_payload_def prep_done_def
  plain_payload_def ok_hwi_def hwi_answer_of_def QCameraStateMachine_def stateMachine_def
  sm_prog_defs def_result_def wp_simps CAM_MANUAL_CAPTURE_TYPE_3_def

lemmas run_simps = scripted_simps State_Monad.update_def

text \<open>The interfaces that together lead along every edge of the state graph.\<close>

definition probe_hwis :: "(hwi_op \<Rightarrow> hwi_answer) list" where
  "probe_hwis =
    [\<lambda>op. answers NO_ERROR False 0, \<lambda>op. answers NO_ERROR False 1, \<lambda>op. answers NO_ERROR True 1,
     \<lambda>op. answers UNKNOWN_ERROR False 0, \<lambda>op. answers UNKNOWN_ERROR True 1,
     \<lambda>op. answers (if op = StartPreview then UNKNOWN_ERROR else NO_ERROR) False 1,
     \<lambda>op. answers (if op = TakePicture then UNKNOWN_ERROR else NO_ERROR) False 1]"

definition edge_probed :: "sm_evt \<Rightarrow> sm_state \<Rightarrow> sm_state \<Rightarrow> bool" where
  "edge_probed evt st st' \<longleftrightarrow> list_ex (\<lambda>f.
       wp (stateMachine evt prep_done) (\<lambda>rc t. m_state t = st') (obj_in st f)
     \<or> wp (stateMachine evt plain_payload) (\<lambda>rc t. m_state t = st') (obj_in st f)) probe_hwis"

lemmas probe_simps = edge_probed_def probe_hwis_def scripted_simps sm_succ_def

lemma stopped_edges:
  "st' \<in> sm_succ QCAMERA_SM_STATE_PREVIEW_STOPPED evt \<Longrightarrow>
    edge_probed evt QCAMERA_SM_STATE_PREVIEW_STOPPED st'"
  by (cases evt; (simp add: procEvtPreviewStoppedState_defs probe_simps)?; (elim disjE)?; simp?)

lemma ready_edges:
  "st' \<in> sm_succ QCAMERA_SM_STATE_PREVIEW_READY evt \<Longrightarrow>
    edge_probed evt QCAMERA_SM_STATE_PREVIEW_READY st'"
  by (cases evt; (simp add: procEvtPreviewReadyState_defs probe_simps)?; (elim disjE)?; simp?)

lemma previewing_edges:
  "st' \<in> sm_succ QCAMERA_SM_STATE_PREVIEWING evt \<Longrightarrow>
    edge_probed evt QCAMERA_SM_STATE_PREVIEWING st'"
  by (cases evt; (simp add: procEvtPreviewingState_defs probe_simps take_picture_def
    take_picture_leave_recording_hint_def take_picture_zsl_def take_picture_regular_def)?; (elim disjE)?; simp?)

lemma prepare_snapshot_edges:
  "st' \<in> sm_succ QCAMERA_SM_STATE_PREPARE_SNAPSHOT evt \<Longrightarrow>
    edge_probed evt QCAMERA_SM_STATE_PREPARE_SNAPSHOT st'"
  by (cases evt; (simp add: procEvtPrepareSnapshotState_defs probe_simps)?; (elim disjE)?; simp?)

lemma pic_taking_edges:
  "st' \<in> sm_succ QCAMERA_SM_STATE_PIC_TAKING evt \<Longrightarrow>
    edge_probed evt QCAMERA_SM_STATE_PIC_TAKING st'"
  by (cases evt; (simp add: procEvtPicTakingState_defs probe_simps)?; (elim disjE)?; simp?)

lemma recording_edges:
  "st' \<in> sm_succ QCAMERA_SM_STATE_RECORDING evt \<Longrightarrow>
    edge_probed evt QCAMERA_SM_STATE_RECORDING st'"
  by (cases evt; (simp add: procEvtRecordingState_defs probe_simps)?; (elim disjE)?; simp?)

lemma video_pic_edges:
  "st' \<in> sm_succ QCAMERA_SM_STATE_VIDEO_PIC_TAKING evt \<Longrightarrow>
    edge_probed evt QCAMERA_SM_STATE_VIDEO_PIC_TAKING st'"
  by (cases evt; (simp add: procEvtVideoPicTakingState_defs probe_simps)?; (elim disjE)?; simp?)

lemma preview_pic_edges:
  "st' \<in> sm_succ QCAMERA_SM_STATE_PREVIEW_PIC_TAKING evt \<Longrightarrow>
    edge_probed evt QCAMERA_SM_STATE_PREVIEW_PIC_TAKING st'"
  by (cases evt; (simp add: procEvtPreviewPicTakingState_defs probe_simps)?; (elim disjE)?; simp?)

lemma every_edge_probed:
  assumes "st' \<in> sm_succ st evt"
  shows "edge_probed evt st st'"
  using assms by (cases st) (blast intro: stopped_edges ready_edges previewing_edges
    prepare_snapshot_edges pic_taking_edges recording_edges video_pic_edges preview_pic_edges)+

lemma edge_probed_run:
  assumes "edge_probed evt st st'"
  obtains f p where "m_state (snd (run_state (stateMachine evt p) (obj_in st f))) = st'"
  using assms unfolding edge_probed_def list_ex_iff wp_run by blast

end
