(* ===== verification/CamProperties.thy ===== *)
theory CamProperties
  imports CamInvariants
begin

text \<open>
  The properties of the camera state machine, each with a run on concrete hardware that
  satisfies its hypotheses.
\<close>

lemmas contract_parts = step_contract_def replies_ok_def

section \<open>Replies to API callers\<close>

text \<open>
  C12: an API call that is not deferred, and not one of the events the handlers forget,
  is answered exactly once, with the status the handler returns.
\<close>

theorem api_call_answered:
  assumes "run_state (stateMachine evt p) s = (rc, t)"
    and "waits_for_reply evt"
    and "\<not> no_reply_case (m_state s) evt"
    and "\<not> deferrable (m_state s) evt"
  shows "answered s evt rc t"
  using stateMachine_run [OF assms(1)] assms(2-4) by (simp add: contract_parts)

theorem api_call_answered_witness:
  "answered (obj_in QCAMERA_SM_STATE_RECORDING ok_hwi) QCAMERA_SM_EVT_TAKE_PICTURE NO_ERROR
     (snd (run_state (stateMachine QCAMERA_SM_EVT_TAKE_PICTURE plain_payload)
        (obj_in QCAMERA_SM_STATE_RECORDING ok_hwi)))"
  by (rule api_call_answered [where p = plain_payload])
    (simp_all add: procEvtRecordingState_defs run_simps waits_for_reply_def no_reply_case_def
      deferrable_def)

text \<open>
  The calls that may be deferred (\<open>prepare_snapshot\<close> and \<open>take_picture\<close>) are answered
  at once, or else succeed so far and leave the machine in a state that remembers them.
\<close>

theorem deferred_call:
  assumes "run_state (stateMachine evt p) s = (rc, t)"
    and "deferrable (m_state s) evt"
  shows "answered s evt rc t \<or>
    unanswered s t \<and> rc = NO_ERROR \<and>
    m_state t \<in> (if evt = QCAMERA_SM_EVT_TAKE_PICTURE
                  then {QCAMERA_SM_STATE_PIC_TAKING, QCAMERA_SM_STATE_PREVIEW_PIC_TAKING}
                  else {QCAMERA_SM_STATE_PREPARE_SNAPSHOT, QCAMERA_SM_STATE_PREVIEW_PIC_TAKING})"
proof -
  have "waits_for_reply evt" "\<not> no_reply_case (m_state s) evt"
    using assms(2)
    by (auto simp: deferrable_def waits_for_reply_def no_reply_case_def)
  then show ?thesis
    using stateMachine_run [OF assms(1)] by (auto simp: contract_parts deferred_def)
qed

theorem deferred_call_witness:
  "let s = obj_in QCAMERA_SM_STATE_PREVIEWING ok_hwi;
       t = snd (run_state (stateMachine QCAMERA_SM_EVT_PREPARE_SNAPSHOT plain_payload) s)
   in unanswered s t \<and> m_state t = QCAMERA_SM_STATE_PREPARE_SNAPSHOT"
  using deferred_call [where evt = QCAMERA_SM_EVT_PREPARE_SNAPSHOT and p = plain_payload
      and s = "obj_in QCAMERA_SM_STATE_PREVIEWING ok_hwi" and rc = NO_ERROR]
  by (simp add: procEvtPreviewingState_defs run_simps deferrable_def unanswered_def
      answered_def)

lemma stateMachine_run_prepare:
  "m_state s = QCAMERA_SM_STATE_PREPARE_SNAPSHOT \<Longrightarrow>
    run_state (stateMachine evt p) s = run_state (procEvtPrepareSnapshotState evt p) s"
  by (simp add: stateMachine_def)

text \<open>
  While a snapshot is being prepared, the state is left by the internal event
  PREP_SNAPSHOT_DONE only, which posts the one reply the caller of \<open>prepare_snapshot\<close>
  waits for and resumes the preview.
\<close>

theorem prepare_snapshot_released:
  assumes "m_state s = QCAMERA_SM_STATE_PREPARE_SNAPSHOT"
    and "run_state (stateMachine evt p) s = (rc, t)"
  shows "if evt = QCAMERA_SM_EVT_EVT_INTERNAL
            \<and> evt_type (pl_internal p) = QCAMERA_INTERNAL_EVT_PREP_SNAPSHOT_DONE
         then m_state t = QCAMERA_SM_STATE_PREVIEWING
              \<and> api_results (hwi_log t) =
                  def_result QCAMERA_SM_EVT_PREPARE_SNAPSHOT NO_ERROR # api_results (hwi_log s)
         else m_state t = QCAMERA_SM_STATE_PREPARE_SNAPSHOT"
proof -
  have "wp (procEvtPrepareSnapshotState evt p) (\<lambda>rc t.
     if evt = QCAMERA_SM_EVT_EVT_INTERNAL
        \<and> evt_type (pl_internal p) = QCAMERA_INTERNAL_EVT_PREP_SNAPSHOT_DONE
     then m_state t = QCAMERA_SM_STATE_PREVIEWING
          \<and> api_results (hwi_log t) =
              def_result QCAMERA_SM_EVT_PREPARE_SNAPSHOT NO_ERROR # api_results (hwi_log s)
     else m_state t = QCAMERA_SM_STATE_PREPARE_SNAPSHOT) s"
    using assms(1)
    by (cases evt; simp add: procEvtPrepareSnapshotState_defs sm_prog_defs wp_simps
        split: cam_event_type.split internal_evt_type.split)
  moreover have "run_state (procEvtPrepareSnapshotState evt p) s = (rc, t)"
    using assms by (simp only: stateMachine_run_prepare)
  ultimately show ?thesis
    by (rule wp_run_state)
qed

theorem prepare_snapshot_released_witness:
  "m_state (snd (run_state (stateMachine QCAMERA_SM_EVT_EVT_INTERNAL prep_done)
     (obj_in QCAMERA_SM_STATE_PREPARE_SNAPSHOT ok_hwi))) = QCAMERA_SM_STATE_PREVIEWING"
  using prepare_snapshot_released [where evt = QCAMERA_SM_EVT_EVT_INTERNAL and p = prep_done
      and s = "obj_in QCAMERA_SM_STATE_PREPARE_SNAPSHOT ok_hwi" and rc = NO_ERROR]
  by (simp add: procEvtPrepareSnapshotState_defs run_simps)

text \<open>
  While a snapshot is being prepared, every other API call is refused: it is answered
  INVALID_OPERATION, no method of the hardware interface is called and no field changes.
\<close>

theorem prepare_snapshot_refuses:
  assumes "m_state s = QCAMERA_SM_STATE_PREPARE_SNAPSHOT"
    and "waits_for_reply evt"
    and "\<not> no_reply_case QCAMERA_SM_STATE_PREPARE_SNAPSHOT evt"
  shows "run_state (stateMachine evt p) s =
    (INVALID_OPERATION,
     s\<lparr>hwi_log := ApiResult (def_result evt INVALID_OPERATION) # hwi_log s\<rparr>)"
  using assms
  by (cases evt; simp add: stateMachine_def procEvtPrepareSnapshotState_defs sm_prog_defs
      State_Monad.update_def waits_for_reply_def no_reply_case_def)

theorem prepare_snapshot_refuses_witness:
  "fst (run_state (stateMachine QCAMERA_SM_EVT_STOP_PREVIEW plain_payload)
     (obj_in QCAMERA_SM_STATE_PREPARE_SNAPSHOT ok_hwi)) = INVALID_OPERATION"
  using prepare_snapshot_refuses [where evt = QCAMERA_SM_EVT_STOP_PREVIEW and p = plain_payload
      and s = "obj_in QCAMERA_SM_STATE_PREPARE_SNAPSHOT ok_hwi"]
  by (simp add: obj_in_def waits_for_reply_def no_reply_case_def)

text \<open>
  a flaw of the handlers. RELEASE_RECORIDNG_FRAME with the preview stopped, ready or
  running, SEND_COMMAND_RESTART outside PREVIEWING, and REG_FACE_IMAGE while a snapshot is
  prepared signal no API result at all, although their callers wait for one.
\<close>

theorem forgotten_replies:
  assumes "run_state (stateMachine evt p) s = (rc, t)"
    and "no_reply_case (m_state s) evt"
  shows "waits_for_reply evt \<and> api_results (hwi_log t) = api_results (hwi_log s)"
proof -
  have "waits_for_reply evt"
    using assms(2) by (cases evt) (simp_all add: no_reply_case_def waits_for_reply_def)
  then show ?thesis
    using stateMachine_run [OF assms(1)] assms(2) by (simp add: contract_parts unanswered_def)
qed

theorem forgotten_replies_witness:
  "api_results (hwi_log (snd (run_state
     (stateMachine QCAMERA_SM_EVT_RELEASE_RECORIDNG_FRAME plain_payload)
     (obj_in QCAMERA_SM_STATE_PREVIEWING ok_hwi)))) = []"
  using forgotten_replies [where evt = QCAMERA_SM_EVT_RELEASE_RECORIDNG_FRAME
      and p = plain_payload and s = "obj_in QCAMERA_SM_STATE_PREVIEWING ok_hwi"
      and rc = NO_ERROR]
  by (simp add: procEvtPreviewingState_defs run_simps no_reply_case_def)

section \<open>The state graph\<close>

text \<open>
  C13: the state graph is exact: over all objects, payloads and behaviours of the hardware,
  an event leads from a state to the states \<open>sm_succ\<close> lists, to each of them and to no
  other.
\<close>

theorem state_graph_exact:
  "{m_state (snd (run_state (stateMachine evt p) s)) | s p. m_state s = st} = sm_succ st evt"
proof (intro equalityI subsetI)
  fix st'
  assume "st' \<in> {m_state (snd (run_state (stateMachine evt p) s)) | s p. m_state s = st}"
  then show "st' \<in> sm_succ st evt"
    using stateMachine_run by (auto simp: step_contract_def) (metis prod.collapse)
next
  fix st'
  assume "st' \<in> sm_succ st evt"
  then obtain f p where "m_state (snd (run_state (stateMachine evt p) (obj_in st f))) = st'"
    by (blast dest: every_edge_probed elim: edge_probed_run)
  moreover have "m_state (obj_in st f) = st"
    by (simp add: obj_in_def)
  ultimately show
    "st' \<in> {m_state (snd (run_state (stateMachine evt p) s)) | s p. m_state s = st}"
    by blast
qed

text \<open>
  The edges that start something (a preview, a recording, a capture) are taken only
  when the operation succeeded: the handler then returns NO_ERROR.
\<close>

theorem starts_only_on_success:
  assumes "run_state (stateMachine evt p) s = (rc, t)"
    and "starting (m_state s) (m_state t)"
  shows "rc = NO_ERROR"
  using stateMachine_run [OF assms(1)] assms(2) by (simp add: step_contract_def)

theorem starts_only_on_success_witness:
  "fst (run_state (stateMachine QCAMERA_SM_EVT_START_RECORDING plain_payload)
     (obj_in QCAMERA_SM_STATE_PREVIEWING ok_hwi)) = NO_ERROR"
  by (rule starts_only_on_success [where evt = QCAMERA_SM_EVT_START_RECORDING
      and p = plain_payload and s = "obj_in QCAMERA_SM_STATE_PREVIEWING ok_hwi"
      and t = "snd (run_state (stateMachine QCAMERA_SM_EVT_START_RECORDING plain_payload)
        (obj_in QCAMERA_SM_STATE_PREVIEWING ok_hwi))"])
    (simp_all add: procEvtPreviewingState_defs run_simps starting_def)

section \<open>Safety over whole runs\<close>

text \<open>
  C29: in every reachable state, recording is on (by the history of calls) exactly when the
  state is a recording state, and over the whole history \<open>startRecording\<close> was called only
  with recording off, \<open>stopRecording\<close> and \<open>takeLiveSnapshot\<close> only with recording on.
\<close>

theorem recording_discipline:
  assumes "sm_reachable ctrl s"
  shows "recording_on (hwi_log s) = isRecording s \<and> recording_disciplined (hwi_log s)"
  using reachable_invariants [OF assms] by (simp add: recording_inv_def)

theorem recording_discipline_witness:
  "let s = run_events [(QCAMERA_SM_EVT_START_NODISPLAY_PREVIEW, plain_payload),
      (QCAMERA_SM_EVT_START_RECORDING, plain_payload)]
      (QCameraStateMachine (scripted ok_hwi) False False)
   in isRecording s \<and> recording_on (hwi_log s)"
  using recording_discipline [OF run_events_reachable
      [OF sm_init [of "scripted ok_hwi" False False], where es = "[(QCAMERA_SM_EVT_START_NODISPLAY_PREVIEW, plain_payload),
        (QCAMERA_SM_EVT_START_RECORDING, plain_payload)]"]]
  by (simp add: procEvtPreviewStoppedState_defs procEvtPreviewingState_defs run_simps
      isRecording_def)

text \<open>
  In every reachable state the messages held back are at most the preview-frame
  message, and they are held back under the delay flag only.
\<close>

theorem only_preview_frames_held_back:
  assumes "sm_reachable ctrl s"
  shows "m_DelayedMsgs s AND NOT (CAMERA_MSG_PREVIEW_FRAME ctrl) = 0
    \<and> (m_DelayedMsgs s \<noteq> 0 \<longrightarrow> m_bDelayPreviewMsgs s)"
  using reachable_invariants [OF assms] by (auto simp: delayed_msgs_inv_def)

theorem only_preview_frames_held_back_witness:
  "let s = run_events [(QCAMERA_SM_EVT_START_NODISPLAY_PREVIEW, plain_payload),
      (QCAMERA_SM_EVT_ENABLE_MSG_TYPE, plain_payload)]
      (QCameraStateMachine (scripted ok_hwi) False False)
   in m_DelayedMsgs s AND NOT 16 = 0"
  using only_preview_frames_held_back [OF run_events_reachable
      [OF sm_init [of "scripted ok_hwi" False False], where es = "[(QCAMERA_SM_EVT_START_NODISPLAY_PREVIEW, plain_payload),
        (QCAMERA_SM_EVT_ENABLE_MSG_TYPE, plain_payload)]"]]
  by (simp add: scripted_def)

text \<open>
  The hardware is only asked for what the current state permits (a recording is
  stopped in the recording states, a live snapshot is taken while recording, the camera is
  released with the preview stopped, ...), and a handler signals results for its own event
  or for a deferred call only.
\<close>

theorem operations_permitted:
  assumes "run_state (stateMachine evt p) s = (rc, t)"
  shows "\<exists>es. hwi_log t = es @ hwi_log s \<and> list_all (event_allowed (m_state s) evt) es"
  using stateMachine_run [OF assms] by (simp add: step_contract_def log_extends_def)

theorem operations_permitted_witness:
  "\<exists>es. hwi_log (snd (run_state (stateMachine QCAMERA_SM_EVT_STOP_PREVIEW plain_payload)
        (obj_in QCAMERA_SM_STATE_RECORDING ok_hwi))) = es
    \<and> list_all (event_allowed QCAMERA_SM_STATE_RECORDING QCAMERA_SM_EVT_STOP_PREVIEW) es"
  using operations_permitted [OF prod.collapse [symmetric],
      where evt = QCAMERA_SM_EVT_STOP_PREVIEW and p = plain_payload
      and s = "obj_in QCAMERA_SM_STATE_RECORDING ok_hwi"]
  by (simp add: obj_in_def QCameraStateMachine_def)

text \<open>
  no message request is lost during a snapshot. While messages are held back, a
  request for the preview frames is passed to the hardware without them and remembered;
  when the preview is started again, they are requested and the holding back ends.
\<close>

theorem held_back_frames_requested:
  assumes "m_state s = QCAMERA_SM_STATE_PREVIEWING" and "m_bDelayPreviewMsgs s"
    and "pl_int32 p AND CAMERA_MSG_PREVIEW_FRAME (m_parent s) \<noteq> 0"
    and "run_state (stateMachine QCAMERA_SM_EVT_ENABLE_MSG_TYPE p) s = (rc, t)"
    and "run_state (stateMachine QCAMERA_SM_EVT_START_PREVIEW q) t = (rc', u)"
  shows "\<exists>a b. hwi_log t = ApiResult (def_result QCAMERA_SM_EVT_ENABLE_MSG_TYPE rc)
      # HwiCall (EnableMsgType (pl_int32 p AND NOT (CAMERA_MSG_PREVIEW_FRAME (m_parent s)))) a
      # hwi_log s
    \<and> hwi_log u = ApiResult (def_result QCAMERA_SM_EVT_START_PREVIEW NO_ERROR)
      # HwiCall (EnableMsgType (CAMERA_MSG_PREVIEW_FRAME (m_parent s))) b # hwi_log t
    \<and> m_DelayedMsgs u = 0 \<and> \<not> m_bDelayPreviewMsgs u"
proof -
  have "CAMERA_MSG_PREVIEW_FRAME (m_parent s) \<noteq> 0"
    using assms(3) by auto
  then show ?thesis
    using assms by (auto simp: procEvtPreviewingState_defs sm_prog_defs stateMachine_def
        State_Monad.update_def)
qed

theorem held_back_frames_requested_witness:
  "let s = (obj_in QCAMERA_SM_STATE_PREVIEWING ok_hwi)\<lparr>m_bDelayPreviewMsgs := True\<rparr>;
       t = snd (run_state (stateMachine QCAMERA_SM_EVT_ENABLE_MSG_TYPE plain_payload) s);
       u = snd (run_state (stateMachine QCAMERA_SM_EVT_START_PREVIEW plain_payload) t)
   in m_DelayedMsgs u = 0 \<and> \<not> m_bDelayPreviewMsgs u"
  using held_back_frames_requested [OF _ _ _ prod.collapse [symmetric] prod.collapse [symmetric],
      where s = "(obj_in QCAMERA_SM_STATE_PREVIEWING ok_hwi)\<lparr>m_bDelayPreviewMsgs := True\<rparr>"
      and p = plain_payload and q = plain_payload]
  by (simp add: Let_def)
    (simp add: obj_in_def QCameraStateMachine_def scripted_def plain_payload_def a_payload_def)

section \<open>Reachability and queries\<close>

definition reaching_script :: "sm_state \<Rightarrow> bool \<times> sm_evt list" where
  "reaching_script st = (case st of
     QCAMERA_SM_STATE_PREVIEW_STOPPED \<Rightarrow> (False, [])
   | QCAMERA_SM_STATE_PREVIEW_READY \<Rightarrow> (False, [QCAMERA_SM_EVT_PREPARE_PREVIEW])
   | QCAMERA_SM_STATE_PREVIEWING \<Rightarrow> (False, [QCAMERA_SM_EVT_START_NODISPLAY_PREVIEW])
   | QCAMERA_SM_STATE_PREPARE_SNAPSHOT \<Rightarrow>
       (False, [QCAMERA_SM_EVT_START_NODISPLAY_PREVIEW, QCAMERA_SM_EVT_PREPARE_SNAPSHOT])
   | QCAMERA_SM_STATE_PIC_TAKING \<Rightarrow>
       (False, [QCAMERA_SM_EVT_START_NODISPLAY_PREVIEW, QCAMERA_SM_EVT_TAKE_PICTURE])
   | QCAMERA_SM_STATE_RECORDING \<Rightarrow>
       (False, [QCAMERA_SM_EVT_START_NODISPLAY_PREVIEW, QCAMERA_SM_EVT_START_RECORDING])
   | QCAMERA_SM_STATE_VIDEO_PIC_TAKING \<Rightarrow>
       (False, [QCAMERA_SM_EVT_START_NODISPLAY_PREVIEW, QCAMERA_SM_EVT_START_RECORDING,
                QCAMERA_SM_EVT_TAKE_PICTURE])
   | QCAMERA_SM_STATE_PREVIEW_PIC_TAKING \<Rightarrow>
       (True, [QCAMERA_SM_EVT_START_NODISPLAY_PREVIEW, QCAMERA_SM_EVT_TAKE_PICTURE]))"

definition run_script :: "bool \<times> sm_evt list \<Rightarrow> sm" where
  "run_script = (\<lambda>(zsl, es). run_events (map (\<lambda>evt. (evt, plain_payload)) es)
     (QCameraStateMachine (scripted (\<lambda>op. answers NO_ERROR zsl 1)) False False))"

lemma run_script_reaches: "m_state (run_script (reaching_script st)) = st"
  by (cases st; simp add: run_script_def reaching_script_def procEvtPreviewStoppedState_defs
      procEvtPreviewingState_defs procEvtRecordingState_defs take_picture_def
      take_picture_leave_recording_hint_def take_picture_zsl_def take_picture_regular_def
      run_simps)

text \<open>
  every state of the machine is reached from the one the constructor builds, by a
  sequence of events on hardware whose operations succeed.
\<close>

theorem every_state_reachable:
  "\<exists>ctrl s. sm_reachable ctrl s \<and> m_state s = st"
proof (intro exI conjI)
  show "m_state (run_script (reaching_script st)) = st"
    by (rule run_script_reaches)
  show "sm_reachable (scripted (\<lambda>op. answers NO_ERROR (fst (reaching_script st)) 1))
      (run_script (reaching_script st))"
    by (cases "reaching_script st") (simp add: run_script_def run_events_reachable sm_init)
qed

text \<open>
  the replies to the two status calls agree with the queries on the state the other
  threads make directly, but for one case: while recording without a snapshot,
  PREVIEW_ENABLED is answered 0 although \<open>isPreviewRunning\<close> holds.
\<close>

theorem status_replies:
  assumes "m_state s \<noteq> QCAMERA_SM_STATE_PREPARE_SNAPSHOT"
    and "run_state (stateMachine evt p) s = (rc, t)"
    and "evt = QCAMERA_SM_EVT_RECORDING_ENABLED \<and> enabled = isRecording s
       \<or> evt = QCAMERA_SM_EVT_PREVIEW_ENABLED
         \<and> enabled = (isPreviewRunning s \<and> m_state s \<noteq> QCAMERA_SM_STATE_RECORDING)"
  shows "api_results (hwi_log t) = \<lparr>status = NO_ERROR, request_api = evt,
      result_kind = QCAMERA_API_RESULT_TYPE_ENABLE_FLAG,
      result_value = Enabled (of_bool enabled)\<rparr> # api_results (hwi_log s)"
proof -
  note handlers = procEvtPreviewStoppedState_defs procEvtPreviewReadyState_defs
    procEvtPreviewingState_defs procEvtPicTakingState_defs procEvtRecordingState_defs
    procEvtVideoPicTakingState_defs procEvtPreviewPicTakingState_defs
  have "wp (stateMachine evt p) (\<lambda>rc t. api_results (hwi_log t) =
      \<lparr>status = NO_ERROR, request_api = evt,
       result_kind = QCAMERA_API_RESULT_TYPE_ENABLE_FLAG,
       result_value = Enabled (of_bool enabled)\<rparr> # api_results (hwi_log s)) s"
    using assms(1,3)
    by (cases "m_state s"; elim disjE;
        simp add: stateMachine_def handlers sm_prog_defs wp_simps isRecording_def
          isPreviewRunning_def)
  then show ?thesis
    using assms(2) by (rule wp_run_state)
qed

theorem status_replies_witness:
  "isPreviewRunning (obj_in QCAMERA_SM_STATE_RECORDING ok_hwi)
   \<and> map result_value (api_results (hwi_log (snd (run_state
       (stateMachine QCAMERA_SM_EVT_PREVIEW_ENABLED plain_payload)
       (obj_in QCAMERA_SM_STATE_RECORDING ok_hwi))))) = [Enabled 0]"
  using status_replies [OF _ prod.collapse [symmetric],
      where s = "obj_in QCAMERA_SM_STATE_RECORDING ok_hwi"
      and evt = QCAMERA_SM_EVT_PREVIEW_ENABLED and p = plain_payload and enabled = False]
  by (simp add: obj_in_def QCameraStateMachine_def isPreviewRunning_def)

end
