(* ===== verification/CamThread.thy ===== *)
theory CamThread
  imports CamQueue CamProperties
begin

text \<open>
  The thread of the state machine: the two command queues, the semaphore that counts their
  commands, the operations that post commands (\<open>procAPI\<close>, \<open>procEvt\<close>, \<open>releaseThread\<close>)
  and one turn of the loop of \<open>smEvtProcRoutine\<close>. A turn and a post are atomic: the queues
  are locked inside, and the handlers run on this thread only. \<open>malloc\<close> of a command may
  fail (a truth value), \<open>malloc\<close> of a queue node is an address as in \<open>CamQueue\<close>.
\<close>

section \<open>Commands and the thread\<close>

datatype sm_cmd =
    QCAMERA_SM_CMD_TYPE_API sm_evt payload
  | QCAMERA_SM_CMD_TYPE_EVT sm_evt payload
  | QCAMERA_SM_CMD_TYPE_EXIT

record sm_thread =
  api_queue :: "sm_cmd camera_queue"
  evt_queue :: "sm_cmd camera_queue"
  cmd_sem :: int32
  cmd_pid :: bool
  running :: bool
  machine :: sm

definition cam_sem_post :: "int32 \<Rightarrow> int32" where
  "cam_sem_post v = v + 1"

text \<open>\<open>cam_sem_wait\<close> blocks while the count is zero: \<open>None\<close>.\<close>

definition cam_sem_wait :: "int32 \<Rightarrow> int32 option" where
  "cam_sem_wait v = (if v = 0 then None else Some (v - 1))"

definition start_thread :: "addr \<Rightarrow> addr \<Rightarrow> sm \<Rightarrow> sm_thread option" where
  "start_thread a e m = do {
     aq \<leftarrow> QCameraQueue a False;
     eq \<leftarrow> QCameraQueue e False;
     Some \<lparr>api_queue = aq, evt_queue = eq, cmd_sem = 0, cmd_pid = True, running = True,
           machine = m\<rparr> }"

definition procAPI ::
  "bool \<Rightarrow> addr \<Rightarrow> sm_evt \<Rightarrow> payload \<Rightarrow> sm_thread \<Rightarrow> (status_t \<times> sm_thread) option" where
  "procAPI got_cmd node evt p t =
    (if \<not> got_cmd then Some (NO_MEMORY, t)
     else do {
       (ok, q) \<leftarrow> enqueue node (Some (QCAMERA_SM_CMD_TYPE_API evt p)) (api_queue t);
       if ok then Some (NO_ERROR, t\<lparr>api_queue := q, cmd_sem := cam_sem_post (cmd_sem t)\<rparr>)
       else Some (UNKNOWN_ERROR, t\<lparr>api_queue := q\<rparr>) })"

definition procEvt ::
  "bool \<Rightarrow> addr \<Rightarrow> sm_evt \<Rightarrow> payload \<Rightarrow> sm_thread \<Rightarrow> (status_t \<times> sm_thread) option" where
  "procEvt got_cmd node evt p t =
    (if \<not> got_cmd then Some (NO_MEMORY, t)
     else do {
       (ok, q) \<leftarrow> enqueue node (Some (QCAMERA_SM_CMD_TYPE_EVT evt p)) (evt_queue t);
       if ok then Some (NO_ERROR, t\<lparr>evt_queue := q, cmd_sem := cam_sem_post (cmd_sem t)\<rparr>)
       else Some (UNKNOWN_ERROR, t\<lparr>evt_queue := q\<rparr>) })"

text \<open>\<open>releaseThread\<close> up to \<open>pthread_join\<close>, and its end, once the thread has exited.\<close>

definition releaseThread_post :: "bool \<Rightarrow> addr \<Rightarrow> sm_thread \<Rightarrow> sm_thread option" where
  "releaseThread_post got_cmd node t =
    (if cmd_pid t then
       (if got_cmd then do {
          (ok, q) \<leftarrow> enqueue node (Some QCAMERA_SM_CMD_TYPE_EXIT) (api_queue t);
          if ok then Some (t\<lparr>api_queue := q, cmd_sem := cam_sem_post (cmd_sem t)\<rparr>)
          else Some (t\<lparr>api_queue := q\<rparr>) }
        else Some (t\<lparr>cmd_pid := False\<rparr>))
     else Some t)"

definition releaseThread_join :: "sm_thread \<Rightarrow> sm_thread option" where
  "releaseThread_join t = (if running t then None else Some (t\<lparr>cmd_pid := False\<rparr>))"

definition run_cmd :: "sm_cmd option \<Rightarrow> sm_thread \<Rightarrow> sm_thread" where
  "run_cmd node t = (case node of
     None \<Rightarrow> t
   | Some (QCAMERA_SM_CMD_TYPE_API evt p) \<Rightarrow>
       t\<lparr>machine := snd (run_state (stateMachine evt p) (machine t))\<rparr>
   | Some (QCAMERA_SM_CMD_TYPE_EVT evt p) \<Rightarrow>
       t\<lparr>machine := snd (run_state (stateMachine evt p) (machine t))\<rparr>
   | Some QCAMERA_SM_CMD_TYPE_EXIT \<Rightarrow> t\<lparr>running := False\<rparr>)"

text \<open>One turn of the loop; the command executed is returned.\<close>

definition smEvtProcRoutine :: "sm_thread \<Rightarrow> (sm_cmd option \<times> sm_thread) option" where
  "smEvtProcRoutine t = do {
     v \<leftarrow> cam_sem_wait (cmd_sem t);
     (node, aq) \<leftarrow> dequeue True (api_queue t);
     (node, eq) \<leftarrow> (if node = None then dequeue True (evt_queue t)
                    else Some (node, evt_queue t));
     Some (node, run_cmd node (t\<lparr>api_queue := aq, evt_queue := eq, cmd_sem := v\<rparr>)) }"

section \<open>Specification: two lists of commands\<close>

datatype thread_op =
    ProcAPI bool addr sm_evt payload
  | ProcEvt bool addr sm_evt payload
  | ReleaseThread bool addr
  | Turn

datatype thread_result = Posted status_t | Asked | Ran "sm_cmd option"

definition thread_step :: "thread_op \<Rightarrow> sm_thread \<Rightarrow> (thread_result \<times> sm_thread) option" where
  "thread_step op t = (case op of
     ProcAPI got node evt p \<Rightarrow> map_option (apfst Posted) (procAPI got node evt p t)
   | ProcEvt got node evt p \<Rightarrow> map_option (apfst Posted) (procEvt got node evt p t)
   | ReleaseThread got node \<Rightarrow> map_option (Pair Asked) (releaseThread_post got node t)
   | Turn \<Rightarrow> map_option (apfst Ran) (smEvtProcRoutine t))"

record thread_spec =
  api_cmds :: "sm_cmd list"
  evt_cmds :: "sm_cmd list"
  joinable :: bool
  alive :: bool
  sm_of :: sm

definition exec_cmd :: "sm_cmd \<Rightarrow> thread_spec \<Rightarrow> thread_spec" where
  "exec_cmd c a = (case c of
     QCAMERA_SM_CMD_TYPE_API evt p \<Rightarrow>
       a\<lparr>sm_of := snd (run_state (stateMachine evt p) (sm_of a))\<rparr>
   | QCAMERA_SM_CMD_TYPE_EVT evt p \<Rightarrow>
       a\<lparr>sm_of := snd (run_state (stateMachine evt p) (sm_of a))\<rparr>
   | QCAMERA_SM_CMD_TYPE_EXIT \<Rightarrow> a\<lparr>alive := False\<rparr>)"

definition post_status :: "bool \<Rightarrow> addr \<Rightarrow> status_t" where
  "post_status got node =
    (if \<not> got then NO_MEMORY else if node = 0 then UNKNOWN_ERROR else NO_ERROR)"

text \<open>API commands first; among the commands of a queue, the oldest first.\<close>

definition thread_spec_step :: "thread_op \<Rightarrow> thread_spec \<Rightarrow> thread_result \<times> thread_spec" where
  "thread_spec_step op a = (case op of
     ProcAPI got node evt p \<Rightarrow>
       (Posted (post_status got node),
        if got \<and> node \<noteq> 0 then a\<lparr>api_cmds := api_cmds a @ [QCAMERA_SM_CMD_TYPE_API evt p]\<rparr>
        else a)
   | ProcEvt got node evt p \<Rightarrow>
       (Posted (post_status got node),
        if got \<and> node \<noteq> 0 then a\<lparr>evt_cmds := evt_cmds a @ [QCAMERA_SM_CMD_TYPE_EVT evt p]\<rparr>
        else a)
   | ReleaseThread got node \<Rightarrow>
       (Asked,
        if \<not> joinable a then a
        else if \<not> got then a\<lparr>joinable := False\<rparr>
        else if node \<noteq> 0 then a\<lparr>api_cmds := api_cmds a @ [QCAMERA_SM_CMD_TYPE_EXIT]\<rparr>
        else a)
   | Turn \<Rightarrow>
       (case (api_cmds a, evt_cmds a) of
          (c # cs, es) \<Rightarrow> (Ran (Some c), exec_cmd c (a\<lparr>api_cmds := cs\<rparr>))
        | ([], c # es) \<Rightarrow> (Ran (Some c), exec_cmd c (a\<lparr>evt_cmds := es\<rparr>))
        | ([], []) \<Rightarrow> (Ran None, a)))"

text \<open>
  What the environment guarantees: fresh memory, room in memory, and that the thread takes a
  turn only when the semaphore lets it.
\<close>

fun thread_ok :: "thread_op \<Rightarrow> sm_thread \<Rightarrow> bool" where
  "thread_ok (ProcAPI got node evt p) t =
    (node = 0 \<or> q_heap (api_queue t) node = None \<and> card (dom (q_heap (api_queue t))) < 2 ^ 31)"
| "thread_ok (ProcEvt got node evt p) t =
    (node = 0 \<or> q_heap (evt_queue t) node = None \<and> card (dom (q_heap (evt_queue t))) < 2 ^ 31)"
| "thread_ok (ReleaseThread got node) t =
    (node = 0 \<or> q_heap (api_queue t) node = None \<and> card (dom (q_heap (api_queue t))) < 2 ^ 31)"
| "thread_ok Turn t = (cmd_sem t \<noteq> 0)"

definition holds :: "sm_cmd camera_queue \<Rightarrow> sm_cmd list \<Rightarrow> bool" where
  "holds q cs \<longleftrightarrow> (\<exists>f. represents q f \<and> active f \<and> items f = map Some cs)"

definition thread_rep :: "sm_thread \<Rightarrow> thread_spec \<Rightarrow> bool" where
  "thread_rep t a \<longleftrightarrow> holds (api_queue t) (api_cmds a) \<and> holds (evt_queue t) (evt_cmds a)
    \<and> cmd_sem t = of_nat (length (api_cmds a) + length (evt_cmds a))
    \<and> cmd_pid t = joinable a \<and> running t = alive a \<and> machine t = sm_of a"

lemma holds_enqueue:
  assumes "holds q cs"
    and "node = 0 \<or> q_heap q node = None \<and> card (dom (q_heap q)) < 2 ^ 31"
  obtains q' where "enqueue node (Some c) q = Some (node \<noteq> 0, q')"
    and "holds q' (if node \<noteq> 0 then cs @ [c] else cs)"
proof -
  obtain f where f: "represents q f" "active f" "items f = map Some cs"
    using assms(1) by (auto simp: holds_def)
  have "malloc_ok (Enqueue node (Some c) :: (sm_cmd, unit) queue_op) q"
    using assms(2) by simp
  from enqueue_simulated [OF f(1) this] f(2,3) that show thesis
    by (fastforce simp: simulated_def queue_step_def fifo_step_def holds_def
        split: if_splits)
qed

lemma holds_dequeue:
  assumes "holds q cs"
  obtains q' where "dequeue True q = Some (case cs of [] \<Rightarrow> None | c # _ \<Rightarrow> Some c, q')"
    and "holds q' (tl cs)"
proof -
  obtain f where f: "represents q f" "active f" "items f = map Some cs"
    using assms(1) by (auto simp: holds_def)
  have "simulated (Dequeue True :: (sm_cmd, unit) queue_op) q f"
    using f(1) by (rule dequeue_simulated)
  with f(2,3) that show thesis
    by (cases cs) (fastforce simp: simulated_def queue_step_def fifo_step_def holds_def)+
qed

lemma holds_room: "holds q cs \<Longrightarrow> length cs < 2 ^ 31"
  unfolding holds_def represents_def by (metis length_map)

definition thread_simulated :: "thread_op \<Rightarrow> sm_thread \<Rightarrow> thread_spec \<Rightarrow> bool" where
  "thread_simulated op t a \<longleftrightarrow>
    (\<exists>t'. thread_step op t = Some (fst (thread_spec_step op a), t')
       \<and> thread_rep t' (snd (thread_spec_step op a)))"

lemmas thread_step_defs = thread_simulated_def thread_step_def thread_spec_step_def
  post_status_def

lemma procAPI_simulated:
  assumes "thread_rep t a" and "thread_ok (ProcAPI got node evt p) t"
  shows "thread_simulated (ProcAPI got node evt p) t a"
proof -
  have h: "holds (api_queue t) (api_cmds a)"
    using assms(1) by (simp add: thread_rep_def)
  obtain q' where q': "enqueue node (Some (QCAMERA_SM_CMD_TYPE_API evt p)) (api_queue t) = Some (node \<noteq> 0, q')"
      "holds q' (if node \<noteq> 0 then api_cmds a @ [QCAMERA_SM_CMD_TYPE_API evt p] else api_cmds a)"
    using holds_enqueue [OF h assms(2) [unfolded thread_ok.simps]] .
  show ?thesis
  proof (cases "node = 0")
    case True
    then show ?thesis
      using assms(1) q' by (simp add: thread_step_defs procAPI_def thread_rep_def)
  next
    case False
    then show ?thesis
      using assms(1) q'
      by (simp add: thread_step_defs procAPI_def thread_rep_def cam_sem_post_def)
  qed
qed

lemma procEvt_simulated:
  assumes "thread_rep t a" and "thread_ok (ProcEvt got node evt p) t"
  shows "thread_simulated (ProcEvt got node evt p) t a"
proof -
  have h: "holds (evt_queue t) (evt_cmds a)"
    using assms(1) by (simp add: thread_rep_def)
  obtain q' where q': "enqueue node (Some (QCAMERA_SM_CMD_TYPE_EVT evt p)) (evt_queue t) = Some (node \<noteq> 0, q')"
      "holds q' (if node \<noteq> 0 then evt_cmds a @ [QCAMERA_SM_CMD_TYPE_EVT evt p] else evt_cmds a)"
    using holds_enqueue [OF h assms(2) [unfolded thread_ok.simps]] .
  show ?thesis
  proof (cases "node = 0")
    case True
    then show ?thesis
      using assms(1) q' by (simp add: thread_step_defs procEvt_def thread_rep_def)
  next
    case False
    then show ?thesis
      using assms(1) q'
      by (simp add: thread_step_defs procEvt_def thread_rep_def cam_sem_post_def)
  qed
qed

lemma releaseThread_simulated:
  assumes "thread_rep t a" and "thread_ok (ReleaseThread got node) t"
  shows "thread_simulated (ReleaseThread got node) t a"
proof -
  have h: "holds (api_queue t) (api_cmds a)"
    using assms(1) by (simp add: thread_rep_def)
  obtain q' where q': "enqueue node (Some QCAMERA_SM_CMD_TYPE_EXIT) (api_queue t) = Some (node \<noteq> 0, q')"
      "holds q' (if node \<noteq> 0 then api_cmds a @ [QCAMERA_SM_CMD_TYPE_EXIT] else api_cmds a)"
    using holds_enqueue [OF h assms(2) [unfolded thread_ok.simps]] .
  show ?thesis
  proof (cases "node = 0")
    case True
    then show ?thesis
      using assms(1) q' by (simp add: thread_step_defs releaseThread_post_def thread_rep_def)
  next
    case False
    then show ?thesis
      using assms(1) q'
      by (simp add: thread_step_defs releaseThread_post_def thread_rep_def cam_sem_post_def)
  qed
qed

lemma exec_cmd_rep:
  "thread_rep t a \<Longrightarrow> thread_rep (run_cmd (Some c) t) (exec_cmd c a)"
  by (cases c) (auto simp: run_cmd_def exec_cmd_def thread_rep_def)

lemma turn_simulated:
  assumes rep: "thread_rep t a" and ok: "thread_ok Turn t"
  shows "thread_simulated Turn t a"
proof -
  obtain aq where aq: "dequeue True (api_queue t) =
      Some (case api_cmds a of [] \<Rightarrow> None | c # _ \<Rightarrow> Some c, aq)" "holds aq (tl (api_cmds a))"
    using rep holds_dequeue by (auto simp: thread_rep_def)
  obtain eq where eq: "dequeue True (evt_queue t) =
      Some (case evt_cmds a of [] \<Rightarrow> None | c # _ \<Rightarrow> Some c, eq)" "holds eq (tl (evt_cmds a))"
    using rep holds_dequeue by (auto simp: thread_rep_def)
  have sem: "cam_sem_wait (cmd_sem t) = Some (cmd_sem t - 1)"
    using ok by (simp add: cam_sem_wait_def)
  show ?thesis
  proof (cases "api_cmds a")
    case (Cons c cs)
    then have "smEvtProcRoutine t = Some (Some c,
        run_cmd (Some c) (t\<lparr>api_queue := aq, cmd_sem := cmd_sem t - 1\<rparr>))"
      using aq sem by (simp add: smEvtProcRoutine_def)
    moreover have "thread_rep (t\<lparr>api_queue := aq, cmd_sem := cmd_sem t - 1\<rparr>)
        (a\<lparr>api_cmds := cs\<rparr>)"
      using rep aq Cons by (auto simp: thread_rep_def)
    ultimately show ?thesis
      using Cons by (auto simp: thread_step_defs intro: exec_cmd_rep)
  next
    case Nil
    then obtain c cs where evts: "evt_cmds a = c # cs"
      using rep ok by (cases "evt_cmds a") (auto simp: thread_rep_def)
    then have "smEvtProcRoutine t = Some (Some c,
        run_cmd (Some c) (t\<lparr>api_queue := aq, evt_queue := eq, cmd_sem := cmd_sem t - 1\<rparr>))"
      using aq eq sem Nil by (simp add: smEvtProcRoutine_def)
    moreover have "thread_rep (t\<lparr>api_queue := aq, evt_queue := eq, cmd_sem := cmd_sem t - 1\<rparr>)
        (a\<lparr>evt_cmds := cs\<rparr>)"
      using rep aq eq Nil evts by (auto simp: thread_rep_def)
    ultimately show ?thesis
      using Nil evts by (auto simp: thread_step_defs intro: exec_cmd_rep)
  qed
qed

lemma thread_simulates:
  "thread_rep t a \<Longrightarrow> thread_ok op t \<Longrightarrow> thread_simulated op t a"
  by (cases op) (simp_all only: procAPI_simulated procEvt_simulated releaseThread_simulated
    turn_simulated)

interpretation smt: refinement thread_step thread_spec_step thread_rep thread_ok
  using thread_simulates by unfold_locales (simp add: thread_simulated_def)

definition new_thread_spec :: "sm \<Rightarrow> thread_spec" where
  "new_thread_spec m =
    \<lparr>api_cmds = [], evt_cmds = [], joinable = True, alive = True, sm_of = m\<rparr>"

lemma start_thread_rep:
  assumes "start_thread a e m = Some t"
  shows "thread_rep t (new_thread_spec m)"
proof -
  obtain aq eq where q: "QCameraQueue a False = Some aq" "QCameraQueue e False = Some eq"
    and t: "t = \<lparr>api_queue = aq, evt_queue = eq, cmd_sem = 0, cmd_pid = True, running = True,
      machine = m\<rparr>"
    using assms by (auto simp: start_thread_def bind_eq_Some_conv)
  have "holds aq [] \<and> holds eq []"
    using q [THEN QCameraQueue_represents] by (auto simp: holds_def empty_fifo_def)
  then show ?thesis
    by (simp add: t thread_rep_def new_thread_spec_def)
qed

section \<open>Turns of the thread\<close>

lemma count_zero: "n < 2 ^ 32 \<Longrightarrow> (of_nat n :: int32) = 0 \<longleftrightarrow> n = 0"
  by (auto simp: word_of_nat_eq_0_iff dest: nat_dvd_not_less)

lemma semaphore_counts:
  assumes "thread_rep t a"
  shows "cmd_sem t = 0 \<longleftrightarrow> api_cmds a = [] \<and> evt_cmds a = []"
proof -
  let ?n = "length (api_cmds a) + length (evt_cmds a)"
  have "?n < 2 ^ 32"
    using assms holds_room [of "api_queue t" "api_cmds a"]
      holds_room [of "evt_queue t" "evt_cmds a"] by (simp add: thread_rep_def)
  then have "of_nat ?n = (0 :: int32) \<longleftrightarrow> ?n = 0"
    by (rule count_zero)
  moreover have "cmd_sem t = of_nat ?n"
    using assms by (simp only: thread_rep_def)
  ultimately show ?thesis
    by (metis add_is_0 length_0_conv)
qed

lemma turn_shrinks:
  assumes "thread_rep t a" and "api_cmds a \<noteq> [] \<or> evt_cmds a \<noteq> []"
  obtains t' where "thread_step Turn t = Some (fst (thread_spec_step Turn a), t')"
    and "thread_rep t' (snd (thread_spec_step Turn a))"
    and "length (api_cmds a) + length (evt_cmds a) =
      Suc (length (api_cmds (snd (thread_spec_step Turn a)))
         + length (evt_cmds (snd (thread_spec_step Turn a))))"
proof -
  have "thread_ok Turn t"
    using semaphore_counts [OF assms(1)] assms(2) by auto
  then obtain t' where "thread_step Turn t = Some (fst (thread_spec_step Turn a), t')"
    "thread_rep t' (snd (thread_spec_step Turn a))"
    using turn_simulated [OF assms(1)] by (auto simp: thread_simulated_def)
  moreover have "length (api_cmds a) + length (evt_cmds a) =
      Suc (length (api_cmds (snd (thread_spec_step Turn a)))
         + length (evt_cmds (snd (thread_spec_step Turn a))))"
    using assms(2)
    by (auto simp: thread_spec_step_def exec_cmd_def split: list.splits sm_cmd.splits)
  ultimately show thesis
    using that by blast
qed

lemma turns_possible:
  assumes "thread_rep t a" and "n \<le> length (api_cmds a) + length (evt_cmds a)"
  shows "run_ok thread_step thread_ok (replicate n Turn) t"
  using assms
proof (induction n arbitrary: t a)
  case 0
  then show ?case
    by simp
next
  case (Suc n)
  then have more: "api_cmds a \<noteq> [] \<or> evt_cmds a \<noteq> []"
    by auto
  obtain t' where "thread_step Turn t = Some (fst (thread_spec_step Turn a), t')"
    and "run_ok thread_step thread_ok (replicate n Turn) t'"
    using turn_shrinks [OF Suc.prems(1) more] Suc.IH Suc.prems(2) by (metis Suc_le_mono)
  moreover have "thread_ok Turn t"
    using semaphore_counts [OF Suc.prems(1)] more by auto
  ultimately show ?case
    by simp
qed

lemma exec_cmd_api [simp]:
  "api_cmds (exec_cmd c a) = api_cmds a" "evt_cmds (exec_cmd c a) = evt_cmds a"
  "(exec_cmd c a)\<lparr>api_cmds := cs\<rparr> = exec_cmd c (a\<lparr>api_cmds := cs\<rparr>)"
  by (cases c; simp add: exec_cmd_def)+

lemma turn_spec:
  "api_cmds a = c # cs \<Longrightarrow>
    thread_spec_step Turn a = (Ran (Some c), exec_cmd c (a\<lparr>api_cmds := cs\<rparr>))"
  by (simp add: thread_spec_step_def)

lemma drain_api:
  "api_cmds a = cs @ ds \<Longrightarrow> run_spec thread_spec_step (replicate (length cs) Turn) a =
    (map (\<lambda>c. Ran (Some c)) cs, fold exec_cmd cs (a\<lparr>api_cmds := ds\<rparr>))"
proof (induction cs arbitrary: a)
  case Nil
  then show ?case
    by simp
next
  case (Cons c cs)
  have "run_spec thread_spec_step (replicate (length cs) Turn)
      (exec_cmd c (a\<lparr>api_cmds := cs @ ds\<rparr>)) =
    (map (\<lambda>c. Ran (Some c)) cs,
     fold exec_cmd cs ((exec_cmd c (a\<lparr>api_cmds := cs @ ds\<rparr>))\<lparr>api_cmds := ds\<rparr>))"
    by (rule Cons.IH) simp
  then show ?case
    using Cons.prems by (simp add: turn_spec)
qed

lemma fold_exec_api:
  "fold exec_cmd (map (\<lambda>(e, p). QCAMERA_SM_CMD_TYPE_API e p) es) a =
    a\<lparr>sm_of := run_events es (sm_of a)\<rparr>"
  by (induction es arbitrary: a) (auto simp: exec_cmd_def)

section \<open>Properties\<close>

definition a_machine :: sm where
  "a_machine = QCameraStateMachine (scripted ok_hwi) False False"

definition a_thread :: sm_thread where
  "a_thread = \<lparr>api_queue = \<lparr>m_head = 1,
       q_heap = [1 \<mapsto> \<lparr>list_next = 1, list_prev = 1, node_data = None\<rparr>], m_size = 0,
       m_active = True, m_dataFn = False, freed = [], dataFn_calls = []\<rparr>,
     evt_queue = \<lparr>m_head = 2,
       q_heap = [2 \<mapsto> \<lparr>list_next = 2, list_prev = 2, node_data = None\<rparr>], m_size = 0,
       m_active = True, m_dataFn = False, freed = [], dataFn_calls = []\<rparr>,
     cmd_sem = 0, cmd_pid = True, running = True, machine = a_machine\<rparr>"

definition some_posts :: "thread_op list" where
  "some_posts = [ProcEvt True 5 QCAMERA_SM_EVT_SNAPSHOT_DONE plain_payload,
     ProcAPI True 6 QCAMERA_SM_EVT_STOP_PREVIEW plain_payload, Turn]"

lemma a_thread_started: "start_thread 1 2 a_machine = Some a_thread"
  by (simp add: a_thread_def start_thread_def QCameraQueue_def cam_list_init_def set_next_def
      set_prev_def new_node_def)

lemmas run_thread_simps = a_thread_def some_posts_def thread_step_def procEvt_def procAPI_def
  smEvtProcRoutine_def run_cmd_def cam_sem_post_def cam_sem_wait_def enqueue_def dequeue_def
  cam_list_add_tail_node_def cam_list_del_node_def set_next_def set_prev_def get_next_def
  get_prev_def get_data_def free_node_def new_node_def

lemma some_posts_run:
  "run_ok thread_step thread_ok some_posts a_thread"
  "\<exists>t'. run_steps thread_step some_posts a_thread =
     Some ([Posted NO_ERROR, Posted NO_ERROR,
       Ran (Some (QCAMERA_SM_CMD_TYPE_API QCAMERA_SM_EVT_STOP_PREVIEW plain_payload))], t')"
  by (simp_all add: run_thread_simps)

text \<open>
  C7: the thread with its two pointer queues behaves as two lists of commands: from its
  start, over any interleaving of posts and turns, no dead memory is touched, each post
  returns the documented status, and each turn executes the oldest API command, or the
  oldest event command when no API command is waiting.
\<close>

theorem thread_refines_lists:
  assumes "start_thread a e m = Some t" and "run_ok thread_step thread_ok ops t"
  shows "\<exists>t'. run_steps thread_step ops t =
      Some (fst (run_spec thread_spec_step ops (new_thread_spec m)), t')
    \<and> thread_rep t' (snd (run_spec thread_spec_step ops (new_thread_spec m)))"
  using start_thread_rep [OF assms(1)] assms(2) by (rule smt.run_simulates)

theorem thread_refines_lists_witness:
  "\<exists>t'. run_steps thread_step some_posts a_thread =
     Some ([Posted NO_ERROR, Posted NO_ERROR,
       Ran (Some (QCAMERA_SM_CMD_TYPE_API QCAMERA_SM_EVT_STOP_PREVIEW plain_payload))], t')"
  using thread_refines_lists [OF a_thread_started some_posts_run(1)]
  by (auto simp: some_posts_def new_thread_spec_def thread_spec_step_def post_status_def)

text \<open>
  No wake-up is lost or spurious: after any run the semaphore counts the queued
  commands, so the thread blocks only with both queues empty, and a turn that is let
  through always finds a command.
\<close>

theorem semaphore_counts_commands:
  assumes "start_thread a e m = Some t" and "run_ok thread_step thread_ok ops t"
    and "run_steps thread_step ops t = Some (rs, t')"
  shows "\<exists>cs es. holds (api_queue t') cs \<and> holds (evt_queue t') es
    \<and> cmd_sem t' = of_nat (length cs + length es)
    \<and> (if cs = [] \<and> es = [] then smEvtProcRoutine t' = None
       else \<exists>t''. smEvtProcRoutine t' = Some (Some (hd (cs @ es)), t''))"
proof -
  obtain b where rep: "thread_rep t' b"
    using smt.run_simulates [OF start_thread_rep [OF assms(1)] assms(2)] assms(3) by auto
  have "if api_cmds b = [] \<and> evt_cmds b = [] then smEvtProcRoutine t' = None
       else \<exists>t''. smEvtProcRoutine t' = Some (Some (hd (api_cmds b @ evt_cmds b)), t'')"
  proof (cases "api_cmds b = [] \<and> evt_cmds b = []")
    case True
    then show ?thesis
      using semaphore_counts [OF rep] by (simp add: smEvtProcRoutine_def cam_sem_wait_def)
  next
    case False
    then have "thread_ok Turn t'"
      using semaphore_counts [OF rep] by auto
    then show ?thesis
      using turn_simulated [OF rep] False
      by (auto simp: thread_step_defs split: list.splits)
  qed
  then show ?thesis
    using rep unfolding thread_rep_def
    by (intro exI [of _ "api_cmds b"] exI [of _ "evt_cmds b"]) simp
qed

theorem semaphore_counts_commands_witness:
  "\<exists>rs t' cs es. run_steps thread_step some_posts a_thread = Some (rs, t')
     \<and> holds (api_queue t') cs \<and> holds (evt_queue t') es
     \<and> cmd_sem t' = of_nat (length cs + length es)"
proof -
  obtain rs t' where run: "run_steps thread_step some_posts a_thread = Some (rs, t')"
    using some_posts_run(2) by blast
  then show ?thesis
    using semaphore_counts_commands [OF a_thread_started some_posts_run(1) run] by blast
qed

text \<open>
  A clean exit: \<open>releaseThread\<close> on a thread with the API calls \<open>calls\<close> still queued
  makes it handle these calls, in order, and then stop, so \<open>pthread_join\<close> returns; no
  event command that is waiting is handled.
\<close>

theorem releaseThread_drains_api:
  assumes "thread_rep t a" and "cmd_pid t" and "running t"
    and "api_cmds a = map (\<lambda>(e, p). QCAMERA_SM_CMD_TYPE_API e p) calls"
    and "node \<noteq> 0" and "thread_ok (ReleaseThread True node) t"
  shows "\<exists>rs t'. run_steps thread_step
        (ReleaseThread True node # replicate (Suc (length calls)) Turn) t = Some (rs, t')
    \<and> machine t' = run_events calls (machine t) \<and> \<not> running t'
    \<and> holds (evt_queue t') (evt_cmds a)
    \<and> releaseThread_join t' = Some (t'\<lparr>cmd_pid := False\<rparr>)"
proof -
  let ?cs = "api_cmds a @ [QCAMERA_SM_CMD_TYPE_EXIT]"
  let ?a = "a\<lparr>api_cmds := ?cs\<rparr>"
  obtain t1 where t1: "thread_step (ReleaseThread True node) t = Some (Asked, t1)"
    "thread_rep t1 ?a"
    using releaseThread_simulated [OF assms(1,6)] assms(1,2,5)
    by (auto simp: thread_simulated_def thread_spec_step_def thread_rep_def)
  let ?turns = "replicate (Suc (length calls)) Turn"
  have len: "Suc (length calls) = length ?cs"
    using assms(4) by simp
  have ok: "run_ok thread_step thread_ok ?turns t1"
    by (rule turns_possible [OF t1(2)]) (simp add: assms(4))
  obtain t' where run: "run_steps thread_step ?turns t1 =
      Some (fst (run_spec thread_spec_step ?turns ?a), t')"
    and rep: "thread_rep t' (snd (run_spec thread_spec_step ?turns ?a))"
    using smt.run_simulates [OF t1(2) ok] by blast
  have "snd (run_spec thread_spec_step ?turns ?a) = fold exec_cmd ?cs (?a\<lparr>api_cmds := []\<rparr>)"
    unfolding len by (subst drain_api [of _ ?cs "[]"]) simp_all
  also have "\<dots> = a\<lparr>api_cmds := [], sm_of := run_events calls (sm_of a), alive := False\<rparr>"
    by (simp add: assms(4) fold_exec_api) (simp add: exec_cmd_def)
  finally have spec: "snd (run_spec thread_spec_step ?turns ?a) =
      a\<lparr>api_cmds := [], sm_of := run_events calls (sm_of a), alive := False\<rparr>" .
  show ?thesis
    using t1(1) run rep assms(1) unfolding spec
    by (simp add: thread_rep_def releaseThread_join_def del: replicate_Suc)
qed

theorem releaseThread_drains_api_witness:
  "\<exists>rs t'. run_steps thread_step [ReleaseThread True 7, Turn] a_thread = Some (rs, t')
    \<and> machine t' = a_machine \<and> \<not> running t'"
  using releaseThread_drains_api [OF start_thread_rep [OF a_thread_started], of "[]" 7]
  by (auto simp: a_thread_def new_thread_spec_def)

end
