(* ===== verification/CamApi.thy ===== *)
theory CamApi
  imports CamThread
begin

text \<open>
  The mailbox between the state machine and its API callers (\<open>QCamera2HWI.cpp\<close>): the
  list of API results, \<open>signalAPIResult\<close>, \<open>waitAPIResult\<close>, \<open>processAPI\<close> and
  \<open>processEvt\<close>, and a whole API call: post, let the thread work, wait.
\<close>

section \<open>The list of results\<close>

text \<open>\<open>signalAPIResult\<close>: append, unless \<open>malloc\<close> fails; the result is dropped then.\<close>

fun signal_result :: "bool \<Rightarrow> api_result \<Rightarrow> api_result list \<Rightarrow> api_result list" where
  "signal_result got r [] = (if got then [r] else [])"
| "signal_result got r (x # xs) = x # signal_result got r xs"

text \<open>
  \<open>waitAPIResult\<close>, after a wake-up: the first result for the event is unlinked and
  returned; with none (\<open>None\<close>) the caller waits on.
\<close>

fun waitAPIResult :: "sm_evt \<Rightarrow> api_result list \<Rightarrow> (api_result \<times> api_result list) option" where
  "waitAPIResult evt [] = None"
| "waitAPIResult evt (x # xs) =
    (if request_api x = evt then Some (x, xs)
     else (case waitAPIResult evt xs of None \<Rightarrow> None | Some (r, ys) \<Rightarrow> Some (r, x # ys)))"

lemma signal_result_append: "signal_result got r xs = xs @ (if got then [r] else [])"
  by (induction xs) auto

lemma wait_none: "waitAPIResult evt xs = None \<longleftrightarrow> evt \<notin> request_api ` set xs"
  by (induction xs) (auto split: option.splits)

lemma wait_first:
  assumes "waitAPIResult evt xs = Some (r, ys)"
  shows "\<exists>us vs. xs = us @ r # vs \<and> ys = us @ vs \<and> request_api r = evt
    \<and> evt \<notin> request_api ` set us"
  using assms
proof (induction xs arbitrary: ys)
  case Nil
  then show ?case
    by simp
next
  case (Cons x xs)
  show ?case
  proof (cases "request_api x = evt")
    case True
    then show ?thesis
      using Cons.prems by (intro exI [of _ "[]"] exI [of _ xs]) auto
  next
    case False
    then obtain zs where zs: "waitAPIResult evt xs = Some (r, zs)" "ys = x # zs"
      using Cons.prems by (auto split: option.splits)
    from Cons.IH [OF zs(1)] obtain us vs where "xs = us @ r # vs" "zs = us @ vs"
      "request_api r = evt" "evt \<notin> request_api ` set us"
      by blast
    then show ?thesis
      using False zs(2) by (intro exI [of _ "x # us"] exI [of _ vs]) auto
  qed
qed

lemma wait_append:
  "waitAPIResult evt xs = None \<Longrightarrow> request_api r = evt \<Longrightarrow>
    waitAPIResult evt (xs @ r # ys) = Some (r, xs @ ys)"
  by (induction xs) (auto split: option.splits if_splits)

section \<open>The hardware interface as its callers see it\<close>

record hwi_api =
  m_smThreadActive :: bool
  m_apiResultList :: "api_result list"
  thread :: sm_thread

definition processAPI ::
  "bool \<Rightarrow> addr \<Rightarrow> sm_evt \<Rightarrow> payload \<Rightarrow> hwi_api \<Rightarrow> (status_t \<times> hwi_api) option" where
  "processAPI got node api p h =
    (if m_smThreadActive h then
       map_option (\<lambda>(rc, t). (rc, h\<lparr>thread := t\<rparr>)) (procAPI got node api p (thread h))
     else Some (DEAD_OBJECT, h))"

definition processEvt ::
  "bool \<Rightarrow> addr \<Rightarrow> sm_evt \<Rightarrow> payload \<Rightarrow> hwi_api \<Rightarrow> (status_t \<times> hwi_api) option" where
  "processEvt got node evt p h =
    map_option (\<lambda>(rc, t). (rc, h\<lparr>thread := t\<rparr>)) (procEvt got node evt p (thread h))"

text \<open>The results the log gained from \<open>l\<close> to \<open>l'\<close>, oldest first.\<close>

definition new_results :: "hwi_event list \<Rightarrow> hwi_event list \<Rightarrow> api_result list" where
  "new_results l l' = rev (take (length (api_results l') - length (api_results l)) (api_results l'))"

text \<open>One turn of the thread: its handler signals results, and \<open>malloc\<close> succeeds for them.\<close>

definition hwi_turn :: "hwi_api \<Rightarrow> hwi_api option" where
  "hwi_turn h = map_option (\<lambda>(c, t). h\<lparr>thread := t, m_apiResultList :=
      fold (signal_result True)
        (new_results (hwi_log (machine (thread h))) (hwi_log (machine t)))
        (m_apiResultList h)\<rparr>) (smEvtProcRoutine (thread h))"

text \<open>
  A call of the camera API, by the pattern of \<open>QCamera2HWI.cpp\<close>: post, and when that
  succeeds wait; the waiting caller looks at the list after the thread's turn.
\<close>

definition api_call :: "bool \<Rightarrow> addr \<Rightarrow> sm_evt \<Rightarrow> payload \<Rightarrow> hwi_api \<Rightarrow>
    (status_t \<times> api_result option \<times> hwi_api) option" where
  "api_call got node evt p h = do {
     (rc, h) \<leftarrow> processAPI got node evt p h;
     if rc = NO_ERROR then do {
       h \<leftarrow> hwi_turn h;
       (case waitAPIResult evt (m_apiResultList h) of
          None \<Rightarrow> Some (rc, None, h)
        | Some (r, l) \<Rightarrow> Some (rc, Some r, h\<lparr>m_apiResultList := l\<rparr>)) }
     else Some (rc, None, h) }"

lemma fold_signal: "fold (signal_result True) rs xs = xs @ rs"
  by (induction rs arbitrary: xs) (auto simp: signal_result_append)

lemma new_results_append:
  "new_results l (es @ l) = rev (api_results es)"
proof -
  have "api_results (es @ l) = api_results es @ api_results l" for es
    by (induction es rule: api_results.induct) auto
  then show ?thesis
    by (simp add: new_results_def)
qed

lemma new_results_answered:
  "answered s evt rc t \<Longrightarrow> \<exists>r. new_results (hwi_log s) (hwi_log t) = [r]
     \<and> status r = rc \<and> request_api r = evt"
  by (auto simp: answered_def new_results_def)

lemma answered_result:
  assumes "run_state (stateMachine evt p) s = (rc, t)" and "waits_for_reply evt"
    and "\<not> no_reply_case (m_state s) evt" and "\<not> deferrable (m_state s) evt"
  obtains r where "new_results (hwi_log s) (hwi_log t) = [r]" and "status r = rc"
    and "request_api r = evt"
proof -
  have "answered s evt rc t"
    using stateMachine_run [OF assms(1)] assms(2-4) by (simp add: contract_parts)
  then show thesis
    using new_results_answered that by blast
qed

lemma new_results_unanswered:
  "unanswered s t \<Longrightarrow> new_results (hwi_log s) (hwi_log t) = []"
  by (simp add: unanswered_def new_results_def)

text \<open>A post on an idle API queue, and the turn it causes.\<close>

lemma post_and_turn:
  assumes "thread_rep t a" and "api_cmds a = []"
    and "node \<noteq> 0" and "thread_ok (ProcAPI True node evt p) t"
  obtains t1 t2 where "procAPI True node evt p t = Some (NO_ERROR, t1)"
    and "smEvtProcRoutine t1 = Some (Some (QCAMERA_SM_CMD_TYPE_API evt p), t2)"
    and "machine t1 = machine t"
    and "machine t2 = snd (run_state (stateMachine evt p) (machine t))"
proof -
  let ?c = "QCAMERA_SM_CMD_TYPE_API evt p"
  let ?a = "a\<lparr>api_cmds := [?c]\<rparr>"
  obtain t1 where t1: "procAPI True node evt p t = Some (NO_ERROR, t1)" "thread_rep t1 ?a"
    using procAPI_simulated [OF assms(1,4)] assms(2,3)
    by (auto simp: thread_step_defs)
  obtain t2 where t2: "smEvtProcRoutine t1 = Some (Some ?c, t2)"
    "thread_rep t2 (exec_cmd ?c (?a\<lparr>api_cmds := []\<rparr>))"
    using turn_simulated [OF t1(2)] semaphore_counts [OF t1(2)]
    by (auto simp: thread_step_defs)
  show thesis
    using that t1 t2 assms(1) by (auto simp: thread_rep_def exec_cmd_def)
qed

text \<open>What later events add to the list for an event that none of them is.\<close>

lemma run_events_results:
  assumes "evt \<notin> fst ` set es"
    and "evt \<notin> {QCAMERA_SM_EVT_PREPARE_SNAPSHOT, QCAMERA_SM_EVT_TAKE_PICTURE}"
  shows "\<exists>xs. hwi_log (run_events es s) = xs @ hwi_log s
    \<and> evt \<notin> request_api ` set (api_results xs)"
  using assms
proof (induction es arbitrary: s)
  case Nil
  then show ?case
    by simp
next
  case (Cons e es)
  obtain evt' p where e: "e = (evt', p)"
    by fastforce
  let ?t = "snd (run_state (stateMachine evt' p) s)"
  have results: "api_results (us @ vs) = api_results us @ api_results vs" for us vs
    by (induction us rule: api_results.induct) auto
  have no_result: "evt \<notin> request_api ` set (api_results us)"
    if "list_all (event_allowed st evt') us" for us st
    using that Cons.prems e
    by (induction us rule: api_results.induct) (auto simp: result_allowed_def)
  obtain us where us: "hwi_log ?t = us @ hwi_log s"
    "list_all (event_allowed (m_state s) evt') us"
    using stateMachine_run [of evt' p s "fst (run_state (stateMachine evt' p) s)" ?t]
    by (auto simp: step_contract_def log_extends_def)
  obtain xs where "hwi_log (run_events es ?t) = xs @ hwi_log ?t"
    "evt \<notin> request_api ` set (api_results xs)"
    using Cons.IH [of ?t] Cons.prems by auto
  then show ?case
    using us no_result [OF us(2)] by (intro exI [of _ "xs @ us"]) (auto simp: e results)
qed

section \<open>Properties\<close>

definition an_api :: "api_result list \<Rightarrow> hwi_api" where
  "an_api l = \<lparr>m_smThreadActive = True, m_apiResultList = l, thread = a_thread\<rparr>"

lemma an_api_idle:
  "thread_rep (thread (an_api l)) (new_thread_spec a_machine)"
  "thread_ok (ProcAPI True 5 evt p) (thread (an_api l))"
  by (simp_all add: an_api_def start_thread_rep [OF a_thread_started])
    (simp add: a_thread_def)

lemma a_machine_simps [simp]: "m_state a_machine = QCAMERA_SM_STATE_PREVIEW_STOPPED"
  by (simp add: a_machine_def QCameraStateMachine_def)




text \<open>
  A result nobody collected is taken for the answer of a later call: when the list
  already holds a result for the event (signalled for a caller that does not wait, as after
  the camera daemon died), the call returns that old result, and its own answer stays in
  the list for the next caller.
\<close>

theorem stale_result_returned:
  assumes "m_smThreadActive h" and "thread_rep (thread h) a" and "api_cmds a = []"
    and "node \<noteq> 0" and "thread_ok (ProcAPI True node evt p) (thread h)"
    and "waits_for_reply evt"
    and "\<not> no_reply_case (m_state (machine (thread h))) evt"
    and "\<not> deferrable (m_state (machine (thread h))) evt"
    and "m_apiResultList h = us @ old # vs" and "request_api old = evt"
    and "evt \<notin> request_api ` set us"
  shows "\<exists>r h'. api_call True node evt p h = Some (NO_ERROR, Some old, h')
    \<and> request_api r = evt \<and> m_apiResultList h' = us @ vs @ [r]"
proof -
  obtain rc m where run: "run_state (stateMachine evt p) (machine (thread h)) = (rc, m)"
    by fastforce
  obtain t1 t2 where t: "procAPI True node evt p (thread h) = Some (NO_ERROR, t1)"
    "smEvtProcRoutine t1 = Some (Some (QCAMERA_SM_CMD_TYPE_API evt p), t2)"
    "machine t1 = machine (thread h)" "machine t2 = m"
    using post_and_turn [OF assms(2-5)] run by (metis snd_conv)
  obtain r where r: "new_results (hwi_log (machine (thread h))) (hwi_log m) = [r]"
    "request_api r = evt"
    using answered_result [OF run assms(6-8)] by metis
  have "waitAPIResult evt us = None"
    using assms(11) by (simp add: wait_none)
  then show ?thesis
    using assms(1,9,10) t run r
    by (simp add: api_call_def processAPI_def hwi_turn_def fold_signal wait_append)
qed

theorem stale_result_returned_witness:
  "\<exists>h'. api_call True 5 QCAMERA_SM_EVT_PREPARE_SNAPSHOT plain_payload
      (an_api [def_result QCAMERA_SM_EVT_PREPARE_SNAPSHOT NO_ERROR]) =
      Some (NO_ERROR, Some (def_result QCAMERA_SM_EVT_PREPARE_SNAPSHOT NO_ERROR), h')
    \<and> length (m_apiResultList h') = 1"
  using stale_result_returned [of
      "an_api [def_result QCAMERA_SM_EVT_PREPARE_SNAPSHOT NO_ERROR]"
      "new_thread_spec a_machine" 5 QCAMERA_SM_EVT_PREPARE_SNAPSHOT plain_payload "[]"
      "def_result QCAMERA_SM_EVT_PREPARE_SNAPSHOT NO_ERROR" "[]",
      OF _ an_api_idle(1) _ _ an_api_idle(2)]
  by (auto simp: an_api_def new_thread_spec_def waits_for_reply_def no_reply_case_def
      deferrable_def a_thread_def def_result_def)

text \<open>
  A flaw: a call whose event the handlers forget blocks its caller. Its turn signals
  nothing, and whatever events are handled afterwards, no result for it appears unless
  another caller makes the same call.
\<close>

theorem forgotten_call_blocks:
  assumes "m_smThreadActive h" and "thread_rep (thread h) a" and "api_cmds a = []"
    and "node \<noteq> 0" and "thread_ok (ProcAPI True node evt p) (thread h)"
    and "no_reply_case (m_state (machine (thread h))) evt"
    and "waitAPIResult evt (m_apiResultList h) = None"
    and "evt \<notin> fst ` set later"
  shows "\<exists>h'. api_call True node evt p h = Some (NO_ERROR, None, h')
    \<and> waitAPIResult evt (m_apiResultList h' @
        new_results (hwi_log (machine (thread h')))
          (hwi_log (run_events later (machine (thread h'))))) = None"
proof -
  obtain rc m where run: "run_state (stateMachine evt p) (machine (thread h)) = (rc, m)"
    by fastforce
  obtain t1 t2 where t: "procAPI True node evt p (thread h) = Some (NO_ERROR, t1)"
    "smEvtProcRoutine t1 = Some (Some (QCAMERA_SM_CMD_TYPE_API evt p), t2)"
    "machine t1 = machine (thread h)" "machine t2 = m"
    using post_and_turn [OF assms(2-5)] run by (metis snd_conv)
  have waits: "waits_for_reply evt" and
    other: "evt \<notin> {QCAMERA_SM_EVT_PREPARE_SNAPSHOT, QCAMERA_SM_EVT_TAKE_PICTURE}"
    using assms(6) by (cases evt; simp add: no_reply_case_def waits_for_reply_def)+
  have "new_results (hwi_log (machine (thread h))) (hwi_log m) = []"
    using stateMachine_run [OF run] waits assms(6)
    by (intro new_results_unanswered) (simp add: contract_parts)
  moreover obtain xs where "hwi_log (run_events later m) = xs @ hwi_log m"
    "evt \<notin> request_api ` set (api_results xs)"
    using run_events_results [OF assms(8) other] by blast
  moreover have "evt \<notin> request_api ` set (m_apiResultList h)"
    using assms(7) wait_none by blast
  ultimately show ?thesis
    using assms(1,7) t
    by (simp add: api_call_def processAPI_def hwi_turn_def)
      (simp add: wait_none new_results_append image_Un)
qed

theorem forgotten_call_blocks_witness:
  "\<exists>h'. api_call True 5 QCAMERA_SM_EVT_RELEASE_RECORIDNG_FRAME plain_payload (an_api []) =
    Some (NO_ERROR, None, h')"
  using forgotten_call_blocks [of "an_api []" "new_thread_spec a_machine" 5
      QCAMERA_SM_EVT_RELEASE_RECORIDNG_FRAME plain_payload "[]",
      OF _ an_api_idle(1) _ _ an_api_idle(2)]
  by (auto simp: an_api_def new_thread_spec_def no_reply_case_def a_thread_def)

end
