(* ===== verification/LocHeap.thy ===== *)
theory LocHeap
  imports Prelude
begin

text \<open>
  \<open>gps/utils/LocHeap.cpp\<close>: a binary heap of client objects, ordered from parent to child
  only. Nodes are owned by their parent's pointer and never shared, so a tree is a value.
  The objects are elements of \<open>'a\<close>, compared by identity, and ranked by the virtual method
  \<open>ranks\<close>, an argument of the operations. The locale \<open>ranking\<close> states what the heap needs
  of it.
\<close>

section \<open>The tree\<close>

datatype 'a loc_heap =
    Null
  | LocHeapNode (mSize: int32) (mLeft: "'a loc_heap") (mData: 'a) (mRight: "'a loc_heap")

definition outRanks :: "('a \<Rightarrow> 'a \<Rightarrow> int32) \<Rightarrow> 'a \<Rightarrow> 'a \<Rightarrow> bool" where
  "outRanks ranks x y \<longleftrightarrow> 0 <s ranks x y"

definition new_heap_node :: "'a \<Rightarrow> 'a loc_heap" where
  "new_heap_node data = LocHeapNode 1 Null data Null"

text \<open>
  \<open>LocHeapNode::push\<close>: the incoming node keeps no links, so it is given by its data; the
  higher ranking data stay here, the other go to the smaller subtree.
\<close>

fun node_push :: "('a \<Rightarrow> 'a \<Rightarrow> int32) \<Rightarrow> 'a \<Rightarrow> 'a loc_heap \<Rightarrow> 'a loc_heap" where
  "node_push ranks x Null = new_heap_node x"
| "node_push ranks x (LocHeapNode n l d r) =
    (let here = (if outRanks ranks x d then x else d);
         down = (if outRanks ranks x d then d else x)
     in if l = Null then LocHeapNode (n + 1) (new_heap_node down) here r
        else if r = Null then LocHeapNode (n + 1) l here (new_heap_node down)
        else if mSize l \<le>s mSize r then LocHeapNode (n + 1) (node_push ranks down l) here r
        else LocHeapNode (n + 1) l here (node_push ranks down r))"

text \<open>
  \<open>LocHeapNode::pop\<close>: the data of the top are swapped down, along the higher ranking
  children, to a leaf, which is unlinked and returned. \<open>swap_in\<close> is the swap as the
  subtree sees it.
\<close>

fun swap_in :: "'a \<Rightarrow> 'a loc_heap \<Rightarrow> 'a loc_heap" where
  "swap_in x Null = Null"
| "swap_in x (LocHeapNode n l d r) = LocHeapNode n l x r"

lemma size_swap_in [simp]: "size (swap_in x t) = size t"
  by (cases t) auto

function node_pop :: "('a \<Rightarrow> 'a \<Rightarrow> int32) \<Rightarrow> 'a loc_heap \<Rightarrow> 'a option \<times> 'a loc_heap" where
  "node_pop ranks Null = (None, Null)"
| "node_pop ranks (LocHeapNode n l d r) =
    (if l = Null \<and> r = Null then (Some d, Null)
     else if l = Null \<or> r \<noteq> Null \<and> \<not> outRanks ranks (mData l) (mData r) then
       (let (popped, r') = node_pop ranks (swap_in d r)
        in (popped, LocHeapNode (n - 1) l (mData r) r'))
     else
       (let (popped, l') = node_pop ranks (swap_in d l)
        in (popped, LocHeapNode (n - 1) l' (mData l) r)))"
  by pat_completeness auto
termination
  by (relation "measure (\<lambda>(ranks, t). size t)") auto

text \<open>\<open>LocHeapNode::remove\<close>: a search by identity, cut off where the data rank higher.\<close>

fun node_remove :: "('a \<Rightarrow> 'a \<Rightarrow> int32) \<Rightarrow> 'a \<Rightarrow> 'a loc_heap \<Rightarrow> 'a option \<times> 'a loc_heap" where
  "node_remove ranks x Null = (None, Null)"
| "node_remove ranks x (LocHeapNode n l d r) =
    (if x = d then node_pop ranks (LocHeapNode n l d r)
     else if \<not> outRanks ranks x d then
       (let (removed, l') = (if l \<noteq> Null then node_remove ranks x l else (None, l));
            (removed, r') = (if removed = None \<and> r \<noteq> Null then node_remove ranks x r
                             else (removed, r))
        in (removed, LocHeapNode (if removed \<noteq> None then n - 1 else n) l' d r'))
     else (None, LocHeapNode n l d r))"

fun checkNodes :: "('a \<Rightarrow> 'a \<Rightarrow> int32) \<Rightarrow> 'a loc_heap \<Rightarrow> bool" where
  "checkNodes ranks Null = True"
| "checkNodes ranks (LocHeapNode n l d r) =
    (if l \<noteq> Null \<and> (outRanks ranks (mData l) d \<or> \<not> checkNodes ranks l) then False
     else if r \<noteq> Null \<and> (outRanks ranks (mData r) d \<or> \<not> checkNodes ranks r) then False
     else n - (if l \<noteq> Null then mSize l else 0) - (if r \<noteq> Null then mSize r else 0) = 1)"

section \<open>The heap\<close>

definition heap_push :: "('a \<Rightarrow> 'a \<Rightarrow> int32) \<Rightarrow> 'a \<Rightarrow> 'a loc_heap \<Rightarrow> 'a loc_heap" where
  "heap_push ranks x t = (if t = Null then new_heap_node x else node_push ranks x t)"

definition heap_peek :: "'a loc_heap \<Rightarrow> 'a option" where
  "heap_peek t = (case t of Null \<Rightarrow> None | LocHeapNode n l d r \<Rightarrow> Some d)"

definition heap_pop :: "('a \<Rightarrow> 'a \<Rightarrow> int32) \<Rightarrow> 'a loc_heap \<Rightarrow> 'a option \<times> 'a loc_heap" where
  "heap_pop ranks t = (if t \<noteq> Null then node_pop ranks t else (None, t))"

definition heap_remove ::
  "('a \<Rightarrow> 'a \<Rightarrow> int32) \<Rightarrow> 'a \<Rightarrow> 'a loc_heap \<Rightarrow> 'a option \<times> 'a loc_heap" where
  "heap_remove ranks x t = (if t \<noteq> Null then node_remove ranks x t else (None, t))"

definition checkTree :: "('a \<Rightarrow> 'a \<Rightarrow> int32) \<Rightarrow> 'a loc_heap \<Rightarrow> bool" where
  "checkTree ranks t \<longleftrightarrow> t = Null \<or> checkNodes ranks t"

definition getTreeSize :: "'a loc_heap \<Rightarrow> uint32" where
  "getTreeSize t = (if t = Null then 0 else mSize t)"

section \<open>Elements, sizes, order\<close>

fun elements :: "'a loc_heap \<Rightarrow> 'a multiset" where
  "elements Null = {#}"
| "elements (LocHeapNode n l d r) = elements l + elements r + {#d#}"

text \<open>Every \<open>mSize\<close> is the number of nodes of its subtree, the node included.\<close>

fun sizes_ok :: "'a loc_heap \<Rightarrow> bool" where
  "sizes_ok Null = True"
| "sizes_ok (LocHeapNode n l d r) =
    (sizes_ok l \<and> sizes_ok r \<and> n = of_nat (Suc (size (elements l) + size (elements r))))"

fun ordered :: "('a \<Rightarrow> 'a \<Rightarrow> int32) \<Rightarrow> 'a loc_heap \<Rightarrow> bool" where
  "ordered ranks Null = True"
| "ordered ranks (LocHeapNode n l d r) =
    (ordered ranks l \<and> ordered ranks r
     \<and> (\<forall>x \<in># elements l + elements r. \<not> outRanks ranks x d))"

lemma elements_Null [simp]: "elements t = {#} \<longleftrightarrow> t = Null"
  by (cases t) auto

lemma mData_in: "t \<noteq> Null \<Longrightarrow> mData t \<in># elements t"
  by (cases t) auto

lemma elements_new [simp]: "elements (new_heap_node x) = {#x#}"
  by (simp add: new_heap_node_def)

lemma elements_swap_in:
  "t \<noteq> Null \<Longrightarrow> elements (swap_in x t) = add_mset x (elements t - {#mData t#})"
  by (cases t) auto

lemma sizes_mSize: "sizes_ok t \<Longrightarrow> t \<noteq> Null \<Longrightarrow> mSize t = of_nat (size (elements t))"
  by (cases t) auto

lemma sizes_swap_in: "sizes_ok (swap_in x t) = sizes_ok t"
  by (cases t) auto

text \<open>What each operation does to the elements and the sizes, whatever the ranking.\<close>

lemma node_push_elements [simp]: "elements (node_push ranks x t) = add_mset x (elements t)"
  by (induction ranks x t rule: node_push.induct) (auto simp: Let_def)

lemma node_push_sizes: "sizes_ok t \<Longrightarrow> sizes_ok (node_push ranks x t)"
  by (induction ranks x t rule: node_push.induct) (auto simp: Let_def new_heap_node_def)

lemma node_pop_elements:
  assumes "node_pop ranks t = (res, t')" and "t \<noteq> Null"
  shows "res = Some (mData t)" and "elements t = add_mset (mData t) (elements t')"
proof -
  have "res = Some (mData t) \<and> elements t = add_mset (mData t) (elements t')"
    using assms
  proof (induction ranks t arbitrary: res t' rule: node_pop.induct)
    case (1 ranks)
    then show ?case
      by simp
  next
    case (2 ranks n l d r)
    have swap: "swap_in d t \<noteq> Null" "mData (swap_in d t) = d"
      "elements (swap_in d t) + {#mData t#} = elements t + {#d#}" if "t \<noteq> Null" for t
      using that by (cases t; simp)+
    show ?case
    proof (cases "l = Null \<and> r = Null")
      case True
      then show ?thesis
        using 2(3) by auto
    next
      case False
      note some = False
      show ?thesis
      proof (cases "l = Null \<or> r \<noteq> Null \<and> \<not> outRanks ranks (mData l) (mData r)")
        case True
        then have r: "r \<noteq> Null"
          using some by auto
        obtain p r' where p: "node_pop ranks (swap_in d r) = (p, r')"
          by fastforce
        have "p = Some d" "elements (swap_in d r) = add_mset d (elements r')"
          using 2(1) [OF some True p swap(1) [OF r]] swap(2) [OF r] by simp_all
        then show ?thesis
          using 2(3) some True p swap(3) [OF r] by auto
      next
        case False
        then have l: "l \<noteq> Null"
          by auto
        obtain p l' where p: "node_pop ranks (swap_in d l) = (p, l')"
          by fastforce
        have "p = Some d" "elements (swap_in d l) = add_mset d (elements l')"
          using 2(2) [OF some False p swap(1) [OF l]] swap(2) [OF l] by simp_all
        then show ?thesis
          using 2(3) some False p swap(3) [OF l] by auto
      qed
    qed
  qed
  then show "res = Some (mData t)" and "elements t = add_mset (mData t) (elements t')"
    by auto
qed

lemma node_pop_size:
  "node_pop ranks t = (res, t') \<Longrightarrow> t \<noteq> Null \<Longrightarrow> size (elements t) = Suc (size (elements t'))"
  using node_pop_elements(2) [of ranks t res t'] by (metis size_add_mset)

lemma size_elements_swap_in: "size (elements (swap_in x t)) = size (elements t)"
  by (cases t) auto

lemma swap_in_Null [simp]: "swap_in x t = Null \<longleftrightarrow> t = Null"
  by (cases t) auto

lemma mData_swap_in [simp]: "t \<noteq> Null \<Longrightarrow> mData (swap_in x t) = x"
  by (cases t) auto

lemma node_pop_sizes:
  "node_pop ranks t = (res, t') \<Longrightarrow> sizes_ok t \<Longrightarrow> sizes_ok t'"
proof (induction ranks t arbitrary: res t' rule: node_pop.induct)
  case (1 ranks)
  then show ?case
    by simp
next
  case (2 ranks n l d r)
  have shrink: "size (elements u) = Suc (size (elements u'))"
    if "node_pop ranks (swap_in d u) = (q, u')" "u \<noteq> Null" for q u u'
    using node_pop_size [OF that(1)] that(2) by (simp add: size_elements_swap_in)
  show ?case
    using 2 by (auto simp: sizes_swap_in shrink split: if_splits prod.splits)
qed

lemma node_remove_effect:
  assumes "node_remove ranks x t = (res, t')"
  shows "case res of None \<Rightarrow> t' = t
    | Some y \<Rightarrow> y = x \<and> elements t = add_mset x (elements t') \<and> (sizes_ok t \<longrightarrow> sizes_ok t')"
  using assms
proof (induction ranks x t arbitrary: res t' rule: node_remove.induct)
  case (1 ranks x)
  then show ?case
    by auto
next
  case (2 ranks x n l d r)
  show ?case
  proof (cases "x = d")
    case True
    then have pop: "node_pop ranks (LocHeapNode n l d r) = (res, t')"
      using "2.prems" by simp
    show ?thesis
      using node_pop_elements [OF pop] node_pop_sizes [OF pop] True by auto
  next
    case False
    note not_here = False
    show ?thesis
    proof (cases "outRanks ranks x d")
      case True
      then show ?thesis
        using "2.prems" not_here by auto
    next
      case False
      obtain res1 l' where left: "(if l \<noteq> Null then node_remove ranks x l else (None, l)) =
          (res1, l')"
        by fastforce
      obtain res2 r' where right: "(if res1 = None \<and> r \<noteq> Null then node_remove ranks x r
          else (res1, r)) = (res2, r')"
        by fastforce
      have res: "res = res2" "t' = LocHeapNode (if res2 \<noteq> None then n - 1 else n) l' d r'"
        using "2.prems" not_here False left right by (auto simp: Let_def)
      have l: "case res1 of None \<Rightarrow> l' = l | Some y \<Rightarrow> y = x \<and>
          elements l = add_mset x (elements l') \<and> (sizes_ok l \<longrightarrow> sizes_ok l')"
        using "2.IH"(1) [OF not_here False] left by (auto split: if_splits)
      have r: "case res2 of None \<Rightarrow> res1 = None \<and> r' = r
        | Some y \<Rightarrow> if res1 = None then y = x \<and>
            elements r = add_mset x (elements r') \<and> (sizes_ok r \<longrightarrow> sizes_ok r')
          else res1 = Some y \<and> r' = r"
        using "2.IH"(2) [OF not_here False left [symmetric] refl] right
        by (auto split: if_splits option.splits)
      show ?thesis
        using l r by (auto simp: res split: option.splits if_splits)
    qed
  qed
qed

section \<open>Operations in sequence\<close>

datatype 'a heap_op = Push 'a | Pop | Remove 'a

fun heap_step :: "('a \<Rightarrow> 'a \<Rightarrow> int32) \<Rightarrow> 'a heap_op \<Rightarrow> 'a loc_heap \<Rightarrow> 'a loc_heap" where
  "heap_step ranks (Push x) t = heap_push ranks x t"
| "heap_step ranks Pop t = snd (heap_pop ranks t)"
| "heap_step ranks (Remove x) t = snd (heap_remove ranks x t)"

fun heap_op_valid :: "('a \<Rightarrow> bool) \<Rightarrow> 'a heap_op \<Rightarrow> bool" where
  "heap_op_valid valid (Push x) = valid x"
| "heap_op_valid valid _ = True"

text \<open>What \<open>n\<close> pops return.\<close>

fun drain :: "('a \<Rightarrow> 'a \<Rightarrow> int32) \<Rightarrow> nat \<Rightarrow> 'a loc_heap \<Rightarrow> 'a list" where
  "drain ranks 0 t = []"
| "drain ranks (Suc n) t =
    (case heap_pop ranks t of
       (None, t') \<Rightarrow> []
     | (Some x, t') \<Rightarrow> x # drain ranks n t')"

section \<open>The order\<close>

text \<open>
  What the heap needs of \<open>ranks\<close>, on the objects in use: to outrank is asymmetric, and not
  to outrank is transitive. Then the top of an ordered tree is not outranked by any element.
\<close>

definition all_valid :: "('a \<Rightarrow> bool) \<Rightarrow> 'a loc_heap \<Rightarrow> bool" where
  "all_valid valid t \<longleftrightarrow> (\<forall>x \<in># elements t. valid x)"

definition heap_inv :: "('a \<Rightarrow> 'a \<Rightarrow> int32) \<Rightarrow> ('a \<Rightarrow> bool) \<Rightarrow> 'a loc_heap \<Rightarrow> bool" where
  "heap_inv ranks valid t \<longleftrightarrow> sizes_ok t \<and> ordered ranks t \<and> all_valid valid t"

locale ranking =
  fixes ranks :: "'a \<Rightarrow> 'a \<Rightarrow> int32" and valid :: "'a \<Rightarrow> bool"
  assumes asym: "valid x \<Longrightarrow> valid y \<Longrightarrow> outRanks ranks x y \<Longrightarrow> \<not> outRanks ranks y x"
    and negtrans: "valid x \<Longrightarrow> valid y \<Longrightarrow> valid z \<Longrightarrow> \<not> outRanks ranks x y \<Longrightarrow>
      \<not> outRanks ranks y z \<Longrightarrow> \<not> outRanks ranks x z"
begin

lemma irrefl: "valid x \<Longrightarrow> \<not> outRanks ranks x x"
  using asym by blast

lemma ordered_push:
  "ordered ranks t \<Longrightarrow> all_valid valid t \<Longrightarrow> valid x \<Longrightarrow> ordered ranks (node_push ranks x t)"
proof (induction t arbitrary: x)
  case Null
  then show ?case
    by (simp add: new_heap_node_def)
next
  case (LocHeapNode n l d r)
  define here where "here = (if outRanks ranks x d then x else d)"
  define down where "down = (if outRanks ranks x d then d else x)"
  have valid: "valid d" "valid here" "valid down" "\<forall>e \<in># elements l + elements r. valid e"
    using LocHeapNode.prems by (auto simp: all_valid_def here_def down_def)
  have down: "\<not> outRanks ranks down here"
    using asym valid LocHeapNode.prems(3) by (auto simp: here_def down_def)
  have "\<not> outRanks ranks d here"
    using down irrefl [OF valid(1)] by (auto simp: here_def down_def)
  then have subtrees: "\<forall>e \<in># elements l + elements r. \<not> outRanks ranks e here"
    using LocHeapNode.prems(1) valid negtrans [of _ d here] by auto
  have "ordered ranks (node_push ranks down l)" "ordered ranks (node_push ranks down r)"
    using LocHeapNode valid(3) by (auto simp: all_valid_def)
  moreover have "node_push ranks x (LocHeapNode n l d r) =
     (if l = Null then LocHeapNode (n + 1) (new_heap_node down) here r
      else if r = Null then LocHeapNode (n + 1) l here (new_heap_node down)
      else if mSize l \<le>s mSize r then LocHeapNode (n + 1) (node_push ranks down l) here r
      else LocHeapNode (n + 1) l here (node_push ranks down r))"
    by (simp only: node_push.simps here_def down_def Let_def)
  ultimately show ?case
    using subtrees down LocHeapNode.prems(1) by (auto simp: new_heap_node_def)
qed

lemma ordered_swap_in:
  assumes "ordered ranks t" and "all_valid valid t" and "valid x"
    and "\<forall>e \<in># elements t. \<not> outRanks ranks e x"
  shows "ordered ranks (swap_in x t)"
  using assms by (cases t) auto

lemma ordered_top:
  assumes "ordered ranks t" and "all_valid valid t"
  shows "\<forall>e \<in># elements t. \<not> outRanks ranks e (mData t)"
  using assms irrefl by (cases t) (auto simp: all_valid_def)

lemma ordered_pop:
  "node_pop ranks t = (res, t') \<Longrightarrow> ordered ranks t \<Longrightarrow> all_valid valid t \<Longrightarrow> ordered ranks t'"
proof (induction "size t" arbitrary: t res t' rule: less_induct)
  case less
  show ?case
  proof (cases t)
    case Null
    then show ?thesis
      using less.prems by simp
  next
    case (LocHeapNode n l d r)
    have sub: "ordered ranks u'" "elements u = add_mset (mData u) (elements u')"
      if u: "node_pop ranks (swap_in d u) = (q, u')" "u \<noteq> Null" "u \<in> {l, r}" for u q u'
    proof -
      have "\<forall>e \<in># elements u. \<not> outRanks ranks e d" "ordered ranks u" "all_valid valid u"
        "valid d" "size (swap_in d u) < size t"
        using less.prems u(3) LocHeapNode by (auto simp: all_valid_def)
      moreover from this have "all_valid valid (swap_in d u)"
        using u(2) by (auto simp: all_valid_def elements_swap_in dest: in_diffD)
      ultimately show "ordered ranks u'"
        using less.hyps [OF _ u(1)] ordered_swap_in by blast
      have "elements (swap_in d u) = add_mset d (elements u')"
        using node_pop_elements(2) [OF u(1)] u(2) by simp
      then show "elements u = add_mset (mData u) (elements u')"
        using mData_in [OF u(2)] u(2)
        by (metis add_mset_remove_trivial elements_swap_in insert_DiffM)
    qed
    have tops: "\<forall>e \<in># elements u. \<not> outRanks ranks e (mData u)" if "u \<in> {l, r}" for u
      using that less.prems LocHeapNode by (intro ordered_top) (auto simp: all_valid_def)
    have valid: "valid e" if "e \<in># elements l + elements r" for e
      using that less.prems(3) LocHeapNode by (auto simp: all_valid_def)
    have pop: "node_pop ranks (LocHeapNode n l d r) = (res, t')"
      using less.prems(1) LocHeapNode by simp
    consider "l = Null" "r = Null"
      | (right) "r \<noteq> Null" "l = Null \<or> \<not> outRanks ranks (mData l) (mData r)"
      | (left) "l \<noteq> Null" "r = Null \<or> outRanks ranks (mData l) (mData r)"
      by blast
    then show ?thesis
    proof cases
      case 1
      then show ?thesis
        using pop by simp
    next
      case right
      obtain q r' where r': "node_pop ranks (swap_in d r) = (q, r')"
        by fastforce
      have "\<not> outRanks ranks e (mData r)" if "e \<in># elements l" for e
      proof -
        have "l \<noteq> Null"
          using that by auto
        then show ?thesis
          using that right tops [of l] negtrans [of e "mData l" "mData r"] valid mData_in
          by auto
      qed
      then show ?thesis
        using pop right r' sub [OF r' right(1)] tops [of r] less.prems(2) LocHeapNode by auto
    next
      case left
      obtain q l' where l': "node_pop ranks (swap_in d l) = (q, l')"
        by fastforce
      have "\<not> outRanks ranks e (mData l)" if "e \<in># elements r" for e
      proof -
        have "r \<noteq> Null"
          using that by auto
        moreover from this have "\<not> outRanks ranks (mData r) (mData l)"
          using left asym [of "mData l" "mData r"] valid mData_in by auto
        ultimately show ?thesis
          using that tops [of r] negtrans [of e "mData r" "mData l"] valid mData_in left(1)
          by auto
      qed
      then show ?thesis
        using pop left l' sub [OF l' left(1)] tops [of l] less.prems(2) LocHeapNode by auto
    qed
  qed
qed

text \<open>The search of \<open>remove\<close> is cut off only where the object cannot be.\<close>

lemma remove_finds:
  "ordered ranks t \<Longrightarrow> all_valid valid t \<Longrightarrow> x \<in># elements t \<Longrightarrow>
    fst (node_remove ranks x t) \<noteq> None"
proof (induction t)
  case Null
  then show ?case
    by simp
next
  case (LocHeapNode n l d r)
  show ?case
  proof (cases "x = d")
    case True
    then show ?thesis
      using node_pop_elements(1) [of ranks "LocHeapNode n l d r"]
      by (metis fst_conv loc_heap.distinct(1) node_remove.simps(2) option.distinct(1)
          surj_pair)
  next
    case False
    then have "\<not> outRanks ranks x d"
      using LocHeapNode.prems by auto
    then show ?thesis
      using False LocHeapNode node_remove_effect [of ranks x l]
      by (auto simp: Let_def all_valid_def split: prod.splits option.splits)
  qed
qed

lemma ordered_remove:
  "node_remove ranks x t = (res, t') \<Longrightarrow> ordered ranks t \<Longrightarrow> all_valid valid t \<Longrightarrow>
    ordered ranks t'"
proof (induction t arbitrary: res t')
  case Null
  then show ?case
    by simp
next
  case (LocHeapNode n l d r)
  obtain rl l' where l': "node_remove ranks x l = (rl, l')"
    by fastforce
  obtain rr r' where r': "node_remove ranks x r = (rr, r')"
    by fastforce
  have subs: "elements l' \<subseteq># elements l" "elements r' \<subseteq># elements r"
    using node_remove_effect [OF l'] node_remove_effect [OF r']
    by (auto split: option.splits)
  have "ordered ranks l'" "ordered ranks r'"
    using LocHeapNode l' r' by (auto simp: all_valid_def)
  moreover have "\<not> outRanks ranks e d" if "e \<in># elements l' + elements r'" for e
    using that subs LocHeapNode.prems(2) by (auto dest: mset_subset_eqD)
  moreover have "\<not> outRanks ranks e d" if "e \<in># elements l + elements r" for e
    using that LocHeapNode.prems(2) by auto
  ultimately show ?case
    using LocHeapNode.prems ordered_pop [of "LocHeapNode n l d r"] l' r'
    by (auto simp: Let_def split: if_splits)
qed

text \<open>\<open>checkNodes\<close> decides the invariant.\<close>

lemma checkNodes_iff:
  "all_valid valid t \<Longrightarrow> checkNodes ranks t \<longleftrightarrow> sizes_ok t \<and> ordered ranks t"
proof (induction t)
  case Null
  then show ?case
    by simp
next
  case (LocHeapNode n l d r)
  have valid: "all_valid valid l" "all_valid valid r" "valid d"
    using LocHeapNode.prems by (auto simp: all_valid_def)
  have top: "(u \<noteq> Null \<longrightarrow> \<not> outRanks ranks (mData u) d) \<longleftrightarrow>
      (\<forall>e \<in># elements u. \<not> outRanks ranks e d)" if "ordered ranks u" "all_valid valid u" for u
    using ordered_top [OF that] that(2) valid(3) negtrans [of _ "mData u" d] mData_in [of u]
    by (cases "u = Null") (simp, metis all_valid_def)
  have sz: "sizes_ok u \<Longrightarrow> (if u \<noteq> Null then mSize u else 0) = of_nat (size (elements u))" for u
    using sizes_mSize [of u] by auto
  have arith: "n - a - b = 1 \<longleftrightarrow> n = 1 + (a + b)" "n - a = 1 \<longleftrightarrow> n = 1 + a" for a b :: int32
    by (auto simp: algebra_simps)
  show ?case
    using LocHeapNode.IH(1) [OF valid(1)] LocHeapNode.IH(2) [OF valid(2)]
      top [OF _ valid(1)] top [OF _ valid(2)] sz [of l] sz [of r]
    by (auto simp: arith)
qed

text \<open>Runs of heap operations.\<close>

lemma push_inv:
  assumes "heap_inv ranks valid t" and "valid x"
  shows "heap_inv ranks valid (heap_push ranks x t)"
  using assms ordered_push [of t x] node_push_sizes [of t ranks x]
  by (auto simp: heap_inv_def heap_push_def all_valid_def new_heap_node_def)

lemma pop_inv:
  assumes "heap_inv ranks valid t" and "heap_pop ranks t = (res, t')"
  shows "heap_inv ranks valid t'"
proof (cases "t = Null")
  case False
  then have pop: "node_pop ranks t = (res, t')"
    using assms(2) by (simp add: heap_pop_def)
  show ?thesis
    using assms(1) ordered_pop [OF pop] node_pop_sizes [OF pop] node_pop_elements(2) [OF pop False]
    by (auto simp: heap_inv_def all_valid_def)
qed (use assms in \<open>auto simp: heap_pop_def\<close>)

lemma remove_inv:
  assumes "heap_inv ranks valid t" and "heap_remove ranks x t = (res, t')"
  shows "heap_inv ranks valid t'"
proof (cases "t = Null")
  case False
  then have rem: "node_remove ranks x t = (res, t')"
    using assms(2) by (simp add: heap_remove_def)
  show ?thesis
    using assms(1) ordered_remove [OF rem] node_remove_effect [OF rem]
    by (auto simp: heap_inv_def all_valid_def split: option.splits)
qed (use assms in \<open>auto simp: heap_remove_def\<close>)

lemma run_inv:
  assumes "heap_inv ranks valid t" and "list_all (heap_op_valid valid) ops"
  shows "heap_inv ranks valid (fold (heap_step ranks) ops t)"
  using assms
proof (induction ops arbitrary: t)
  case (Cons op ops)
  have "heap_inv ranks valid (heap_step ranks op t)"
  proof (cases op)
    case (Push x)
    then show ?thesis
      using Cons.prems push_inv by simp
  next
    case Pop
    then show ?thesis
      using Cons.prems(1) pop_inv [of t "fst (heap_pop ranks t)"] by simp
  next
    case (Remove x)
    then show ?thesis
      using Cons.prems(1) remove_inv [of t x "fst (heap_remove ranks x t)"] by simp
  qed
  then show ?case
    using Cons by simp
qed simp

lemma inv_checkTree: "heap_inv ranks valid t \<Longrightarrow> checkTree ranks t"
  using checkNodes_iff by (auto simp: heap_inv_def checkTree_def)

lemma peek_best:
  assumes "heap_inv ranks valid t" and "heap_peek t = Some d"
  shows "d \<in># elements t \<and> (\<forall>e \<in># elements t. \<not> outRanks ranks e d)"
  using assms ordered_top [of t] mData_in [of t]
  by (cases t) (auto simp: heap_inv_def heap_peek_def)

lemma remove_spec:
  assumes "heap_inv ranks valid t" and "heap_remove ranks x t = (res, t')"
  shows "if x \<in># elements t then res = Some x \<and> elements t = add_mset x (elements t')
    else res = None \<and> t' = t"
proof (cases "t = Null")
  case False
  then have rem: "node_remove ranks x t = (res, t')"
    using assms(2) by (simp add: heap_remove_def)
  show ?thesis
    using node_remove_effect [OF rem] remove_finds [of t x] assms(1) rem
    by (auto simp: heap_inv_def split: option.splits)
qed (use assms in \<open>auto simp: heap_remove_def\<close>)

lemma drain_sorted:
  assumes "heap_inv ranks valid t" and "size (elements t) = n"
  shows "mset (drain ranks n t) = elements t
    \<and> sorted_wrt (\<lambda>x y. \<not> outRanks ranks y x) (drain ranks n t)"
  using assms
proof (induction n arbitrary: t)
  case 0
  then show ?case
    by simp
next
  case (Suc n)
  then have "t \<noteq> Null"
    by auto
  obtain res t' where pop: "heap_pop ranks t = (res, t')"
    by fastforce
  then have npop: "node_pop ranks t = (res, t')"
    using \<open>t \<noteq> Null\<close> by (simp add: heap_pop_def)
  have res: "res = Some (mData t)" and elems: "elements t = add_mset (mData t) (elements t')"
    using node_pop_elements [OF npop \<open>t \<noteq> Null\<close>] by blast+
  have "mset (drain ranks n t') = elements t'
    \<and> sorted_wrt (\<lambda>x y. \<not> outRanks ranks y x) (drain ranks n t')"
    using Suc.IH [OF pop_inv [OF Suc.prems(1) pop]] Suc.prems(2) elems by simp
  moreover have "\<forall>e \<in># elements t'. \<not> outRanks ranks e (mData t)"
    using ordered_top [of t] Suc.prems(1) elems by (auto simp: heap_inv_def)
  ultimately show ?case
    using pop res elems by (auto simp flip: set_mset_mset)
qed

end

section \<open>Balance\<close>

text \<open>
  Pushes alone keep every left subtree as large as the right one or larger by one, so the
  depth of the recursion grows with the logarithm of the number of elements.
\<close>

fun balanced :: "'a loc_heap \<Rightarrow> bool" where
  "balanced Null = True"
| "balanced (LocHeapNode n l d r) =
    (balanced l \<and> balanced r \<and> size (elements r) \<le> size (elements l)
     \<and> size (elements l) \<le> Suc (size (elements r)))"

fun height :: "'a loc_heap \<Rightarrow> nat" where
  "height Null = 0"
| "height (LocHeapNode n l d r) = Suc (max (height l) (height r))"

lemma node_push_balanced:
  assumes "balanced t" and "sizes_ok t" and "size (elements t) < 2 ^ 31"
  shows "balanced (node_push ranks x t)"
  using assms
proof (induction ranks x t rule: node_push.induct)
  case (1 ranks x)
  then show ?case
    by (simp add: new_heap_node_def)
next
  case (2 ranks x n l d r)
  have small: "size (elements l) < 2 ^ 31" "size (elements r) < 2 ^ 31"
    using 2(5) by auto
  have compare: "mSize l \<le>s mSize r \<longleftrightarrow> size (elements l) \<le> size (elements r)"
    if "l \<noteq> Null" "r \<noteq> Null"
    using that 2(4) sizes_mSize [of l] sizes_mSize [of r] small
    by (simp add: word_sle_eq signed_of_nat signed_take_bit_int_eq_self)
  show ?case
    using 2 compare by (auto simp: Let_def new_heap_node_def)
qed

lemma balanced_height:
  "balanced t \<Longrightarrow> t \<noteq> Null \<Longrightarrow> 2 ^ (height t - 1) \<le> size (elements t)"
proof (induction t)
  case (LocHeapNode n l d r)
  have sub: "2 ^ height u \<le> max 1 (2 * size (elements u))" if "u \<in> {l, r}" for u
  proof (cases "u = Null")
    case False
    then have "2 ^ (height u - 1) \<le> size (elements u)"
      using that LocHeapNode.IH LocHeapNode.prems by auto
    moreover have "height u = Suc (height u - 1)"
      using False by (cases u) auto
    ultimately have "2 ^ height u \<le> 2 * size (elements u)"
      by (metis mult_le_mono2 power_Suc)
    then show ?thesis
      by simp
  qed simp
  show ?case
    using sub [of l] sub [of r] LocHeapNode.prems by (auto simp: max_def split: if_splits)
qed simp

section \<open>Properties\<close>

text \<open>
  Pushing keeps the tree balanced: after any number of pushes (below \<open>2 ^ 31\<close>) into an
  empty heap, the tree of \<open>n\<close> elements has a height \<open>h\<close> with \<open>2 ^ (h - 1) \<le> n\<close>, whatever
  the ranking does, so a push descends a logarithmic number of nodes.
\<close>

theorem pushes_stay_balanced:
  assumes "xs \<noteq> []" and "length xs < 2 ^ 31"
  shows "2 ^ (height (fold (heap_push ranks) xs Null) - 1) \<le> length xs
    \<and> getTreeSize (fold (heap_push ranks) xs Null) = of_nat (length xs)"
proof -
  let ?t = "fold (heap_push ranks) xs Null"
  have inv: "balanced ?t \<and> sizes_ok ?t \<and> elements ?t = mset xs"
    using assms(2)
  proof (induction xs rule: rev_induct)
    case (snoc x xs)
    obtain u where u: "fold (heap_push ranks) xs Null = u"
      by blast
    then have IH: "balanced u" "sizes_ok u" "elements u = mset xs"
      using snoc by auto
    then have "balanced (node_push ranks x u)"
      using snoc.prems by (intro node_push_balanced) auto
    then have "balanced (heap_push ranks x u) \<and> sizes_ok (heap_push ranks x u)
        \<and> elements (heap_push ranks x u) = mset (xs @ [x])"
      using IH node_push_sizes [of u ranks x]
      by (auto simp: heap_push_def new_heap_node_def)
    then show ?case
      by (simp only: fold_append fold.simps o_def id_def u)
  qed simp
  then have "size (elements ?t) = length xs" and "?t \<noteq> Null"
    using assms(1) by auto
  then show ?thesis
    using inv balanced_height [of ?t] sizes_mSize [of ?t] by (auto simp: getTreeSize_def)
qed

theorem pushes_stay_balanced_witness:
  "2 ^ (height (fold (heap_push (\<lambda>x y. y - x)) [3, 1, 2, 5, 4, 7] Null) - 1) \<le> (6 :: nat)"
  using pushes_stay_balanced [of "[3, 1, 2, 5, 4, 7]" "\<lambda>x y. y - x"] by simp

end
