(* ===== verification/LocTimer.thy ===== *)
theory LocTimer
  imports LocHeap
begin

text \<open>
  \<open>gps/utils/LocTimer.cpp\<close> (on \<open>LocHeap.cpp\<close>): timers in two containers, one per clock,
  the kernel timer of each armed for its soonest timer. Client threads start and stop
  timers, the message thread keeps the heaps and calls the clients back, the poll thread
  turns an expiry of a kernel timer into a message. \<open>timer_step\<close> interleaves the three.
  Widths are those of the 64-bit build (\<open>time_t\<close> and \<open>long\<close> of 64 bits, \<open>int\<close> of 32).
\<close>

section \<open>Times and ranks\<close>

type_synonym int64 = "64 word"

record timespec =
  tv_sec :: int64
  tv_nsec :: int64

text \<open>
  A node of the heap: a \<open>LocTimerDelegate\<close> as the heap sees it, its address and the time
  its constructor stored.
\<close>

record timer =
  timer_ptr :: addr
  mFutureTime :: timespec

definition timer_ranks :: "timer \<Rightarrow> timer \<Rightarrow> int32" where
  "timer_ranks this timer =
    (let rank = ucast (tv_sec (mFutureTime timer) - tv_sec (mFutureTime this))
     in if rank = 0
        then ucast (tv_nsec (mFutureTime timer) - tv_nsec (mFutureTime this))
        else rank)"

text \<open>The time arithmetic of \<open>LocTimer::start\<close>.\<close>

definition normalise :: "timespec \<Rightarrow> timespec" where
  "normalise t =
    (if 1000000000 \<le>s tv_nsec t
     then t\<lparr>tv_sec := tv_sec t + word_of_int (sint (tv_nsec t) sdiv 1000000000),
            tv_nsec := word_of_int (sint (tv_nsec t) smod 1000000000)\<rparr>
     else t)"

definition future_time :: "timespec \<Rightarrow> uint32 \<Rightarrow> timespec" where
  "future_time now timeOutInMs = normalise
     (now\<lparr>tv_sec := tv_sec now + ucast (timeOutInMs div 1000),
          tv_nsec := tv_nsec now + ucast ((timeOutInMs mod 1000) * 1000000)\<rparr>)"

text \<open>
  Times of a running clock: normalised, and for \<open>valid_time\<close> positive and within 31 bits of
  seconds, so that the truncated difference of \<open>timer_ranks\<close> has the right sign.
\<close>

definition normalised :: "timespec \<Rightarrow> bool" where
  "normalised t \<longleftrightarrow> unat (tv_nsec t) < 1000000000"

definition nanos :: "timespec \<Rightarrow> nat" where
  "nanos t = unat (tv_sec t) * 1000000000 + unat (tv_nsec t)"

definition valid_time :: "timespec \<Rightarrow> bool" where
  "valid_time t \<longleftrightarrow> normalised t \<and> unat (tv_sec t) < 2 ^ 31 \<and> 0 < nanos t"

definition valid_timer :: "timer \<Rightarrow> bool" where
  "valid_timer x \<longleftrightarrow> valid_time (mFutureTime x)"

lemma ucast_of_int: "(ucast (of_int k :: int64) :: int32) = of_int k"
  by transfer (simp add: take_bit_take_bit min_def)

lemma signed_difference:
  "p < 2 ^ 31 \<Longrightarrow> q < 2 ^ 31 \<Longrightarrow>
    signed_take_bit 31 (int p - int q) = int p - int q"
  by (intro signed_take_bit_int_eq_self) simp_all

lemma truncated_difference:
  fixes a b :: int64
  assumes "unat a < 2 ^ 31" and "unat b < 2 ^ 31"
  shows "sint (ucast (a - b) :: int32) = int (unat a) - int (unat b)"
proof -
  have "(ucast (a - b) :: int32) = word_of_int (int (unat a) - int (unat b))"
    using ucast_of_int [of "int (unat a) - int (unat b)"] by simp
  then show ?thesis
    using signed_difference [OF assms]
    by (simp add: signed_of_int del: of_int_diff of_int_of_nat_eq of_nat_unat)
qed

lemma zero_sint_iff: "w = 0 \<longleftrightarrow> sint w = 0"
  using signed_eq_0_iff by auto

lemma timer_ranks_sign:
  assumes "valid_timer x" and "valid_timer y"
  shows "outRanks timer_ranks x y \<longleftrightarrow> nanos (mFutureTime x) < nanos (mFutureTime y)"
proof -
  obtain sx nx where x: "mFutureTime x = \<lparr>tv_sec = sx, tv_nsec = nx\<rparr>"
    by (cases "mFutureTime x")
  obtain sy ny where y: "mFutureTime y = \<lparr>tv_sec = sy, tv_nsec = ny\<rparr>"
    by (cases "mFutureTime y")
  have bounds: "unat sx < 2 ^ 31" "unat sy < 2 ^ 31" "unat nx < 1000000000"
    "unat ny < 1000000000"
    using assms by (simp_all add: valid_timer_def valid_time_def normalised_def x y)
  have sec: "sint (ucast (sy - sx) :: int32) = int (unat sy) - int (unat sx)"
    and nsec: "sint (ucast (ny - nx) :: int32) = int (unat ny) - int (unat nx)"
    using bounds by (auto intro!: truncated_difference simp del: of_nat_unat)
  have "outRanks timer_ranks x y \<longleftrightarrow>
     (if unat sy = unat sx then unat nx < unat ny else unat sx < unat sy)"
    using sec nsec zero_sint_iff [of "ucast (sy - sx) :: int32"]
    by (auto simp: outRanks_def timer_ranks_def word_sless_alt Let_def x y simp del: of_nat_unat)
  then show ?thesis
    using bounds by (auto simp: nanos_def x y)
qed

interpretation timers: ranking timer_ranks valid_timer
  by unfold_locales (auto simp: timer_ranks_sign)

section \<open>The state\<close>

text \<open>
  One container: its heap, the kernel timer behind \<open>mDevFd\<close> (the absolute time it is armed
  for) and whether the descriptor is in the epoll set. \<open>created\<close> is false while the static
  pointer to the container is still \<open>NULL\<close>.
\<close>

record container =
  created :: bool
  mTree :: "timer loc_heap"
  timerfd :: "timespec option"
  polled :: bool

record LocTimerDelegate =
  mClient :: "addr option"
  dFutureTime :: timespec
  mContainer :: "bool option"

text \<open>The pointer \<open>mTimer\<close> of a client object, with the node it points to.\<close>

record LocTimer =
  mTimer :: "timer option"

datatype loc_msg =
    MsgTimerPush bool timer
  | MsgTimerRemove bool timer
  | MsgTimerExpire bool

text \<open>
  Where the message thread is in \<open>MsgTimerExpire::proc\<close>: about to handle what the last pop
  returned, to call \<open>stop\<close> or the callback of a client it has read from a delegate, or to
  pop again.
\<close>

datatype msg_pc =
    Idle
  | Popped bool timespec "timer option"
  | Stopping bool timespec addr
  | Calling bool timespec addr
  | PopNext bool timespec

text \<open>What the poll thread has left to do of \<open>LocTimerContainer::expire\<close>.\<close>

datatype poll_action = Disarm bool | RemovePoll bool | SendExpire bool

datatype timer_obs = Started addr | Stopped addr | TimedOut addr

text \<open>
  The containers are numbered by \<open>wakeOnExpire\<close>. \<open>delegates\<close> and \<open>clients\<close> are the live
  objects by address; \<open>history\<close> only records what the clients saw.
\<close>

record timer_state =
  containers :: "bool \<Rightarrow> container"
  msgq :: "loc_msg list"
  delegates :: "addr \<Rightarrow> LocTimerDelegate option"
  clients :: "addr \<Rightarrow> LocTimer option"
  pc :: msg_pc
  poll_todo :: "poll_action list"
  history :: "timer_obs list"

definition init_container :: container where
  "init_container = \<lparr>created = False, mTree = Null, timerfd = None, polled = False\<rparr>"

definition init_timers :: timer_state where
  "init_timers = \<lparr>containers = (\<lambda>w. init_container), msgq = [], delegates = (\<lambda>d. None),
     clients = (\<lambda>c. None), pc = Idle, poll_todo = [], history = []\<rparr>"

datatype timer_error = DelegateFreed | ClientFreed

section \<open>Containers\<close>

definition timerfd_settime :: "timespec \<Rightarrow> container \<Rightarrow> container" where
  "timerfd_settime t c =
    c\<lparr>timerfd := (if tv_sec t = 0 \<and> tv_nsec t = 0 then None else Some t)\<rparr>"

definition addPoll :: "container \<Rightarrow> container" where
  "addPoll c = c\<lparr>polled := True\<rparr>"

definition removePoll :: "container \<Rightarrow> container" where
  "removePoll c = c\<lparr>polled := False\<rparr>"

definition getSoonestTimer :: "container \<Rightarrow> timer option" where
  "getSoonestTimer c = heap_peek (mTree c)"

definition updateSoonestTime :: "timer option \<Rightarrow> container \<Rightarrow> container" where
  "updateSoonestTime priorTop c =
    (let curTop = getSoonestTimer c
     in if curTop \<noteq> priorTop then
          (case curTop of
             None \<Rightarrow> timerfd_settime \<lparr>tv_sec = 0, tv_nsec = 0\<rparr> (removePoll c)
           | Some t \<Rightarrow>
               if (case priorTop of None \<Rightarrow> True | Some prior \<Rightarrow> outRanks timer_ranks t prior)
               then timerfd_settime (mFutureTime t) (addPoll c)
               else c)
        else c)"

text \<open>The heap parts of the messages' \<open>proc\<close> methods.\<close>

definition push_timer :: "timer \<Rightarrow> container \<Rightarrow> container" where
  "push_timer t c =
    (let priorTop = getSoonestTimer c
     in updateSoonestTime priorTop (c\<lparr>mTree := heap_push timer_ranks t (mTree c)\<rparr>))"

definition remove_timer :: "timer \<Rightarrow> container \<Rightarrow> container" where
  "remove_timer t c =
    (let priorTop = getSoonestTimer c;
         (removed, tree) = heap_remove timer_ranks t (mTree c);
         c' = c\<lparr>mTree := tree\<rparr>
     in if priorTop = removed then updateSoonestTime None c' else c')"

definition pop_timer :: "container \<Rightarrow> timer option \<times> container" where
  "pop_timer c =
    (let (popped, tree) = heap_pop timer_ranks (mTree c) in (popped, c\<lparr>mTree := tree\<rparr>))"

text \<open>The object \<open>timerOfNow\<close> lives on the stack; only its time is compared.\<close>

definition popIfOutRanks :: "timespec \<Rightarrow> container \<Rightarrow> timer option \<times> container" where
  "popIfOutRanks now c =
    (case heap_peek (mTree c) of
       None \<Rightarrow> (None, c)
     | Some t \<Rightarrow>
         if \<not> outRanks timer_ranks \<lparr>timer_ptr = 0, mFutureTime = now\<rparr> t
         then pop_timer c
         else (None, c))"

section \<open>The client's operations\<close>

text \<open>
  \<open>get\<close> creates a container on demand; \<open>fd_ok\<close> says whether \<open>timerfd_create\<close> succeeds.
\<close>

definition set_container :: "bool \<Rightarrow> container \<Rightarrow> timer_state \<Rightarrow> timer_state" where
  "set_container w c s = s\<lparr>containers := (containers s)(w := c)\<rparr>"

lemma set_container_simps [simp]:
  "containers (set_container w c s) u = (if u = w then c else containers s u)"
  "msgq (set_container w c s) = msgq s" "delegates (set_container w c s) = delegates s"
  "clients (set_container w c s) = clients s" "pc (set_container w c s) = pc s"
  "poll_todo (set_container w c s) = poll_todo s" "history (set_container w c s) = history s"
  by (simp_all add: set_container_def)

definition sendMsg :: "loc_msg \<Rightarrow> timer_state \<Rightarrow> timer_state" where
  "sendMsg m s = s\<lparr>msgq := msgq s @ [m]\<rparr>"

definition container_get :: "bool \<Rightarrow> bool \<Rightarrow> timer_state \<Rightarrow> bool \<times> timer_state" where
  "container_get fd_ok wakeOnExpire s =
    (if created (containers s wakeOnExpire) then (True, s)
     else if fd_ok then
       (True, set_container wakeOnExpire (containers s wakeOnExpire\<lparr>created := True\<rparr>) s)
     else (False, s))"

text \<open>The constructor of a delegate allocated at \<open>d\<close>: it adds itself to its container.\<close>

definition new_delegate ::
  "addr \<Rightarrow> addr \<Rightarrow> timespec \<Rightarrow> bool \<Rightarrow> timer_state \<Rightarrow> timer \<times> timer_state" where
  "new_delegate d client futureTime wake s =
    (let t = \<lparr>timer_ptr = d, mFutureTime = futureTime\<rparr>;
         D = \<lparr>mClient = Some client, dFutureTime = futureTime, mContainer = Some wake\<rparr>
     in (t, sendMsg (MsgTimerPush wake t) (s\<lparr>delegates := (delegates s)(d \<mapsto> D)\<rparr>)))"

definition destroyLocked :: "timer \<Rightarrow> timer_state \<Rightarrow> timer_error + timer_state" where
  "destroyLocked t s =
    (case delegates s (timer_ptr t) of
       None \<Rightarrow> Inl DelegateFreed
     | Some D \<Rightarrow>
         (case mContainer D of
            None \<Rightarrow>
              Inr (s\<lparr>delegates := (delegates s)(timer_ptr t \<mapsto> D\<lparr>mClient := None\<rparr>)\<rparr>)
          | Some w \<Rightarrow>
              Inr (sendMsg (MsgTimerRemove w t) (s\<lparr>delegates :=
                (delegates s)(timer_ptr t \<mapsto> D\<lparr>mClient := None, mContainer := None\<rparr>)\<rparr>))))"

definition LocTimer_start ::
  "addr \<Rightarrow> uint32 \<Rightarrow> bool \<Rightarrow> timespec \<Rightarrow> addr \<Rightarrow> bool \<Rightarrow> timer_state \<Rightarrow>
     timer_error + (bool \<times> timer_state)" where
  "LocTimer_start c timeOutInMs wakeOnExpire now d fd_ok s =
    (case clients s c of
       None \<Rightarrow> Inl ClientFreed
     | Some client \<Rightarrow>
         (case mTimer client of
            Some t \<Rightarrow> Inr (False, s)
          | None \<Rightarrow>
              (let (got, s1) = container_get fd_ok wakeOnExpire s
               in if got then
                    (let (t, s2) =
                       new_delegate d c (future_time now timeOutInMs) wakeOnExpire s1
                     in Inr (True, s2\<lparr>clients := (clients s2)(c \<mapsto> client\<lparr>mTimer := Some t\<rparr>)\<rparr>))
                  else Inr (False, s1))))"

definition LocTimer_stop :: "addr \<Rightarrow> timer_state \<Rightarrow> timer_error + (bool \<times> timer_state)" where
  "LocTimer_stop c s =
    (case clients s c of
       None \<Rightarrow> Inl ClientFreed
     | Some client \<Rightarrow>
         (case mTimer client of
            None \<Rightarrow> Inr (False, s)
          | Some t \<Rightarrow>
              (case destroyLocked t
                 (s\<lparr>clients := (clients s)(c \<mapsto> client\<lparr>mTimer := None\<rparr>)\<rparr>) of
                 Inl e \<Rightarrow> Inl e
               | Inr s' \<Rightarrow> Inr (True, s'))))"

definition record_obs :: "timer_obs \<Rightarrow> timer_state \<Rightarrow> timer_state" where
  "record_obs ob s = s\<lparr>history := history s @ [ob]\<rparr>"

section \<open>The message thread\<close>

text \<open>A heap operation may compare with any node, so all of them must be live.\<close>

definition nodes_live :: "timer_state \<Rightarrow> bool \<Rightarrow> bool" where
  "nodes_live s w \<longleftrightarrow>
    (\<forall>x \<in> set_mset (elements (mTree (containers s w))). delegates s (timer_ptr x) \<noteq> None)"

fun msg_proc :: "timespec \<Rightarrow> loc_msg \<Rightarrow> timer_state \<Rightarrow> timer_error + timer_state" where
  "msg_proc now (MsgTimerPush w t) s =
    (if nodes_live s w \<and> delegates s (timer_ptr t) \<noteq> None
     then Inr (set_container w (push_timer t (containers s w)) s)
     else Inl DelegateFreed)"
| "msg_proc now (MsgTimerRemove w t) s =
    (if nodes_live s w \<and> delegates s (timer_ptr t) \<noteq> None
     then Inr ((set_container w (remove_timer t (containers s w)) s)
            \<lparr>delegates := (delegates s)(timer_ptr t := None)\<rparr>)
     else Inl DelegateFreed)"
| "msg_proc now (MsgTimerExpire w) s =
    (if nodes_live s w
     then (let (popped, c) = pop_timer (containers s w)
           in Inr ((set_container w c s)\<lparr>pc := Popped w now popped\<rparr>))
     else Inl DelegateFreed)"

definition msg_step :: "timespec \<Rightarrow> timer_state \<Rightarrow> timer_error + timer_state" where
  "msg_step clock s =
    (case pc s of
       Idle \<Rightarrow>
         (case msgq s of
            [] \<Rightarrow> Inr s
          | m # ms \<Rightarrow> msg_proc clock m (s\<lparr>msgq := ms\<rparr>))
     | Popped w now None \<Rightarrow>
         Inr ((set_container w (updateSoonestTime None (containers s w)) s)\<lparr>pc := Idle\<rparr>)
     | Popped w now (Some t) \<Rightarrow>
         (case delegates s (timer_ptr t) of
            None \<Rightarrow> Inl DelegateFreed
          | Some D \<Rightarrow>
              (case mClient D of
                 None \<Rightarrow> Inr (s\<lparr>pc := PopNext w now\<rparr>)
               | Some c \<Rightarrow> Inr (s\<lparr>pc := Stopping w now c\<rparr>)))
     | Stopping w now c \<Rightarrow>
         (case LocTimer_stop c s of
            Inl e \<Rightarrow> Inl e
          | Inr (stopped, s') \<Rightarrow>
              Inr (s'\<lparr>pc := (if stopped then Calling w now c else PopNext w now)\<rparr>))
     | Calling w now c \<Rightarrow>
         (if clients s c = None then Inl ClientFreed
          else Inr (record_obs (TimedOut c) (s\<lparr>pc := PopNext w now\<rparr>)))
     | PopNext w now \<Rightarrow>
         (if nodes_live s w
          then (let (popped, c) = popIfOutRanks now (containers s w)
                in Inr ((set_container w c s)\<lparr>pc := Popped w now popped\<rparr>))
          else Inl DelegateFreed))"

section \<open>The poll thread\<close>

definition readable :: "timespec \<Rightarrow> container \<Rightarrow> bool" where
  "readable clock c \<longleftrightarrow>
    polled c \<and> (case timerfd c of None \<Rightarrow> False | Some t \<Rightarrow> nanos t \<le> nanos clock)"

text \<open>
  \<open>epoll_wait\<close> returned the descriptors of the containers \<open>ws\<close>: \<open>expire\<close> is to run for
  each. Its three calls are three steps, the other threads may run in between.
\<close>

definition epoll_return :: "timespec \<Rightarrow> bool list \<Rightarrow> timer_state \<Rightarrow> timer_state" where
  "epoll_return clock ws s =
    (if poll_todo s = [] \<and> list_all (\<lambda>w. readable clock (containers s w)) ws
     then s\<lparr>poll_todo := concat (List.map (\<lambda>w. [Disarm w, RemovePoll w, SendExpire w]) ws)\<rparr>
     else s)"

fun poll_act :: "poll_action \<Rightarrow> timer_state \<Rightarrow> timer_state" where
  "poll_act (Disarm w) s =
    set_container w (timerfd_settime \<lparr>tv_sec = 0, tv_nsec = 0\<rparr> (containers s w)) s"
| "poll_act (RemovePoll w) s = set_container w (removePoll (containers s w)) s"
| "poll_act (SendExpire w) s = sendMsg (MsgTimerExpire w) s"

definition poll_step :: "timer_state \<Rightarrow> timer_state" where
  "poll_step s =
    (case poll_todo s of [] \<Rightarrow> s | a # todo \<Rightarrow> poll_act a (s\<lparr>poll_todo := todo\<rparr>))"

section \<open>Interleaving\<close>

datatype timer_event =
    New addr
  | Start addr uint32 bool timespec addr bool
  | Stop addr
  | Delete addr
  | MsgStep timespec
  | EpollWait timespec "bool list"
  | PollStep

text \<open>The destructor stops the timer, then the object is gone.\<close>

fun timer_step :: "timer_event \<Rightarrow> timer_state \<Rightarrow> timer_error + timer_state" where
  "timer_step (New c) s = Inr (s\<lparr>clients := (clients s)(c \<mapsto> \<lparr>mTimer = None\<rparr>)\<rparr>)"
| "timer_step (Start c ms wake now d fd_ok) s =
    (case LocTimer_start c ms wake now d fd_ok s of
       Inl e \<Rightarrow> Inl e
     | Inr (started, s') \<Rightarrow> Inr (if started then record_obs (Started c) s' else s'))"
| "timer_step (Stop c) s =
    (case LocTimer_stop c s of
       Inl e \<Rightarrow> Inl e
     | Inr (stopped, s') \<Rightarrow> Inr (if stopped then record_obs (Stopped c) s' else s'))"
| "timer_step (Delete c) s =
    (case LocTimer_stop c s of
       Inl e \<Rightarrow> Inl e
     | Inr (stopped, s') \<Rightarrow>
         Inr ((if stopped then record_obs (Stopped c) s' else s')
            \<lparr>clients := (clients s')(c := None)\<rparr>))"
| "timer_step (MsgStep clock) s = msg_step clock s"
| "timer_step (EpollWait clock ws) s = Inr (epoll_return clock ws s)"
| "timer_step PollStep s = Inr (poll_step s)"

text \<open>
  What the model asks of the environment: \<open>new\<close> returns memory that is not in use, the
  clients use their own live objects, the clock is a valid time and so is every deadline.
\<close>

fun event_ok :: "timer_state \<Rightarrow> timer_event \<Rightarrow> bool" where
  "event_ok s (New c) = (clients s c = None)"
| "event_ok s (Start c ms wake now d fd_ok) =
    (clients s c \<noteq> None \<and> delegates s d = None \<and> valid_time (future_time now ms))"
| "event_ok s (Stop c) = (clients s c \<noteq> None)"
| "event_ok s (Delete c) = (clients s c \<noteq> None)"
| "event_ok s (MsgStep clock) = valid_time clock"
| "event_ok s (EpollWait clock ws) = True"
| "event_ok s PollStep = True"

inductive timers_reachable :: "timer_state \<Rightarrow> bool" where
  timers_init: "timers_reachable init_timers"
| timers_next: "timers_reachable s \<Longrightarrow> event_ok s e \<Longrightarrow> timer_step e s = Inr s' \<Longrightarrow>
    timers_reachable s'"

text \<open>A schedule, run until its end or the first access to freed memory.\<close>

fun run_timers :: "timer_event list \<Rightarrow> timer_state \<Rightarrow> timer_error + timer_state" where
  "run_timers [] s = Inr s"
| "run_timers (e # es) s =
    (case timer_step e s of Inl err \<Rightarrow> Inl err | Inr s' \<Rightarrow> run_timers es s')"

fun schedule_ok :: "timer_event list \<Rightarrow> timer_state \<Rightarrow> bool" where
  "schedule_ok [] s = True"
| "schedule_ok (e # es) s =
    (event_ok s e
     \<and> (case timer_step e s of Inl err \<Rightarrow> True | Inr s' \<Rightarrow> schedule_ok es s'))"

section \<open>The C interface\<close>

text \<open>
  \<open>loc_timer_start\<close>: a wrapper allocated at \<open>c\<close>; the 64-bit \<open>msec\<close> is converted to the
  \<open>unsigned int\<close> of \<open>LocTimer::start\<close>, whose result is ignored.
\<close>

definition loc_timer_start ::
  "addr \<Rightarrow> 64 word \<Rightarrow> bool \<Rightarrow> bool \<Rightarrow> timespec \<Rightarrow> addr \<Rightarrow> bool \<Rightarrow> timer_state \<Rightarrow>
     timer_error + (addr option \<times> timer_state)" where
  "loc_timer_start c msec cb_func wake_on_expire now d fd_ok s =
    (if cb_func then
       (case LocTimer_start c (ucast msec) wake_on_expire now d fd_ok
          (s\<lparr>clients := (clients s)(c \<mapsto> \<lparr>mTimer = None\<rparr>)\<rparr>) of
          Inl e \<Rightarrow> Inl e
        | Inr (started, s') \<Rightarrow> Inr (Some c, s'))
     else Inr (None, s))"

end
