(* ===== verification/LocTimerInvariants.thy ===== *)
theory LocTimerInvariants
  imports LocTimer
begin

text \<open>
  Invariants of the timer service, kept by every step of every thread: who refers to a
  delegate (\<open>refs_inv\<close>), that no timer is forgotten (\<open>wakeup_inv\<close>) and how a started timer
  ends (\<open>count_inv\<close>).
\<close>

section \<open>Who refers to a delegate\<close>

fun pushes :: "bool \<Rightarrow> loc_msg list \<Rightarrow> timer multiset" where
  "pushes w [] = {#}"
| "pushes w (MsgTimerPush w' t # ms) =
    (if w' = w then add_mset t (pushes w ms) else pushes w ms)"
| "pushes w (MsgTimerRemove w' t # ms) = pushes w ms"
| "pushes w (MsgTimerExpire w' # ms) = pushes w ms"

fun removes :: "loc_msg list \<Rightarrow> (bool \<times> timer) list" where
  "removes [] = []"
| "removes (MsgTimerPush w t # ms) = removes ms"
| "removes (MsgTimerRemove w t # ms) = (w, t) # removes ms"
| "removes (MsgTimerExpire w # ms) = removes ms"

text \<open>No delegate is pushed after the message that deletes it.\<close>

fun queue_order :: "loc_msg list \<Rightarrow> bool" where
  "queue_order [] = True"
| "queue_order (MsgTimerPush w t # ms) = queue_order ms"
| "queue_order (MsgTimerRemove w t # ms) =
    (queue_order ms
     \<and> (\<forall>w'. \<forall>x \<in># pushes w' ms. timer_ptr x \<noteq> timer_ptr t))"
| "queue_order (MsgTimerExpire w # ms) = queue_order ms"

lemma pushes_append [simp]: "pushes w (q @ q') = pushes w q + pushes w q'"
  by (induction w q rule: pushes.induct) auto

lemma removes_append [simp]: "removes (q @ q') = removes q @ removes q'"
  by (induction q rule: removes.induct) auto

lemma queue_order_push:
  "queue_order (q @ [MsgTimerPush w t]) \<longleftrightarrow>
    queue_order q \<and> (\<forall>(w', x) \<in> set (removes q). timer_ptr x \<noteq> timer_ptr t)"
  by (induction q rule: queue_order.induct) auto

lemma queue_order_other:
  "queue_order (q @ [MsgTimerRemove w t]) = queue_order q"
  "queue_order (q @ [MsgTimerExpire w]) = queue_order q"
  by (induction q rule: queue_order.induct) auto

text \<open>The nodes in a container, or on the way to it.\<close>

definition in_container :: "bool \<Rightarrow> timer_state \<Rightarrow> timer multiset" where
  "in_container w s = elements (mTree (containers s w)) + pushes w (msgq s)"

definition ptrs :: "timer_state \<Rightarrow> addr multiset" where
  "ptrs s = image_mset timer_ptr (in_container True s + in_container False s)"

definition node_ok :: "timer_state \<Rightarrow> bool \<Rightarrow> timer \<Rightarrow> bool" where
  "node_ok s w x \<longleftrightarrow> valid_timer x \<and>
    (\<exists>D. delegates s (timer_ptr x) = Some D \<and> dFutureTime D = mFutureTime x
         \<and> (mContainer D = Some w \<or> (w, x) \<in> set (removes (msgq s))))"

definition remove_ok :: "timer_state \<Rightarrow> timer \<Rightarrow> bool" where
  "remove_ok s t \<longleftrightarrow> (\<exists>D. delegates s (timer_ptr t) = Some D
     \<and> dFutureTime D = mFutureTime t \<and> mContainer D = None \<and> mClient D = None)"

definition client_ok :: "timer_state \<Rightarrow> addr \<Rightarrow> timer \<Rightarrow> bool" where
  "client_ok s c t \<longleftrightarrow> (\<exists>D. delegates s (timer_ptr t) = Some D
     \<and> dFutureTime D = mFutureTime t \<and> mContainer D \<noteq> None \<and> mClient D = Some c)"

definition heaps_inv :: "timer_state \<Rightarrow> bool" where
  "heaps_inv s \<longleftrightarrow> (\<forall>w. heap_inv timer_ranks valid_timer (mTree (containers s w)))"

definition nodes_inv :: "timer_state \<Rightarrow> bool" where
  "nodes_inv s \<longleftrightarrow> (\<forall>w. \<forall>x \<in># in_container w s. node_ok s w x)"

definition unique_inv :: "timer_state \<Rightarrow> bool" where
  "unique_inv s \<longleftrightarrow> (\<forall>d. count (ptrs s) d \<le> 1)"

definition removes_inv :: "timer_state \<Rightarrow> bool" where
  "removes_inv s \<longleftrightarrow> queue_order (msgq s)
    \<and> (\<forall>(w, t) \<in> set (removes (msgq s)). remove_ok s t)
    \<and> distinct (List.map (timer_ptr \<circ> snd) (removes (msgq s)))"

definition clients_inv :: "timer_state \<Rightarrow> bool" where
  "clients_inv s \<longleftrightarrow>
    (\<forall>c L t. clients s c = Some L \<longrightarrow> mTimer L = Some t \<longrightarrow> client_ok s c t)"

definition pc_inv :: "timer_state \<Rightarrow> bool" where
  "pc_inv s \<longleftrightarrow>
    (\<forall>w now t. pc s = Popped w now (Some t) \<longrightarrow> delegates s (timer_ptr t) \<noteq> None)"

definition refs_inv :: "timer_state \<Rightarrow> bool" where
  "refs_inv s \<longleftrightarrow> heaps_inv s \<and> nodes_inv s \<and> unique_inv s \<and> removes_inv s
    \<and> clients_inv s \<and> pc_inv s"

lemma nodes_inv_live: "nodes_inv s \<Longrightarrow> nodes_live s w"
  by (fastforce simp: nodes_inv_def nodes_live_def in_container_def node_ok_def
      split: option.splits)

text \<open>What \<open>refs_inv\<close> does not depend on.\<close>

lemma refs_inv_cong:
  assumes "\<And>w. mTree (containers s' w) = mTree (containers s w)"
    and "msgq s' = msgq s" and "delegates s' = delegates s"
    and "clients s' = clients s" and "pc s' = pc s"
  shows "refs_inv s' = refs_inv s"
  unfolding refs_inv_def heaps_inv_def nodes_inv_def unique_inv_def removes_inv_def
    clients_inv_def pc_inv_def in_container_def node_ok_def ptrs_def remove_ok_def
    client_ok_def assms
  by (rule refl)

lemma updateSoonestTime_mTree [simp]: "mTree (updateSoonestTime p c) = mTree c"
  by (simp add: updateSoonestTime_def Let_def timerfd_settime_def addPoll_def removePoll_def
      split: option.splits)

lemma push_timer_mTree [simp]:
  "mTree (push_timer t c) = heap_push timer_ranks t (mTree c)"
  by (simp add: push_timer_def Let_def)

lemma remove_timer_mTree [simp]:
  "mTree (remove_timer t c) = snd (heap_remove timer_ranks t (mTree c))"
  by (simp add: remove_timer_def Let_def split: prod.splits)

lemma init_refs: "refs_inv init_timers"
  by (simp add: refs_inv_def heaps_inv_def nodes_inv_def unique_inv_def removes_inv_def
      clients_inv_def pc_inv_def in_container_def ptrs_def init_timers_def init_container_def
      heap_inv_def all_valid_def)

text \<open>The message thread's steps that only move its program counter.\<close>

lemma refs_inv_pc:
  assumes "refs_inv s" and "\<And>w now t. p \<noteq> Popped w now (Some t)"
  shows "refs_inv (s\<lparr>pc := p\<rparr>)"
proof -
  have "pc_inv (s\<lparr>pc := p\<rparr>)"
    using assms(2) by (auto simp: pc_inv_def split: msg_pc.splits option.splits)
  then show ?thesis
    using assms(1)
    by (simp add: refs_inv_def heaps_inv_def nodes_inv_def unique_inv_def removes_inv_def
        clients_inv_def in_container_def node_ok_def ptrs_def remove_ok_def client_ok_def)
qed

lemma refs_inv_history [simp]: "refs_inv (record_obs ob s) = refs_inv s"
  by (rule refs_inv_cong) (simp_all add: record_obs_def)

lemma refs_inv_poll_todo [simp]: "refs_inv (s\<lparr>poll_todo := todo\<rparr>) = refs_inv s"
  by (rule refs_inv_cong) simp_all

lemma refs_inv_set_container:
  "mTree c = mTree (containers s w) \<Longrightarrow> refs_inv (set_container w c s) = refs_inv s"
  by (rule refs_inv_cong) (simp_all add: set_container_def)

lemma refs_inv_expire_msg:
  assumes "refs_inv s"
  shows "refs_inv (sendMsg (MsgTimerExpire w) s)"
  using assms
  by (simp add: refs_inv_def heaps_inv_def nodes_inv_def unique_inv_def removes_inv_def
      clients_inv_def pc_inv_def in_container_def node_ok_def ptrs_def remove_ok_def
      client_ok_def sendMsg_def queue_order_other)

text \<open>Unused addresses are referred to by nothing.\<close>

lemma refs_live:
  assumes "refs_inv s" and "delegates s d = None"
  shows "x \<in># in_container w s \<Longrightarrow> timer_ptr x \<noteq> d"
    and "(w, t) \<in> set (removes (msgq s)) \<Longrightarrow> timer_ptr t \<noteq> d"
    and "clients s c = Some L \<Longrightarrow> mTimer L = Some t \<Longrightarrow> timer_ptr t \<noteq> d"
    and "d \<notin># ptrs s"
proof -
  show node: "timer_ptr x \<noteq> d" if "x \<in># in_container w s" for x w
    using assms that by (fastforce simp: refs_inv_def nodes_inv_def node_ok_def)
  show "timer_ptr t \<noteq> d" if "(w, t) \<in> set (removes (msgq s))"
    using assms that by (fastforce simp: refs_inv_def removes_inv_def remove_ok_def)
  show "timer_ptr t \<noteq> d" if "clients s c = Some L" "mTimer L = Some t"
    using assms that by (fastforce simp: refs_inv_def clients_inv_def client_ok_def)
  show "d \<notin># ptrs s"
    using node by (auto simp: ptrs_def)
qed

lemma new_delegate_refs:
  assumes inv: "refs_inv s" and fresh: "delegates s d = None" and valid: "valid_time ft"
    and c: "clients s c = Some L" "mTimer L = None"
    and s': "new_delegate d c ft w s = (t, s')"
  shows "refs_inv (s'\<lparr>clients := (clients s)(c \<mapsto> L\<lparr>mTimer := Some t\<rparr>)\<rparr>)"
proof -
  let ?s = "s'\<lparr>clients := (clients s)(c \<mapsto> L\<lparr>mTimer := Some t\<rparr>)\<rparr>"
  have t: "t = \<lparr>timer_ptr = d, mFutureTime = ft\<rparr>"
    and fields: "containers s' = containers s" "msgq s' = msgq s @ [MsgTimerPush w t]"
    "pc s' = pc s" "delegates s' = (delegates s)(d \<mapsto>
       \<lparr>mClient = Some c, dFutureTime = ft, mContainer = Some w\<rparr>)"
    using s' by (auto simp: new_delegate_def Let_def sendMsg_def)
  note live = refs_live [OF inv fresh]
  have other: "node_ok ?s w' x" if "x \<in># in_container w' s" for w' x
    using that live(1) [OF that] inv
    by (auto simp: refs_inv_def nodes_inv_def node_ok_def fields)
  have "nodes_inv ?s"
    using other valid
    by (auto simp: nodes_inv_def in_container_def fields node_ok_def valid_timer_def t)
  moreover have "unique_inv ?s"
  proof -
    have "ptrs ?s = add_mset d (ptrs s)"
      by (cases w) (simp_all add: ptrs_def in_container_def fields t)
    then show ?thesis
      using inv live(4) by (auto simp: refs_inv_def unique_inv_def not_in_iff)
  qed
  moreover have "removes_inv ?s"
    using inv live(2)
    by (fastforce simp: refs_inv_def removes_inv_def queue_order_push fields t remove_ok_def)
  moreover have "clients_inv ?s"
    using inv live(3)
    by (fastforce simp: refs_inv_def clients_inv_def client_ok_def fields t)
  moreover have "heaps_inv ?s" "pc_inv ?s"
    using inv by (auto simp: refs_inv_def heaps_inv_def pc_inv_def fields
        split: msg_pc.splits option.splits)
  ultimately show ?thesis
    by (simp add: refs_inv_def)
qed

text \<open>A client's timer is stopped by its first \<open>stop\<close>: the delegate is orphaned.\<close>

definition orphan :: "addr \<Rightarrow> LocTimer \<Rightarrow> timer \<Rightarrow> bool \<Rightarrow> timer_state \<Rightarrow> timer_state" where
  "orphan c L t w s = s\<lparr>clients := (clients s)(c \<mapsto> L\<lparr>mTimer := None\<rparr>),
     delegates := (delegates s)(timer_ptr t \<mapsto>
       \<lparr>mClient = None, dFutureTime = mFutureTime t, mContainer = None\<rparr>),
     msgq := msgq s @ [MsgTimerRemove w t]\<rparr>"

lemma stop_ticking:
  assumes "refs_inv s" and "clients s c = Some L" and "mTimer L = Some t"
  obtains w where "LocTimer_stop c s = Inr (True, orphan c L t w s)"
    and "\<And>D. delegates s (timer_ptr t) = Some D \<Longrightarrow> mContainer D = Some w"
    and "client_ok s c t"
proof -
  have "client_ok s c t"
    using assms by (auto simp: refs_inv_def clients_inv_def)
  then obtain D w where D: "delegates s (timer_ptr t) = Some D" "mContainer D = Some w"
    "dFutureTime D = mFutureTime t"
    by (auto simp: client_ok_def)
  then have "LocTimer_stop c s = Inr (True, orphan c L t w s)"
    using assms(2,3)
    by (cases D) (simp add: LocTimer_stop_def destroyLocked_def orphan_def sendMsg_def)
  then show ?thesis
    using that D \<open>client_ok s c t\<close> by simp
qed

lemma orphan_refs:
  assumes inv: "refs_inv s" and c: "clients s c = Some L" "mTimer L = Some t"
    and w: "\<And>D. delegates s (timer_ptr t) = Some D \<Longrightarrow> mContainer D = Some w"
  shows "refs_inv (orphan c L t w s)"
proof -
  let ?s = "orphan c L t w s"
  have fields: "containers ?s = containers s" "msgq ?s = msgq s @ [MsgTimerRemove w t]"
    "pc ?s = pc s" "clients ?s = (clients s)(c \<mapsto> L\<lparr>mTimer := None\<rparr>)"
    "delegates ?s = (delegates s)(timer_ptr t \<mapsto>
       \<lparr>mClient = None, dFutureTime = mFutureTime t, mContainer = None\<rparr>)"
    by (simp_all add: orphan_def)
  have t: "client_ok s c t"
    using inv c by (auto simp: refs_inv_def clients_inv_def)
  have in_container: "in_container w' ?s = in_container w' s" for w'
    by (simp add: in_container_def fields)
  have no_remove: "timer_ptr x \<noteq> timer_ptr t" if "(w', x) \<in> set (removes (msgq s))" for w' x
    using inv that t by (fastforce simp: refs_inv_def removes_inv_def remove_ok_def client_ok_def)
  have "node_ok ?s w' x" if "x \<in># in_container w' s" for w' x
  proof -
    have "node_ok s w' x"
      using inv that by (auto simp: refs_inv_def nodes_inv_def)
    moreover have "x = t \<and> w' = w" if "timer_ptr x = timer_ptr t"
      using calculation that t w no_remove [of w' x] 
      by (auto simp: node_ok_def client_ok_def intro: timer.equality)
    ultimately show ?thesis
      by (auto simp: node_ok_def fields)
  qed
  then have "nodes_inv ?s"
    by (simp add: nodes_inv_def in_container)
  moreover have "removes_inv ?s"
    using inv no_remove
    by (fastforce simp: refs_inv_def removes_inv_def queue_order_other fields remove_ok_def)
  moreover have "clients_inv ?s"
    using inv t by (fastforce simp: refs_inv_def clients_inv_def client_ok_def fields)
  moreover have "unique_inv ?s"
    using inv by (simp add: refs_inv_def unique_inv_def ptrs_def in_container)
  moreover have "heaps_inv ?s" "pc_inv ?s"
    using inv by (auto simp: refs_inv_def heaps_inv_def pc_inv_def fields)
  ultimately show ?thesis
    by (simp add: refs_inv_def)
qed

lemma stop_refs:
  assumes "refs_inv s" and "clients s c = Some L"
  obtains b s' where "LocTimer_stop c s = Inr (b, s')" and "refs_inv s'"
    and "clients s' c = Some (L\<lparr>mTimer := None\<rparr>)"
proof (cases "mTimer L")
  case None
  then have "LocTimer_stop c s = Inr (False, s)" "L\<lparr>mTimer := None\<rparr> = L"
    using assms(2) by (simp_all add: LocTimer_stop_def)
  then show ?thesis
    using that assms by metis
next
  case (Some t)
  show ?thesis
  proof (rule stop_ticking [OF assms Some])
    fix w
    assume stop: "LocTimer_stop c s = Inr (True, orphan c L t w s)"
      and w: "\<And>D. delegates s (timer_ptr t) = Some D \<Longrightarrow> mContainer D = Some w"
    show ?thesis
      using that [OF stop orphan_refs [OF assms Some w]] by (simp add: orphan_def)
  qed
qed

lemma delete_client_refs:
  assumes "refs_inv s"
  shows "refs_inv (s\<lparr>clients := (clients s)(c := None)\<rparr>)"
  using assms
  by (auto simp: refs_inv_def heaps_inv_def nodes_inv_def unique_inv_def removes_inv_def
      clients_inv_def pc_inv_def in_container_def node_ok_def ptrs_def remove_ok_def
      client_ok_def)

lemma new_client_refs:
  assumes "refs_inv s"
  shows "refs_inv (s\<lparr>clients := (clients s)(c \<mapsto> \<lparr>mTimer = None\<rparr>)\<rparr>)"
  using assms
  by (auto simp: refs_inv_def heaps_inv_def nodes_inv_def unique_inv_def removes_inv_def
      clients_inv_def pc_inv_def in_container_def node_ok_def ptrs_def remove_ok_def
      client_ok_def)

section \<open>The messages keep the references\<close>

lemma refs_inv_pop_msg:
  assumes "msgq s = MsgTimerExpire w # ms" and "refs_inv s"
  shows "refs_inv (s\<lparr>msgq := ms\<rparr>)"
  using assms
  by (simp add: refs_inv_def heaps_inv_def nodes_inv_def unique_inv_def removes_inv_def
      clients_inv_def pc_inv_def in_container_def node_ok_def ptrs_def remove_ok_def
      client_ok_def)

text \<open>A pop: the popped node is live and no longer in a container.\<close>

lemma pop_timer_refs:
  assumes inv: "refs_inv s" and pop: "pop_timer (containers s w) = (popped, c)"
  shows "refs_inv ((set_container w c s)\<lparr>pc := Popped w' now popped\<rparr>)"
proof -
  let ?s = "(set_container w c s)\<lparr>pc := Popped w' now popped\<rparr>"
  obtain tree where tree: "heap_pop timer_ranks (mTree (containers s w)) = (popped, tree)"
    and c: "c = containers s w\<lparr>mTree := tree\<rparr>"
    using pop by (auto simp: pop_timer_def split: prod.splits)
  have heap: "heap_inv timer_ranks valid_timer (mTree (containers s w))"
    using inv by (simp add: refs_inv_def heaps_inv_def)
  have elems: "elements (mTree (containers s w)) =
     elements tree + (case popped of None \<Rightarrow> {#} | Some x \<Rightarrow> {#x#})"
    using tree node_pop_elements [of timer_ranks "mTree (containers s w)" popped tree]
    by (auto simp: heap_pop_def split: if_splits)
  have fields: "msgq ?s = msgq s" "delegates ?s = delegates s" "clients ?s = clients s"
    by simp_all
  have sub: "in_container u ?s \<subseteq># in_container u s" for u
    using elems by (cases "u = w") (auto simp: in_container_def c)
  have "heaps_inv ?s"
    using inv timers.pop_inv [OF heap tree] by (simp add: refs_inv_def heaps_inv_def c)
  moreover have "nodes_inv ?s"
    using inv sub
    by (fastforce simp: refs_inv_def nodes_inv_def node_ok_def fields dest: mset_subset_eqD)
  moreover have "unique_inv ?s"
  proof -
    have "ptrs ?s \<subseteq># ptrs s"
      unfolding ptrs_def by (intro image_mset_subseteq_mono subset_mset.add_mono sub)
    then show ?thesis
      using inv unfolding refs_inv_def unique_inv_def by (meson le_trans mset_subset_eq_count)
  qed
  moreover have "removes_inv ?s" "clients_inv ?s"
    using inv by (simp_all add: refs_inv_def removes_inv_def clients_inv_def remove_ok_def
        client_ok_def fields)
  moreover have "pc_inv ?s"
  proof (cases popped)
    case (Some t)
    then have "t \<in># in_container w s"
      using elems by (simp add: in_container_def)
    then have "node_ok s w t"
      using inv by (simp add: refs_inv_def nodes_inv_def)
    then show ?thesis
      using Some by (auto simp: pc_inv_def node_ok_def fields)
  qed (simp add: pc_inv_def)
  ultimately show ?thesis
    by (simp add: refs_inv_def)
qed

lemma push_msg_refs:
  assumes inv: "refs_inv s" and q: "msgq s = MsgTimerPush w t # ms"
  shows "refs_inv (set_container w (push_timer t (containers s w)) (s\<lparr>msgq := ms\<rparr>))"
proof -
  let ?s = "set_container w (push_timer t (containers s w)) (s\<lparr>msgq := ms\<rparr>)"
  let ?tree = "heap_push timer_ranks t (mTree (containers s w))"
  have "elements ?tree = add_mset t (elements (mTree (containers s w)))"
    by (simp add: heap_push_def)
  then have in_container: "in_container u ?s = in_container u s" for u
    by (cases "u = w") (simp_all add: in_container_def q)
  have fields: "removes (msgq s) = removes ms" "delegates ?s = delegates s"
    "clients ?s = clients s" "pc ?s = pc s"
    by (simp_all add: q)
  have "t \<in># in_container w s"
    by (simp add: in_container_def q)
  then have "valid_timer t"
    using inv by (fastforce simp: refs_inv_def nodes_inv_def node_ok_def)
  then have "heaps_inv ?s"
    using inv timers.push_inv by (simp add: refs_inv_def heaps_inv_def)
  moreover have "queue_order (msgq ?s)"
    using inv by (simp add: refs_inv_def removes_inv_def q)
  ultimately show ?thesis
    using inv
    by (simp add: refs_inv_def nodes_inv_def unique_inv_def removes_inv_def clients_inv_def
        pc_inv_def ptrs_def node_ok_def remove_ok_def client_ok_def in_container fields)
qed

lemma count_image_mset_ge: "count M x \<le> count (image_mset f M) (f x)"
  by (induction M) auto

text \<open>After the message that deletes a delegate, nothing refers to it.\<close>

lemma remove_msg_refs:
  assumes inv: "refs_inv s" and q: "msgq s = MsgTimerRemove w t # ms" and idle: "pc s = Idle"
  shows "refs_inv ((set_container w (remove_timer t (containers s w)) (s\<lparr>msgq := ms\<rparr>))
     \<lparr>delegates := (delegates s)(timer_ptr t := None)\<rparr>)"
proof -
  let ?s = "(set_container w (remove_timer t (containers s w)) (s\<lparr>msgq := ms\<rparr>))
     \<lparr>delegates := (delegates s)(timer_ptr t := None)\<rparr>"
  let ?d = "timer_ptr t"
  obtain res tree where rem: "heap_remove timer_ranks t (mTree (containers s w)) = (res, tree)"
    by fastforce
  have heap: "heap_inv timer_ranks valid_timer (mTree (containers s w))"
    using inv by (simp add: refs_inv_def heaps_inv_def)
  have spec: "if t \<in># elements (mTree (containers s w))
     then elements (mTree (containers s w)) = add_mset t (elements tree)
     else tree = mTree (containers s w)"
    using timers.remove_spec [OF heap rem] by (auto split: if_splits)
  have fields: "msgq ?s = ms" "clients ?s = clients s" "pc ?s = Idle"
    "delegates ?s = (delegates s)(?d := None)"
    "mTree (containers ?s u) = (if u = w then tree else mTree (containers s u))" for u
    using idle rem by simp_all
  have rok: "remove_ok s t"
    using inv by (simp add: refs_inv_def removes_inv_def q)
  then obtain D where D: "delegates s ?d = Some D" "dFutureTime D = mFutureTime t"
    "mContainer D = None" "mClient D = None"
    by (auto simp: remove_ok_def)
  have others: "timer_ptr x \<noteq> ?d" if "(u, x) \<in> set (removes ms)" for u x
    using inv that by (force simp: refs_inv_def removes_inv_def q)
  have same: "x = t \<and> u = w" if "x \<in># in_container u s" "timer_ptr x = ?d" for x u
  proof -
    have "node_ok s u x"
      using inv that(1) by (auto simp: refs_inv_def nodes_inv_def)
    then have "mFutureTime x = mFutureTime t" "(u, x) \<in> set (removes (msgq s))"
      using D that(2) by (auto simp: node_ok_def)
    then show ?thesis
      using others that(2) by (auto simp: q intro: timer.equality)
  qed
  have removed: "timer_ptr x \<noteq> ?d" if "x \<in># in_container u ?s" for x u
  proof
    assume x: "timer_ptr x = ?d"
    have "queue_order (MsgTimerRemove w t # ms)"
      using inv by (simp add: refs_inv_def removes_inv_def q)
    then have "x \<notin># pushes u ms"
      using x by auto
    then have here: "x \<in># elements (if u = w then tree else mTree (containers s u))"
      using that by (auto simp only: in_container_def fields set_mset_union)
    then have "x \<in># in_container u s"
      using spec by (auto simp: in_container_def split: if_splits)
    then have "x = t" "u = w"
      using same x by auto
    then have "2 \<le> count (elements (mTree (containers s w))) t"
      using here spec by (auto split: if_splits simp: Suc_le_eq)
    then have "2 \<le> count (in_container w s) t"
      by (simp add: in_container_def)
    also have "count (in_container w s) t \<le> count (ptrs s) ?d"
    proof -
      have "count (in_container w s) t \<le> count (image_mset timer_ptr (in_container w s)) ?d"
        by (rule count_image_mset_ge)
      then show ?thesis
        by (cases w) (simp_all add: ptrs_def)
    qed
    finally show False
      using inv by (simp add: refs_inv_def unique_inv_def) (metis Suc_n_not_le_n le_trans numeral_2_eq_2)
  qed
  have sub: "in_container u ?s \<subseteq># in_container u s" for u
    using spec by (cases "u = w") (auto simp: in_container_def q rem split: if_splits)
  have "nodes_inv ?s"
    unfolding nodes_inv_def
  proof (intro allI ballI)
    fix u x
    assume x: "x \<in># in_container u ?s"
    then have "node_ok s u x"
      using inv sub [of u] by (auto simp: refs_inv_def nodes_inv_def dest: mset_subset_eqD)
    then show "node_ok ?s u x"
      using removed [OF x] by (auto simp: node_ok_def q)
  qed
  moreover have "unique_inv ?s"
  proof -
    have "ptrs ?s \<subseteq># ptrs s"
      unfolding ptrs_def by (intro image_mset_subseteq_mono subset_mset.add_mono sub)
    then show ?thesis
      using inv unfolding refs_inv_def unique_inv_def by (meson le_trans mset_subset_eq_count)
  qed
  moreover have "removes_inv ?s"
    using inv others by (auto simp: refs_inv_def removes_inv_def remove_ok_def q)
  moreover have "timer_ptr x \<noteq> ?d" if "client_ok s c x" for c x
    using that D by (auto simp: client_ok_def)
  then have "clients_inv ?s"
    using inv by (fastforce simp: refs_inv_def clients_inv_def client_ok_def)
  moreover have "heaps_inv ?s"
    using inv timers.remove_inv [OF heap rem] rem by (simp add: refs_inv_def heaps_inv_def)
  moreover have "pc_inv ?s"
    using idle by (simp add: pc_inv_def)
  ultimately show ?thesis
    by (simp add: refs_inv_def)
qed

section \<open>The references are kept by every step\<close>

lemma msg_step_refs:
  assumes inv: "refs_inv s"
  shows "case msg_step clock s of Inl e \<Rightarrow> e = ClientFreed | Inr s' \<Rightarrow> refs_inv s'"
proof (cases "pc s")
  case Idle
  show ?thesis
  proof (cases "msgq s")
    case Nil
    then show ?thesis
      using inv Idle by (simp add: msg_step_def)
  next
    case (Cons m ms)
    have live: "nodes_live (s\<lparr>msgq := ms\<rparr>) w" for w
      using inv nodes_inv_live [of s w] by (simp add: refs_inv_def nodes_live_def)
    show ?thesis
    proof (cases m)
      case (MsgTimerPush w t)
      then have "t \<in># in_container w s"
        using Cons by (simp add: in_container_def)
      then have "delegates s (timer_ptr t) \<noteq> None"
        using inv by (fastforce simp: refs_inv_def nodes_inv_def node_ok_def)
      then show ?thesis
        using push_msg_refs [OF inv, of w t ms] live Cons Idle MsgTimerPush
        by (simp add: msg_step_def)
    next
      case (MsgTimerRemove w t)
      then have "delegates s (timer_ptr t) \<noteq> None"
        using inv Cons by (fastforce simp: refs_inv_def removes_inv_def remove_ok_def)
      then show ?thesis
        using remove_msg_refs [OF inv, of w t ms] live Cons Idle MsgTimerRemove
        by (simp add: msg_step_def)
    next
      case (MsgTimerExpire w)
      then have "refs_inv (s\<lparr>msgq := ms\<rparr>)"
        using refs_inv_pop_msg inv Cons by blast
      then show ?thesis
        using pop_timer_refs [of "s\<lparr>msgq := ms\<rparr>" w] live Cons Idle MsgTimerExpire
        by (simp add: msg_step_def split: prod.splits)
    qed
  qed
next
  case (Popped w now popped)
  show ?thesis
  proof (cases popped)
    case None
    then show ?thesis
      using inv Popped refs_inv_pc [of _ Idle]
        refs_inv_set_container [of "updateSoonestTime None (containers s w)" s w]
      by (simp add: msg_step_def)
  next
    case (Some t)
    then have "delegates s (timer_ptr t) \<noteq> None"
      using inv Popped by (simp add: refs_inv_def pc_inv_def)
    then show ?thesis
      using inv Popped Some refs_inv_pc [OF inv, of "PopNext w now"]
        refs_inv_pc [OF inv, of "Stopping w now c" for c]
      by (auto simp: msg_step_def split: option.splits)
  qed
next
  case (Stopping w now c)
  show ?thesis
  proof (cases "clients s c")
    case None
    then show ?thesis
      using Stopping by (simp add: msg_step_def LocTimer_stop_def)
  next
    case (Some L)
    then show ?thesis
    proof (rule stop_refs [OF inv])
      fix b s'
      assume "LocTimer_stop c s = Inr (b, s')" and "refs_inv s'"
      then show ?thesis
        using Stopping refs_inv_pc [of s'] by (simp add: msg_step_def)
    qed
  qed
next
  case (Calling w now c)
  then show ?thesis
    using refs_inv_pc [OF inv, of "PopNext w now"] by (simp add: msg_step_def)
next
  case (PopNext w now)
  have live: "nodes_live s w"
    using inv nodes_inv_live by (auto simp: refs_inv_def)
  show ?thesis
  proof (cases "popIfOutRanks now (containers s w)")
    case (Pair popped c)
    have "refs_inv ((set_container w c s)\<lparr>pc := Popped w now popped\<rparr>)"
    proof (cases "pop_timer (containers s w) = (popped, c)")
      case True
      then show ?thesis
        using pop_timer_refs [OF inv] by blast
    next
      case False
      then have "popped = None" "c = containers s w"
        using Pair by (auto simp: popIfOutRanks_def split: option.splits if_splits)
      then show ?thesis
        using inv refs_inv_pc [of "set_container w c s"] refs_inv_set_container [of c s w]
        by simp
    qed
    then show ?thesis
      using PopNext live Pair by (simp add: msg_step_def)
  qed
qed

lemma poll_step_refs: "refs_inv s \<Longrightarrow> refs_inv (poll_step s)"
proof (cases "poll_todo s")
  case (Cons a todo)
  assume inv: "refs_inv s"
  then have "refs_inv (s\<lparr>poll_todo := todo\<rparr>)"
    by simp
  then show ?thesis
    using Cons refs_inv_expire_msg
    by (cases a) (simp_all add: poll_step_def refs_inv_set_container timerfd_settime_def
        removePoll_def)
qed (simp add: poll_step_def)

lemma step_refs:
  assumes inv: "refs_inv s" and ok: "event_ok s e"
  shows "case timer_step e s of Inl err \<Rightarrow> err = ClientFreed \<and> (\<exists>clock. e = MsgStep clock)
    | Inr s' \<Rightarrow> refs_inv s'"
proof (cases e)
  case (New c)
  then show ?thesis
    using new_client_refs [OF inv] by simp
next
  case (Start c ms wake now d fd_ok)
  then obtain L where L: "clients s c = Some L"
    using ok by auto
  obtain got s1 where get: "container_get fd_ok wake s = (got, s1)"
    by fastforce
  have s1: "refs_inv s1" "clients s1 = clients s" "delegates s1 = delegates s"
    using get inv refs_inv_set_container [of "containers s wake\<lparr>created := True\<rparr>" s wake]
    by (auto simp: container_get_def split: if_splits)
  obtain t s2 where new: "new_delegate d c (future_time now ms) wake s1 = (t, s2)"
    by fastforce
  then have s2: "clients s2 = clients s1"
    by (auto simp: new_delegate_def Let_def sendMsg_def)
  show ?thesis
  proof (cases "mTimer L")
    case (Some t)
    then show ?thesis
      using Start L inv by (simp add: LocTimer_start_def)
  next
    case None
    have "refs_inv (s2\<lparr>clients := (clients s1)(c \<mapsto> L\<lparr>mTimer := Some t\<rparr>)\<rparr>)"
      using new_delegate_refs [OF s1(1) _ _ _ None new] ok L Start s1 by simp
    then show ?thesis
      using Start L None get new s1(1) s2 by (simp add: LocTimer_start_def)
  qed
next
  case (Stop c)
  then obtain L where "clients s c = Some L"
    using ok by auto
  then show ?thesis
    by (rule stop_refs [OF inv]) (simp add: Stop)
next
  case (Delete c)
  then obtain L where "clients s c = Some L"
    using ok by auto
  then show ?thesis
  proof (rule stop_refs [OF inv])
    fix b s'
    assume stop: "LocTimer_stop c s = Inr (b, s')" and s': "refs_inv s'"
    have "refs_inv (s''\<lparr>clients := (clients s')(c := None)\<rparr>)"
      if "s'' = (if b then record_obs (Stopped c) s' else s')" for s''
    proof -
      have "refs_inv s''" "clients s'' = clients s'"
        using that s' by (simp, simp add: record_obs_def)
      then show ?thesis
        using delete_client_refs [of s'' c] by simp
    qed
    then show ?thesis
      using stop Delete by simp
  qed
next
  case (MsgStep clock)
  then show ?thesis
    using msg_step_refs [OF inv, of clock] by (simp split: sum.splits)
next
  case (EpollWait clock ws)
  then show ?thesis
    using inv by (simp add: epoll_return_def)
next
  case PollStep
  then show ?thesis
    using poll_step_refs inv by simp
qed

lemma reachable_refs: "timers_reachable s \<Longrightarrow> refs_inv s"
proof (induction rule: timers_reachable.induct)
  case timers_init
  then show ?case
    by (rule init_refs)
next
  case (timers_next s e s')
  then show ?case
    using step_refs [of s e] by simp
qed

section \<open>No timer is forgotten\<close>

text \<open>
  The kernel timer of a container is armed for its soonest timer and polled, unless an expiry
  of that container is being handled somewhere: by the poll thread, in the message queue, or
  by the message thread.
\<close>

definition armed_for_top :: "container \<Rightarrow> bool" where
  "armed_for_top c \<longleftrightarrow>
    (\<forall>t. getSoonestTimer c = Some t \<longrightarrow> timerfd c = Some (mFutureTime t) \<and> polled c)"

fun pc_container :: "msg_pc \<Rightarrow> bool option" where
  "pc_container Idle = None"
| "pc_container (Popped w now t) = Some w"
| "pc_container (Stopping w now c) = Some w"
| "pc_container (Calling w now c) = Some w"
| "pc_container (PopNext w now) = Some w"

definition expiring :: "bool \<Rightarrow> timer_state \<Rightarrow> bool" where
  "expiring w s \<longleftrightarrow> MsgTimerExpire w \<in> set (msgq s) \<or> SendExpire w \<in> set (poll_todo s)
    \<or> pc_container (pc s) = Some w"

fun todo_ok :: "poll_action list \<Rightarrow> bool" where
  "todo_ok [] = True"
| "todo_ok (Disarm w # todo) = (SendExpire w \<in> set todo \<and> todo_ok todo)"
| "todo_ok (RemovePoll w # todo) = (SendExpire w \<in> set todo \<and> todo_ok todo)"
| "todo_ok (SendExpire w # todo) = todo_ok todo"

definition wakeup_inv :: "timer_state \<Rightarrow> bool" where
  "wakeup_inv s \<longleftrightarrow>
    (\<forall>w. armed_for_top (containers s w) \<or> expiring w s) \<and> todo_ok (poll_todo s)"

lemma valid_time_armed: "valid_time t \<Longrightarrow> \<not> (tv_sec t = 0 \<and> tv_nsec t = 0)"
  by (auto simp: valid_time_def nanos_def)

lemma top_in_heap: "getSoonestTimer c = Some t \<Longrightarrow> t \<in># elements (mTree c)"
  by (auto simp: getSoonestTimer_def heap_peek_def split: loc_heap.splits)

lemma update_armed:
  assumes "\<forall>x \<in># elements (mTree c). valid_timer x" and "getSoonestTimer c \<noteq> None"
  shows "armed_for_top (updateSoonestTime None c)"
proof -
  obtain t where t: "getSoonestTimer c = Some t"
    using assms(2) by auto
  then have "valid_time (mFutureTime t)"
    using assms(1) top_in_heap by (auto simp: valid_timer_def)
  then show ?thesis
    using t valid_time_armed
    by (auto simp: armed_for_top_def updateSoonestTime_def timerfd_settime_def addPoll_def
        getSoonestTimer_def)
qed

lemma update_armed_None:
  assumes "\<forall>x \<in># elements (mTree c). valid_timer x"
  shows "armed_for_top (updateSoonestTime None c)"
proof (cases "getSoonestTimer c")
  case None
  then have "getSoonestTimer (updateSoonestTime None c) = None"
    by (simp add: getSoonestTimer_def)
  then show ?thesis
    by (simp add: armed_for_top_def)
next
  case (Some t)
  then show ?thesis
    using update_armed assms by simp
qed

lemma push_top:
  "heap_peek (heap_push ranks x t) =
    Some (case heap_peek t of None \<Rightarrow> x | Some d \<Rightarrow> if outRanks ranks x d then x else d)"
  by (cases t) (auto simp: heap_push_def heap_peek_def new_heap_node_def Let_def)

lemma push_armed:
  assumes armed: "armed_for_top c" and valid: "valid_timer t"
    and others: "\<forall>x \<in># elements (mTree c). valid_timer x"
  shows "armed_for_top (push_timer t c)"
proof -
  let ?c = "c\<lparr>mTree := heap_push timer_ranks t (mTree c)\<rparr>"
  have nonzero: "\<not> (tv_sec (mFutureTime t) = 0 \<and> tv_nsec (mFutureTime t) = 0)"
    using valid valid_time_armed by (simp add: valid_timer_def)
  show ?thesis
  proof (cases "getSoonestTimer c")
    case None
    have "getSoonestTimer ?c = Some t"
      using None by (simp add: getSoonestTimer_def push_top)
    then show ?thesis
      using None nonzero
      by (auto simp: push_timer_def updateSoonestTime_def armed_for_top_def Let_def
          timerfd_settime_def addPoll_def getSoonestTimer_def)
  next
    case (Some d)
    show ?thesis
    proof (cases "outRanks timer_ranks t d")
      case True
      have "getSoonestTimer ?c = Some t"
        using Some True by (simp add: getSoonestTimer_def push_top)
      moreover have "t \<noteq> d"
        using True valid timers.irrefl by blast
      ultimately show ?thesis
        using Some True nonzero
        by (auto simp: push_timer_def updateSoonestTime_def armed_for_top_def Let_def
            timerfd_settime_def addPoll_def getSoonestTimer_def)
    next
      case False
      have "getSoonestTimer ?c = Some d"
        using Some False by (simp add: getSoonestTimer_def push_top)
      then have "push_timer t c = ?c"
        using Some by (simp add: push_timer_def updateSoonestTime_def)
      then show ?thesis
        using armed Some \<open>getSoonestTimer ?c = Some d\<close> by (simp add: armed_for_top_def)
    qed
  qed
qed

lemma remove_top:
  assumes "heap_remove ranks x t = (res, t')" and "heap_peek t \<noteq> res"
  shows "heap_peek t' = heap_peek t"
proof (cases t)
  case Null
  then show ?thesis
    using assms by (simp add: heap_remove_def)
next
  case (LocHeapNode n l d r)
  then have "x \<noteq> d"
    using assms node_pop_elements(1) [of ranks t res t']
    by (auto simp: heap_remove_def heap_peek_def)
  then show ?thesis
    using assms(1) LocHeapNode
    by (auto simp: heap_remove_def heap_peek_def Let_def split: if_splits prod.splits)
qed

lemma remove_armed:
  assumes armed: "armed_for_top c"
    and inv: "heap_inv timer_ranks valid_timer (mTree c)"
  shows "armed_for_top (remove_timer t c)"
proof -
  obtain res tree where rem: "heap_remove timer_ranks t (mTree c) = (res, tree)"
    by fastforce
  show ?thesis
  proof (cases "getSoonestTimer c = res")
    case True
    have "\<forall>x \<in># elements tree. valid_timer x"
      using timers.remove_inv [OF inv rem] by (simp add: heap_inv_def all_valid_def)
    then show ?thesis
      using True rem update_armed_None [of "c\<lparr>mTree := tree\<rparr>"] by (simp add: remove_timer_def)
  next
    case False
    then have "heap_peek tree = heap_peek (mTree c)"
      using remove_top [OF rem] by (simp add: getSoonestTimer_def)
    then show ?thesis
      using False rem armed
      by (simp add: remove_timer_def armed_for_top_def getSoonestTimer_def)
  qed
qed

lemma wakeup_frame:
  assumes "wakeup_inv s"
    and "\<And>w. armed_for_top (containers s w) \<Longrightarrow> armed_for_top (containers s' w)"
    and "set (msgq s) \<subseteq> set (msgq s')"
    and "poll_todo s' = poll_todo s" and "pc_container (pc s') = pc_container (pc s)"
  shows "wakeup_inv s'"
  using assms by (auto simp: wakeup_inv_def expiring_def)

lemma stop_frame:
  assumes "refs_inv s" and "LocTimer_stop c s = Inr (b, s')"
  shows "containers s' = containers s" and "set (msgq s) \<subseteq> set (msgq s')"
    and "poll_todo s' = poll_todo s" and "pc s' = pc s" and "history s' = history s"
proof -
  obtain L where L: "clients s c = Some L"
    using assms(2) by (auto simp: LocTimer_stop_def split: option.splits)
  have "s' = s \<or> (\<exists>t w. s' = orphan c L t w s)"
  proof (cases "mTimer L")
    case None
    then show ?thesis
      using assms(2) L by (simp add: LocTimer_stop_def)
  next
    case (Some t)
    show ?thesis
    proof (rule stop_ticking [OF assms(1) L Some])
      fix w
      assume "LocTimer_stop c s = Inr (True, orphan c L t w s)"
      then show ?thesis
        using assms(2) by auto
    qed
  qed
  then show "containers s' = containers s" "set (msgq s) \<subseteq> set (msgq s')"
    "poll_todo s' = poll_todo s" "pc s' = pc s" "history s' = history s"
    by (auto simp: orphan_def)
qed

lemma start_frame:
  assumes "LocTimer_start c ms w now d fd_ok s = Inr (b, s')"
  shows "armed_for_top (containers s w') \<Longrightarrow> armed_for_top (containers s' w')"
    and "set (msgq s) \<subseteq> set (msgq s')"
    and "poll_todo s' = poll_todo s" and "pc s' = pc s" and "history s' = history s"
  using assms
  by (auto simp: LocTimer_start_def container_get_def new_delegate_def sendMsg_def Let_def
      armed_for_top_def getSoonestTimer_def split: option.splits if_splits)

lemma msg_step_wakeup:
  assumes wake: "wakeup_inv s" and inv: "refs_inv s" and step: "msg_step clock s = Inr s'"
  shows "wakeup_inv s'"
proof -
  have heap: "heap_inv timer_ranks valid_timer (mTree (containers s w))" for w
    using inv by (simp add: refs_inv_def heaps_inv_def)
  have valid: "\<forall>x \<in># elements (mTree (containers s w)). valid_timer x" for w
    using heap by (simp add: heap_inv_def all_valid_def)
  have others: "armed_for_top (containers s w) \<or> expiring w s" "todo_ok (poll_todo s)" for w
    using wake by (simp_all add: wakeup_inv_def)
  show ?thesis
  proof (cases "pc s")
    case Idle
    show ?thesis
    proof (cases "msgq s")
      case Nil
      then show ?thesis
        using step Idle wake by (simp add: msg_step_def)
    next
      case (Cons m ms)
      show ?thesis
      proof (cases m)
        case (MsgTimerPush w t)
        then have "t \<in># in_container w s"
          using Cons by (simp add: in_container_def)
        then have "valid_timer t"
          using inv by (fastforce simp: refs_inv_def nodes_inv_def node_ok_def)
        then have "armed_for_top (containers s w) \<Longrightarrow>
            armed_for_top (push_timer t (containers s w))"
          using push_armed valid by blast
        moreover have "s' = set_container w (push_timer t (containers s w)) (s\<lparr>msgq := ms\<rparr>)"
          using step Idle Cons MsgTimerPush by (simp add: msg_step_def split: if_splits)
        ultimately show ?thesis
          using others Cons MsgTimerPush Idle
          by (fastforce simp: wakeup_inv_def expiring_def)
      next
        case (MsgTimerRemove w t)
        have "armed_for_top (containers s w) \<Longrightarrow>
            armed_for_top (remove_timer t (containers s w))"
          using remove_armed heap by blast
        moreover have "containers s' = containers
            (set_container w (remove_timer t (containers s w)) (s\<lparr>msgq := ms\<rparr>))"
          "msgq s' = ms" "poll_todo s' = poll_todo s" "pc s' = pc s"
          using step Idle Cons MsgTimerRemove by (auto simp: msg_step_def split: if_splits)
        ultimately show ?thesis
          using others Cons MsgTimerRemove Idle
          by (fastforce simp: wakeup_inv_def expiring_def)
      next
        case (MsgTimerExpire w)
        obtain popped c where pop: "pop_timer (containers s w) = (popped, c)"
          by fastforce
        then have "s' = (set_container w c (s\<lparr>msgq := ms\<rparr>))\<lparr>pc := Popped w clock popped\<rparr>"
          using step Idle Cons MsgTimerExpire by (auto simp: msg_step_def split: if_splits)
        then show ?thesis
          using others Cons MsgTimerExpire Idle
          by (fastforce simp: wakeup_inv_def expiring_def)
      qed
    qed
  next
    case (Popped w now popped)
    show ?thesis
    proof (cases popped)
      case None
      then have "s' = (set_container w (updateSoonestTime None (containers s w)) s)\<lparr>pc := Idle\<rparr>"
        using step Popped by (simp add: msg_step_def)
      moreover have "armed_for_top (updateSoonestTime None (containers s w))"
        using update_armed_None valid by blast
      ultimately show ?thesis
        using others Popped by (fastforce simp: wakeup_inv_def expiring_def)
    next
      case (Some t)
      then show ?thesis
        using step Popped
        by (intro wakeup_frame [OF wake]) (auto simp: msg_step_def split: option.splits)
    qed
  next
    case (Stopping w now c)
    then obtain b s1 where stop: "LocTimer_stop c s = Inr (b, s1)"
      and s': "s' = s1\<lparr>pc := (if b then Calling w now c else PopNext w now)\<rparr>"
      using step by (auto simp: msg_step_def split: sum.splits)
    show ?thesis
      using stop_frame [OF inv stop] Stopping
      by (intro wakeup_frame [OF wake]) (auto simp: s')
  next
    case (Calling w now c)
    then show ?thesis
      using step
      by (intro wakeup_frame [OF wake]) (auto simp: msg_step_def record_obs_def split: if_splits)
  next
    case (PopNext w now)
    obtain popped c where pop: "popIfOutRanks now (containers s w) = (popped, c)"
      by fastforce
    then have "s' = (set_container w c s)\<lparr>pc := Popped w now popped\<rparr>"
      using step PopNext by (auto simp: msg_step_def split: if_splits)
    then show ?thesis
      using others PopNext by (fastforce simp: wakeup_inv_def expiring_def)
  qed
qed

lemma poll_step_wakeup:
  assumes "wakeup_inv s"
  shows "wakeup_inv (poll_step s)"
proof (cases "poll_todo s")
  case (Cons a todo)
  have others: "armed_for_top (containers s w) \<or> expiring w s" "todo_ok (poll_todo s)" for w
    using assms by (simp_all add: wakeup_inv_def)
  show ?thesis
    using others Cons
    by (cases a) (fastforce simp: wakeup_inv_def expiring_def poll_step_def sendMsg_def)+
qed (use assms in \<open>simp add: poll_step_def\<close>)

lemma todo_ok_concat:
  "todo_ok (concat (List.map (\<lambda>w. [Disarm w, RemovePoll w, SendExpire w]) ws))"
  by (induction ws) auto

lemma step_wakeup:
  assumes wake: "wakeup_inv s" and inv: "refs_inv s" and step: "timer_step e s = Inr s'"
  shows "wakeup_inv s'"
proof (cases e)
  case (New c)
  then show ?thesis
    using step by (intro wakeup_frame [OF wake]) auto
next
  case (Start c ms w now d fd_ok)
  then obtain b s1 where "LocTimer_start c ms w now d fd_ok s = Inr (b, s1)"
    and "s' = (if b then record_obs (Started c) s1 else s1)"
    using step by (auto split: sum.splits)
  then show ?thesis
    using start_frame [of c ms w now d fd_ok s b s1]
    by (intro wakeup_frame [OF wake]) (auto simp: record_obs_def)
next
  case (Stop c)
  then obtain b s1 where stop: "LocTimer_stop c s = Inr (b, s1)"
    and s': "s' = (if b then record_obs (Stopped c) s1 else s1)"
    using step by (auto split: sum.splits)
  show ?thesis
    using stop_frame [OF inv stop] by (intro wakeup_frame [OF wake]) (auto simp: s' record_obs_def)
next
  case (Delete c)
  then obtain b s1 where stop: "LocTimer_stop c s = Inr (b, s1)"
    and s': "s' = (if b then record_obs (Stopped c) s1 else s1)\<lparr>clients := (clients s1)(c := None)\<rparr>"
    using step by (auto split: sum.splits)
  show ?thesis
    using stop_frame [OF inv stop] by (intro wakeup_frame [OF wake]) (auto simp: s' record_obs_def)
next
  case (MsgStep clock)
  then show ?thesis
    using msg_step_wakeup [OF wake inv] step by simp
next
  case (EpollWait clock ws)
  then have s': "s' = epoll_return clock ws s"
    using step by simp
  then show ?thesis
    using wake todo_ok_concat by (auto simp: epoll_return_def wakeup_inv_def expiring_def)
next
  case PollStep
  then show ?thesis
    using poll_step_wakeup [OF wake] step by simp
qed

lemma reachable_wakeup: "timers_reachable s \<Longrightarrow> wakeup_inv s"
proof (induction rule: timers_reachable.induct)
  case timers_init
  then show ?case
    by (simp add: wakeup_inv_def armed_for_top_def getSoonestTimer_def heap_peek_def
        init_timers_def init_container_def)
next
  case (timers_next s e s')
  then show ?case
    using step_wakeup reachable_refs by blast
qed

section \<open>How a started timer ends\<close>

definition ticking :: "addr \<Rightarrow> timer_state \<Rightarrow> nat" where
  "ticking c s =
    (case clients s c of None \<Rightarrow> 0 | Some L \<Rightarrow> if mTimer L = None then 0 else 1)"

fun pc_calls :: "addr \<Rightarrow> msg_pc \<Rightarrow> nat" where
  "pc_calls c (Calling w now c') = (if c' = c then 1 else 0)"
| "pc_calls c p = 0"

definition seen :: "timer_obs \<Rightarrow> timer_state \<Rightarrow> nat" where
  "seen ob s = count_list (history s) ob"

definition count_inv :: "timer_state \<Rightarrow> bool" where
  "count_inv s \<longleftrightarrow> (\<forall>c. seen (Started c) s =
     seen (Stopped c) s + seen (TimedOut c) s + ticking c s + pc_calls c (pc s))"

lemma stop_ticks:
  assumes "refs_inv s" and "LocTimer_stop c s = Inr (b, s')"
  shows "ticking c' s = ticking c' s' + (if b \<and> c' = c then 1 else 0)"
    and "clients s' c \<noteq> None" and "ticking c s' = 0"
proof -
  obtain L where L: "clients s c = Some L"
    using assms(2) by (auto simp: LocTimer_stop_def split: option.splits)
  show "ticking c' s = ticking c' s' + (if b \<and> c' = c then 1 else 0)"
    "clients s' c \<noteq> None" "ticking c s' = 0" for c'
  proof -
    have "(ticking c' s = ticking c' s' + (if b \<and> c' = c then 1 else 0))
      \<and> clients s' c \<noteq> None \<and> ticking c s' = 0"
    proof (cases "mTimer L")
      case None
      then show ?thesis
        using assms(2) L by (auto simp: LocTimer_stop_def ticking_def)
    next
      case (Some t)
      show ?thesis
      proof (rule stop_ticking [OF assms(1) L Some])
        fix w
        assume "LocTimer_stop c s = Inr (True, orphan c L t w s)"
        then show ?thesis
          using assms(2) L Some by (auto simp: ticking_def orphan_def)
      qed
    qed
    then show "ticking c' s = ticking c' s' + (if b \<and> c' = c then 1 else 0)"
      "clients s' c \<noteq> None" "ticking c s' = 0"
      by blast+
  qed
qed

lemma start_ticks:
  assumes "LocTimer_start c ms w now d fd_ok s = Inr (b, s')"
  shows "ticking c' s' = ticking c' s + (if b \<and> c' = c then 1 else 0)"
  using assms
  by (auto simp: LocTimer_start_def ticking_def container_get_def new_delegate_def sendMsg_def
      Let_def split: option.splits if_splits)

lemma seen_record:
  "seen ob (record_obs ob' s) = seen ob s + (if ob' = ob then 1 else 0)"
  by (simp add: seen_def record_obs_def)

lemma record_obs_simps [simp]:
  "ticking c (record_obs ob s) = ticking c s" "pc (record_obs ob s) = pc s"
  "clients (record_obs ob s) = clients s"
  by (simp_all add: record_obs_def ticking_def)

lemma count_frame:
  assumes "count_inv s" and "history s' = history s" and "clients s' = clients s"
    and "\<And>c. pc_calls c (pc s') = pc_calls c (pc s)"
  shows "count_inv s'"
  using assms by (simp add: count_inv_def seen_def ticking_def)

lemma msg_proc_frame:
  assumes "msg_proc now m s = Inr s'"
  shows "history s' = history s" and "clients s' = clients s"
    and "pc s = Idle \<Longrightarrow> pc_calls c (pc s') = 0"
proof -
  have "history s' = history s \<and> clients s' = clients s
    \<and> (pc s = Idle \<longrightarrow> pc_calls c (pc s') = 0)"
    using assms by (cases m) (auto split: if_splits prod.splits)
  then show "history s' = history s" "clients s' = clients s"
    "pc s = Idle \<Longrightarrow> pc_calls c (pc s') = 0"
    by auto
qed

lemma msg_step_count:
  assumes count: "count_inv s" and inv: "refs_inv s" and step: "msg_step clock s = Inr s'"
  shows "count_inv s'"
proof (cases "pc s")
  case Idle
  show ?thesis
  proof (cases "msgq s")
    case Nil
    then show ?thesis
      using step Idle count by (simp add: msg_step_def)
  next
    case (Cons m ms)
    then show ?thesis
      using step Idle msg_proc_frame [of clock m "s\<lparr>msgq := ms\<rparr>" s']
      by (intro count_frame [OF count]) (simp_all add: msg_step_def)
  qed
next
  case (Popped w now popped)
  then show ?thesis
    using step
    by (intro count_frame [OF count]) (auto simp: msg_step_def split: option.splits)
next
  case (Stopping w now c)
  then obtain b s1 where stop: "LocTimer_stop c s = Inr (b, s1)"
    and s': "s' = s1\<lparr>pc := (if b then Calling w now c else PopNext w now)\<rparr>"
    using step by (auto simp: msg_step_def split: sum.splits)
  have "ticking c' s' = ticking c' s1" "seen ob s' = seen ob s" for c' ob
    using stop_frame(5) [OF inv stop] by (simp_all add: s' ticking_def seen_def)
  then show ?thesis
    using count Stopping stop_ticks(1) [OF inv stop] by (auto simp: count_inv_def s')
next
  case (Calling w now c)
  then have "s' = record_obs (TimedOut c) (s\<lparr>pc := PopNext w now\<rparr>)"
    using step by (simp add: msg_step_def split: if_splits)
  moreover have "ticking c' (s\<lparr>pc := PopNext w now\<rparr>) = ticking c' s"
    "seen ob (s\<lparr>pc := PopNext w now\<rparr>) = seen ob s" for c' ob
    by (simp_all add: ticking_def seen_def)
  ultimately show ?thesis
    using count Calling by (auto simp: count_inv_def seen_record)
next
  case (PopNext w now)
  then show ?thesis
    using step
    by (intro count_frame [OF count]) (auto simp: msg_step_def split: if_splits prod.splits)
qed

lemma poll_step_frame:
  "history (poll_step s) = history s" "clients (poll_step s) = clients s"
  "pc (poll_step s) = pc s"
proof -
  have "history (poll_act a s) = history s \<and> clients (poll_act a s) = clients s
    \<and> pc (poll_act a s) = pc s" for a s
    by (cases a) (simp_all add: sendMsg_def)
  then show "history (poll_step s) = history s" "clients (poll_step s) = clients s"
    "pc (poll_step s) = pc s"
    by (auto simp: poll_step_def split: list.splits)
qed

lemma step_count:
  assumes count: "count_inv s" and inv: "refs_inv s" and ok: "event_ok s e"
    and step: "timer_step e s = Inr s'"
  shows "count_inv s'"
proof (cases e)
  case (New c)
  then show ?thesis
    using step count ok by (auto simp: count_inv_def seen_def ticking_def)
next
  case (Start c ms w now d fd_ok)
  then obtain b s1 where start: "LocTimer_start c ms w now d fd_ok s = Inr (b, s1)"
    and s': "s' = (if b then record_obs (Started c) s1 else s1)"
    using step by (auto split: sum.splits)
  have "seen ob s1 = seen ob s" for ob
    using start_frame(5) [OF start] by (simp add: seen_def)
  then show ?thesis
    using count start_ticks [OF start] start_frame(4) [OF start]
    by (auto simp: count_inv_def s' seen_record)
next
  case (Stop c)
  then obtain b s1 where stop: "LocTimer_stop c s = Inr (b, s1)"
    and s': "s' = (if b then record_obs (Stopped c) s1 else s1)"
    using step by (auto split: sum.splits)
  have "seen ob s1 = seen ob s" for ob
    using stop_frame(5) [OF inv stop] by (simp add: seen_def)
  then show ?thesis
    using count stop_ticks(1) [OF inv stop] stop_frame(4) [OF inv stop]
    by (auto simp: count_inv_def s' seen_record)
next
  case (Delete c)
  then obtain b s1 where stop: "LocTimer_stop c s = Inr (b, s1)"
    and s': "s' = (if b then record_obs (Stopped c) s1 else s1)\<lparr>clients := (clients s1)(c := None)\<rparr>"
    using step by (auto split: sum.splits)
  let ?s2 = "if b then record_obs (Stopped c) s1 else s1"
  have "seen ob s1 = seen ob s" for ob
    using stop_frame(5) [OF inv stop] by (simp add: seen_def)
  then have "count_inv ?s2"
    using count stop_ticks(1) [OF inv stop] stop_frame(4) [OF inv stop]
    by (auto simp: count_inv_def seen_record)
  moreover have "ticking c' s' = ticking c' ?s2" "seen ob s' = seen ob ?s2" "pc s' = pc ?s2"
    for c' ob
    using stop_ticks(3) [OF inv stop] by (auto simp: s' ticking_def seen_def)
  ultimately show ?thesis
    by (simp add: count_inv_def)
next
  case (MsgStep clock)
  then show ?thesis
    using msg_step_count [OF count inv] step by simp
next
  case (EpollWait clock ws)
  then show ?thesis
    using step by (intro count_frame [OF count]) (auto simp: epoll_return_def)
next
  case PollStep
  then show ?thesis
    using step by (intro count_frame [OF count]) (auto simp: poll_step_frame)
qed

lemma reachable_count: "timers_reachable s \<Longrightarrow> count_inv s"
proof (induction rule: timers_reachable.induct)
  case timers_init
  then show ?case
    by (simp add: count_inv_def seen_def ticking_def init_timers_def)
next
  case (timers_next s e s')
  then show ?case
    using step_count reachable_refs by blast
qed

lemma run_reachable:
  "timers_reachable s \<Longrightarrow> schedule_ok es s \<Longrightarrow> run_timers es s = Inr s' \<Longrightarrow> timers_reachable s'"
proof (induction es arbitrary: s)
  case (Cons e es)
  then obtain s1 where step: "timer_step e s = Inr s1"
    by (auto split: sum.splits)
  then have "timers_reachable s1"
    using Cons.prems timers_next [of s e s1] by simp
  then show ?case
    using Cons step by simp
qed simp

end
