(* ===== verification/LocTimerProperties.thy ===== *)
theory LocTimerProperties
  imports LocTimerInvariants
begin

text \<open>
  The properties of the timer service: the invariants over all interleavings, what an expiry
  pops, the arithmetic of deadlines, and two schedules that go wrong.
\<close>

section \<open>What an expiry pops\<close>

text \<open>
  The loop of \<open>MsgTimerExpire::proc\<close> as far as the heap sees it (only the message thread
  touches the heap): an unconditional pop, then pops while the top is due.
\<close>

lemma pop_timer_size:
  "pop_timer c = (Some t, c') \<Longrightarrow> size (elements (mTree c')) < size (elements (mTree c))"
  using node_pop_size [of timer_ranks "mTree c"]
  by (fastforce simp: pop_timer_def heap_pop_def split: if_splits prod.splits)

lemma popIfOutRanks_size:
  "popIfOutRanks now c = (Some t, c') \<Longrightarrow>
    size (elements (mTree c')) < size (elements (mTree c))"
  using pop_timer_size by (auto simp: popIfOutRanks_def split: option.splits if_splits)

function pop_due :: "timespec \<Rightarrow> container \<Rightarrow> timer list \<times> container" where
  "pop_due now c =
    (case popIfOutRanks now c of
       (None, c') \<Rightarrow> ([], c')
     | (Some t, c') \<Rightarrow> (let (ts, c'') = pop_due now c' in (t # ts, c'')))"
  by pat_completeness auto
termination
  by (relation "measure (\<lambda>(now, c). size (elements (mTree c)))")
    (auto intro: popIfOutRanks_size sym)

declare pop_due.simps [simp del]

definition expire_pops :: "timespec \<Rightarrow> container \<Rightarrow> timer list \<times> container" where
  "expire_pops now c =
    (case pop_timer c of
       (None, c') \<Rightarrow> ([], c')
     | (Some t, c') \<Rightarrow> (let (ts, c'') = pop_due now c' in (t # ts, c'')))"

definition deadline :: "timer \<Rightarrow> nat" where
  "deadline t = nanos (mFutureTime t)"

abbreviation container_inv :: "container \<Rightarrow> bool" where
  "container_inv c \<equiv> heap_inv timer_ranks valid_timer (mTree c)"

lemma heap_valid: "container_inv c \<Longrightarrow> x \<in># elements (mTree c) \<Longrightarrow> valid_timer x"
  by (simp add: heap_inv_def all_valid_def)

lemma soonest:
  assumes "container_inv c" and "heap_peek (mTree c) = Some t"
  shows "t \<in># elements (mTree c) \<and> (\<forall>x \<in># elements (mTree c). deadline t \<le> deadline x)"
proof -
  have "t \<in># elements (mTree c)" "\<forall>x \<in># elements (mTree c). \<not> outRanks timer_ranks x t"
    using timers.peek_best [OF assms] by auto
  then show ?thesis
    using heap_valid [OF assms(1)] timer_ranks_sign by (fastforce simp: deadline_def)
qed

lemma pop_timer_spec:
  assumes "container_inv c" and "pop_timer c = (popped, c')"
  shows "container_inv c'" and "popped = heap_peek (mTree c)"
    and "elements (mTree c) =
      elements (mTree c') + (case popped of None \<Rightarrow> {#} | Some t \<Rightarrow> {#t#})"
proof -
  obtain tree where tree: "heap_pop timer_ranks (mTree c) = (popped, tree)"
    and c': "c' = c\<lparr>mTree := tree\<rparr>"
    using assms(2) by (auto simp: pop_timer_def split: prod.splits)
  show "container_inv c'"
    using timers.pop_inv [OF assms(1) tree] by (simp add: c')
  have "popped = heap_peek (mTree c) \<and> elements (mTree c) =
      elements tree + (case popped of None \<Rightarrow> {#} | Some t \<Rightarrow> {#t#})"
  proof (cases "mTree c")
    case Null
    then show ?thesis
      using tree by (simp add: heap_pop_def heap_peek_def)
  next
    case (LocHeapNode n l d r)
    then have "node_pop timer_ranks (mTree c) = (popped, tree)" "mTree c \<noteq> Null"
      using tree by (simp_all add: heap_pop_def)
    from node_pop_elements [OF this] show ?thesis
      using LocHeapNode by (simp add: heap_peek_def)
  qed
  then show "popped = heap_peek (mTree c)" "elements (mTree c) =
      elements (mTree c') + (case popped of None \<Rightarrow> {#} | Some t \<Rightarrow> {#t#})"
    by (simp_all add: c')
qed

lemma popIfOutRanks_spec:
  assumes inv: "container_inv c" and now: "valid_time now"
    and pop: "popIfOutRanks now c = (popped, c')"
  shows "case popped of
      None \<Rightarrow> c' = c \<and> (\<forall>x \<in># elements (mTree c). nanos now < deadline x)
    | Some t \<Rightarrow> container_inv c' \<and> elements (mTree c) = add_mset t (elements (mTree c'))
        \<and> deadline t \<le> nanos now \<and> (\<forall>x \<in># elements (mTree c). deadline t \<le> deadline x)"
proof (cases "heap_peek (mTree c)")
  case None
  then have "elements (mTree c) = {#}"
    by (cases "mTree c") (auto simp: heap_peek_def)
  then show ?thesis
    using pop None by (auto simp: popIfOutRanks_def)
next
  case (Some t)
  have best: "t \<in># elements (mTree c)" "\<forall>x \<in># elements (mTree c). deadline t \<le> deadline x"
    using soonest [OF inv Some] by auto
  have ranks: "outRanks timer_ranks \<lparr>timer_ptr = 0, mFutureTime = now\<rparr> t \<longleftrightarrow>
      nanos now < deadline t"
    using timer_ranks_sign [of "\<lparr>timer_ptr = 0, mFutureTime = now\<rparr>" t] now
      heap_valid [OF inv best(1)] by (simp add: valid_timer_def deadline_def)
  show ?thesis
  proof (cases "nanos now < deadline t")
    case True
    then have "popped = None" "c' = c"
      using pop Some ranks by (simp_all add: popIfOutRanks_def)
    then show ?thesis
      using True best by fastforce
  next
    case False
    then have "pop_timer c = (popped, c')"
      using pop Some ranks by (simp add: popIfOutRanks_def)
    from pop_timer_spec [OF inv this] show ?thesis
      using False Some best by simp
  qed
qed

lemma pop_due_spec:
  assumes "container_inv c" and "valid_time now" and "pop_due now c = (ts, c')"
  shows "mset ts + elements (mTree c') = elements (mTree c)
    \<and> (\<forall>t \<in> set ts. deadline t \<le> nanos now)
    \<and> (\<forall>x \<in># elements (mTree c'). nanos now < deadline x)
    \<and> sorted (List.map deadline ts)"
  using assms
proof (induction now c arbitrary: ts c' rule: pop_due.induct)
  case (1 now c)
  obtain popped c1 where pop: "popIfOutRanks now c = (popped, c1)"
    by fastforce
  note spec = popIfOutRanks_spec [OF "1.prems"(1,2) pop]
  show ?case
  proof (cases popped)
    case None
    then show ?thesis
      using spec pop "1.prems"(3) by (simp add: pop_due.simps [of now c])
  next
    case (Some t)
    then obtain ts' where rec: "pop_due now c1 = (ts', c')" and ts: "ts = t # ts'"
      using pop "1.prems"(3)
      by (auto simp: pop_due.simps [of now c] split: prod.splits)
    have IH: "mset ts' + elements (mTree c') = elements (mTree c1)
      \<and> (\<forall>t \<in> set ts'. deadline t \<le> nanos now)
      \<and> (\<forall>x \<in># elements (mTree c'). nanos now < deadline x)
      \<and> sorted (List.map deadline ts')"
      using "1.IH" [OF pop [symmetric] Some] spec Some "1.prems"(2) rec by simp
    have t: "elements (mTree c) = add_mset t (elements (mTree c1))" "deadline t \<le> nanos now"
      "\<forall>x \<in># elements (mTree c). deadline t \<le> deadline x"
      using spec Some by auto
    have "deadline t \<le> deadline x" if "x \<in> set ts'" for x
    proof -
      have "x \<in># elements (mTree c1)"
        using IH that by (metis UnI1 set_mset_mset set_mset_union)
      then show ?thesis
        using t by simp
    qed
    then show ?thesis
      using IH t ts by auto
  qed
qed

section \<open>Deadlines\<close>

lemma unat_uint32: "unat (w :: uint32) < 2 ^ 32"
proof -
  have "unat w < 2 ^ LENGTH(32)"
    by (rule unsigned_less)
  then show ?thesis
    by simp
qed

lemma unat_widen: "unat (ucast (w :: uint32) :: int64) = unat w"
  using unat_uint32 [of w] by (simp add: unsigned_ucast_eq take_bit_nat_eq_self)

lemma unat_small_prod:
  fixes ms :: uint32
  shows "unat ((ms mod 1000) * 1000000) = unat ms mod 1000 * 1000000"
  by (simp add: unat_word_ariths unat_mod)

lemma split_ms:
  fixes s n q r m :: nat
  assumes "q * 1000 + r = m"
  shows "(s + q) * 1000000000 + (n + r * 1000000) = s * 1000000000 + n + m * 1000000"
  unfolding assms [symmetric] by (simp add: algebra_simps)

text \<open>Adding a timeout to a normalised time that is far from the end of 64 bits.\<close>

lemma future_time_nanos:
  assumes "normalised now" and "unat (tv_sec now) < 2 ^ 62"
  shows "normalised (future_time now ms)
    \<and> nanos (future_time now ms) = nanos now + unat ms * 1000000"
proof -
  define sec where "sec = tv_sec now + ucast (ms div 1000)"
  define nsec where "nsec = tv_nsec now + ucast ((ms mod 1000) * 1000000)"
  have ft: "future_time now ms = normalise (now\<lparr>tv_sec := sec, tv_nsec := nsec\<rparr>)"
    by (simp add: future_time_def sec_def nsec_def)
  have ms: "unat ms < 2 ^ 32"
    by (rule unat_uint32)
  have sec: "unat sec = unat (tv_sec now) + unat ms div 1000"
    using assms(2) ms by (simp add: sec_def unat_word_ariths unat_widen unat_div)
  have "unat (tv_nsec now) + unat ms mod 1000 * 1000000 < 2 * 1000000000"
    using assms(1) by (simp add: normalised_def)
  then have nsec: "unat nsec = unat (tv_nsec now) + unat ms mod 1000 * 1000000"
    and small: "unat nsec < 2 * 1000000000"
    by (simp_all add: nsec_def unat_word_ariths unat_widen unat_small_prod)
  have sum: "unat sec * 1000000000 + unat nsec = nanos now + unat ms * 1000000"
    using split_ms [OF div_mult_mod_eq [of "unat ms" 1000]] by (simp add: nanos_def sec nsec)
  have sint: "sint nsec = int (unat nsec)"
    using small by (intro sint_small) simp
  have "sint (1000000000 :: int64) = int 1000000000"
    by simp
  then have le: "1000000000 \<le>s nsec \<longleftrightarrow> 1000000000 \<le> unat nsec"
    unfolding word_sle_eq sint by linarith
  show ?thesis
  proof (cases "1000000000 \<le> unat nsec")
    case True
    define carry rest :: int64 where "carry = word_of_int (sint nsec sdiv 1000000000)"
      and "rest = word_of_int (sint nsec smod 1000000000)"
    have carry: "unat carry = unat nsec div 1000000000"
      and rest: "unat rest = unat nsec mod 1000000000"
      using signed_div_mod_nat [of "unat nsec" 1000000000] small
      by (simp_all add: carry_def rest_def sint unat_of_nat del: of_nat_unat)
    have "unat sec + unat carry < 2 ^ 64"
      using sec small assms(2) ms by (simp add: carry)
    then have "unat (sec + carry) = unat sec + unat carry"
      by (simp add: unat_word_ariths)
    moreover have carried: "future_time now ms = now\<lparr>tv_sec := sec + carry, tv_nsec := rest\<rparr>"
      using True by (simp add: ft normalise_def le carry_def rest_def)
    ultimately have "nanos (future_time now ms) =
        (unat sec + unat nsec div 1000000000) * 1000000000 + unat nsec mod 1000000000"
      by (simp add: nanos_def carry rest)
    also have "\<dots> = unat sec * 1000000000 + unat nsec"
      using div_mult_mod_eq [of "unat nsec" 1000000000] by (simp only: add_mult_distrib add.assoc)
    finally show ?thesis
      using carried sum by (simp add: normalised_def rest)
  next
    case False
    then show ?thesis
      using sum by (simp add: ft normalise_def le normalised_def nanos_def)
  qed
qed

section \<open>Scenarios\<close>

definition at_ms :: "nat \<Rightarrow> timespec" where
  "at_ms n = \<lparr>tv_sec = of_nat (n div 1000), tv_nsec = of_nat (n mod 1000 * 1000000)\<rparr>"

text \<open>
  Client 1 sets a timer of 10 ms, client 2 one of 5 s. At 1010 ms the first is due; the poll
  thread handles the expiry just when client 1 stops its timer.
\<close>

definition premature_schedule :: "timer_event list" where
  "premature_schedule = [New 1, New 2,
     Start 1 10 False (at_ms 1000) 11 True, Start 2 5000 False (at_ms 1000) 12 True,
     MsgStep (at_ms 1001), MsgStep (at_ms 1001),
     EpollWait (at_ms 1010) [False], Stop 1, PollStep, PollStep, PollStep,
     MsgStep (at_ms 1011), MsgStep (at_ms 1011), MsgStep (at_ms 1011), MsgStep (at_ms 1011),
     MsgStep (at_ms 1011)]"

text \<open>
  Client 1's timer expires; the message thread has read the client pointer from the delegate
  when the client destroys its timer.
\<close>

definition destructor_schedule :: "timer_event list" where
  "destructor_schedule = [New 1, Start 1 10 False (at_ms 1000) 11 True, MsgStep (at_ms 1001),
     EpollWait (at_ms 1010) [False], PollStep, PollStep, PollStep,
     MsgStep (at_ms 1011), MsgStep (at_ms 1011), Delete 1, MsgStep (at_ms 1011)]"

lemma at_ms_fields [simp]:
 "n < 1000000 \<Longrightarrow> unat (tv_sec (at_ms n)) = n div 1000"
 "unat (tv_nsec (at_ms n)) = n mod 1000 * 1000000"
  by (simp_all add: at_ms_def unat_word_ariths unat_of_nat)

lemma nanos_at_ms: "n < 1000000 \<Longrightarrow> nanos (at_ms n) = n * 1000000"
  using split_ms [OF div_mult_mod_eq [of n 1000], of 0 0] by (simp add: nanos_def)

lemma normalised_at_ms: "normalised (at_ms n)"
  by (simp add: normalised_def)

lemma valid_at_ms: "0 < n \<Longrightarrow> n < 1000000 \<Longrightarrow> valid_time (at_ms n)"
  by (simp add: valid_time_def normalised_at_ms nanos_at_ms)

lemma timespec_nanos:
  assumes "normalised t" and "normalised u" and "nanos t = nanos u"
  shows "t = u"
proof -
  have "unat (tv_sec t) = nanos t div 1000000000 \<and> unat (tv_nsec t) = nanos t mod 1000000000"
    if "normalised t" for t
    using that by (simp add: nanos_def normalised_def)
  then have "tv_sec t = tv_sec u" "tv_nsec t = tv_nsec u"
    using assms by (metis word_unat_eq_iff)+
  then show ?thesis
    by simp
qed

lemma future_at_ms:
  assumes "n < 1000000" and "unat ms < 1000000 - n"
  shows "future_time (at_ms n) ms = at_ms (n + unat ms)"
  using assms future_time_nanos [of "at_ms n" ms]
  by (intro timespec_nanos) (simp_all add: normalised_at_ms nanos_at_ms algebra_simps)

lemma at_ms_armed: "0 < n \<Longrightarrow> n < 1000000 \<Longrightarrow> \<not> (tv_sec (at_ms n) = 0 \<and> tv_nsec (at_ms n) = 0)"
  using valid_time_armed valid_at_ms by blast

lemma at_ms_ranks:
  assumes "0 < n" and "n < 1000000" and "0 < m" and "m < 1000000"
  shows "outRanks timer_ranks \<lparr>timer_ptr = d, mFutureTime = at_ms n\<rparr>
    \<lparr>timer_ptr = d', mFutureTime = at_ms m\<rparr> \<longleftrightarrow> n < m"
  using assms timer_ranks_sign by (simp add: valid_timer_def valid_at_ms nanos_at_ms)

lemmas run_simps = init_timers_def init_container_def Let_def nanos_at_ms LocTimer_start_def
  container_get_def new_delegate_def sendMsg_def msg_step_def nodes_live_def push_timer_def
  getSoonestTimer_def heap_push_def heap_peek_def new_heap_node_def updateSoonestTime_def
  timerfd_settime_def addPoll_def removePoll_def record_obs_def at_ms_armed at_ms_ranks
  future_at_ms valid_at_ms epoll_return_def readable_def LocTimer_stop_def destroyLocked_def
  set_container_def poll_step_def remove_timer_def heap_remove_def pop_timer_def heap_pop_def

section \<open>Properties\<close>



text \<open>
  C2: no timer is forgotten: in every reachable state, a container with timers has its
  kernel timer armed for exactly the soonest of them, with its descriptor polled, or an
  expiry of that container is under way (in the poll thread, the queue or the message
  thread), after which the kernel timer is armed again.
\<close>

theorem no_timer_forgotten:
  assumes "timers_reachable s" and "getSoonestTimer (containers s w) = Some t"
  shows "(timerfd (containers s w) = Some (mFutureTime t) \<and> polled (containers s w)
      \<and> (\<forall>x \<in># elements (mTree (containers s w)). deadline t \<le> deadline x))
    \<or> expiring w s"
proof -
  have "container_inv (containers s w)"
    using reachable_refs [OF assms(1)] by (simp add: refs_inv_def heaps_inv_def)
  then have "\<forall>x \<in># elements (mTree (containers s w)). deadline t \<le> deadline x"
    using soonest assms(2) by (simp add: getSoonestTimer_def)
  then show ?thesis
    using reachable_wakeup [OF assms(1)] assms(2) by (auto simp: wakeup_inv_def armed_for_top_def)
qed

lemma witness_run:
  "\<exists>s. run_timers [New 1, Start 1 10 False (at_ms 1000) 11 True, MsgStep (at_ms 1001)]
     init_timers = Inr s \<and> getSoonestTimer (containers s False) =
       Some \<lparr>timer_ptr = 11, mFutureTime = at_ms 1010\<rparr> \<and> timers_reachable s"
  (is "\<exists>s. ?run = Inr s \<and> ?top s \<and> _")
proof -
  have "\<exists>s. ?run = Inr s \<and> ?top s"
    and ok: "schedule_ok [New 1, Start 1 10 False (at_ms 1000) 11 True, MsgStep (at_ms 1001)]
      init_timers"
    by (simp_all add: run_simps)
  then obtain s where "?run = Inr s" "?top s"
    by blast
  then show ?thesis
    using run_reachable [OF timers_init ok] by blast
qed

theorem no_timer_forgotten_witness:
  "\<exists>s. timers_reachable s \<and> (timerfd (containers s False) = Some (at_ms 1010) \<or> expiring False s)"
proof -
  obtain s where s: "timers_reachable s" "getSoonestTimer (containers s False) =
      Some \<lparr>timer_ptr = 11, mFutureTime = at_ms 1010\<rparr>"
    using witness_run by blast
  show ?thesis
    using no_timer_forgotten [OF s] s(1) by auto
qed

text \<open>
  C20: every successful start ends once: for every client, the successful starts are as many
  as the successful stops (its own, and that of its destructor), the callbacks, the callback
  that is about to be made and the timer that is still ticking.
\<close>

theorem timer_ends_once:
  assumes "timers_reachable s"
  shows "seen (Started c) s =
    seen (Stopped c) s + seen (TimedOut c) s + ticking c s + pc_calls c (pc s)
    \<and> ticking c s \<le> 1 \<and> pc_calls c (pc s) \<le> 1"
proof -
  have "pc_calls c p \<le> 1" for p
    by (cases p) auto
  then show ?thesis
    using reachable_count [OF assms]
    by (auto simp: count_inv_def ticking_def split: option.splits)
qed

theorem timer_ends_once_witness:
  "\<exists>s. timers_reachable s \<and> getSoonestTimer (containers s False) \<noteq> None
     \<and> seen (TimedOut 1) s \<le> seen (Started 1) s"
proof -
  obtain s where s: "timers_reachable s" "getSoonestTimer (containers s False) \<noteq> None"
    using witness_run by auto
  show ?thesis
    using timer_ends_once [OF s(1), of 1] s by auto
qed



text \<open>
  C25: the heap sorts timers: after any sequence of pushes, pops and removals of valid timers,
  the tree passes \<open>checkTree\<close>, and popping it until it is empty returns exactly its timers,
  in the order of their deadlines.
\<close>

theorem heap_sorts_timers:
  assumes "list_all (heap_op_valid valid_timer) ops"
    and "t = fold (heap_step timer_ranks) ops Null"
    and "out = drain timer_ranks (size (elements t)) t"
  shows "checkTree timer_ranks t \<and> mset out = elements t \<and> sorted (List.map deadline out)"
proof -
  have inv: "heap_inv timer_ranks valid_timer t"
    using timers.run_inv [of Null ops] assms(1,2) by (simp add: heap_inv_def all_valid_def)
  have out: "mset out = elements t"
    "sorted_wrt (\<lambda>x y. \<not> outRanks timer_ranks y x) out"
    using timers.drain_sorted [OF inv refl] assms(3) by auto
  have valid: "valid_timer x" if "x \<in> set out" for x
    using inv that out(1) by (metis all_valid_def heap_inv_def set_mset_mset)
  have "deadline x \<le> deadline y"
    if "x \<in> set out" "y \<in> set out" "\<not> outRanks timer_ranks y x" for x y
    using that valid timer_ranks_sign [of y x] by (simp add: deadline_def)
  then have "sorted_wrt (\<lambda>x y. deadline x \<le> deadline y) out"
    by (rule sorted_wrt_mono_rel [OF _ out(2)])
  then show ?thesis
    using out(1) timers.inv_checkTree [OF inv] by (simp add: sorted_map)
qed

theorem heap_sorts_timers_witness:
  "checkTree timer_ranks (heap_push timer_ranks \<lparr>timer_ptr = 1, mFutureTime = at_ms 5\<rparr> Null)"
  using heap_sorts_timers [of "[Push \<lparr>timer_ptr = 1, mFutureTime = at_ms 5\<rparr>]", OF _ refl refl]
  by (simp add: valid_timer_def valid_at_ms)

text \<open>
  C38: the deadline computed by \<open>start\<close> is normalised and lies exactly \<open>timeOutInMs\<close>
  milliseconds after the clock reading; no width overflows, whatever the timeout. Through
  the C interface the timeout is \<open>msec\<close> modulo \<open>2 ^ 32\<close>.
\<close>

theorem deadline_exact:
  assumes "normalised now" and "unat (tv_sec now) < 2 ^ 62"
  shows "normalised (future_time now ms)
    \<and> nanos (future_time now ms) = nanos now + unat ms * 1000000
    \<and> (\<forall>s' c L t. loc_timer_start c msec True wake now d True s = Inr (Some c, s') \<longrightarrow>
        clients s' c = Some L \<longrightarrow> mTimer L = Some t \<longrightarrow>
        deadline t = nanos now + unat msec mod 2 ^ 32 * 1000000)"
proof -
  have "deadline t = nanos now + unat msec mod 2 ^ 32 * 1000000"
    if "loc_timer_start c msec True wake now d True s = Inr (Some c, s')"
      and "clients s' c = Some L" and "mTimer L = Some t" for s' c L t
  proof -
    have "mFutureTime t = future_time now (ucast msec)"
      using that
      by (auto simp: loc_timer_start_def LocTimer_start_def container_get_def new_delegate_def
          sendMsg_def Let_def split: if_splits)
    moreover have "unat (ucast msec :: uint32) = unat msec mod 2 ^ 32"
      by (simp add: unsigned_ucast_eq take_bit_eq_mod)
    ultimately show ?thesis
      using future_time_nanos [OF assms, of "ucast msec"] by (simp add: deadline_def)
  qed
  then show ?thesis
    using future_time_nanos [OF assms, of ms] by blast
qed

theorem deadline_exact_witness:
  "nanos (future_time (at_ms 1500) 4294967295) = 1500 * 1000000 + 4294967295 * 1000000"
  using deadline_exact [of "at_ms 1500" 4294967295] by (simp add: normalised_at_ms nanos_at_ms)

text \<open>
  A timer can fire long before its deadline. The loop of an expiry pops its first timer
  unconditionally: when the timer that was due is stopped between the expiry of the kernel
  timer and the processing of the message, the next one is popped and its client called
  back; here a 5 s timer fires after 11 ms.
\<close>

theorem premature_expiry:
  "schedule_ok premature_schedule init_timers
   \<and> (\<exists>s. run_timers premature_schedule init_timers = Inr s
       \<and> history s = [Started 1, Started 2, Stopped 1, TimedOut 2])
   \<and> list_all (\<lambda>e. case e of MsgStep clock \<Rightarrow> nanos clock \<le> nanos (at_ms 1011)
        | EpollWait clock ws \<Rightarrow> nanos clock \<le> nanos (at_ms 1011) | _ \<Rightarrow> True) premature_schedule
   \<and> nanos (at_ms 1011) < nanos (future_time (at_ms 1000) 5000)"
  (is "?ok \<and> ?run \<and> ?clock")
proof -
  have ?ok
    by (simp add: premature_schedule_def run_simps)
  moreover have "case run_timers premature_schedule init_timers of Inl e \<Rightarrow> False
      | Inr s \<Rightarrow> history s = [Started 1, Started 2, Stopped 1, TimedOut 2]"
    by (simp add: premature_schedule_def run_simps)
  then have ?run
    by (auto split: sum.splits)
  moreover have ?clock
    by (simp add: premature_schedule_def run_simps)
  ultimately show ?thesis
    by blast
qed

text \<open>
  A client that destroys its timer can be called after its death: the message thread
  reads the client pointer of an expired delegate before it takes the client's lock, so the
  destructor may run in between, and the call of \<open>stop\<close> is made on freed memory.
\<close>

theorem destructor_race:
  "schedule_ok destructor_schedule init_timers
   \<and> run_timers destructor_schedule init_timers = Inl ClientFreed"
  by (simp add: destructor_schedule_def run_simps)

end

