(* ===== verification/Agps.thy ===== *)
theory Agps
  imports Prelude
begin

text \<open>
  \<open>gps/gnss/Agps.cpp\<close>: the manager of the AGPS data calls and its two state machines, one
  for AGNSS (SUPL) and one for internet calls. A state machine keeps a list of pointers to
  the subscribers that wait for, or use, its data call. The subscribers are objects of an
  explicit store, so that an access to a deleted one is an error of the model.
\<close>

section \<open>Errors\<close>

datatype agps_error = UseAfterFree | NullPointer

section \<open>Data\<close>

type_synonym int8 = "8 word"
type_synonym int16 = "16 word"

record AgpsSubscriber =
  mConnHandle :: int32
  mWaitForCloseComplete :: bool
  mIsInactive :: bool
  mSubApnTypeMask :: uint32

datatype AgpsState =
    AGPS_STATE_INVALID
  | AGPS_STATE_RELEASED
  | AGPS_STATE_PENDING
  | AGPS_STATE_ACQUIRED
  | AGPS_STATE_RELEASING

datatype AgpsEvent =
    AGPS_EVENT_INVALID
  | AGPS_EVENT_SUBSCRIBE
  | AGPS_EVENT_UNSUBSCRIBE
  | AGPS_EVENT_GRANTED
  | AGPS_EVENT_RELEASED
  | AGPS_EVENT_DENIED

datatype AgpsNotificationType =
    AGPS_NOTIFICATION_TYPE_INVALID
  | AGPS_NOTIFICATION_TYPE_FOR_ALL_SUBSCRIBERS
  | AGPS_NOTIFICATION_TYPE_FOR_INACTIVE_SUBSCRIBERS
  | AGPS_NOTIFICATION_TYPE_FOR_ACTIVE_SUBSCRIBERS

text \<open>
  What a state machine calls: the two callbacks of the adapter, with the name of the access
  point (\<open>None\<close> for \<open>NULL\<close>), its length, the bearer, the type and the mask; and the
  framework, asked for a data connection or to release it.
\<close>

datatype agps_out =
    AtlOpenStatus int32 bool "string option" uint32 int16 int8 uint32
  | AtlCloseStatus int32 bool
  | FrameworkStatus int8 uint32 bool

record AgpsStateMachine =
  mSubscriberList :: "addr list"
  mCurrentSubscriber :: "addr option"
  mState :: AgpsState
  mAgpsType :: int8
  mApnTypeMask :: uint32
  mAPN :: "string option"
  mAPNLen :: uint32
  mBearer :: int16

record agps_world =
  subscribers :: "addr \<Rightarrow> AgpsSubscriber option"
  out :: "agps_out list"

type_synonym agps_sm = "AgpsStateMachine \<times> agps_world"

text \<open>The constructor does not initialise the mask.\<close>

definition new_state_machine :: "int8 \<Rightarrow> uint32 \<Rightarrow> AgpsStateMachine" where
  "new_state_machine agpsType garbage = \<lparr>mSubscriberList = [], mCurrentSubscriber = None,
     mState = AGPS_STATE_RELEASED, mAgpsType = agpsType, mApnTypeMask = garbage,
     mAPN = None, mAPNLen = 0, mBearer = 0\<rparr>"

section \<open>Subscribers in the store\<close>

definition deref :: "addr \<Rightarrow> agps_world \<Rightarrow> agps_error + AgpsSubscriber" where
  "deref a w = (case subscribers w a of None \<Rightarrow> Inl UseAfterFree | Some s \<Rightarrow> Inr s)"

definition deref_ptr :: "addr option \<Rightarrow> agps_world \<Rightarrow> agps_error + (addr \<times> AgpsSubscriber)" where
  "deref_ptr p w =
    (case p of None \<Rightarrow> Inl NullPointer | Some a \<Rightarrow> and_then (deref a w) (\<lambda>s. Inr (a, s)))"

definition put_subscriber :: "addr \<Rightarrow> AgpsSubscriber \<Rightarrow> agps_world \<Rightarrow> agps_world" where
  "put_subscriber a s w = w\<lparr>subscribers := (subscribers w)(a \<mapsto> s)\<rparr>"

definition delete_subscriber :: "addr \<Rightarrow> agps_world \<Rightarrow> agps_world" where
  "delete_subscriber a w = w\<lparr>subscribers := (subscribers w)(a := None)\<rparr>"

definition emit :: "agps_out \<Rightarrow> agps_world \<Rightarrow> agps_world" where
  "emit e w = w\<lparr>out := out w @ [e]\<rparr>"

definition equals :: "AgpsSubscriber \<Rightarrow> AgpsSubscriber \<Rightarrow> bool" where
  "equals s t \<longleftrightarrow> mConnHandle s = mConnHandle t"

section \<open>Lists of subscribers\<close>

fun in_list :: "addr list \<Rightarrow> AgpsSubscriber \<Rightarrow> agps_world \<Rightarrow> agps_error + bool" where
  "in_list [] s w = Inr False"
| "in_list (a # as) s w =
    and_then (deref a w) (\<lambda>t. if equals t s then Inr True else in_list as s w)"

text \<open>\<open>clone\<close> allocates at \<open>fresh\<close>.\<close>

definition addSubscriber :: "addr option \<Rightarrow> addr \<Rightarrow> agps_sm \<Rightarrow> agps_error + agps_sm" where
  "addSubscriber subscriberToAdd fresh x =
    (case x of (m, w) \<Rightarrow>
     and_then (deref_ptr subscriberToAdd w) (\<lambda>(a, s).
     and_then (in_list (mSubscriberList m) s w) (\<lambda>present.
       if present then Inr (m, w)
       else Inr (m\<lparr>mSubscriberList := mSubscriberList m @ [fresh]\<rparr>, put_subscriber fresh s w))))"

text \<open>
  The loop of \<open>deleteSubscriber\<close>: the handle is read from \<open>target\<close> at every iteration, also
  after the iteration that deleted it.
\<close>

fun delete_loop :: "addr \<Rightarrow> addr list \<Rightarrow> agps_world \<Rightarrow> agps_error + (addr list \<times> agps_world)" where
  "delete_loop target [] w = Inr ([], w)"
| "delete_loop target (a # as) w =
    and_then (deref a w) (\<lambda>s.
    and_then (deref target w) (\<lambda>t.
      if equals s t then delete_loop target as (delete_subscriber a w)
      else and_then (delete_loop target as w) (\<lambda>(as', w'). Inr (a # as', w'))))"

definition deleteSubscriber :: "addr \<Rightarrow> agps_sm \<Rightarrow> agps_error + agps_sm" where
  "deleteSubscriber target x =
    (case x of (m, w) \<Rightarrow>
     and_then (delete_loop target (mSubscriberList m) w) (\<lambda>(as, w').
       Inr (m\<lparr>mSubscriberList := as\<rparr>, w')))"

fun any_active :: "addr list \<Rightarrow> agps_world \<Rightarrow> agps_error + bool" where
  "any_active [] w = Inr False"
| "any_active (a # as) w =
    and_then (deref a w) (\<lambda>s. if \<not> mIsInactive s then Inr True else any_active as w)"

definition anyActiveSubscribers :: "agps_sm \<Rightarrow> agps_error + bool" where
  "anyActiveSubscribers x = (case x of (m, w) \<Rightarrow> any_active (mSubscriberList m) w)"

fun find_handle :: "int32 \<Rightarrow> addr list \<Rightarrow> agps_world \<Rightarrow> agps_error + addr option" where
  "find_handle h [] w = Inr None"
| "find_handle h (a # as) w =
    and_then (deref a w) (\<lambda>s. if mConnHandle s = h then Inr (Some a) else find_handle h as w)"

definition getSubscriber :: "int32 \<Rightarrow> agps_sm \<Rightarrow> agps_error + addr option" where
  "getSubscriber connHandle x = (case x of (m, w) \<Rightarrow> find_handle connHandle (mSubscriberList m) w)"

fun find_inactive :: "bool \<Rightarrow> addr list \<Rightarrow> agps_world \<Rightarrow> agps_error + addr option" where
  "find_inactive b [] w = Inr None"
| "find_inactive b (a # as) w =
    and_then (deref a w) (\<lambda>s. if mIsInactive s = b then Inr (Some a) else find_inactive b as w)"

definition getFirstSubscriber :: "bool \<Rightarrow> agps_sm \<Rightarrow> agps_error + addr option" where
  "getFirstSubscriber isInactive x =
    (case x of (m, w) \<Rightarrow> find_inactive isInactive (mSubscriberList m) w)"

fun drop_loop :: "addr list \<Rightarrow> agps_world \<Rightarrow> agps_error + agps_world" where
  "drop_loop [] w = Inr w"
| "drop_loop (a # as) w =
    and_then (deref a w) (\<lambda>s. drop_loop as (delete_subscriber a w))"

definition dropAllSubscribers :: "agps_sm \<Rightarrow> agps_error + agps_sm" where
  "dropAllSubscribers x =
    (case x of (m, w) \<Rightarrow> and_then (drop_loop (mSubscriberList m) w) (\<lambda>w'.
       Inr (m\<lparr>mSubscriberList := []\<rparr>, w')))"

section \<open>Notifications\<close>

definition requestOrReleaseDataConn :: "bool \<Rightarrow> agps_sm \<Rightarrow> agps_sm" where
  "requestOrReleaseDataConn request x =
    (case x of (m, w) \<Rightarrow> (m, emit (FrameworkStatus (mAgpsType m) (mApnTypeMask m) request) w))"

definition transitionState :: "AgpsState \<Rightarrow> agps_sm \<Rightarrow> agps_sm" where
  "transitionState newState x = (case x of (m, w) \<Rightarrow> (m\<lparr>mState := newState\<rparr>, w))"

definition open_status :: "AgpsStateMachine \<Rightarrow> bool \<Rightarrow> int32 \<Rightarrow> agps_out" where
  "open_status m isSuccess h =
    AtlOpenStatus h isSuccess (mAPN m) (mAPNLen m) (mBearer m) (mAgpsType m) (mApnTypeMask m)"

definition notifyEventToSubscriber ::
  "AgpsEvent \<Rightarrow> addr option \<Rightarrow> bool \<Rightarrow> agps_sm \<Rightarrow> agps_error + agps_sm" where
  "notifyEventToSubscriber event subscriberToNotify deleteSubscriberPostNotify x =
    (case x of (m, w) \<Rightarrow>
     and_then (deref_ptr subscriberToNotify w) (\<lambda>(a, s).
       let w' = (case event of
             AGPS_EVENT_GRANTED \<Rightarrow> emit (open_status m True (mConnHandle s)) w
           | AGPS_EVENT_DENIED \<Rightarrow> emit (open_status m False (mConnHandle s)) w
           | AGPS_EVENT_UNSUBSCRIBE \<Rightarrow> emit (AtlCloseStatus (mConnHandle s) True) w
           | AGPS_EVENT_RELEASED \<Rightarrow> emit (AtlCloseStatus (mConnHandle s) True) w
           | _ \<Rightarrow> w)
       in if deleteSubscriberPostNotify then deleteSubscriber a (m, w') else Inr (m, w')))"

fun meant_for :: "AgpsNotificationType \<Rightarrow> AgpsSubscriber \<Rightarrow> bool" where
  "meant_for AGPS_NOTIFICATION_TYPE_FOR_ALL_SUBSCRIBERS s = True"
| "meant_for AGPS_NOTIFICATION_TYPE_FOR_INACTIVE_SUBSCRIBERS s = mIsInactive s"
| "meant_for AGPS_NOTIFICATION_TYPE_FOR_ACTIVE_SUBSCRIBERS s = (\<not> mIsInactive s)"
| "meant_for AGPS_NOTIFICATION_TYPE_INVALID s = False"

text \<open>The list that is left, and the world; the state machine itself is only read.\<close>

fun notify_loop ::
  "AgpsEvent \<Rightarrow> bool \<Rightarrow> AgpsNotificationType \<Rightarrow> AgpsStateMachine \<Rightarrow> addr list \<Rightarrow> agps_world \<Rightarrow>
     agps_error + (addr list \<times> agps_world)" where
  "notify_loop event del ntype m [] w = Inr ([], w)"
| "notify_loop event del ntype m (a # as) w =
    and_then (deref a w) (\<lambda>s.
      if meant_for ntype s then
        and_then (notifyEventToSubscriber event (Some a) False (m, w)) (\<lambda>(m', w').
          if del then notify_loop event del ntype m as (delete_subscriber a w')
          else and_then (notify_loop event del ntype m as w') (\<lambda>(as', w'').
            Inr (a # as', w'')))
      else and_then (notify_loop event del ntype m as w) (\<lambda>(as', w').
        Inr (a # as', w')))"

definition notifyAllSubscribers ::
  "AgpsEvent \<Rightarrow> bool \<Rightarrow> AgpsNotificationType \<Rightarrow> agps_sm \<Rightarrow> agps_error + agps_sm" where
  "notifyAllSubscribers event deleteSubscriberPostNotify notificationType x =
    (case x of (m, w) \<Rightarrow>
     and_then (notify_loop event deleteSubscriberPostNotify notificationType m
         (mSubscriberList m) w) (\<lambda>(as, w').
       Inr (m\<lparr>mSubscriberList := as\<rparr>, w')))"

section \<open>Events of a state machine\<close>

definition processAgpsEventSubscribe :: "addr \<Rightarrow> agps_sm \<Rightarrow> agps_error + agps_sm" where
  "processAgpsEventSubscribe fresh x =
    (let cur = mCurrentSubscriber (fst x) in
     case mState (fst x) of
       AGPS_STATE_RELEASED \<Rightarrow>
         and_then (addSubscriber cur fresh x) (\<lambda>x.
           Inr (transitionState AGPS_STATE_PENDING (requestOrReleaseDataConn True x)))
     | AGPS_STATE_PENDING \<Rightarrow> addSubscriber cur fresh x
     | AGPS_STATE_ACQUIRED \<Rightarrow>
         and_then (notifyEventToSubscriber AGPS_EVENT_GRANTED cur False x)
           (addSubscriber cur fresh)
     | AGPS_STATE_RELEASING \<Rightarrow> addSubscriber cur fresh x
     | AGPS_STATE_INVALID \<Rightarrow> Inr x)"

text \<open>
  The common part of the states \<open>PENDING\<close>, \<open>ACQUIRED\<close> and \<open>RELEASING\<close>: the subscriber
  becomes inactive, or is notified and deleted.
\<close>

definition unsubscribe_current :: "agps_sm \<Rightarrow> agps_error + agps_sm" where
  "unsubscribe_current x =
    (case x of (m, w) \<Rightarrow>
     and_then (deref_ptr (mCurrentSubscriber m) w) (\<lambda>(a, s).
       if mWaitForCloseComplete s
       then Inr (m, put_subscriber a (s\<lparr>mIsInactive := True\<rparr>) w)
       else notifyEventToSubscriber AGPS_EVENT_UNSUBSCRIBE (mCurrentSubscriber m) True (m, w)))"

definition processAgpsEventUnsubscribe :: "agps_sm \<Rightarrow> agps_error + agps_sm" where
  "processAgpsEventUnsubscribe x =
    (let held = and_then (unsubscribe_current x) (\<lambda>x.
       if mSubscriberList (fst x) = []
       then Inr (requestOrReleaseDataConn False (transitionState AGPS_STATE_RELEASED x))
       else and_then (anyActiveSubscribers x) (\<lambda>active.
         if \<not> active
         then Inr (requestOrReleaseDataConn False (transitionState AGPS_STATE_RELEASING x))
         else Inr x))
     in case mState (fst x) of
          AGPS_STATE_RELEASED \<Rightarrow>
            notifyEventToSubscriber AGPS_EVENT_UNSUBSCRIBE (mCurrentSubscriber (fst x)) False x
        | AGPS_STATE_PENDING \<Rightarrow> held
        | AGPS_STATE_ACQUIRED \<Rightarrow> held
        | AGPS_STATE_RELEASING \<Rightarrow>
            and_then (unsubscribe_current x) (\<lambda>x.
              Inr (if mSubscriberList (fst x) = []
                   then transitionState AGPS_STATE_RELEASED x else x))
        | AGPS_STATE_INVALID \<Rightarrow> Inr x)"

definition processAgpsEventGranted :: "agps_sm \<Rightarrow> agps_error + agps_sm" where
  "processAgpsEventGranted x =
    (if mState (fst x) = AGPS_STATE_PENDING
     then notifyAllSubscribers AGPS_EVENT_GRANTED False
       AGPS_NOTIFICATION_TYPE_FOR_ACTIVE_SUBSCRIBERS (transitionState AGPS_STATE_ACQUIRED x)
     else Inr x)"

text \<open>\<open>RELEASING\<close>, on \<open>RELEASED\<close> and on \<open>DENIED\<close>: those who wait for the close are told.\<close>

definition finish_releasing :: "agps_sm \<Rightarrow> agps_error + agps_sm" where
  "finish_releasing x =
    and_then (notifyAllSubscribers AGPS_EVENT_RELEASED True
        AGPS_NOTIFICATION_TYPE_FOR_INACTIVE_SUBSCRIBERS x) (\<lambda>x.
    and_then (anyActiveSubscribers x) (\<lambda>active.
      Inr (if active
           then requestOrReleaseDataConn True (transitionState AGPS_STATE_PENDING x)
           else transitionState AGPS_STATE_RELEASED x)))"

definition processAgpsEventReleased :: "agps_sm \<Rightarrow> agps_error + agps_sm" where
  "processAgpsEventReleased x =
    (case mState (fst x) of
       AGPS_STATE_RELEASED \<Rightarrow> Inr x
     | AGPS_STATE_ACQUIRED \<Rightarrow>
         notifyAllSubscribers AGPS_EVENT_RELEASED True
           AGPS_NOTIFICATION_TYPE_FOR_ALL_SUBSCRIBERS (transitionState AGPS_STATE_RELEASED x)
     | AGPS_STATE_RELEASING \<Rightarrow> finish_releasing x
     | AGPS_STATE_PENDING \<Rightarrow> Inr x
     | AGPS_STATE_INVALID \<Rightarrow> Inr x)"

definition processAgpsEventDenied :: "agps_sm \<Rightarrow> agps_error + agps_sm" where
  "processAgpsEventDenied x =
    (case mState (fst x) of
       AGPS_STATE_RELEASED \<Rightarrow> Inr x
     | AGPS_STATE_ACQUIRED \<Rightarrow> Inr x
     | AGPS_STATE_RELEASING \<Rightarrow> finish_releasing x
     | AGPS_STATE_PENDING \<Rightarrow>
         notifyAllSubscribers AGPS_EVENT_DENIED True
           AGPS_NOTIFICATION_TYPE_FOR_ALL_SUBSCRIBERS (transitionState AGPS_STATE_RELEASED x)
     | AGPS_STATE_INVALID \<Rightarrow> Inr x)"

text \<open>\<open>fresh\<close> is the address a clone of the subscriber gets, if one is made.\<close>

definition processAgpsEvent :: "addr \<Rightarrow> AgpsEvent \<Rightarrow> agps_sm \<Rightarrow> agps_error + agps_sm" where
  "processAgpsEvent fresh event x =
    (case event of
       AGPS_EVENT_SUBSCRIBE \<Rightarrow> processAgpsEventSubscribe fresh x
     | AGPS_EVENT_UNSUBSCRIBE \<Rightarrow> processAgpsEventUnsubscribe x
     | AGPS_EVENT_GRANTED \<Rightarrow> processAgpsEventGranted x
     | AGPS_EVENT_RELEASED \<Rightarrow> processAgpsEventReleased x
     | AGPS_EVENT_DENIED \<Rightarrow> processAgpsEventDenied x
     | AGPS_EVENT_INVALID \<Rightarrow> Inr x)"

text \<open>\<open>setAPN\<close>; a C string is its characters before the terminator.\<close>

definition MAX_APN_LEN :: uint32 where
  "MAX_APN_LEN = 100"

definition setAPN :: "string option \<Rightarrow> uint32 \<Rightarrow> AgpsStateMachine \<Rightarrow> AgpsStateMachine" where
  "setAPN apn len m =
    (case apn of
       None \<Rightarrow> m\<lparr>mAPN := None, mAPNLen := 0\<rparr>
     | Some s \<Rightarrow>
         if len \<le> 0 \<or> MAX_APN_LEN < len \<or> length s \<noteq> unat len
         then m\<lparr>mAPN := None, mAPNLen := 0\<rparr>
         else m\<lparr>mAPN := Some (take (unat len) s), mAPNLen := len\<rparr>)"

section \<open>The manager\<close>

datatype nif = Agnss | Internet

text \<open>\<open>nifs\<close> holds \<open>mAgnssNif\<close> and \<open>mInternetNif\<close>, \<open>None\<close> while the pointer is null.\<close>

record AgpsManager =
  nifs :: "nif \<Rightarrow> AgpsStateMachine option"
  world :: agps_world

text \<open>\<open>AGPS_ATL_TYPE_SUPL\<close>, \<open>AGPS_ATL_TYPE_SUPL_ES\<close>, \<open>AGPS_ATL_TYPE_WWAN\<close> are bits 0, 1, 2.\<close>

definition createAgpsStateMachines ::
  "bool \<Rightarrow> uint32 \<Rightarrow> uint32 \<Rightarrow> AgpsManager \<Rightarrow> AgpsManager" where
  "createAgpsStateMachines agpsCapable atlType garbage g =
    (let g1 = (if nifs g Internet = None \<and> bit atlType 2
               then g\<lparr>nifs := (nifs g)(Internet \<mapsto> new_state_machine 3 garbage)\<rparr> else g)
     in if agpsCapable \<and> nifs g1 Agnss = None \<and> bit atlType 0 \<and> bit atlType 1
        then g1\<lparr>nifs := (nifs g1)(Agnss \<mapsto> new_state_machine 1 garbage)\<rparr> else g1)"

text \<open>\<open>LOC_AGPS_TYPE_INVALID\<close> is -1, \<open>SUPL\<close> 1, \<open>WWAN_ANY\<close> 3 and \<open>SUPL_ES\<close> 5.\<close>

definition getAgpsStateMachine :: "int8 \<Rightarrow> nif" where
  "getAgpsStateMachine agpsType =
    (if agpsType = -1 \<or> agpsType = 1 \<or> agpsType = 5 then Agnss else Internet)"

text \<open>Run an operation on one of the state machines and store it back.\<close>

definition with_nif ::
  "nif \<Rightarrow> (agps_sm \<Rightarrow> agps_error + agps_sm) \<Rightarrow> AgpsManager \<Rightarrow> agps_error + AgpsManager" where
  "with_nif n f g =
    (case nifs g n of
       None \<Rightarrow> Inl NullPointer
     | Some m \<Rightarrow> and_then (f (m, world g)) (\<lambda>(m', w').
         Inr (g\<lparr>nifs := (nifs g)(n \<mapsto> m'), world := w'\<rparr>)))"

definition on_world :: "(agps_world \<Rightarrow> agps_world) \<Rightarrow> AgpsManager \<Rightarrow> AgpsManager" where
  "on_world f g = g\<lparr>world := f (world g)\<rparr>"

text \<open>
  \<open>requestATL\<close>: the subscriber of the request lives on the stack, at \<open>stack\<close>, until the
  method returns. Without an emergency connection a \<open>SUPL_ES\<close> request (5) becomes \<open>SUPL\<close>
  (1), its mask loses \<open>EMERGENCY\<close> (0x200) and gains \<open>SUPL\<close> (0x10).
\<close>

definition request_kind :: "bool \<Rightarrow> int8 \<Rightarrow> uint32 \<Rightarrow> int8 \<times> uint32" where
  "request_kind use_emergency_pdn agpsType apnTypeMask =
    (if \<not> use_emergency_pdn \<and> agpsType = 5
     then (1, (apnTypeMask AND NOT 0x200) OR 0x10)
     else (agpsType, apnTypeMask))"

definition requestATL ::
  "bool \<Rightarrow> int32 \<Rightarrow> int8 \<Rightarrow> uint32 \<Rightarrow> addr \<Rightarrow> addr \<Rightarrow> AgpsManager \<Rightarrow> agps_error + AgpsManager" where
  "requestATL use_emergency_pdn connHandle agpsType0 apnTypeMask0 stack fresh g =
    (let (agpsType, apnTypeMask) = request_kind use_emergency_pdn agpsType0 apnTypeMask0;
         n = getAgpsStateMachine agpsType
     in if nifs g n = None
        then Inr (on_world
          (emit (AtlOpenStatus connHandle False None 0 0 agpsType apnTypeMask)) g)
        else
          (let s = \<lparr>mConnHandle = connHandle, mWaitForCloseComplete = False,
                    mIsInactive = False, mSubApnTypeMask = apnTypeMask\<rparr>
           in and_then (with_nif n (\<lambda>(m, w).
                processAgpsEvent fresh AGPS_EVENT_SUBSCRIBE
                  (m\<lparr>mAgpsType := agpsType, mApnTypeMask := apnTypeMask,
                     mCurrentSubscriber := Some stack\<rparr>, put_subscriber stack s w)) g)
              (\<lambda>g. Inr (on_world (delete_subscriber stack) g))))"

definition find_in_nif :: "int32 \<Rightarrow> nif \<Rightarrow> AgpsManager \<Rightarrow> agps_error + addr option" where
  "find_in_nif connHandle n g =
    (case nifs g n of
       None \<Rightarrow> Inr None
     | Some m \<Rightarrow> getSubscriber connHandle (m, world g))"

definition releaseATL :: "int32 \<Rightarrow> AgpsManager \<Rightarrow> agps_error + AgpsManager" where
  "releaseATL connHandle g =
    (let unsubscribe = (\<lambda>n a. with_nif n (\<lambda>(m, w). processAgpsEvent 0 AGPS_EVENT_UNSUBSCRIBE
                                (m\<lparr>mCurrentSubscriber := Some a\<rparr>, w)) g)
     in and_then (find_in_nif connHandle Agnss g) (\<lambda>found.
          case found of
            Some a \<Rightarrow> unsubscribe Agnss a
          | None \<Rightarrow> and_then (find_in_nif connHandle Internet g) (\<lambda>found.
              case found of Some a \<Rightarrow> unsubscribe Internet a | None \<Rightarrow> Inr g)))"

definition reportAtlOpenSuccess ::
  "int8 \<Rightarrow> string option \<Rightarrow> uint32 \<Rightarrow> int16 \<Rightarrow> AgpsManager \<Rightarrow> agps_error + AgpsManager" where
  "reportAtlOpenSuccess agpsType apnName apnLen bearerType =
    with_nif (getAgpsStateMachine agpsType) (\<lambda>(m, w).
      processAgpsEvent 0 AGPS_EVENT_GRANTED
        (setAPN apnName apnLen (m\<lparr>mBearer := bearerType\<rparr>), w))"

definition reportAtlOpenFailed :: "int8 \<Rightarrow> AgpsManager \<Rightarrow> agps_error + AgpsManager" where
  "reportAtlOpenFailed agpsType =
    with_nif (getAgpsStateMachine agpsType) (processAgpsEvent 0 AGPS_EVENT_DENIED)"

definition reportAtlClosed :: "int8 \<Rightarrow> AgpsManager \<Rightarrow> agps_error + AgpsManager" where
  "reportAtlClosed agpsType =
    with_nif (getAgpsStateMachine agpsType) (processAgpsEvent 0 AGPS_EVENT_RELEASED)"

definition drop_nif :: "nif \<Rightarrow> AgpsManager \<Rightarrow> agps_error + AgpsManager" where
  "drop_nif n g = (if nifs g n = None then Inr g else with_nif n dropAllSubscribers g)"

definition handleModemSSR :: "AgpsManager \<Rightarrow> agps_error + AgpsManager" where
  "handleModemSSR g = and_then (drop_nif Agnss g) (drop_nif Internet)"

text \<open>
  \<open>GnssAdapter::dataConnOpenCommand\<close>: the framework reports an open connection; a bad name
  of the access point is reported as a closed connection.
\<close>

definition dataConnOpenCommand ::
  "int8 \<Rightarrow> string option \<Rightarrow> int32 \<Rightarrow> int16 \<Rightarrow> AgpsManager \<Rightarrow> agps_error + AgpsManager" where
  "dataConnOpenCommand agpsType apnName apnLen bearerType g =
    (case apnName of
       None \<Rightarrow> reportAtlClosed agpsType g
     | Some s \<Rightarrow>
         if apnLen \<le>s 0 \<or> MAX_APN_LEN <s apnLen \<or> length s \<noteq> unat apnLen
         then reportAtlClosed agpsType g
         else reportAtlOpenSuccess agpsType (Some s) apnLen bearerType g)"

end
