(* ===== verification/AgpsSpec.thy ===== *)
theory AgpsSpec
  imports Agps
begin

text \<open>
  What the AGPS manager promises, without pointers: for each of its state machines, whether a
  data call is idle, asked for or up, and the handles that wait for it or use it. The pointer
  level refines this, as long as no released subscriber is followed by another one.
\<close>

section \<open>Specification\<close>

datatype conn = Idle | Pending | Acquired

record spec_nif =
  conn :: conn
  handles :: "int32 list"
  call_type :: int8
  call_mask :: uint32
  apn :: "string option"
  apn_len :: uint32
  bearer :: int16

definition spec_open :: "bool \<Rightarrow> spec_nif \<Rightarrow> int32 \<Rightarrow> agps_out" where
  "spec_open ok n h =
    AtlOpenStatus h ok (apn n) (apn_len n) (bearer n) (call_type n) (call_mask n)"

definition add_handle :: "int32 \<Rightarrow> spec_nif \<Rightarrow> spec_nif" where
  "add_handle h n = (if h \<in> set (handles n) then n else n\<lparr>handles := handles n @ [h]\<rparr>)"

definition spec_subscribe :: "int32 \<Rightarrow> spec_nif \<Rightarrow> agps_out list \<times> spec_nif" where
  "spec_subscribe h n = (case conn n of
     Idle \<Rightarrow> ([FrameworkStatus (call_type n) (call_mask n) True], (add_handle h n)\<lparr>conn := Pending\<rparr>)
   | Pending \<Rightarrow> ([], add_handle h n)
   | Acquired \<Rightarrow> ([spec_open True n h], add_handle h n))"

definition spec_unsubscribe :: "int32 \<Rightarrow> spec_nif \<Rightarrow> agps_out list \<times> spec_nif" where
  "spec_unsubscribe h n =
    (let rest = removeAll h (handles n)
     in if rest = []
        then ([AtlCloseStatus h True, FrameworkStatus (call_type n) (call_mask n) False],
              n\<lparr>handles := [], conn := Idle\<rparr>)
        else ([AtlCloseStatus h True], n\<lparr>handles := rest\<rparr>))"

definition spec_granted :: "spec_nif \<Rightarrow> agps_out list \<times> spec_nif" where
  "spec_granted n =
    (if conn n = Pending then (List.map (spec_open True n) (handles n), n\<lparr>conn := Acquired\<rparr>)
     else ([], n))"

definition spec_denied :: "spec_nif \<Rightarrow> agps_out list \<times> spec_nif" where
  "spec_denied n =
    (if conn n = Pending
     then (List.map (spec_open False n) (handles n), n\<lparr>conn := Idle, handles := []\<rparr>)
     else ([], n))"

definition spec_released :: "spec_nif \<Rightarrow> agps_out list \<times> spec_nif" where
  "spec_released n =
    (if conn n = Acquired
     then (List.map (\<lambda>h. AtlCloseStatus h True) (handles n), n\<lparr>conn := Idle, handles := []\<rparr>)
     else ([], n))"

definition spec_set_apn :: "string option \<Rightarrow> uint32 \<Rightarrow> spec_nif \<Rightarrow> spec_nif" where
  "spec_set_apn name len n =
    (case name of
       Some s \<Rightarrow> if 0 < len \<and> len \<le> MAX_APN_LEN \<and> length s = unat len
                 then n\<lparr>apn := Some s, apn_len := len\<rparr> else n\<lparr>apn := None, apn_len := 0\<rparr>
     | None \<Rightarrow> n\<lparr>apn := None, apn_len := 0\<rparr>)"

definition idle_nif :: "int8 \<Rightarrow> uint32 \<Rightarrow> spec_nif" where
  "idle_nif agpsType garbage = \<lparr>conn = Idle, handles = [], call_type = agpsType,
     call_mask = garbage, apn = None, apn_len = 0, bearer = 0\<rparr>"

section \<open>Operations\<close>

datatype agps_op =
    Create bool uint32 uint32
  | Request bool int32 int8 uint32 addr addr
  | Release int32
  | OpenSuccess int8 "string option" uint32 int16
  | OpenFailed int8
  | Closed int8
  | ModemSSR
  | DataConnOpen int8 "string option" int32 int16

fun agps_exec :: "agps_op \<Rightarrow> AgpsManager \<Rightarrow> agps_error + AgpsManager" where
  "agps_exec (Create capable atl garbage) g = Inr (createAgpsStateMachines capable atl garbage g)"
| "agps_exec (Request pdn h t msk stack fresh) g = requestATL pdn h t msk stack fresh g"
| "agps_exec (Release h) g = releaseATL h g"
| "agps_exec (OpenSuccess t name len b) g = reportAtlOpenSuccess t name len b g"
| "agps_exec (OpenFailed t) g = reportAtlOpenFailed t g"
| "agps_exec (Closed t) g = reportAtlClosed t g"
| "agps_exec ModemSSR g = handleModemSSR g"
| "agps_exec (DataConnOpen t name len b) g = dataConnOpenCommand t name len b g"

text \<open>One operation and what it calls out; \<open>None\<close> when it fails.\<close>

definition agps_step :: "agps_op \<Rightarrow> AgpsManager \<Rightarrow> (agps_out list \<times> AgpsManager) option" where
  "agps_step op g =
    (case agps_exec op (on_world (out_update (\<lambda>_. [])) g) of
       Inl e \<Rightarrow> None
     | Inr g' \<Rightarrow> Some (out (world g'), g'))"

type_synonym agps_spec = "nif \<Rightarrow> spec_nif option"

definition spec_on ::
  "nif \<Rightarrow> (spec_nif \<Rightarrow> agps_out list \<times> spec_nif) \<Rightarrow> agps_spec \<Rightarrow> agps_out list \<times> agps_spec" where
  "spec_on n f a = (case a n of None \<Rightarrow> ([], a) | Some s \<Rightarrow> (let (os, s') = f s in (os, a(n \<mapsto> s'))))"

definition waits_in :: "int32 \<Rightarrow> nif \<Rightarrow> agps_spec \<Rightarrow> bool" where
  "waits_in h n a \<longleftrightarrow> (case a n of None \<Rightarrow> False | Some s \<Rightarrow> h \<in> set (handles s))"

definition spec_open_ok :: "int8 \<Rightarrow> string option \<Rightarrow> uint32 \<Rightarrow> int16 \<Rightarrow> agps_spec \<Rightarrow>
    agps_out list \<times> agps_spec" where
  "spec_open_ok t name len b =
    spec_on (getAgpsStateMachine t) (\<lambda>s. spec_granted (spec_set_apn name len (s\<lparr>bearer := b\<rparr>)))"

fun agps_spec_step :: "agps_op \<Rightarrow> agps_spec \<Rightarrow> agps_out list \<times> agps_spec" where
  "agps_spec_step (Create capable atl garbage) a =
    (let a1 = (if a Internet = None \<and> bit atl 2 then a(Internet \<mapsto> idle_nif 3 garbage) else a)
     in ([], if capable \<and> a1 Agnss = None \<and> bit atl 0 \<and> bit atl 1
             then a1(Agnss \<mapsto> idle_nif 1 garbage) else a1))"
| "agps_spec_step (Request pdn h t0 msk0 stack fresh) a =
    (let (t, msk) = request_kind pdn t0 msk0; n = getAgpsStateMachine t
     in if a n = None then ([AtlOpenStatus h False None 0 0 t msk], a)
        else spec_on n (\<lambda>s. spec_subscribe h (s\<lparr>call_type := t, call_mask := msk\<rparr>)) a)"
| "agps_spec_step (Release h) a =
    (if waits_in h Agnss a then spec_on Agnss (spec_unsubscribe h) a
     else if waits_in h Internet a then spec_on Internet (spec_unsubscribe h) a
     else ([], a))"
| "agps_spec_step (OpenSuccess t name len b) a = spec_open_ok t name len b a"
| "agps_spec_step (OpenFailed t) a = spec_on (getAgpsStateMachine t) spec_denied a"
| "agps_spec_step (Closed t) a = spec_on (getAgpsStateMachine t) spec_released a"
| "agps_spec_step ModemSSR a =
    ([], \<lambda>n. map_option (\<lambda>s. s\<lparr>handles := []\<rparr>) (a n))"
| "agps_spec_step (DataConnOpen t name len b) a =
    (case name of
       Some s \<Rightarrow>
         if 0 <s len \<and> len \<le>s MAX_APN_LEN \<and> length s = unat len
         then spec_open_ok t name len b a
         else spec_on (getAgpsStateMachine t) spec_released a
     | None \<Rightarrow> spec_on (getAgpsStateMachine t) spec_released a)"

section \<open>Representation\<close>

definition represents_sub :: "agps_world \<Rightarrow> addr \<Rightarrow> int32 \<Rightarrow> bool" where
  "represents_sub w a h \<longleftrightarrow> (\<exists>s. subscribers w a = Some s \<and> mConnHandle s = h
     \<and> \<not> mWaitForCloseComplete s \<and> \<not> mIsInactive s)"

definition subs_rep :: "agps_world \<Rightarrow> addr list \<Rightarrow> int32 list \<Rightarrow> bool" where
  "subs_rep w = list_all2 (represents_sub w)"

fun state_of :: "conn \<Rightarrow> AgpsState" where
  "state_of Idle = AGPS_STATE_RELEASED"
| "state_of Pending = AGPS_STATE_PENDING"
| "state_of Acquired = AGPS_STATE_ACQUIRED"

definition nif_rep :: "agps_world \<Rightarrow> AgpsStateMachine \<Rightarrow> spec_nif \<Rightarrow> bool" where
  "nif_rep w m n \<longleftrightarrow> subs_rep w (mSubscriberList m) (handles n) \<and> mState m = state_of (conn n)
    \<and> mAgpsType m = call_type n \<and> mApnTypeMask m = call_mask n \<and> mAPN m = apn n
    \<and> mAPNLen m = apn_len n \<and> mBearer m = bearer n
    \<and> distinct (handles n) \<and> distinct (mSubscriberList m) \<and> (conn n = Idle \<longrightarrow> handles n = [])"

definition list_of :: "nif \<Rightarrow> AgpsManager \<Rightarrow> addr list" where
  "list_of n g = (case nifs g n of None \<Rightarrow> [] | Some m \<Rightarrow> mSubscriberList m)"

text \<open>The store holds the subscribers of the two lists, and nothing else.\<close>

definition agps_rep :: "AgpsManager \<Rightarrow> agps_spec \<Rightarrow> bool" where
  "agps_rep g a \<longleftrightarrow> (\<forall>n. rel_option (nif_rep (world g)) (nifs g n) (a n))
    \<and> set (list_of Agnss g) \<inter> set (list_of Internet g) = {}
    \<and> dom (subscribers (world g)) = set (list_of Agnss g) \<union> set (list_of Internet g)"

text \<open>
  The environment: \<open>new\<close> and the stack give unused addresses, the framework reports on state
  machines that exist, and, what the code needs and nobody ensures, a released handle is the
  last one of its list.
\<close>

definition last_or_absent :: "int32 \<Rightarrow> AgpsManager \<Rightarrow> bool" where
  "last_or_absent h g \<longleftrightarrow> (\<forall>n. \<forall>a \<in> set (butlast (list_of n g)).
     \<forall>s. subscribers (world g) a = Some s \<longrightarrow> mConnHandle s \<noteq> h)"

fun agps_ok :: "agps_op \<Rightarrow> AgpsManager \<Rightarrow> bool" where
  "agps_ok (Create capable atl garbage) g = True"
| "agps_ok (Request pdn h t msk stack fresh) g =
    (stack \<noteq> fresh \<and> subscribers (world g) stack = None \<and> subscribers (world g) fresh = None)"
| "agps_ok (Release h) g = last_or_absent h g"
| "agps_ok (OpenSuccess t name len b) g = (nifs g (getAgpsStateMachine t) \<noteq> None)"
| "agps_ok (OpenFailed t) g = (nifs g (getAgpsStateMachine t) \<noteq> None)"
| "agps_ok (Closed t) g = (nifs g (getAgpsStateMachine t) \<noteq> None)"
| "agps_ok ModemSSR g = True"
| "agps_ok (DataConnOpen t name len b) g = (nifs g (getAgpsStateMachine t) \<noteq> None)"

section \<open>The loops\<close>

lemma subs_rep_simps [simp]:
  "subs_rep w [] hs \<longleftrightarrow> hs = []"
  "subs_rep w as [] \<longleftrightarrow> as = []"
  "subs_rep w (a # as) (h # hs) \<longleftrightarrow> represents_sub w a h \<and> subs_rep w as hs"
  by (simp_all add: subs_rep_def)

lemma subs_rep_frame:
  assumes "subs_rep w as hs" and "\<And>a. a \<in> set as \<Longrightarrow> subscribers w' a = subscribers w a"
  shows "subs_rep w' as hs"
  using assms
  by (auto simp: subs_rep_def represents_sub_def list_all2_conv_all_nth)

lemma subs_rep_live: "subs_rep w as hs \<Longrightarrow> a \<in> set as \<Longrightarrow> subscribers w a \<noteq> None"
  by (auto simp: subs_rep_def represents_sub_def list_all2_conv_all_nth in_set_conv_nth)

lemma subs_rep_length: "subs_rep w as hs \<Longrightarrow> length as = length hs"
  by (simp add: subs_rep_def list_all2_lengthD)

lemma subs_rep_append:
  "subs_rep w (as @ [a]) (hs @ [h]) \<longleftrightarrow> subs_rep w as hs \<and> represents_sub w a h"
proof (cases "length as = length hs")
  case True
  then show ?thesis
    by (simp add: subs_rep_def list_all2_append)
next
  case False
  then show ?thesis
    using subs_rep_length [of w "as @ [a]" "hs @ [h]"] subs_rep_length [of w as hs] by auto
qed

lemma world_simps [simp]:
  "subscribers (emit e w) = subscribers w" "out (emit e w) = out w @ [e]"
  "subscribers (put_subscriber a s w) = (subscribers w)(a \<mapsto> s)"
  "out (put_subscriber a s w) = out w"
  "subscribers (delete_subscriber a w) = (subscribers w)(a := None)"
  "out (delete_subscriber a w) = out w"
  by (simp_all add: emit_def put_subscriber_def delete_subscriber_def)

lemma represents_sub_emit [simp]:
  "represents_sub (emit e w) = represents_sub w"
  by (simp add: represents_sub_def fun_eq_iff)

lemma in_list_rep:
  "subs_rep w as hs \<Longrightarrow> in_list as s w = Inr (mConnHandle s \<in> set hs)"
proof (induction as arbitrary: hs)
  case (Cons a as)
  then show ?case
    by (cases hs) (auto simp: represents_sub_def deref_def equals_def)
qed simp

lemma any_active_rep: "subs_rep w as hs \<Longrightarrow> any_active as w = Inr (hs \<noteq> [])"
  by (cases as; cases hs) (auto simp: represents_sub_def deref_def)

lemma find_handle_rep:
  "subs_rep w as hs \<Longrightarrow> find_handle h as w =
    Inr (if h \<in> set hs then Some (as ! length (takeWhile (\<lambda>x. x \<noteq> h) hs)) else None)"
proof (induction as arbitrary: hs)
  case (Cons a as)
  then show ?case
    by (cases hs) (auto simp: represents_sub_def deref_def)
qed simp

text \<open>The store without the objects at some addresses.\<close>

definition forget :: "addr list \<Rightarrow> agps_world \<Rightarrow> agps_world" where
  "forget as w = w\<lparr>subscribers := (\<lambda>x. if x \<in> set as then None else subscribers w x)\<rparr>"

lemma forget_simps [simp]:
  "forget [] w = w"
  "subscribers (forget as w) x = (if x \<in> set as then None else subscribers w x)"
  "out (forget as w) = out w"
  by (simp_all add: forget_def)

lemma forget_Cons: "forget as (delete_subscriber a w) = forget (a # as) w"
  by (auto simp: forget_def delete_subscriber_def fun_eq_iff)

lemma drop_loop_rep:
  assumes "subs_rep w as hs" and "distinct as"
  shows "drop_loop as w = Inr (forget as w)"
  using assms
proof (induction as arbitrary: hs w)
  case Nil
  then show ?case
    by simp
next
  case (Cons a as)
  then obtain h hs' s where hs: "hs = h # hs'" and s: "subscribers w a = Some s"
    by (cases hs) (auto simp: represents_sub_def)
  have "subs_rep (delete_subscriber a w) as hs'"
    using Cons.prems hs by (auto intro!: subs_rep_frame [of w as hs'])
  then have "drop_loop as (delete_subscriber a w) = Inr (forget (a # as) w)"
    using Cons.IH Cons.prems(2) by (simp add: forget_Cons)
  then show ?case
    using s by (simp add: deref_def)
qed

definition emit_all :: "agps_out list \<Rightarrow> agps_world \<Rightarrow> agps_world" where
  "emit_all os w = w\<lparr>out := out w @ os\<rparr>"

lemma emit_all_simps [simp]:
  "emit_all [] w = w" "emit_all os (emit e w) = emit_all (e # os) w"
  "subscribers (emit_all os w) = subscribers w" "out (emit_all os w) = out w @ os"
  by (simp_all add: emit_all_def emit_def)

text \<open>What each notification emits for a represented subscriber.\<close>

fun told :: "AgpsEvent \<Rightarrow> AgpsStateMachine \<Rightarrow> int32 \<Rightarrow> agps_out list" where
  "told AGPS_EVENT_GRANTED m h = [open_status m True h]"
| "told AGPS_EVENT_DENIED m h = [open_status m False h]"
| "told AGPS_EVENT_UNSUBSCRIBE m h = [AtlCloseStatus h True]"
| "told AGPS_EVENT_RELEASED m h = [AtlCloseStatus h True]"
| "told _ m h = []"

lemma notifyEvent_keep:
  assumes "subscribers w a = Some s"
  shows "notifyEventToSubscriber event (Some a) False (m, w) =
    Inr (m, emit_all (told event m (mConnHandle s)) w)"
  using assms
  by (cases event) (simp_all add: notifyEventToSubscriber_def deref_ptr_def deref_def Let_def
      emit_all_def emit_def)

definition all_told :: "AgpsEvent \<Rightarrow> AgpsStateMachine \<Rightarrow> int32 list \<Rightarrow> agps_out list" where
  "all_told event m hs = concat (List.map (told event m) hs)"

lemma all_told_simps [simp]:
  "all_told event m [] = []" "all_told event m (h # hs) = told event m h @ all_told event m hs"
  by (simp_all add: all_told_def)

lemma emit_all_append [simp]: "emit_all os' (emit_all os w) = emit_all (os @ os') w"
  by (simp add: emit_all_def)

lemma notify_loop_keep:
  assumes "subs_rep w as hs"
  shows "notify_loop event False AGPS_NOTIFICATION_TYPE_FOR_ACTIVE_SUBSCRIBERS m as w =
    Inr (as, emit_all (all_told event m hs) w)"
  using assms
proof (induction as arbitrary: hs w)
  case (Cons a as)
  then obtain h hs' s where hs: "hs = h # hs'" and s: "subscribers w a = Some s"
    "mConnHandle s = h" "\<not> mIsInactive s"
    by (cases hs) (auto simp: represents_sub_def)
  have "subs_rep (emit_all (told event m h) w) as hs'"
    using Cons.prems hs by (auto intro!: subs_rep_frame [of w as hs'])
  from Cons.IH [OF this] show ?case
    using s hs by (simp add: deref_def notifyEvent_keep)
qed simp

lemma forget_emit_all: "forget as (emit_all os w) = emit_all os (forget as w)"
  by (cases w) (auto simp: forget_def emit_all_def fun_eq_iff)

lemma notify_loop_delete:
  assumes "subs_rep w as hs" and "distinct as"
  shows "notify_loop event True AGPS_NOTIFICATION_TYPE_FOR_ALL_SUBSCRIBERS m as w =
    Inr ([], forget as (emit_all (all_told event m hs) w))"
  using assms
proof (induction as arbitrary: hs w)
  case (Cons a as)
  then obtain h hs' s where hs: "hs = h # hs'" and s: "subscribers w a = Some s"
    "mConnHandle s = h"
    by (cases hs) (auto simp: represents_sub_def)
  let ?w = "delete_subscriber a (emit_all (told event m h) w)"
  have "subs_rep ?w as hs'"
    using Cons.prems hs by (auto intro!: subs_rep_frame [of w as hs'])
  then have "notify_loop event True AGPS_NOTIFICATION_TYPE_FOR_ALL_SUBSCRIBERS m as ?w =
      Inr ([], forget as (emit_all (all_told event m hs') ?w))"
    using Cons.IH Cons.prems(2) by simp
  moreover have "emit_all os ?w = delete_subscriber a (emit_all (told event m h @ os) w)" for os
    by (simp add: emit_all_def delete_subscriber_def)
  ultimately show ?case
    using s hs by (simp add: deref_def notifyEvent_keep forget_Cons)
qed simp

text \<open>
  A deletion is fine when the subscriber is the last of its list. When another one follows,
  the handle of the deleted object is read again.
\<close>

lemma delete_loop_last:
  assumes "subs_rep w (as @ [a]) (hs @ [h])" and "distinct (hs @ [h])"
  shows "delete_loop a (as @ [a]) w = Inr (as, delete_subscriber a w)"
  using assms
proof (induction as arbitrary: hs)
  case Nil
  then obtain s where "subscribers w a = Some s"
    using subs_rep_length [OF Nil(1)] by (auto simp: represents_sub_def)
  then show ?case
    by (simp add: deref_def equals_def)
next
  case (Cons b as)
  then obtain g hs' where hs: "hs = g # hs'"
    using subs_rep_length [OF Cons.prems(1)] by (cases hs) auto
  then have rep: "represents_sub w b g" "subs_rep w (as @ [a]) (hs' @ [h])"
    using Cons.prems by simp_all
  then obtain s t where "subscribers w b = Some s" "mConnHandle s = g"
    "subscribers w a = Some t" "mConnHandle t = h"
    by (auto simp: represents_sub_def subs_rep_append)
  moreover have "g \<noteq> h"
    using Cons.prems(2) hs by simp
  ultimately show ?case
    using Cons.IH [OF rep(2)] Cons.prems(2) hs by (simp add: deref_def equals_def)
qed

lemma delete_loop_dangles:
  assumes "subs_rep w (as @ a # b # bs) (hs @ h # hs')" and "length as = length hs"
    and "distinct (hs @ h # hs')" and "distinct (as @ a # b # bs)"
  shows "delete_loop a (as @ a # b # bs) w = Inl UseAfterFree"
  using assms
proof (induction as arbitrary: hs)
  case Nil
  then obtain s where "subscribers w a = Some s"
    by (auto simp: represents_sub_def)
  then show ?case
    using Nil by (cases "subscribers (delete_subscriber a w) b") (auto simp: deref_def equals_def)
next
  case (Cons c as)
  then obtain g gs where hs: "hs = g # gs"
    by (cases hs) auto
  obtain s where s: "subscribers w c = Some s" "mConnHandle s = g"
    using Cons.prems hs by (auto simp: represents_sub_def)
  have "subs_rep w (as @ a # b # bs) (gs @ h # hs')"
    using Cons.prems hs by simp
  then have "represents_sub w a h"
    using Cons.prems(2) hs by (simp add: subs_rep_def list_all2_append)
  then obtain t where "subscribers w a = Some t" "mConnHandle t = h"
    by (auto simp: represents_sub_def)
  moreover have "g \<noteq> h"
    using Cons.prems(3) hs by simp
  moreover have "delete_loop a (as @ a # b # bs) w = Inl UseAfterFree"
    using Cons.prems hs by (intro Cons.IH [of gs]) simp_all
  ultimately show ?case
    using s by (simp add: deref_def equals_def)
qed

section \<open>The events of one state machine\<close>

text \<open>What an operation on one list may do to the store.\<close>

definition nif_frame :: "agps_world \<Rightarrow> addr list \<Rightarrow> agps_world \<Rightarrow> addr list \<Rightarrow> bool" where
  "nif_frame w as w' as' \<longleftrightarrow>
    (\<forall>x. x \<notin> set as \<union> set as' \<longrightarrow> subscribers w' x = subscribers w x)
    \<and> (\<forall>x \<in> set as - set as'. subscribers w' x = None)
    \<and> (\<forall>x \<in> set as' - set as. subscribers w x = None)"

definition effect ::
  "AgpsStateMachine \<Rightarrow> agps_world \<Rightarrow> AgpsStateMachine \<Rightarrow> agps_world \<Rightarrow>
     agps_out list \<times> spec_nif \<Rightarrow> bool" where
  "effect m w m' w' result \<longleftrightarrow> nif_rep w' m' (snd result)
    \<and> nif_frame w (mSubscriberList m) w' (mSubscriberList m') \<and> out w' = out w @ fst result"

lemma open_status_rep: "nif_rep w m n \<Longrightarrow> open_status m ok h = spec_open ok n h"
  by (simp add: nif_rep_def open_status_def spec_open_def)

lemma add_subscriber_rep:
  assumes rep: "subs_rep w (mSubscriberList m) (handles n)" "distinct (handles n)"
      "distinct (mSubscriberList m)"
    and stack: "subscribers w stack = Some s" "mConnHandle s = h"
      "\<not> mWaitForCloseComplete s" "\<not> mIsInactive s"
    and fresh: "subscribers w fresh = None"
  obtains as w' where
    "addSubscriber (Some stack) fresh (m, w) = Inr (m\<lparr>mSubscriberList := as\<rparr>, w')"
    and "subs_rep w' as (handles (add_handle h n))" and "distinct as"
    and "distinct (handles (add_handle h n))"
    and "nif_frame w (mSubscriberList m) w' as" and "out w' = out w"
    and "mSubscriberList m = as \<or> as = mSubscriberList m @ [fresh]"
proof (cases "h \<in> set (handles n)")
  case True
  then have "addSubscriber (Some stack) fresh (m, w) = Inr (m, w)"
    using in_list_rep [OF rep(1), of s] stack
    by (simp add: addSubscriber_def deref_ptr_def deref_def)
  then show ?thesis
    using that [of "mSubscriberList m" w] rep True
    by (simp add: add_handle_def nif_frame_def)
next
  case False
  let ?w = "put_subscriber fresh s w"
  have fresh_list: "fresh \<notin> set (mSubscriberList m)"
    using subs_rep_live [OF rep(1)] fresh by blast
  have "addSubscriber (Some stack) fresh (m, w) =
      Inr (m\<lparr>mSubscriberList := mSubscriberList m @ [fresh]\<rparr>, ?w)"
    using False in_list_rep [OF rep(1), of s] stack
    by (simp add: addSubscriber_def deref_ptr_def deref_def)
  moreover have "subs_rep ?w (mSubscriberList m) (handles n)"
    using rep(1) fresh_list by (auto intro: subs_rep_frame [OF rep(1)])
  then have "subs_rep ?w (mSubscriberList m @ [fresh]) (handles (add_handle h n))"
    using False stack by (simp add: add_handle_def subs_rep_append represents_sub_def)
  ultimately show ?thesis
    using that [of "mSubscriberList m @ [fresh]" ?w] rep False fresh fresh_list
    by (auto simp: add_handle_def nif_frame_def)
qed

lemma subscribe_effect:
  assumes rep: "nif_rep w m n" and cur: "mCurrentSubscriber m = Some stack"
    and stack: "subscribers w stack = Some s" "mConnHandle s = h"
      "\<not> mWaitForCloseComplete s" "\<not> mIsInactive s"
    and fresh: "subscribers w fresh = None"
  obtains m' w' where "processAgpsEventSubscribe fresh (m, w) = Inr (m', w')"
    and "effect m w m' w' (spec_subscribe h n)"
    and "mSubscriberList m' = mSubscriberList m \<or> mSubscriberList m' = mSubscriberList m @ [fresh]"
proof -
  have subs: "subs_rep w (mSubscriberList m) (handles n)" "distinct (handles n)"
    "distinct (mSubscriberList m)"
    using rep by (simp_all add: nif_rep_def)
  note fields = rep [unfolded nif_rep_def]
  show ?thesis
  proof (cases "conn n")
    case Idle
    obtain as w' where add:
      "addSubscriber (Some stack) fresh (m, w) = Inr (m\<lparr>mSubscriberList := as\<rparr>, w')"
      "subs_rep w' as (handles (add_handle h n))" "distinct as"
      "distinct (handles (add_handle h n))" "nif_frame w (mSubscriberList m) w' as"
      "out w' = out w" "mSubscriberList m = as \<or> as = mSubscriberList m @ [fresh]"
      using add_subscriber_rep [OF subs stack fresh] by metis
    have "processAgpsEventSubscribe fresh (m, w) =
        Inr (m\<lparr>mSubscriberList := as, mState := AGPS_STATE_PENDING\<rparr>,
             emit (FrameworkStatus (mAgpsType m) (mApnTypeMask m) True) w')"
      using fields Idle cur add(1)
      by (simp add: processAgpsEventSubscribe_def Let_def transitionState_def
          requestOrReleaseDataConn_def)
    then show ?thesis
      using that add fields Idle
      by (auto simp: effect_def spec_subscribe_def nif_rep_def add_handle_def nif_frame_def
          intro: subs_rep_frame [OF add(2)])
  next
    case Pending
    obtain as w' where add:
      "addSubscriber (Some stack) fresh (m, w) = Inr (m\<lparr>mSubscriberList := as\<rparr>, w')"
      "subs_rep w' as (handles (add_handle h n))" "distinct as"
      "distinct (handles (add_handle h n))" "nif_frame w (mSubscriberList m) w' as"
      "out w' = out w" "mSubscriberList m = as \<or> as = mSubscriberList m @ [fresh]"
      using add_subscriber_rep [OF subs stack fresh] by metis
    have "processAgpsEventSubscribe fresh (m, w) = Inr (m\<lparr>mSubscriberList := as\<rparr>, w')"
      using fields Pending cur add(1) by (simp add: processAgpsEventSubscribe_def Let_def)
    then show ?thesis
      using that add fields Pending
      by (auto simp: effect_def spec_subscribe_def nif_rep_def add_handle_def)
  next
    case Acquired
    let ?w = "emit_all [spec_open True n h] w"
    have "subs_rep ?w (mSubscriberList m) (handles n)"
      by (rule subs_rep_frame [OF subs(1)]) simp
    then obtain as w' where add:
      "addSubscriber (Some stack) fresh (m, ?w) = Inr (m\<lparr>mSubscriberList := as\<rparr>, w')"
      "subs_rep w' as (handles (add_handle h n))" "distinct as"
      "distinct (handles (add_handle h n))" "nif_frame ?w (mSubscriberList m) w' as"
      "out w' = out ?w" "mSubscriberList m = as \<or> as = mSubscriberList m @ [fresh]"
      using add_subscriber_rep [of ?w m n stack s h fresh] subs stack fresh by auto
    have "processAgpsEventSubscribe fresh (m, w) = Inr (m\<lparr>mSubscriberList := as\<rparr>, w')"
      using fields Acquired cur add(1) stack open_status_rep [OF rep]
      by (simp add: processAgpsEventSubscribe_def Let_def notifyEvent_keep)
    then show ?thesis
      using that add fields Acquired
      by (auto simp: effect_def spec_subscribe_def nif_rep_def add_handle_def nif_frame_def)
  qed
qed

lemma unsubscribe_effect:
  assumes rep: "nif_rep w m n" and cur: "mCurrentSubscriber m = Some a"
    and last: "mSubscriberList m = as @ [a]" "handles n = hs @ [h]"
  obtains m' w' where "processAgpsEventUnsubscribe (m, w) = Inr (m', w')"
    and "effect m w m' w' (spec_unsubscribe h n)"
proof -
  note fields = rep [unfolded nif_rep_def]
  have subs: "subs_rep w (as @ [a]) (hs @ [h])" "distinct (hs @ [h])" "distinct (as @ [a])"
    using fields last by simp_all
  then obtain s where s: "subscribers w a = Some s" "mConnHandle s = h"
    "\<not> mWaitForCloseComplete s"
    by (auto simp: subs_rep_append represents_sub_def)
  let ?w = "emit_all [AtlCloseStatus h True] w"
  have "subs_rep ?w (as @ [a]) (hs @ [h])"
    by (rule subs_rep_frame [OF subs(1)]) simp
  then have del: "delete_loop a (as @ [a]) ?w = Inr (as, delete_subscriber a ?w)"
    using delete_loop_last subs(2) by blast
  have "notifyEventToSubscriber AGPS_EVENT_UNSUBSCRIBE (Some a) True (m, w) =
      Inr (m\<lparr>mSubscriberList := as\<rparr>, delete_subscriber a ?w)"
    using s del last
    by (simp add: notifyEventToSubscriber_def deref_ptr_def deref_def deleteSubscriber_def
        emit_all_def emit_def)
  then have unsub: "unsubscribe_current (m, w) = Inr (m\<lparr>mSubscriberList := as\<rparr>,
      delete_subscriber a ?w)"
    using s cur by (simp add: unsubscribe_current_def deref_ptr_def deref_def)
  have subs': "subs_rep (delete_subscriber a ?w) as hs"
    using subs by (auto intro: subs_rep_frame [of w as hs] simp: subs_rep_append)
  have rest: "removeAll h (handles n) = hs"
    using subs(2) last by simp
  have lens: "length as = length hs"
    using subs_rep_length [OF subs'] .
  have state: "mState m = AGPS_STATE_PENDING \<or> mState m = AGPS_STATE_ACQUIRED"
    using fields last by (cases "conn n") auto
  show ?thesis
  proof (cases "hs = []")
    case True
    then have "processAgpsEventUnsubscribe (m, w) =
        Inr (m\<lparr>mSubscriberList := [], mState := AGPS_STATE_RELEASED\<rparr>,
          emit (FrameworkStatus (mAgpsType m) (mApnTypeMask m) False) (delete_subscriber a ?w))"
      using state unsub lens
      by (auto simp: processAgpsEventUnsubscribe_def Let_def transitionState_def
          requestOrReleaseDataConn_def)
    then show ?thesis
      using that fields last True lens rest
      by (auto simp: effect_def spec_unsubscribe_def nif_rep_def nif_frame_def)
  next
    case False
    then have "processAgpsEventUnsubscribe (m, w) =
        Inr (m\<lparr>mSubscriberList := as\<rparr>, delete_subscriber a ?w)"
      using state unsub lens any_active_rep [OF subs']
      by (auto simp: processAgpsEventUnsubscribe_def Let_def anyActiveSubscribers_def)
    moreover have "insert a (set as) - set as = {a}"
      using subs by auto
    ultimately show ?thesis
      using that fields last False lens rest subs' subs
      by (simp add: effect_def spec_unsubscribe_def nif_rep_def nif_frame_def)
  qed
qed

lemma all_told_rep:
  "all_told AGPS_EVENT_GRANTED m' hs = List.map (open_status m' True) hs"
  "all_told AGPS_EVENT_DENIED m' hs = List.map (open_status m' False) hs"
  "all_told AGPS_EVENT_RELEASED m' hs = List.map (\<lambda>h. AtlCloseStatus h True) hs"
  by (induction hs) simp_all

lemma granted_effect:
  assumes rep: "nif_rep w m n"
  obtains m' w' where "processAgpsEventGranted (m, w) = Inr (m', w')"
    and "effect m w m' w' (spec_granted n)"
proof (cases "conn n = Pending")
  case True
  note fields = rep [unfolded nif_rep_def]
  let ?m = "m\<lparr>mState := AGPS_STATE_ACQUIRED\<rparr>"
  let ?w = "emit_all (List.map (spec_open True n) (handles n)) w"
  have open_eq: "open_status ?m True = spec_open True n"
    using open_status_rep [OF rep] by (auto simp: open_status_def fun_eq_iff)
  have "processAgpsEventGranted (m, w) = Inr (?m, ?w)"
    using fields True notify_loop_keep [of w "mSubscriberList m" "handles n"]
    by (simp add: processAgpsEventGranted_def transitionState_def notifyAllSubscribers_def
        all_told_rep open_eq)
  moreover have "subs_rep ?w (mSubscriberList m) (handles n)"
    by (rule subs_rep_frame [of w]) (use fields in simp_all)
  ultimately show ?thesis
    using that fields True by (simp add: effect_def spec_granted_def nif_rep_def nif_frame_def)
next
  case False
  then have "processAgpsEventGranted (m, w) = Inr (m, w)"
    using rep by (cases "conn n") (auto simp: processAgpsEventGranted_def nif_rep_def)
  then show ?thesis
    using that rep False by (simp add: effect_def spec_granted_def nif_frame_def)
qed

lemma notify_all_released:
  assumes rep: "nif_rep w m n"
  shows "notifyAllSubscribers event True AGPS_NOTIFICATION_TYPE_FOR_ALL_SUBSCRIBERS
      (m\<lparr>mState := AGPS_STATE_RELEASED\<rparr>, w) =
    Inr (m\<lparr>mState := AGPS_STATE_RELEASED, mSubscriberList := []\<rparr>,
      forget (mSubscriberList m)
        (emit_all (all_told event (m\<lparr>mState := AGPS_STATE_RELEASED\<rparr>) (handles n)) w))"
  using rep notify_loop_delete [of w "mSubscriberList m" "handles n"]
  by (simp add: nif_rep_def notifyAllSubscribers_def)

lemma denied_effect:
  assumes rep: "nif_rep w m n"
  obtains m' w' where "processAgpsEventDenied (m, w) = Inr (m', w')"
    and "effect m w m' w' (spec_denied n)"
proof (cases "conn n = Pending")
  case True
  note fields = rep [unfolded nif_rep_def]
  have open_eq: "open_status (m\<lparr>mState := AGPS_STATE_RELEASED\<rparr>) False = spec_open False n"
    using open_status_rep [OF rep] by (auto simp: open_status_def fun_eq_iff)
  have "processAgpsEventDenied (m, w) =
      Inr (m\<lparr>mState := AGPS_STATE_RELEASED, mSubscriberList := []\<rparr>,
        forget (mSubscriberList m) (emit_all (List.map (spec_open False n) (handles n)) w))"
    using fields True notify_all_released [OF rep, of AGPS_EVENT_DENIED]
    by (simp add: processAgpsEventDenied_def transitionState_def all_told_rep open_eq)
  then show ?thesis
    using that fields True by (simp add: effect_def spec_denied_def nif_rep_def nif_frame_def)
next
  case False
  then have "processAgpsEventDenied (m, w) = Inr (m, w)"
    using rep by (cases "conn n") (auto simp: processAgpsEventDenied_def nif_rep_def)
  then show ?thesis
    using that rep False by (simp add: effect_def spec_denied_def nif_frame_def)
qed

lemma released_effect:
  assumes rep: "nif_rep w m n"
  obtains m' w' where "processAgpsEventReleased (m, w) = Inr (m', w')"
    and "effect m w m' w' (spec_released n)"
proof (cases "conn n = Acquired")
  case True
  note fields = rep [unfolded nif_rep_def]
  have "processAgpsEventReleased (m, w) =
      Inr (m\<lparr>mState := AGPS_STATE_RELEASED, mSubscriberList := []\<rparr>,
        forget (mSubscriberList m)
          (emit_all (List.map (\<lambda>h. AtlCloseStatus h True) (handles n)) w))"
    using fields True notify_all_released [OF rep, of AGPS_EVENT_RELEASED]
    by (simp add: processAgpsEventReleased_def transitionState_def all_told_rep)
  then show ?thesis
    using that fields True by (simp add: effect_def spec_released_def nif_rep_def nif_frame_def)
next
  case False
  then have "processAgpsEventReleased (m, w) = Inr (m, w)"
    using rep by (cases "conn n") (auto simp: processAgpsEventReleased_def nif_rep_def)
  then show ?thesis
    using that rep False by (simp add: effect_def spec_released_def nif_frame_def)
qed

lemma set_apn_rep:
  "nif_rep w m n \<Longrightarrow>
    nif_rep w (setAPN name len (m\<lparr>mBearer := b\<rparr>)) (spec_set_apn name len (n\<lparr>bearer := b\<rparr>))"
  by (auto simp: nif_rep_def setAPN_def spec_set_apn_def not_le word_le_0_iff not_less
      split: option.splits)

lemma setAPN_list [simp]: "mSubscriberList (setAPN name len m) = mSubscriberList m"
  by (simp add: setAPN_def split: option.splits)

section \<open>The manager\<close>

fun other :: "nif \<Rightarrow> nif" where
  "other Agnss = Internet"
| "other Internet = Agnss"

lemma other_neq [simp]: "other n \<noteq> n" "n \<noteq> other n"
  by (cases n; simp)+

lemma nif_cases: "n' = n \<or> n' = other n"
  by (cases n; cases n') auto

lemma agps_rep_alt:
  "agps_rep g a \<longleftrightarrow> rel_option (nif_rep (world g)) (nifs g n) (a n)
    \<and> rel_option (nif_rep (world g)) (nifs g (other n)) (a (other n))
    \<and> set (list_of n g) \<inter> set (list_of (other n) g) = {}
    \<and> dom (subscribers (world g)) = set (list_of n g) \<union> set (list_of (other n) g)"
  unfolding agps_rep_def using nif_cases [of _ n] by (cases n) (auto, metis+)

lemma nif_rep_frame:
  assumes "nif_rep w m n"
    and "\<And>x. x \<in> set (mSubscriberList m) \<Longrightarrow> subscribers w' x = subscribers w x"
  shows "nif_rep w' m n"
  using assms subs_rep_frame [of w "mSubscriberList m" "handles n" w'] by (simp add: nif_rep_def)

text \<open>An operation on one state machine leaves the other one alone.\<close>

lemma manager_step:
  assumes rep: "agps_rep g a" and nif: "nifs g n = Some m" "a n = Some s"
    and eff: "effect m (world g) m' w' result"
  shows "agps_rep (g\<lparr>nifs := (nifs g)(n \<mapsto> m'), world := w'\<rparr>) (a(n \<mapsto> snd result))"
proof -
  let ?g = "g\<lparr>nifs := (nifs g)(n \<mapsto> m'), world := w'\<rparr>"
  let ?other = "list_of (other n) g"
  have lists: "list_of n g = mSubscriberList m" "list_of n ?g = mSubscriberList m'"
    "list_of (other n) ?g = ?other"
    using nif by (simp_all add: list_of_def)
  have old: "rel_option (nif_rep (world g)) (nifs g (other n)) (a (other n))"
    "set (mSubscriberList m) \<inter> set ?other = {}"
    "dom (subscribers (world g)) = set (mSubscriberList m) \<union> set ?other"
    using rep lists by (auto simp: agps_rep_alt [of g a n])
  have frame: "\<And>x. x \<notin> set (mSubscriberList m) \<union> set (mSubscriberList m') \<Longrightarrow>
      subscribers w' x = subscribers (world g) x"
    "\<And>x. x \<in> set (mSubscriberList m) - set (mSubscriberList m') \<Longrightarrow> subscribers w' x = None"
    "\<And>x. x \<in> set (mSubscriberList m') - set (mSubscriberList m) \<Longrightarrow>
      subscribers (world g) x = None"
    and rep': "nif_rep w' m' (snd result)"
    using eff by (auto simp: effect_def nif_frame_def)
  have disjoint: "set (mSubscriberList m') \<inter> set ?other = {}"
  proof (rule ccontr)
    assume "set (mSubscriberList m') \<inter> set ?other \<noteq> {}"
    then obtain x where x: "x \<in> set (mSubscriberList m')" "x \<in> set ?other"
      by blast
    then have "subscribers (world g) x = None"
      using frame(3) old(2) by blast
    moreover have "x \<in> dom (subscribers (world g))"
      using old(3) x(2) by blast
    ultimately show False
      by blast
  qed
  have same: "subscribers w' x = subscribers (world g) x" if "x \<in> set ?other" for x
    using frame(1) that old(2) disjoint by blast
  have "rel_option (nif_rep w') (nifs g (other n)) (a (other n))"
  proof (cases "nifs g (other n)")
    case None
    then show ?thesis
      using old(1) by simp
  next
    case (Some m2)
    then obtain s2 where s2: "a (other n) = Some s2" "nif_rep (world g) m2 s2"
      using old(1) by (auto simp: option_rel_Some1)
    have "nif_rep w' m2 s2"
      by (rule nif_rep_frame [OF s2(2)]) (use same Some in \<open>simp add: list_of_def\<close>)
    then show ?thesis
      using Some s2 by simp
  qed
  moreover have "dom (subscribers w') = set (mSubscriberList m') \<union> set ?other"
  proof -
    have here: "subscribers w' x \<noteq> None" if "x \<in> set (mSubscriberList m')" for x
      using rep' that subs_rep_live by (auto simp: nif_rep_def)
    have nowhere: "subscribers w' x = None" if "x \<notin> set (mSubscriberList m')" "x \<notin> set ?other" for x
    proof (cases "x \<in> set (mSubscriberList m)")
      case True
      then show ?thesis
        using that frame(2) by simp
    next
      case False
      then have "x \<notin> dom (subscribers (world g))"
        unfolding old(3) using that by simp
      then show ?thesis
        using that frame(1) [of x] False by (simp add: domIff)
    qed
    have there: "subscribers w' x \<noteq> None" if "x \<in> set ?other" for x
    proof -
      have "x \<in> dom (subscribers (world g))"
        unfolding old(3) using that by simp
      then show ?thesis
        using same [OF that] by (simp add: domIff)
    qed
    show ?thesis
    proof (rule set_eqI)
      fix x
      show "x \<in> dom (subscribers w') \<longleftrightarrow> x \<in> set (mSubscriberList m') \<union> set ?other"
        using here [of x] nowhere [of x] there [of x]
        by (cases "x \<in> set (mSubscriberList m')"; cases "x \<in> set ?other") (simp_all add: domIff)
    qed
  qed
  ultimately show ?thesis
    using rep' disjoint unfolding agps_rep_alt [of ?g "a(n \<mapsto> snd result)" n]
    by (simp add: lists)
qed

lemma represents_sub_out [simp]: "represents_sub (out_update f w) = represents_sub w"
  by (intro ext) (simp add: represents_sub_def)

lemma nif_rep_out [simp]: "nif_rep (out_update f w) = nif_rep w"
  by (intro ext) (simp add: nif_rep_def subs_rep_def)

lemma nif_rep_emit [simp]: "nif_rep (emit e w) = nif_rep w"
  by (simp add: emit_def)

lemma agps_rep_clear [simp]: "agps_rep (on_world (out_update f) g) a = agps_rep g a"
  by (simp add: agps_rep_def on_world_def list_of_def)

lemma with_nif_sim:
  assumes rep: "agps_rep g a" and nif: "nifs g n = Some m"
    and run: "\<And>s. a n = Some s \<Longrightarrow> nif_rep (world g) m s \<Longrightarrow>
      \<exists>m' w'. f (m, world g) = Inr (m', w') \<and> effect m (world g) m' w' (F s)"
    and out: "out (world g) = []"
  shows "\<exists>g'. with_nif n f g = Inr g' \<and> out (world g') = fst (spec_on n F a)
    \<and> agps_rep g' (snd (spec_on n F a))"
proof -
  have "rel_option (nif_rep (world g)) (nifs g n) (a n)"
    using rep by (simp add: agps_rep_def)
  then obtain s where s: "a n = Some s" "nif_rep (world g) m s"
    using nif by (auto simp: option_rel_Some1)
  then obtain m' w' where f: "f (m, world g) = Inr (m', w')"
    and eff: "effect m (world g) m' w' (F s)"
    using run by blast
  have "spec_on n F a = (fst (F s), a(n \<mapsto> snd (F s)))"
    using s(1) by (simp add: spec_on_def split_def Let_def)
  moreover have "with_nif n f g = Inr (g\<lparr>nifs := (nifs g)(n \<mapsto> m'), world := w'\<rparr>)"
    using nif f by (simp add: with_nif_def)
  moreover have "out w' = fst (F s)"
    using eff out by (simp add: effect_def)
  ultimately show ?thesis
    using manager_step [OF rep nif s(1) eff] by simp
qed

text \<open>One operation is simulated, from any state of the manager.\<close>

definition agps_simulated :: "agps_op \<Rightarrow> AgpsManager \<Rightarrow> agps_spec \<Rightarrow> bool" where
  "agps_simulated op g a \<longleftrightarrow>
    (\<exists>g'. agps_exec op g = Inr g' \<and> out (world g') = fst (agps_spec_step op a)
      \<and> agps_rep g' (snd (agps_spec_step op a)))"

lemma effect_list:
  "mSubscriberList m1 = mSubscriberList m \<Longrightarrow> effect m1 w m' w' r = effect m w m' w' r"
  by (simp add: effect_def)

lemma effect_stack:
  assumes eff: "effect m (put_subscriber stack s w) m' w' r"
    and fresh: "subscribers w stack = None"
    and off: "stack \<notin> set (mSubscriberList m)" "stack \<notin> set (mSubscriberList m')"
  shows "effect m w m' (delete_subscriber stack w') r"
proof -
  have "nif_rep (delete_subscriber stack w') m' (snd r)"
    by (rule nif_rep_frame [of w']) (use eff off in \<open>auto simp: effect_def\<close>)
  moreover have "nif_frame w (mSubscriberList m) (delete_subscriber stack w') (mSubscriberList m')"
    using eff fresh off by (auto simp: effect_def nif_frame_def split: if_splits)
  ultimately show ?thesis
    using eff by (simp add: effect_def)
qed

lemma rep_none: "agps_rep g a \<Longrightarrow> nifs g n = None \<longleftrightarrow> a n = None"
  by (cases "nifs g n"; cases "a n")
    (auto simp: agps_rep_def dest: spec [of _ n])

lemma rep_some:
  assumes "agps_rep g a" and "nifs g n = Some m"
  obtains s where "a n = Some s" and "nif_rep (world g) m s"
  using assms unfolding agps_rep_def by (metis option_rel_Some1)

lemma open_sim:
  assumes rep: "agps_rep g a" and out: "out (world g) = []"
    and nif: "nifs g (getAgpsStateMachine t) \<noteq> None"
  shows "\<exists>g'. reportAtlOpenSuccess t name len b g = Inr g'
    \<and> out (world g') = fst (spec_open_ok t name len b a)
    \<and> agps_rep g' (snd (spec_open_ok t name len b a))"
proof -
  obtain m where m: "nifs g (getAgpsStateMachine t) = Some m"
    using nif by blast
  show ?thesis
    unfolding reportAtlOpenSuccess_def spec_open_ok_def
  proof (rule with_nif_sim [OF rep m _ out])
    fix s
    assume s: "nif_rep (world g) m s"
    let ?m = "setAPN name len (m\<lparr>mBearer := b\<rparr>)"
    obtain m' w' where run: "processAgpsEventGranted (?m, world g) = Inr (m', w')"
      and "effect ?m (world g) m' w' (spec_granted (spec_set_apn name len (s\<lparr>bearer := b\<rparr>)))"
      by (rule granted_effect [OF set_apn_rep [OF s]])
    then have "effect m (world g) m' w' (spec_granted (spec_set_apn name len (s\<lparr>bearer := b\<rparr>)))"
      using effect_list [of ?m m] by simp
    then show "\<exists>m' w'. (case (m, world g) of (m, w) \<Rightarrow>
        processAgpsEvent 0 AGPS_EVENT_GRANTED
          (setAPN name len (m\<lparr>mBearer := b\<rparr>), w)) = Inr (m', w')
        \<and> effect m (world g) m' w' (spec_granted (spec_set_apn name len (s\<lparr>bearer := b\<rparr>)))"
      using run by (simp add: processAgpsEvent_def)
  qed
qed

lemma denied_sim:
  assumes rep: "agps_rep g a" and out: "out (world g) = []"
    and nif: "nifs g (getAgpsStateMachine t) \<noteq> None"
  shows "agps_simulated (OpenFailed t) g a"
proof -
  obtain m where m: "nifs g (getAgpsStateMachine t) = Some m"
    using nif by blast
  show ?thesis
    unfolding agps_simulated_def agps_exec.simps agps_spec_step.simps reportAtlOpenFailed_def
    by (rule with_nif_sim [OF rep m _ out])
      (auto simp: processAgpsEvent_def elim: denied_effect)
qed

lemma closed_sim:
  assumes rep: "agps_rep g a" and out: "out (world g) = []"
    and nif: "nifs g (getAgpsStateMachine t) \<noteq> None"
  shows "\<exists>g'. reportAtlClosed t g = Inr g'
    \<and> out (world g') = fst (spec_on (getAgpsStateMachine t) spec_released a)
    \<and> agps_rep g' (snd (spec_on (getAgpsStateMachine t) spec_released a))"
proof -
  obtain m where m: "nifs g (getAgpsStateMachine t) = Some m"
    using nif by blast
  show ?thesis
    unfolding reportAtlClosed_def
    by (rule with_nif_sim [OF rep m _ out])
      (auto simp: processAgpsEvent_def elim: released_effect)
qed

lemma data_open_sim:
  assumes rep: "agps_rep g a" and out: "out (world g) = []"
    and nif: "nifs g (getAgpsStateMachine t) \<noteq> None"
  shows "agps_simulated (DataConnOpen t name len b) g a"
proof (cases name)
  case None
  then show ?thesis
    using closed_sim [OF assms] by (simp add: agps_simulated_def dataConnOpenCommand_def)
next
  case (Some s)
  have good: "0 <s len \<and> len \<le>s MAX_APN_LEN \<and> length s = unat len \<longleftrightarrow>
      \<not> (len \<le>s 0 \<or> MAX_APN_LEN <s len \<or> length s \<noteq> unat len)"
    by (auto simp: word_sless_alt word_sle_eq)
  show ?thesis
  proof (cases "len \<le>s 0 \<or> MAX_APN_LEN <s len \<or> length s \<noteq> unat len")
    case True
    then have "agps_exec (DataConnOpen t name len b) g = reportAtlClosed t g"
      "agps_spec_step (DataConnOpen t name len b) a = spec_on (getAgpsStateMachine t) spec_released a"
      using good Some by (auto simp: dataConnOpenCommand_def)
    then show ?thesis
      using closed_sim [OF assms] by (simp add: agps_simulated_def)
  next
    case False
    then have "agps_exec (DataConnOpen t name len b) g = reportAtlOpenSuccess t name len b g"
      "agps_spec_step (DataConnOpen t name len b) a = spec_open_ok t name len b a"
      using good Some by (auto simp: dataConnOpenCommand_def)
    then show ?thesis
      using open_sim [OF assms] by (simp add: agps_simulated_def)
  qed
qed

lemma request_sim:
  assumes rep: "agps_rep g a" and out: "out (world g) = []"
    and ok: "agps_ok (Request pdn h t0 msk0 stack fresh) g"
  shows "agps_simulated (Request pdn h t0 msk0 stack fresh) g a"
proof -
  obtain t msk where kind: "request_kind pdn t0 msk0 = (t, msk)"
    by fastforce
  define n where "n = getAgpsStateMachine t"
  show ?thesis
  proof (cases "nifs g n")
    case None
    then show ?thesis
      using rep out rep_none [OF rep, of n] kind
      by (simp add: agps_simulated_def requestATL_def Let_def n_def on_world_def agps_rep_def
          list_of_def)
  next
    case (Some m)
    then obtain s where s: "a n = Some s" "nif_rep (world g) m s"
      using rep_some [OF rep] by blast
    let ?m = "m\<lparr>mAgpsType := t, mApnTypeMask := msk, mCurrentSubscriber := Some stack\<rparr>"
    let ?s = "s\<lparr>call_type := t, call_mask := msk\<rparr>"
    let ?sub = "\<lparr>mConnHandle = h, mWaitForCloseComplete = False, mIsInactive = False,
      mSubApnTypeMask = msk\<rparr>"
    let ?w = "put_subscriber stack ?sub (world g)"
    have stack: "stack \<notin> set (mSubscriberList m)"
      using ok s(2) subs_rep_live [of "world g" "mSubscriberList m" "handles s" stack]
      by (auto simp: nif_rep_def)
    have "nif_rep ?w m s"
      by (rule nif_rep_frame [OF s(2)]) (use stack in auto)
    then have "nif_rep ?w ?m ?s"
      by (simp add: nif_rep_def)
    then obtain m' w' where sub: "processAgpsEventSubscribe fresh (?m, ?w) = Inr (m', w')"
      and eff: "effect ?m ?w m' w' (spec_subscribe h ?s)"
      and list: "mSubscriberList m' = mSubscriberList ?m
        \<or> mSubscriberList m' = mSubscriberList ?m @ [fresh]"
      by (rule subscribe_effect [of ?w ?m ?s stack ?sub h fresh]) (use ok in simp_all)
    have "effect ?m (world g) m' (delete_subscriber stack w') (spec_subscribe h ?s)"
      by (rule effect_stack [OF eff]) (use ok stack list in auto)
    then have eff': "effect m (world g) m' (delete_subscriber stack w') (spec_subscribe h ?s)"
      using effect_list [of ?m m] by simp
    have exec: "agps_exec (Request pdn h t0 msk0 stack fresh) g =
        Inr (g\<lparr>nifs := (nifs g)(n \<mapsto> m'), world := delete_subscriber stack w'\<rparr>)"
      using Some sub kind
      by (simp add: requestATL_def Let_def n_def with_nif_def processAgpsEvent_def on_world_def)
    have spec: "agps_spec_step (Request pdn h t0 msk0 stack fresh) a =
        (fst (spec_subscribe h ?s), a(n \<mapsto> snd (spec_subscribe h ?s)))"
      using s(1) kind by (simp add: Let_def n_def spec_on_def split_def)
    have "out (delete_subscriber stack w') = fst (spec_subscribe h ?s)"
      using eff' out by (simp add: effect_def)
    then show ?thesis
      using manager_step [OF rep Some s(1) eff'] unfolding agps_simulated_def exec spec by simp
  qed
qed

lemma find_last:
  assumes rep: "nif_rep w m s" and h: "h \<in> set (handles s)"
    and last: "\<forall>a \<in> set (butlast (mSubscriberList m)). \<forall>x. subscribers w a = Some x \<longrightarrow>
      mConnHandle x \<noteq> h"
  obtains as a hs where "mSubscriberList m = as @ [a]" and "handles s = hs @ [h]"
    and "find_handle h (mSubscriberList m) w = Inr (Some a)"
proof -
  have subs: "subs_rep w (mSubscriberList m) (handles s)" "distinct (handles s)"
    using rep by (simp_all add: nif_rep_def)
  obtain hs k where hs: "handles s = hs @ [k]"
    using h by (cases "handles s" rule: rev_cases) auto
  obtain as a where as: "mSubscriberList m = as @ [a]"
    using subs_rep_length [OF subs(1)] hs by (cases "mSubscriberList m" rule: rev_cases) auto
  have sub: "subs_rep w as hs"
    using subs(1) hs as by (simp add: subs_rep_append)
  have "h \<notin> set hs"
  proof
    assume "h \<in> set hs"
    then obtain i where i: "i < length hs" "hs ! i = h"
      by (auto simp: in_set_conv_nth)
    then have "represents_sub w (as ! i) h" "as ! i \<in> set as"
      using sub by (auto simp: subs_rep_def list_all2_conv_all_nth)
    then show False
      using last as by (auto simp: represents_sub_def)
  qed
  then have "k = h" "takeWhile (\<lambda>x. x \<noteq> h) (hs @ [k]) = hs"
    using h hs by (auto simp: takeWhile_tail takeWhile_eq_all_conv)
  moreover have "find_handle h (mSubscriberList m) w = Inr (Some a)"
    using find_handle_rep [OF subs(1), of h] h subs_rep_length [OF sub] as hs calculation
    by (simp add: nth_append)
  ultimately show ?thesis
    using that as hs by simp
qed

lemma find_absent:
  assumes "agps_rep g a" and "\<not> waits_in h n a"
  shows "find_in_nif h n g = Inr None"
proof (cases "nifs g n")
  case None
  then show ?thesis
    by (simp add: find_in_nif_def)
next
  case (Some m)
  then obtain s where "a n = Some s" "nif_rep (world g) m s"
    using rep_some [OF assms(1)] by blast
  then show ?thesis
    using Some assms(2) find_handle_rep [of "world g" "mSubscriberList m" "handles s" h]
    by (simp add: find_in_nif_def getSubscriber_def waits_in_def nif_rep_def)
qed

lemma release_in:
  assumes rep: "agps_rep g a" and out: "out (world g) = []" and last: "last_or_absent h g"
    and h: "waits_in h n a"
  obtains p where "find_in_nif h n g = Inr (Some p)"
    and "\<exists>g'. with_nif n (\<lambda>(m, w). processAgpsEvent 0 AGPS_EVENT_UNSUBSCRIBE
          (m\<lparr>mCurrentSubscriber := Some p\<rparr>, w)) g = Inr g'
      \<and> out (world g') = fst (spec_on n (spec_unsubscribe h) a)
      \<and> agps_rep g' (snd (spec_on n (spec_unsubscribe h) a))"
proof -
  obtain s0 where s0: "a n = Some s0" "h \<in> set (handles s0)"
    using h by (auto simp: waits_in_def split: option.splits)
  then obtain m where m: "nifs g n = Some m"
    using rep_none [OF rep, of n] by auto
  then have rep0: "nif_rep (world g) m s0"
    using rep_some [OF rep m] s0(1) by auto
  have "list_of n g = mSubscriberList m"
    using m by (simp add: list_of_def)
  then have "\<forall>p \<in> set (butlast (mSubscriberList m)). \<forall>x. subscribers (world g) p = Some x \<longrightarrow>
      mConnHandle x \<noteq> h"
    using last by (simp add: last_or_absent_def) metis
  then obtain as p hs where list: "mSubscriberList m = as @ [p]" "handles s0 = hs @ [h]"
    "find_handle h (mSubscriberList m) (world g) = Inr (Some p)"
    by (rule find_last [OF rep0 s0(2)])
  show ?thesis
  proof (rule that)
    show "find_in_nif h n g = Inr (Some p)"
      using m list(3) by (simp add: find_in_nif_def getSubscriber_def)
    show "\<exists>g'. with_nif n (\<lambda>(m, w). processAgpsEvent 0 AGPS_EVENT_UNSUBSCRIBE
          (m\<lparr>mCurrentSubscriber := Some p\<rparr>, w)) g = Inr g'
      \<and> out (world g') = fst (spec_on n (spec_unsubscribe h) a)
      \<and> agps_rep g' (snd (spec_on n (spec_unsubscribe h) a))"
    proof (rule with_nif_sim [OF rep m _ out])
      fix s
      assume s: "a n = Some s" "nif_rep (world g) m s"
      let ?m = "m\<lparr>mCurrentSubscriber := Some p\<rparr>"
      have "nif_rep (world g) ?m s"
        using s(2) by (simp add: nif_rep_def)
      then obtain m' w' where run: "processAgpsEventUnsubscribe (?m, world g) = Inr (m', w')"
        and "effect ?m (world g) m' w' (spec_unsubscribe h s)"
        by (rule unsubscribe_effect [of _ ?m s p as hs h]) (use list s s0 in simp_all)
      then have "effect m (world g) m' w' (spec_unsubscribe h s)"
        using effect_list [of ?m m] by simp
      then show "\<exists>m' w'. (case (m, world g) of (m, w) \<Rightarrow>
            processAgpsEvent 0 AGPS_EVENT_UNSUBSCRIBE (m\<lparr>mCurrentSubscriber := Some p\<rparr>, w)) =
              Inr (m', w')
          \<and> effect m (world g) m' w' (spec_unsubscribe h s)"
        using run by (simp add: processAgpsEvent_def)
    qed
  qed
qed

lemma release_sim:
  assumes rep: "agps_rep g a" and out: "out (world g) = []" and ok: "agps_ok (Release h) g"
  shows "agps_simulated (Release h) g a"
proof -
  have last: "last_or_absent h g"
    using ok by simp
  consider (first) "waits_in h Agnss a" | (second) "\<not> waits_in h Agnss a" "waits_in h Internet a"
    | (none) "\<not> waits_in h Agnss a" "\<not> waits_in h Internet a"
    by blast
  then show ?thesis
  proof cases
    case first
    then show ?thesis
      by (rule release_in [OF rep out last])
        (simp add: agps_simulated_def releaseATL_def Let_def first)
  next
    case second
    from this(2) show ?thesis
      by (rule release_in [OF rep out last])
        (simp add: agps_simulated_def releaseATL_def Let_def find_absent [OF rep second(1)]
          second)
  next
    case none
    then show ?thesis
      using find_absent [OF rep] rep out
      by (simp add: agps_simulated_def releaseATL_def Let_def)
  qed
qed

lemma drop_nif_sim:
  assumes rep: "agps_rep g a"
  shows "\<exists>g'. drop_nif n g = Inr g' \<and> out (world g') = out (world g)
    \<and> agps_rep g' (a(n := map_option (handles_update (\<lambda>_. [])) (a n)))"
proof (cases "nifs g n")
  case None
  then have "a(n := map_option (handles_update (\<lambda>_. [])) (a n)) = a"
    using rep_none [OF rep, of n] by auto
  then show ?thesis
    using None rep by (simp add: drop_nif_def)
next
  case (Some m)
  then obtain s where s: "a n = Some s" "nif_rep (world g) m s"
    using rep_some [OF rep] by blast
  let ?m = "m\<lparr>mSubscriberList := []\<rparr>" and ?w = "forget (mSubscriberList m) (world g)"
  have "drop_loop (mSubscriberList m) (world g) = Inr ?w"
    using s(2) drop_loop_rep by (auto simp: nif_rep_def)
  then have "drop_nif n g = Inr (g\<lparr>nifs := (nifs g)(n \<mapsto> ?m), world := ?w\<rparr>)"
    using Some by (simp add: drop_nif_def with_nif_def dropAllSubscribers_def)
  moreover have eff: "effect m (world g) ?m ?w ([], s\<lparr>handles := []\<rparr>)"
    using s(2) by (auto simp: effect_def nif_rep_def nif_frame_def)
  ultimately show ?thesis
    using manager_step [OF rep Some s(1) eff] s(1) by simp
qed

lemma ssr_sim:
  assumes rep: "agps_rep g a" and out: "out (world g) = []"
  shows "agps_simulated ModemSSR g a"
proof -
  obtain g1 where g1: "drop_nif Agnss g = Inr g1" "out (world g1) = []"
    "agps_rep g1 (a(Agnss := map_option (handles_update (\<lambda>_. [])) (a Agnss)))"
    using drop_nif_sim [OF rep, of Agnss] out by auto
  obtain g2 where g2: "drop_nif Internet g1 = Inr g2" "out (world g2) = []"
    "agps_rep g2 (a(Agnss := map_option (handles_update (\<lambda>_. [])) (a Agnss),
       Internet := map_option (handles_update (\<lambda>_. [])) (a Internet)))"
    using drop_nif_sim [OF g1(3), of Internet] g1(2) by auto
  have "a(Agnss := map_option (handles_update (\<lambda>_. [])) (a Agnss),
      Internet := map_option (handles_update (\<lambda>_. [])) (a Internet)) =
      (\<lambda>n. map_option (\<lambda>s. s\<lparr>handles := []\<rparr>) (a n))"
  proof
    fix n
    show "(a(Agnss := map_option (handles_update (\<lambda>_. [])) (a Agnss),
        Internet := map_option (handles_update (\<lambda>_. [])) (a Internet))) n =
        map_option (\<lambda>s. s\<lparr>handles := []\<rparr>) (a n)"
      by (cases n) simp_all
  qed
  then show ?thesis
    using g1(1) g2 by (simp add: agps_simulated_def handleModemSSR_def)
qed

lemma new_nif_rep:
  assumes rep: "agps_rep g a" and none: "nifs g n = None"
  shows "agps_rep (g\<lparr>nifs := (nifs g)(n \<mapsto> new_state_machine t garbage)\<rparr>)
    (a(n \<mapsto> idle_nif t garbage))"
proof -
  have "nif_rep (world g) (new_state_machine t garbage) (idle_nif t garbage)"
    by (simp add: nif_rep_def new_state_machine_def idle_nif_def)
  then show ?thesis
    using rep none
    by (simp add: agps_rep_alt [of _ _ n] list_of_def) (simp add: new_state_machine_def)
qed

lemma create_sim:
  assumes rep: "agps_rep g a" and out: "out (world g) = []"
  shows "agps_simulated (Create capable atl garbage) g a"
proof -
  let ?g1 = "if nifs g Internet = None \<and> bit atl 2
    then g\<lparr>nifs := (nifs g)(Internet \<mapsto> new_state_machine 3 garbage)\<rparr> else g"
  let ?a1 = "if a Internet = None \<and> bit atl 2 then a(Internet \<mapsto> idle_nif 3 garbage) else a"
  obtain g1 a1 where eqs: "?g1 = g1" "?a1 = a1"
    by blast
  have rep1: "agps_rep g1 a1" and out1: "out (world g1) = []"
    using rep new_nif_rep [OF rep] rep_none [OF rep, of Internet] out
    by (auto simp flip: eqs)
  have agnss: "nifs g1 Agnss = None \<longleftrightarrow> a1 Agnss = None"
    using rep_none [OF rep1, of Agnss] .
  have exec: "agps_exec (Create capable atl garbage) g =
      Inr (if capable \<and> nifs g1 Agnss = None \<and> bit atl 0 \<and> bit atl 1
           then g1\<lparr>nifs := (nifs g1)(Agnss \<mapsto> new_state_machine 1 garbage)\<rparr> else g1)"
    by (simp only: agps_exec.simps createAgpsStateMachines_def Let_def eqs)
  have spec: "agps_spec_step (Create capable atl garbage) a =
      ([], if capable \<and> a1 Agnss = None \<and> bit atl 0 \<and> bit atl 1
           then a1(Agnss \<mapsto> idle_nif 1 garbage) else a1)"
    by (simp only: agps_spec_step.simps Let_def eqs)
  show ?thesis
    using rep1 out1 agnss new_nif_rep [OF rep1, of Agnss 1 garbage]
    unfolding agps_simulated_def exec spec by simp
qed

lemma agps_simulates:
  assumes rep: "agps_rep g a" and ok: "agps_ok op g"
  shows "\<exists>g'. agps_step op g = Some (fst (agps_spec_step op a), g')
    \<and> agps_rep g' (snd (agps_spec_step op a))"
proof -
  let ?g = "on_world (out_update (\<lambda>_. [])) g"
  have rep0: "agps_rep ?g a"
    using rep by simp
  have out0: "out (world ?g) = []" and nif0: "nifs ?g = nifs g"
    and subs0: "subscribers (world ?g) = subscribers (world g)"
    and list0: "list_of n ?g = list_of n g" for n
    by (simp_all add: on_world_def list_of_def)
  have ok0: "agps_ok op ?g"
    using ok by (cases op) (simp_all add: nif0 subs0 list0 last_or_absent_def)
  have "agps_simulated op ?g a"
  proof (cases op)
    case (OpenSuccess t name len b)
    then show ?thesis
      using open_sim [OF rep0 out0] ok0 by (simp add: agps_simulated_def)
  next
    case (Closed t)
    then show ?thesis
      using closed_sim [OF rep0 out0] ok0 by (simp add: agps_simulated_def)
  qed (use ok0 create_sim [OF rep0 out0] request_sim [OF rep0 out0] release_sim [OF rep0 out0]
      denied_sim [OF rep0 out0] ssr_sim [OF rep0 out0] data_open_sim [OF rep0 out0] in auto)
  then show ?thesis
    by (auto simp: agps_simulated_def agps_step_def)
qed

interpretation agps: refinement agps_step agps_spec_step agps_rep agps_ok
  by unfold_locales (rule agps_simulates)

end
