(* ===== verification/AgpsProperties.thy ===== *)
theory AgpsProperties
  imports AgpsSpec
begin

text \<open>
  The properties of the AGPS manager: its refinement of the specification without pointers,
  the invariant this gives, the discipline of the data calls, and what goes wrong.
\<close>

definition new_manager :: AgpsManager where
  "new_manager = \<lparr>nifs = (\<lambda>n. None), world = \<lparr>subscribers = (\<lambda>x. None), out = []\<rparr>\<rparr>"

lemma new_manager_rep: "agps_rep new_manager (\<lambda>n. None)"
  by (simp add: agps_rep_def new_manager_def list_of_def)

text \<open>Both state machines exist; 7 is the mask of all types.\<close>

definition two_machines :: AgpsManager where
  "two_machines = createAgpsStateMachines True 7 0 new_manager"

definition two_specs :: agps_spec where
  "two_specs = snd (agps_spec_step (Create True 7 0) (\<lambda>n. None))"

lemma two_machines_rep: "agps_rep two_machines two_specs"
  using create_sim [OF new_manager_rep, of True 7 0]
  by (simp add: agps_simulated_def two_machines_def two_specs_def new_manager_def)

lemma all_types: "bit (7 :: uint32) 0" "bit (7 :: uint32) 1" "bit (7 :: uint32) 2"
  by simp_all

lemma two_machines_nifs:
  "nifs two_machines Agnss = Some (new_state_machine 1 0)"
  "nifs two_machines Internet = Some (new_state_machine 3 0)"
  "subscribers (world two_machines) = (\<lambda>x. None)"
  by (simp_all add: two_machines_def createAgpsStateMachines_def new_manager_def Let_def)

lemma two_specs_nifs:
  "two_specs Agnss = Some (idle_nif 1 0)" "two_specs Internet = Some (idle_nif 3 0)"
  by (simp_all add: two_specs_def Let_def)

text \<open>A run in which two clients, 5 and 6, wait for one data call.\<close>

definition two_requests :: "agps_op list" where
  "two_requests = [Create True 7 0, Request True 5 1 16 100 101, Request True 6 1 16 102 103]"

definition two_waiting :: agps_spec where
  "two_waiting = (\<lambda>n. case n of
     Agnss \<Rightarrow> Some ((idle_nif 1 16)\<lparr>conn := Pending, handles := [5, 6]\<rparr>)
   | Internet \<Rightarrow> Some (idle_nif 3 0))"

lemma two_requests_ok: "run_ok agps_step agps_ok two_requests new_manager"
  by (auto simp: two_requests_def agps_step_def on_world_def new_manager_def
      createAgpsStateMachines_def Let_def requestATL_def request_kind_def
      getAgpsStateMachine_def with_nif_def processAgpsEvent_def processAgpsEventSubscribe_def
      new_state_machine_def addSubscriber_def deref_ptr_def deref_def transitionState_def
      requestOrReleaseDataConn_def split: sum.splits option.splits)

lemma two_requests_spec:
  "run_spec agps_spec_step two_requests (\<lambda>n. None) =
    ([[], [FrameworkStatus 1 16 True], []], two_waiting)"
  by (simp add: two_requests_def two_waiting_def Let_def spec_on_def request_kind_def
      getAgpsStateMachine_def spec_subscribe_def idle_nif_def add_handle_def fun_eq_iff
      split: nif.split)

lemma two_waiting_reached:
  obtains g m where "run_steps agps_step two_requests new_manager =
      Some ([[], [FrameworkStatus 1 16 True], []], g)"
    and "agps_rep g two_waiting" and "nifs g Agnss = Some m" and "nifs g Internet \<noteq> None"
    and "nif_rep (world g) m ((idle_nif 1 16)\<lparr>conn := Pending, handles := [5, 6]\<rparr>)"
proof -
  obtain g where g: "run_steps agps_step two_requests new_manager =
      Some ([[], [FrameworkStatus 1 16 True], []], g)" "agps_rep g two_waiting"
    using agps.run_simulates [OF new_manager_rep two_requests_ok] two_requests_spec by auto
  moreover have none: "nifs g Agnss \<noteq> None" "nifs g Internet \<noteq> None"
    using rep_none [OF g(2), of Agnss] rep_none [OF g(2), of Internet]
    by (simp_all add: two_waiting_def)
  moreover obtain m where m: "nifs g Agnss = Some m"
    using none by blast
  moreover have "nif_rep (world g) m ((idle_nif 1 16)\<lparr>conn := Pending, handles := [5, 6]\<rparr>)"
    using rep_some [OF g(2) m] by (auto simp: two_waiting_def)
  ultimately show ?thesis
    using that by blast
qed

lemma rep_nif:
  assumes "agps_rep g a" and "a n = Some s"
  obtains m where "nifs g n = Some m" and "nif_rep (world g) m s"
  using rep_none [OF assms(1), of n] rep_some [OF assms(1), of n] assms(2) by fastforce

lemma subs_rep_unique: "subs_rep w as hs \<Longrightarrow> subs_rep w as hs' \<Longrightarrow> hs = hs'"
proof (induction as arbitrary: hs hs')
  case (Cons a as)
  then show ?case
    by (cases hs; cases hs') (auto simp: represents_sub_def)
qed simp

lemma in_butlast_split:
  assumes "x \<in> set (butlast xs)"
  obtains ys y zs where "xs = ys @ x # y # zs"
proof -
  obtain ys ws where "butlast xs = ys @ x # ws" "xs \<noteq> []"
    using assms by (cases xs) (auto dest: split_list)
  then have "xs = ys @ x # (ws @ [last xs])"
    by (metis append_butlast_last_id append_Cons append_assoc)
  then show ?thesis
    using that by (cases ws) auto
qed

lemma split_at_length:
  assumes "length xs = length (hs @ h # h' # hs')"
  obtains as p q bs where "xs = as @ p # q # bs" and "length as = length hs"
proof -
  obtain p q bs where "drop (length hs) xs = p # q # bs"
    using assms by (cases "drop (length hs) xs"; cases "tl (drop (length hs) xs)")
      (auto simp: drop_eq_Nil dest: arg_cong [of _ _ length])
  then show ?thesis
    using that [of "take (length hs) xs" p q bs] assms append_take_drop_id [of "length hs" xs]
    by simp
qed

text \<open>After a restart of the modem no subscriber is left.\<close>

lemma restart_store_empty:
  assumes "agps_rep g (snd (agps_spec_step ModemSSR a))"
  shows "subscribers (world g) x = None"
proof -
  have "list_of n g = []" for n
  proof (cases "nifs g n")
    case None
    then show ?thesis
      by (simp add: list_of_def)
  next
    case (Some m)
    obtain s where "snd (agps_spec_step ModemSSR a) n = Some s" "nif_rep (world g) m s"
      using rep_some [OF assms Some] by blast
    then show ?thesis
      using Some by (auto simp: list_of_def nif_rep_def)
  qed
  then have "dom (subscribers (world g)) = {}"
    using assms by (simp add: agps_rep_def)
  then show ?thesis
    by auto
qed

text \<open>An idle state machine of the specification has no handles.\<close>

definition idle_empty :: "agps_spec \<Rightarrow> bool" where
  "idle_empty a \<longleftrightarrow> (\<forall>n s. a n = Some s \<longrightarrow> conn s = Idle \<longrightarrow> handles s = [])"

lemma rep_idle_empty: "agps_rep g a \<Longrightarrow> idle_empty a"
  unfolding idle_empty_def by (auto elim!: rep_nif simp: nif_rep_def)

text \<open>Which operations of the specification call the framework.\<close>

lemma no_framework [simp]:
  "FrameworkStatus t msk on \<notin> set (fst (spec_granted s))"
  "FrameworkStatus t msk on \<notin> set (fst (spec_denied s))"
  "FrameworkStatus t msk on \<notin> set (fst (spec_released s))"
  by (auto simp: spec_granted_def spec_denied_def spec_released_def spec_open_def)

lemma fst_spec_on: "e \<in> set (fst (spec_on n f a)) \<longleftrightarrow> (\<exists>s. a n = Some s \<and> e \<in> set (fst (f s)))"
  by (simp add: spec_on_def Let_def split_def split: option.split)

lemma snd_spec_on: "a n = Some s \<Longrightarrow> snd (spec_on n f a) = a(n \<mapsto> snd (f s))"
  by (simp add: spec_on_def Let_def split_def)

lemma release_framework:
  assumes "FrameworkStatus t msk on \<in> set (fst (spec_on n (spec_unsubscribe h) a))"
    and "waits_in h n a" and idle: "idle_empty a"
  shows "\<exists>s s'. a n = Some s \<and> snd (spec_on n (spec_unsubscribe h) a) n = Some s'
    \<and> call_type s' = t \<and> call_mask s' = msk \<and> \<not> on
    \<and> conn s \<noteq> Idle \<and> conn s' = Idle \<and> handles s' = []"
proof -
  obtain s where s: "a n = Some s" "FrameworkStatus t msk on \<in> set (fst (spec_unsubscribe h s))"
    "h \<in> set (handles s)"
    using assms(1,2) by (auto simp: fst_spec_on waits_in_def)
  then have "conn s \<noteq> Idle"
    using idle by (force simp: idle_empty_def)
  then show ?thesis
    using s by (auto simp: snd_spec_on spec_unsubscribe_def Let_def split: if_splits)
qed

lemma spec_framework:
  assumes "FrameworkStatus t msk on \<in> set (fst (agps_spec_step op a))"
    and idle: "idle_empty a"
  shows "\<exists>n s s'. a n = Some s \<and> snd (agps_spec_step op a) n = Some s'
    \<and> call_type s' = t \<and> call_mask s' = msk
    \<and> (on \<longrightarrow> (\<exists>pdn h t0 msk0 stack fresh. op = Request pdn h t0 msk0 stack fresh)
        \<and> conn s = Idle \<and> conn s' = Pending)
    \<and> (\<not> on \<longrightarrow> (\<exists>h. op = Release h) \<and> conn s \<noteq> Idle \<and> conn s' = Idle \<and> handles s' = [])"
proof (cases op)
  case (Request pdn h t0 msk0 stack fresh)
  obtain t1 msk1 where kind: "request_kind pdn t0 msk0 = (t1, msk1)"
    by fastforce
  let ?n = "getAgpsStateMachine t1"
  obtain s where s: "a ?n = Some s" "FrameworkStatus t msk on \<in>
      set (fst (spec_subscribe h (s\<lparr>call_type := t1, call_mask := msk1\<rparr>)))"
    using Request assms(1) kind by (auto simp: Let_def fst_spec_on split: if_splits)
  moreover have "conn s = Idle"
    using s(2) by (auto simp: spec_subscribe_def spec_open_def split: conn.splits)
  ultimately show ?thesis
    using Request kind
    by (auto simp: snd_spec_on spec_subscribe_def add_handle_def intro!: exI [of _ ?n])
next
  case (Release h)
  then consider (first) "waits_in h Agnss a" | (second) "\<not> waits_in h Agnss a" "waits_in h Internet a"
    using assms(1) by (fastforce split: if_splits)
  then show ?thesis
  proof cases
    case first
    then show ?thesis
      using release_framework [of t msk on Agnss h a] assms(1) Release idle by auto
  next
    case second
    then show ?thesis
      using release_framework [of t msk on Internet h a] assms(1) Release idle by auto
  qed
qed (use assms(1) in \<open>auto simp: Let_def fst_spec_on spec_open_ok_def split: if_splits option.splits\<close>)

section \<open>Properties\<close>

text \<open>
  C9: the AGPS manager refines its specification: from a new manager, every sequence of
  requests, releases, reports and modem restarts that the environment performs within its
  contract succeeds at pointer level, calls out exactly what the specification calls out,
  in the same order, and ends in a state that represents that of the specification.
\<close>

theorem agps_refines_spec:
  assumes "run_ok agps_step agps_ok ops new_manager"
  shows "\<exists>g. run_steps agps_step ops new_manager =
      Some (fst (run_spec agps_spec_step ops (\<lambda>n. None)), g)
    \<and> agps_rep g (snd (run_spec agps_spec_step ops (\<lambda>n. None)))"
  using agps.run_simulates [OF new_manager_rep assms] .

theorem agps_refines_spec_witness:
  "\<exists>g. run_steps agps_step two_requests new_manager =
    Some ([[], [FrameworkStatus 1 16 True], []], g)"
  using agps_refines_spec [OF two_requests_ok] two_requests_spec by (metis fst_conv)

text \<open>
  C31: in every state of such a run, for each state machine: the state is \<open>RELEASED\<close>,
  \<open>PENDING\<close> or \<open>ACQUIRED\<close> (\<open>RELEASING\<close> is never reached, as no subscriber waits for the
  close); \<open>RELEASED\<close> has no subscribers; the handles are distinct and no subscriber is
  inactive; and the store holds the subscribers of the lists, none leaked or freed twice.
\<close>

theorem agps_invariant:
  assumes "run_ok agps_step agps_ok ops new_manager"
    and "run_steps agps_step ops new_manager = Some (rs, g)" and "nifs g n = Some m"
  shows "mState m \<in> {AGPS_STATE_RELEASED, AGPS_STATE_PENDING, AGPS_STATE_ACQUIRED}
    \<and> (mState m = AGPS_STATE_RELEASED \<longrightarrow> mSubscriberList m = [])
    \<and> distinct (mSubscriberList m)
    \<and> (\<forall>x \<in> set (mSubscriberList m). \<exists>s. subscribers (world g) x = Some s \<and> \<not> mIsInactive s
        \<and> (\<forall>y \<in> set (mSubscriberList m) - {x}. \<forall>t. subscribers (world g) y = Some t \<longrightarrow>
             mConnHandle t \<noteq> mConnHandle s))
    \<and> dom (subscribers (world g)) = set (list_of Agnss g) \<union> set (list_of Internet g)"
proof -
  obtain a where rep: "agps_rep g a"
    using agps.run_simulates [OF new_manager_rep assms(1)] assms(2) by auto
  obtain s where s: "nif_rep (world g) m s"
    using rep_some [OF rep assms(3)] by blast
  have state: "mState m \<in> {AGPS_STATE_RELEASED, AGPS_STATE_PENDING, AGPS_STATE_ACQUIRED}
    \<and> (mState m = AGPS_STATE_RELEASED \<longrightarrow> mSubscriberList m = [])"
    using s by (cases "conn s") (auto simp: nif_rep_def)
  have subs: "\<exists>t. subscribers (world g) x = Some t \<and> \<not> mIsInactive t
      \<and> (\<forall>y \<in> set (mSubscriberList m) - {x}. \<forall>u. subscribers (world g) y = Some u \<longrightarrow>
           mConnHandle u \<noteq> mConnHandle t)" if x: "x \<in> set (mSubscriberList m)" for x
  proof -
    have sub: "represents_sub (world g) (mSubscriberList m ! j) (handles s ! j)"
      if "j < length (mSubscriberList m)" for j
      using s that by (auto simp: nif_rep_def subs_rep_def list_all2_conv_all_nth)
    obtain i where i: "i < length (mSubscriberList m)" "x = mSubscriberList m ! i"
      using x by (auto simp: in_set_conv_nth)
    obtain t where t: "subscribers (world g) x = Some t" "mConnHandle t = handles s ! i"
      "\<not> mIsInactive t"
      using sub [OF i(1)] i(2) by (auto simp: represents_sub_def)
    have "mConnHandle u \<noteq> mConnHandle t"
      if y: "y \<in> set (mSubscriberList m) - {x}" "subscribers (world g) y = Some u" for y u
    proof -
      obtain j where j: "j < length (mSubscriberList m)" "y = mSubscriberList m ! j"
        using y(1) by (auto simp: in_set_conv_nth)
      then have "i \<noteq> j" "mConnHandle u = handles s ! j"
        using y i sub [OF j(1)] by (auto simp: represents_sub_def)
      moreover have "length (mSubscriberList m) = length (handles s)" "distinct (handles s)"
        using s subs_rep_length by (auto simp: nif_rep_def)
      ultimately show ?thesis
        using i(1) j(1) t(2) by (simp add: nth_eq_iff_index_eq)
    qed
    then show ?thesis
      using t by blast
  qed
  show ?thesis
    using state subs s rep by (simp add: nif_rep_def agps_rep_def)
qed

theorem agps_invariant_witness:
  "\<exists>g m. run_steps agps_step [Create True 7 0] new_manager = Some ([[]], g)
    \<and> nifs g Agnss = Some m \<and> mState m = AGPS_STATE_RELEASED \<and> mSubscriberList m = []"
proof -
  have ok: "run_ok agps_step agps_ok [Create True 7 0] new_manager"
    by (simp split: option.splits)
  have run: "run_steps agps_step [Create True 7 0] new_manager = Some ([[]], two_machines)"
    by (simp add: agps_step_def two_machines_def on_world_def new_manager_def
        createAgpsStateMachines_def Let_def)
  show ?thesis
    using agps_invariant [OF ok run two_machines_nifs(1)] run two_machines_nifs(1)
    by (auto simp: new_state_machine_def)
qed



text \<open>
  C33: who asks for a data call and gives it up: the framework is asked for one only by a
  request that finds the machine released, which is then pending; it is told to release one
  only by a release that leaves the machine without subscribers and released, from a state
  that was not released.
\<close>

theorem data_call_discipline:
  assumes "agps_rep g a" and "agps_ok op g" and "agps_step op g = Some (os, g')"
    and "FrameworkStatus t msk on \<in> set os"
  shows "\<exists>n m m'. nifs g n = Some m \<and> nifs g' n = Some m'
    \<and> mAgpsType m' = t \<and> mApnTypeMask m' = msk
    \<and> (on \<longrightarrow> (\<exists>pdn h t0 msk0 stack fresh. op = Request pdn h t0 msk0 stack fresh)
        \<and> mState m = AGPS_STATE_RELEASED \<and> mState m' = AGPS_STATE_PENDING)
    \<and> (\<not> on \<longrightarrow> (\<exists>h. op = Release h) \<and> mState m \<noteq> AGPS_STATE_RELEASED
        \<and> mState m' = AGPS_STATE_RELEASED \<and> mSubscriberList m' = [])"
proof -
  obtain g1 where "agps_step op g = Some (fst (agps_spec_step op a), g1)"
    and rep1: "agps_rep g1 (snd (agps_spec_step op a))"
    using agps_simulates [OF assms(1,2)] by blast
  then have os: "os = fst (agps_spec_step op a)" and rep': "agps_rep g' (snd (agps_spec_step op a))"
    using assms(3) by auto
  have "FrameworkStatus t msk on \<in> set (fst (agps_spec_step op a))"
    using assms(4) os by simp
  from spec_framework [OF this rep_idle_empty [OF assms(1)]] obtain n s s' where
    s: "a n = Some s" "snd (agps_spec_step op a) n = Some s'"
      "call_type s' = t" "call_mask s' = msk"
      "on \<longrightarrow> (\<exists>pdn h t0 msk0 stack fresh. op = Request pdn h t0 msk0 stack fresh)
        \<and> conn s = Idle \<and> conn s' = Pending"
      "\<not> on \<longrightarrow> (\<exists>h. op = Release h) \<and> conn s \<noteq> Idle \<and> conn s' = Idle \<and> handles s' = []"
    by blast
  obtain m where "nifs g n = Some m" "nif_rep (world g) m s"
    by (rule rep_nif [OF assms(1) s(1)])
  moreover obtain m' where "nifs g' n = Some m'" "nif_rep (world g') m' s'"
    by (rule rep_nif [OF rep' s(2)])
  moreover have "mState m \<noteq> AGPS_STATE_RELEASED" if "conn s \<noteq> Idle"
    using that calculation by (cases "conn s") (auto simp: nif_rep_def)
  ultimately show ?thesis
    using s(3-6) by (intro exI [of _ n] exI [of _ m] exI [of _ m']) (auto simp: nif_rep_def)
qed

theorem data_call_discipline_witness:
  "\<exists>g m. agps_step (Request True 5 1 16 100 101) two_machines =
      Some ([FrameworkStatus 1 16 True], g)
    \<and> nifs g Agnss = Some m \<and> mState m = AGPS_STATE_PENDING"
proof -
  have ok: "agps_ok (Request True 5 1 16 100 101) two_machines"
    using two_machines_nifs(3) by simp
  have "fst (agps_spec_step (Request True 5 1 16 100 101) two_specs) = [FrameworkStatus 1 16 True]"
    using two_specs_nifs by (simp add: Let_def spec_on_def request_kind_def
        getAgpsStateMachine_def spec_subscribe_def idle_nif_def)
  then obtain g where g: "agps_step (Request True 5 1 16 100 101) two_machines =
      Some ([FrameworkStatus 1 16 True], g)"
    using agps_simulates [OF two_machines_rep ok] by auto
  obtain n m m' where n: "nifs two_machines n = Some m" "nifs g n = Some m'"
    "mAgpsType m' = 1" "mState m' = AGPS_STATE_PENDING"
    using data_call_discipline [OF two_machines_rep ok g, of 1 16 True] by auto
  moreover have "n = Agnss"
  proof (cases n)
    case Internet
    have "nifs g Internet = nifs two_machines Internet"
      using g two_machines_nifs by (auto simp: agps_step_def requestATL_def request_kind_def
          getAgpsStateMachine_def with_nif_def on_world_def and_then_def Let_def
          split: sum.splits prod.splits)
    then show ?thesis
      using n Internet two_machines_nifs by (auto simp: new_state_machine_def)
  qed simp
  ultimately show ?thesis
    using g by blast
qed

text \<open>
  C39: the release of a handle that is followed by another subscriber in its list reads the
  subscriber it has just deleted: \<open>deleteSubscriber\<close> compares the rest of the list with it.
\<close>

theorem release_use_after_free:
  assumes rep: "agps_rep g a" and s: "a n = Some s" and h: "h \<in> set (butlast (handles s))"
    and first: "n = Agnss \<or> \<not> waits_in h Agnss a"
  shows "releaseATL h g = Inl UseAfterFree"
proof -
  obtain m where m: "nifs g n = Some m" and nif: "nif_rep (world g) m s"
    by (rule rep_nif [OF rep s])
  obtain hs h' hs' where hs: "handles s = hs @ h # h' # hs'"
    using h by (rule in_butlast_split)
  have subs: "subs_rep (world g) (mSubscriberList m) (hs @ h # h' # hs')"
    and distinct: "distinct (hs @ h # h' # hs')" "distinct (mSubscriberList m)"
    and running: "conn s \<noteq> Idle"
    using nif hs by (auto simp: nif_rep_def)
  obtain as p q bs where as: "mSubscriberList m = as @ p # q # bs" "length as = length hs"
    by (rule split_at_length [of "mSubscriberList m" hs "h" "h'" hs'])
      (use subs_rep_length [OF subs] in simp)
  obtain t where t: "subscribers (world g) p = Some t" "\<not> mWaitForCloseComplete t"
    "mConnHandle t = h"
    using subs as by (auto simp: subs_rep_def list_all2_append represents_sub_def)
  have before: "takeWhile (\<lambda>x. x \<noteq> h) (hs @ h # h' # hs') = hs"
    using distinct(1) by (subst takeWhile_append2) auto
  have found: "find_in_nif h n g = Inr (Some p)"
    using find_handle_rep [OF subs, of h] before m as
    by (simp add: find_in_nif_def getSubscriber_def nth_append)
  let ?m = "m\<lparr>mCurrentSubscriber := Some p\<rparr>"
  have "delete_loop p (mSubscriberList m) (emit (AtlCloseStatus h True) (world g)) = Inl UseAfterFree"
    using delete_loop_dangles [of "emit (AtlCloseStatus h True) (world g)" as p q bs hs h "h' # hs'"]
      subs as distinct by (simp add: subs_rep_def)
  then have "unsubscribe_current (?m, world g) = Inl UseAfterFree"
    using t by (simp add: unsubscribe_current_def notifyEventToSubscriber_def deref_ptr_def
        deref_def deleteSubscriber_def)
  moreover have "mState ?m = AGPS_STATE_PENDING \<or> mState ?m = AGPS_STATE_ACQUIRED"
    using nif running by (cases "conn s") (auto simp: nif_rep_def)
  ultimately have "processAgpsEvent 0 AGPS_EVENT_UNSUBSCRIBE (?m, world g) = Inl UseAfterFree"
    by (auto simp: processAgpsEvent_def processAgpsEventUnsubscribe_def)
  then have "with_nif n (\<lambda>(m, w). processAgpsEvent 0 AGPS_EVENT_UNSUBSCRIBE
      (m\<lparr>mCurrentSubscriber := Some p\<rparr>, w)) g = Inl UseAfterFree"
    using m by (simp add: with_nif_def)
  moreover have "n = Agnss \<or> n = Internet \<and> find_in_nif h Agnss g = Inr None"
    using first find_absent [OF rep, of h Agnss] by (cases n) auto
  ultimately show ?thesis
    using found by (auto simp: releaseATL_def Let_def)
qed

theorem release_use_after_free_witness:
  "\<exists>g. run_steps agps_step two_requests new_manager =
      Some ([[], [FrameworkStatus 1 16 True], []], g)
    \<and> releaseATL 5 g = Inl UseAfterFree"
proof (rule two_waiting_reached)
  fix g
  assume run: "run_steps agps_step two_requests new_manager =
      Some ([[], [FrameworkStatus 1 16 True], []], g)"
    and rep: "agps_rep g two_waiting"
  have "releaseATL 5 g = Inl UseAfterFree"
    by (rule release_use_after_free [OF rep, of Agnss
          "(idle_nif 1 16)\<lparr>conn := Pending, handles := [5, 6]\<rparr>"])
      (simp_all add: two_waiting_def)
  then show ?thesis
    using run by blast
qed

text \<open>
  A report of an open connection with a bad name of the access point, while the call is
  pending, does nothing at all: those who wait are not answered and stay in the list.
\<close>

theorem bad_apn_swallowed:
  assumes rep: "agps_rep g a" and nif: "nifs g (getAgpsStateMachine t) = Some m"
    and pending: "mState m = AGPS_STATE_PENDING"
    and bad: "name = None \<or> len \<le>s 0 \<or> MAX_APN_LEN <s len"
  shows "\<exists>g'. agps_step (DataConnOpen t name len b) g = Some ([], g') \<and> agps_rep g' a"
proof -
  obtain s where s: "a (getAgpsStateMachine t) = Some s" "nif_rep (world g) m s"
    using rep_some [OF rep nif] by blast
  then have "conn s = Pending"
    using pending by (cases "conn s") (auto simp: nif_rep_def)
  moreover have "name = None \<or> \<not> (0 <s len \<and> len \<le>s MAX_APN_LEN)"
    using bad by (auto simp: word_sless_alt word_sle_eq)
  ultimately have "agps_spec_step (DataConnOpen t name len b) a = ([], a)"
    using s(1) by (auto simp: spec_on_def spec_released_def fun_upd_idem split: option.split)
  then show ?thesis
    using agps_simulates [OF rep, of "DataConnOpen t name len b"] nif by auto
qed

theorem bad_apn_swallowed_witness:
  "\<exists>g g'. run_steps agps_step two_requests new_manager =
      Some ([[], [FrameworkStatus 1 16 True], []], g)
    \<and> agps_step (DataConnOpen 1 None 0 0) g = Some ([], g')"
proof (rule two_waiting_reached)
  fix g m
  assume run: "run_steps agps_step two_requests new_manager =
      Some ([[], [FrameworkStatus 1 16 True], []], g)"
    and rep: "agps_rep g two_waiting" and m: "nifs g Agnss = Some m"
    and nif: "nif_rep (world g) m ((idle_nif 1 16)\<lparr>conn := Pending, handles := [5, 6]\<rparr>)"
  have "nifs g (getAgpsStateMachine 1) = Some m" "mState m = AGPS_STATE_PENDING"
    using m nif by (simp_all add: getAgpsStateMachine_def nif_rep_def)
  from bad_apn_swallowed [OF rep this, of None 0 0] show ?thesis
    using run by auto
qed

text \<open>
  A restart of the modem during a call forgets the subscribers but not the call: nothing
  is released, and the next request is granted at once, with the access point and the bearer
  of the call from before the restart.
\<close>

theorem restart_keeps_call:
  assumes rep: "agps_rep g a" and nif: "nifs g (getAgpsStateMachine t) = Some m"
    and acquired: "mState m = AGPS_STATE_ACQUIRED" and step: "agps_step ModemSSR g = Some (os, g1)"
    and fresh: "agps_ok (Request True h t msk stack fresh) g1"
  shows "os = [] \<and> (\<exists>g2. agps_step (Request True h t msk stack fresh) g1 =
    Some ([AtlOpenStatus h True (mAPN m) (mAPNLen m) (mBearer m) t msk], g2))"
proof -
  obtain s where s: "a (getAgpsStateMachine t) = Some s" "nif_rep (world g) m s"
    using rep_some [OF rep nif] by blast
  have conn: "conn s = Acquired"
    using acquired s(2) by (cases "conn s") (auto simp: nif_rep_def)
  let ?a1 = "snd (agps_spec_step ModemSSR a)"
  have "os = []" and rep1: "agps_rep g1 ?a1"
    using agps_simulates [OF rep, of ModemSSR] step by auto
  moreover have "fst (agps_spec_step (Request True h t msk stack fresh) ?a1) =
      [AtlOpenStatus h True (mAPN m) (mAPNLen m) (mBearer m) t msk]"
    using s conn by (simp add: Let_def request_kind_def spec_on_def spec_subscribe_def
        spec_open_def nif_rep_def)
  ultimately show ?thesis
    using agps_simulates [OF rep1 fresh] by auto
qed

theorem restart_keeps_call_witness:
  "\<exists>g g1 g2. run_steps agps_step two_requests new_manager =
      Some ([[], [FrameworkStatus 1 16 True], []], g)
    \<and> (\<exists>os g'. agps_step (OpenSuccess 1 (Some ''apn'') 3 7) g = Some (os, g')
      \<and> agps_step ModemSSR g' = Some ([], g1))
    \<and> agps_step (Request True 9 1 16 200 201) g1 =
      Some ([AtlOpenStatus 9 True (Some ''apn'') 3 7 1 16], g2)"
proof (rule two_waiting_reached)
  fix g m
  assume run: "run_steps agps_step two_requests new_manager =
      Some ([[], [FrameworkStatus 1 16 True], []], g)"
    and rep: "agps_rep g two_waiting" and m: "nifs g Agnss = Some m"
  let ?op = "OpenSuccess 1 (Some ''apn'') 3 7"
  let ?call = "(idle_nif 1 16)\<lparr>conn := Acquired, handles := [5, 6], apn := Some ''apn'',
    apn_len := 3, bearer := 7\<rparr>"
  have type: "getAgpsStateMachine 1 = Agnss"
    by (simp add: getAgpsStateMachine_def)
  have call: "snd (agps_spec_step ?op two_waiting) = two_waiting(Agnss \<mapsto> ?call)"
    by (simp add: type spec_open_ok_def spec_on_def spec_granted_def two_waiting_def
        spec_set_apn_def MAX_APN_LEN_def idle_nif_def fun_eq_iff split: nif.split)
  obtain os g' where g': "agps_step ?op g = Some (os, g')"
    "agps_rep g' (two_waiting(Agnss \<mapsto> ?call))"
    using agps_simulates [OF rep, of ?op] m type call by auto
  obtain m' where m': "nifs g' Agnss = Some m'" "nif_rep (world g') m' ?call"
    by (rule rep_nif [OF g'(2), of Agnss ?call]) simp_all
  obtain g1 where g1: "agps_step ModemSSR g' = Some ([], g1)"
    "agps_rep g1 (snd (agps_spec_step ModemSSR (two_waiting(Agnss \<mapsto> ?call))))"
    using agps_simulates [OF g'(2), of ModemSSR] by auto
  have ok: "agps_ok (Request True 9 1 16 200 201) g1"
    using restart_store_empty [OF g1(2)] by simp
  obtain g2 where "agps_step (Request True 9 1 16 200 201) g1 =
      Some ([AtlOpenStatus 9 True (mAPN m') (mAPNLen m') (mBearer m') 1 16], g2)"
    using restart_keeps_call [OF g'(2) _ _ g1(1) ok] m' type by (auto simp: nif_rep_def)
  then show ?thesis
    using run g'(1) g1(1) m'(2) by (auto simp: nif_rep_def)
qed

end
