(* ===== verification/FrameSync.thy ===== *)
theory FrameSync
  imports Prelude
begin

text \<open>
  The synchronisation of the frames of two cameras, the object \<open>fs\<close> of
  \<open>mm-camera-interface/src/mm_camera_channel.c\<close>: a ring of four nodes, each a frame with
  the channels that have it. A channel is known by its address.
\<close>

section \<open>Data\<close>

definition MAX_NUM_CAMERA_PER_BUNDLE :: nat where
  "MAX_NUM_CAMERA_PER_BUNDLE = 2"

definition MM_CAMERA_FRAME_SYNC_NODES :: nat where
  "MM_CAMERA_FRAME_SYNC_NODES = 4"

record mm_channel_sync_node =
  sync_frame_idx :: uint32
  frame_valid :: "bool list"
  sync_matched :: bool

record mm_channel_frame_sync_info =
  num_cam :: uint8
  pos :: uint8
  sync_nodes :: "mm_channel_sync_node list"
  ch_obj :: "addr option list"

definition zero_sync_node :: mm_channel_sync_node where
  "zero_sync_node = \<lparr>sync_frame_idx = 0, frame_valid = replicate MAX_NUM_CAMERA_PER_BUNDLE False,
     sync_matched = False\<rparr>"

section \<open>Operations\<close>

definition mm_frame_sync_reset :: mm_channel_frame_sync_info where
  "mm_frame_sync_reset = \<lparr>num_cam = 0, pos = 0,
     sync_nodes = replicate MM_CAMERA_FRAME_SYNC_NODES zero_sync_node,
     ch_obj = replicate MAX_NUM_CAMERA_PER_BUNDLE None\<rparr>"

text \<open>The first index below the length of the list at which the test holds.\<close>

fun first_index :: "('a \<Rightarrow> bool) \<Rightarrow> 'a list \<Rightarrow> nat option" where
  "first_index P [] = None"
| "first_index P (x # xs) = (if P x then Some 0 else map_option Suc (first_index P xs))"

definition mm_frame_sync_register_channel ::
  "addr \<Rightarrow> mm_channel_frame_sync_info \<Rightarrow> int \<times> mm_channel_frame_sync_info" where
  "mm_frame_sync_register_channel ch fs0 =
    (if of_nat MAX_NUM_CAMERA_PER_BUNDLE \<le> num_cam fs0 then (-1, fs0)
     else
       let fs = (if num_cam fs0 = 0 then mm_frame_sync_reset else fs0)
       in case first_index (\<lambda>c. c = None) (ch_obj fs) of
            None \<Rightarrow> (-1, fs)
          | Some i \<Rightarrow> (0, fs\<lparr>ch_obj := (ch_obj fs)[i := Some ch], num_cam := num_cam fs + 1\<rparr>))"

definition mm_frame_sync_unregister_channel ::
  "addr \<Rightarrow> mm_channel_frame_sync_info \<Rightarrow> int \<times> mm_channel_frame_sync_info" where
  "mm_frame_sync_unregister_channel ch fs =
    (if num_cam fs = 0 then (-1, fs)
     else
       let fs1 = (case first_index (\<lambda>c. c = Some ch) (ch_obj fs) of
             Some i \<Rightarrow> fs\<lparr>ch_obj := (ch_obj fs)[i := None], num_cam := num_cam fs - 1\<rparr>
           | None \<Rightarrow> fs)
       in (0, if num_cam fs1 = 0 then mm_frame_sync_reset else fs1))"

definition mm_frame_sync_find_frame_index :: "uint32 \<Rightarrow> mm_channel_frame_sync_info \<Rightarrow> nat option" where
  "mm_frame_sync_find_frame_index frame_id fs =
    first_index (\<lambda>n. sync_frame_idx n = frame_id) (sync_nodes fs)"

text \<open>The last part of \<open>mm_frame_sync_add\<close>: a node is matched when every camera has the frame.\<close>

definition update_matched :: "uint8 \<Rightarrow> mm_channel_sync_node \<Rightarrow> mm_channel_sync_node" where
  "update_matched cams n =
    (if \<not> sync_matched n \<and> of_nat (length (filter id (frame_valid n))) = cams
     then n\<lparr>sync_matched := True\<rparr> else n)"

definition on_sync_node ::
  "nat \<Rightarrow> (mm_channel_sync_node \<Rightarrow> mm_channel_sync_node) \<Rightarrow> mm_channel_frame_sync_info \<Rightarrow>
     mm_channel_frame_sync_info" where
  "on_sync_node i f fs = fs\<lparr>sync_nodes := (sync_nodes fs)[i := f (sync_nodes fs ! i)]\<rparr>"

definition mm_frame_sync_add ::
  "uint32 \<Rightarrow> addr \<Rightarrow> mm_channel_frame_sync_info \<Rightarrow> int \<times> mm_channel_frame_sync_info" where
  "mm_frame_sync_add frame_id ch fs0 =
    (if frame_id = 0 then (-1, fs0)
     else case first_index (\<lambda>c. c = Some ch) (ch_obj fs0) of
       None \<Rightarrow> (-1, fs0)
     | Some ch_idx \<Rightarrow>
         (case mm_frame_sync_find_frame_index frame_id fs0 of
            Some index \<Rightarrow>
              (0, on_sync_node index (\<lambda>n. update_matched (num_cam fs0)
                    (n\<lparr>frame_valid := (frame_valid n)[ch_idx := True]\<rparr>)) fs0)
          | None \<Rightarrow>
              let fs = (if of_nat MM_CAMERA_FRAME_SYNC_NODES \<le> pos fs0 then fs0\<lparr>pos := 0\<rparr> else fs0);
                  index = unat (pos fs);
                  n = zero_sync_node\<lparr>sync_frame_idx := frame_id,
                        frame_valid := (frame_valid zero_sync_node)[ch_idx := True],
                        sync_matched := (num_cam fs = 1)\<rparr>
              in (0, on_sync_node index (\<lambda>_. update_matched (num_cam fs) n)
                    (fs\<lparr>pos := pos fs + 1\<rparr>))))"

definition mm_frame_sync_remove ::
  "uint32 \<Rightarrow> mm_channel_frame_sync_info \<Rightarrow> int \<times> mm_channel_frame_sync_info" where
  "mm_frame_sync_remove frame_id fs =
    (if frame_id = 0 then (-1, fs)
     else case mm_frame_sync_find_frame_index frame_id fs of
       Some index \<Rightarrow> (0, on_sync_node index (\<lambda>_. zero_sync_node) fs)
     | None \<Rightarrow> (0, fs))"

text \<open>The loop of \<open>mm_frame_sync_find_matched\<close>, with the frame found so far.\<close>

fun find_matched_loop :: "bool \<Rightarrow> mm_channel_sync_node list \<Rightarrow> uint32 \<Rightarrow> uint32" where
  "find_matched_loop oldest [] frame_idx = frame_idx"
| "find_matched_loop oldest (n # ns) frame_idx =
    (if sync_matched n then
       let curr = sync_frame_idx n;
           frame = (if frame_idx = 0 then curr else frame_idx)
       in if \<not> oldest then frame
          else find_matched_loop oldest ns (if curr < frame then curr else frame)
     else find_matched_loop oldest ns frame_idx)"

definition mm_frame_sync_find_matched :: "bool \<Rightarrow> mm_channel_frame_sync_info \<Rightarrow> uint32" where
  "mm_frame_sync_find_matched oldest fs = find_matched_loop oldest (sync_nodes fs) 0"

end
