(* ===== verification/CamStreamTypes.thy ===== *)
theory CamStreamTypes
  imports Prelude
begin

text \<open>
  The types of \<open>cam_types.h\<close> the theories on streams and channels share: stream types, image
  formats, dimensions, paddings, and the planes of a buffer.
\<close>

datatype cam_stream_type =
    CAM_STREAM_TYPE_DEFAULT | CAM_STREAM_TYPE_PREVIEW | CAM_STREAM_TYPE_POSTVIEW
  | CAM_STREAM_TYPE_SNAPSHOT | CAM_STREAM_TYPE_VIDEO | CAM_STREAM_TYPE_CALLBACK
  | CAM_STREAM_TYPE_IMPL_DEFINED | CAM_STREAM_TYPE_METADATA | CAM_STREAM_TYPE_RAW
  | CAM_STREAM_TYPE_OFFLINE_PROC | CAM_STREAM_TYPE_PARM | CAM_STREAM_TYPE_ANALYSIS

section \<open>Image formats\<close>

text \<open>
  The hundred Bayer formats are a family, depth and pixel order each:
  \<open>CAM_FORMAT_BAYER_MIPI_RAW_10BPP_GBRG\<close> is \<open>CAM_FORMAT_BAYER_MIPI_RAW BPP_10 (Bayer GBRG)\<close>.
  The PLAIN families have no grey format.
\<close>

datatype bayer = GBRG | GRBG | RGGB | BGGR

datatype pattern = Bayer bayer | GREY

datatype raw_depth = BPP_8 | BPP_10 | BPP_12 | BPP_14

datatype cam_format =
    CAM_FORMAT_JPEG
  | CAM_FORMAT_YUV_420_NV12
  | CAM_FORMAT_YUV_420_NV21
  | CAM_FORMAT_YUV_420_NV21_ADRENO
  | CAM_FORMAT_YUV_420_YV12
  | CAM_FORMAT_YUV_422_NV16
  | CAM_FORMAT_YUV_422_NV61
  | CAM_FORMAT_YUV_420_NV12_VENUS
  | CAM_FORMAT_YUV_RAW_8BIT_YUYV
  | CAM_FORMAT_YUV_RAW_8BIT_YVYU
  | CAM_FORMAT_YUV_RAW_8BIT_UYVY
  | CAM_FORMAT_YUV_RAW_8BIT_VYUY
  | CAM_FORMAT_BAYER_QCOM_RAW raw_depth pattern
  | CAM_FORMAT_BAYER_MIPI_RAW raw_depth pattern
  | CAM_FORMAT_BAYER_IDEAL_RAW_QCOM raw_depth pattern
  | CAM_FORMAT_BAYER_IDEAL_RAW_MIPI raw_depth pattern
  | CAM_FORMAT_BAYER_IDEAL_RAW_PLAIN8_8BPP bayer
  | CAM_FORMAT_BAYER_IDEAL_RAW_PLAIN16 raw_depth bayer
  | CAM_FORMAT_JPEG_RAW_8BIT
  | CAM_FORMAT_META_RAW_8BIT
  | CAM_FORMAT_META_RAW_10BIT
  | CAM_FORMAT_YUV_444_NV24
  | CAM_FORMAT_YUV_444_NV42
  | CAM_FORMAT_Y_ONLY
  | CAM_FORMAT_YUV_420_NV12_UBWC
  | CAM_FORMAT_YUV_420_NV21_VENUS
  | CAM_FORMAT_8888_ARGB
  | CAM_FORMAT_Y_ONLY_10_BPP
  | CAM_FORMAT_Y_ONLY_12_BPP
  | CAM_FORMAT_Y_ONLY_14_BPP

section \<open>Buffers\<close>

record cam_dimension =
  dim_width :: int32
  dim_height :: int32

record cam_padding_info =
  width_padding :: uint32
  height_padding :: uint32
  plane_padding :: uint32
  min_stride :: uint32
  min_scanline :: uint32
  pad_offset_x :: uint32
  pad_offset_y :: uint32

text \<open>A plane of a buffer, and the planes of a frame.\<close>

record cam_mp_len_offset =
  len :: uint32
  offset :: uint32
  offset_x :: int32
  offset_y :: int32
  stride :: int32
  stride_in_bytes :: int32
  scanline :: int32
  width :: int32
  height :: int32
  meta_stride :: int32
  meta_scanline :: int32
  meta_len :: int32

record cam_frame_len_offset =
  num_planes :: uint32
  mp :: "cam_mp_len_offset list"
  frame_len :: uint32

datatype cam_rotation = ROTATE_0 | ROTATE_90 | ROTATE_180 | ROTATE_270

text \<open>
  The source of a reprocess stream: the type of a running stream, or of an external frame
  with its planes.
\<close>

datatype cam_reproc_config =
    CAM_ONLINE_REPROCESS_TYPE cam_stream_type
  | CAM_OFFLINE_REPROCESS_TYPE cam_stream_type cam_frame_len_offset

end
