(* ===== verification/Superbuf.thy ===== *)
theory Superbuf
  imports FrameSync CamStreamTypes
begin

text \<open>
  The superbuf queue of a camera channel, \<open>mm-camera-interface/src/mm_camera_channel.c\<close>:
  buffers of the bundled streams are collected, by frame, into superbufs. The queue is a list
  of superbufs (the pointers of \<open>cam_list\<close> are the subject of another theory); what the code
  reads through a pointer to a freed node is an error. A buffer handed back to its stream is
  the event \<open>Qbuf\<close>.
\<close>

section \<open>Data\<close>

datatype mm_error = FreedRead | NullDeref | OutOfBounds

record cam_frame_idx_range =
  min_frame_idx :: uint32
  max_frame_idx :: uint32
  num_led_on_frames :: uint32
  range_skip_count :: uint32
  config_batch_idx :: uint32

text \<open>Crop data: of each stream its id, and the left and top of its crop.\<close>

type_synonym crop_info = "uint32 \<times> int32 \<times> int32"

text \<open>What the code reads of a metadata buffer; \<open>None\<close> for an entry that is not valid.\<close>

record metadata_buffer =
  need_future_frame :: "bool option"
  good_frame_idx_range :: "cam_frame_idx_range option"
  crop_data :: "crop_info list option"
  divert_frame_id :: "uint32 option"
  low_light :: "bool option"
  aec_settled :: "bool option"

text \<open>A buffer of a stream; \<open>contents\<close> is its memory when it holds metadata.\<close>

record mm_camera_buf_def =
  buf_addr :: addr
  buf_stream_type :: cam_stream_type
  contents :: "metadata_buffer option"

record mm_camera_buf_info =
  stream_id :: uint32
  info_frame_idx :: uint32
  buf :: mm_camera_buf_def

datatype notify_mode = MM_CAMERA_SUPER_BUF_NOTIFY_BURST | MM_CAMERA_SUPER_BUF_NOTIFY_CONTINUOUS

datatype priority =
    MM_CAMERA_SUPER_BUF_PRIORITY_NORMAL | MM_CAMERA_SUPER_BUF_PRIORITY_FOCUS
  | MM_CAMERA_SUPER_BUF_PRIORITY_EXPOSURE_BRACKETING | MM_CAMERA_SUPER_BUF_PRIORITY_LOW

record mm_camera_channel_attr =
  notify_mode :: notify_mode
  water_mark :: uint8
  look_back :: uint8
  post_frame_skip :: uint8
  max_unmatched_frames :: uint8
  enable_frame_sync :: bool
  priority :: priority
  user_expected_frame_id :: uint8

text \<open>
  A superbuf has a slot for each bundled stream. A slot is \<open>None\<close> while it is all zero:
  its frame is 0 and its buffer is \<open>NULL\<close>; no buffer of frame 0 is ever put in.
\<close>

definition MAX_STREAM_NUM_IN_BUNDLE :: nat where
  "MAX_STREAM_NUM_IN_BUNDLE = 8"

record mm_channel_queue_node =
  num_of_bufs :: uint8
  super_buf :: "mm_camera_buf_info option list"
  matched :: bool
  expected_frame :: bool
  frame_idx :: uint32
  unmatched_meta_idx :: uint32

record mm_channel_queue =
  que :: "mm_channel_queue_node list"
  que_size :: uint32
  num_streams :: uint8
  bundled_streams :: "uint32 list"
  attr :: mm_camera_channel_attr
  expected_frame_id :: uint32
  match_cnt :: uint32
  expected_frame_id_without_led :: uint32
  led_on_start_frame_id :: uint32
  led_off_start_frame_id :: uint32
  led_on_num_frames :: uint32
  once :: bool
  frame_skip_count :: uint32
  good_frame_id :: uint32

datatype bracketing_state =
    MM_CHANNEL_BRACKETING_STATE_OFF
  | MM_CHANNEL_BRACKETING_STATE_WAIT_GOOD_FRAME_IDX
  | MM_CHANNEL_BRACKETING_STATE_ACTIVE

text \<open>
  What the queue uses of a stream: \<open>in_use\<close> is false in the state \<open>NOTUSED\<close>,
  \<open>info_type\<close> the type in its \<open>stream_info\<close> (\<open>None\<close> for \<open>NULL\<close>), \<open>owner\<close> its
  channel and \<open>linked_obj\<close> the channel its linked stream is linked to.
\<close>

record mm_stream =
  in_use :: bool
  my_hdl :: uint32
  server_stream_id :: uint32
  info_type :: "cam_stream_type option"
  owner :: addr
  linked_obj :: "addr option"

record mm_channel =
  self :: addr
  queue :: mm_channel_queue
  streams :: "mm_stream list"
  bWaitForPrepSnapshotDone :: bool
  stopZslSnapshot :: bool
  startZSlSnapshotCalled :: bool
  needLEDFlash :: bool
  bracketingState :: bracketing_state
  isFlashBracketingEnabled :: bool
  isZoom1xFrameRequested :: bool
  burstSnapNum :: uint32
  diverted_frame_id :: uint8
  isConfigCapture :: bool
  cur_capture_idx :: uint8
  capture_frame_id :: "uint32 list"
  num_batch :: uint32
  needLowLightZSL :: bool

datatype mm_event = Qbuf addr mm_camera_buf_def

record mm_world =
  fs :: mm_channel_frame_sync_info
  events :: "mm_event list"

type_synonym mm_state = "mm_channel \<times> mm_world"

section \<open>Small steps\<close>

definition on_queue :: "(mm_channel_queue \<Rightarrow> mm_channel_queue) \<Rightarrow> mm_channel \<Rightarrow> mm_channel" where
  "on_queue f c = c\<lparr>queue := f (queue c)\<rparr>"

definition mm_channel_qbuf :: "mm_camera_buf_def \<Rightarrow> mm_state \<Rightarrow> mm_state" where
  "mm_channel_qbuf b s = (case s of (c, w) \<Rightarrow> (c, w\<lparr>events := events w @ [Qbuf (self c) b]\<rparr>))"

definition on_fs ::
  "(mm_channel_frame_sync_info \<Rightarrow> int \<times> mm_channel_frame_sync_info) \<Rightarrow> mm_state \<Rightarrow> mm_state" where
  "on_fs f s = (case s of (c, w) \<Rightarrow>
    if enable_frame_sync (attr (queue c)) then (c, w\<lparr>fs := snd (f (fs w))\<rparr>) else (c, w))"

text \<open>The slots a loop over \<open>num_of_bufs\<close> visits, and the buffers in them, in order.\<close>

definition node_slots :: "mm_channel_queue_node \<Rightarrow> mm_camera_buf_info option list" where
  "node_slots n = take (unat (num_of_bufs n)) (super_buf n)"

fun slot_bufs :: "mm_camera_buf_info option list \<Rightarrow> mm_camera_buf_def list" where
  "slot_bufs [] = []"
| "slot_bufs (None # xs) = slot_bufs xs"
| "slot_bufs (Some i # xs) = buf i # slot_bufs xs"

definition node_bufs :: "mm_channel_queue_node \<Rightarrow> mm_camera_buf_def list" where
  "node_bufs n = slot_bufs (node_slots n)"

definition qbufs :: "mm_camera_buf_def list \<Rightarrow> mm_state \<Rightarrow> mm_state" where
  "qbufs bs s = fold mm_channel_qbuf bs s"

text \<open>\<open>mm_channel_node_qbuf\<close> has no test for an empty slot.\<close>

definition mm_channel_node_qbuf :: "mm_channel_queue_node \<Rightarrow> mm_state \<Rightarrow> mm_error + mm_state" where
  "mm_channel_node_qbuf n s =
    (if None \<in> set (node_slots n) then Inl NullDeref else Inr (qbufs (node_bufs n) s))"

section \<open>Taking superbufs out\<close>

definition mm_channel_superbuf_queue_init :: "mm_channel_queue \<Rightarrow> mm_channel_queue" where
  "mm_channel_superbuf_queue_init q = q\<lparr>que := [], que_size := 0\<rparr>"

definition mm_channel_superbuf_dequeue_internal ::
  "bool \<Rightarrow> mm_state \<Rightarrow> mm_channel_queue_node option \<times> mm_state" where
  "mm_channel_superbuf_dequeue_internal matched_only s =
    (case s of (c, w) \<Rightarrow>
     case que (queue c) of
       [] \<Rightarrow> (None, (c, w))
     | n # ns \<Rightarrow>
         if matched_only \<and> \<not> matched n then (None, (c, w))
         else
           let q = (queue c)\<lparr>que := ns, que_size := que_size (queue c) - 1\<rparr>
           in if matched n
              then (Some n, on_fs (mm_frame_sync_remove (frame_idx n))
                     (c\<lparr>queue := q\<lparr>match_cnt := match_cnt q - 1\<rparr>\<rparr>, w))
              else (Some n, (c\<lparr>queue := q\<rparr>, w)))"

definition mm_channel_superbuf_dequeue :: "mm_state \<Rightarrow> mm_channel_queue_node option \<times> mm_state" where
  "mm_channel_superbuf_dequeue = mm_channel_superbuf_dequeue_internal True"

fun dequeue_frame :: "uint32 \<Rightarrow> mm_channel_queue_node list \<Rightarrow>
    (mm_channel_queue_node \<times> mm_channel_queue_node list) option" where
  "dequeue_frame frame [] = None"
| "dequeue_frame frame (n # ns) =
    (if matched n \<and> frame_idx n = frame then Some (n, ns)
     else map_option (\<lambda>(m, ms). (m, n # ms)) (dequeue_frame frame ns))"

definition mm_channel_superbuf_dequeue_frame_internal ::
  "uint32 \<Rightarrow> mm_channel_queue \<Rightarrow> mm_channel_queue_node option \<times> mm_channel_queue" where
  "mm_channel_superbuf_dequeue_frame_internal frame q =
    (case dequeue_frame frame (que q) of
       None \<Rightarrow> (None, q)
     | Some (n, ns) \<Rightarrow> (Some n, q\<lparr>que := ns, que_size := que_size q - 1,
                                match_cnt := match_cnt q - 1\<rparr>))"

text \<open>
  The loop of \<open>bufdone_overflow\<close> and \<open>skip\<close>: it takes matched superbufs out while there
  are more than \<open>limit\<close>. When the first superbuf is not matched it takes out nothing and
  goes on for ever: the loop has no value then.
\<close>

partial_function (option) reduce_loop :: "uint8 \<Rightarrow> mm_state \<Rightarrow> mm_state option" where
  "reduce_loop limit s =
    (if ucast limit < match_cnt (queue (fst s)) then
       (case mm_channel_superbuf_dequeue_internal True s of
          (None, s') \<Rightarrow> reduce_loop limit s'
        | (Some n, s') \<Rightarrow> reduce_loop limit (qbufs (node_bufs n) s'))
     else Some s)"

definition mm_channel_superbuf_bufdone_overflow :: "mm_state \<Rightarrow> mm_state option" where
  "mm_channel_superbuf_bufdone_overflow s =
    (if notify_mode (attr (queue (fst s))) = MM_CAMERA_SUPER_BUF_NOTIFY_CONTINUOUS then Some s
     else reduce_loop (water_mark (attr (queue (fst s)))) s)"

definition mm_channel_superbuf_skip :: "mm_state \<Rightarrow> mm_state option" where
  "mm_channel_superbuf_skip s =
    (if notify_mode (attr (queue (fst s))) = MM_CAMERA_SUPER_BUF_NOTIFY_CONTINUOUS then Some s
     else reduce_loop (look_back (attr (queue (fst s)))) s)"

text \<open>
  The loops of \<open>flush\<close> and \<open>flush_matched\<close>. Each turn shortens the queue, so as many turns
  as it has superbufs, and one more, are enough.
\<close>

fun flush_turns :: "bool \<Rightarrow> (mm_camera_buf_def \<Rightarrow> bool) \<Rightarrow> nat \<Rightarrow> mm_state \<Rightarrow> mm_state" where
  "flush_turns matched_only returned 0 s = s"
| "flush_turns matched_only returned (Suc k) s =
    (case mm_channel_superbuf_dequeue_internal matched_only s of
       (None, s') \<Rightarrow> s'
     | (Some n, s') \<Rightarrow>
         flush_turns matched_only returned k (qbufs (filter returned (node_bufs n)) s'))"

definition mm_channel_superbuf_flush :: "cam_stream_type \<Rightarrow> mm_state \<Rightarrow> mm_state" where
  "mm_channel_superbuf_flush cam_type s =
    flush_turns False (\<lambda>b. cam_type = CAM_STREAM_TYPE_DEFAULT \<or> cam_type = buf_stream_type b)
      (Suc (length (que (queue (fst s))))) s"

definition mm_channel_superbuf_flush_matched :: "mm_state \<Rightarrow> mm_state" where
  "mm_channel_superbuf_flush_matched s =
    flush_turns True (\<lambda>b. True) (Suc (length (que (queue (fst s))))) s"

end
