(* ===== verification/SuperbufMatch.thy ===== *)
theory SuperbufMatch
  imports Superbuf
begin

text \<open>
  The matching of an incoming buffer, \<open>mm_channel_superbuf_comp_and_enqueue\<close>, with what
  the metadata of a frame changes in the channel first.
\<close>

section \<open>Metadata\<close>

definition MM_CAMERA_MAX_FUTURE_FRAME_WAIT :: uint32 where
  "MM_CAMERA_MAX_FUTURE_FRAME_WAIT = 100"

fun find_by :: "('a \<Rightarrow> bool) \<Rightarrow> 'a list \<Rightarrow> 'a option" where
  "find_by P [] = None"
| "find_by P (x # xs) = (if P x then Some x else find_by P xs)"

definition mm_channel_util_get_stream_by_handler :: "mm_channel \<Rightarrow> uint32 \<Rightarrow> mm_stream option" where
  "mm_channel_util_get_stream_by_handler c handler =
    find_by (\<lambda>s. in_use s \<and> handler = my_hdl s) (streams c)"

definition set_expected :: "uint32 \<Rightarrow> mm_channel \<Rightarrow> mm_channel" where
  "set_expected f = on_queue (expected_frame_id_update (\<lambda>_. f))"

definition expect_future :: "mm_channel \<Rightarrow> mm_channel" where
  "expect_future = on_queue (expected_frame_id_update (\<lambda>f. f + MM_CAMERA_MAX_FUTURE_FRAME_WAIT))"

definition on_channel :: "(mm_channel \<Rightarrow> mm_channel) \<Rightarrow> mm_state \<Rightarrow> mm_state" where
  "on_channel f s = (f (fst s), snd s)"

fun snapshot_id :: "mm_stream list \<Rightarrow> mm_error + uint32" where
  "snapshot_id [] = Inr 0"
| "snapshot_id (s # ss) =
    (if \<not> in_use s then snapshot_id ss
     else case info_type s of
       None \<Rightarrow> Inl NullDeref
     | Some t \<Rightarrow> if t = CAM_STREAM_TYPE_SNAPSHOT then Inr (server_stream_id s) else snapshot_id ss)"

definition crop_1x_found :: "metadata_buffer \<Rightarrow> mm_channel \<Rightarrow> mm_error + bool" where
  "crop_1x_found md c =
    (case crop_data md of
       None \<Rightarrow> Inr False
     | Some infos \<Rightarrow> and_then (snapshot_id (streams c)) (\<lambda>snapshot.
         Inr (list_ex (\<lambda>(sid, left, top). sid = snapshot \<and> left = 0 \<and> top = 0) infos)))"

text \<open>The frame of a diverted buffer is stored in 8 bits.\<close>

definition meta_divert :: "metadata_buffer \<Rightarrow> uint32 \<Rightarrow> mm_channel \<Rightarrow> mm_channel" where
  "meta_divert md frame c =
    (case divert_frame_id md of
       None \<Rightarrow> c
     | Some f \<Rightarrow> c\<lparr>diverted_frame_id := (if frame \<le> f then ucast f else 0)\<rparr>)"

definition meta_zoom_1x :: "bool \<Rightarrow> uint32 \<Rightarrow> mm_state \<Rightarrow> mm_state" where
  "meta_zoom_1x found frame s =
    (if found then on_channel (\<lambda>c. set_expected (frame + 1) (c\<lparr>isZoom1xFrameRequested := False\<rparr>)) s
     else mm_channel_superbuf_flush_matched (on_channel expect_future s))"

definition meta_prep_snapshot :: "metadata_buffer \<Rightarrow> mm_state \<Rightarrow> mm_state" where
  "meta_prep_snapshot md s =
    (case need_future_frame md of
       None \<Rightarrow> s
     | Some need \<Rightarrow>
         let s = on_channel (\<lambda>c. c\<lparr>bWaitForPrepSnapshotDone := False\<rparr>) s
         in if need
            then on_channel (\<lambda>c. c\<lparr>needLEDFlash := True\<rparr>)
                   (mm_channel_superbuf_flush CAM_STREAM_TYPE_DEFAULT (on_channel expect_future s))
            else on_channel (\<lambda>c. c\<lparr>needLEDFlash := False\<rparr>) s)"

definition led_range :: "cam_frame_idx_range \<Rightarrow> mm_channel_queue \<Rightarrow> mm_channel_queue" where
  "led_range r q = q\<lparr>led_on_start_frame_id := min_frame_idx r,
     led_off_start_frame_id := max_frame_idx r, once := False,
     led_on_num_frames := num_led_on_frames r, frame_skip_count := range_skip_count r\<rparr>"

definition meta_good_frame :: "metadata_buffer \<Rightarrow> mm_state \<Rightarrow> mm_state" where
  "meta_good_frame md s =
    (case good_frame_idx_range md of
       Some r \<Rightarrow>
         on_channel (\<lambda>c. on_queue (\<lambda>q.
           (if needLEDFlash c \<and> 1 < burstSnapNum c then led_range r else id)
             (q\<lparr>expected_frame_id := min_frame_idx r, good_frame_id := min_frame_idx r\<rparr>)) c) s
     | None \<Rightarrow>
         if bracketingState (fst s) = MM_CHANNEL_BRACKETING_STATE_WAIT_GOOD_FRAME_IDX
           \<and> need_future_frame md = None
         then on_channel expect_future (mm_channel_superbuf_flush_matched s)
         else s)"

definition meta_flash_bracketing :: "metadata_buffer \<Rightarrow> mm_channel \<Rightarrow> mm_channel" where
  "meta_flash_bracketing md c =
    (case good_frame_idx_range md of
       None \<Rightarrow> c
     | Some r \<Rightarrow>
         let good = \<lambda>q. q\<lparr>expected_frame_id := min_frame_idx r, good_frame_id := min_frame_idx r\<rparr>
         in if isFlashBracketingEnabled c
            then on_queue (\<lambda>q. (good q)\<lparr>expected_frame_id_without_led := max_frame_idx r\<rparr>) c
            else on_queue good (c\<lparr>bracketingState := MM_CHANNEL_BRACKETING_STATE_ACTIVE\<rparr>))"

definition meta_config_capture :: "metadata_buffer \<Rightarrow> mm_channel \<Rightarrow> mm_error + mm_channel" where
  "meta_config_capture md c =
    (case good_frame_idx_range md of
       None \<Rightarrow> Inr c
     | Some r \<Rightarrow>
         if isConfigCapture c \<and> config_batch_idx r < num_batch c then
           let i = unat (config_batch_idx r); k = unat (cur_capture_idx c)
           in if length (capture_frame_id c) \<le> i \<or> length (capture_frame_id c) \<le> k
              then Inl OutOfBounds
              else
                let ids = (capture_frame_id c)[i := min_frame_idx r];
                    f = (if ucast (cur_capture_idx c) = config_batch_idx r
                         then min_frame_idx r else ids ! k)
                in Inr (on_queue (\<lambda>q. q\<lparr>expected_frame_id := f, good_frame_id := f\<rparr>)
                     (c\<lparr>capture_frame_id := ids\<rparr>))
         else Inr c)"

definition meta_led_burst :: "uint32 \<Rightarrow> mm_channel \<Rightarrow> mm_channel" where
  "meta_led_burst frame c =
    (if 1 < burstSnapNum c \<and> needLEDFlash c \<and> \<not> isFlashBracketingEnabled c
       \<and> bracketingState c = MM_CHANNEL_BRACKETING_STATE_OFF \<and> \<not> isConfigCapture c
       \<and> led_off_start_frame_id (queue c) \<le> frame \<and> \<not> once (queue c)
     then on_queue (\<lambda>q. q\<lparr>expected_frame_id := led_off_start_frame_id q + frame_skip_count q,
            once := True\<rparr>) (c\<lparr>stopZslSnapshot := True, needLEDFlash := False\<rparr>)
     else c)"

definition meta_low_light :: "metadata_buffer \<Rightarrow> mm_channel \<Rightarrow> mm_channel" where
  "meta_low_light md c =
    (case low_light md of None \<Rightarrow> c | Some b \<Rightarrow> c\<lparr>needLowLightZSL := b\<rparr>)"

definition meta_user_expected :: "metadata_buffer \<Rightarrow> uint32 \<Rightarrow> mm_channel \<Rightarrow> mm_channel" where
  "meta_user_expected md frame c =
    (let user = user_expected_frame_id (attr (queue c));
         reset = \<lambda>q. q\<lparr>attr := (attr q)\<lparr>user_expected_frame_id := 0\<rparr>\<rparr>
     in if user = 0 then c
        else if frame < ucast user then
          (if aec_settled md = Some True
           then on_queue (\<lambda>q. reset (q\<lparr>expected_frame_id := frame\<rparr>)) c else c)
        else on_queue reset c)"

text \<open>The body of \<open>mm_channel_handle_metadata\<close> for a metadata buffer.\<close>

definition handle_metadata_of ::
  "metadata_buffer \<Rightarrow> uint32 \<Rightarrow> mm_state \<Rightarrow> mm_error + mm_state" where
  "handle_metadata_of md frame s =
    and_then (crop_1x_found md (fst s)) (\<lambda>found.
    let s = on_channel (meta_divert md frame) s
    in if isZoom1xFrameRequested (fst s) then Inr (meta_zoom_1x found frame s)
       else
         let s = meta_good_frame md (meta_prep_snapshot md s)
         in and_then (meta_config_capture md (meta_flash_bracketing md (fst s))) (\<lambda>c.
              Inr (meta_user_expected md frame (meta_low_light md (meta_led_burst frame c)), snd s)))"

text \<open>False when the code returns -1.\<close>

definition mm_channel_handle_metadata ::
  "mm_camera_buf_info \<Rightarrow> mm_state \<Rightarrow> mm_error + (bool \<times> mm_state)" where
  "mm_channel_handle_metadata b s =
    (case mm_channel_util_get_stream_by_handler (fst s) (stream_id b) of
       None \<Rightarrow> Inr (False, s)
     | Some st \<Rightarrow>
         (case info_type st of
            None \<Rightarrow> Inr (False, s)
          | Some t \<Rightarrow>
              if t = CAM_STREAM_TYPE_METADATA
                \<and> (owner st = self (fst s) \<or> linked_obj st = Some (self (fst s)))
              then (case contents (buf b) of
                      None \<Rightarrow> Inr (False, s)
                    | Some md \<Rightarrow> and_then (handle_metadata_of md (info_frame_idx b) s)
                                  (\<lambda>s. Inr (True, s)))
              else Inr (True, s)))"

section \<open>Matching\<close>

definition mm_channel_util_seq_comp_w_rollover :: "uint32 \<Rightarrow> uint32 \<Rightarrow> int" where
  "mm_channel_util_seq_comp_w_rollover v1 v2 = (if v2 < v1 then 1 else if v1 < v2 then -1 else 0)"

definition mm_channel_validate_super_buf :: "mm_camera_buf_info \<Rightarrow> mm_channel_queue \<Rightarrow> int" where
  "mm_channel_validate_super_buf b q =
    (if list_ex (\<lambda>n. expected_frame n \<and> info_frame_idx b = frame_idx n) (que q) then 1 else 0)"

text \<open>Whether the buffer goes into a superbuf that is not matched yet.\<close>

definition goes_into :: "bool \<Rightarrow> nat \<Rightarrow> mm_camera_buf_info \<Rightarrow> mm_channel_queue_node \<Rightarrow> bool" where
  "goes_into low slot b n =
    (let meta = (buf_stream_type (buf b) = CAM_STREAM_TYPE_METADATA);
         empty = (super_buf n ! slot = None)
     in info_frame_idx b = frame_idx n
        \<or> (low \<and> empty \<and> meta \<and> frame_idx n < info_frame_idx b)
        \<or> (low \<and> \<not> meta \<and> empty \<and> info_frame_idx b < unmatched_meta_idx n))"

text \<open>
  The loop over the queue: the superbuf found, the number of unmatched ones passed (in 8
  bits), and the first unmatched ones that are older and younger than the buffer. Superbufs
  are named by their index.
\<close>

record scan =
  unmatched_bundles :: uint8
  last_buf :: "nat option"
  insert_before_buf :: "nat option"

definition pass_over :: "uint32 \<Rightarrow> nat \<Rightarrow> mm_channel_queue_node \<Rightarrow> scan \<Rightarrow> scan" where
  "pass_over f i n sc =
    sc\<lparr>unmatched_bundles := unmatched_bundles sc + 1,
       last_buf := (if last_buf sc = None \<and> frame_idx n < f then Some i else last_buf sc),
       insert_before_buf := (if insert_before_buf sc = None \<and> f < frame_idx n then Some i
                             else insert_before_buf sc)\<rparr>"

fun comp_scan :: "bool \<Rightarrow> nat \<Rightarrow> mm_camera_buf_info \<Rightarrow> nat \<Rightarrow> mm_channel_queue_node list \<Rightarrow> scan \<Rightarrow>
    nat option \<times> scan" where
  "comp_scan low slot b i [] sc = (None, sc)"
| "comp_scan low slot b i (n # ns) sc =
    (if matched n then comp_scan low slot b (Suc i) ns sc
     else if goes_into low slot b n then (Some i, sc)
     else comp_scan low slot b (Suc i) ns (pass_over (info_frame_idx b) i n sc))"

text \<open>A superbuf that holds only metadata takes the frame of the first other buffer.\<close>

definition reset_meta_only :: "uint32 \<Rightarrow> mm_channel_queue_node \<Rightarrow> mm_channel_queue_node" where
  "reset_meta_only f n =
    (if 0 < unmatched_meta_idx n then n\<lparr>unmatched_meta_idx := 0, frame_idx := f\<rparr> else n)"

definition fill_slot :: "nat \<Rightarrow> mm_camera_buf_info \<Rightarrow> mm_channel_queue_node \<Rightarrow> mm_channel_queue_node" where
  "fill_slot slot b n =
    (let n = n\<lparr>super_buf := (super_buf n)[slot := Some b]\<rparr>
     in n\<lparr>matched := (None \<notin> set (node_slots n))\<rparr>)"

definition expect_after_match :: "uint32 \<Rightarrow> mm_channel \<Rightarrow> mm_channel" where
  "expect_after_match f c =
    (if isFlashBracketingEnabled c then
       let without = expected_frame_id_without_led (queue c); c = set_expected without c
       in if without \<le> f then c\<lparr>isFlashBracketingEnabled := False\<rparr> else c
     else set_expected (f + ucast (post_frame_skip (attr (queue c)))) c)"

definition node_at :: "nat \<Rightarrow> mm_channel_queue_node \<Rightarrow> mm_channel_queue \<Rightarrow> mm_channel_queue" where
  "node_at k n q = q\<lparr>que := (que q)[k := n]\<rparr>"

text \<open>Remove the superbufs from one index up to another, and hand their buffers back.\<close>

definition release_older :: "nat option \<Rightarrow> nat \<Rightarrow> mm_state \<Rightarrow> mm_state" where
  "release_older oldest k s =
    (case oldest of
       None \<Rightarrow> s
     | Some l \<Rightarrow>
         let older = drop l (take k (que (queue (fst s))))
         in qbufs (concat (List.map node_bufs older))
              (on_channel (on_queue (\<lambda>q. q\<lparr>que := take l (que q) @ drop k (que q),
                 que_size := que_size q - of_nat (length older)\<rparr>)) s))"

text \<open>A superbuf was found, at the index \<open>k\<close>.\<close>

definition put_into_found :: "nat \<Rightarrow> mm_camera_buf_info \<Rightarrow> nat \<Rightarrow> scan \<Rightarrow> mm_state \<Rightarrow> mm_state" where
  "put_into_found slot b k sc s =
    (let f = info_frame_idx b;
         n = reset_meta_only f (que (queue (fst s)) ! k)
     in if super_buf n ! slot \<noteq> None
        then mm_channel_qbuf (buf b) (on_channel (on_queue (node_at k n)) s)
        else
          let n = fill_slot slot b n
          in if matched n then
               release_older (last_buf sc) k
                 (on_fs (mm_frame_sync_add f (self (fst s)))
                   (on_channel (\<lambda>c. on_queue
                       (\<lambda>q. node_at k (n\<lparr>expected_frame := False\<rparr>) (q\<lparr>match_cnt := match_cnt q + 1\<rparr>))
                       (expect_after_match f c)) s))
             else if ucast (diverted_frame_id (fst s)) = f then
               on_channel (\<lambda>c. on_queue (node_at k (n\<lparr>expected_frame := True\<rparr>))
                 (c\<lparr>diverted_frame_id := 0\<rparr>)) s
             else on_channel (on_queue (node_at k n)) s)"

text \<open>
  The loop that drops an unmatched superbuf, with the index of the one it dropped. The node is
  freed, and then its link is read; \<open>intact\<close> says whether the allocator leaves a freed node
  as it was. Then the link leads back to the node itself, and a second turn would free it
  again.
\<close>

fun drop_unmatched ::
  "bool \<Rightarrow> uint8 \<Rightarrow> nat option \<Rightarrow> uint8 \<Rightarrow> nat \<Rightarrow> mm_channel_queue_node list \<Rightarrow>
     mm_error + (nat option \<times> uint8)" where
  "drop_unmatched intact mx before n i [] = Inr (None, n)"
| "drop_unmatched intact mx before n i (x # xs) =
    (if \<not> mx < n then Inr (None, n)
     else if \<not> expected_frame x \<and> Some i \<noteq> before then
       (if intact \<and> \<not> mx < n - 1 then Inr (Some i, n - 1) else Inl FreedRead)
     else drop_unmatched intact mx before n (Suc i) xs)"

definition drop_node :: "nat \<Rightarrow> mm_state \<Rightarrow> mm_state" where
  "drop_node d s =
    qbufs (node_bufs (que (queue (fst s)) ! d))
      (on_channel (on_queue (\<lambda>q. q\<lparr>que := take d (que q) @ drop (Suc d) (que q),
         que_size := que_size q - 1\<rparr>)) s)"

text \<open>Which superbuf is dropped to make room: by the loop, or the oldest after it.\<close>

definition room_for :: "bool \<Rightarrow> scan \<Rightarrow> mm_channel_queue \<Rightarrow> mm_error + nat option" where
  "room_for intact sc q =
    (let mx = max_unmatched_frames (attr q)
     in case last_buf sc of
          None \<Rightarrow> Inr None
        | Some l \<Rightarrow>
            and_then (drop_unmatched intact mx (insert_before_buf sc) (unmatched_bundles sc) l
                (drop l (que q))) (\<lambda>(dropped, n).
              Inr (if mx < n then Some l else dropped)))"

definition insert_at :: "nat \<Rightarrow> 'a \<Rightarrow> 'a list \<Rightarrow> 'a list" where
  "insert_at i x xs = take i xs @ x # drop i xs"

definition new_node :: "nat \<Rightarrow> mm_camera_buf_info \<Rightarrow> mm_channel \<Rightarrow> mm_channel_queue_node" where
  "new_node slot b c =
    (let f = info_frame_idx b; q = queue c; single = (num_streams q = 1)
     in \<lparr>num_of_bufs = num_streams q,
         super_buf = (replicate MAX_STREAM_NUM_IN_BUNDLE None)[slot := Some b],
         matched = single,
         expected_frame = ((ucast (diverted_frame_id c) = f \<or> f = good_frame_id q) \<and> \<not> single),
         frame_idx = f,
         unmatched_meta_idx =
           (if priority (attr q) = MM_CAMERA_SUPER_BUF_PRIORITY_LOW
              \<and> buf_stream_type (buf b) = CAM_STREAM_TYPE_METADATA then f else 0)\<rparr>)"

definition enqueue_new :: "nat \<Rightarrow> mm_camera_buf_info \<Rightarrow> nat option \<Rightarrow> mm_state \<Rightarrow> mm_state" where
  "enqueue_new slot b before s =
    (let f = info_frame_idx b; c = fst s; n = new_node slot b c;
         diverted = (ucast (diverted_frame_id c) = f \<or> f = good_frame_id (queue c));
         put = \<lambda>q. q\<lparr>que := (case before of None \<Rightarrow> que q @ [n] | Some i \<Rightarrow> insert_at i n (que q)),
                    que_size := que_size q + 1\<rparr>;
         s = on_channel (\<lambda>c. on_queue put (if diverted then c\<lparr>diverted_frame_id := 0\<rparr> else c)) s
     in if num_streams (queue c) = 1 then
          on_fs (mm_frame_sync_add f (self c))
            (on_channel (on_queue (\<lambda>q. q\<lparr>match_cnt := match_cnt q + 1,
               expected_frame_id := f + ucast (post_frame_skip (attr q))\<rparr>)) s)
        else s)"

text \<open>No superbuf was found; \<open>mem\<close> says whether both allocations succeed.\<close>

definition put_into_new ::
  "bool \<Rightarrow> bool \<Rightarrow> nat \<Rightarrow> mm_camera_buf_info \<Rightarrow> scan \<Rightarrow> mm_state \<Rightarrow> mm_error + mm_state" where
  "put_into_new intact mem slot b sc s =
    (let q = queue (fst s)
     in if max_unmatched_frames (attr q) < unmatched_bundles sc \<and> last_buf sc = None
        then Inr (mm_channel_qbuf (buf b) s)
        else and_then (room_for intact sc q) (\<lambda>dropped.
          let s = (case dropped of None \<Rightarrow> s | Some d \<Rightarrow> drop_node d s);
              before = map_option (\<lambda>i. case dropped of
                  Some d \<Rightarrow> if d < i then i - 1 else i | None \<Rightarrow> i) (insert_before_buf sc)
          in Inr (if mem then enqueue_new slot b before s else mm_channel_qbuf (buf b) s)))"

definition match_and_put ::
  "bool \<Rightarrow> bool \<Rightarrow> nat \<Rightarrow> mm_camera_buf_info \<Rightarrow> mm_state \<Rightarrow> mm_error + mm_state" where
  "match_and_put intact mem slot b s =
    (let q = queue (fst s);
         low = (priority (attr q) = MM_CAMERA_SUPER_BUF_PRIORITY_LOW)
     in case comp_scan low slot b 0 (que q)
            \<lparr>unmatched_bundles = 0, last_buf = None, insert_before_buf = None\<rparr> of
          (Some k, sc) \<Rightarrow> Inr (put_into_found slot b k sc s)
        | (None, sc) \<Rightarrow> put_into_new intact mem slot b sc s)"

definition mm_channel_superbuf_comp_and_enqueue ::
  "bool \<Rightarrow> bool \<Rightarrow> mm_camera_buf_info \<Rightarrow> mm_state \<Rightarrow> mm_error + (int \<times> mm_state)" where
  "mm_channel_superbuf_comp_and_enqueue intact mem b s =
    (let q = queue (fst s)
     in case first_index (\<lambda>h. stream_id b = h) (take (unat (num_streams q)) (bundled_streams q)) of
          None \<Rightarrow> Inr (-1, s)
        | Some slot \<Rightarrow>
            if info_frame_idx b = 0 then Inr (0, mm_channel_qbuf (buf b) s)
            else and_then (mm_channel_handle_metadata b s) (\<lambda>(ok, s).
              if \<not> ok then Inr (-1, mm_channel_qbuf (buf b) s)
              else if mm_channel_util_seq_comp_w_rollover (info_frame_idx b)
                    (expected_frame_id (queue (fst s))) < 0
                  \<and> mm_channel_validate_super_buf b (queue (fst s)) \<le> 0
              then Inr (0, mm_channel_qbuf (buf b) s)
              else and_then (match_and_put intact mem slot b s) (\<lambda>s. Inr (0, s))))"

end
