(* ===== verification/SuperbufInvariants.thy ===== *)
theory SuperbufInvariants
  imports SuperbufMatch "HOL-Library.Multiset"
begin

text \<open>
  The superbuf queue keeps every buffer it is given until it hands it out or back, and keeps
  its superbufs in order: first the matched ones, then the others by frame.
\<close>

section \<open>What an operation leaves alone\<close>

lemma qbufs_simps [simp]:
  "fst (qbufs bs s) = fst s"
  "fs (snd (qbufs bs s)) = fs (snd s)"
  "events (snd (qbufs bs s)) = events (snd s) @ List.map (Qbuf (self (fst s))) bs"
proof -
  have "fst (qbufs bs s) = fst s \<and> fs (snd (qbufs bs s)) = fs (snd s)
    \<and> events (snd (qbufs bs s)) = events (snd s) @ List.map (Qbuf (self (fst s))) bs"
    by (induction bs arbitrary: s) (auto simp: qbufs_def mm_channel_qbuf_def split: prod.split)
  then show "fst (qbufs bs s) = fst s" "fs (snd (qbufs bs s)) = fs (snd s)"
    "events (snd (qbufs bs s)) = events (snd s) @ List.map (Qbuf (self (fst s))) bs"
    by auto
qed

lemma qbuf_simps [simp]:
  "fst (mm_channel_qbuf b s) = fst s"
  "fs (snd (mm_channel_qbuf b s)) = fs (snd s)"
  "events (snd (mm_channel_qbuf b s)) = events (snd s) @ [Qbuf (self (fst s)) b]"
  by (auto simp: mm_channel_qbuf_def split: prod.split)

lemma on_fs_simps [simp]:
  "fst (on_fs f s) = fst s" "events (snd (on_fs f s)) = events (snd s)"
  by (auto simp: on_fs_def split: prod.split)

lemma on_channel_simps [simp]:
  "fst (on_channel f s) = f (fst s)" "snd (on_channel f s) = snd s"
  by (simp_all add: on_channel_def)

lemma on_queue_simps [simp]:
  "queue (on_queue f c) = f (queue c)" "self (on_queue f c) = self c"
  "streams (on_queue f c) = streams c" "diverted_frame_id (on_queue f c) = diverted_frame_id c"
  "isFlashBracketingEnabled (on_queue f c) = isFlashBracketingEnabled c"
  by (simp_all add: on_queue_def)

text \<open>The part of the queue the buffers and the accounting depend on.\<close>

definition shape :: "mm_channel_queue \<Rightarrow>
    mm_channel_queue_node list \<times> uint32 \<times> uint8 \<times> uint32 list \<times> uint32 \<times> uint8 \<times> priority" where
  "shape q = (que q, que_size q, num_streams q, bundled_streams q, match_cnt q,
     max_unmatched_frames (attr q), priority (attr q))"

definition same_shape :: "mm_channel \<Rightarrow> mm_channel \<Rightarrow> bool" where
  "same_shape c d \<longleftrightarrow> shape (queue c) = shape (queue d) \<and> self c = self d"

lemma same_shape_refl [simp]: "same_shape c c"
  by (simp add: same_shape_def)

lemma same_shapeD:
  "same_shape c d \<Longrightarrow> que (queue c) = que (queue d)"
  "same_shape c d \<Longrightarrow> que_size (queue c) = que_size (queue d)"
  "same_shape c d \<Longrightarrow> num_streams (queue c) = num_streams (queue d)"
  "same_shape c d \<Longrightarrow> bundled_streams (queue c) = bundled_streams (queue d)"
  "same_shape c d \<Longrightarrow> match_cnt (queue c) = match_cnt (queue d)"
  "same_shape c d \<Longrightarrow> max_unmatched_frames (attr (queue c)) = max_unmatched_frames (attr (queue d))"
  "same_shape c d \<Longrightarrow> priority (attr (queue c)) = priority (attr (queue d))"
  "same_shape c d \<Longrightarrow> self c = self d"
  by (simp_all add: same_shape_def shape_def)

lemma meta_same_shape:
  "same_shape (set_expected f c) c" "same_shape (expect_future c) c"
  "same_shape (meta_divert md frame c) c" "same_shape (meta_flash_bracketing md c) c"
  "same_shape (meta_led_burst frame c) c" "same_shape (meta_low_light md c) c"
  "same_shape (meta_user_expected md frame c) c" "same_shape (expect_after_match f c) c"
  by (auto simp: same_shape_def shape_def set_expected_def expect_future_def meta_divert_def
      meta_flash_bracketing_def meta_led_burst_def meta_low_light_def meta_user_expected_def
      expect_after_match_def Let_def on_queue_def split: option.splits)

lemma same_shape_trans: "same_shape a b \<Longrightarrow> same_shape b c \<Longrightarrow> same_shape a c"
  by (simp add: same_shape_def)

lemma config_same_shape: "meta_config_capture md c = Inr d \<Longrightarrow> same_shape d c"
  by (auto simp: meta_config_capture_def same_shape_def shape_def Let_def on_queue_def
      split: option.splits if_splits)

section \<open>Well-formed superbufs\<close>

text \<open>
  A superbuf has at least one buffer, and each in the slot of its stream; it is matched when
  all its slots are filled.
\<close>

definition wf_node :: "uint8 \<Rightarrow> uint32 list \<Rightarrow> mm_channel_queue_node \<Rightarrow> bool" where
  "wf_node k hs n \<longleftrightarrow> num_of_bufs n = k \<and> length (super_buf n) = MAX_STREAM_NUM_IN_BUNDLE
     \<and> (matched n \<longleftrightarrow> None \<notin> set (node_slots n)) \<and> node_bufs n \<noteq> []
     \<and> (\<forall>j i. j < MAX_STREAM_NUM_IN_BUNDLE \<longrightarrow> super_buf n ! j = Some i \<longrightarrow> stream_id i = hs ! j)"

definition wf_queue :: "mm_channel_queue \<Rightarrow> bool" where
  "wf_queue q \<longleftrightarrow> 0 < num_streams q \<and> unat (num_streams q) \<le> MAX_STREAM_NUM_IN_BUNDLE
     \<and> (\<forall>n \<in> set (que q). wf_node (num_streams q) (bundled_streams q) n) \<and> que_size q = of_nat (length (que q))"

lemma wf_queue_shape: "same_shape c d \<Longrightarrow> wf_queue (queue c) \<longleftrightarrow> wf_queue (queue d)"
  by (simp add: wf_queue_def same_shapeD)

section \<open>Buffers\<close>

definition queued_bufs :: "mm_channel_queue \<Rightarrow> mm_camera_buf_def multiset" where
  "queued_bufs q = mset (concat (List.map node_bufs (que q)))"

fun event_buf :: "mm_event \<Rightarrow> mm_camera_buf_def" where
  "event_buf (Qbuf c b) = b"

definition returned_bufs :: "mm_world \<Rightarrow> mm_camera_buf_def multiset" where
  "returned_bufs w = mset (List.map event_buf (events w))"

text \<open>The buffers in the queue and those handed back.\<close>

definition held :: "mm_state \<Rightarrow> mm_camera_buf_def multiset" where
  "held s = queued_bufs (queue (fst s)) + returned_bufs (snd s)"

lemma held_qbufs [simp]: "held (qbufs bs s) = held s + mset bs"
  by (simp add: held_def returned_bufs_def comp_def)

lemma held_qbuf [simp]: "held (mm_channel_qbuf b s) = held s + {#b#}"
  by (simp add: held_def returned_bufs_def)

lemma held_on_fs [simp]: "held (on_fs f s) = held s"
  by (simp add: held_def returned_bufs_def)

lemma held_que:
  "held (on_channel f s) + queued_bufs (queue (fst s)) = held s + queued_bufs (queue (f (fst s)))"
  by (simp add: held_def)

lemma held_same_shape: "same_shape (f (fst s)) (fst s) \<Longrightarrow> held (on_channel f s) = held s"
  by (simp add: held_def queued_bufs_def same_shapeD)

text \<open>Filling an empty slot.\<close>

lemma slot_bufs_update:
  "i < length xs \<Longrightarrow> xs ! i = None \<Longrightarrow> mset (slot_bufs (xs[i := Some b])) = add_mset (buf b) (mset (slot_bufs xs))"
proof (induction xs arbitrary: i)
  case (Cons x xs)
  then show ?case
    by (cases i; cases x) auto
qed simp

lemma node_bufs_fill:
  assumes "slot < unat (num_of_bufs n)" and "slot < length (super_buf n)"
    and "super_buf n ! slot = None"
  shows "mset (node_bufs (fill_slot slot b n)) = add_mset (buf b) (mset (node_bufs n))"
proof -
  have "take (unat (num_of_bufs n)) ((super_buf n)[slot := Some b]) =
      (take (unat (num_of_bufs n)) (super_buf n))[slot := Some b]"
    by (simp add: take_update_swap)
  then show ?thesis
    using assms slot_bufs_update [of slot "take (unat (num_of_bufs n)) (super_buf n)" b]
    by (simp add: node_bufs_def node_slots_def fill_slot_def Let_def)
qed

lemma node_bufs_simps [simp]:
  "node_bufs (n\<lparr>expected_frame := e\<rparr>) = node_bufs n"
  "node_bufs (reset_meta_only f n) = node_bufs n"
  by (simp_all add: node_bufs_def node_slots_def reset_meta_only_def)

lemma wf_node_simps [simp]:
  "wf_node k hs (n\<lparr>expected_frame := e\<rparr>) = wf_node k hs n"
  "wf_node k hs (reset_meta_only f n) = wf_node k hs n"
  by (simp_all add: wf_node_def node_slots_def reset_meta_only_def node_bufs_def)

lemma wf_node_fill:
  assumes "wf_node k hs n" and "slot < unat k" and "slot < MAX_STREAM_NUM_IN_BUNDLE"
    and "super_buf n ! slot = None" and "stream_id b = hs ! slot"
  shows "wf_node k hs (fill_slot slot b n)"
proof -
  have "mset (node_bufs (fill_slot slot b n)) = add_mset (buf b) (mset (node_bufs n))"
    using assms by (intro node_bufs_fill) (simp_all add: wf_node_def)
  then have "node_bufs (fill_slot slot b n) \<noteq> []"
    by (metis add_mset_not_empty mset.simps(1))
  then show ?thesis
    using assms(1,3,5)
    by (simp add: wf_node_def) (auto simp: fill_slot_def node_slots_def Let_def nth_list_update)
qed

lemma queued_update:
  assumes "k < length (que q)"
  shows "queued_bufs (q\<lparr>que := (que q)[k := n]\<rparr>) + mset (node_bufs (que q ! k)) =
    queued_bufs q + mset (node_bufs n)"
proof -
  have "mset (concat (List.map node_bufs (xs[k := n]))) + mset (node_bufs (xs ! k)) =
      mset (concat (List.map node_bufs xs)) + mset (node_bufs n)" if "k < length xs" for xs
    using that
  proof (induction xs arbitrary: k)
    case (Cons x xs)
    then show ?case
      by (cases k) (auto simp: union_assoc)
  qed simp
  then show ?thesis
    using assms by (simp add: queued_bufs_def)
qed

section \<open>Taking superbufs out\<close>

text \<open>A dequeue, as a relation between the states.\<close>

lemma dequeue_cases:
  obtains (none) "mm_channel_superbuf_dequeue_internal mo s = (None, s)"
      "que (queue (fst s)) = [] \<or> mo \<and> \<not> matched (hd (que (queue (fst s))))"
  | (some) n ns s' where "mm_channel_superbuf_dequeue_internal mo s = (Some n, s')"
      "que (queue (fst s)) = n # ns" "mo \<longrightarrow> matched n" "events (snd s') = events (snd s)"
      "fst s' = on_queue (\<lambda>q. q\<lparr>que := ns, que_size := que_size q - 1,
         match_cnt := (if matched n then match_cnt q - 1 else match_cnt q)\<rparr>) (fst s)"
proof (cases "que (queue (fst s))")
  case Nil
  then show ?thesis
    using none by (cases s) (simp add: mm_channel_superbuf_dequeue_internal_def)
next
  case (Cons n ns)
  show ?thesis
  proof (cases "mo \<and> \<not> matched n")
    case True
    then show ?thesis
      using none Cons by (cases s) (auto simp: mm_channel_superbuf_dequeue_internal_def)
  next
    case False
    let ?r = "mm_channel_superbuf_dequeue_internal mo s"
    have "?r = (Some n, snd ?r)" "events (snd (snd ?r)) = events (snd s)"
      "fst (snd ?r) = on_queue (\<lambda>q. q\<lparr>que := ns, que_size := que_size q - 1,
         match_cnt := (if matched n then match_cnt q - 1 else match_cnt q)\<rparr>) (fst s)"
      using False Cons
      by (cases s; auto simp: mm_channel_superbuf_dequeue_internal_def Let_def on_queue_def)+
    then show ?thesis
      using some [OF _ Cons] False by blast
  qed
qed

text \<open>
  The order of the queue, kept unless the priority is \<open>LOW\<close>: the matched superbufs, which
  \<open>match_cnt\<close> counts, and then the others by frame; a superbuf holds buffers of its frame.
\<close>

definition in_order :: "mm_channel_queue_node list \<Rightarrow> bool" where
  "in_order = sorted_wrt (\<lambda>x y. frame_idx x < frame_idx y)"

definition one_frame :: "mm_channel_queue_node \<Rightarrow> bool" where
  "one_frame n \<longleftrightarrow> unmatched_meta_idx n = 0
     \<and> (\<forall>i. Some i \<in> set (super_buf n) \<longrightarrow> info_frame_idx i = frame_idx n)"

definition tidy :: "mm_channel_queue \<Rightarrow> bool" where
  "tidy q \<longleftrightarrow> priority (attr q) \<noteq> MM_CAMERA_SUPER_BUF_PRIORITY_LOW
     \<and> (\<forall>n \<in> set (que q). one_frame n)
     \<and> (\<exists>ms us. que q = ms @ us \<and> (\<forall>n \<in> set ms. matched n) \<and> (\<forall>n \<in> set us. \<not> matched n)
          \<and> in_order us \<and> match_cnt q = of_nat (length ms))"

lemma tidyI:
  assumes "priority (attr q) \<noteq> MM_CAMERA_SUPER_BUF_PRIORITY_LOW" and "que q = ms @ us"
    and "\<And>n. n \<in> set ms \<Longrightarrow> matched n \<and> one_frame n"
    and "\<And>n. n \<in> set us \<Longrightarrow> \<not> matched n \<and> one_frame n"
    and "in_order us" and "match_cnt q = of_nat (length ms)"
  shows "tidy q"
  unfolding tidy_def
  by (rule conjI, fact assms(1), rule conjI, (use assms in auto)[1], rule exI [of _ ms],
      rule exI [of _ us]) (use assms in auto)

lemma tidyE:
  assumes "tidy q"
  obtains ms us where "priority (attr q) \<noteq> MM_CAMERA_SUPER_BUF_PRIORITY_LOW"
    and "que q = ms @ us" and "\<And>n. n \<in> set ms \<Longrightarrow> matched n \<and> one_frame n"
    and "\<And>n. n \<in> set us \<Longrightarrow> \<not> matched n \<and> one_frame n"
    and "in_order us" and "match_cnt q = of_nat (length ms)"
  using assms unfolding tidy_def by auto

lemma in_order_simps [simp]:
  "in_order []" "in_order (x # xs) \<longleftrightarrow> (\<forall>y \<in> set xs. frame_idx x < frame_idx y) \<and> in_order xs"
  by (simp_all add: in_order_def)

lemma tidy_shape: "same_shape c d \<Longrightarrow> tidy (queue c) \<longleftrightarrow> tidy (queue d)"
  by (simp add: tidy_def same_shapeD)

text \<open>The queue with fewer superbufs, taken from its front.\<close>

lemma wf_queue_tail:
  assumes "wf_queue q" and "que q = n # ns"
  shows "wf_queue (q\<lparr>que := ns, que_size := que_size q - 1, match_cnt := k\<rparr>)"
  using assms by (simp add: wf_queue_def)

lemma tidy_tail:
  assumes "tidy q" and "que q = n # ns"
  shows "tidy (q\<lparr>que := ns, que_size := z,
    match_cnt := (if matched n then match_cnt q - 1 else match_cnt q)\<rparr>)"
  using assms(1)
proof (rule tidyE)
  fix ms us
  assume q: "priority (attr q) \<noteq> MM_CAMERA_SUPER_BUF_PRIORITY_LOW" "que q = ms @ us"
    "\<And>n. n \<in> set ms \<Longrightarrow> matched n \<and> one_frame n"
    "\<And>n. n \<in> set us \<Longrightarrow> \<not> matched n \<and> one_frame n"
    "in_order us" "match_cnt q = of_nat (length ms)"
  show ?thesis
  proof (cases ms)
    case Nil
    then have "us = n # ns" "\<not> matched n"
      using q assms(2) by auto
    then show ?thesis
      using q Nil by (intro tidyI [of _ "[]" ns]) auto
  next
    case (Cons m ms')
    then have "m = n" "ns = ms' @ us" "matched n"
      using q assms(2) by auto
    then show ?thesis
      using q Cons by (intro tidyI [of _ ms' us]) auto
  qed
qed

lemma queued_Cons: "que q = n # ns \<Longrightarrow> que r = ns \<Longrightarrow>
    queued_bufs q = mset (node_bufs n) + queued_bufs r"
  by (simp add: queued_bufs_def)

text \<open>What every operation that only takes superbufs from the front does.\<close>

definition trims :: "mm_state \<Rightarrow> mm_state \<Rightarrow> bool" where
  "trims s s' \<longleftrightarrow> self (fst s') = self (fst s)
     \<and> num_streams (queue (fst s')) = num_streams (queue (fst s))
     \<and> bundled_streams (queue (fst s')) = bundled_streams (queue (fst s))
     \<and> max_unmatched_frames (attr (queue (fst s'))) = max_unmatched_frames (attr (queue (fst s)))
     \<and> priority (attr (queue (fst s'))) = priority (attr (queue (fst s)))
     \<and> (\<exists>ns. que (queue (fst s)) = ns @ que (queue (fst s')))
     \<and> (wf_queue (queue (fst s)) \<longrightarrow> wf_queue (queue (fst s')))
     \<and> (tidy (queue (fst s)) \<longrightarrow> tidy (queue (fst s')))"

lemma trims_refl [simp]: "trims s s"
  by (simp add: trims_def)

lemma trims_trans: "trims s t \<Longrightarrow> trims t u \<Longrightarrow> trims s u"
  by (fastforce simp: trims_def)

lemma trims_qbufs [simp]: "trims s (qbufs bs t) \<longleftrightarrow> trims s t" "trims (qbufs bs s) t \<longleftrightarrow> trims s t"
  by (simp_all add: trims_def)

lemma trims_same_shape: "same_shape (f (fst s)) (fst s) \<Longrightarrow> trims s (on_channel f s)"
  using wf_queue_shape [of "f (fst s)" "fst s"] tidy_shape [of "f (fst s)" "fst s"]
  by (simp add: trims_def same_shapeD)

lemma dequeue_keeps:
  assumes "mm_channel_superbuf_dequeue_internal mo s = (r, s')"
  shows "trims s s'"
    "held s = held s' + mset (case r of None \<Rightarrow> [] | Some n \<Rightarrow> node_bufs n)"
    "r = None \<Longrightarrow> s' = s"
proof -
  have "trims s s' \<and> held s = held s' + mset (case r of None \<Rightarrow> [] | Some n \<Rightarrow> node_bufs n)
    \<and> (r = None \<longrightarrow> s' = s)"
  proof (rule dequeue_cases [of mo s])
    assume "mm_channel_superbuf_dequeue_internal mo s = (None, s)"
    then show ?thesis
      using assms by simp
  next
    fix n ns s1
    assume run: "mm_channel_superbuf_dequeue_internal mo s = (Some n, s1)"
      and que: "que (queue (fst s)) = n # ns" and ev: "events (snd s1) = events (snd s)"
      and s1: "fst s1 = on_queue (\<lambda>q. q\<lparr>que := ns, que_size := que_size q - 1,
         match_cnt := (if matched n then match_cnt q - 1 else match_cnt q)\<rparr>) (fst s)"
    have "held s = held s1 + mset (node_bufs n)"
      using queued_Cons [OF que, of "queue (fst s1)"] ev s1
      by (simp add: held_def returned_bufs_def)
    moreover have "trims s s1"
      using que s1 wf_queue_tail [OF _ que] tidy_tail [OF _ que] by (auto simp: trims_def)
    ultimately show ?thesis
      using assms run by auto
  qed
  then show "trims s s'" "r = None \<Longrightarrow> s' = s"
    "held s = held s' + mset (case r of None \<Rightarrow> [] | Some n \<Rightarrow> node_bufs n)"
    by blast+
qed

text \<open>Flushing.\<close>

lemma flush_turns_trims: "trims s (flush_turns mo ret k s)"
proof (induction k arbitrary: s)
  case (Suc k)
  obtain r s1 where step: "mm_channel_superbuf_dequeue_internal mo s = (r, s1)"
    by (cases "mm_channel_superbuf_dequeue_internal mo s")
  show ?case
  proof (cases r)
    case None
    then show ?thesis
      using step dequeue_keeps(1) [OF step] by simp
  next
    case (Some n)
    then show ?thesis
      using step trims_trans [OF dequeue_keeps(1) [OF step]]
        Suc [of "qbufs (filter ret (node_bufs n)) s1"] by simp
  qed
qed simp

lemma flush_turns_all:
  "(\<And>b. ret b) \<Longrightarrow> held (flush_turns mo ret k s) = held s"
proof (induction k arbitrary: s)
  case (Suc k)
  obtain r s1 where step: "mm_channel_superbuf_dequeue_internal mo s = (r, s1)"
    by (cases "mm_channel_superbuf_dequeue_internal mo s")
  show ?case
    using step dequeue_keeps(2,3) [OF step] Suc by (cases r) auto
qed simp

lemma flush_turns_some:
  "length (que (queue (fst s))) < k \<Longrightarrow>
    que (queue (fst (flush_turns False ret k s))) = []
    \<and> held s = held (flush_turns False ret k s) + filter_mset (\<lambda>b. \<not> ret b) (queued_bufs (queue (fst s)))"
proof (induction k arbitrary: s)
  case (Suc k)
  show ?case
  proof (rule dequeue_cases [of False s])
    assume "mm_channel_superbuf_dequeue_internal False s = (None, s)"
      "que (queue (fst s)) = [] \<or> False \<and> \<not> matched (hd (que (queue (fst s))))"
    then show ?thesis
      by (simp add: queued_bufs_def)
  next
    fix n ns s1
    assume step: "mm_channel_superbuf_dequeue_internal False s = (Some n, s1)"
      and que: "que (queue (fst s)) = n # ns"
      and s1: "fst s1 = on_queue (\<lambda>q. q\<lparr>que := ns, que_size := que_size q - 1,
         match_cnt := (if matched n then match_cnt q - 1 else match_cnt q)\<rparr>) (fst s)"
    let ?s2 = "qbufs (filter ret (node_bufs n)) s1"
    have IH: "que (queue (fst (flush_turns False ret k ?s2))) = []
      \<and> held ?s2 = held (flush_turns False ret k ?s2)
          + filter_mset (\<lambda>b. \<not> ret b) (queued_bufs (queue (fst ?s2)))"
      using Suc.IH [of ?s2] Suc.prems que s1 by simp
    have queued: "queued_bufs (queue (fst s)) = mset (node_bufs n) + queued_bufs (queue (fst s1))"
      using queued_Cons [OF que] s1 by simp
    have "held s = held s1 + mset (node_bufs n)"
      using dequeue_keeps(2) [OF step] by simp
    also have "\<dots> = held ?s2 + filter_mset (\<lambda>b. \<not> ret b) (mset (node_bufs n))"
      using multiset_partition [of "mset (node_bufs n)" ret] by (simp add: mset_filter)
    also have "held ?s2 = held (flush_turns False ret k ?s2)
        + filter_mset (\<lambda>b. \<not> ret b) (queued_bufs (queue (fst s1)))"
      using IH by simp
    finally show ?thesis
      using IH step queued by (simp add: ac_simps)
  qed
qed simp

text \<open>The loops of overflow and skip end, with at most \<open>limit\<close> matched superbufs left.\<close>

lemma reduce_loop_ends:
  assumes "tidy (queue (fst s))"
  shows "\<exists>s'. reduce_loop limit s = Some s' \<and> trims s s' \<and> held s' = held s
    \<and> match_cnt (queue (fst s')) \<le> ucast limit"
  using assms
proof (induction "length (que (queue (fst s)))" arbitrary: s rule: less_induct)
  case less
  show ?case
  proof (cases "ucast limit < match_cnt (queue (fst s))")
    case False
    then show ?thesis
      by (subst reduce_loop.simps) auto
  next
    case more: True
    have head: "que (queue (fst s)) \<noteq> [] \<and> matched (hd (que (queue (fst s))))"
      using less.prems(1)
    proof (rule tidyE)
      fix ms us
      assume "que (queue (fst s)) = ms @ us" "\<And>n. n \<in> set ms \<Longrightarrow> matched n \<and> one_frame n"
        "match_cnt (queue (fst s)) = of_nat (length ms)"
      then show ?thesis
        using more by (cases ms) auto
    qed
    show ?thesis
    proof (rule dequeue_cases [of True s])
      assume "que (queue (fst s)) = [] \<or> True \<and> \<not> matched (hd (que (queue (fst s))))"
      then show ?thesis
        using head by simp
    next
      fix n ns s1
      assume step: "mm_channel_superbuf_dequeue_internal True s = (Some n, s1)"
        and que: "que (queue (fst s)) = n # ns"
        and s1: "fst s1 = on_queue (\<lambda>q. q\<lparr>que := ns, que_size := que_size q - 1,
           match_cnt := (if matched n then match_cnt q - 1 else match_cnt q)\<rparr>) (fst s)"
      let ?s2 = "qbufs (node_bufs n) s1"
      note keeps = dequeue_keeps [OF step]
      have "length (que (queue (fst ?s2))) < length (que (queue (fst s)))"
        using que s1 by simp
      from less.hyps [OF this] obtain s' where s': "reduce_loop limit ?s2 = Some s'"
        "trims ?s2 s'" "held s' = held ?s2" "match_cnt (queue (fst s')) \<le> ucast limit"
        using keeps(1) less.prems by (auto simp: trims_def)
      moreover have "reduce_loop limit s = reduce_loop limit ?s2"
        using more step by (subst reduce_loop.simps) simp
      moreover have "held s = held s'"
        using s'(3) keeps(2) by simp
      ultimately show ?thesis
        using trims_trans [OF keeps(1), of s'] by auto
    qed
  qed
qed

section \<open>Metadata\<close>

lemma flush_matched_keeps:
  "trims s (mm_channel_superbuf_flush_matched s)"
  "held (mm_channel_superbuf_flush_matched s) = held s"
  by (simp_all add: mm_channel_superbuf_flush_matched_def flush_turns_trims flush_turns_all
      del: flush_turns.simps)

lemma flush_all_keeps:
  "trims s (mm_channel_superbuf_flush CAM_STREAM_TYPE_DEFAULT s)"
  "held (mm_channel_superbuf_flush CAM_STREAM_TYPE_DEFAULT s) = held s"
  by (simp_all add: mm_channel_superbuf_flush_def flush_turns_trims flush_turns_all
      del: flush_turns.simps)

text \<open>A step that keeps all buffers and takes superbufs from the front only.\<close>

definition safe_step :: "mm_state \<Rightarrow> mm_state \<Rightarrow> bool" where
  "safe_step s t \<longleftrightarrow> trims s t \<and> held t = held s"

lemma safe_step_refl [simp]: "safe_step s s"
  by (simp add: safe_step_def)

lemma safe_step_trans [trans]: "safe_step s t \<Longrightarrow> safe_step t u \<Longrightarrow> safe_step s u"
  using trims_trans by (fastforce simp: safe_step_def)

lemma safe_step_same_shape: "same_shape (f (fst s)) (fst s) \<Longrightarrow> safe_step s (on_channel f s)"
  by (simp add: safe_step_def trims_same_shape held_same_shape)

lemma safe_step_flush:
  "safe_step s (mm_channel_superbuf_flush_matched s)"
  "safe_step s (mm_channel_superbuf_flush CAM_STREAM_TYPE_DEFAULT s)"
  by (simp_all add: safe_step_def flush_matched_keeps flush_all_keeps)

lemma same_shape_flags:
  "same_shape (set_expected f (c\<lparr>isZoom1xFrameRequested := z\<rparr>)) c"
  "same_shape (c\<lparr>needLEDFlash := z\<rparr>) c" "same_shape (c\<lparr>bWaitForPrepSnapshotDone := z\<rparr>) c"
  by (simp_all add: same_shape_def shape_def set_expected_def on_queue_def)

lemma safe_zoom: "safe_step s (meta_zoom_1x found frame s)"
  using safe_step_trans [OF safe_step_same_shape safe_step_flush(1), of expect_future s]
  by (simp add: meta_zoom_1x_def safe_step_same_shape same_shape_flags meta_same_shape)

lemma safe_prep: "safe_step s (meta_prep_snapshot md s)"
proof (cases "need_future_frame md")
  case (Some need)
  let ?s1 = "on_channel (\<lambda>c. c\<lparr>bWaitForPrepSnapshotDone := False\<rparr>) s"
  have s1: "safe_step s ?s1"
    by (simp add: safe_step_same_shape same_shape_flags)
  let ?s2 = "mm_channel_superbuf_flush CAM_STREAM_TYPE_DEFAULT (on_channel expect_future ?s1)"
  have "safe_step ?s1 ?s2"
    using safe_step_trans [OF safe_step_same_shape safe_step_flush(2), of expect_future ?s1]
    by (simp add: meta_same_shape)
  moreover have "safe_step t (on_channel (\<lambda>c. c\<lparr>needLEDFlash := z\<rparr>) t)" for t z
    by (simp add: safe_step_same_shape same_shape_flags)
  ultimately show ?thesis
    using Some s1 safe_step_trans by (auto simp: meta_prep_snapshot_def Let_def)
qed (simp add: meta_prep_snapshot_def)

lemma safe_good: "safe_step s (meta_good_frame md s)"
proof (cases "good_frame_idx_range md")
  case None
  then show ?thesis
    using safe_step_trans [OF safe_step_flush(1) safe_step_same_shape, of expect_future]
    by (simp add: meta_good_frame_def meta_same_shape)
next
  case (Some r)
  then show ?thesis
    by (auto simp: meta_good_frame_def intro!: safe_step_same_shape)
      (auto simp: same_shape_def shape_def on_queue_def led_range_def)
qed

lemma safe_metadata:
  assumes "handle_metadata_of md frame s = Inr t"
  shows "safe_step s t"
proof -
  obtain found where found: "crop_1x_found md (fst s) = Inr found"
    using assms by (cases "crop_1x_found md (fst s)") (auto simp: handle_metadata_of_def)
  let ?s1 = "on_channel (meta_divert md frame) s"
  have s1: "safe_step s ?s1"
    by (simp add: safe_step_same_shape meta_same_shape)
  show ?thesis
  proof (cases "isZoom1xFrameRequested (fst ?s1)")
    case True
    then have "t = meta_zoom_1x found frame ?s1"
      using assms found by (simp add: handle_metadata_of_def Let_def)
    then show ?thesis
      using safe_step_trans [OF s1 safe_zoom] by simp
  next
    case False
    define s2 where "s2 = meta_good_frame md (meta_prep_snapshot md ?s1)"
    have s2: "safe_step s s2"
      using safe_step_trans [OF safe_step_trans [OF s1 safe_prep] safe_good] by (simp add: s2_def)
    obtain c where c: "meta_config_capture md (meta_flash_bracketing md (fst s2)) = Inr c"
      and t: "t = (meta_user_expected md frame (meta_low_light md (meta_led_burst frame c)), snd s2)"
      using assms found False
      by (cases "meta_config_capture md (meta_flash_bracketing md (fst s2))")
        (auto simp: handle_metadata_of_def Let_def s2_def)
    have "same_shape c (fst s2)"
      using config_same_shape [OF c] meta_same_shape(4) same_shape_trans by blast
    then have "same_shape (fst t) (fst s2)"
      unfolding t fst_conv by (blast intro: same_shape_trans meta_same_shape)
    then have "safe_step s2 (on_channel (\<lambda>_. fst t) s2)"
      by (simp add: safe_step_same_shape)
    moreover have "on_channel (\<lambda>_. fst t) s2 = t"
      by (simp add: on_channel_def t)
    ultimately show ?thesis
      using safe_step_trans [OF s2] by simp
  qed
qed

lemma safe_handle_metadata:
  "mm_channel_handle_metadata b s = Inr (ok, t) \<Longrightarrow> safe_step s t"
  by (auto simp: mm_channel_handle_metadata_def and_then_def dest: safe_metadata
      split: option.splits if_splits sum.splits)

end
