(* ===== verification/SuperbufEnqueue.thy ===== *)
theory SuperbufEnqueue
  imports SuperbufInvariants
begin

text \<open>
  An enqueue keeps the buffers, for every priority, and the order of the queue, unless the
  priority is \<open>LOW\<close>.
\<close>

section \<open>The scan\<close>

definition scan_in :: "nat \<Rightarrow> nat \<Rightarrow> scan \<Rightarrow> bool" where
  "scan_in i j sc \<longleftrightarrow> (\<forall>l. last_buf sc = Some l \<longrightarrow> i \<le> l \<and> l < j)
     \<and> (\<forall>l. insert_before_buf sc = Some l \<longrightarrow> i \<le> l \<and> l < j)
     \<and> (last_buf sc = None \<or> last_buf sc \<noteq> insert_before_buf sc)"

lemma scan_in_pass: "scan_in i j sc \<Longrightarrow> i \<le> j \<Longrightarrow> scan_in i (Suc j) (pass_over f j n sc)"
  by (cases "last_buf sc"; cases "insert_before_buf sc") (auto simp: scan_in_def pass_over_def)

lemma scan_in_mono: "scan_in i j sc \<Longrightarrow> j \<le> k \<Longrightarrow> scan_in i k sc"
  by (fastforce simp: scan_in_def)

lemma comp_scan_in:
  assumes "comp_scan low slot b j ns sc = (r, sc')" and "scan_in i j sc" and "i \<le> j"
  shows "(\<forall>k. r = Some k \<longrightarrow> j \<le> k \<and> k < j + length ns \<and> \<not> matched (ns ! (k - j))
      \<and> goes_into low slot b (ns ! (k - j)) \<and> scan_in i k sc')
    \<and> (r = None \<longrightarrow> scan_in i (j + length ns) sc')"
  using assms
proof (induction ns arbitrary: j sc)
  case (Cons n ns)
  show ?case
  proof (cases "\<not> matched n \<and> goes_into low slot b n")
    case True
    then show ?thesis
      using Cons.prems by auto
  next
    case False
    then obtain sc1 where run: "comp_scan low slot b (Suc j) ns sc1 = (r, sc')"
      and sc1: "scan_in i (Suc j) sc1"
      using Cons.prems scan_in_pass [of i j sc] scan_in_mono [of i j sc "Suc j"]
      by (auto split: if_splits)
    from Cons.IH [OF run sc1] Cons.prems(3) show ?thesis
      by (auto simp: nth_Cons' Suc_le_eq)
  qed
qed auto

definition scan_start :: scan where
  "scan_start = \<lparr>unmatched_bundles = 0, last_buf = None, insert_before_buf = None\<rparr>"

lemma scan_start_in: "scan_in i i scan_start"
  by (simp add: scan_in_def scan_start_def)

lemma drop_unmatched_in:
  "drop_unmatched intact mx before n i xs = Inr (d, n') \<Longrightarrow>
    (case d of None \<Rightarrow> n' = n | Some k \<Rightarrow> i \<le> k \<and> k < i + length xs \<and> mx < n \<and> \<not> mx < n'
       \<and> Some k \<noteq> before)"
  by (induction xs arbitrary: i) (fastforce split: if_splits option.splits)+

lemma room_in:
  assumes "room_for intact sc q = Inr (Some d)" and "scan_in 0 (length (que q)) sc"
  shows "d < length (que q) \<and> Some d \<noteq> insert_before_buf sc"
proof -
  obtain l where l: "last_buf sc = Some l" "l < length (que q)" "Some l \<noteq> insert_before_buf sc"
    using assms by (cases "last_buf sc") (auto simp: room_for_def scan_in_def)
  show ?thesis
  proof (cases "drop_unmatched intact (max_unmatched_frames (attr q)) (insert_before_buf sc)
      (unmatched_bundles sc) l (drop l (que q))")
    case (Inr r)
    then obtain dropped n where r: "drop_unmatched intact (max_unmatched_frames (attr q))
        (insert_before_buf sc) (unmatched_bundles sc) l (drop l (que q)) = Inr (dropped, n)"
      by (cases r) auto
    show ?thesis
      using drop_unmatched_in [OF r] r assms(1) l
      by (auto simp: room_for_def Let_def split: if_splits option.splits)
  qed (use assms(1) l in \<open>simp add: room_for_def Let_def\<close>)
qed

section \<open>Buffers and well-formedness\<close>

lemma held_replace:
  assumes "k < length (que (queue (fst s)))" and "que (f (queue (fst s))) = (que (queue (fst s)))[k := n]"
  shows "held (on_channel (on_queue f) s) + mset (node_bufs (que (queue (fst s)) ! k)) =
    held s + mset (node_bufs n)"
proof -
  have "queued_bufs (f (queue (fst s))) + mset (node_bufs (que (queue (fst s)) ! k)) =
      queued_bufs (queue (fst s)) + mset (node_bufs n)"
    using queued_update [OF assms(1)] assms(2) by (simp add: queued_bufs_def)
  then show ?thesis
    by (simp add: held_def ac_simps)
qed

lemma wf_queue_replace:
  assumes "wf_queue q" and "wf_node (num_streams q) (bundled_streams q) n" and "k < length (que q)"
    and "que r = (que q)[k := n]" and "que_size r = que_size q" and "num_streams r = num_streams q"
    and "bundled_streams r = bundled_streams q"
  shows "wf_queue r"
  using assms set_update_subset_insert [of "que q" k n] by (auto simp: wf_queue_def)

lemma mset_middle:
  assumes "l \<le> k"
  shows "mset (concat (List.map f xs)) =
    mset (concat (List.map f (take l xs @ drop k xs))) + mset (concat (List.map f (drop l (take k xs))))"
proof -
  have "xs = take l xs @ drop l (take k xs) @ drop k xs"
    using assms by (metis append_assoc append_take_drop_id min.absorb1 take_take)
  then have "mset (concat (List.map f xs)) =
      mset (concat (List.map f (take l xs @ drop l (take k xs) @ drop k xs)))"
    by (rule arg_cong)
  then show ?thesis
    by simp
qed

lemma held_release_older:
  assumes "\<And>l. last_buf sc = Some l \<Longrightarrow> l < k"
  shows "held (release_older (last_buf sc) k s) = held s"
proof (cases "last_buf sc")
  case (Some l)
  then have "l \<le> k"
    using assms by (simp add: less_imp_le)
  from mset_middle [OF this, of node_bufs "que (queue (fst s))"] show ?thesis
    using Some by (simp add: release_older_def Let_def held_def queued_bufs_def returned_bufs_def
        comp_def)
qed (simp add: release_older_def)

lemma wf_release_older:
  assumes "wf_queue (queue (fst s))" and "\<And>l. last_buf sc = Some l \<Longrightarrow> l < k"
    and "k \<le> length (que (queue (fst s)))"
  shows "wf_queue (queue (fst (release_older (last_buf sc) k s)))"
proof (cases "last_buf sc")
  case (Some l)
  then show ?thesis
    using assms(1,3) assms(2) [OF Some]
    by (auto simp: release_older_def Let_def wf_queue_def of_nat_diff dest: in_set_takeD in_set_dropD)
qed (use assms in \<open>simp add: release_older_def\<close>)

lemma drop_node_keeps:
  assumes "d < length (que (queue (fst s)))"
  shows "held (drop_node d s) = held s"
    "wf_queue (queue (fst s)) \<Longrightarrow> wf_queue (queue (fst (drop_node d s)))"
    "que (queue (fst (drop_node d s))) = take d (que (queue (fst s))) @ drop (Suc d) (que (queue (fst s)))"
    "num_streams (queue (fst (drop_node d s))) = num_streams (queue (fst s))"
    "attr (queue (fst (drop_node d s))) = attr (queue (fst s))"
    "match_cnt (queue (fst (drop_node d s))) = match_cnt (queue (fst s))"
proof -
  have "drop d (take (Suc d) (que (queue (fst s)))) = [que (queue (fst s)) ! d]"
    using assms by (simp add: take_Suc_conv_app_nth)
  then show "held (drop_node d s) = held s"
    using mset_middle [of d "Suc d" node_bufs "que (queue (fst s))"]
    by (simp add: drop_node_def held_def queued_bufs_def returned_bufs_def comp_def)
  show "wf_queue (queue (fst s)) \<Longrightarrow> wf_queue (queue (fst (drop_node d s)))"
    using assms by (auto simp: drop_node_def wf_queue_def of_nat_diff
        dest: in_set_takeD in_set_dropD)
qed (simp_all add: drop_node_def)

lemma new_node_bufs:
  assumes "slot < unat (num_streams (queue c))" and "unat (num_streams (queue c)) \<le> MAX_STREAM_NUM_IN_BUNDLE"
    and "stream_id b = bundled_streams (queue c) ! slot"
  shows "node_bufs (new_node slot b c) = [buf b]"
    and "wf_node (num_streams (queue c)) (bundled_streams (queue c)) (new_node slot b c)"
proof -
  let ?k = "unat (num_streams (queue c))"
  have slots: "node_slots (new_node slot b c) = (replicate ?k None)[slot := Some b]"
    using assms(2) by (simp add: node_slots_def new_node_def Let_def take_update_swap)
  have "slot_bufs (replicate k None) = []" for k
    by (induction k) auto
  moreover have "slot_bufs ((replicate k None)[i := Some b]) = [buf b]" if "i < k" for k i
    using that
  proof (induction k arbitrary: i)
    case (Suc k)
    then show ?case
      using calculation by (cases i) auto
  qed simp
  ultimately show "node_bufs (new_node slot b c) = [buf b]"
    using assms(1) slots by (simp add: node_bufs_def)
  have "None \<notin> set ((replicate ?k None)[slot := Some b]) \<longleftrightarrow> ?k = 1"
  proof (cases "?k = 1")
    case True
    then show ?thesis
      using assms(1) by simp
  next
    case False
    then have "(replicate ?k None)[slot := Some b] ! (if slot = 0 then 1 else 0) = None"
      using assms(1) by simp
    moreover have "(if slot = 0 then 1 else 0) < length ((replicate ?k None)[slot := Some b])"
      using False assms(1) by auto
    ultimately show ?thesis
      using False by (metis nth_mem)
  qed
  moreover have streams: "stream_id i = bundled_streams (queue c) ! j"
    if "j < MAX_STREAM_NUM_IN_BUNDLE" "super_buf (new_node slot b c) ! j = Some i" for i j
    using that assms(3)
    by (cases "slot = j") (simp_all add: new_node_def Let_def)
  moreover have "?k = 1 \<longleftrightarrow> num_streams (queue c) = 1"
    using word_unat_eq_iff [of "num_streams (queue c)" 1] by simp
  ultimately show "wf_node (num_streams (queue c)) (bundled_streams (queue c)) (new_node slot b c)"
    using slots streams \<open>node_bufs (new_node slot b c) = [buf b]\<close>
    by (simp add: wf_node_def) (simp add: new_node_def Let_def)
qed

text \<open>The queue is what it was but for its superbufs and their accounting.\<close>

definition same_setup :: "mm_channel_queue \<Rightarrow> mm_channel_queue \<Rightarrow> bool" where
  "same_setup q r \<longleftrightarrow> num_streams r = num_streams q \<and> bundled_streams r = bundled_streams q
     \<and> max_unmatched_frames (attr r) = max_unmatched_frames (attr q) \<and> priority (attr r) = priority (attr q)"

lemma same_setup_refl [simp]: "same_setup q q"
  by (simp add: same_setup_def)

lemma same_setup_shape: "same_shape c d \<Longrightarrow> same_setup (queue d) (queue c)"
  by (simp add: same_setup_def same_shapeD)

text \<open>What an enqueue owes: the buffer is taken, and the queue stays well formed.\<close>

definition takes :: "mm_camera_buf_info \<Rightarrow> mm_state \<Rightarrow> mm_state \<Rightarrow> bool" where
  "takes b s t \<longleftrightarrow> wf_queue (queue (fst t)) \<and> held t = held s + {#buf b#}
     \<and> same_setup (queue (fst s)) (queue (fst t)) \<and> self (fst t) = self (fst s)"

lemma takes_qbuf: "wf_queue (queue (fst s)) \<Longrightarrow> takes b s (mm_channel_qbuf (buf b) s)"
  by (simp add: takes_def)

lemma release_older_same:
  "same_setup (queue (fst s)) (queue (fst (release_older r k s)))"
  "self (fst (release_older r k s)) = self (fst s)"
  "match_cnt (queue (fst (release_older r k s))) = match_cnt (queue (fst s))"
  by (auto simp: release_older_def Let_def same_setup_def split: option.split)

lemma replace_takes:
  assumes wf: "wf_queue (queue (fst s))" and k: "k < length (que (queue (fst s)))"
    and shape: "same_shape (g (fst s)) (fst s)" and n: "wf_node (num_streams (queue (fst s))) (bundled_streams (queue (fst s))) n"
    and bufs: "mset (node_bufs n) = add_mset (buf b) (mset (node_bufs (que (queue (fst s)) ! k)))"
  shows "takes b s (on_channel (\<lambda>c. on_queue (\<lambda>q. node_at k n (q\<lparr>match_cnt := h q\<rparr>)) (g c)) s)"
proof -
  let ?t = "on_channel (\<lambda>c. on_queue (\<lambda>q. node_at k n (q\<lparr>match_cnt := h q\<rparr>)) (g c)) s"
  have que: "que (queue (fst ?t)) = (que (queue (fst s)))[k := n]"
    using shape by (simp add: node_at_def same_shapeD)
  have "queued_bufs (queue (fst ?t)) + mset (node_bufs (que (queue (fst s)) ! k)) =
      queued_bufs (queue (fst s)) + mset (node_bufs n)"
    using queued_update [OF k, of n] que by (simp add: queued_bufs_def)
  then have "queued_bufs (queue (fst ?t)) = queued_bufs (queue (fst s)) + {#buf b#}"
    using bufs by simp
  moreover have "wf_queue (queue (fst ?t))"
    by (rule wf_queue_replace [OF wf n k que])
      (use shape in \<open>simp_all add: node_at_def same_shapeD\<close>)
  moreover have "same_setup (queue (fst s)) (queue (fst ?t))"
    using shape by (simp add: same_setup_def node_at_def same_shapeD)
  ultimately show ?thesis
    using shape by (simp add: takes_def held_def same_shapeD)
qed

lemma node_at_cnt: "node_at k n q = node_at k n (q\<lparr>match_cnt := match_cnt q\<rparr>)"
  by simp

lemma put_into_found_takes:
  assumes wf: "wf_queue (queue (fst s))" and k: "k < length (que (queue (fst s)))"
    and slot: "slot < unat (num_streams (queue (fst s)))"
    and stream: "stream_id b = bundled_streams (queue (fst s)) ! slot"
    and older: "\<And>l. last_buf sc = Some l \<Longrightarrow> l < k"
  shows "takes b s (put_into_found slot b k sc s)"
proof -
  let ?f = "info_frame_idx b" and ?c = "fst s"
  define n where "n = reset_meta_only ?f (que (queue ?c) ! k)"
  have node: "wf_node (num_streams (queue ?c)) (bundled_streams (queue ?c)) n"
    "node_bufs n = node_bufs (que (queue ?c) ! k)"
    using wf k by (auto simp: wf_queue_def n_def)
  have slot8: "slot < MAX_STREAM_NUM_IN_BUNDLE"
    using wf slot by (simp add: wf_queue_def)
  show ?thesis
  proof (cases "super_buf n ! slot = None")
    case False
    let ?t = "on_channel (on_queue (node_at k n)) s"
    have "held ?t = held s"
      using held_replace [OF k, of "node_at k n" n] node(2) by (simp add: node_at_def)
    moreover have "wf_queue (queue (fst ?t))"
      by (rule wf_queue_replace [OF wf node(1) k]) (simp_all add: node_at_def)
    ultimately show ?thesis
      using False by (simp add: put_into_found_def Let_def takes_def same_setup_def flip: n_def)
        (simp add: node_at_def)
  next
    case True
    define n' where "n' = fill_slot slot b n"
    have fill: "wf_node (num_streams (queue ?c)) (bundled_streams (queue ?c)) n'"
      "mset (node_bufs n') = add_mset (buf b) (mset (node_bufs (que (queue ?c) ! k)))"
      using wf_node_fill [OF node(1) slot slot8 True stream] node_bufs_fill [of slot n b] node slot slot8 True
      by (simp_all add: n'_def wf_node_def)
    consider (match) "matched n'" | (diverted) "\<not> matched n'" "ucast (diverted_frame_id ?c) = ?f"
      | (plain) "\<not> matched n'" "ucast (diverted_frame_id ?c) \<noteq> ?f"
      by blast
    then show ?thesis
    proof cases
      case match
      let ?t = "on_channel (\<lambda>c. on_queue (\<lambda>q. node_at k (n'\<lparr>expected_frame := False\<rparr>)
          (q\<lparr>match_cnt := match_cnt q + 1\<rparr>)) (expect_after_match ?f c)) s"
      let ?u = "on_fs (mm_frame_sync_add ?f (self ?c)) ?t"
      have t: "takes b s ?t"
        by (rule replace_takes [OF wf k]) (use fill in \<open>simp_all add: meta_same_shape\<close>)
      then have u: "takes b s ?u"
        by (simp add: takes_def)
      have "length (que (queue (fst ?u))) = length (que (queue ?c))"
        by (simp add: node_at_def same_shapeD [OF meta_same_shape(8)])
      then have "takes b s (release_older (last_buf sc) k ?u)"
        using u older k held_release_older [of sc k ?u] wf_release_older [of ?u sc k]
          release_older_same [where s = ?u]
        by (auto simp: takes_def same_setup_def)
      then show ?thesis
        using match True by (simp add: put_into_found_def Let_def flip: n_def n'_def)
    next
      case diverted
      have "takes b s (on_channel (\<lambda>c. on_queue (\<lambda>q. node_at k (n'\<lparr>expected_frame := True\<rparr>)
          (q\<lparr>match_cnt := match_cnt q\<rparr>)) (c\<lparr>diverted_frame_id := 0\<rparr>)) s)"
        by (rule replace_takes [OF wf k]) (use fill in \<open>simp_all add: same_shape_def shape_def\<close>)
      then show ?thesis
        using diverted True by (simp add: put_into_found_def Let_def flip: n_def n'_def)
    next
      case plain
      have "takes b s (on_channel (\<lambda>c. on_queue (\<lambda>q. node_at k n' (q\<lparr>match_cnt := match_cnt q\<rparr>))
          (id c)) s)"
        by (rule replace_takes [OF wf k]) (use fill in simp_all)
      then show ?thesis
        using plain True by (simp add: put_into_found_def Let_def flip: n_def n'_def)
    qed
  qed
qed

lemma queued_insert:
  "mset (concat (List.map node_bufs (insert_at i n xs))) =
    mset (concat (List.map node_bufs xs)) + mset (node_bufs n)"
proof -
  have "mset (concat (List.map node_bufs (take i xs @ drop i xs))) =
      mset (concat (List.map node_bufs (take i xs))) + mset (concat (List.map node_bufs (drop i xs)))"
    by (simp del: append_take_drop_id)
  then show ?thesis
    by (simp add: insert_at_def)
qed

lemma enqueue_new_takes:
  assumes wf: "wf_queue (queue (fst s))" and slot: "slot < unat (num_streams (queue (fst s)))"
    and stream: "stream_id b = bundled_streams (queue (fst s)) ! slot"
  shows "takes b s (enqueue_new slot b before s)"
proof -
  let ?q = "queue (fst s)" and ?n = "new_node slot b (fst s)" and ?t = "enqueue_new slot b before s"
  let ?que = "case before of None \<Rightarrow> que ?q @ [?n] | Some i \<Rightarrow> insert_at i ?n (que ?q)"
  have n: "node_bufs ?n = [buf b]" "wf_node (num_streams ?q) (bundled_streams ?q) ?n"
    using new_node_bufs slot wf stream by (auto simp: wf_queue_def)
  have t: "que (queue (fst ?t)) = ?que" "que_size (queue (fst ?t)) = que_size ?q + 1"
    "same_setup ?q (queue (fst ?t))" "self (fst ?t) = self (fst s)"
    "events (snd ?t) = events (snd s)"
    by (simp_all add: enqueue_new_def Let_def same_setup_def split: option.split)
  have "mset (concat (List.map node_bufs ?que)) = queued_bufs ?q + {#buf b#}"
    using n(1) queued_insert by (cases before) (simp_all add: queued_bufs_def)
  then have "held ?t = held s + {#buf b#}"
    using t by (simp add: held_def queued_bufs_def returned_bufs_def)
  moreover have "set ?que = insert ?n (set (que ?q))" "length ?que = Suc (length (que ?q))"
    using set_append [of "take i (que ?q)" "drop i (que ?q)" for i]
    by (auto simp: insert_at_def split: option.splits dest: in_set_takeD in_set_dropD)
  then have "wf_queue (queue (fst ?t))"
    using wf t n(2) by (auto simp: wf_queue_def same_setup_def)
  ultimately show ?thesis
    using t by (simp add: takes_def)
qed

lemma put_into_new_takes:
  assumes wf: "wf_queue (queue (fst s))" and slot: "slot < unat (num_streams (queue (fst s)))"
    and stream: "stream_id b = bundled_streams (queue (fst s)) ! slot"
    and sc: "scan_in 0 (length (que (queue (fst s)))) sc"
    and put: "put_into_new intact mem slot b sc s = Inr t"
  shows "takes b s t"
proof (cases "max_unmatched_frames (attr (queue (fst s))) < unmatched_bundles sc \<and> last_buf sc = None")
  case True
  then show ?thesis
    using put takes_qbuf [OF wf] by (auto simp: put_into_new_def Let_def)
next
  case False
  then obtain d where d: "room_for intact sc (queue (fst s)) = Inr d"
    using put by (cases "room_for intact sc (queue (fst s))") (auto simp: put_into_new_def Let_def)
  define s1 where "s1 = (case d of None \<Rightarrow> s | Some d \<Rightarrow> drop_node d s)"
  have s1: "held s1 = held s" "wf_queue (queue (fst s1))" "same_setup (queue (fst s)) (queue (fst s1))"
    "self (fst s1) = self (fst s)"
    using wf room_in [of intact sc "queue (fst s)"] d sc drop_node_keeps [of _ s]
    by (auto simp: s1_def same_setup_def drop_node_def split: option.splits)
  have "takes b s1 t"
    using put False d enqueue_new_takes [OF s1(2)] takes_qbuf [OF s1(2)] slot stream s1(3)
    by (auto simp: put_into_new_def Let_def same_setup_def s1_def split: if_splits)
  then show ?thesis
    using s1 by (simp add: takes_def same_setup_def)
qed

lemma match_and_put_takes:
  assumes "wf_queue (queue (fst s))" and "slot < unat (num_streams (queue (fst s)))"
    and "stream_id b = bundled_streams (queue (fst s)) ! slot"
    and put: "match_and_put intact mem slot b s = Inr t"
  shows "takes b s t"
proof -
  let ?q = "queue (fst s)"
  obtain r sc where scan: "comp_scan (priority (attr ?q) = MM_CAMERA_SUPER_BUF_PRIORITY_LOW) slot b 0
      (que ?q) scan_start = (r, sc)"
    by fastforce
  note facts = comp_scan_in [OF scan scan_start_in]
  show ?thesis
  proof (cases r)
    case None
    then show ?thesis
      using put put_into_new_takes [OF assms(1-3)] facts scan
      by (simp add: match_and_put_def Let_def scan_start_def)
  next
    case (Some k)
    then have "takes b s (put_into_found slot b k sc s)"
      using facts by (intro put_into_found_takes [OF assms(1) _ assms(2,3)]) (auto simp: scan_in_def)
    then show ?thesis
      using Some put scan by (simp add: match_and_put_def Let_def scan_start_def)
  qed
qed

end
