(* ===== verification/SuperbufOrder.thy ===== *)
theory SuperbufOrder
  imports SuperbufEnqueue
begin

text \<open>
  An enqueue keeps the order of the queue, unless the priority is \<open>LOW\<close>, and the bound on
  the superbufs that are not matched.
\<close>

section \<open>The scan of an ordered queue\<close>

lemma scan_matched:
  "\<forall>n \<in> set ms. matched n \<Longrightarrow>
    comp_scan low slot b i (ms @ ns) sc = comp_scan low slot b (i + length ms) ns sc"
  by (induction ms arbitrary: i) auto

definition saw_older :: "nat \<Rightarrow> nat \<Rightarrow> scan \<Rightarrow> scan" where
  "saw_older k i sc = sc\<lparr>unmatched_bundles := unmatched_bundles sc + of_nat k,
     last_buf := (if last_buf sc = None \<and> 0 < k then Some i else last_buf sc)\<rparr>"

definition saw_younger :: "nat \<Rightarrow> nat \<Rightarrow> scan \<Rightarrow> scan" where
  "saw_younger k i sc = sc\<lparr>unmatched_bundles := unmatched_bundles sc + of_nat k,
     insert_before_buf := (if insert_before_buf sc = None \<and> 0 < k then Some i
                           else insert_before_buf sc)\<rparr>"

lemma scan_older:
  "\<forall>n \<in> set as. \<not> matched n \<and> frame_idx n < info_frame_idx b \<Longrightarrow>
    comp_scan False slot b i (as @ ns) sc =
      comp_scan False slot b (i + length as) ns (saw_older (length as) i sc)"
proof (induction as arbitrary: i sc)
  case Nil
  then show ?case
    by (simp add: saw_older_def)
next
  case (Cons a as)
  have "saw_older (length as) (Suc i) (pass_over (info_frame_idx b) i a sc) =
      saw_older (length (a # as)) i sc"
    using Cons.prems by (auto simp: saw_older_def pass_over_def)
  then show ?case
    using Cons by (auto simp: goes_into_def)
qed

lemma scan_younger:
  "\<forall>n \<in> set bs. \<not> matched n \<and> info_frame_idx b < frame_idx n \<Longrightarrow>
    comp_scan False slot b i bs sc = (None, saw_younger (length bs) i sc)"
proof (induction bs arbitrary: i sc)
  case Nil
  then show ?case
    by (simp add: saw_younger_def)
next
  case (Cons a bs)
  have "saw_younger (length bs) (Suc i) (pass_over (info_frame_idx b) i a sc) =
      saw_younger (length (a # bs)) i sc"
    using Cons.prems by (auto simp: saw_younger_def pass_over_def)
  then show ?case
    using Cons by (auto simp: goes_into_def)
qed

lemma in_order_append:
  "in_order (xs @ ys) \<longleftrightarrow> in_order xs \<and> in_order ys
     \<and> (\<forall>x \<in> set xs. \<forall>y \<in> set ys. frame_idx x < frame_idx y)"
  by (simp add: in_order_def sorted_wrt_append)

lemma in_order_split:
  assumes "in_order us"
  obtains (found) as n bs where "us = as @ n # bs" and "frame_idx n = f"
      and "\<forall>a \<in> set as. frame_idx a < f"
  | (absent) as bs where "us = as @ bs" and "\<forall>a \<in> set as. frame_idx a < f"
      and "\<forall>a \<in> set bs. f < frame_idx a"
proof -
  define as where "as = takeWhile (\<lambda>n. frame_idx n < f) us"
  define bs where "bs = dropWhile (\<lambda>n. frame_idx n < f) us"
  have us: "us = as @ bs" "\<forall>a \<in> set as. frame_idx a < f"
    by (auto simp: as_def bs_def dest: set_takeWhileD)
  show ?thesis
  proof (cases bs)
    case Nil
    then show ?thesis
      using absent [of as "[]"] us by auto
  next
    case (Cons n bs')
    have n: "\<not> frame_idx n < f"
      using Cons hd_dropWhile [of "\<lambda>n. frame_idx n < f" us] by (simp add: bs_def)
    have later: "\<forall>y \<in> set bs'. frame_idx n < frame_idx y"
      using assms us(1) Cons by (simp add: in_order_append)
    show ?thesis
    proof (cases "frame_idx n = f")
      case True
      then show ?thesis
        using found us Cons by blast
    next
      case False
      then have "\<forall>a \<in> set bs. f < frame_idx a"
        using n later Cons by (auto intro: order.strict_trans)
      then show ?thesis
        using absent us by blast
    qed
  qed
qed

definition in_front :: "nat \<Rightarrow> nat \<Rightarrow> nat option" where
  "in_front k i = (if k = 0 then None else Some i)"

lemma scan_found:
  assumes "\<forall>n \<in> set ms. matched n" and "\<forall>n \<in> set (as @ n # bs). \<not> matched n"
    and "frame_idx n = info_frame_idx b" and "\<forall>a \<in> set as. frame_idx a < info_frame_idx b"
  shows "comp_scan False slot b 0 (ms @ as @ n # bs) scan_start =
      (Some (length ms + length as), saw_older (length as) (length ms) scan_start)"
proof -
  have "comp_scan False slot b 0 (ms @ as @ n # bs) scan_start =
      comp_scan False slot b (length ms) (as @ n # bs) scan_start"
    using scan_matched [OF assms(1), of False slot b 0] by simp
  also have "\<dots> = comp_scan False slot b (length ms + length as) (n # bs)
      (saw_older (length as) (length ms) scan_start)"
    using assms(2,4) by (intro scan_older) auto
  finally show ?thesis
    using assms(2,3) by (simp add: goes_into_def)
qed

lemma scan_absent:
  assumes "\<forall>n \<in> set ms. matched n" and "\<forall>n \<in> set (as @ bs). \<not> matched n"
    and "\<forall>a \<in> set as. frame_idx a < info_frame_idx b" and "\<forall>a \<in> set bs. info_frame_idx b < frame_idx a"
  shows "comp_scan False slot b 0 (ms @ as @ bs) scan_start =
      (None, \<lparr>unmatched_bundles = of_nat (length as + length bs),
         last_buf = in_front (length as) (length ms),
         insert_before_buf = in_front (length bs) (length ms + length as)\<rparr>)"
proof -
  have "comp_scan False slot b 0 (ms @ as @ bs) scan_start =
      comp_scan False slot b (length ms) (as @ bs) scan_start"
    using scan_matched [OF assms(1), of False slot b 0] by simp
  also have "\<dots> = comp_scan False slot b (length ms + length as) bs
      (saw_older (length as) (length ms) scan_start)"
    using assms(2,3) by (intro scan_older) auto
  also have "\<dots> = (None, saw_younger (length bs) (length ms + length as)
      (saw_older (length as) (length ms) scan_start))"
    using assms(2,4) by (intro scan_younger) auto
  finally show ?thesis
    by (simp add: saw_younger_def saw_older_def scan_start_def in_front_def)
qed

section \<open>A buffer for a known frame\<close>

lemma one_frame_fill:
  assumes "one_frame n" and "info_frame_idx b = frame_idx n"
  shows "one_frame (fill_slot slot b n)"
  using assms set_update_subset_insert [of "super_buf n" slot "Some b"]
  by (auto simp: one_frame_def fill_slot_def Let_def)

lemma fill_simps [simp]:
  "frame_idx (fill_slot slot b n) = frame_idx n"
  "frame_idx (n\<lparr>expected_frame := e\<rparr>) = frame_idx n"
  "one_frame (n\<lparr>expected_frame := e\<rparr>) = one_frame n"
  by (simp_all add: fill_slot_def Let_def one_frame_def)

lemma reset_one_frame [simp]: "one_frame n \<Longrightarrow> reset_meta_only f n = n"
  by (simp add: one_frame_def reset_meta_only_def)

lemma in_order_replace:
  "in_order (as @ n # bs) \<Longrightarrow> frame_idx n' = frame_idx n \<Longrightarrow> in_order (as @ n' # bs)"
  by (simp add: in_order_append)

lemma put_into_found_tidy:
  assumes low: "priority (attr (queue (fst s))) \<noteq> MM_CAMERA_SUPER_BUF_PRIORITY_LOW"
    and que: "que (queue (fst s)) = ms @ as @ n # bs"
    and ms: "\<forall>x \<in> set ms. matched x" and us: "\<forall>x \<in> set (as @ n # bs). \<not> matched x"
    and frames: "\<forall>x \<in> set (que (queue (fst s))). one_frame x" and order: "in_order (as @ n # bs)"
    and cnt: "match_cnt (queue (fst s)) = of_nat (length ms)" and n: "frame_idx n = info_frame_idx b"
  shows "let t = put_into_found slot b (length ms + length as)
          (saw_older (length as) (length ms) scan_start) s
    in tidy (queue (fst t))
      \<and> length (filter (\<lambda>x. \<not> matched x) (que (queue (fst t)))) \<le> length (as @ n # bs)"
proof -
  let ?k = "length ms + length as" and ?sc = "saw_older (length as) (length ms) scan_start"
  have at: "que (queue (fst s)) ! ?k = n" "(que (queue (fst s)))[?k := x] = ms @ as @ x # bs" for x
    using que by (simp_all add: nth_append list_update_append)
  have one: "one_frame n"
    using frames que by simp
  let ?n = "fill_slot slot b n"
  have count: "length (filter (\<lambda>x. \<not> matched x) (ms @ as @ x # bs)) \<le> length (as @ n # bs)" for x
    using ms length_filter_le [of "\<lambda>x. \<not> matched x" "as @ x # bs"] by (simp add: filter_False)
  have kept: "tidy (queue (fst t))" if "que (queue (fst t)) = ms @ as @ x # bs" "\<not> matched x"
    "one_frame x" "frame_idx x = frame_idx n" "same_setup (queue (fst s)) (queue (fst t))"
    "match_cnt (queue (fst t)) = of_nat (length ms)" for t x
    using that ms us frames que low in_order_replace [OF order, of x]
    by (intro tidyI [of _ ms "as @ x # bs"]) (auto simp: same_setup_def)
  show ?thesis
  proof (cases "super_buf n ! slot = None")
    case False
    let ?t = "put_into_found slot b ?k ?sc s"
    have "que (queue (fst ?t)) = ms @ as @ n # bs" "same_setup (queue (fst s)) (queue (fst ?t))"
      "match_cnt (queue (fst ?t)) = of_nat (length ms)"
      using False at one cnt
      by (simp_all add: put_into_found_def Let_def node_at_def same_setup_def)
    then show ?thesis
      using kept [of ?t n] us one count [of n] by (simp add: Let_def)
  next
    case empty: True
    show ?thesis
    proof (cases "matched ?n")
      case False
      let ?t = "put_into_found slot b ?k ?sc s"
      obtain e where "que (queue (fst ?t)) = ms @ as @ (?n\<lparr>expected_frame := e\<rparr>) # bs"
        "same_setup (queue (fst s)) (queue (fst ?t))" "match_cnt (queue (fst ?t)) = of_nat (length ms)"
      proof (cases "ucast (diverted_frame_id (fst s)) = info_frame_idx b")
        case True
        then show ?thesis
          using that [of True] False empty at one cnt
          by (simp add: put_into_found_def Let_def node_at_def same_setup_def)
      next
        case False
        have "?n = ?n\<lparr>expected_frame := expected_frame ?n\<rparr>"
          by simp
        then show ?thesis
          using that [of "expected_frame ?n"] False \<open>\<not> matched ?n\<close> empty at one cnt
          by (simp add: put_into_found_def Let_def node_at_def same_setup_def)
      qed
      then show ?thesis
        using kept [of ?t "?n\<lparr>expected_frame := e\<rparr>"] False one n one_frame_fill [OF one]
          count [of "?n\<lparr>expected_frame := e\<rparr>"]
        by (simp add: Let_def)
    next
      case True
      let ?c = "on_channel (\<lambda>c. on_queue (\<lambda>q. node_at ?k (?n\<lparr>expected_frame := False\<rparr>)
          (q\<lparr>match_cnt := match_cnt q + 1\<rparr>)) (expect_after_match (info_frame_idx b) c)) s"
      let ?u = "on_fs (mm_frame_sync_add (info_frame_idx b) (self (fst s))) ?c"
      let ?t = "release_older (last_buf ?sc) ?k ?u" and ?m = "?n\<lparr>expected_frame := False\<rparr>"
      have t: "put_into_found slot b ?k ?sc s = ?t"
        using True empty at one by (simp add: put_into_found_def Let_def)
      have u: "que (queue (fst ?u)) = ms @ as @ ?m # bs"
        "match_cnt (queue (fst ?u)) = of_nat (Suc (length ms))"
        "priority (attr (queue (fst ?u))) \<noteq> MM_CAMERA_SUPER_BUF_PRIORITY_LOW"
        using at cnt low by (simp_all add: node_at_def same_shapeD [OF meta_same_shape(8)])
      have que': "que (queue (fst ?t)) = (ms @ [?m]) @ bs"
        using u(1) by (cases as) (simp_all add: release_older_def saw_older_def scan_start_def Let_def)
      have "tidy (queue (fst ?t))"
      proof (rule tidyI [OF _ que'])
        show "priority (attr (queue (fst ?t))) \<noteq> MM_CAMERA_SUPER_BUF_PRIORITY_LOW"
          using u(3) release_older_same(1) [of ?u] by (simp add: same_setup_def)
        show "match_cnt (queue (fst ?t)) = of_nat (length (ms @ [?m]))"
          using u(2) by (simp add: release_older_same)
      qed (use True ms us one n one_frame_fill [OF one] frames que order in
          \<open>auto simp: in_order_append\<close>)
      moreover have "length (filter (\<lambda>x. \<not> matched x) (que (queue (fst ?t)))) \<le> length (as @ n # bs)"
        using que' True ms by (simp add: filter_False le_SucI trans_le_add2)
      ultimately show ?thesis
        by (simp add: Let_def t)
    qed
  qed
qed

section \<open>A buffer for a new frame\<close>

lemma new_node_fields [simp]:
  "frame_idx (new_node slot b c) = info_frame_idx b"
  "matched (new_node slot b c) \<longleftrightarrow> num_streams (queue c) = 1"
  by (simp_all add: new_node_def Let_def)

lemma new_node_one_frame:
  assumes "priority (attr (queue c)) \<noteq> MM_CAMERA_SUPER_BUF_PRIORITY_LOW"
  shows "one_frame (new_node slot b c)"
  using assms set_update_subset_insert [of "replicate MAX_STREAM_NUM_IN_BUNDLE None" slot "Some b"]
  by (auto simp: one_frame_def new_node_def Let_def split: if_splits)

text \<open>With one stream every superbuf is matched.\<close>

lemma single_matched:
  assumes "wf_node 1 hs n"
  shows "matched n"
proof -
  have "length (node_slots n) = 1" "node_bufs n \<noteq> []" "matched n \<longleftrightarrow> None \<notin> set (node_slots n)"
    using assms by (auto simp: wf_node_def node_slots_def MAX_STREAM_NUM_IN_BUNDLE_def)
  moreover from this obtain x where "node_slots n = [x]"
    by (auto simp: length_Suc_conv)
  ultimately show ?thesis
    by (cases x) (auto simp: node_bufs_def)
qed

lemma enqueue_new_attr [simp]:
  "attr (queue (fst (enqueue_new slot b before s))) = attr (queue (fst s))"
  by (simp add: enqueue_new_def Let_def)

lemma enqueue_new_tidy:
  assumes wf: "wf_queue (queue (fst s))"
    and low: "priority (attr (queue (fst s))) \<noteq> MM_CAMERA_SUPER_BUF_PRIORITY_LOW"
    and que: "que (queue (fst s)) = ms @ as @ bs" and ms: "\<forall>x \<in> set ms. matched x"
    and us: "\<forall>x \<in> set (as @ bs). \<not> matched x" and frames: "\<forall>x \<in> set (que (queue (fst s))). one_frame x"
    and order: "in_order (as @ bs)" and cnt: "match_cnt (queue (fst s)) = of_nat (length ms)"
    and between: "\<forall>a \<in> set as. frame_idx a < info_frame_idx b"
      "\<forall>a \<in> set bs. info_frame_idx b < frame_idx a"
    and before: "before = in_front (length bs) (length ms + length as)"
  shows "tidy (queue (fst (enqueue_new slot b before s)))
    \<and> length (filter (\<lambda>x. \<not> matched x) (que (queue (fst (enqueue_new slot b before s)))))
        \<le> Suc (length (as @ bs))"
proof -
  let ?t = "enqueue_new slot b before s" and ?n = "new_node slot b (fst s)"
  have t: "que (queue (fst ?t)) =
      (case before of None \<Rightarrow> que (queue (fst s)) @ [?n] | Some i \<Rightarrow> insert_at i ?n (que (queue (fst s))))"
    "same_setup (queue (fst s)) (queue (fst ?t))"
    "match_cnt (queue (fst ?t)) = (if num_streams (queue (fst s)) = 1 then match_cnt (queue (fst s)) + 1
       else match_cnt (queue (fst s)))"
    by (simp_all add: enqueue_new_def Let_def same_setup_def split: option.split)
  have que': "que (queue (fst ?t)) = ms @ as @ ?n # bs"
    using t(1) que before by (cases bs) (simp_all add: in_front_def insert_at_def)
  have one: "one_frame ?n"
    by (rule new_node_one_frame [OF low])
  show ?thesis
  proof (cases "num_streams (queue (fst s)) = 1")
    case True
    have "matched x" if "x \<in> set (as @ bs)" for x
      using single_matched wf True que that by (auto simp: wf_queue_def)
    then have "as = []" "bs = []"
      using us by (cases as; cases bs; auto)+
    then have "que (queue (fst ?t)) = (ms @ [?n]) @ []"
      using que' by simp
    then have "tidy (queue (fst ?t))"
      using True t(2,3) low ms frames que one cnt
      by (intro tidyI [of _ "ms @ [?n]" "[]"]) (auto simp: same_setup_def)
    then show ?thesis
      using que' True ms \<open>as = []\<close> \<open>bs = []\<close> by (simp add: filter_False)
  next
    case False
    have "tidy (queue (fst ?t))"
      using que' False t(2,3) low ms us frames que one cnt order between
      by (intro tidyI [of _ ms "as @ ?n # bs"]) (auto simp: same_setup_def in_order_append)
    then show ?thesis
      using que' False ms us by (simp add: filter_False)
  qed
qed

lemma in_order_removed:
  assumes "in_order xs"
  shows "in_order (take i xs @ drop (Suc i) xs)"
proof (cases "i < length xs")
  case True
  then have "in_order (take i xs @ xs ! i # drop (Suc i) xs)"
    using assms by (simp flip: id_take_nth_drop)
  then show ?thesis
    by (simp add: in_order_append)
qed (use assms in simp)

text \<open>The superbuf that makes room is one of the unmatched ones.\<close>

lemma room_tidy:
  assumes room: "room_for intact sc q = Inr dropped"
    and sc: "sc = \<lparr>unmatched_bundles = of_nat (length as + length bs),
      last_buf = in_front (length as) (length ms),
      insert_before_buf = in_front (length bs) (length ms + length as)\<rparr>"
    and que: "que q = ms @ as @ bs"
    and go: "\<not> (max_unmatched_frames (attr q) < unmatched_bundles sc \<and> last_buf sc = None)"
  shows "(dropped = None \<and> \<not> max_unmatched_frames (attr q) < unmatched_bundles sc)
    \<or> (\<exists>as' bs'. (\<exists>d. dropped = Some d \<and> d < length (que q)
        \<and> take d (que q) @ drop (Suc d) (que q) = ms @ as' @ bs'
        \<and> map_option (\<lambda>i. if d < i then i - 1 else i) (insert_before_buf sc) =
            in_front (length bs') (length ms + length as'))
      \<and> (set as' \<subseteq> set as \<and> set bs' \<subseteq> set bs \<and> (in_order (as @ bs) \<longrightarrow> in_order (as' @ bs')))
      \<and> Suc (length (as' @ bs')) = length (as @ bs))"
proof (cases dropped)
  case None
  show ?thesis
  proof (cases "last_buf sc")
    case None
    then show ?thesis
      using room go by (simp add: room_for_def Let_def)
  next
    case (Some l)
    then obtain d n where d: "drop_unmatched intact (max_unmatched_frames (attr q))
        (insert_before_buf sc) (unmatched_bundles sc) l (drop l (que q)) = Inr (d, n)"
      using room by (cases "drop_unmatched intact (max_unmatched_frames (attr q))
        (insert_before_buf sc) (unmatched_bundles sc) l (drop l (que q))") (auto simp: room_for_def Let_def)
    then show ?thesis
      using room Some None drop_unmatched_in [OF d]
      by (auto simp: room_for_def Let_def split: if_splits option.splits)
  qed
next
  case (Some d)
  have l: "last_buf sc = Some (length ms)" "as \<noteq> []"
    using room Some sc by (auto simp: room_for_def in_front_def split: if_splits)
  have range: "length ms \<le> d" "d < length (que q)" "Some d \<noteq> insert_before_buf sc"
  proof -
    obtain r n where r: "drop_unmatched intact (max_unmatched_frames (attr q))
        (insert_before_buf sc) (unmatched_bundles sc) (length ms) (drop (length ms) (que q)) = Inr (r, n)"
      using room l(1) by (cases "drop_unmatched intact (max_unmatched_frames (attr q))
        (insert_before_buf sc) (unmatched_bundles sc) (length ms) (drop (length ms) (que q))")
        (auto simp: room_for_def Let_def)
    show "length ms \<le> d" "d < length (que q)" "Some d \<noteq> insert_before_buf sc"
      using room Some l r drop_unmatched_in [OF r] que sc
      by (auto simp: room_for_def Let_def in_front_def split: if_splits option.splits)
  qed
  define j where "j = d - length ms"
  show ?thesis
  proof (cases "j < length as")
    case True
    let ?as = "take j as @ drop (Suc j) as"
    have "take d (que q) @ drop (Suc d) (que q) = ms @ ?as @ bs"
      using True range(1) que by (simp add: j_def Suc_diff_le)
    moreover have "map_option (\<lambda>i. if d < i then i - 1 else i) (insert_before_buf sc) =
        in_front (length bs) (length ms + length ?as)"
      using True range(1) sc by (auto simp: in_front_def j_def)
    moreover have "in_order (?as @ bs)" if "in_order (as @ bs)"
      using in_order_removed [OF that, of j] True by simp
    ultimately show ?thesis
      using Some range(2) True
      by (intro disjI2 exI [of _ ?as] exI [of _ bs]) (auto dest: in_set_takeD in_set_dropD)
  next
    case False
    define i where "i = j - length as"
    have i: "0 < i" "i < length bs"
      using False range sc que by (auto simp: i_def j_def in_front_def split: if_splits)
    let ?bs = "take i bs @ drop (Suc i) bs"
    have "take d (que q) @ drop (Suc d) (que q) = ms @ as @ ?bs"
      using False range(1) que by (simp add: i_def j_def Suc_diff_le)
    moreover have "map_option (\<lambda>i. if d < i then i - 1 else i) (insert_before_buf sc) =
        in_front (length ?bs) (length ms + length as)"
      using i False range(1) sc by (auto simp: in_front_def i_def j_def)
    moreover have "in_order (as @ ?bs)" if "in_order (as @ bs)"
      using in_order_removed [OF that, of "length as + i"] by simp
    ultimately show ?thesis
      using Some range(2) i
      by (intro disjI2 exI [of _ as] exI [of _ ?bs]) (auto dest: in_set_takeD in_set_dropD)
  qed
qed

text \<open>The superbufs that wait for buffers, at most one more than the channel allows.\<close>

definition unmatched_count :: "mm_channel_queue \<Rightarrow> nat" where
  "unmatched_count q = length (filter (\<lambda>n. \<not> matched n) (que q))"

definition bounded :: "mm_channel_queue \<Rightarrow> bool" where
  "bounded q \<longleftrightarrow> max_unmatched_frames (attr q) < 255
     \<and> unmatched_count q \<le> Suc (unat (max_unmatched_frames (attr q)))"

lemma tidy_cases:
  assumes "tidy q"
  obtains ms us where "que q = ms @ us" and "\<forall>n \<in> set ms. matched n" and "\<forall>n \<in> set us. \<not> matched n"
    and "in_order us" and "match_cnt q = of_nat (length ms)" and "\<forall>n \<in> set (que q). one_frame n"
    and "priority (attr q) \<noteq> MM_CAMERA_SUPER_BUF_PRIORITY_LOW" and "unmatched_count q = length us"
  using assms
proof (rule tidyE)
  fix ms us
  assume q: "priority (attr q) \<noteq> MM_CAMERA_SUPER_BUF_PRIORITY_LOW" "que q = ms @ us"
    "\<And>n. n \<in> set ms \<Longrightarrow> matched n \<and> one_frame n"
    "\<And>n. n \<in> set us \<Longrightarrow> \<not> matched n \<and> one_frame n" "in_order us"
    "match_cnt q = of_nat (length ms)"
  then have "unmatched_count q = length us"
    by (simp add: unmatched_count_def filter_False)
  then show thesis
    using that [of ms us] q by auto
qed

lemma of_nat_count:
  assumes "bounded q" and "k \<le> unmatched_count q"
  shows "unat (of_nat k :: uint8) = k"
proof -
  have "unat (max_unmatched_frames (attr q)) < 255"
    using assms(1) by (simp add: bounded_def word_less_nat_alt)
  then have "k < 256"
    using assms by (simp add: bounded_def)
  then show ?thesis
    by (simp add: unat_of_nat)
qed

lemma put_into_new_tidy:
  assumes wf: "wf_queue (queue (fst s))" and tidy: "tidy (queue (fst s))"
    and bounded: "bounded (queue (fst s))" and que: "que (queue (fst s)) = ms @ as @ bs"
    and ms: "\<forall>x \<in> set ms. matched x" and us: "\<forall>x \<in> set (as @ bs). \<not> matched x"
    and order: "in_order (as @ bs)" and cnt: "match_cnt (queue (fst s)) = of_nat (length ms)"
    and between: "\<forall>a \<in> set as. frame_idx a < info_frame_idx b"
      "\<forall>a \<in> set bs. info_frame_idx b < frame_idx a"
    and sc: "sc = \<lparr>unmatched_bundles = of_nat (length as + length bs),
      last_buf = in_front (length as) (length ms),
      insert_before_buf = in_front (length bs) (length ms + length as)\<rparr>"
    and put: "put_into_new intact mem slot b sc s = Inr t"
  shows "tidy (queue (fst t)) \<and> bounded (queue (fst t))"
proof (cases "max_unmatched_frames (attr (queue (fst s))) < unmatched_bundles sc \<and> last_buf sc = None")
  case True
  then have "t = mm_channel_qbuf (buf b) s"
    using put by (simp add: put_into_new_def Let_def)
  then show ?thesis
    using tidy bounded by simp
next
  case go: False
  let ?q = "queue (fst s)" and ?mx = "max_unmatched_frames (attr (queue (fst s)))"
  have low: "priority (attr ?q) \<noteq> MM_CAMERA_SUPER_BUF_PRIORITY_LOW"
    and frames: "\<forall>x \<in> set (que ?q). one_frame x"
    using tidy by (auto simp: tidy_def)
  have count: "unmatched_count ?q = length (as @ bs)"
    using que ms us by (simp add: unmatched_count_def filter_False)
  obtain d where room: "room_for intact sc ?q = Inr d"
    using put go by (cases "room_for intact sc ?q") (auto simp: put_into_new_def Let_def)
  show ?thesis
  proof (cases d)
    case None
    then have "\<not> ?mx < of_nat (length as + length bs)"
      using room_tidy [OF room sc que go] sc by simp
    then have small: "length (as @ bs) \<le> unat ?mx"
      using of_nat_count [OF bounded, of "length (as @ bs)"] count by (simp add: word_less_nat_alt)
    have t: "t = (if mem then enqueue_new slot b (insert_before_buf sc) s else mm_channel_qbuf (buf b) s)"
      using put go room None by (auto simp: put_into_new_def Let_def option.map_ident)
    show ?thesis
    proof (cases mem)
      case True
      then show ?thesis
        using enqueue_new_tidy [OF wf low que ms us frames order cnt between, of _ slot] sc t small
          bounded
        by (simp add: bounded_def unmatched_count_def)
    qed (use t tidy bounded in simp)
  next
    case (Some d')
    obtain as' bs' where room': "d' < length (que ?q)"
        "take d' (que ?q) @ drop (Suc d') (que ?q) = ms @ as' @ bs'"
        "map_option (\<lambda>i. if d' < i then i - 1 else i) (insert_before_buf sc) =
          in_front (length bs') (length ms + length as')"
        "set as' \<subseteq> set as" "set bs' \<subseteq> set bs" "in_order (as' @ bs')"
        "Suc (length (as' @ bs')) = length (as @ bs)"
      using room_tidy [OF room sc que go] Some order by auto
    let ?s1 = "drop_node d' s"
    have wf1: "wf_queue (queue (fst ?s1))" and que1: "que (queue (fst ?s1)) = ms @ as' @ bs'"
      and attr1: "attr (queue (fst ?s1)) = attr ?q" and cnt1: "match_cnt (queue (fst ?s1)) = of_nat (length ms)"
      using drop_node_keeps [OF room'(1)] wf room'(2) cnt by simp_all
    have sets: "\<forall>x \<in> set (as' @ bs'). \<not> matched x" "\<forall>x \<in> set (que (queue (fst ?s1))). one_frame x"
      using room'(4,5) us frames que que1 by auto
    have t: "t = (if mem then enqueue_new slot b (in_front (length bs') (length ms + length as')) ?s1
        else mm_channel_qbuf (buf b) ?s1)"
      using put go room Some room'(3) by (auto simp: put_into_new_def Let_def)
    have small: "Suc (length (as' @ bs')) \<le> Suc (unat ?mx)"
      using bounded count room'(7) by (simp add: bounded_def)
    show ?thesis
    proof (cases mem)
      case True
      then show ?thesis
        using enqueue_new_tidy [OF wf1 _ que1 ms sets(1) sets(2) room'(6) cnt1, of b _ slot] low attr1
          between room'(4,5) t small bounded
        by (simp add: bounded_def unmatched_count_def subset_iff)
    next
      case False
      have "tidy (queue (fst ?s1))"
        using que1 ms sets room'(6) cnt1 low attr1
        by (intro tidyI [of _ ms "as' @ bs'"]) auto
      moreover have "unmatched_count (queue (fst ?s1)) = length (as' @ bs')"
        using que1 ms sets(1) by (simp add: unmatched_count_def filter_False)
      ultimately show ?thesis
        using False t small bounded attr1 by (simp add: bounded_def)
    qed
  qed
qed

lemma match_and_put_tidy:
  assumes wf: "wf_queue (queue (fst s))" and slot: "slot < unat (num_streams (queue (fst s)))"
    and stream: "stream_id b = bundled_streams (queue (fst s)) ! slot" and tidy: "tidy (queue (fst s))"
    and bounded: "bounded (queue (fst s))" and put: "match_and_put intact mem slot b s = Inr t"
  shows "tidy (queue (fst t)) \<and> bounded (queue (fst t))"
proof -
  let ?q = "queue (fst s)"
  obtain ms us where q: "que ?q = ms @ us" "\<forall>n \<in> set ms. matched n" "\<forall>n \<in> set us. \<not> matched n"
    "in_order us" "match_cnt ?q = of_nat (length ms)" "\<forall>n \<in> set (que ?q). one_frame n"
    "priority (attr ?q) \<noteq> MM_CAMERA_SUPER_BUF_PRIORITY_LOW" "unmatched_count ?q = length us"
    by (rule tidy_cases [OF tidy])
  show ?thesis
  proof (rule in_order_split [OF q(4), of "info_frame_idx b"])
    fix as n bs
    assume us: "us = as @ n # bs" and n: "frame_idx n = info_frame_idx b"
      and as: "\<forall>a \<in> set as. frame_idx a < info_frame_idx b"
    let ?t = "put_into_found slot b (length ms + length as) (saw_older (length as) (length ms) scan_start) s"
    have t: "t = ?t"
      using put scan_found [OF q(2) _ n as, of bs slot] q(1,3,7) us
      by (simp add: match_and_put_def Let_def scan_start_def)
    have "tidy (queue (fst ?t))
      \<and> length (filter (\<lambda>x. \<not> matched x) (que (queue (fst ?t)))) \<le> length (as @ n # bs)"
      using put_into_found_tidy [OF q(7), of ms as n bs b slot] q us n by (simp add: Let_def)
    moreover have "same_setup ?q (queue (fst ?t))"
      using match_and_put_takes [OF wf slot stream put] t by (simp add: takes_def)
    ultimately show ?thesis
      using bounded q(8) us t by (simp add: bounded_def unmatched_count_def same_setup_def)
  next
    fix as bs
    assume us: "us = as @ bs" and as: "\<forall>a \<in> set as. frame_idx a < info_frame_idx b"
      and bs: "\<forall>a \<in> set bs. info_frame_idx b < frame_idx a"
    have "put_into_new intact mem slot b \<lparr>unmatched_bundles = of_nat (length as + length bs),
        last_buf = in_front (length as) (length ms),
        insert_before_buf = in_front (length bs) (length ms + length as)\<rparr> s = Inr t"
      using put scan_absent [OF q(2) _ as bs, of slot] q(1,3,7) us
      by (simp add: match_and_put_def Let_def scan_start_def)
    from put_into_new_tidy [OF wf tidy bounded _ q(2) _ _ q(5) as bs refl this] show ?thesis
      using q us by simp
  qed
qed

end
