(* ===== verification/SuperbufProperties.thy ===== *)
theory SuperbufProperties
  imports SuperbufOrder
begin

text \<open>
  The properties of the superbuf queue: what holds after every sequence of operations on a
  channel that was just started, and what goes wrong.
\<close>

section \<open>Sequences of operations\<close>

datatype sb_op =
    Enqueue bool mm_camera_buf_info
  | Dequeue
  | Overflow
  | Skip
  | Flush cam_stream_type
  | FlushMatched

type_synonym sb_result = "(mm_error + (mm_camera_buf_def list \<times> mm_state)) option"

text \<open>
  One operation, with the buffers it delivers; \<open>None\<close> when it does not return. The first
  argument of \<open>Enqueue\<close> says whether its allocations succeed.
\<close>

fun sb_step :: "bool \<Rightarrow> sb_op \<Rightarrow> mm_state \<Rightarrow> sb_result" where
  "sb_step intact (Enqueue mem b) s =
    Some (and_then (mm_channel_superbuf_comp_and_enqueue intact mem b s) (\<lambda>(rc, t). Inr ([], t)))"
| "sb_step intact Dequeue s =
    (case mm_channel_superbuf_dequeue s of
       (r, t) \<Rightarrow> Some (Inr (case r of None \<Rightarrow> [] | Some n \<Rightarrow> node_bufs n, t)))"
| "sb_step intact Overflow s =
    map_option (\<lambda>t. Inr ([], t)) (mm_channel_superbuf_bufdone_overflow s)"
| "sb_step intact Skip s = map_option (\<lambda>t. Inr ([], t)) (mm_channel_superbuf_skip s)"
| "sb_step intact (Flush ty) s = Some (Inr ([], mm_channel_superbuf_flush ty s))"
| "sb_step intact FlushMatched s = Some (Inr ([], mm_channel_superbuf_flush_matched s))"

fun sb_run :: "bool \<Rightarrow> sb_op list \<Rightarrow> mm_state \<Rightarrow> sb_result" where
  "sb_run intact [] s = Some (Inr ([], s))"
| "sb_run intact (op # ops) s =
    (case sb_step intact op s of
       None \<Rightarrow> None
     | Some (Inl e) \<Rightarrow> Some (Inl e)
     | Some (Inr (ds, t)) \<Rightarrow>
         map_option (\<lambda>r. and_then r (\<lambda>(es, u). Inr (ds @ es, u))) (sb_run intact ops t))"

text \<open>What \<open>mm_channel_start\<close> makes of the queue.\<close>

definition just_started :: "mm_channel_queue \<Rightarrow> bool" where
  "just_started q \<longleftrightarrow> que q = [] \<and> que_size q = 0 \<and> match_cnt q = 0 \<and> 0 < num_streams q
     \<and> unat (num_streams q) \<le> MAX_STREAM_NUM_IN_BUNDLE \<and> max_unmatched_frames (attr q) < 255"

definition keeps_order :: "mm_channel_queue \<Rightarrow> bool" where
  "keeps_order q \<longleftrightarrow> priority (attr q) \<noteq> MM_CAMERA_SUPER_BUF_PRIORITY_LOW"

section \<open>One operation\<close>

lemma first_index_Some:
  "first_index P xs = Some i \<Longrightarrow> i < length xs \<and> P (xs ! i)"
  by (induction xs arbitrary: i) (auto split: if_splits)

lemma first_index_None: "first_index P xs = None \<longleftrightarrow> (\<forall>x \<in> set xs. \<not> P x)"
  by (induction xs) auto

definition is_bundled :: "uint32 \<Rightarrow> mm_channel_queue \<Rightarrow> bool" where
  "is_bundled h q \<longleftrightarrow> h \<in> set (take (unat (num_streams q)) (bundled_streams q))"

lemma trims_bounded: "trims s t \<Longrightarrow> bounded (queue (fst s)) \<Longrightarrow> bounded (queue (fst t))"
  by (auto simp: trims_def bounded_def unmatched_count_def)

lemma trims_setup: "trims s t \<Longrightarrow> same_setup (queue (fst s)) (queue (fst t))"
  by (simp add: trims_def same_setup_def)

text \<open>The cases of an enqueue: the buffer is of no bundled stream, handed back, or matched.\<close>

lemma enqueue_cases:
  assumes "mm_channel_superbuf_comp_and_enqueue intact mem b s = r"
  obtains (unknown) "\<not> is_bundled (stream_id b) (queue (fst s))" "r = Inr (-1, s)"
  | (returned) t rc where "is_bundled (stream_id b) (queue (fst s))" "safe_step s t"
      "r = Inr (rc, mm_channel_qbuf (buf b) t)"
  | (metadata) e where "is_bundled (stream_id b) (queue (fst s))"
      "mm_channel_handle_metadata b s = Inl e" "r = Inl e"
  | (matching) t slot where "is_bundled (stream_id b) (queue (fst s))" "safe_step s t"
      "slot < unat (num_streams (queue (fst t)))" "stream_id b = bundled_streams (queue (fst t)) ! slot"
      "r = and_then (match_and_put intact mem slot b t) (\<lambda>t. Inr (0, t))"
proof -
  let ?q = "queue (fst s)"
  let ?hs = "take (unat (num_streams ?q)) (bundled_streams ?q)"
  show ?thesis
  proof (cases "first_index (\<lambda>h. stream_id b = h) ?hs")
    case None
    then show ?thesis
      using unknown assms first_index_None [of "\<lambda>h. stream_id b = h" ?hs]
      by (auto simp: mm_channel_superbuf_comp_and_enqueue_def is_bundled_def Let_def)
  next
    case (Some slot)
    then have slot: "slot < unat (num_streams ?q)" "stream_id b = bundled_streams ?q ! slot"
      and bundled: "is_bundled (stream_id b) ?q"
      using first_index_Some [OF Some] by (auto simp: is_bundled_def in_set_conv_nth)
    show ?thesis
    proof (cases "info_frame_idx b = 0")
      case True
      then show ?thesis
        using returned [OF bundled safe_step_refl] assms Some
        by (auto simp: mm_channel_superbuf_comp_and_enqueue_def)
    next
      case False
      show ?thesis
      proof (cases "mm_channel_handle_metadata b s")
        case (Inl e)
        then show ?thesis
          using metadata [OF bundled] assms Some False
          by (simp add: mm_channel_superbuf_comp_and_enqueue_def)
      next
        case (Inr p)
        obtain ok t where meta: "mm_channel_handle_metadata b s = Inr (ok, t)"
          using Inr by (cases p) auto
        have t: "safe_step s t"
          using safe_handle_metadata [OF meta] .
        then have "slot < unat (num_streams (queue (fst t)))"
          "stream_id b = bundled_streams (queue (fst t)) ! slot"
          using slot by (simp_all add: safe_step_def trims_def)
        then show ?thesis
          using returned [OF bundled t] matching [OF bundled t, of slot] assms Some False meta
          by (auto simp: mm_channel_superbuf_comp_and_enqueue_def split: if_splits)
      qed
    qed
  qed
qed

lemma enqueue_keeps:
  assumes "mm_channel_superbuf_comp_and_enqueue intact mem b s = Inr (rc, t)"
    and wf: "wf_queue (queue (fst s))"
  shows "wf_queue (queue (fst t)) \<and> same_setup (queue (fst s)) (queue (fst t))
    \<and> held t = held s + (if is_bundled (stream_id b) (queue (fst s)) then {#buf b#} else {#})
    \<and> (tidy (queue (fst s)) \<longrightarrow> bounded (queue (fst s)) \<longrightarrow>
         tidy (queue (fst t)) \<and> bounded (queue (fst t)))"
proof (rule enqueue_cases [OF assms(1)])
  assume "\<not> is_bundled (stream_id b) (queue (fst s))" "Inr (rc, t) = Inr (-1, s)"
  then show ?thesis
    using wf by simp
next
  fix u rc'
  assume "is_bundled (stream_id b) (queue (fst s))" and u: "safe_step s u"
    and "Inr (rc, t) = Inr (rc', mm_channel_qbuf (buf b) u)"
  then show ?thesis
    using wf trims_setup [of s u] trims_bounded [of s u] by (auto simp: safe_step_def trims_def)
next
  fix u slot
  assume bundled: "is_bundled (stream_id b) (queue (fst s))" and u: "safe_step s u"
    and slot: "slot < unat (num_streams (queue (fst u)))" "stream_id b = bundled_streams (queue (fst u)) ! slot"
    and "Inr (rc, t) = and_then (match_and_put intact mem slot b u) (\<lambda>t. Inr (0, t))"
  then have put: "match_and_put intact mem slot b u = Inr t"
    by (cases "match_and_put intact mem slot b u") auto
  have wf': "wf_queue (queue (fst u))"
    using u wf by (simp add: safe_step_def trims_def)
  have "takes b u t"
    using match_and_put_takes [OF wf' slot put] .
  moreover have "tidy (queue (fst t)) \<and> bounded (queue (fst t))"
    if "tidy (queue (fst s))" "bounded (queue (fst s))"
    using match_and_put_tidy [OF wf' slot _ _ put] that u trims_bounded [of s u]
    by (simp add: safe_step_def trims_def)
  ultimately show ?thesis
    using u bundled trims_setup [of s u] by (auto simp: takes_def safe_step_def same_setup_def)
next
  fix e
  assume "Inr (rc, t) = Inl e"
  then show ?thesis
    by simp
qed

text \<open>Which operations lose no buffer.\<close>

fun lossless :: "mm_channel_queue \<Rightarrow> sb_op \<Rightarrow> bool" where
  "lossless q (Enqueue mem b) = is_bundled (stream_id b) q"
| "lossless q (Flush ty) = (ty = CAM_STREAM_TYPE_DEFAULT)"
| "lossless q _ = True"

fun offered :: "sb_op \<Rightarrow> mm_camera_buf_def multiset" where
  "offered (Enqueue mem b) = {#buf b#}"
| "offered _ = {#}"

lemma reduce_keeps:
  assumes "reduce_loop limit s = Some t"
  shows "trims s t \<and> held t = held s"
proof (rule reduce_loop.raw_induct [OF _ assms])
  fix loop limit s t
  assume 1: "\<And>limit s t. loop limit s = Some t \<Longrightarrow> trims s t \<and> held t = held s"
    "(if ucast limit < match_cnt (queue (fst s))
      then case mm_channel_superbuf_dequeue_internal True s of
             (None, s') \<Rightarrow> loop limit s'
           | (Some n, s') \<Rightarrow> loop limit (qbufs (node_bufs n) s')
      else Some s) = Some t"
  show "trims s t \<and> held t = held s"
  proof (cases "ucast limit < match_cnt (queue (fst s))")
    case False
    then show ?thesis
      using 1(2) by simp
  next
    case True
    obtain r s1 where step: "mm_channel_superbuf_dequeue_internal True s = (r, s1)"
      by (cases "mm_channel_superbuf_dequeue_internal True s")
    note keeps = dequeue_keeps [OF step]
    show ?thesis
    proof (cases r)
      case None
      then show ?thesis
        using 1 True step keeps by auto
    next
      case (Some n)
      then have "loop limit (qbufs (node_bufs n) s1) = Some t"
        using 1(2) True step by simp
      then have "trims (qbufs (node_bufs n) s1) t \<and> held t = held (qbufs (node_bufs n) s1)"
        using 1(1) by blast
      then show ?thesis
        using Some keeps(1,2) trims_trans [of s s1 t] by simp
    qed
  qed
qed

text \<open>The loop stands still when the first superbuf is not matched.\<close>

definition stuck :: "uint8 \<Rightarrow> mm_state \<Rightarrow> bool" where
  "stuck limit s \<longleftrightarrow> ucast limit < match_cnt (queue (fst s))
     \<and> que (queue (fst s)) \<noteq> [] \<and> \<not> matched (hd (que (queue (fst s))))"

lemma stuck_dequeue:
  assumes "stuck limit s"
  shows "mm_channel_superbuf_dequeue_internal True s = (None, s)"
  by (rule dequeue_cases [of True s]) (use assms in \<open>auto simp: stuck_def\<close>)

lemma stuck_hangs:
  assumes "stuck limit s"
  shows "reduce_loop limit s = None"
proof -
  have "\<not> stuck limit s" if "reduce_loop limit s = Some t" for t
  proof (rule reduce_loop.raw_induct [OF _ that])
    fix loop limit s t
    assume 1: "\<And>limit s (t :: mm_state). loop limit s = Some t \<Longrightarrow> \<not> stuck limit s"
      "(if ucast limit < match_cnt (queue (fst s))
        then case mm_channel_superbuf_dequeue_internal True s of
               (None, s') \<Rightarrow> loop limit s'
             | (Some n, s') \<Rightarrow> loop limit (qbufs (node_bufs n) s')
        else Some s) = Some t"
    show "\<not> stuck limit s"
    proof
      assume "stuck limit s"
      then have "loop limit s = Some t"
        using 1(2) stuck_dequeue [of limit s] by (simp add: stuck_def)
      then show False
        using 1(1) \<open>stuck limit s\<close> by blast
    qed
  qed
  then show ?thesis
    using assms by (cases "reduce_loop limit s") auto
qed

lemma step_keeps:
  assumes step: "sb_step intact op s = Some (Inr (ds, t))" and wf: "wf_queue (queue (fst s))"
  shows "wf_queue (queue (fst t))" and "same_setup (queue (fst s)) (queue (fst t))"
    and "tidy (queue (fst s)) \<Longrightarrow> bounded (queue (fst s)) \<Longrightarrow>
      tidy (queue (fst t)) \<and> bounded (queue (fst t))"
    and "lossless (queue (fst s)) op \<Longrightarrow> held t + mset ds = held s + offered op"
proof -
  have "wf_queue (queue (fst t)) \<and> same_setup (queue (fst s)) (queue (fst t))
    \<and> (tidy (queue (fst s)) \<longrightarrow> bounded (queue (fst s)) \<longrightarrow>
         tidy (queue (fst t)) \<and> bounded (queue (fst t)))
    \<and> (lossless (queue (fst s)) op \<longrightarrow> held t + mset ds = held s + offered op)"
  proof (cases op)
    case (Enqueue mem b)
    then obtain rc where "mm_channel_superbuf_comp_and_enqueue intact mem b s = Inr (rc, t)" "ds = []"
      using step by (cases "mm_channel_superbuf_comp_and_enqueue intact mem b s") auto
    then show ?thesis
      using enqueue_keeps [OF _ wf] Enqueue by auto
  next
    case Dequeue
    obtain r where r: "mm_channel_superbuf_dequeue_internal True s = (r, t)"
      "ds = (case r of None \<Rightarrow> [] | Some n \<Rightarrow> node_bufs n)"
      using step Dequeue
      by (cases "mm_channel_superbuf_dequeue_internal True s") (auto simp: mm_channel_superbuf_dequeue_def)
    show ?thesis
      using dequeue_keeps(1,2) [OF r(1)] r(2) wf trims_setup [of s t] trims_bounded [of s t] Dequeue
      by (auto simp: trims_def)
  next
    case (Flush ty)
    then have "t = mm_channel_superbuf_flush ty s" "ds = []"
      using step by auto
    moreover have "trims s (mm_channel_superbuf_flush ty s)"
      by (simp add: mm_channel_superbuf_flush_def flush_turns_trims del: flush_turns.simps)
    ultimately show ?thesis
      using Flush wf trims_setup [of s t] trims_bounded [of s t] flush_all_keeps(2) [of s]
      by (auto simp: trims_def)
  next
    case FlushMatched
    then show ?thesis
      using step wf trims_setup [of s t] trims_bounded [of s t] flush_matched_keeps [of s]
      by (auto simp: trims_def)
  next
    case Overflow
    then have "ds = []" "trims s t \<and> held t = held s"
      using step reduce_keeps [of _ s t]
      by (auto simp: mm_channel_superbuf_bufdone_overflow_def split: if_splits)
    then show ?thesis
      using Overflow wf trims_setup [of s t] trims_bounded [of s t] by (auto simp: trims_def)
  next
    case Skip
    then have "ds = []" "trims s t \<and> held t = held s"
      using step reduce_keeps [of _ s t]
      by (auto simp: mm_channel_superbuf_skip_def split: if_splits)
    then show ?thesis
      using Skip wf trims_setup [of s t] trims_bounded [of s t] by (auto simp: trims_def)
  qed
  then show "wf_queue (queue (fst t))" "same_setup (queue (fst s)) (queue (fst t))"
    "tidy (queue (fst s)) \<Longrightarrow> bounded (queue (fst s)) \<Longrightarrow>
      tidy (queue (fst t)) \<and> bounded (queue (fst t))"
    "lossless (queue (fst s)) op \<Longrightarrow> held t + mset ds = held s + offered op"
    by blast+
qed

lemma lossless_setup:
  "same_setup q r \<Longrightarrow> lossless r op = lossless q op"
  by (cases op) (simp_all add: same_setup_def is_bundled_def)

lemma sb_run_Cons:
  assumes "sb_run intact (op # ops) s = Some (Inr (ds, t))"
  obtains es u fs where "sb_step intact op s = Some (Inr (es, u))"
    and "sb_run intact ops u = Some (Inr (fs, t))" and "ds = es @ fs"
proof -
  obtain r where r: "sb_step intact op s = Some (Inr r)"
    using assms by (cases "sb_step intact op s"; cases "the (sb_step intact op s)") auto
  obtain r' where r': "sb_run intact ops (snd r) = Some (Inr r')"
    using assms r by (cases r; cases "sb_run intact ops (snd r)";
        cases "the (sb_run intact ops (snd r))") auto
  show ?thesis
    using that [of "fst r" "snd r" "fst r'"] assms r r' by (cases r; cases r') auto
qed

lemma run_keeps:
  assumes "sb_run intact ops s = Some (Inr (ds, t))" and "wf_queue (queue (fst s))"
  shows "wf_queue (queue (fst t)) \<and> same_setup (queue (fst s)) (queue (fst t))
    \<and> (tidy (queue (fst s)) \<longrightarrow> bounded (queue (fst s)) \<longrightarrow>
         tidy (queue (fst t)) \<and> bounded (queue (fst t)))
    \<and> ((\<forall>op \<in> set ops. lossless (queue (fst s)) op) \<longrightarrow>
         held t + mset ds = held s + (\<Sum>op\<leftarrow>ops. offered op))"
  using assms
proof (induction ops arbitrary: s ds)
  case (Cons op ops)
  obtain es u fs where u: "sb_step intact op s = Some (Inr (es, u))"
    "sb_run intact ops u = Some (Inr (fs, t))" "ds = es @ fs"
    using Cons.prems(1) by (rule sb_run_Cons)
  note step = step_keeps [OF u(1) Cons.prems(2)]
  show ?case
    using Cons.IH [OF u(2) step(1)] step(2-4) u(3) lossless_setup [OF step(2)]
    by (auto simp: same_setup_def ac_simps)
qed simp

lemma started_ok:
  assumes "just_started q"
  shows "wf_queue q" and "bounded q" and "keeps_order q \<Longrightarrow> tidy q" and "queued_bufs q = {#}"
  using assms
  by (auto simp: just_started_def wf_queue_def bounded_def unmatched_count_def keeps_order_def
      queued_bufs_def intro!: tidyI [of _ "[]" "[]"])

section \<open>A channel\<close>

text \<open>A channel with the streams 1, 2 and 3, of which 3 gives the metadata, just started.\<close>

definition a_stream :: "uint32 \<Rightarrow> cam_stream_type \<Rightarrow> mm_stream" where
  "a_stream h t = \<lparr>in_use = True, my_hdl = h, server_stream_id = h, info_type = Some t, owner = 1,
     linked_obj = None\<rparr>"

definition a_channel :: "priority \<Rightarrow> uint8 \<Rightarrow> mm_state" where
  "a_channel prio mx =
    (\<lparr>self = 1,
       queue = \<lparr>que = [], que_size = 0, num_streams = 3, bundled_streams = [1, 2, 3, 0, 0, 0, 0, 0],
         attr = \<lparr>notify_mode = MM_CAMERA_SUPER_BUF_NOTIFY_BURST, water_mark = 0, look_back = 0,
           post_frame_skip = 0, max_unmatched_frames = mx, enable_frame_sync = False,
           priority = prio, user_expected_frame_id = 0\<rparr>,
         expected_frame_id = 0, match_cnt = 0, expected_frame_id_without_led = 0,
         led_on_start_frame_id = 0, led_off_start_frame_id = 0, led_on_num_frames = 0, once = False,
         frame_skip_count = 0, good_frame_id = 0\<rparr>,
       streams = [a_stream 1 CAM_STREAM_TYPE_PREVIEW, a_stream 2 CAM_STREAM_TYPE_SNAPSHOT,
         a_stream 3 CAM_STREAM_TYPE_METADATA],
       bWaitForPrepSnapshotDone = False, stopZslSnapshot = False, startZSlSnapshotCalled = False,
       needLEDFlash = False, bracketingState = MM_CHANNEL_BRACKETING_STATE_OFF,
       isFlashBracketingEnabled = False, isZoom1xFrameRequested = False, burstSnapNum = 0,
       diverted_frame_id = 0, isConfigCapture = False, cur_capture_idx = 0,
       capture_frame_id = replicate 32 0, num_batch = 0, needLowLightZSL = False\<rparr>,
     \<lparr>fs = mm_frame_sync_reset, events = []\<rparr>)"

lemma a_channel_started:
  "mx < 255 \<Longrightarrow> just_started (queue (fst (a_channel prio mx)))"
  by (simp add: just_started_def a_channel_def MAX_STREAM_NUM_IN_BUNDLE_def)

text \<open>A buffer of a frame of one of the streams; the address identifies it.\<close>

definition a_frame :: "uint32 \<Rightarrow> uint32 \<Rightarrow> addr \<Rightarrow> mm_camera_buf_info" where
  "a_frame h f a = \<lparr>stream_id = h, info_frame_idx = f,
     buf = \<lparr>buf_addr = a,
       buf_stream_type = (if h = 3 then CAM_STREAM_TYPE_METADATA
         else if h = 2 then CAM_STREAM_TYPE_SNAPSHOT else CAM_STREAM_TYPE_PREVIEW),
       contents = (if h = 3 then Some \<lparr>need_future_frame = None, good_frame_idx_range = None,
         crop_data = None, divert_frame_id = None, low_light = None, aec_settled = None\<rparr>
         else None)\<rparr>\<rparr>"

definition put :: "uint32 \<Rightarrow> uint32 \<Rightarrow> addr \<Rightarrow> sb_op" where
  "put h f a = Enqueue True (a_frame h f a)"

lemma one_bundle:
  "case sb_run True [put 1 5 10, put 2 5 11, put 1 6 12, put 3 5 13, Dequeue]
      (a_channel MM_CAMERA_SUPER_BUF_PRIORITY_NORMAL 4) of
    Some (Inr (ds, t)) \<Rightarrow> List.map buf_addr ds = [10, 11, 13] \<and> length (que (queue (fst t))) = 1
    | _ \<Rightarrow> False"
  by code_simp

text \<open>With the priority \<open>LOW\<close>, a matched superbuf behind one that waits.\<close>

definition out_of_order :: "sb_op list" where
  "out_of_order = [put 1 7 10, put 3 7 11, put 3 9 12, put 2 6 13, put 1 6 14]"

lemma out_of_order_run:
  "case sb_run True out_of_order (a_channel MM_CAMERA_SUPER_BUF_PRIORITY_LOW 4) of
    Some (Inr (ds, t)) \<Rightarrow> stuck 0 t
      \<and> notify_mode (attr (queue (fst t))) = MM_CAMERA_SUPER_BUF_NOTIFY_BURST
      \<and> water_mark (attr (queue (fst t))) = 0
    | _ \<Rightarrow> False"
  by code_simp

text \<open>A superbuf waits, there may be no more, and a buffer of a younger frame comes.\<close>

definition one_waits :: "mm_state \<Rightarrow> mm_camera_buf_info \<Rightarrow> bool" where
  "one_waits s b \<longleftrightarrow> (let q = queue (fst s); x = hd (que q)
     in length (que q) = 1 \<and> \<not> matched x \<and> \<not> expected_frame x \<and> frame_idx x < info_frame_idx b
        \<and> unmatched_count q = Suc (unat (max_unmatched_frames (attr q)))
        \<and> is_bundled (stream_id b) q \<and> expected_frame_id q \<le> info_frame_idx b
        \<and> mm_channel_handle_metadata b s = Inr (True, s))"

lemma one_waits_run:
  "case sb_run False [put 1 5 10] (a_channel MM_CAMERA_SUPER_BUF_PRIORITY_NORMAL 0) of
    Some (Inr (ds, t)) \<Rightarrow> one_waits t (a_frame 1 6 12)
    | _ \<Rightarrow> False"
  by code_simp

lemma sb_run_append:
  "sb_run intact ops s = Some (Inr (ds, t)) \<Longrightarrow>
    sb_run intact (ops @ ops') s =
      map_option (\<lambda>r. and_then r (\<lambda>(es, u). Inr (ds @ es, u))) (sb_run intact ops' t)"
proof (induction ops arbitrary: s ds)
  case Nil
  then show ?case
    by (cases "sb_run intact ops' t") (auto simp: and_then_def split: sum.split)
next
  case (Cons op ops)
  obtain es u fs where u: "sb_step intact op s = Some (Inr (es, u))"
    "sb_run intact ops u = Some (Inr (fs, t))" "ds = es @ fs"
    using Cons.prems by (rule sb_run_Cons)
  then show ?case
    using Cons.IH [OF u(2)]
    by (cases "sb_run intact ops' t") (auto simp: and_then_def split: sum.split)
qed

section \<open>Returning\<close>

lemma metadata_error:
  assumes "mm_channel_handle_metadata b s = Inl e"
  shows "e \<noteq> FreedRead"
proof -
  have snap: "snapshot_id ss \<noteq> Inl FreedRead" for ss
    by (induction ss) (auto split: option.split)
  have crop: "crop_1x_found md c \<noteq> Inl FreedRead" for md c
    using snap [of "streams c"]
    by (auto simp: crop_1x_found_def and_then_def split: option.split sum.split)
  have config: "meta_config_capture md c \<noteq> Inl FreedRead" for md c
    by (auto simp: meta_config_capture_def Let_def split: option.split)
  have "handle_metadata_of md f s \<noteq> Inl FreedRead" for md f
    using crop [of md "fst s"] config
    by (auto simp: handle_metadata_of_def and_then_def Let_def split: sum.split)
  then show ?thesis
    using assms
    by (auto simp: mm_channel_handle_metadata_def and_then_def split: option.splits if_splits sum.splits)
qed

lemma drop_intact: "\<not> mx < n - 1 \<Longrightarrow> \<exists>r. drop_unmatched True mx before n i xs = Inr r"
  by (induction xs arbitrary: i) auto

lemma match_and_put_intact:
  assumes tidy: "tidy (queue (fst s))" and bounded: "bounded (queue (fst s))"
  shows "\<exists>t. match_and_put True mem slot b s = Inr t"
proof -
  let ?q = "queue (fst s)" and ?mx = "max_unmatched_frames (attr (queue (fst s)))"
  obtain ms us where q: "que ?q = ms @ us" "\<forall>n \<in> set ms. matched n" "\<forall>n \<in> set us. \<not> matched n"
    "in_order us" "match_cnt ?q = of_nat (length ms)" "\<forall>n \<in> set (que ?q). one_frame n"
    "priority (attr ?q) \<noteq> MM_CAMERA_SUPER_BUF_PRIORITY_LOW" "unmatched_count ?q = length us"
    by (rule tidy_cases [OF tidy])
  show ?thesis
  proof (rule in_order_split [OF q(4), of "info_frame_idx b"])
    fix as n bs
    assume us: "us = as @ n # bs" and n: "frame_idx n = info_frame_idx b"
      and as: "\<forall>a \<in> set as. frame_idx a < info_frame_idx b"
    show ?thesis
      using scan_found [OF q(2) _ n as, of bs slot] q(1,3,7) us
      by (simp add: match_and_put_def Let_def scan_start_def)
  next
    fix as bs
    assume us: "us = as @ bs" and as: "\<forall>a \<in> set as. frame_idx a < info_frame_idx b"
      and bs: "\<forall>a \<in> set bs. info_frame_idx b < frame_idx a"
    let ?sc = "\<lparr>unmatched_bundles = of_nat (length as + length bs),
      last_buf = in_front (length as) (length ms),
      insert_before_buf = in_front (length bs) (length ms + length as)\<rparr>"
    have "\<exists>r. room_for True ?sc ?q = Inr r"
    proof (cases "as = []")
      case True
      then show ?thesis
        by (simp add: room_for_def in_front_def Let_def)
    next
      case False
      let ?n = "of_nat (length as + length bs) :: uint8"
      have n: "unat ?n = length as + length bs"
        using of_nat_count [OF bounded, of "length as + length bs"] q(8) us by simp
      then have "0 < ?n"
        using False by (cases as) (auto simp: word_less_nat_alt)
      then have "unat (?n - 1) = length as + length bs - 1"
        using n by (simp add: unat_minus_one word_neq_0_conv del: of_nat_add)
      then have "\<not> ?mx < ?n - 1"
        using bounded q(8) us by (auto simp: bounded_def word_less_nat_alt simp del: of_nat_add)
      then obtain r where "drop_unmatched True ?mx (in_front (length bs) (length ms + length as)) ?n
          (length ms) (drop (length ms) (que ?q)) = Inr r"
        using drop_intact by blast
      then show ?thesis
        using False by (cases r) (simp add: room_for_def in_front_def Let_def)
    qed
    then have "\<exists>t. put_into_new True mem slot b ?sc s = Inr t"
      by (auto simp: put_into_new_def Let_def)
    then show ?thesis
      using scan_absent [OF q(2) _ as bs, of slot] q(1,3,7) us
      by (simp add: match_and_put_def Let_def scan_start_def)
  qed
qed

lemma step_returns:
  assumes "tidy (queue (fst s))" and "bounded (queue (fst s))"
  shows "\<exists>r. sb_step intact op s = Some r \<and> (intact \<longrightarrow> r \<noteq> Inl FreedRead)"
proof (cases op)
  case (Enqueue mem b)
  let ?r = "mm_channel_superbuf_comp_and_enqueue intact mem b s"
  have "?r \<noteq> Inl FreedRead" if intact
  proof (rule enqueue_cases [of intact mem b s ?r])
    fix e
    assume "mm_channel_handle_metadata b s = Inl e" "?r = Inl e"
    then show ?thesis
      using metadata_error by auto
  next
    fix t slot
    assume "safe_step s t" "?r = and_then (match_and_put intact mem slot b t) (\<lambda>t. Inr (0, t))"
    moreover from this have "\<exists>u. match_and_put True mem slot b t = Inr u"
      using assms trims_bounded [of s t] by (intro match_and_put_intact) (auto simp: safe_step_def trims_def)
    ultimately show ?thesis
      using that by auto
  qed auto
  then show ?thesis
    using Enqueue by (cases ?r) auto
next
  case Overflow
  obtain t where "reduce_loop (water_mark (attr (queue (fst s)))) s = Some t"
    using reduce_loop_ends [OF assms(1)] by blast
  then show ?thesis
    using Overflow by (cases s; cases t) (auto simp: mm_channel_superbuf_bufdone_overflow_def)
next
  case Skip
  obtain t where "reduce_loop (look_back (attr (queue (fst s)))) s = Some t"
    using reduce_loop_ends [OF assms(1)] by blast
  then show ?thesis
    using Skip by (cases s; cases t) (auto simp: mm_channel_superbuf_skip_def)
qed (auto split: prod.split)

lemma run_returns:
  assumes "wf_queue (queue (fst s))" and "tidy (queue (fst s))" and "bounded (queue (fst s))"
  shows "\<exists>r. sb_run intact ops s = Some r \<and> (intact \<longrightarrow> r \<noteq> Inl FreedRead)"
  using assms
proof (induction ops arbitrary: s)
  case (Cons op ops)
  obtain r where r: "sb_step intact op s = Some r" "intact \<longrightarrow> r \<noteq> Inl FreedRead"
    using step_returns [OF Cons.prems(2,3)] by blast
  show ?case
  proof (cases r)
    case (Inl e)
    then show ?thesis
      using r by simp
  next
    case (Inr p)
    then obtain ds t where t: "sb_step intact op s = Some (Inr (ds, t))"
      using r by (cases p) auto
    note keeps = step_keeps [OF t Cons.prems(1)]
    obtain r' where "sb_run intact ops t = Some r'" "intact \<longrightarrow> r' \<noteq> Inl FreedRead"
      using Cons.IH [of t] keeps(1,3) Cons.prems(2,3) by blast
    then show ?thesis
      using t by (cases r') auto
  qed
qed simp

lemma drop_reads_freed:
  "mx < n \<Longrightarrow> j < length xs \<Longrightarrow> \<not> expected_frame (xs ! j) \<Longrightarrow> (\<And>k. before = Some k \<Longrightarrow> i + j < k) \<Longrightarrow>
    drop_unmatched False mx before n i xs = Inl FreedRead"
proof (induction xs arbitrary: i j)
  case (Cons x xs)
  then show ?case
    by (cases j) auto
qed simp

section \<open>Properties\<close>

text \<open>A superbuf with a buffer of its frame in the slot of every bundled stream.\<close>

definition complete :: "mm_channel_queue \<Rightarrow> mm_channel_queue_node \<Rightarrow> bool" where
  "complete q n \<longleftrightarrow> (\<forall>j < unat (num_streams q). \<exists>i. super_buf n ! j = Some i
     \<and> stream_id i = bundled_streams q ! j \<and> info_frame_idx i = frame_idx n)"

lemma matched_complete:
  assumes wf: "wf_queue q" and n: "n \<in> set (que q)" "matched n" "one_frame n"
  shows "complete q n"
  unfolding complete_def
proof (intro allI impI)
  fix j
  assume j: "j < unat (num_streams q)"
  have node: "wf_node (num_streams q) (bundled_streams q) n"
    and small: "unat (num_streams q) \<le> MAX_STREAM_NUM_IN_BUNDLE"
    using wf n(1) by (auto simp: wf_queue_def)
  have slots: "j < length (node_slots n)" "node_slots n ! j = super_buf n ! j" "j < length (super_buf n)"
    using j small node by (auto simp: wf_node_def node_slots_def)
  then have "super_buf n ! j \<noteq> None"
    using node n(2) slots(1,2) nth_mem unfolding wf_node_def by metis
  then obtain i where i: "super_buf n ! j = Some i"
    by blast
  then have "Some i \<in> set (super_buf n)"
    using nth_mem [OF slots(3)] by simp
  then show "\<exists>i. super_buf n ! j = Some i \<and> stream_id i = bundled_streams q ! j
      \<and> info_frame_idx i = frame_idx n"
    using i node n(3) slots(3) by (auto simp: wf_node_def one_frame_def)
qed



text \<open>
  No buffer is lost or handed back twice, whatever the priority: after any operations in
  which every buffer is of a bundled stream and every flush is of all types, the buffers in
  the queue, those handed back to their streams and those delivered are together those that
  came in.
\<close>

theorem superbuf_conserves_buffers:
  assumes "just_started (queue (fst s))" and "events (snd s) = []"
    and "\<forall>op \<in> set ops. lossless (queue (fst s)) op"
    and "sb_run intact ops s = Some (Inr (ds, t))"
  shows "queued_bufs (queue (fst t)) + returned_bufs (snd t) + mset ds = (\<Sum>op\<leftarrow>ops. offered op)"
proof -
  have "held s = {#}"
    using started_ok(4) [OF assms(1)] assms(2) by (simp add: held_def returned_bufs_def)
  then show ?thesis
    using run_keeps [OF assms(4)] started_ok(1) [OF assms(1)] assms(3) by (simp add: held_def)
qed

theorem superbuf_conserves_buffers_witness:
  "\<exists>ds t. sb_run True out_of_order (a_channel MM_CAMERA_SUPER_BUF_PRIORITY_LOW 4) = Some (Inr (ds, t))
    \<and> size (queued_bufs (queue (fst t)) + returned_bufs (snd t) + mset ds) = 5"
proof -
  let ?s = "a_channel MM_CAMERA_SUPER_BUF_PRIORITY_LOW 4"
  obtain ds t where t: "sb_run True out_of_order ?s = Some (Inr (ds, t))"
    using out_of_order_run by (auto split: option.splits sum.splits)
  have "events (snd ?s) = []" "\<forall>op \<in> set out_of_order. lossless (queue (fst ?s)) op"
    by (simp_all add: a_channel_def out_of_order_def put_def a_frame_def is_bundled_def)
  from superbuf_conserves_buffers [OF a_channel_started this t]
  have sum: "queued_bufs (queue (fst t)) + returned_bufs (snd t) + mset ds =
      (\<Sum>op\<leftarrow>out_of_order. offered op)"
    by simp
  show ?thesis
    by (intro exI conjI, rule t, unfold sum) (simp add: out_of_order_def put_def)
qed

text \<open>
  C30: every sequence of operations on a channel whose priority is not \<open>LOW\<close> returns, the
  loops of overflow and skip included; and when the allocator leaves freed memory as it was,
  no freed node is read but its own link.
\<close>

theorem superbuf_operations_return:
  assumes "just_started (queue (fst s))" and "keeps_order (queue (fst s))"
  shows "\<exists>r. sb_run intact ops s = Some r \<and> (intact \<longrightarrow> r \<noteq> Inl FreedRead)"
  using run_returns [OF started_ok(1) [OF assms(1)] started_ok(3) [OF assms] started_ok(2) [OF assms(1)]] .

theorem superbuf_operations_return_witness:
  "\<exists>r. sb_run True (out_of_order @ [Overflow]) (a_channel MM_CAMERA_SUPER_BUF_PRIORITY_NORMAL 4) = Some r
    \<and> r \<noteq> Inl FreedRead"
  using superbuf_operations_return [of "a_channel MM_CAMERA_SUPER_BUF_PRIORITY_NORMAL 4" True
      "out_of_order @ [Overflow]"] a_channel_started
  by (simp add: keeps_order_def a_channel_def)

text \<open>
  With the priority \<open>LOW\<close> the loop of the overflow may never end, and it holds the
  lock of the queue: five buffers of a preview, a snapshot and a metadata stream are enough.
\<close>

theorem low_priority_hangs:
  "sb_run True (out_of_order @ [Overflow]) (a_channel MM_CAMERA_SUPER_BUF_PRIORITY_LOW 4) = None"
proof -
  let ?s = "a_channel MM_CAMERA_SUPER_BUF_PRIORITY_LOW 4"
  obtain ds t where t: "sb_run True out_of_order ?s = Some (Inr (ds, t))" "stuck 0 t"
    "notify_mode (attr (queue (fst t))) = MM_CAMERA_SUPER_BUF_NOTIFY_BURST"
    "water_mark (attr (queue (fst t))) = 0"
    using out_of_order_run by (auto split: option.splits sum.splits)
  have "sb_step True Overflow t = None"
    using stuck_hangs [OF t(2)] t(3,4) by (simp add: mm_channel_superbuf_bufdone_overflow_def)
  then have "sb_run True [Overflow] t = None"
    by simp
  then show ?thesis
    using sb_run_append [OF t(1), of "[Overflow]"] by simp
qed

text \<open>
  C40: making room reads a freed node. When as many superbufs wait as may, and one more, and a
  buffer of a new frame comes in that is younger than one of them that is not expected, a
  waiting superbuf is freed and then its link is read.
\<close>

theorem make_room_reads_freed:
  assumes wf: "wf_queue (queue (fst s))" and tidy: "tidy (queue (fst s))"
    and bounded: "bounded (queue (fst s))"
    and full: "unmatched_count (queue (fst s)) = Suc (unat (max_unmatched_frames (attr (queue (fst s)))))"
    and stream: "is_bundled (stream_id b) (queue (fst s))" and meta: "mm_channel_handle_metadata b s = Inr (True, s)"
    and frame: "info_frame_idx b \<noteq> 0" "expected_frame_id (queue (fst s)) \<le> info_frame_idx b"
    and new: "\<forall>n \<in> set (que (queue (fst s))). \<not> matched n \<longrightarrow> frame_idx n \<noteq> info_frame_idx b"
    and older: "x \<in> set (que (queue (fst s)))" "\<not> matched x" "\<not> expected_frame x"
      "frame_idx x < info_frame_idx b"
  shows "mm_channel_superbuf_comp_and_enqueue False mem b s = Inl FreedRead"
proof -
  let ?q = "queue (fst s)" and ?mx = "max_unmatched_frames (attr (queue (fst s)))"
  obtain slot where slot: "first_index (\<lambda>h. stream_id b = h)
      (take (unat (num_streams ?q)) (bundled_streams ?q)) = Some slot"
    using stream first_index_None [of "\<lambda>h. stream_id b = h" "take (unat (num_streams ?q)) (bundled_streams ?q)"]
    by (cases "first_index (\<lambda>h. stream_id b = h) (take (unat (num_streams ?q)) (bundled_streams ?q))")
      (auto simp: is_bundled_def)
  obtain ms us where q: "que ?q = ms @ us" "\<forall>n \<in> set ms. matched n" "\<forall>n \<in> set us. \<not> matched n"
    "in_order us" "match_cnt ?q = of_nat (length ms)" "\<forall>n \<in> set (que ?q). one_frame n"
    "priority (attr ?q) \<noteq> MM_CAMERA_SUPER_BUF_PRIORITY_LOW" "unmatched_count ?q = length us"
    by (rule tidy_cases [OF tidy])
  have "match_and_put False mem slot b s = Inl FreedRead"
  proof (rule in_order_split [OF q(4), of "info_frame_idx b"])
    fix as n bs
    assume "us = as @ n # bs" "frame_idx n = info_frame_idx b"
    then show ?thesis
      using new q(1,3) by auto
  next
    fix as bs
    assume us: "us = as @ bs" and as: "\<forall>a \<in> set as. frame_idx a < info_frame_idx b"
      and bs: "\<forall>a \<in> set bs. info_frame_idx b < frame_idx a"
    have x: "x \<in> set as"
      using older q(1,2) us bs by (auto dest: order.strict_trans)
    then obtain j where j: "j < length as" "as ! j = x"
      by (auto simp: in_set_conv_nth)
    have "unat (of_nat (length as + length bs) :: uint8) = length as + length bs"
      using of_nat_count [OF bounded, of "length as + length bs"] q(8) us by simp
    then have mx: "?mx < of_nat (length as + length bs)"
      using full q(8) us by (simp add: word_less_nat_alt del: of_nat_add)
    have "drop_unmatched False ?mx (in_front (length bs) (length ms + length as))
        (of_nat (length as + length bs)) (length ms) (drop (length ms) (que ?q)) = Inl FreedRead"
      by (rule drop_reads_freed [OF mx, of j])
        (use j older(3) q(1) us in \<open>auto simp: in_front_def nth_append split: if_splits\<close>)
    moreover have "in_front (length as) (length ms) = Some (length ms)"
      using j(1) by (cases as) (simp_all add: in_front_def)
    ultimately have "put_into_new False mem slot b \<lparr>unmatched_bundles = of_nat (length as + length bs),
        last_buf = in_front (length as) (length ms),
        insert_before_buf = in_front (length bs) (length ms + length as)\<rparr> s = Inl FreedRead"
      by (simp add: put_into_new_def room_for_def Let_def del: of_nat_add)
    then show ?thesis
      using scan_absent [OF q(2) _ as bs, of slot] q(1,3,7) us
      by (simp add: match_and_put_def Let_def scan_start_def)
  qed
  then show ?thesis
    using slot meta frame
    by (simp add: mm_channel_superbuf_comp_and_enqueue_def Let_def
        mm_channel_util_seq_comp_w_rollover_def)
qed

theorem make_room_reads_freed_witness:
  "sb_run False [put 1 5 10, put 1 6 12] (a_channel MM_CAMERA_SUPER_BUF_PRIORITY_NORMAL 0) =
    Some (Inl FreedRead)"
proof -
  let ?s = "a_channel MM_CAMERA_SUPER_BUF_PRIORITY_NORMAL 0" and ?b = "a_frame 1 6 12"
  obtain ds t where t: "sb_run False [put 1 5 10] ?s = Some (Inr (ds, t))"
    and facts: "one_waits t ?b"
    using one_waits_run by (auto split: option.splits sum.splits)
  have start: "just_started (queue (fst ?s))" "keeps_order (queue (fst ?s))"
    by (simp add: a_channel_started) (simp add: keeps_order_def a_channel_def)
  have ok: "wf_queue (queue (fst t))" "tidy (queue (fst t))" "bounded (queue (fst t))"
    using run_keeps [OF t] started_ok [OF start(1)] start(2) by auto
  have "mm_channel_superbuf_comp_and_enqueue False True ?b t = Inl FreedRead"
    by (rule make_room_reads_freed [OF ok, of ?b "hd (que (queue (fst t)))"])
      (use facts in \<open>auto simp: one_waits_def Let_def length_Suc_conv a_frame_def\<close>)
  then have "sb_step False (put 1 6 12) t = Some (Inl FreedRead)"
    by (simp add: put_def)
  then show ?thesis
    using sb_run_append [OF t, of "[put 1 6 12]"] by simp
qed

text \<open>
  A flush of one stream type empties the queue but hands back only the buffers of that
  type: those of the other types are lost.
\<close>

theorem typed_flush_loses_buffers:
  assumes "ty \<noteq> CAM_STREAM_TYPE_DEFAULT"
  shows "que (queue (fst (mm_channel_superbuf_flush ty s))) = []
    \<and> held s = held (mm_channel_superbuf_flush ty s)
        + filter_mset (\<lambda>b. buf_stream_type b \<noteq> ty) (queued_bufs (queue (fst s)))"
  using flush_turns_some [of s "Suc (length (que (queue (fst s))))"
      "\<lambda>b. ty = CAM_STREAM_TYPE_DEFAULT \<or> ty = buf_stream_type b"] assms
  by (simp add: mm_channel_superbuf_flush_def eq_commute [of ty] del: flush_turns.simps)

theorem typed_flush_loses_buffers_witness:
  "\<exists>ds t. sb_run True [put 1 5 10, put 2 5 11] (a_channel MM_CAMERA_SUPER_BUF_PRIORITY_NORMAL 4) =
      Some (Inr (ds, t))
    \<and> held t = held (mm_channel_superbuf_flush CAM_STREAM_TYPE_PREVIEW t) + {#buf (a_frame 2 5 11)#}"
proof -
  have "case sb_run True [put 1 5 10, put 2 5 11] (a_channel MM_CAMERA_SUPER_BUF_PRIORITY_NORMAL 4) of
      Some (Inr (ds, t)) \<Rightarrow> List.map node_bufs (que (queue (fst t))) =
        [[buf (a_frame 1 5 10), buf (a_frame 2 5 11)]]
      | _ \<Rightarrow> False"
    by code_simp
  then obtain ds t where t: "sb_run True [put 1 5 10, put 2 5 11]
      (a_channel MM_CAMERA_SUPER_BUF_PRIORITY_NORMAL 4) = Some (Inr (ds, t))"
    "List.map node_bufs (que (queue (fst t))) = [[buf (a_frame 1 5 10), buf (a_frame 2 5 11)]]"
    by (auto split: option.splits sum.splits)
  have "filter_mset (\<lambda>b. buf_stream_type b \<noteq> CAM_STREAM_TYPE_PREVIEW) (queued_bufs (queue (fst t))) =
      {#buf (a_frame 2 5 11)#}"
    unfolding queued_bufs_def t(2) by (simp add: a_frame_def)
  then show ?thesis
    using t(1) typed_flush_loses_buffers [of CAM_STREAM_TYPE_PREVIEW t] by auto
qed

end
