(* ===== verification/SuperbufThread.thy ===== *)
theory SuperbufThread
  imports SuperbufProperties
begin

text \<open>
  The command thread of a camera channel, \<open>mm_channel_process_stream_buf\<close> of
  \<open>mm-camera-interface/src/mm_camera_channel.c\<close>: it serves the commands the streams and the
  users queue, runs the operations of the superbuf queue, starts and stops the snapshots
  without shutter lag, and hands superbufs to the callback thread, for one camera or for two
  whose frames are synchronised.
\<close>

section \<open>Data\<close>

datatype req_buf_type = MM_CAMERA_REQ_SUPER_BUF | MM_CAMERA_REQ_FRAME_SYNC_BUF

record req_buf =
  rb_type :: req_buf_type
  num_buf_requested :: uint32
  num_retro_buf_requested :: uint32

datatype cam_capture_type =
    CAM_CAPTURE_NORMAL | CAM_CAPTURE_FLASH | CAM_CAPTURE_BRACKETING | CAM_CAPTURE_LOW_LIGHT
  | CAM_CAPTURE_RESET | CAM_CAPTURE_MANUAL_3A | CAM_CAPTURE_MAX

record cam_capture_settings =
  num_frames :: int32
  capture_type :: cam_capture_type

record frame_config =
  fc_num_batch :: uint32
  fc_configs :: "cam_capture_settings list"

definition MAX_CAPTURE_BATCH_NUM :: nat where
  "MAX_CAPTURE_BATCH_NUM = 32"

text \<open>
  The commands that are queued to this thread, beside the one that ends it. Of a general
  command, the first word of its payload says whether something starts or stops.
\<close>

datatype general_cmd =
    MM_CAMERA_GENERIC_CMD_TYPE_AE_BRACKETING uint32
  | MM_CAMERA_GENERIC_CMD_TYPE_AF_BRACKETING uint32
  | MM_CAMERA_GENERIC_CMD_TYPE_FLASH_BRACKETING uint32
  | MM_CAMERA_GENERIC_CMD_TYPE_ZOOM_1X uint32
  | MM_CAMERA_GENERIC_CMD_TYPE_CAPTURE_SETTING uint32 frame_config

datatype channel_cmd =
    MM_CAMERA_CMD_TYPE_DATA_CB mm_camera_buf_info
  | MM_CAMERA_CMD_TYPE_REQ_DATA_CB req_buf
  | MM_CAMERA_CMD_TYPE_START_ZSL
  | MM_CAMERA_CMD_TYPE_STOP_ZSL
  | MM_CAMERA_CMD_TYPE_CONFIG_NOTIFY notify_mode
  | MM_CAMERA_CMD_TYPE_FLUSH_QUEUE uint32 cam_stream_type
  | MM_CAMERA_CMD_TYPE_GENERAL general_cmd

text \<open>What the thread uses of the channel, beside what the superbuf queue does.\<close>

record zsl_channel =
  sb :: mm_channel
  pending_cnt :: uint32
  pending_retro_cnt :: uint32
  req_type :: req_buf_type
  unLockAEC :: bool
  manualZSLSnapshot :: bool
  configs :: "cam_capture_settings list"
  super_buf_notify_cb :: bool

text \<open>A message in the queue of the callback thread, the parts that are set.\<close>

record super_buf_msg =
  msg_ch :: addr
  msg_bufs :: "mm_camera_buf_def option list"
  bUnlockAEC :: bool
  bReadyForPrepareSnapshot :: bool

text \<open>
  The channels by address, the frame synchronisation with the buffers handed back, the
  messages sent, the calls of \<open>mm_camera_start_zsl_snapshot\<close> (true) and \<open>_stop_\<close>, and the
  number of allocations so far. Of the environment: whether an allocation succeeds, and
  whether the allocator leaves freed memory as it was.
\<close>

record thread_world =
  chans :: "addr \<Rightarrow> zsl_channel"
  mm :: mm_world
  sent :: "super_buf_msg list"
  zsl_calls :: "(addr \<times> bool) list"
  allocs :: nat

record alloc_env =
  alloc :: "nat \<Rightarrow> bool"
  intact_mem :: bool

definition on_chan :: "addr \<Rightarrow> (zsl_channel \<Rightarrow> zsl_channel) \<Rightarrow> thread_world \<Rightarrow> thread_world" where
  "on_chan a f w = w\<lparr>chans := (chans w)(a := f (chans w a))\<rparr>"

definition mm_of :: "addr \<Rightarrow> thread_world \<Rightarrow> mm_state" where
  "mm_of a w = (sb (chans w a), mm w)"

definition put_mm :: "addr \<Rightarrow> mm_state \<Rightarrow> thread_world \<Rightarrow> thread_world" where
  "put_mm a s w = (on_chan a (\<lambda>c. c\<lparr>sb := fst s\<rparr>) w)\<lparr>mm := snd s\<rparr>"

definition on_mm :: "addr \<Rightarrow> (mm_state \<Rightarrow> mm_state) \<Rightarrow> thread_world \<Rightarrow> thread_world" where
  "on_mm a f w = put_mm a (f (mm_of a w)) w"

definition on_sb :: "addr \<Rightarrow> (mm_channel \<Rightarrow> mm_channel) \<Rightarrow> thread_world \<Rightarrow> thread_world" where
  "on_sb a f = on_chan a (\<lambda>c. c\<lparr>sb := f (sb c)\<rparr>)"

definition call_zsl :: "addr \<Rightarrow> bool \<Rightarrow> thread_world \<Rightarrow> thread_world" where
  "call_zsl a start w = w\<lparr>zsl_calls := zsl_calls w @ [(a, start)]\<rparr>"

section \<open>The commands\<close>

definition request_bufs :: "req_buf \<Rightarrow> zsl_channel \<Rightarrow> zsl_channel" where
  "request_bufs r c =
    (let c = c\<lparr>pending_cnt := num_buf_requested r, pending_retro_cnt := num_retro_buf_requested r,
               req_type := rb_type r, sb := (sb c)\<lparr>bWaitForPrepSnapshotDone := False\<rparr>\<rparr>;
         c = (if pending_cnt c = 0 \<or> pending_cnt c < pending_retro_cnt c
              then c\<lparr>pending_retro_cnt := pending_cnt c\<rparr> else c);
         c = (if 0 < pending_retro_cnt c then c\<lparr>sb := (sb c)\<lparr>needLEDFlash := False\<rparr>\<rparr> else c)
     in c\<lparr>unLockAEC := False, sb := (sb c)\<lparr>stopZslSnapshot := False\<rparr>\<rparr>)"

definition zero_settings :: cam_capture_settings where
  "zero_settings = \<lparr>num_frames = 0, capture_type = CAM_CAPTURE_NORMAL\<rparr>"

text \<open>
  A capture setting keeps the settings that are not \<open>RESET\<close>. The code clears as many bytes of
  \<open>capture_frame_id\<close> as it has elements, a quarter of them.
\<close>

definition capture_setting :: "uint32 \<Rightarrow> frame_config \<Rightarrow> zsl_channel \<Rightarrow> mm_error + zsl_channel" where
  "capture_setting start fc c =
    (let clear = \<lambda>d. d\<lparr>cur_capture_idx := 0, capture_frame_id :=
           replicate 8 0 @ drop 8 (capture_frame_id d)\<rparr>
     in if start \<noteq> 0 then
          (if MAX_CAPTURE_BATCH_NUM < unat (fc_num_batch fc) then Inl OutOfBounds
           else let cs = filter (\<lambda>x. capture_type x \<noteq> CAM_CAPTURE_RESET)
                           (take (unat (fc_num_batch fc)) (fc_configs fc))
                in Inr (c\<lparr>configs := cs @ replicate (MAX_CAPTURE_BATCH_NUM - length cs) zero_settings,
                     sb := clear ((sb c)\<lparr>num_batch := of_nat (length cs), isConfigCapture := True\<rparr>)\<rparr>))
        else Inr (c\<lparr>configs := replicate MAX_CAPTURE_BATCH_NUM zero_settings,
               sb := clear ((sb c)\<lparr>num_batch := 0, isConfigCapture := False\<rparr>)\<rparr>))"

definition flush_all :: "addr \<Rightarrow> thread_world \<Rightarrow> thread_world" where
  "flush_all a = on_mm a (mm_channel_superbuf_flush CAM_STREAM_TYPE_DEFAULT)"

definition bracketing :: "addr \<Rightarrow> uint32 \<Rightarrow> thread_world \<Rightarrow> thread_world" where
  "bracketing a start w =
    on_sb a (\<lambda>c. c\<lparr>bracketingState := (if start \<noteq> 0 then MM_CHANNEL_BRACKETING_STATE_WAIT_GOOD_FRAME_IDX
                                        else MM_CHANNEL_BRACKETING_STATE_OFF)\<rparr>) (flush_all a w)"

fun general_command :: "addr \<Rightarrow> general_cmd \<Rightarrow> thread_world \<Rightarrow> mm_error + thread_world" where
  "general_command a (MM_CAMERA_GENERIC_CMD_TYPE_AE_BRACKETING start) w = Inr (bracketing a start w)"
| "general_command a (MM_CAMERA_GENERIC_CMD_TYPE_AF_BRACKETING start) w = Inr (bracketing a start w)"
| "general_command a (MM_CAMERA_GENERIC_CMD_TYPE_FLASH_BRACKETING start) w =
    Inr (on_sb a (\<lambda>c. c\<lparr>isFlashBracketingEnabled := start \<noteq> 0\<rparr>) (flush_all a w))"
| "general_command a (MM_CAMERA_GENERIC_CMD_TYPE_ZOOM_1X start) w =
    Inr (on_sb a (\<lambda>c. c\<lparr>isZoom1xFrameRequested := start \<noteq> 0\<rparr>) (flush_all a w))"
| "general_command a (MM_CAMERA_GENERIC_CMD_TYPE_CAPTURE_SETTING start fc) w =
    and_then (capture_setting start fc (chans w a)) (\<lambda>c. Inr (on_chan a (\<lambda>_. c) w))"

text \<open>The first part of the function, on all commands but a flush, which ends it.\<close>

fun serve_command :: "alloc_env \<Rightarrow> addr \<Rightarrow> channel_cmd \<Rightarrow> thread_world \<Rightarrow> (mm_error + thread_world) option" where
  "serve_command E a (MM_CAMERA_CMD_TYPE_DATA_CB b) w =
    Some (and_then (mm_channel_superbuf_comp_and_enqueue (intact_mem E) (alloc E (allocs w)) b (mm_of a w))
      (\<lambda>(rc, s). Inr (put_mm a s (w\<lparr>allocs := allocs w + 1\<rparr>))))"
| "serve_command E a (MM_CAMERA_CMD_TYPE_REQ_DATA_CB r) w =
    (let w = on_chan a (request_bufs r) w
     in map_option (\<lambda>s. Inr (put_mm a s w)) (mm_channel_superbuf_skip (mm_of a w)))"
| "serve_command E a MM_CAMERA_CMD_TYPE_START_ZSL w =
    Some (Inr (call_zsl a True (on_chan a (\<lambda>c. c\<lparr>manualZSLSnapshot := True\<rparr>) w)))"
| "serve_command E a MM_CAMERA_CMD_TYPE_STOP_ZSL w =
    Some (Inr (call_zsl a False (on_chan a (\<lambda>c. c\<lparr>manualZSLSnapshot := False\<rparr>) w)))"
| "serve_command E a (MM_CAMERA_CMD_TYPE_CONFIG_NOTIFY m) w =
    Some (Inr (on_sb a (on_queue (\<lambda>q. q\<lparr>attr := (attr q)\<lparr>notify_mode := m\<rparr>\<rparr>)) w))"
| "serve_command E a (MM_CAMERA_CMD_TYPE_FLUSH_QUEUE f t) w =
    Some (Inr (on_mm a (mm_channel_superbuf_flush t) (on_sb a (set_expected f) w)))"
| "serve_command E a (MM_CAMERA_CMD_TYPE_GENERAL g) w = Some (general_command a g w)"

section \<open>Snapshots without shutter lag\<close>

text \<open>
  Whether the remaining capture settings let the snapshot start: a flash or low light one
  waits until the metadata have asked for it.
\<close>

definition need_start_zsl :: "zsl_channel \<Rightarrow> bool" where
  "need_start_zsl c \<longleftrightarrow> 0 < pending_cnt c \<and> isConfigCapture (sb c) \<and> \<not> manualZSLSnapshot c
     \<and> \<not> startZSlSnapshotCalled (sb c)
     \<and> (\<forall>i \<in> set [unat (cur_capture_idx (sb c)) ..< unat (num_batch (sb c))].
          \<not> (capture_type (configs c ! i) = CAM_CAPTURE_FLASH \<and> \<not> needLEDFlash (sb c)
             \<or> capture_type (configs c ! i) = CAM_CAPTURE_LOW_LIGHT \<and> \<not> needLowLightZSL (sb c)))"

definition future_captures :: "mm_channel \<Rightarrow> mm_channel" where
  "future_captures c =
    c\<lparr>capture_frame_id := fold (\<lambda>i ids. ids[i := expected_frame_id (queue c) + MM_CAMERA_MAX_FUTURE_FRAME_WAIT])
        [unat (cur_capture_idx c) ..< unat (num_batch c)] (capture_frame_id c)\<rparr>"

definition zsl_started :: "addr \<Rightarrow> thread_world \<Rightarrow> thread_world" where
  "zsl_started a w =
    (let w = call_zsl a True w; n = pending_cnt (chans w a)
     in on_sb a (\<lambda>c. c\<lparr>startZSlSnapshotCalled := True, burstSnapNum := n,
                        bWaitForPrepSnapshotDone := False\<rparr>) w)"

definition zsl_stopped :: "addr \<Rightarrow> thread_world \<Rightarrow> thread_world" where
  "zsl_stopped a w =
    on_chan a (\<lambda>c. c\<lparr>unLockAEC := True,
      sb := (sb c)\<lparr>startZSlSnapshotCalled := False, needLEDFlash := False, burstSnapNum := 0,
        stopZslSnapshot := False, bracketingState := MM_CHANNEL_BRACKETING_STATE_OFF,
        isConfigCapture := False\<rparr>\<rparr>) (call_zsl a False w)"

definition update_zsl :: "addr \<Rightarrow> thread_world \<Rightarrow> thread_world" where
  "update_zsl a w =
    (let c = chans w a
     in if isConfigCapture (sb c) \<and> need_start_zsl c
        then zsl_started a (flush_all a (on_sb a future_captures w))
        else if 0 < pending_cnt c
          \<and> (needLEDFlash (sb c) \<or> bracketingState (sb c) \<noteq> MM_CHANNEL_BRACKETING_STATE_OFF)
          \<and> \<not> manualZSLSnapshot c \<and> \<not> startZSlSnapshotCalled (sb c)
        then zsl_started a w
        else if (pending_cnt c = 0 \<or> stopZslSnapshot (sb c)) \<and> \<not> manualZSLSnapshot c
          \<and> startZSlSnapshotCalled (sb c)
        then on_sb a (\<lambda>c. c\<lparr>bWaitForPrepSnapshotDone := False\<rparr>) (zsl_stopped a w)
        else w)"

section \<open>Handing superbufs out\<close>

text \<open>
  The superbufs of a matched frame, from the queues of the synchronised channels; if not every
  camera has one, they are handed back.
\<close>

fun take_frames :: "uint32 \<Rightarrow> addr option list \<Rightarrow> thread_world \<Rightarrow>
    (addr \<times> mm_channel_queue_node) list \<times> thread_world" where
  "take_frames f [] w = ([], w)"
| "take_frames f (None # as) w = take_frames f as w"
| "take_frames f (Some a # as) w =
    (case mm_channel_superbuf_dequeue_frame_internal f (queue (sb (chans w a))) of
       (None, q) \<Rightarrow> take_frames f as w
     | (Some n, q) \<Rightarrow>
         (case take_frames f as (on_sb a (on_queue (\<lambda>_. q)) w) of (ns, w) \<Rightarrow> ((a, n) # ns, w)))"

definition give_back :: "addr \<Rightarrow> mm_channel_queue_node \<Rightarrow> thread_world \<Rightarrow> mm_error + thread_world" where
  "give_back a n w = and_then (mm_channel_node_qbuf n (mm_of a w)) (\<lambda>s. Inr (put_mm a s w))"

fun give_all_back :: "(addr \<times> mm_channel_queue_node) list \<Rightarrow> thread_world \<Rightarrow> mm_error + thread_world" where
  "give_all_back [] w = Inr w"
| "give_all_back ((a, n) # ns) w = and_then (give_back a n w) (give_all_back ns)"

definition dequeue_synced :: "thread_world \<Rightarrow> mm_error + ((addr \<times> mm_channel_queue_node) list \<times> thread_world)" where
  "dequeue_synced w =
    (let f = mm_frame_sync_find_matched False (fs (mm w))
     in if f = 0 then Inr ([], w)
        else case take_frames f (ch_obj (fs (mm w))) w of
          (ns, w) \<Rightarrow>
            let w = w\<lparr>mm := (mm w)\<lparr>fs := snd (mm_frame_sync_remove f (fs (mm w)))\<rparr>\<rparr>
            in if of_nat (length ns) \<noteq> num_cam (fs (mm w))
               then and_then (give_all_back ns w) (\<lambda>w. Inr ([], w))
               else Inr (ns, w))"

text \<open>While captures are configured, a superbuf older than the frame expected is handed back.\<close>

definition dequeue_own :: "addr \<Rightarrow> thread_world \<Rightarrow> mm_error + ((addr \<times> mm_channel_queue_node) list \<times> thread_world)" where
  "dequeue_own a w =
    (case mm_channel_superbuf_dequeue (mm_of a w) of
       (None, s) \<Rightarrow> Inr ([], put_mm a s w)
     | (Some n, s) \<Rightarrow>
         let w = put_mm a s w; c = sb (chans w a); k = unat (cur_capture_idx c)
         in if isConfigCapture c \<and> length (capture_frame_id c) \<le> k then Inl OutOfBounds
            else if isConfigCapture c \<and> frame_idx n < capture_frame_id c ! k
            then and_then (give_back a n w) (\<lambda>w. Inr ([], w))
            else Inr ([(a, n)], w))"

text \<open>The bookkeeping for a superbuf that was requested.\<close>

definition count_pending :: "zsl_channel \<Rightarrow> zsl_channel" where
  "count_pending c =
    (let c = c\<lparr>pending_cnt := pending_cnt c - 1\<rparr>
     in if 0 < pending_retro_cnt c
        then c\<lparr>sb := (if pending_retro_cnt c = 1 then (sb c)\<lparr>bWaitForPrepSnapshotDone := True\<rparr> else sb c),
               pending_retro_cnt := pending_retro_cnt c - 1\<rparr>
        else c)"

definition count_capture :: "zsl_channel \<Rightarrow> mm_error + zsl_channel" where
  "count_capture c =
    (let k = unat (cur_capture_idx (sb c))
     in if \<not> isConfigCapture (sb c) then Inr c
        else if length (configs c) \<le> k then Inl OutOfBounds
        else
          let n = num_frames (configs c ! k);
              n' = (if n \<noteq> 0 then n - 1 else n);
              c = c\<lparr>configs := (configs c)[k := (configs c ! k)\<lparr>num_frames := n'\<rparr>]\<rparr>
          in if n' \<noteq> 0 then Inr c
             else
               let i = cur_capture_idx (sb c) + 1
               in if length (capture_frame_id (sb c)) \<le> unat i then Inl OutOfBounds
                  else let f = capture_frame_id (sb c) ! unat i
                       in Inr (c\<lparr>sb := on_queue (\<lambda>q. q\<lparr>expected_frame_id := f, good_frame_id := f\<rparr>)
                                 ((sb c)\<lparr>cur_capture_idx := i\<rparr>)\<rparr>))"

definition count_superbuf :: "addr \<Rightarrow> thread_world \<Rightarrow> mm_error + thread_world" where
  "count_superbuf a w =
    (let w = on_chan a count_pending w; c = chans w a;
         w = (if (pending_cnt c = 0 \<or> stopZslSnapshot (sb c)) \<and> \<not> manualZSLSnapshot c
                \<and> startZSlSnapshotCalled (sb c) then zsl_stopped a w else w)
     in and_then (count_capture (chans w a)) (\<lambda>c. Inr (on_chan a (\<lambda>_. c) w)))"

text \<open>\<open>mm_channel_send_super_buf\<close>.\<close>

fun mm_channel_send_super_buf ::
  "alloc_env \<Rightarrow> (addr \<times> mm_channel_queue_node) list \<Rightarrow> thread_world \<Rightarrow> mm_error + thread_world" where
  "mm_channel_send_super_buf E [] w = Inr w"
| "mm_channel_send_super_buf E ((a, n) # ns) w =
    (if super_buf_notify_cb (chans w a)
     then if alloc E (allocs w)
          then let msg = \<lparr>msg_ch = a, msg_bufs = List.map (map_option buf) (node_slots n),
                     bUnlockAEC = unLockAEC (chans w a),
                     bReadyForPrepareSnapshot = bWaitForPrepSnapshotDone (sb (chans w a))\<rparr>
               in mm_channel_send_super_buf E ns (on_chan a (\<lambda>c. c\<lparr>unLockAEC := False\<rparr>)
                    (w\<lparr>allocs := allocs w + 1, sent := sent w @ [msg]\<rparr>))
          else and_then (give_back a n (w\<lparr>allocs := allocs w + 1\<rparr>)) (mm_channel_send_super_buf E ns)
     else and_then (give_back a n w) (mm_channel_send_super_buf E ns))"

text \<open>
  A turn of the loop that hands superbufs out, and whether it goes on; the loop tests the
  notification mode it has read before it.
\<close>

definition may_dispatch :: "notify_mode \<Rightarrow> zsl_channel \<Rightarrow> bool" where
  "may_dispatch m c \<longleftrightarrow> (0 < pending_cnt c \<or> m = MM_CAMERA_SUPER_BUF_NOTIFY_CONTINUOUS)
     \<and> \<not> bWaitForPrepSnapshotDone (sb c)"

definition dispatch_turn ::
  "alloc_env \<Rightarrow> addr \<Rightarrow> notify_mode \<Rightarrow> thread_world \<Rightarrow> mm_error + (bool \<times> thread_world)" where
  "dispatch_turn E a m w =
    and_then (if req_type (chans w a) = MM_CAMERA_REQ_FRAME_SYNC_BUF then dequeue_synced w
              else dequeue_own a w) (\<lambda>(ns, w).
      if ns = [] then Inr (False, w)
      else and_then (if m = MM_CAMERA_SUPER_BUF_NOTIFY_BURST then count_superbuf a w else Inr w) (\<lambda>w.
           and_then (mm_channel_send_super_buf E ns w) (\<lambda>w. Inr (True, w))))"

partial_function (option) dispatch_loop ::
  "alloc_env \<Rightarrow> addr \<Rightarrow> notify_mode \<Rightarrow> thread_world \<Rightarrow> (mm_error + thread_world) option" where
  "dispatch_loop E a m w =
    (if may_dispatch m (chans w a)
     then (case dispatch_turn E a m w of
             Inl e \<Rightarrow> Some (Inl e)
           | Inr p \<Rightarrow> (if fst p then dispatch_loop E a m (snd p) else Some (Inr (snd p))))
     else Some (Inr w))"

section \<open>The thread\<close>

text \<open>\<open>None\<close>: it does not return.\<close>

definition after_command ::
  "alloc_env \<Rightarrow> addr \<Rightarrow> thread_world \<Rightarrow> (mm_error + thread_world) option" where
  "after_command E a w =
    (let m = notify_mode (attr (queue (sb (chans w a)))); w = update_zsl a w
     in case mm_channel_superbuf_bufdone_overflow (mm_of a w) of
          None \<Rightarrow> None
        | Some s \<Rightarrow> dispatch_loop E a m (put_mm a s w))"

definition mm_channel_process_stream_buf ::
  "alloc_env \<Rightarrow> addr \<Rightarrow> channel_cmd \<Rightarrow> thread_world \<Rightarrow> (mm_error + thread_world) option" where
  "mm_channel_process_stream_buf E a cmd w =
    (case serve_command E a cmd w of
       None \<Rightarrow> None
     | Some (Inl e) \<Rightarrow> Some (Inl e)
     | Some (Inr w) \<Rightarrow>
         (case cmd of
            MM_CAMERA_CMD_TYPE_FLUSH_QUEUE f t \<Rightarrow> Some (Inr w)
          | _ \<Rightarrow> after_command E a w))"

text \<open>
  The commands the threads of the channels serve, in the order they do; a command is one step,
  in which its thread works alone.
\<close>

fun process_cmds ::
  "alloc_env \<Rightarrow> (addr \<times> channel_cmd) list \<Rightarrow> thread_world \<Rightarrow> (mm_error + thread_world) option" where
  "process_cmds E [] w = Some (Inr w)"
| "process_cmds E ((a, cmd) # cmds) w =
    (case mm_channel_process_stream_buf E a cmd w of
       None \<Rightarrow> None
     | Some (Inl e) \<Rightarrow> Some (Inl e)
     | Some (Inr w) \<Rightarrow> process_cmds E cmds w)"

end
