(* ===== verification/SuperbufThreadInvariants.thy ===== *)
theory SuperbufThreadInvariants
  imports SuperbufThread
begin

text \<open>
  The command thread keeps the buffers and the order of the queues of its channels: what each
  part of \<open>mm_channel_process_stream_buf\<close> does to the superbufs, and that its loop ends.
\<close>

section \<open>What the superbuf queue leaves alone\<close>

text \<open>The registered channels, the notification mode, and the flag of a started snapshot.\<close>

abbreviation mode_of :: "mm_channel \<Rightarrow> notify_mode" where
  "mode_of c \<equiv> notify_mode (attr (queue c))"

definition synced :: "mm_state \<Rightarrow> mm_state \<Rightarrow> bool" where
  "synced s t \<longleftrightarrow> ch_obj (fs (snd t)) = ch_obj (fs (snd s)) \<and> mode_of (fst t) = mode_of (fst s)
     \<and> startZSlSnapshotCalled (fst t) = startZSlSnapshotCalled (fst s)"

lemma synced_refl [simp]: "synced s s"
  by (simp add: synced_def)

lemma synced_trans: "synced s t \<Longrightarrow> synced t u \<Longrightarrow> synced s u"
  by (simp add: synced_def)

lemma frame_sync_channels [simp]:
  "ch_obj (snd (mm_frame_sync_add f a x)) = ch_obj x"
  "ch_obj (snd (mm_frame_sync_remove f x)) = ch_obj x"
  by (auto simp: mm_frame_sync_add_def mm_frame_sync_remove_def on_sync_node_def Let_def
      split: option.split)

lemma synced_steps [simp]:
  "synced s (mm_channel_qbuf b t) = synced s t" "synced s (qbufs bs t) = synced s t"
  "synced s (on_fs (mm_frame_sync_add n a) t) = synced s t"
  "synced s (on_fs (mm_frame_sync_remove n) t) = synced s t"
  by (auto simp: synced_def on_fs_def split: prod.split)

lemma synced_on_channel [simp]: "mode_of (f (fst t)) = mode_of (fst t) \<Longrightarrow>
    startZSlSnapshotCalled (f (fst t)) = startZSlSnapshotCalled (fst t) \<Longrightarrow> synced s (on_channel f t) = synced s t"
  by (simp add: synced_def)

lemma mode_of_simps [simp]:
  "mode_of (set_expected f c) = mode_of c" "mode_of (expect_future c) = mode_of c"
  "mode_of (meta_divert md frame c) = mode_of c" "mode_of (meta_flash_bracketing md c) = mode_of c"
  "mode_of (meta_led_burst frame c) = mode_of c" "mode_of (meta_low_light md c) = mode_of c"
  "mode_of (meta_user_expected md frame c) = mode_of c" "mode_of (expect_after_match f c) = mode_of c"
  "startZSlSnapshotCalled (set_expected f c) = startZSlSnapshotCalled c"
  "startZSlSnapshotCalled (expect_future c) = startZSlSnapshotCalled c"
  "startZSlSnapshotCalled (meta_divert md frame c) = startZSlSnapshotCalled c"
  "startZSlSnapshotCalled (meta_flash_bracketing md c) = startZSlSnapshotCalled c"
  "startZSlSnapshotCalled (meta_led_burst frame c) = startZSlSnapshotCalled c"
  "startZSlSnapshotCalled (meta_low_light md c) = startZSlSnapshotCalled c"
  "startZSlSnapshotCalled (meta_user_expected md frame c) = startZSlSnapshotCalled c"
  "startZSlSnapshotCalled (expect_after_match f c) = startZSlSnapshotCalled c"
  "startZSlSnapshotCalled (on_queue g c) = startZSlSnapshotCalled c"
  by (auto simp: set_expected_def expect_future_def meta_divert_def led_range_def
      meta_flash_bracketing_def meta_led_burst_def meta_low_light_def meta_user_expected_def
      expect_after_match_def Let_def on_queue_def split: option.splits)

lemma node_at_attr [simp]: "attr (node_at k n q) = attr q"
  by (simp add: node_at_def)

lemma mode_of_config: "meta_config_capture md c = Inr d \<Longrightarrow>
    mode_of d = mode_of c \<and> startZSlSnapshotCalled d = startZSlSnapshotCalled c"
  by (auto simp: meta_config_capture_def Let_def on_queue_def split: option.splits if_splits)

lemma synced_dequeue:
  "mm_channel_superbuf_dequeue_internal mo s = (r, t) \<Longrightarrow> synced s t"
  by (auto simp: mm_channel_superbuf_dequeue_internal_def synced_def on_fs_def Let_def
      split: list.splits if_splits prod.splits)

lemma synced_flush_turns: "synced s (flush_turns mo ret k s)"
proof (induction k arbitrary: s)
  case (Suc k)
  obtain r t where r: "mm_channel_superbuf_dequeue_internal mo s = (r, t)"
    by (cases "mm_channel_superbuf_dequeue_internal mo s")
  show ?case
  proof (cases r)
    case (Some n)
    then show ?thesis
      using synced_trans [OF synced_dequeue [OF r], of "flush_turns mo ret k (qbufs (filter ret (node_bufs n)) t)"]
        Suc.IH [of "qbufs (filter ret (node_bufs n)) t"] r by (auto simp: synced_def)
  qed (use synced_dequeue [OF r] r in simp)
qed simp

lemma synced_flush [simp]:
  "synced s (mm_channel_superbuf_flush t u) = synced s u"
  "synced s (mm_channel_superbuf_flush_matched u) = synced s u"
  using synced_flush_turns unfolding mm_channel_superbuf_flush_def mm_channel_superbuf_flush_matched_def
  by (auto simp: synced_def simp del: flush_turns.simps)

lemma synced_reduce: "reduce_loop limit s = Some t \<Longrightarrow> synced s t"
proof (rule reduce_loop.raw_induct)
  fix loop limit s t
  assume 1: "\<And>limit s t. loop limit s = Some t \<Longrightarrow> synced s t"
    "(if ucast limit < match_cnt (queue (fst s))
      then case mm_channel_superbuf_dequeue_internal True s of
             (None, s') \<Rightarrow> loop limit s'
           | (Some n, s') \<Rightarrow> loop limit (qbufs (node_bufs n) s')
      else Some s) = Some t"
  obtain r u where r: "mm_channel_superbuf_dequeue_internal True s = (r, u)"
    by (cases "mm_channel_superbuf_dequeue_internal True s")
  show "synced s t"
    using 1(2) r 1(1) [of limit u t] 1(1) [of limit _ t] synced_dequeue [OF r]
    by (cases r) (fastforce simp: synced_def split: if_splits)+
qed

lemma synced_metadata:
  assumes "handle_metadata_of md f s = Inr t"
  shows "synced s t"
proof -
  have zoom: "synced s (meta_zoom_1x x f (on_channel (meta_divert md f) s))" for x
    by (simp add: meta_zoom_1x_def)
  have good: "synced s (meta_good_frame md (meta_prep_snapshot md (on_channel (meta_divert md f) s)))"
    by (simp add: meta_good_frame_def meta_prep_snapshot_def led_range_def Let_def split: option.split)
  have pair: "synced s (c, snd u) = synced s u" if "mode_of c = mode_of (fst u)"
      "startZSlSnapshotCalled c = startZSlSnapshotCalled (fst u)" for c u
    using that by (simp add: synced_def)
  show ?thesis
    using assms
    by (auto simp: handle_metadata_of_def and_then_def Let_def zoom good pair dest: mode_of_config
        split: sum.splits if_splits)
qed

lemma synced_handle_metadata:
  "mm_channel_handle_metadata b s = Inr (ok, t) \<Longrightarrow> synced s t"
  by (auto simp: mm_channel_handle_metadata_def and_then_def dest: synced_metadata
      split: option.splits if_splits sum.splits)

lemma synced_match_and_put:
  "match_and_put intact mem slot b s = Inr t \<Longrightarrow> synced s t"
proof -
  have release: "synced s (release_older l k u) = synced s u" for l k u
    by (auto simp: release_older_def Let_def split: option.split)
  have found: "synced s (put_into_found slot b k sc s)" for k sc
    by (simp add: put_into_found_def Let_def release)
  have new: "synced s (enqueue_new slot b x u)" if "synced s u" for x u
    using that by (simp add: enqueue_new_def Let_def)
  have drop: "synced s (drop_node d u) = synced s u" for d u
    by (simp add: drop_node_def)
  have "put_into_new intact mem slot b sc s = Inr t \<Longrightarrow> synced s t" for sc
    by (auto simp: put_into_new_def Let_def and_then_def drop new split: if_splits sum.splits option.splits)
  then show "match_and_put intact mem slot b s = Inr t \<Longrightarrow> synced s t"
    by (auto simp: match_and_put_def Let_def found split: prod.splits option.splits)
qed

lemma synced_enqueue:
  assumes "mm_channel_superbuf_comp_and_enqueue intact mem b s = Inr (rc, t)"
  shows "synced s t"
proof (cases "mm_channel_handle_metadata b s")
  case (Inr p)
  obtain ok u where p: "p = (ok, u)"
    by (cases p)
  have u: "synced s u"
    using synced_handle_metadata Inr p by simp
  have "synced s v" if "match_and_put intact mem slot b u = Inr v" for v slot
    using synced_trans [OF u synced_match_and_put [OF that]] .
  then show ?thesis
    using assms Inr p u
    by (auto simp: mm_channel_superbuf_comp_and_enqueue_def and_then_def Let_def
        split: option.splits if_splits sum.splits)
qed (use assms in \<open>auto simp: mm_channel_superbuf_comp_and_enqueue_def Let_def
      split: option.splits if_splits\<close>)

section \<open>The superbufs of several channels\<close>

definition chan_ok :: "mm_channel_queue \<Rightarrow> bool" where
  "chan_ok q \<longleftrightarrow> wf_queue q \<and> tidy q \<and> bounded q"

definition msg_content :: "super_buf_msg \<Rightarrow> mm_camera_buf_def list" where
  "msg_content m = List.map the (filter (\<lambda>b. b \<noteq> None) (msg_bufs m))"

text \<open>The buffers in the queues of the channels, those handed back and those sent.\<close>

definition sent_bufs :: "super_buf_msg list \<Rightarrow> mm_camera_buf_def multiset" where
  "sent_bufs ms = mset (concat (List.map msg_content ms))"

definition pool :: "addr set \<Rightarrow> thread_world \<Rightarrow> mm_camera_buf_def multiset" where
  "pool A w = (\<Sum>a\<in>A. queued_bufs (queue (sb (chans w a)))) + returned_bufs (mm w) + sent_bufs (sent w)"

definition thread_ok :: "addr set \<Rightarrow> thread_world \<Rightarrow> bool" where
  "thread_ok A w \<longleftrightarrow> finite A \<and> (\<forall>a. Some a \<in> set (ch_obj (fs (mm w))) \<longrightarrow> a \<in> A)
     \<and> (\<forall>a\<in>A. chan_ok (queue (sb (chans w a))))"

text \<open>A step that takes in the buffers \<open>B\<close>, and the setup of the channels it keeps.\<close>

definition setups :: "addr set \<Rightarrow> thread_world \<Rightarrow> thread_world \<Rightarrow> bool" where
  "setups A w w' \<longleftrightarrow> (\<forall>a\<in>A. same_setup (queue (sb (chans w a))) (queue (sb (chans w' a))))"

definition moves :: "addr set \<Rightarrow> mm_camera_buf_def multiset \<Rightarrow> thread_world \<Rightarrow> thread_world \<Rightarrow> bool" where
  "moves A B w w' \<longleftrightarrow> thread_ok A w' \<and> setups A w w' \<and> pool A w' = pool A w + B"

lemma moves_refl [simp]: "moves A {#} w w = thread_ok A w"
  by (simp add: moves_def setups_def)

lemma moves_ok: "moves A B w w' \<Longrightarrow> thread_ok A w'"
  by (simp add: moves_def)

lemma moves_trans: "moves A B u v \<Longrightarrow> moves A C v w \<Longrightarrow> moves A (B + C) u w"
  by (simp add: moves_def setups_def same_setup_def ac_simps)

lemma moves_quiet: "moves A {#} u v \<Longrightarrow> moves A B v w \<Longrightarrow> moves A B u w"
  using moves_trans [of A "{#}" u v B w] by simp

lemma put_mm_simps [simp]:
  "mm (put_mm a s w) = snd s" "sent (put_mm a s w) = sent w" "zsl_calls (put_mm a s w) = zsl_calls w"
  "allocs (put_mm a s w) = allocs w" "chans (put_mm a s w) = (chans w)(a := (chans w a)\<lparr>sb := fst s\<rparr>)"
  "mm_of a (put_mm a s w) = s" "put_mm a (mm_of a w) w = w"
  by (simp_all add: put_mm_def on_chan_def mm_of_def)

lemma mm_of_simps [simp]: "fst (mm_of a w) = sb (chans w a)" "snd (mm_of a w) = mm w"
  by (simp_all add: mm_of_def)

lemma on_chan_simps [simp]:
  "mm (on_chan a f w) = mm w" "sent (on_chan a f w) = sent w" "zsl_calls (on_chan a f w) = zsl_calls w"
  "allocs (on_chan a f w) = allocs w" "chans (on_chan a f w) = (chans w)(a := f (chans w a))"
  by (simp_all add: on_chan_def)

lemma pool_put:
  assumes "finite A" and "a \<in> A"
  shows "pool A (put_mm a t w) + held (mm_of a w) = pool A w + held t"
proof -
  have "(\<Sum>x\<in>A. queued_bufs (queue (sb (chans (put_mm a t w) x)))) + queued_bufs (queue (sb (chans w a)))
      = (\<Sum>x\<in>A. queued_bufs (queue (sb (chans w x)))) + queued_bufs (queue (fst t))"
    using sum.remove [OF assms, of "\<lambda>x. queued_bufs (queue (sb (chans (put_mm a t w) x)))"]
      sum.remove [OF assms, of "\<lambda>x. queued_bufs (queue (sb (chans w x)))"]
      sum.cong [of "A - {a}" "A - {a}" "\<lambda>x. queued_bufs (queue (sb (chans (put_mm a t w) x)))"
        "\<lambda>x. queued_bufs (queue (sb (chans w x)))"]
    by (simp add: ac_simps)
  then show ?thesis
    by (simp add: pool_def held_def ac_simps)
qed

text \<open>A step of the superbuf queue of one channel.\<close>

lemma put_moves:
  assumes "thread_ok A w" and "a \<in> A" and "chan_ok (queue (fst t))"
    and "held t = held (mm_of a w) + B" and "synced (mm_of a w) t"
    and "same_setup (queue (sb (chans w a))) (queue (fst t))"
  shows "moves A B w (put_mm a t w)"
proof -
  have "pool A (put_mm a t w) + held (mm_of a w) = (pool A w + B) + held (mm_of a w)"
    using pool_put [of A a t w] assms(1,2,4) by (simp add: thread_ok_def ac_simps)
  then have "pool A (put_mm a t w) = pool A w + B"
    by simp
  then show ?thesis
    using assms by (auto simp: moves_def thread_ok_def setups_def synced_def)
qed

lemma safe_put_moves:
  assumes "thread_ok A w" and "a \<in> A" and "safe_step (mm_of a w) t" and "synced (mm_of a w) t"
  shows "moves A {#} w (put_mm a t w)"
proof (rule put_moves [OF assms(1,2) _ _ assms(4)])
  have ok: "chan_ok (queue (sb (chans w a)))"
    using assms(1,2) by (simp add: thread_ok_def)
  then show "chan_ok (queue (fst t))"
    using assms(3) trims_bounded [of "mm_of a w" t] by (auto simp: chan_ok_def safe_step_def trims_def)
  show "held t = held (mm_of a w) + {#}" "same_setup (queue (sb (chans w a))) (queue (fst t))"
    using assms(3) trims_setup [of "mm_of a w" t] by (simp_all add: safe_step_def)
qed

text \<open>A change of a channel that leaves the superbufs alone.\<close>

definition same_superbufs :: "mm_channel \<Rightarrow> mm_channel \<Rightarrow> bool" where
  "same_superbufs c d \<longleftrightarrow> shape (queue d) = shape (queue c)"

lemma same_superbufs_refl [simp]: "same_superbufs c c"
  by (simp add: same_superbufs_def)

lemma shape_ok:
  assumes "shape q = shape r"
  shows "chan_ok q = chan_ok r" "queued_bufs q = queued_bufs r" "same_setup q r"
  using assms by (simp_all add: shape_def chan_ok_def wf_queue_def tidy_def bounded_def
      unmatched_count_def queued_bufs_def same_setup_def)

lemma same_superbufs_moves:
  assumes "thread_ok A w" and "\<And>x. same_superbufs (sb (chans w x)) (sb (chans w' x))"
    and "mm w' = mm w" and "sent w' = sent w"
  shows "moves A {#} w w'"
proof -
  have q: "chan_ok (queue (sb (chans w' x))) = chan_ok (queue (sb (chans w x)))"
    "queued_bufs (queue (sb (chans w' x))) = queued_bufs (queue (sb (chans w x)))"
    "same_setup (queue (sb (chans w x))) (queue (sb (chans w' x)))" for x
    using shape_ok [of "queue (sb (chans w' x))" "queue (sb (chans w x))"]
      shape_ok(3) [of "queue (sb (chans w x))" "queue (sb (chans w' x))"] assms(2) [of x]
    by (simp_all add: same_superbufs_def)
  then show ?thesis
    using assms(1,3,4) by (simp add: moves_def thread_ok_def setups_def pool_def)
qed

lemma on_chan_moves:
  "thread_ok A w \<Longrightarrow> same_superbufs (sb (chans w a)) (sb (f (chans w a))) \<Longrightarrow> moves A {#} w (on_chan a f w)"
  by (rule same_superbufs_moves) auto

section \<open>Commands\<close>

text \<open>The commands that lose no buffer, and the buffer a command brings.\<close>

fun lossless_cmd :: "mm_channel_queue \<Rightarrow> channel_cmd \<Rightarrow> bool" where
  "lossless_cmd q (MM_CAMERA_CMD_TYPE_DATA_CB b) = is_bundled (stream_id b) q"
| "lossless_cmd q (MM_CAMERA_CMD_TYPE_FLUSH_QUEUE f t) = (t = CAM_STREAM_TYPE_DEFAULT)"
| "lossless_cmd q _ = True"

fun brought :: "channel_cmd \<Rightarrow> mm_camera_buf_def multiset" where
  "brought (MM_CAMERA_CMD_TYPE_DATA_CB b) = {#buf b#}"
| "brought _ = {#}"

lemma lossless_cmd_setup: "same_setup q r \<Longrightarrow> lossless_cmd r cmd = lossless_cmd q cmd"
  by (cases cmd) (simp_all add: same_setup_def is_bundled_def)

lemma shape_attr [simp]:
  "shape (q\<lparr>attr := (attr q)\<lparr>notify_mode := m\<rparr>\<rparr>) = shape q"
  "shape (expected_frame_id_update f q) = shape q" "shape (good_frame_id_update f q) = shape q"
  by (simp_all add: shape_def)

lemma on_sb_moves:
  "thread_ok A w \<Longrightarrow> same_superbufs (sb (chans w a)) (f (sb (chans w a))) \<Longrightarrow> moves A {#} w (on_sb a f w)"
  unfolding on_sb_def by (rule on_chan_moves) simp_all

lemma on_mm_moves:
  "thread_ok A w \<Longrightarrow> a \<in> A \<Longrightarrow> safe_step (mm_of a w) (f (mm_of a w)) \<Longrightarrow> synced (mm_of a w) (f (mm_of a w)) \<Longrightarrow>
    moves A {#} w (on_mm a f w)"
  unfolding on_mm_def by (rule safe_put_moves)

lemma flush_all_moves: "thread_ok A w \<Longrightarrow> a \<in> A \<Longrightarrow> moves A {#} w (flush_all a w)"
  unfolding flush_all_def by (rule on_mm_moves) (simp_all add: safe_step_flush)

lemma flush_then_moves:
  assumes "thread_ok A w" and "a \<in> A" and "\<And>c. same_superbufs c (f c)"
  shows "moves A {#} w (on_sb a f (flush_all a w))"
proof -
  have "moves A {#} w (flush_all a w)"
    using flush_all_moves [OF assms(1,2)] .
  from moves_quiet [OF this on_sb_moves [OF moves_ok [OF this]]] show ?thesis
    using assms(3) by blast
qed

lemma general_moves:
  assumes "general_command a g w = Inr w'" and "thread_ok A w" and "a \<in> A"
  shows "moves A {#} w w'"
proof -
  have capture: "same_superbufs (sb c) (sb d)" if "capture_setting start fc c = Inr d" for start fc c d
    using that by (auto simp: capture_setting_def same_superbufs_def Let_def split: if_splits)
  have "moves A {#} w (on_chan a (\<lambda>_. d) w)" if "capture_setting start fc (chans w a) = Inr d" for start fc d
    using on_chan_moves [OF assms(2), of a "\<lambda>_. d"] capture [OF that] by simp
  moreover have "moves A {#} w (bracketing a start w)" for start
    unfolding bracketing_def
    by (rule flush_then_moves [OF assms(2,3)]) (simp add: same_superbufs_def)
  moreover have "moves A {#} w (on_sb a (\<lambda>c. c\<lparr>isFlashBracketingEnabled := b\<rparr>) (flush_all a w))"
    "moves A {#} w (on_sb a (\<lambda>c. c\<lparr>isZoom1xFrameRequested := b\<rparr>) (flush_all a w))" for b
    by (rule flush_then_moves [OF assms(2,3)], simp add: same_superbufs_def)+
  ultimately show ?thesis
    using assms(1) by (cases g) (auto simp: and_then_def split: sum.splits)
qed

lemma request_same: "same_superbufs (sb c) (sb (request_bufs r c))"
  by (simp add: request_bufs_def same_superbufs_def Let_def)

lemma allocs_moves [simp]:
  "moves A B w (w'\<lparr>allocs := n\<rparr>) = moves A B w w'" "moves A B (w\<lparr>allocs := n\<rparr>) w' = moves A B w w'"
  "moves A B w (w'\<lparr>zsl_calls := zs\<rparr>) = moves A B w w'"
  "thread_ok A (w\<lparr>allocs := n\<rparr>) = thread_ok A w" "mm_of a (w\<lparr>allocs := n\<rparr>) = mm_of a w"
  "thread_ok A (w\<lparr>zsl_calls := zs\<rparr>) = thread_ok A w"
  by (simp_all add: moves_def thread_ok_def setups_def pool_def mm_of_def)

lemma put_mm_allocs [simp]: "put_mm a s (w\<lparr>allocs := n\<rparr>) = (put_mm a s w)\<lparr>allocs := n\<rparr>"
  by (simp add: put_mm_def on_chan_def)

lemma call_zsl_moves [simp]: "moves A B w (call_zsl a b w') = moves A B w w'"
    "chans (call_zsl a b w) = chans w" "thread_ok A (call_zsl a b w) = thread_ok A w"
    "sent (call_zsl a b w) = sent w" "mm (call_zsl a b w) = mm w"
  by (simp_all add: call_zsl_def)

lemma reduce_moves:
  assumes "reduce_loop limit (mm_of a w) = Some s" and "thread_ok A w" and "a \<in> A"
  shows "moves A {#} w (put_mm a s w)"
  by (rule safe_put_moves [OF assms(2,3)])
    (use reduce_keeps [OF assms(1)] synced_reduce [OF assms(1)] in \<open>simp_all add: safe_step_def\<close>)

lemma reduce_returns:
  assumes "thread_ok A w" and "a \<in> A"
  obtains s where "reduce_loop limit (mm_of a w) = Some s" "moves A {#} w (put_mm a s w)"
proof -
  have "tidy (queue (fst (mm_of a w)))"
    using assms by (simp add: thread_ok_def chan_ok_def)
  then show ?thesis
    using reduce_loop_ends [of "mm_of a w" limit] reduce_moves [OF _ assms] that by blast
qed

lemma skip_overflow_return:
  assumes "thread_ok A w" and "a \<in> A"
  shows "\<exists>s. mm_channel_superbuf_skip (mm_of a w) = Some s \<and> moves A {#} w (put_mm a s w)"
    "\<exists>s. mm_channel_superbuf_bufdone_overflow (mm_of a w) = Some s \<and> moves A {#} w (put_mm a s w)"
proof -
  obtain s where "reduce_loop (look_back (attr (queue (fst (mm_of a w))))) (mm_of a w) = Some s"
      "moves A {#} w (put_mm a s w)"
    by (rule reduce_returns [OF assms])
  then show "\<exists>s. mm_channel_superbuf_skip (mm_of a w) = Some s \<and> moves A {#} w (put_mm a s w)"
    unfolding mm_channel_superbuf_skip_def using assms(1) put_mm_simps(7) by (metis moves_refl)
  obtain s where "reduce_loop (water_mark (attr (queue (fst (mm_of a w))))) (mm_of a w) = Some s"
      "moves A {#} w (put_mm a s w)"
    by (rule reduce_returns [OF assms])
  then show "\<exists>s. mm_channel_superbuf_bufdone_overflow (mm_of a w) = Some s \<and> moves A {#} w (put_mm a s w)"
    unfolding mm_channel_superbuf_bufdone_overflow_def using assms(1) put_mm_simps(7)
    by (metis moves_refl)
qed

lemma serve_command_moves:
  assumes "thread_ok A w" and "a \<in> A" and "lossless_cmd (queue (sb (chans w a))) cmd"
  shows "\<exists>r. serve_command E a cmd w = Some r \<and> (\<forall>w'. r = Inr w' \<longrightarrow> moves A (brought cmd) w w')"
proof (cases cmd)
  case (MM_CAMERA_CMD_TYPE_DATA_CB b)
  let ?r = "mm_channel_superbuf_comp_and_enqueue (intact_mem E) (alloc E (allocs w)) b (mm_of a w)"
  have ok: "chan_ok (queue (fst (mm_of a w)))"
    using assms(1,2) by (simp add: thread_ok_def)
  have "moves A {#buf b#} w (put_mm a s w)" if "?r = Inr (rc, s)" for rc s
    by (rule put_moves [OF assms(1,2)])
      (use enqueue_keeps [OF that] synced_enqueue [OF that] ok assms(3) MM_CAMERA_CMD_TYPE_DATA_CB
        in \<open>simp_all add: chan_ok_def\<close>)
  then show ?thesis
    using MM_CAMERA_CMD_TYPE_DATA_CB by (auto simp: and_then_def split: sum.splits)
next
  case (MM_CAMERA_CMD_TYPE_REQ_DATA_CB r)
  let ?w = "on_chan a (request_bufs r) w"
  have w: "moves A {#} w ?w"
    using on_chan_moves [OF assms(1), of a "request_bufs r"] request_same by simp
  obtain s where "mm_channel_superbuf_skip (mm_of a ?w) = Some s" "moves A {#} ?w (put_mm a s ?w)"
    using skip_overflow_return(1) [OF moves_ok [OF w] assms(2)] by blast
  then show ?thesis
    using MM_CAMERA_CMD_TYPE_REQ_DATA_CB moves_quiet [OF w] by (simp add: Let_def)
next
  case MM_CAMERA_CMD_TYPE_START_ZSL
  then show ?thesis
    using on_chan_moves [OF assms(1), of a "\<lambda>c. c\<lparr>manualZSLSnapshot := True\<rparr>"] by simp
next
  case MM_CAMERA_CMD_TYPE_STOP_ZSL
  then show ?thesis
    using on_chan_moves [OF assms(1), of a "\<lambda>c. c\<lparr>manualZSLSnapshot := False\<rparr>"] by simp
next
  case (MM_CAMERA_CMD_TYPE_CONFIG_NOTIFY m)
  then show ?thesis
    using on_sb_moves [OF assms(1), of a "on_queue (\<lambda>q. q\<lparr>attr := (attr q)\<lparr>notify_mode := m\<rparr>\<rparr>)"]
    by (simp add: same_superbufs_def)
next
  case (MM_CAMERA_CMD_TYPE_FLUSH_QUEUE f t)
  have "moves A {#} w (on_sb a (set_expected f) w)"
    by (rule on_sb_moves [OF assms(1)]) (simp add: set_expected_def same_superbufs_def)
  from moves_quiet [OF this flush_all_moves [OF moves_ok [OF this] assms(2)]] show ?thesis
    using MM_CAMERA_CMD_TYPE_FLUSH_QUEUE assms(3) by (simp add: flush_all_def)
next
  case (MM_CAMERA_CMD_TYPE_GENERAL g)
  then show ?thesis
    using general_moves [OF _ assms(1,2)] by simp
qed

section \<open>Snapshots\<close>

lemma zsl_moves:
  assumes "thread_ok A w"
  shows "moves A {#} w (zsl_started a w)" "moves A {#} w (zsl_stopped a w)"
  unfolding zsl_started_def zsl_stopped_def Let_def
  by (rule same_superbufs_moves [OF assms]; simp add: on_sb_def call_zsl_def same_superbufs_def)+

lemma update_zsl_moves:
  assumes "thread_ok A w" and "a \<in> A"
  shows "moves A {#} w (update_zsl a w)"
proof -
  have "moves A {#} w (on_sb a future_captures w)"
    by (rule on_sb_moves [OF assms(1)]) (simp add: future_captures_def same_superbufs_def)
  from moves_quiet [OF this flush_all_moves [OF moves_ok [OF this] assms(2)]]
  have flushed: "moves A {#} w (flush_all a (on_sb a future_captures w))" .
  from moves_quiet [OF this zsl_moves(1) [OF moves_ok [OF this]]]
  have started: "moves A {#} w (zsl_started a (flush_all a (on_sb a future_captures w)))" .
  have stopped: "moves A {#} w (zsl_stopped a w)"
    using zsl_moves(2) [OF assms(1)] .
  from moves_quiet [OF this on_sb_moves [OF moves_ok [OF this], of a "\<lambda>c. c\<lparr>bWaitForPrepSnapshotDone := False\<rparr>"]]
  show ?thesis
    using started assms(1) zsl_moves(1) [OF assms(1)]
    by (simp add: update_zsl_def Let_def same_superbufs_def)
qed

end
