(* ===== verification/SuperbufDispatch.thy ===== *)
theory SuperbufDispatch
  imports SuperbufThreadInvariants
begin

text \<open>
  How the command thread of a channel takes superbufs out, alone or for synchronised cameras,
  hands them back or sends them: each step moves buffers and loses none, the loop ends, and it
  leaves nothing behind that it might still give.
\<close>

section \<open>Taking superbufs out\<close>

definition waiting :: "addr set \<Rightarrow> thread_world \<Rightarrow> nat" where
  "waiting A w = (\<Sum>a\<in>A. length (que (queue (sb (chans w a)))))"

definition same_queues :: "thread_world \<Rightarrow> thread_world \<Rightarrow> bool" where
  "same_queues w w' \<longleftrightarrow> (\<forall>x. que (queue (sb (chans w' x))) = que (queue (sb (chans w x))))"

lemma same_queues_refl [simp]: "same_queues w w"
  by (simp add: same_queues_def)

lemma same_queues_trans: "same_queues u v \<Longrightarrow> same_queues v w \<Longrightarrow> same_queues u w"
  by (simp add: same_queues_def)

lemma same_queues_waiting: "same_queues w w' \<Longrightarrow> waiting A w' = waiting A w"
  by (simp add: same_queues_def waiting_def)

lemma waiting_put:
  assumes "finite A" and "a \<in> A" and "chans w' = (chans w)(a := c)"
  shows "waiting A w' + length (que (queue (sb (chans w a)))) = waiting A w + length (que (queue (sb c)))"
  using sum.remove [OF assms(1,2), of "\<lambda>x. length (que (queue (sb (chans w x))))"]
    sum.remove [OF assms(1,2), of "\<lambda>x. length (que (queue (sb (chans w' x))))"]
    sum.cong [of "A - {a}" "A - {a}" "\<lambda>x. length (que (queue (sb (chans w' x))))"
      "\<lambda>x. length (que (queue (sb (chans w x))))"] assms(3)
  by (simp add: waiting_def)

text \<open>A superbuf with a buffer in each of its slots.\<close>

definition full :: "mm_channel_queue_node \<Rightarrow> bool" where
  "full n \<longleftrightarrow> None \<notin> set (node_slots n)"

definition nodes_bufs :: "(addr \<times> mm_channel_queue_node) list \<Rightarrow> mm_camera_buf_def multiset" where
  "nodes_bufs ns = mset (concat (List.map (\<lambda>(a, n). node_bufs n) ns))"

lemma nodes_bufs_simps [simp]:
  "nodes_bufs [] = {#}" "nodes_bufs ((a, n) # ns) = mset (node_bufs n) + nodes_bufs ns"
  by (simp_all add: nodes_bufs_def)

definition taken_out :: "addr set \<Rightarrow> thread_world \<Rightarrow> (addr \<times> mm_channel_queue_node) list \<Rightarrow> thread_world \<Rightarrow> bool" where
  "taken_out A w ns w' \<longleftrightarrow> thread_ok A w' \<and> setups A w w' \<and> pool A w' + nodes_bufs ns = pool A w
     \<and> (\<forall>(a, n) \<in> set ns. a \<in> A \<and> full n) \<and> waiting A w' + length ns \<le> waiting A w"

lemma matched_full: "chan_ok q \<Longrightarrow> n \<in> set (que q) \<Longrightarrow> matched n \<Longrightarrow> full n"
  by (auto simp: chan_ok_def wf_queue_def wf_node_def full_def)

lemma dequeue_frame_split:
  "dequeue_frame f ns = Some (n, ms) \<Longrightarrow>
    \<exists>xs ys. ns = xs @ n # ys \<and> ms = xs @ ys \<and> matched n \<and> frame_idx n = f"
proof (induction ns arbitrary: ms)
  case (Cons m ns)
  show ?case
  proof (cases "matched m \<and> frame_idx m = f")
    case True
    then show ?thesis
      using Cons.prems by (intro exI [of _ "[]"] exI [of _ ns]) auto
  next
    case False
    then obtain ms' where ms': "dequeue_frame f ns = Some (n, ms')" "ms = m # ms'"
      using Cons.prems by auto
    then obtain xs ys where "ns = xs @ n # ys" "ms' = xs @ ys" "matched n" "frame_idx n = f"
      using Cons.IH by blast
    then show ?thesis
      using ms' by (intro exI [of _ "m # xs"] exI [of _ ys]) simp
  qed
qed simp

lemma chan_ok_without:
  assumes "chan_ok q" and "que q = xs @ n # ys" and "matched n"
  shows "chan_ok (q\<lparr>que := xs @ ys, que_size := que_size q - 1, match_cnt := match_cnt q - 1\<rparr>)"
proof -
  have "tidy q"
    using assms(1) by (simp add: chan_ok_def)
  then obtain ms us where q: "priority (attr q) \<noteq> MM_CAMERA_SUPER_BUF_PRIORITY_LOW" "que q = ms @ us"
    "\<And>n. n \<in> set ms \<Longrightarrow> matched n \<and> one_frame n" "\<And>n. n \<in> set us \<Longrightarrow> \<not> matched n \<and> one_frame n"
    "in_order us" "match_cnt q = of_nat (length ms)"
    by (rule tidyE) blast
  have eq: "xs @ n # ys = ms @ us"
    using assms(2) q(2) by simp
  obtain zs where ms: "ms = xs @ n # zs" "ys = zs @ us"
  proof -
    from eq consider (a) zs where "xs = ms @ zs" "us = zs @ n # ys" | (b) zs where "ms = xs @ zs" "n # ys = zs @ us"
      by (auto simp: append_eq_append_conv2)
    then show thesis
    proof cases
      case a
      then show thesis
        using q(4) [of n] assms(3) by simp
    next
      case (b zs)
      then show thesis
        using that q(4) [of n] assms(3) by (cases zs) auto
    qed
  qed
  have "tidy (q\<lparr>que := xs @ ys, que_size := que_size q - 1, match_cnt := match_cnt q - 1\<rparr>)"
    by (rule tidyI [of _ "xs @ zs" us]) (use q ms in auto)
  then show ?thesis
    using assms by (auto simp: chan_ok_def wf_queue_def bounded_def unmatched_count_def)
qed

text \<open>Taking one superbuf out of one channel.\<close>

lemma take_one:
  assumes "thread_ok A w" and "a \<in> A" and "que (queue (sb (chans w a))) = xs @ n # ys" and "matched n"
    and "chans w' = (chans w)(a := c)"
    and "queue (sb c) = (queue (sb (chans w a)))\<lparr>que := xs @ ys, que_size := que_size (queue (sb (chans w a))) - 1,
           match_cnt := match_cnt (queue (sb (chans w a))) - 1\<rparr>"
    and "ch_obj (fs (mm w')) = ch_obj (fs (mm w))" and "events (mm w') = events (mm w)" and "sent w' = sent w"
  shows "taken_out A w [(a, n)] w'"
proof -
  let ?q = "queue (sb (chans w a))"
  have fin: "finite A" and ok: "chan_ok ?q"
    using assms(1,2) by (auto simp: thread_ok_def)
  have "waiting A w' + length [(a, n)] = waiting A w"
    using waiting_put [OF fin assms(2,5)] assms(3,6) by simp
  moreover have "(\<Sum>x\<in>A. queued_bufs (queue (sb (chans w' x)))) + queued_bufs ?q
      = (\<Sum>x\<in>A. queued_bufs (queue (sb (chans w x)))) + queued_bufs (queue (sb c))"
    using sum.remove [OF fin assms(2), of "\<lambda>x. queued_bufs (queue (sb (chans w' x)))"]
      sum.remove [OF fin assms(2), of "\<lambda>x. queued_bufs (queue (sb (chans w x)))"]
      sum.cong [of "A - {a}" "A - {a}" "\<lambda>x. queued_bufs (queue (sb (chans w' x)))"
        "\<lambda>x. queued_bufs (queue (sb (chans w x)))"] assms(5)
    by (simp add: ac_simps)
  moreover have "queued_bufs ?q = queued_bufs (queue (sb c)) + mset (node_bufs n)"
    using assms(3,6) by (simp add: queued_bufs_def)
  ultimately show ?thesis
    using assms(1,2,5-9) chan_ok_without [OF ok assms(3,4)] matched_full [OF ok _ assms(4)] assms(3)
    by (auto simp: taken_out_def pool_def thread_ok_def setups_def same_setup_def returned_bufs_def)
qed

lemma moves_taken: "moves A {#} u v \<Longrightarrow> waiting A v \<le> waiting A u \<Longrightarrow> taken_out A v ns w \<Longrightarrow> taken_out A u ns w"
  by (auto simp: moves_def taken_out_def setups_def same_setup_def)

lemma taken_Nil: "moves A {#} w w' \<Longrightarrow> waiting A w' \<le> waiting A w \<Longrightarrow> taken_out A w [] w'"
  by (simp add: moves_def taken_out_def)

lemma taken_append:
  "taken_out A u [(a, n)] v \<Longrightarrow> taken_out A v ns w \<Longrightarrow> taken_out A u ((a, n) # ns) w"
  unfolding taken_out_def setups_def same_setup_def
  by (auto simp: ac_simps) (metis union_assoc union_commute)

section \<open>Handing back and sending\<close>

lemma give_back_moves:
  assumes "thread_ok A w" and "a \<in> A" and "full n"
  obtains w' where "give_back a n w = Inr w'" "moves A (mset (node_bufs n)) w w'" "same_queues w w'"
    "\<And>x. chans w' x = chans w x"
proof
  let ?s = "qbufs (node_bufs n) (mm_of a w)"
  show "give_back a n w = Inr (put_mm a ?s w)"
    using assms(3) by (simp add: give_back_def mm_channel_node_qbuf_def full_def)
  show "moves A (mset (node_bufs n)) w (put_mm a ?s w)"
    by (rule put_moves [OF assms(1,2)]) (use assms(1,2) in \<open>simp_all add: thread_ok_def\<close>)
  show "chans (put_mm a ?s w) x = chans w x" for x
    by simp
  then show "same_queues w (put_mm a ?s w)"
    by (simp add: same_queues_def)
qed

lemma give_all_back_moves:
  "thread_ok A w \<Longrightarrow> \<forall>(a, n) \<in> set ns. a \<in> A \<and> full n \<Longrightarrow>
    \<exists>w'. give_all_back ns w = Inr w' \<and> moves A (nodes_bufs ns) w w' \<and> same_queues w w'"
proof (induction ns arbitrary: w)
  case (Cons p ns)
  obtain a n where p: "p = (a, n)"
    by (cases p)
  have an: "a \<in> A" "full n"
    using Cons.prems(2) p by auto
  obtain w1 where w1: "give_back a n w = Inr w1" "moves A (mset (node_bufs n)) w w1" "same_queues w w1"
    by (rule give_back_moves [OF Cons.prems(1) an])
  obtain w2 where "give_all_back ns w1 = Inr w2" "moves A (nodes_bufs ns) w1 w2" "same_queues w1 w2"
    using Cons.IH [OF moves_ok [OF w1(2)]] Cons.prems(2) by auto
  then show ?case
    using w1 p moves_trans [OF w1(2)] same_queues_trans [OF w1(3)] by auto
qed simp

lemma node_content: "List.map the (filter (\<lambda>b. b \<noteq> None) (List.map (map_option buf) xs)) = slot_bufs xs"
  by (induction xs rule: slot_bufs.induct) auto

lemma send_moves:
  "thread_ok A w \<Longrightarrow> \<forall>(a, n) \<in> set ns. a \<in> A \<and> full n \<Longrightarrow>
    \<exists>w'. mm_channel_send_super_buf E ns w = Inr w' \<and> moves A (nodes_bufs ns) w w' \<and> same_queues w w'"
proof (induction ns arbitrary: w)
  case (Cons p ns)
  obtain a n where p: "p = (a, n)"
    by (cases p)
  have an: "a \<in> A" "full n" and ns: "\<forall>(a, n) \<in> set ns. a \<in> A \<and> full n"
    using Cons.prems(2) p by auto
  have rest: "\<exists>w'. mm_channel_send_super_buf E ns w1 = Inr w' \<and> moves A (nodes_bufs ((a, n) # ns)) w w'
      \<and> same_queues w w'" if "moves A (mset (node_bufs n)) w w1" "same_queues w w1" for w1
    using Cons.IH [OF moves_ok [OF that(1)] ns] moves_trans [OF that(1)] same_queues_trans [OF that(2)]
    by fastforce
  have given: "\<exists>w1. give_back a n v = Inr w1 \<and> moves A (mset (node_bufs n)) w w1 \<and> same_queues w w1"
    if "moves A {#} w v" "same_queues w v" for v
    using give_back_moves [OF moves_ok [OF that(1)] an] moves_quiet [OF that(1)]
      same_queues_trans [OF that(2)] by metis
  show ?case
  proof (cases "super_buf_notify_cb (chans w a)")
    case False
    obtain w1 where w1: "give_back a n w = Inr w1" "moves A (mset (node_bufs n)) w w1" "same_queues w w1"
      using given [of w] Cons.prems(1) by auto
    then show ?thesis
      using rest [OF w1(2,3)] False p by simp
  next
    case cb: True
    show ?thesis
    proof (cases "alloc E (allocs w)")
      case True
      define msg where "msg = \<lparr>msg_ch = a, msg_bufs = List.map (map_option buf) (node_slots n),
        bUnlockAEC = unLockAEC (chans w a),
        bReadyForPrepareSnapshot = bWaitForPrepSnapshotDone (sb (chans w a))\<rparr>"
      define w1 where "w1 = on_chan a (\<lambda>c. c\<lparr>unLockAEC := False\<rparr>)
        (w\<lparr>allocs := allocs w + 1, sent := sent w @ [msg]\<rparr>)"
      have msg: "msg_content msg = node_bufs n"
        using node_content [of "node_slots n"] by (simp add: msg_content_def msg_def node_bufs_def)
      have "queue (sb (chans w1 x)) = queue (sb (chans w x))" for x
        by (simp add: w1_def)
      then have w1: "moves A (mset (node_bufs n)) w w1" "same_queues w w1"
        using Cons.prems(1) msg
        by (simp_all add: moves_def thread_ok_def setups_def pool_def same_queues_def)
          (simp_all add: w1_def sent_bufs_def ac_simps)
      have "mm_channel_send_super_buf E ((a, n) # ns) w = mm_channel_send_super_buf E ns w1"
        using cb True by (simp add: w1_def msg_def)
      then show ?thesis
        using rest [OF w1] p by metis
    next
      case False
      obtain w1 where w1: "give_back a n (w\<lparr>allocs := allocs w + 1\<rparr>) = Inr w1"
          "moves A (mset (node_bufs n)) w w1" "same_queues w w1"
        using given [of "w\<lparr>allocs := allocs w + 1\<rparr>"] Cons.prems(1) by (auto simp: same_queues_def)
      then show ?thesis
        using rest [OF w1(2,3)] cb False p by simp
    qed
  qed
qed simp

lemma count_superbuf_moves:
  assumes "count_superbuf a w = Inr w'" and "thread_ok A w"
  shows "moves A {#} w w' \<and> same_queues w w'"
proof -
  have capture: "shape (queue (sb d)) = shape (queue (sb c))" if "count_capture c = Inr d" for c d
    using that by (auto simp: count_capture_def Let_def on_queue_def shape_def split: if_splits)
  have pending: "queue (sb (count_pending c)) = queue (sb c)" for c
    by (simp add: count_pending_def Let_def)
  have stopped: "queue (sb (chans (zsl_stopped a v) x)) = queue (sb (chans v x))"
      "mm (zsl_stopped a v) = mm v" "sent (zsl_stopped a v) = sent v" for v x
    by (simp_all add: zsl_stopped_def call_zsl_def)
  have shapes: "shape (queue (sb (chans w' x))) = shape (queue (sb (chans w x)))" for x
    using assms(1)
    by (auto simp: count_superbuf_def Let_def and_then_def pending stopped dest!: capture
        split: sum.splits if_splits)
  moreover have "mm w' = mm w \<and> sent w' = sent w"
    using assms(1) by (auto simp: count_superbuf_def Let_def and_then_def stopped split: sum.splits if_splits)
  ultimately have "moves A {#} w w'"
    by (intro same_superbufs_moves [OF assms(2)]) (auto simp: same_superbufs_def)
  then show ?thesis
    using shapes by (simp add: same_queues_def shape_def)
qed

section \<open>Taking out, the two ways\<close>

lemma take_frames_out:
  "thread_ok A w \<Longrightarrow> \<forall>a. Some a \<in> set as \<longrightarrow> a \<in> A \<Longrightarrow>
    take_frames f as w = (ns, w') \<Longrightarrow> taken_out A w ns w' \<and> mm w' = mm w"
proof (induction f as w arbitrary: ns w' rule: take_frames.induct)
  case (1 f w)
  then show ?case
    by (simp add: taken_Nil)
next
  case (3 f a as w)
  show ?case
  proof (cases "dequeue_frame f (que (queue (sb (chans w a))))")
    case None
    then show ?thesis
      using 3 by (simp add: mm_channel_superbuf_dequeue_frame_internal_def)
  next
    case (Some p)
    obtain n ms where p: "p = (n, ms)"
      by (cases p)
    obtain xs ys where split: "que (queue (sb (chans w a))) = xs @ n # ys" "ms = xs @ ys" "matched n"
      using dequeue_frame_split Some p by metis
    define q where "q = (queue (sb (chans w a)))\<lparr>que := xs @ ys,
      que_size := que_size (queue (sb (chans w a))) - 1, match_cnt := match_cnt (queue (sb (chans w a))) - 1\<rparr>"
    define w1 where "w1 = on_sb a (on_queue (\<lambda>_. q)) w"
    have step: "mm_channel_superbuf_dequeue_frame_internal f (queue (sb (chans w a))) = (Some n, q)"
      using Some p split by (simp add: mm_channel_superbuf_dequeue_frame_internal_def q_def)
    obtain ns1 w2 where rest: "take_frames f as w1 = (ns1, w2)"
      by (cases "take_frames f as w1")
    have w1: "taken_out A w [(a, n)] w1"
      by (rule take_one [OF 3(3) _ split(1,3), where c = "(chans w a)\<lparr>sb := on_queue (\<lambda>_. q) (sb (chans w a))\<rparr>"])
        (use 3(4) in \<open>simp_all add: w1_def on_sb_def q_def\<close>)
    moreover have "taken_out A w1 ns1 w2 \<and> mm w2 = mm w1"
      using 3(2) [OF step [symmetric] refl, of ns1 w2] w1 rest 3(4)
      by (auto simp: w1_def taken_out_def)
    ultimately show ?thesis
      using taken_append [OF w1, of ns1 w2] 3(5) step rest by (auto simp: w1_def on_sb_def)
  qed
qed simp

lemma dequeue_synced_out:
  assumes "thread_ok A w"
  obtains ns w' where "dequeue_synced w = Inr (ns, w')" "taken_out A w ns w'"
proof (cases "mm_frame_sync_find_matched False (fs (mm w)) = 0")
  case True
  then show ?thesis
    using that [of "[]" w] assms by (simp add: dequeue_synced_def taken_Nil)
next
  case False
  define f where "f = mm_frame_sync_find_matched False (fs (mm w))"
  obtain ns w1 where frames: "take_frames f (ch_obj (fs (mm w))) w = (ns, w1)"
    by (cases "take_frames f (ch_obj (fs (mm w))) w")
  have w1: "taken_out A w ns w1"
    using take_frames_out [OF assms _ frames] assms by (simp add: thread_ok_def)
  define w2 where "w2 = w1\<lparr>mm := (mm w1)\<lparr>fs := snd (mm_frame_sync_remove f (fs (mm w1)))\<rparr>\<rparr>"
  have w2: "taken_out A w ns w2"
    using w1 by (simp add: w2_def taken_out_def thread_ok_def setups_def pool_def returned_bufs_def waiting_def)
  have step: "dequeue_synced w = (if of_nat (length ns) \<noteq> num_cam (fs (mm w2))
      then and_then (give_all_back ns w2) (\<lambda>w. Inr ([], w)) else Inr (ns, w2))"
    using False frames by (simp add: dequeue_synced_def f_def [symmetric] w2_def Let_def)
  show ?thesis
  proof (cases "of_nat (length ns) = num_cam (fs (mm w2))")
    case True
    then show ?thesis
      using that [OF _ w2] step by simp
  next
    case False
    obtain w3 where w3: "give_all_back ns w2 = Inr w3" "moves A (nodes_bufs ns) w2 w3" "same_queues w2 w3"
      using give_all_back_moves [of A w2 ns] w2 by (auto simp: taken_out_def)
    have "taken_out A w [] w3"
      using w2 w3(2) same_queues_waiting [OF w3(3), of A]
      by (auto simp: taken_out_def moves_def setups_def same_setup_def)
    then show ?thesis
      using that [of "[]" w3] step False w3(1) by simp
  qed
qed

text \<open>Frames are taken without a look at the requests.\<close>

lemma take_frames_type:
  "take_frames f as w = (ns, w') \<Longrightarrow> req_type (chans w' a) = req_type (chans w a)"
proof (induction f as w arbitrary: ns w' rule: take_frames.induct)
  case (3 f b as w)
  then show ?case
    by (cases "mm_channel_superbuf_dequeue_frame_internal f (queue (sb (chans w b)))")
      (auto simp: on_sb_def split: option.splits prod.splits if_splits)
qed simp_all

lemma give_all_back_type:
  "give_all_back ns w = Inr w' \<Longrightarrow> req_type (chans w' a) = req_type (chans w a)"
proof (induction ns w rule: give_all_back.induct)
  case (2 b n ns w)
  then show ?case
    by (cases "give_back b n w") (auto simp: give_back_def and_then_def split: sum.splits if_splits)
qed simp

lemma dequeue_synced_type:
  assumes "dequeue_synced w = Inr (ns, w')"
  shows "req_type (chans w' a) = req_type (chans w a)"
proof -
  obtain ms w1 where frames: "take_frames (mm_frame_sync_find_matched False (fs (mm w))) (ch_obj (fs (mm w))) w = (ms, w1)"
    by (cases "take_frames (mm_frame_sync_find_matched False (fs (mm w))) (ch_obj (fs (mm w))) w")
  show ?thesis
    using assms frames take_frames_type [OF frames, of a] give_all_back_type [where a = a]
    by (fastforce simp: dequeue_synced_def Let_def and_then_def split: if_splits sum.splits)
qed

text \<open>When a channel gives nothing out, it has no matched superbuf, or discarded one.\<close>

definition none_ready :: "zsl_channel \<Rightarrow> bool" where
  "none_ready c \<longleftrightarrow> isConfigCapture (sb c) \<or> (\<forall>n \<in> set (que (queue (sb c))). \<not> matched n)"

lemma tidy_head:
  assumes "tidy q" and "que q = [] \<or> \<not> matched (hd (que q))"
  shows "\<forall>n \<in> set (que q). \<not> matched n"
proof -
  obtain ms us where "que q = ms @ us" "\<forall>n \<in> set ms. matched n" "\<forall>n \<in> set us. \<not> matched n"
    by (rule tidy_cases [OF assms(1)])
  then show ?thesis
    using assms(2) by (cases ms) auto
qed

definition same_requests :: "addr \<Rightarrow> thread_world \<Rightarrow> thread_world \<Rightarrow> bool" where
  "same_requests a w w' \<longleftrightarrow> pending_cnt (chans w' a) = pending_cnt (chans w a)
     \<and> req_type (chans w' a) = req_type (chans w a)
     \<and> super_buf_notify_cb (chans w' a) = super_buf_notify_cb (chans w a)
     \<and> mode_of (sb (chans w' a)) = mode_of (sb (chans w a)) \<and> sent w' = sent w"

lemma same_requests_trans: "same_requests a u v \<Longrightarrow> same_requests a v w \<Longrightarrow> same_requests a u w"
  by (simp add: same_requests_def)

lemma put_same_requests: "synced (mm_of a w) s \<Longrightarrow> same_requests a w (put_mm a s w)"
  by (simp add: same_requests_def synced_def)

lemma dequeue_own_out:
  assumes "thread_ok A w" and "a \<in> A" and "dequeue_own a w = Inr (ns, w')"
  shows "taken_out A w ns w'" "same_requests a w w'" "ns = [] \<Longrightarrow> none_ready (chans w' a)"
    "ns \<noteq> [] \<Longrightarrow> \<exists>n. ns = [(a, n)]"
proof -
  have ok: "chan_ok (queue (sb (chans w a)))"
    using assms(1,2) by (simp add: thread_ok_def)
  have "taken_out A w ns w' \<and> same_requests a w w' \<and> (ns = [] \<longrightarrow> none_ready (chans w' a))
    \<and> (ns \<noteq> [] \<longrightarrow> (\<exists>n. ns = [(a, n)]))"
  proof (rule dequeue_cases [of True "mm_of a w"])
    assume none: "mm_channel_superbuf_dequeue_internal True (mm_of a w) = (None, mm_of a w)"
      "que (queue (fst (mm_of a w))) = [] \<or> True \<and> \<not> matched (hd (que (queue (fst (mm_of a w)))))"
    then have "ns = []" "w' = w"
      using assms(3) by (simp_all add: dequeue_own_def mm_channel_superbuf_dequeue_def)
    then show ?thesis
      using none(2) tidy_head ok assms(1) by (auto simp: taken_Nil same_requests_def none_ready_def chan_ok_def)
  next
    fix n ms s
    assume some: "mm_channel_superbuf_dequeue_internal True (mm_of a w) = (Some n, s)"
      "que (queue (fst (mm_of a w))) = n # ms" "True \<longrightarrow> matched n" "events (snd s) = events (snd (mm_of a w))"
      "fst s = on_queue (\<lambda>q. q\<lparr>que := ms, que_size := que_size q - 1,
         match_cnt := (if matched n then match_cnt q - 1 else match_cnt q)\<rparr>) (fst (mm_of a w))"
    define w1 where "w1 = put_mm a s w"
    have "taken_out A w [(a, n)] w1"
      by (rule take_one [OF assms(1,2), where xs = "[]" and ys = ms and c = "(chans w a)\<lparr>sb := fst s\<rparr>"])
        (use some synced_dequeue [OF some(1)] in \<open>simp_all add: w1_def synced_def\<close>)
    note w1 = this
    have req: "same_requests a w w1"
      unfolding w1_def by (rule put_same_requests [OF synced_dequeue [OF some(1)]])
    have full: "full n"
      using w1 by (simp add: taken_out_def)
    show ?thesis
    proof (cases "ns = []")
      case False
      then have "ns = [(a, n)]" "w' = w1"
        using assms(3) some(1)
        by (auto simp: dequeue_own_def mm_channel_superbuf_dequeue_def w1_def [symmetric] Let_def and_then_def
            split: if_splits sum.splits)
      then show ?thesis
        using w1 req by simp
    next
      case True
      obtain w2 where w2: "give_back a n w1 = Inr w2" "moves A (mset (node_bufs n)) w1 w2" "same_queues w1 w2"
          "\<And>x. chans w2 x = chans w1 x"
        using give_back_moves [OF _ assms(2) full, of w1] w1 by (auto simp: taken_out_def)
      have "sent w2 = sent w1"
        using w2(1) by (auto simp: give_back_def and_then_def split: sum.splits)
      moreover have "w' = w2" "isConfigCapture (sb (chans w1 a))"
        using assms(3) some(1) True w2(1)
        by (auto simp: dequeue_own_def mm_channel_superbuf_dequeue_def w1_def [symmetric] Let_def
            split: if_splits)
      moreover have "taken_out A w [] w2"
        using w1 w2(2) same_queues_waiting [OF w2(3), of A]
        by (auto simp: taken_out_def moves_def setups_def same_setup_def)
      ultimately show ?thesis
        using True req w2(4) by (simp add: same_requests_def none_ready_def)
    qed
  qed
  then show "taken_out A w ns w'" "same_requests a w w'" "ns = [] \<Longrightarrow> none_ready (chans w' a)"
    "ns \<noteq> [] \<Longrightarrow> \<exists>n. ns = [(a, n)]"
    by blast+
qed

section \<open>The loop\<close>

text \<open>A turn that sends something: its parts.\<close>

lemma dispatch_turn_cases:
  assumes "dispatch_turn E a m w = Inr (go, w')"
  obtains (none) "\<not> go" "(if req_type (chans w a) = MM_CAMERA_REQ_FRAME_SYNC_BUF then dequeue_synced w
      else dequeue_own a w) = Inr ([], w')"
  | (some) ns w1 w2 where "go" "ns \<noteq> []" "(if req_type (chans w a) = MM_CAMERA_REQ_FRAME_SYNC_BUF then dequeue_synced w
      else dequeue_own a w) = Inr (ns, w1)"
      "(if m = MM_CAMERA_SUPER_BUF_NOTIFY_BURST then count_superbuf a w1 else Inr w1) = Inr w2"
      "mm_channel_send_super_buf E ns w2 = Inr w'"
proof -
  let ?d = "if req_type (chans w a) = MM_CAMERA_REQ_FRAME_SYNC_BUF then dequeue_synced w else dequeue_own a w"
  obtain ns w1 where d: "?d = Inr (ns, w1)"
    using assms by (cases ?d) (auto simp: dispatch_turn_def)
  show thesis
  proof (cases "ns = []")
    case True
    then show thesis
      using none assms d by (simp add: dispatch_turn_def)
  next
    case False
    let ?c = "if m = MM_CAMERA_SUPER_BUF_NOTIFY_BURST then count_superbuf a w1 else Inr w1"
    obtain w2 where c: "?c = Inr w2"
      using assms d False by (cases ?c) (auto simp: dispatch_turn_def)
    then have "mm_channel_send_super_buf E ns w2 = Inr w'" "go"
      using assms d False
      by (cases "mm_channel_send_super_buf E ns w2"; auto simp: dispatch_turn_def)+
    then show thesis
      using some [OF _ False d c] by blast
  qed
qed

lemma dequeued_out:
  assumes "thread_ok A w" and "a \<in> A"
    and "(if req_type (chans w a) = MM_CAMERA_REQ_FRAME_SYNC_BUF then dequeue_synced w else dequeue_own a w) = Inr (ns, w')"
  shows "taken_out A w ns w'"
  using assms(3) dequeue_own_out(1) [OF assms(1,2)] dequeue_synced_out [OF assms(1)]
  by (metis old.prod.inject sum.inject(2))

lemma dispatch_turn_moves:
  assumes "dispatch_turn E a m w = Inr (go, w')" and "thread_ok A w" and "a \<in> A"
  shows "moves A {#} w w' \<and> (go \<longrightarrow> waiting A w' < waiting A w)"
  using assms(1)
proof (cases rule: dispatch_turn_cases)
  case none
  then show ?thesis
    using dequeued_out [OF assms(2,3)] by (fastforce simp: taken_out_def moves_def)
next
  case (some ns w1 w2)
  have w1: "taken_out A w ns w1"
    using dequeued_out [OF assms(2,3) some(3)] .
  then have "thread_ok A w1"
    by (simp add: taken_out_def)
  then have w2: "moves A {#} w1 w2" "same_queues w1 w2"
    using some(4) count_superbuf_moves [of a w1 w2 A] by (auto split: if_splits)
  obtain w3 where "mm_channel_send_super_buf E ns w2 = Inr w3" "moves A (nodes_bufs ns) w2 w3" "same_queues w2 w3"
    using send_moves [OF moves_ok [OF w2(1)], of ns E] w1 by (auto simp: taken_out_def)
  then have w3: "moves A (nodes_bufs ns) w2 w'" "same_queues w2 w'"
    using some(5) by auto
  have "waiting A w' = waiting A w1"
    using same_queues_waiting [OF w2(2), of A] same_queues_waiting [OF w3(2), of A] by simp
  moreover have "waiting A w1 < waiting A w"
    using w1 some(2) by (cases ns) (auto simp: taken_out_def)
  moreover have "moves A (nodes_bufs ns) w1 w'"
    using moves_quiet [OF w2(1) w3(1)] .
  ultimately show ?thesis
    using w1 by (auto simp: taken_out_def moves_def setups_def same_setup_def)
qed

text \<open>What the loop leaves behind: it may not go on, or there is nothing to give.\<close>

definition served :: "addr \<Rightarrow> thread_world \<Rightarrow> bool" where
  "served a w \<longleftrightarrow> 0 < pending_cnt (chans w a) \<longrightarrow> \<not> bWaitForPrepSnapshotDone (sb (chans w a))
     \<longrightarrow> req_type (chans w a) = MM_CAMERA_REQ_SUPER_BUF \<longrightarrow> none_ready (chans w a)"

lemma dispatch_loop_ok:
  assumes "thread_ok A w" and "a \<in> A"
  shows "\<exists>r. dispatch_loop E a m w = Some r \<and> (\<forall>w'. r = Inr w' \<longrightarrow> moves A {#} w w' \<and> served a w')"
  using assms(1)
proof (induction "waiting A w" arbitrary: w rule: less_induct)
  case less
  show ?case
  proof (cases "may_dispatch m (chans w a)")
    case False
    then show ?thesis
      using less.prems by (subst dispatch_loop.simps) (auto simp: may_dispatch_def served_def)
  next
    case may: True
    show ?thesis
    proof (cases "dispatch_turn E a m w")
      case (Inl e)
      then show ?thesis
        using may by (subst dispatch_loop.simps) simp
    next
      case (Inr p)
      obtain go w1 where p: "p = (go, w1)"
        by (cases p)
      note turn = dispatch_turn_moves [OF _ less.prems assms(2), of E m go w1]
      show ?thesis
      proof (cases go)
        case True
        have w1: "moves A {#} w w1" "waiting A w1 < waiting A w"
          using turn Inr p True by auto
        obtain r where "dispatch_loop E a m w1 = Some r"
            "\<forall>w'. r = Inr w' \<longrightarrow> moves A {#} w1 w' \<and> served a w'"
          using less.hyps [OF w1(2) moves_ok [OF w1(1)]] by blast
        then show ?thesis
          using may Inr p True moves_quiet [OF w1(1)] by (subst dispatch_loop.simps) auto
      next
        case False
        have "served a w1"
          using Inr p False
        proof (cases rule: dispatch_turn_cases [of E a m w go w1, consumes 0, case_names run none some])
          case none
          then show ?thesis
            using dequeue_own_out(2,3) [OF less.prems assms(2), of "[]" w1]
              dequeue_synced_type [of w "[]" w1 a]
            by (auto simp: served_def same_requests_def split: if_splits)
        qed auto
        then show ?thesis
          using may Inr p False turn by (subst dispatch_loop.simps) auto
      qed
    qed
  qed
qed

lemma after_command_ok:
  assumes "thread_ok A w" and "a \<in> A"
  shows "\<exists>r. after_command E a w = Some r \<and> (\<forall>w'. r = Inr w' \<longrightarrow> moves A {#} w w' \<and> served a w')"
proof -
  have w1: "moves A {#} w (update_zsl a w)"
    using update_zsl_moves [OF assms] .
  obtain s where s: "mm_channel_superbuf_bufdone_overflow (mm_of a (update_zsl a w)) = Some s"
      "moves A {#} (update_zsl a w) (put_mm a s (update_zsl a w))"
    using skip_overflow_return(2) [OF moves_ok [OF w1] assms(2)] by blast
  have w2: "moves A {#} w (put_mm a s (update_zsl a w))"
    using moves_quiet [OF w1 s(2)] .
  obtain r where "dispatch_loop E a (mode_of (sb (chans w a))) (put_mm a s (update_zsl a w)) = Some r"
      "\<forall>w'. r = Inr w' \<longrightarrow> moves A {#} (put_mm a s (update_zsl a w)) w' \<and> served a w'"
    using dispatch_loop_ok [OF moves_ok [OF w2] assms(2)] by blast
  then show ?thesis
    using s(1) moves_quiet [OF w2] by (auto simp: after_command_def Let_def)
qed

lemma flush_none:
  "que (queue (fst (mm_channel_superbuf_flush t s))) = []"
  unfolding mm_channel_superbuf_flush_def by (rule flush_turns_some [THEN conjunct1]) simp

lemma process_ok:
  assumes "thread_ok A w" and "a \<in> A" and "lossless_cmd (queue (sb (chans w a))) cmd"
  shows "\<exists>r. mm_channel_process_stream_buf E a cmd w = Some r
    \<and> (\<forall>w'. r = Inr w' \<longrightarrow> moves A (brought cmd) w w' \<and> served a w')"
proof -
  obtain r where r: "serve_command E a cmd w = Some r" "\<And>w'. r = Inr w' \<Longrightarrow> moves A (brought cmd) w w'"
    using serve_command_moves [OF assms] by blast
  show ?thesis
  proof (cases r)
    case (Inl e)
    then show ?thesis
      using r(1) by (simp add: mm_channel_process_stream_buf_def)
  next
    case (Inr w1)
    have w1: "moves A (brought cmd) w w1"
      using r(2) Inr by simp
    obtain r' where r': "after_command E a w1 = Some r'"
        "\<And>w'. r' = Inr w' \<Longrightarrow> moves A {#} w1 w' \<and> served a w'"
      using after_command_ok [OF moves_ok [OF w1] assms(2)] by blast
    have "moves A (brought cmd) w w' \<and> served a w'" if "r' = Inr w'" for w'
      using r'(2) [OF that] moves_trans [OF w1, of "{#}" w'] by simp
    moreover have "served a w1" if "cmd = MM_CAMERA_CMD_TYPE_FLUSH_QUEUE f t" for f t
      using r(1) Inr that by (simp add: on_mm_def served_def none_ready_def) (auto simp: flush_none)
    ultimately show ?thesis
      using r(1) Inr w1 r'(1) by (cases cmd) (simp_all add: mm_channel_process_stream_buf_def)
  qed
qed

end
