(* ===== verification/SuperbufRequests.thy ===== *)
theory SuperbufRequests
  imports SuperbufDispatch
begin

text \<open>
  What the command thread of a channel keeps of the requests and of the snapshots without
  shutter lag, command by command and over every run.
\<close>

section \<open>Requests\<close>

text \<open>What a step does to the state of a snapshot without shutter lag.\<close>

definition same_zsl :: "addr \<Rightarrow> thread_world \<Rightarrow> thread_world \<Rightarrow> bool" where
  "same_zsl a w w' \<longleftrightarrow> zsl_calls w' = zsl_calls w
     \<and> startZSlSnapshotCalled (sb (chans w' a)) = startZSlSnapshotCalled (sb (chans w a))
     \<and> manualZSLSnapshot (chans w' a) = manualZSLSnapshot (chans w a)"

lemma same_zsl_refl [simp]: "same_zsl a w w"
  by (simp add: same_zsl_def)

lemma same_zsl_trans: "same_zsl a u v \<Longrightarrow> same_zsl a v w \<Longrightarrow> same_zsl a u w"
  by (simp add: same_zsl_def)

lemma put_same_zsl: "synced (mm_of a w) s \<Longrightarrow> same_zsl a w (put_mm a s w)"
  by (simp add: same_zsl_def synced_def)

lemma same_requests_refl [simp]: "same_requests a w w"
  by (simp add: same_requests_def)

lemma flush_same: "same_requests a w (flush_all a w) \<and> same_zsl a w (flush_all a w)"
  unfolding flush_all_def on_mm_def by (simp add: put_same_requests put_same_zsl)

text \<open>The commands that leave the requests and the mode of notification alone.\<close>

fun neutral :: "channel_cmd \<Rightarrow> bool" where
  "neutral (MM_CAMERA_CMD_TYPE_REQ_DATA_CB r) = False"
| "neutral (MM_CAMERA_CMD_TYPE_CONFIG_NOTIFY m) = False"
| "neutral _ = True"

fun manual :: "channel_cmd \<Rightarrow> bool" where
  "manual MM_CAMERA_CMD_TYPE_START_ZSL = True"
| "manual MM_CAMERA_CMD_TYPE_STOP_ZSL = True"
| "manual _ = False"

lemma general_same:
  "general_command a g w = Inr w' \<Longrightarrow> same_requests a w w' \<and> same_zsl a w w'"
proof -
  assume run: "general_command a g w = Inr w'"
  have "same_requests a w (on_sb a f (flush_all a w)) \<and> same_zsl a w (on_sb a f (flush_all a w))"
    if "\<And>c. mode_of (f c) = mode_of c" "\<And>c. startZSlSnapshotCalled (f c) = startZSlSnapshotCalled c" for f
    using flush_same [of a w] that by (simp add: same_requests_def same_zsl_def on_sb_def)
  moreover have "same_requests a w (on_chan a (\<lambda>_. c) w) \<and> same_zsl a w (on_chan a (\<lambda>_. c) w)"
    if "capture_setting start fc (chans w a) = Inr c" for start fc c
    using that by (auto simp: capture_setting_def same_requests_def same_zsl_def Let_def split: if_splits)
  ultimately show ?thesis
    using run by (cases g) (auto simp: bracketing_def and_then_def split: sum.splits)
qed

lemma serve_command_same:
  assumes "serve_command E a cmd w = Some (Inr w')"
  shows "neutral cmd \<Longrightarrow> same_requests a w w'" "\<not> manual cmd \<Longrightarrow> same_zsl a w w'"
proof -
  have data: "same_requests a w w' \<and> same_zsl a w w'" if c: "cmd = MM_CAMERA_CMD_TYPE_DATA_CB b" for b
  proof -
    obtain rc s where s: "mm_channel_superbuf_comp_and_enqueue (intact_mem E) (alloc E (allocs w)) b (mm_of a w) = Inr (rc, s)"
        "w' = put_mm a s (w\<lparr>allocs := allocs w + 1\<rparr>)"
      using assms c by (auto simp: and_then_def split: sum.splits)
    then show ?thesis
      using synced_enqueue [OF s(1)] by (simp add: same_requests_def same_zsl_def synced_def)
  qed
  have flush: "same_requests a w w' \<and> same_zsl a w w'" if "cmd = MM_CAMERA_CMD_TYPE_FLUSH_QUEUE f t" for f t
  proof -
    let ?w = "on_sb a (set_expected f) w"
    have "synced (mm_of a ?w) (mm_channel_superbuf_flush t (mm_of a ?w))"
      by simp
    from put_same_requests [OF this] put_same_zsl [OF this] show ?thesis
      using assms that by (auto simp: on_mm_def same_requests_def same_zsl_def on_sb_def)
  qed
  have req: "same_zsl a w w'" if c: "cmd = MM_CAMERA_CMD_TYPE_REQ_DATA_CB r" for r
  proof -
    let ?w = "on_chan a (request_bufs r) w"
    obtain s where s: "mm_channel_superbuf_skip (mm_of a ?w) = Some s" "w' = put_mm a s ?w"
      using assms c by (auto simp: Let_def)
    have "synced (mm_of a ?w) s"
      using s(1) synced_reduce by (auto simp: mm_channel_superbuf_skip_def split: if_splits)
    from same_zsl_trans [OF _ put_same_zsl [OF this]] show ?thesis
      using s(2) by (simp add: same_zsl_def request_bufs_def Let_def)
  qed
  show "neutral cmd \<Longrightarrow> same_requests a w w'"
    using assms data flush general_same
    by (cases cmd) (auto simp: same_requests_def call_zsl_def)
  show "\<not> manual cmd \<Longrightarrow> same_zsl a w w'"
    using assms data flush req general_same
    by (cases cmd) (auto simp: same_zsl_def on_sb_def)
qed

lemma update_zsl_requests: "same_requests a w (update_zsl a w)"
proof -
  have "same_requests a w (on_sb a future_captures w)"
    by (simp add: same_requests_def on_sb_def future_captures_def)
  from same_requests_trans [OF this] flush_same
  have flushed: "same_requests a w (flush_all a (on_sb a future_captures w))"
    by blast
  have started: "same_requests a u (zsl_started a u)" for u
    by (simp add: same_requests_def zsl_started_def on_sb_def call_zsl_def Let_def)
  show ?thesis
    using same_requests_trans [OF flushed started]
    by (auto simp: update_zsl_def Let_def started)
      (simp_all add: same_requests_def on_sb_def zsl_stopped_def call_zsl_def)
qed

text \<open>In burst mode, with requests for superbufs of the channel itself and with its callback.\<close>

definition burst :: "addr \<Rightarrow> thread_world \<Rightarrow> bool" where
  "burst a w \<longleftrightarrow> req_type (chans w a) = MM_CAMERA_REQ_SUPER_BUF \<and> super_buf_notify_cb (chans w a)
     \<and> mode_of (sb (chans w a)) = MM_CAMERA_SUPER_BUF_NOTIFY_BURST"

definition req_ledger :: "addr \<Rightarrow> thread_world \<Rightarrow> nat" where
  "req_ledger a w = length (sent w) + unat (pending_cnt (chans w a))"

lemma same_requests_burst:
  "same_requests a w w' \<Longrightarrow> burst a w' = burst a w \<and> req_ledger a w' = req_ledger a w"
  by (simp add: same_requests_def burst_def req_ledger_def)

lemma count_superbuf_requests:
  assumes "count_superbuf a w = Inr w'"
  shows "pending_cnt (chans w' a) = pending_cnt (chans w a) - 1 \<and> burst a w' = burst a w \<and> sent w' = sent w"
proof -
  have capture: "pending_cnt d = pending_cnt c \<and> req_type d = req_type c
      \<and> super_buf_notify_cb d = super_buf_notify_cb c \<and> mode_of (sb d) = mode_of (sb c)"
    if "count_capture c = Inr d" for c d
    using that by (auto simp: count_capture_def Let_def split: if_splits)
  have pending: "pending_cnt (count_pending c) = pending_cnt c - 1 \<and> req_type (count_pending c) = req_type c
      \<and> super_buf_notify_cb (count_pending c) = super_buf_notify_cb c
      \<and> mode_of (sb (count_pending c)) = mode_of (sb c)" for c
    by (simp add: count_pending_def Let_def)
  have stopped: "pending_cnt (chans (zsl_stopped a u) a) = pending_cnt (chans u a) \<and> burst a (zsl_stopped a u) = burst a u
      \<and> sent (zsl_stopped a u) = sent u" for u
    by (simp add: zsl_stopped_def burst_def)
  define w1 where "w1 = on_chan a count_pending w"
  define w2 where "w2 = (if (pending_cnt (chans w1 a) = 0 \<or> stopZslSnapshot (sb (chans w1 a)))
     \<and> \<not> manualZSLSnapshot (chans w1 a) \<and> startZSlSnapshotCalled (sb (chans w1 a)) then zsl_stopped a w1 else w1)"
  have w2: "pending_cnt (chans w2 a) = pending_cnt (chans w a) - 1" "burst a w2 = burst a w" "sent w2 = sent w"
    using stopped [of w1] pending [of "chans w a"] by (simp_all add: w2_def) (simp_all add: w1_def burst_def)
  obtain c where c: "count_capture (chans w2 a) = Inr c" "w' = on_chan a (\<lambda>_. c) w2"
    using assms by (auto simp: count_superbuf_def Let_def w1_def [symmetric] w2_def [symmetric] and_then_def split: sum.splits)
  then show ?thesis
    using capture [OF c(1)] w2 by (simp add: burst_def)
qed

lemma dispatch_turn_requests:
  assumes "dispatch_turn E a MM_CAMERA_SUPER_BUF_NOTIFY_BURST w = Inr (go, w')"
    and "thread_ok A w" and "a \<in> A" and "burst a w" and "\<And>n. alloc E n" and "0 < pending_cnt (chans w a)"
  shows "burst a w' \<and> req_ledger a w' = req_ledger a w"
  using assms(1)
proof (cases rule: dispatch_turn_cases)
  case none
  then show ?thesis
    using same_requests_burst [OF dequeue_own_out(2) [OF assms(2,3), of "[]" w']] assms(4)
    by (simp add: burst_def split: if_splits)
next
  case (some ns w1 w2)
  have own: "dequeue_own a w = Inr (ns, w1)"
    using some(3) assms(4) by (simp add: burst_def)
  obtain n where ns: "ns = [(a, n)]"
    using dequeue_own_out(4) [OF assms(2,3) own] some(2) by blast
  have w1: "same_requests a w w1"
    using dequeue_own_out(2) [OF assms(2,3) own] .
  then have b1: "burst a w1" "0 < pending_cnt (chans w1 a)"
    using assms(4,6) same_requests_burst [OF w1] by (auto simp: same_requests_def)
  have w2: "pending_cnt (chans w2 a) = pending_cnt (chans w1 a) - 1" "burst a w2" "sent w2 = sent w1"
    using some(4) count_superbuf_requests [of a w1 w2] b1(1) by auto
  have "super_buf_notify_cb (chans w2 a)"
    using w2(2) by (simp add: burst_def)
  then have "\<exists>msg. w' = on_chan a (\<lambda>c. c\<lparr>unLockAEC := False\<rparr>) (w2\<lparr>allocs := allocs w2 + 1, sent := sent w2 @ [msg]\<rparr>)"
    using some(5) assms(5) [of "allocs w2"] unfolding ns mm_channel_send_super_buf.simps Let_def by auto
  then have w': "pending_cnt (chans w' a) = pending_cnt (chans w2 a)" "burst a w' = burst a w2"
      "length (sent w') = Suc (length (sent w2))"
    by (auto simp: burst_def)
  have "unat (pending_cnt (chans w1 a) - 1) = unat (pending_cnt (chans w1 a)) - 1"
    using b1(2) by (simp add: unat_minus_one word_neq_0_conv)
  moreover obtain k where "unat (pending_cnt (chans w1 a)) = Suc k"
    using b1(2) by (cases "unat (pending_cnt (chans w1 a))") (auto simp: word_less_nat_alt)
  ultimately show ?thesis
    using w' w2 same_requests_burst [OF w1] by (simp add: req_ledger_def)
qed

lemma dispatch_loop_requests:
  assumes "thread_ok A w" and "a \<in> A" and "burst a w" and "\<And>n. alloc E n"
    and "dispatch_loop E a MM_CAMERA_SUPER_BUF_NOTIFY_BURST w = Some (Inr w')"
  shows "burst a w' \<and> req_ledger a w' = req_ledger a w"
  using assms(1,3,5)
proof (induction "waiting A w" arbitrary: w rule: less_induct)
  case less
  note loop = less.prems(3) [unfolded dispatch_loop.simps [of E a _ w]]
  show ?case
  proof (cases "may_dispatch MM_CAMERA_SUPER_BUF_NOTIFY_BURST (chans w a)")
    case False
    then show ?thesis
      using loop less.prems(2) by simp
  next
    case True
    then have pending: "0 < pending_cnt (chans w a)"
      by (simp add: may_dispatch_def)
    obtain go w1 where turn: "dispatch_turn E a MM_CAMERA_SUPER_BUF_NOTIFY_BURST w = Inr (go, w1)"
      using loop True by (cases "dispatch_turn E a MM_CAMERA_SUPER_BUF_NOTIFY_BURST w") auto
    note w1 = dispatch_turn_requests [OF turn less.prems(1) assms(2) less.prems(2) assms(4) pending]
    show ?thesis
    proof (cases go)
      case go: True
      have "moves A {#} w w1" "waiting A w1 < waiting A w"
        using dispatch_turn_moves [OF turn less.prems(1) assms(2)] go by auto
      then show ?thesis
        using less.hyps [of w1] w1 loop True turn go moves_ok by auto
    next
      case False
      then show ?thesis
        using w1 loop True turn by simp
    qed
  qed
qed

lemma after_command_requests:
  assumes "after_command E a w = Some (Inr w')" and "thread_ok A w" and "a \<in> A" and "burst a w"
    and "\<And>n. alloc E n"
  shows "burst a w' \<and> req_ledger a w' = req_ledger a w"
proof -
  define w1 where "w1 = update_zsl a w"
  obtain s where s: "mm_channel_superbuf_bufdone_overflow (mm_of a w1) = Some s"
      "dispatch_loop E a MM_CAMERA_SUPER_BUF_NOTIFY_BURST (put_mm a s w1) = Some (Inr w')"
    using assms(1,4) by (auto simp: after_command_def Let_def w1_def burst_def split: option.splits)
  have w1: "moves A {#} w w1" "same_requests a w w1"
    using update_zsl_moves [OF assms(2,3)] update_zsl_requests by (simp_all add: w1_def)
  have "same_requests a w1 (put_mm a s w1)"
    using s(1) synced_reduce by (intro put_same_requests)
      (auto simp: mm_channel_superbuf_bufdone_overflow_def split: if_splits)
  note w2 = same_requests_burst [OF same_requests_trans [OF w1(2) this]]
  obtain s' where "mm_channel_superbuf_bufdone_overflow (mm_of a w1) = Some s'"
      "moves A {#} w1 (put_mm a s' w1)"
    using skip_overflow_return(2) [OF moves_ok [OF w1(1)] assms(3)] by blast
  then have "thread_ok A (put_mm a s w1)"
    using s(1) moves_ok by auto
  from dispatch_loop_requests [OF this assms(3) _ assms(5) s(2)] show ?thesis
    using w2 assms(4) by simp
qed

section \<open>Runs\<close>

lemma process_cmds_Cons:
  assumes "process_cmds E ((a, cmd) # cmds) w = Some (Inr w')"
  obtains w1 where "mm_channel_process_stream_buf E a cmd w = Some (Inr w1)" "process_cmds E cmds w1 = Some (Inr w')"
  using assms by (auto split: option.splits sum.splits)

text \<open>The commands are of the channels of a set, and lose no buffer.\<close>

definition cmds_ok :: "addr set \<Rightarrow> thread_world \<Rightarrow> (addr \<times> channel_cmd) list \<Rightarrow> bool" where
  "cmds_ok A w cmds \<longleftrightarrow> (\<forall>(a, cmd) \<in> set cmds. a \<in> A \<and> lossless_cmd (queue (sb (chans w a))) cmd)"

lemma cmds_ok_later: "moves A B w w' \<Longrightarrow> cmds_ok A w' cmds = cmds_ok A w cmds"
  using lossless_cmd_setup by (fastforce simp: cmds_ok_def moves_def setups_def)

lemma process_cases:
  assumes "mm_channel_process_stream_buf E a cmd w = Some (Inr w')"
  obtains w1 where "serve_command E a cmd w = Some (Inr w1)"
    "(if \<exists>f t. cmd = MM_CAMERA_CMD_TYPE_FLUSH_QUEUE f t then Some (Inr w1) else after_command E a w1) = Some (Inr w')"
  using assms
  by (cases cmd) (auto simp: mm_channel_process_stream_buf_def simp del: serve_command.simps
      split: option.splits sum.splits)

lemma process_requests:
  assumes "mm_channel_process_stream_buf E a cmd w = Some (Inr w')" and "neutral cmd"
    and "thread_ok A w" and "a \<in> A" and "burst a w" and "\<And>n. alloc E n"
    and "lossless_cmd (queue (sb (chans w a))) cmd"
  shows "burst a w' \<and> req_ledger a w' = req_ledger a w"
  using assms(1)
proof (cases rule: process_cases)
  case (1 w1)
  have "moves A (brought cmd) w w1"
    using serve_command_moves [OF assms(3,4,7), of E] 1(1) by auto
  note ok = moves_ok [OF this]
  note w1 = same_requests_burst [OF serve_command_same(1) [OF 1(1) assms(2)]]
  show ?thesis
    using 1(2) w1 after_command_requests [OF _ ok assms(4) _ assms(6), of w'] assms(5)
    by (auto split: if_splits)
qed

lemma run_moves:
  assumes "thread_ok A w" and "cmds_ok A w cmds"
  shows "\<exists>r. process_cmds E cmds w = Some r
    \<and> (\<forall>w'. r = Inr w' \<longrightarrow> moves A (\<Sum>(a, cmd)\<leftarrow>cmds. brought cmd) w w')"
  using assms
proof (induction cmds arbitrary: w)
  case (Cons p cmds)
  obtain a cmd where p: "p = (a, cmd)"
    by (cases p)
  have cmd: "a \<in> A" "lossless_cmd (queue (sb (chans w a))) cmd" "cmds_ok A w cmds"
    using Cons.prems(2) p by (auto simp: cmds_ok_def)
  obtain r where r: "mm_channel_process_stream_buf E a cmd w = Some r"
      "\<And>w'. r = Inr w' \<Longrightarrow> moves A (brought cmd) w w'"
    using process_ok [OF Cons.prems(1) cmd(1,2), of E] by blast
  show ?case
  proof (cases r)
    case (Inr w1)
    have w1: "moves A (brought cmd) w w1"
      using r(2) [OF Inr] .
    obtain r' where r': "process_cmds E cmds w1 = Some r'"
        "\<And>w'. r' = Inr w' \<Longrightarrow> moves A (\<Sum>(a, cmd)\<leftarrow>cmds. brought cmd) w1 w'"
      using Cons.IH [OF moves_ok [OF w1]] cmd(3) cmds_ok_later [OF w1] by blast
    then show ?thesis
      using r(1) Inr p moves_trans [OF w1] by auto
  qed (use r(1) p in simp)
qed simp

lemma run_requests:
  assumes "process_cmds E (List.map (Pair a) cmds) w = Some (Inr w')" and "\<forall>cmd \<in> set cmds. neutral cmd"
    and "thread_ok A w" and "burst a w" and "\<And>n. alloc E n" and "cmds_ok A w (List.map (Pair a) cmds)"
    and "served a w"
  shows "burst a w' \<and> req_ledger a w' = req_ledger a w \<and> served a w'"
  using assms(1-4,6,7)
proof (induction cmds arbitrary: w)
  case (Cons cmd cmds)
  have run: "process_cmds E ((a, cmd) # List.map (Pair a) cmds) w = Some (Inr w')"
    using Cons.prems(1) by simp
  obtain w1 where w1: "mm_channel_process_stream_buf E a cmd w = Some (Inr w1)"
      "process_cmds E (List.map (Pair a) cmds) w1 = Some (Inr w')"
    by (rule process_cmds_Cons [OF run])
  have cmd: "a \<in> A" "lossless_cmd (queue (sb (chans w a))) cmd" "cmds_ok A w (List.map (Pair a) cmds)"
    using Cons.prems(5) by (auto simp: cmds_ok_def)
  have step: "burst a w1 \<and> req_ledger a w1 = req_ledger a w"
    using process_requests [OF w1(1) _ Cons.prems(3) cmd(1) Cons.prems(4) assms(5) cmd(2)] Cons.prems(2) by simp
  have moved: "moves A (brought cmd) w w1" "served a w1"
    using process_ok [OF Cons.prems(3) cmd(1,2), of E] w1(1) by auto
  show ?case
    using Cons.IH [OF w1(2) _ moves_ok [OF moved(1)] _ _ moved(2)] Cons.prems(2) step cmd(3)
      cmds_ok_later [OF moved(1)] by simp
qed simp

section \<open>Starts and stops of a snapshot\<close>

definition calls_of :: "addr \<Rightarrow> thread_world \<Rightarrow> bool list" where
  "calls_of a w = List.map snd (filter (\<lambda>(x, b). x = a) (zsl_calls w))"

definition alternate :: "bool list \<Rightarrow> bool" where
  "alternate bs \<longleftrightarrow> (\<forall>i < length bs. bs ! i = even i)"

lemma alternate_append: "alternate (bs @ [b]) \<longleftrightarrow> alternate bs \<and> b = even (length bs)"
  by (auto simp: alternate_def nth_append less_Suc_eq)

definition zsl_inv :: "addr \<Rightarrow> thread_world \<Rightarrow> bool" where
  "zsl_inv a w \<longleftrightarrow> \<not> manualZSLSnapshot (chans w a) \<and> alternate (calls_of a w)
     \<and> startZSlSnapshotCalled (sb (chans w a)) = odd (length (calls_of a w))"

definition zsl_idle :: "addr \<Rightarrow> thread_world \<Rightarrow> bool" where
  "zsl_idle a w \<longleftrightarrow> pending_cnt (chans w a) = 0 \<longrightarrow> \<not> startZSlSnapshotCalled (sb (chans w a))"

lemma same_zsl_inv: "same_zsl a w w' \<Longrightarrow> zsl_inv a w \<Longrightarrow> zsl_inv a w'"
  by (simp add: same_zsl_def zsl_inv_def calls_of_def)

definition same_zsl_pending :: "addr \<Rightarrow> thread_world \<Rightarrow> thread_world \<Rightarrow> bool" where
  "same_zsl_pending a w w' \<longleftrightarrow> same_zsl a w w' \<and> pending_cnt (chans w' a) = pending_cnt (chans w a)"

lemma same_zsl_pending_keeps:
  assumes "same_zsl_pending a w w'"
  shows "zsl_inv a w \<Longrightarrow> zsl_inv a w'" "zsl_idle a w' = zsl_idle a w"
  using assms same_zsl_inv by (auto simp: same_zsl_pending_def zsl_idle_def same_zsl_def)

lemma same_zsl_pending_refl [simp]: "same_zsl_pending a w w"
  by (simp add: same_zsl_pending_def)

lemma same_zsl_pending_trans:
  "same_zsl_pending a u v \<Longrightarrow> same_zsl_pending a v w \<Longrightarrow> same_zsl_pending a u w"
  by (simp add: same_zsl_pending_def same_zsl_def)

lemma calls_started: "calls_of a (call_zsl a b w) = calls_of a w @ [b]"
  by (simp add: calls_of_def call_zsl_def)

lemma zsl_started_inv:
  assumes "zsl_inv a w" and "\<not> startZSlSnapshotCalled (sb (chans w a))"
  shows "zsl_inv a (zsl_started a w)" "pending_cnt (chans (zsl_started a w) a) = pending_cnt (chans w a)"
proof -
  have "calls_of a (zsl_started a w) = calls_of a w @ [True]"
    by (simp add: zsl_started_def Let_def on_sb_def calls_of_def call_zsl_def)
  then show "zsl_inv a (zsl_started a w)"
    using assms by (simp add: zsl_inv_def alternate_append) (simp add: zsl_started_def Let_def on_sb_def)
  show "pending_cnt (chans (zsl_started a w) a) = pending_cnt (chans w a)"
    by (simp add: zsl_started_def Let_def on_sb_def)
qed

lemma zsl_stopped_inv:
  assumes "zsl_inv a w" and "startZSlSnapshotCalled (sb (chans w a))"
  shows "zsl_inv a (zsl_stopped a w)" "\<not> startZSlSnapshotCalled (sb (chans (zsl_stopped a w) a))"
proof -
  have "calls_of a (zsl_stopped a w) = calls_of a w @ [False]"
    by (simp add: zsl_stopped_def calls_of_def call_zsl_def)
  then show "zsl_inv a (zsl_stopped a w)"
    using assms by (simp add: zsl_inv_def alternate_append) (simp add: zsl_stopped_def)
  show "\<not> startZSlSnapshotCalled (sb (chans (zsl_stopped a w) a))"
    by (simp add: zsl_stopped_def)
qed

lemma update_zsl_inv:
  assumes "zsl_inv a w"
  shows "zsl_inv a (update_zsl a w) \<and> zsl_idle a (update_zsl a w)"
proof -
  let ?c = "chans w a"
  have manual: "\<not> manualZSLSnapshot ?c"
    using assms by (simp add: zsl_inv_def)
  consider (config) "isConfigCapture (sb ?c) \<and> need_start_zsl ?c"
    | (flash) "\<not> (isConfigCapture (sb ?c) \<and> need_start_zsl ?c)" "0 < pending_cnt ?c
        \<and> (needLEDFlash (sb ?c) \<or> bracketingState (sb ?c) \<noteq> MM_CHANNEL_BRACKETING_STATE_OFF)
        \<and> \<not> startZSlSnapshotCalled (sb ?c)"
    | (stop) "\<not> (isConfigCapture (sb ?c) \<and> need_start_zsl ?c)"
        "(pending_cnt ?c = 0 \<or> stopZslSnapshot (sb ?c)) \<and> startZSlSnapshotCalled (sb ?c)"
        "update_zsl a w = on_sb a (\<lambda>c. c\<lparr>bWaitForPrepSnapshotDone := False\<rparr>) (zsl_stopped a w)"
    | (idle) "update_zsl a w = w" "pending_cnt ?c = 0 \<longrightarrow> \<not> startZSlSnapshotCalled (sb ?c)"
    using manual unfolding update_zsl_def Let_def by presburger
  then show ?thesis
  proof cases
    case config
    have "same_zsl_pending a w (on_sb a future_captures w)"
      by (simp add: same_zsl_pending_def same_zsl_def on_sb_def future_captures_def)
    then have flushed: "same_zsl_pending a w (flush_all a (on_sb a future_captures w))"
      using flush_same [of a "on_sb a future_captures w"]
      by (auto simp: same_zsl_pending_def same_zsl_def same_requests_def)
    have pending: "0 < pending_cnt ?c" "\<not> startZSlSnapshotCalled (sb ?c)"
      using config by (auto simp: need_start_zsl_def)
    have "zsl_inv a (flush_all a (on_sb a future_captures w))"
        "\<not> startZSlSnapshotCalled (sb (chans (flush_all a (on_sb a future_captures w)) a))"
      using same_zsl_pending_keeps(1) [OF flushed assms] flushed pending
      by (auto simp: same_zsl_pending_def same_zsl_def)
    from zsl_started_inv [OF this] show ?thesis
      using config flushed pending by (auto simp: update_zsl_def Let_def zsl_idle_def same_zsl_pending_def)
  next
    case flash
    then show ?thesis
      using zsl_started_inv [OF assms] manual by (auto simp: update_zsl_def Let_def zsl_idle_def)
  next
    case stop
    have "same_zsl_pending a (zsl_stopped a w) (update_zsl a w)"
      unfolding stop(3) by (simp add: same_zsl_pending_def same_zsl_def on_sb_def)
    from same_zsl_pending_keeps [OF this] show ?thesis
      using zsl_stopped_inv [OF assms] stop(2) by (auto simp: zsl_idle_def)
  qed (use assms in \<open>simp add: zsl_idle_def\<close>)
qed

lemma count_superbuf_inv:
  assumes "count_superbuf a w = Inr w'" and "zsl_inv a w"
  shows "zsl_inv a w' \<and> zsl_idle a w'"
proof -
  define w1 where "w1 = on_chan a count_pending w"
  have w1: "zsl_inv a w1"
    using assms(2) by (simp add: w1_def zsl_inv_def calls_of_def count_pending_def Let_def)
  define w2 where "w2 = (if (pending_cnt (chans w1 a) = 0 \<or> stopZslSnapshot (sb (chans w1 a)))
     \<and> \<not> manualZSLSnapshot (chans w1 a) \<and> startZSlSnapshotCalled (sb (chans w1 a)) then zsl_stopped a w1 else w1)"
  have w2: "zsl_inv a w2" "zsl_idle a w2"
    using w1 zsl_stopped_inv [OF w1] by (auto simp: w2_def zsl_idle_def zsl_inv_def)
  obtain c where c: "count_capture (chans w2 a) = Inr c" "w' = on_chan a (\<lambda>_. c) w2"
    using assms(1) by (auto simp: count_superbuf_def Let_def w1_def [symmetric] w2_def [symmetric] and_then_def split: sum.splits)
  have "same_zsl_pending a w2 w'"
    using c by (auto simp: same_zsl_pending_def same_zsl_def count_capture_def Let_def split: if_splits)
  from same_zsl_pending_keeps [OF this] show ?thesis
    using w2 by simp
qed

lemma give_back_zsl: "give_back b n w = Inr w' \<Longrightarrow> same_zsl_pending a w w'"
  by (auto simp: give_back_def mm_channel_node_qbuf_def same_zsl_pending_def same_zsl_def split: if_splits)

lemma give_all_back_zsl: "give_all_back ns w = Inr w' \<Longrightarrow> same_zsl_pending a w w'"
proof (induction ns w rule: give_all_back.induct)
  case (2 b n ns w)
  then show ?case
    using give_back_zsl [of b n w] same_zsl_pending_trans by (cases "give_back b n w") fastforce+
qed simp

lemma take_frames_zsl: "take_frames f as w = (ns, w') \<Longrightarrow> same_zsl_pending a w w'"
proof (induction f as w arbitrary: ns w' rule: take_frames.induct)
  case (3 f b as w)
  have own: "same_zsl_pending a w (on_sb b (on_queue (\<lambda>_. q)) w)" for q
    by (simp add: same_zsl_pending_def same_zsl_def on_sb_def)
  obtain r q where r: "mm_channel_superbuf_dequeue_frame_internal f (queue (sb (chans w b))) = (r, q)"
    by (cases "mm_channel_superbuf_dequeue_frame_internal f (queue (sb (chans w b)))")
  show ?case
  proof (cases r)
    case None
    then show ?thesis
      using 3 r by simp
  next
    case (Some n)
    obtain ms w1 where rest: "take_frames f as (on_sb b (on_queue (\<lambda>_. q)) w) = (ms, w1)"
      by (cases "take_frames f as (on_sb b (on_queue (\<lambda>_. q)) w)")
    then show ?thesis
      using 3(2) [OF r [symmetric] Some rest] same_zsl_pending_trans [OF own] 3(3) r Some by auto
  qed
qed simp_all

lemma dequeue_zsl:
  assumes "(if req_type (chans w a) = MM_CAMERA_REQ_FRAME_SYNC_BUF then dequeue_synced w else dequeue_own a w) = Inr (ns, w')"
  shows "same_zsl_pending a w w'"
proof -
  have synced: "same_zsl_pending a w w'" if run: "dequeue_synced w = Inr (ns, w')"
  proof -
    define f where "f = mm_frame_sync_find_matched False (fs (mm w))"
    obtain ms w1 where frames: "take_frames f (ch_obj (fs (mm w))) w = (ms, w1)"
      by (cases "take_frames f (ch_obj (fs (mm w))) w")
    define w2 where "w2 = w1\<lparr>mm := (mm w1)\<lparr>fs := snd (mm_frame_sync_remove f (fs (mm w1)))\<rparr>\<rparr>"
    have w2: "same_zsl_pending a w w2"
      using take_frames_zsl [OF frames, of a] by (simp add: w2_def same_zsl_pending_def same_zsl_def)
    show ?thesis
      using run frames w2 same_zsl_pending_trans [OF w2 give_all_back_zsl]
      by (auto simp: dequeue_synced_def f_def [symmetric] w2_def [symmetric] Let_def and_then_def
          split: if_splits sum.splits)
  qed
  have own: "same_zsl_pending a w w'" if run: "dequeue_own a w = Inr (ns, w')"
  proof -
    obtain r s where r: "mm_channel_superbuf_dequeue (mm_of a w) = (r, s)"
      by (cases "mm_channel_superbuf_dequeue (mm_of a w)")
    have w1: "same_zsl_pending a w (put_mm a s w)"
      using put_same_zsl [OF synced_dequeue] r
      by (simp add: mm_channel_superbuf_dequeue_def same_zsl_pending_def)
    show ?thesis
      using run r w1 same_zsl_pending_trans [OF w1 give_back_zsl]
      by (auto simp: dequeue_own_def Let_def and_then_def split: option.splits if_splits sum.splits)
  qed
  show ?thesis
    using assms synced own by (simp split: if_splits)
qed

lemma send_zsl: "mm_channel_send_super_buf E ns w = Inr w' \<Longrightarrow> same_zsl_pending a w w'"
proof (induction ns arbitrary: w)
  case (Cons p ns)
  obtain b n where p: "p = (b, n)"
    by (cases p)
  show ?case
  proof (cases "super_buf_notify_cb (chans w b) \<and> alloc E (allocs w)")
    case True
    then obtain msg where run: "mm_channel_send_super_buf E ns (on_chan b (\<lambda>c. c\<lparr>unLockAEC := False\<rparr>)
        (w\<lparr>allocs := allocs w + 1, sent := sent w @ [msg]\<rparr>)) = Inr w'"
      using Cons.prems p by (auto simp: Let_def)
    have "same_zsl_pending a w (on_chan b (\<lambda>c. c\<lparr>unLockAEC := False\<rparr>)
        (w\<lparr>allocs := allocs w + 1, sent := sent w @ [msg]\<rparr>))"
      by (simp add: same_zsl_pending_def same_zsl_def)
    from same_zsl_pending_trans [OF this Cons.IH [OF run]] show ?thesis .
  next
    case False
    then obtain v w1 where v: "v = w \<or> v = w\<lparr>allocs := allocs w + 1\<rparr>" "give_back b n v = Inr w1"
        "mm_channel_send_super_buf E ns w1 = Inr w'"
      using Cons.prems p by (auto simp: and_then_def split: if_splits sum.splits)
    have "same_zsl_pending a w v"
      using v(1) by (auto simp: same_zsl_pending_def same_zsl_def)
    from same_zsl_pending_trans [OF same_zsl_pending_trans [OF this give_back_zsl [OF v(2)]] Cons.IH [OF v(3)]]
    show ?thesis .
  qed
qed simp

lemma dispatch_turn_inv:
  assumes "dispatch_turn E a m w = Inr (go, w')" and "zsl_inv a w" and "zsl_idle a w"
  shows "zsl_inv a w' \<and> zsl_idle a w'"
  using assms(1)
proof (cases rule: dispatch_turn_cases)
  case none
  then show ?thesis
    using same_zsl_pending_keeps [OF dequeue_zsl] assms(2,3) by auto
next
  case (some ns w1 w2)
  have w1: "zsl_inv a w1" "zsl_idle a w1"
    using same_zsl_pending_keeps [OF dequeue_zsl [OF some(3)]] assms(2,3) by auto
  then have "zsl_inv a w2 \<and> zsl_idle a w2"
    using some(4) count_superbuf_inv by (auto split: if_splits)
  then show ?thesis
    using same_zsl_pending_keeps [OF send_zsl [OF some(5)]] by auto
qed

lemma dispatch_loop_inv:
  assumes "dispatch_loop E a m w = Some r"
  shows "zsl_inv a w \<longrightarrow> zsl_idle a w \<longrightarrow> (\<forall>w'. r = Inr w' \<longrightarrow> zsl_inv a w' \<and> zsl_idle a w')"
proof (rule dispatch_loop.raw_induct [OF _ assms], intro impI allI)
  fix loop E a m w r w'
  assume 1: "\<And>E a m w r. loop E a m w = Some r \<Longrightarrow>
        zsl_inv a w \<longrightarrow> zsl_idle a w \<longrightarrow> (\<forall>w'. r = Inr w' \<longrightarrow> zsl_inv a w' \<and> zsl_idle a w')"
    "(if may_dispatch m (chans w a)
      then (case dispatch_turn E a m w of
              Inl e \<Rightarrow> Some (Inl e)
            | Inr p \<Rightarrow> (if fst p then loop E a m (snd p) else Some (Inr (snd p))))
      else Some (Inr w)) = Some r"
    "zsl_inv a w" "zsl_idle a w" "r = Inr w'"
  show "zsl_inv a w' \<and> zsl_idle a w'"
  proof (cases "may_dispatch m (chans w a)")
    case False
    then show ?thesis
      using 1 by simp
  next
    case True
    then obtain go w1 where turn: "dispatch_turn E a m w = Inr (go, w1)"
      using 1(2,5) by (cases "dispatch_turn E a m w") auto
    have w1: "zsl_inv a w1" "zsl_idle a w1"
      using dispatch_turn_inv [OF turn 1(3,4)] by auto
    show ?thesis
    proof (cases go)
      case go: True
      then have "loop E a m w1 = Some r"
        using 1(2) True turn by simp
      then show ?thesis
        using 1(1) w1 1(5) by blast
    next
      case False
      then show ?thesis
        using 1(2,5) True turn w1 by simp
    qed
  qed
qed

lemma process_zsl:
  assumes "mm_channel_process_stream_buf E a cmd w = Some (Inr w')" and "\<not> manual cmd" and "zsl_inv a w"
  shows "zsl_inv a w' \<and> ((\<exists>f t. cmd = MM_CAMERA_CMD_TYPE_FLUSH_QUEUE f t) \<or> zsl_idle a w')"
  using assms(1)
proof (cases rule: process_cases)
  case (1 w1)
  have w1: "zsl_inv a w1"
    using same_zsl_inv [OF serve_command_same(2) [OF 1(1) assms(2)] assms(3)] .
  show ?thesis
  proof (cases "\<exists>f t. cmd = MM_CAMERA_CMD_TYPE_FLUSH_QUEUE f t")
    case True
    then show ?thesis
      using 1(2) w1 by auto
  next
    case False
    define w2 where "w2 = update_zsl a w1"
    obtain s where s: "mm_channel_superbuf_bufdone_overflow (mm_of a w2) = Some s"
        "dispatch_loop E a (mode_of (sb (chans w1 a))) (put_mm a s w2) = Some (Inr w')"
      using 1(2) False by (auto simp: after_command_def Let_def w2_def split: option.splits)
    have "synced (mm_of a w2) s"
      using s(1) synced_reduce by (auto simp: mm_channel_superbuf_bufdone_overflow_def split: if_splits)
    then have "same_zsl_pending a w2 (put_mm a s w2)"
      using put_same_zsl by (simp add: same_zsl_pending_def)
    from same_zsl_pending_keeps [OF this] have "zsl_inv a (put_mm a s w2)" "zsl_idle a (put_mm a s w2)"
      using update_zsl_inv [OF w1] by (auto simp: w2_def)
    then show ?thesis
      using dispatch_loop_inv [OF s(2)] by blast
  qed
qed

lemma run_zsl:
  "process_cmds E (List.map (Pair a) cmds) w = Some (Inr w') \<Longrightarrow> \<forall>cmd \<in> set cmds. \<not> manual cmd \<Longrightarrow>
    zsl_inv a w \<Longrightarrow> zsl_inv a w'"
proof (induction cmds arbitrary: w)
  case (Cons cmd cmds)
  have run: "process_cmds E ((a, cmd) # List.map (Pair a) cmds) w = Some (Inr w')"
    using Cons.prems(1) by simp
  obtain w1 where w1: "mm_channel_process_stream_buf E a cmd w = Some (Inr w1)"
      "process_cmds E (List.map (Pair a) cmds) w1 = Some (Inr w')"
    by (rule process_cmds_Cons [OF run])
  then show ?case
    using Cons.IH [OF w1(2)] process_zsl [OF w1(1)] Cons.prems(2,3) by simp
qed simp

lemma process_cmds_append:
  "process_cmds E (xs @ ys) w =
    (case process_cmds E xs w of
       None \<Rightarrow> None
     | Some (Inl e) \<Rightarrow> Some (Inl e)
     | Some (Inr w) \<Rightarrow> process_cmds E ys w)"
  by (induction E xs w rule: process_cmds.induct) (auto split: option.splits sum.splits)

lemma process_cmds_snoc:
  assumes "process_cmds E (List.map (Pair a) (cmds @ [cmd])) w = Some (Inr w')"
  obtains w1 where "process_cmds E (List.map (Pair a) cmds) w = Some (Inr w1)"
    "mm_channel_process_stream_buf E a cmd w1 = Some (Inr w')"
  using assms by (auto simp: process_cmds_append split: option.splits sum.splits)

end
