(* ===== verification/SuperbufThreadProperties.thy ===== *)
theory SuperbufThreadProperties
  imports SuperbufRequests
begin

text \<open>
  What the command threads of the camera channels guarantee: no buffer is lost, a request is
  met exactly, and the snapshots without shutter lag are started and stopped in turn.
\<close>

section \<open>Channels just started\<close>

text \<open>The channels of a set, as \<open>mm_channel_start\<close> leaves them.\<close>

definition threads_started :: "addr set \<Rightarrow> thread_world \<Rightarrow> bool" where
  "threads_started A w \<longleftrightarrow> finite A \<and> (\<forall>a. Some a \<in> set (ch_obj (fs (mm w))) \<longrightarrow> a \<in> A)
     \<and> (\<forall>a\<in>A. just_started (queue (sb (chans w a))) \<and> keeps_order (queue (sb (chans w a))))
     \<and> events (mm w) = [] \<and> sent w = []"

lemma threads_started_ok:
  assumes "threads_started A w"
  shows "thread_ok A w" "pool A w = {#}"
  using assms started_ok
  by (auto simp: threads_started_def thread_ok_def chan_ok_def pool_def returned_bufs_def sent_bufs_def)

section \<open>Two cameras\<close>

text \<open>Two synchronised channels with the addresses 1 and 2, just started.\<close>

definition zsl_of :: "bool \<Rightarrow> addr \<Rightarrow> zsl_channel" where
  "zsl_of both a =
    (let c = fst (a_channel MM_CAMERA_SUPER_BUF_PRIORITY_NORMAL 4)
     in \<lparr>sb = on_queue (\<lambda>q. q\<lparr>attr := (attr q)\<lparr>enable_frame_sync := both, water_mark := 2\<rparr>\<rparr>) (c\<lparr>self := a\<rparr>),
          pending_cnt = 0, pending_retro_cnt = 0, req_type = MM_CAMERA_REQ_SUPER_BUF, unLockAEC = False,
          manualZSLSnapshot = False, configs = replicate MAX_CAPTURE_BATCH_NUM zero_settings,
          super_buf_notify_cb = True\<rparr>)"

definition two_cameras :: "bool \<Rightarrow> thread_world" where
  "two_cameras both =
    (let reg = \<lambda>a fs. snd (mm_frame_sync_register_channel a fs)
     in \<lparr>chans = zsl_of both,
          mm = \<lparr>fs = if both then reg 2 (reg 1 mm_frame_sync_reset) else mm_frame_sync_reset, events = []\<rparr>,
          sent = [], zsl_calls = [], allocs = 0\<rparr>)"

definition good_env :: alloc_env where
  "good_env = \<lparr>alloc = \<lambda>_. True, intact_mem = True\<rparr>"

definition data :: "uint32 \<Rightarrow> uint32 \<Rightarrow> addr \<Rightarrow> channel_cmd" where
  "data h f a = MM_CAMERA_CMD_TYPE_DATA_CB (a_frame h f a)"

definition request :: "req_buf_type \<Rightarrow> uint32 \<Rightarrow> channel_cmd" where
  "request t n = MM_CAMERA_CMD_TYPE_REQ_DATA_CB \<lparr>rb_type = t, num_buf_requested = n, num_retro_buf_requested = 0\<rparr>"

definition synced_frames :: "(addr \<times> channel_cmd) list" where
  "synced_frames =
    [(1, request MM_CAMERA_REQ_FRAME_SYNC_BUF 1), (1, data 1 5 10), (2, data 2 5 21), (1, data 2 5 11),
     (2, data 1 5 20), (2, data 3 5 22), (1, data 3 5 12), (2, data 1 6 23)]"

definition burst_frames :: "channel_cmd list" where
  "burst_frames = [data 1 5 10, data 2 5 11, data 3 5 12, data 1 6 13]"

declare reduce_loop.simps [code] dispatch_loop.simps [code]

lemma synced_frames_run:
  "case process_cmds good_env synced_frames (two_cameras True) of
     Some (Inr w) \<Rightarrow> List.map msg_ch (sent w) = [1, 2] \<and> pending_cnt (chans w 1) = 0
   | _ \<Rightarrow> False"
  by code_simp

lemma burst_frames_run:
  "case process_cmds good_env (List.map (Pair 1) (request MM_CAMERA_REQ_SUPER_BUF 2 # burst_frames))
     (two_cameras False) of
     Some (Inr w) \<Rightarrow> length (sent w) = 1
   | _ \<Rightarrow> False"
  by code_simp

lemma replicate_twice: "replicate 2 x = [x, x]"
  by (simp add: numeral_2_eq_2)

lemma two_cameras_started:
  "threads_started {1, 2} (two_cameras both)"
  by (auto simp: threads_started_def two_cameras_def Let_def zsl_of_def just_started_def keeps_order_def
      a_channel_def MAX_STREAM_NUM_IN_BUNDLE_def mm_frame_sync_register_channel_def mm_frame_sync_reset_def
      MAX_NUM_CAMERA_PER_BUNDLE_def replicate_twice)

definition bracketed_frames :: "channel_cmd list" where
  "bracketed_frames =
    [MM_CAMERA_CMD_TYPE_GENERAL (MM_CAMERA_GENERIC_CMD_TYPE_AE_BRACKETING 1),
     request MM_CAMERA_REQ_SUPER_BUF 1, data 1 5 10]"

lemma bracketed_frames_run:
  "case process_cmds good_env (List.map (Pair 1) (bracketed_frames @ [request MM_CAMERA_REQ_SUPER_BUF 0])) (two_cameras False) of
     Some (Inr w) \<Rightarrow> calls_of 1 w = [True, False]
   | _ \<Rightarrow> False"
  by code_simp

section \<open>Properties\<close>







end
