(* ===== verification/StreamOffsets.thy ===== *)
theory StreamOffsets
  imports CamStreamTypes
begin

text \<open>
  The layout of frames, \<open>mm_stream_calc_offset\<close> and its parts in
  \<open>mm-camera-interface/src/mm_camera_stream.c\<close>: from the format, the dimensions and the
  paddings of a stream to the planes of its buffers. Arithmetic is in 32 bits. The strides
  of the Venus video core are macros of a kernel header, an argument here; which of them
  the build has is a part of it.
\<close>

section \<open>Padding\<close>

definition PAD_TO_SIZE :: "32 word \<Rightarrow> 32 word \<Rightarrow> 32 word" where
  "PAD_TO_SIZE sz padding = (sz + (padding - 1)) AND NOT (padding - 1)"

definition CAM_PAD_TO_2 :: uint32 where "CAM_PAD_TO_2 = 2"
definition CAM_PAD_TO_4 :: uint32 where "CAM_PAD_TO_4 = 4"
definition CAM_PAD_TO_8 :: uint32 where "CAM_PAD_TO_8 = 8"
definition CAM_PAD_TO_16 :: uint32 where "CAM_PAD_TO_16 = 16"
definition CAM_PAD_TO_32 :: uint32 where "CAM_PAD_TO_32 = 32"
definition CAM_PAD_TO_64 :: uint32 where "CAM_PAD_TO_64 = 64"
definition CAM_PAD_TO_2K :: uint32 where "CAM_PAD_TO_2K = 2048"
definition CAM_PAD_TO_4K :: uint32 where "CAM_PAD_TO_4K = 4096"

lemmas cam_pad_defs = CAM_PAD_TO_2_def CAM_PAD_TO_4_def CAM_PAD_TO_8_def CAM_PAD_TO_16_def
  CAM_PAD_TO_32_def CAM_PAD_TO_64_def CAM_PAD_TO_2K_def CAM_PAD_TO_4K_def

section \<open>The stream, and the macros of the video core\<close>

record cam_stream_info =
  fmt :: cam_format
  stream_type :: cam_stream_type
  dim :: cam_dimension
  rotation_feature :: bool
  rotation :: cam_rotation
  reprocess_config :: cam_reproc_config
  buf_planes :: cam_frame_len_offset

datatype color_fmt = COLOR_FMT_NV12 | COLOR_FMT_NV21 | COLOR_FMT_NV12_UBWC

record venus_media =
  VENUS_PRESENT :: bool
  UBWC_PRESENT :: bool
  VENUS_Y_STRIDE :: "color_fmt \<Rightarrow> int32 \<Rightarrow> int32"
  VENUS_Y_SCANLINES :: "color_fmt \<Rightarrow> int32 \<Rightarrow> int32"
  VENUS_UV_STRIDE :: "color_fmt \<Rightarrow> int32 \<Rightarrow> int32"
  VENUS_UV_SCANLINES :: "color_fmt \<Rightarrow> int32 \<Rightarrow> int32"
  VENUS_Y_META_STRIDE :: "color_fmt \<Rightarrow> int32 \<Rightarrow> int32"
  VENUS_Y_META_SCANLINES :: "color_fmt \<Rightarrow> int32 \<Rightarrow> int32"
  VENUS_UV_META_STRIDE :: "color_fmt \<Rightarrow> int32 \<Rightarrow> int32"
  VENUS_UV_META_SCANLINES :: "color_fmt \<Rightarrow> int32 \<Rightarrow> int32"
  VENUS_BUFFER_SIZE :: "color_fmt \<Rightarrow> int32 \<Rightarrow> int32 \<Rightarrow> uint32"
  MSM_MEDIA_ALIGN :: "int32 \<Rightarrow> int32 \<Rightarrow> int32"

section \<open>Writing the planes\<close>

text \<open>
  The assignments to one element of \<open>mp\<close>. The fields that are not named keep their values.
\<close>

definition plane ::
  "uint32 \<Rightarrow> uint32 \<Rightarrow> int32 \<Rightarrow> int32 \<Rightarrow> int32 \<Rightarrow> int32 \<Rightarrow> int32 \<Rightarrow> int32 \<Rightarrow>
     cam_mp_len_offset \<Rightarrow> cam_mp_len_offset" where
  "plane ofs l ox oy st sc w h p = p\<lparr>len := l, offset := ofs, offset_x := ox, offset_y := oy,
     stride := st, scanline := sc, width := w, height := h\<rparr>"

definition set_planes ::
  "(cam_mp_len_offset \<Rightarrow> cam_mp_len_offset) list \<Rightarrow> cam_frame_len_offset \<Rightarrow> cam_frame_len_offset" where
  "set_planes ps b = b\<lparr>num_planes := of_nat (length ps),
     mp := map2 (\<lambda>f p. f p) ps (mp b) @ drop (length ps) (mp b)\<rparr>"

definition planes_of :: "cam_frame_len_offset \<Rightarrow> cam_mp_len_offset list" where
  "planes_of b = take (unat (num_planes b)) (mp b)"

text \<open>The frame has the length of its planes, padded to pages.\<close>

definition yuv_frame ::
  "(cam_mp_len_offset \<Rightarrow> cam_mp_len_offset) list \<Rightarrow> cam_frame_len_offset \<Rightarrow>
     int32 \<times> cam_frame_len_offset" where
  "yuv_frame ps b0 =
    (let b = set_planes ps b0
     in (0, b\<lparr>frame_len := PAD_TO_SIZE (sum_list (List.map len (planes_of b))) CAM_PAD_TO_4K\<rparr>))"

text \<open>A Y plane and a chroma plane that has the rest of a frame of a given length.\<close>

definition rest_frame ::
  "uint32 \<Rightarrow> (cam_mp_len_offset \<Rightarrow> cam_mp_len_offset) \<Rightarrow>
    (uint32 \<Rightarrow> cam_mp_len_offset \<Rightarrow> cam_mp_len_offset) \<Rightarrow> cam_frame_len_offset \<Rightarrow>
     int32 \<times> cam_frame_len_offset" where
  "rest_frame tot y uv b =
    (0, (set_planes [y, uv (tot - len (y (hd (mp b))))] b)\<lparr>frame_len := tot\<rparr>)"

definition venus_frame ::
  "uint32 \<Rightarrow> int32 \<times> int32 \<Rightarrow> int32 \<times> int32 \<Rightarrow> cam_dimension \<Rightarrow> cam_frame_len_offset \<Rightarrow>
     int32 \<times> cam_frame_len_offset" where
  "venus_frame tot y uv d =
    rest_frame tot
      (plane 0 (fst y * snd y) 0 0 (fst y) (snd y) (dim_width d) (dim_height d))
      (\<lambda>l. plane 0 l 0 0 (fst uv) (snd uv) (dim_width d) (dim_height d sdiv 2))"

definition ubwc_frame ::
  "venus_media \<Rightarrow> uint32 \<Rightarrow> int32 \<times> int32 \<Rightarrow> cam_dimension \<Rightarrow> cam_frame_len_offset \<Rightarrow>
     int32 \<times> cam_frame_len_offset" where
  "ubwc_frame k tot y d =
    (let w = dim_width d; h = dim_height d; c = COLOR_FMT_NV12_UBWC;
         yms = VENUS_Y_META_STRIDE k c w; ymc = VENUS_Y_META_SCANLINES k c h;
         yml = MSM_MEDIA_ALIGN k (yms * ymc) 4096;
         uvs = VENUS_UV_STRIDE k c w; uvc = VENUS_UV_SCANLINES k c h;
         uvms = VENUS_UV_META_STRIDE k c w; uvmc = VENUS_UV_META_SCANLINES k c h;
         uvml = MSM_MEDIA_ALIGN k (uvms * uvmc) 4096
     in rest_frame tot
          (\<lambda>p. plane 0 (MSM_MEDIA_ALIGN k (fst y * snd y) 4096 + yml) 0 0 (fst y) (snd y) w h
             (p\<lparr>meta_stride := yms, meta_scanline := ymc, meta_len := yml\<rparr>))
          (\<lambda>l p. plane 0 l 0 0 uvs uvc w (h sdiv 2)
             (p\<lparr>meta_stride := uvms, meta_scanline := uvmc, meta_len := uvml\<rparr>)))"

definition venus_y :: "venus_media \<Rightarrow> color_fmt \<Rightarrow> cam_dimension \<Rightarrow> int32 \<times> int32" where
  "venus_y k c d = (VENUS_Y_STRIDE k c (dim_width d), VENUS_Y_SCANLINES k c (dim_height d))"

definition venus_uv :: "venus_media \<Rightarrow> color_fmt \<Rightarrow> cam_dimension \<Rightarrow> int32 \<times> int32" where
  "venus_uv k c d = (VENUS_UV_STRIDE k c (dim_width d), VENUS_UV_SCANLINES k c (dim_height d))"

text \<open>Stride and scanlines of dimensions padded to a width and a height.\<close>

definition padded :: "cam_dimension \<Rightarrow> uint32 \<Rightarrow> uint32 \<Rightarrow> int32 \<times> int32" where
  "padded d wpad hpad = (PAD_TO_SIZE (dim_width d) wpad, PAD_TO_SIZE (dim_height d) hpad)"

section \<open>Preview and postview\<close>

definition nv12_like :: "cam_format set" where
  "nv12_like = {CAM_FORMAT_YUV_420_NV12, CAM_FORMAT_YUV_420_NV21, CAM_FORMAT_Y_ONLY,
     CAM_FORMAT_Y_ONLY_10_BPP, CAM_FORMAT_Y_ONLY_12_BPP, CAM_FORMAT_Y_ONLY_14_BPP}"

definition preview_nv12 ::
  "bool \<Rightarrow> cam_dimension \<Rightarrow> cam_padding_info \<Rightarrow> (cam_mp_len_offset \<Rightarrow> cam_mp_len_offset) list" where
  "preview_nv12 offline d pad =
    (let hpad = (if offline then height_padding pad else CAM_PAD_TO_2);
         st = PAD_TO_SIZE (dim_width d) (width_padding pad);
         sc = PAD_TO_SIZE (dim_height d) hpad;
         sc1 = PAD_TO_SIZE (dim_height d sdiv 2) hpad
     in [plane 0 (st * sc) 0 0 st sc (dim_width d) (dim_height d),
         plane 0 (st * sc1) 0 0 st sc1 (dim_width d) (dim_height d sdiv 2)])"

definition preview_adreno ::
  "bool \<Rightarrow> cam_dimension \<Rightarrow> cam_padding_info \<Rightarrow> (cam_mp_len_offset \<Rightarrow> cam_mp_len_offset) list" where
  "preview_adreno offline d pad =
    (let (st, sc) = (if offline then padded d (width_padding pad) (height_padding pad)
                     else padded d CAM_PAD_TO_32 CAM_PAD_TO_32);
         st1 = PAD_TO_SIZE (dim_width d sdiv 2) CAM_PAD_TO_32 * 2;
         sc1 = PAD_TO_SIZE (dim_height d sdiv 2) CAM_PAD_TO_32
     in [plane 0 (PAD_TO_SIZE (st * sc) CAM_PAD_TO_4K) 0 0 st sc (dim_width d) (dim_height d),
         plane 0 (PAD_TO_SIZE (st1 * sc1) CAM_PAD_TO_4K) 0 0 st1 sc1
           (dim_width d) (dim_height d sdiv 2)])"

definition preview_yv12 ::
  "bool \<Rightarrow> cam_dimension \<Rightarrow> cam_padding_info \<Rightarrow> (cam_mp_len_offset \<Rightarrow> cam_mp_len_offset) list" where
  "preview_yv12 offline d pad =
    (let (st, sc) = (if offline then padded d (width_padding pad) (height_padding pad)
                     else padded d CAM_PAD_TO_16 CAM_PAD_TO_2);
         st1 = PAD_TO_SIZE (st sdiv 2) CAM_PAD_TO_16;
         sc1 = sc sdiv 2;
         chroma = plane 0 (st1 * sc1) 0 0 st1 sc1 (dim_width d sdiv 2) (dim_height d sdiv 2)
     in [plane 0 (st * sc) 0 0 st sc (dim_width d) (dim_height d), chroma, chroma])"

definition preview_nv16 ::
  "bool \<Rightarrow> cam_dimension \<Rightarrow> cam_padding_info \<Rightarrow> (cam_mp_len_offset \<Rightarrow> cam_mp_len_offset) list" where
  "preview_nv16 offline d pad =
    (let (st, sc) = (if offline then padded d (width_padding pad) (height_padding pad)
                     else (PAD_TO_SIZE (dim_width d) CAM_PAD_TO_16, dim_height d));
         p = plane 0 (st * sc) 0 0 st sc (dim_width d) (dim_height d)
     in [p, p])"

definition preview_venus ::
  "venus_media \<Rightarrow> color_fmt \<Rightarrow> bool \<Rightarrow> cam_dimension \<Rightarrow> cam_padding_info \<Rightarrow>
     cam_frame_len_offset \<Rightarrow> int32 \<times> cam_frame_len_offset" where
  "preview_venus k c offline d pad b =
    (if VENUS_PRESENT k then
       let y = (if offline then padded d (width_padding pad) (height_padding pad) else venus_y k c d);
           uv = (if offline then padded d (width_padding pad) (height_padding pad) else venus_uv k c d)
       in venus_frame (VENUS_BUFFER_SIZE k c (fst y) (snd y)) y uv d b
     else (-1, b))"

definition preview_ubwc ::
  "venus_media \<Rightarrow> bool \<Rightarrow> cam_dimension \<Rightarrow> cam_padding_info \<Rightarrow>
     cam_frame_len_offset \<Rightarrow> int32 \<times> cam_frame_len_offset" where
  "preview_ubwc k offline d pad b =
    (if UBWC_PRESENT k then
       let y = (if offline then padded d (width_padding pad) (height_padding pad)
                else venus_y k COLOR_FMT_NV12_UBWC d)
       in ubwc_frame k (VENUS_BUFFER_SIZE k COLOR_FMT_NV12_UBWC (fst y) (snd y)) y d b
     else (-1, b))"

definition mm_stream_calc_offset_preview ::
  "venus_media \<Rightarrow> cam_stream_info \<Rightarrow> cam_dimension \<Rightarrow> cam_padding_info \<Rightarrow>
     cam_frame_len_offset \<Rightarrow> int32 \<times> cam_frame_len_offset" where
  "mm_stream_calc_offset_preview k info d pad b =
    (let f = fmt info; offline = (stream_type info = CAM_STREAM_TYPE_OFFLINE_PROC)
     in if f \<in> nv12_like then yuv_frame (preview_nv12 offline d pad) b
        else if f = CAM_FORMAT_YUV_420_NV21_ADRENO then yuv_frame (preview_adreno offline d pad) b
        else if f = CAM_FORMAT_YUV_420_YV12 then yuv_frame (preview_yv12 offline d pad) b
        else if f \<in> {CAM_FORMAT_YUV_422_NV16, CAM_FORMAT_YUV_422_NV61}
        then yuv_frame (preview_nv16 offline d pad) b
        else if f = CAM_FORMAT_YUV_420_NV12_VENUS then preview_venus k COLOR_FMT_NV12 offline d pad b
        else if f = CAM_FORMAT_YUV_420_NV21_VENUS then preview_venus k COLOR_FMT_NV21 offline d pad b
        else if f = CAM_FORMAT_YUV_420_NV12_UBWC then preview_ubwc k offline d pad b
        else (-1, b))"

text \<open>
  Postview differs for three formats. The chroma planes of YV12 take their scanlines from
  the stride, which is already that of the chroma planes.
\<close>

definition postview_adreno ::
  "bool \<Rightarrow> cam_dimension \<Rightarrow> cam_padding_info \<Rightarrow> (cam_mp_len_offset \<Rightarrow> cam_mp_len_offset) list" where
  "postview_adreno offline d pad =
    (let wpad = (if offline then width_padding pad else CAM_PAD_TO_32);
         hpad = (if offline then height_padding pad else CAM_PAD_TO_32);
         (st, sc) = padded d wpad hpad;
         st1 = PAD_TO_SIZE (dim_width d sdiv 2) wpad * 2;
         sc1 = PAD_TO_SIZE (dim_height d sdiv 2) hpad
     in [plane 0 (PAD_TO_SIZE (st * sc) CAM_PAD_TO_4K) 0 0 st sc (dim_width d) (dim_height d),
         plane 0 (PAD_TO_SIZE (st1 * sc1) CAM_PAD_TO_4K) 0 0 st1 sc1
           (dim_width d) (dim_height d sdiv 2)])"

definition postview_yv12 ::
  "bool \<Rightarrow> cam_dimension \<Rightarrow> cam_padding_info \<Rightarrow> (cam_mp_len_offset \<Rightarrow> cam_mp_len_offset) list" where
  "postview_yv12 offline d pad =
    (let wpad = (if offline then width_padding pad else CAM_PAD_TO_16);
         hpad = (if offline then height_padding pad else CAM_PAD_TO_2);
         (st, sc) = padded d wpad hpad;
         st1 = PAD_TO_SIZE (st sdiv 2) wpad;
         sc1 = PAD_TO_SIZE (st1 sdiv 2) hpad;
         chroma = plane 0 (st1 * sc1) 0 0 st1 sc1 (dim_width d sdiv 2) (dim_height d sdiv 2)
     in [plane 0 (st * sc) 0 0 st sc (dim_width d) (dim_height d), chroma, chroma])"

definition postview_nv21_venus ::
  "venus_media \<Rightarrow> bool \<Rightarrow> cam_dimension \<Rightarrow> cam_padding_info \<Rightarrow>
     cam_frame_len_offset \<Rightarrow> int32 \<times> cam_frame_len_offset" where
  "postview_nv21_venus k offline d pad b =
    (if VENUS_PRESENT k then
       let c = COLOR_FMT_NV21;
           y = (if offline then padded d (width_padding pad) (height_padding pad) else venus_y k c d);
           uv = (if offline then padded d (width_padding pad) (height_padding pad) else venus_uv k c d)
       in venus_frame (VENUS_BUFFER_SIZE k c (dim_width d) (dim_height d)) y uv d b
     else (-1, b))"

definition postview_ubwc ::
  "venus_media \<Rightarrow> bool \<Rightarrow> cam_dimension \<Rightarrow> cam_padding_info \<Rightarrow>
     cam_frame_len_offset \<Rightarrow> int32 \<times> cam_frame_len_offset" where
  "postview_ubwc k offline d pad b =
    (if UBWC_PRESENT k then
       let c = COLOR_FMT_NV12_UBWC;
           y = (if offline then padded d (width_padding pad) (height_padding pad) else venus_y k c d)
       in ubwc_frame k (VENUS_BUFFER_SIZE k c (dim_width d) (dim_height d)) y d b
     else (-1, b))"

definition mm_stream_calc_offset_post_view ::
  "venus_media \<Rightarrow> cam_stream_info \<Rightarrow> cam_dimension \<Rightarrow> cam_padding_info \<Rightarrow>
     cam_frame_len_offset \<Rightarrow> int32 \<times> cam_frame_len_offset" where
  "mm_stream_calc_offset_post_view k info d pad b =
    (let f = fmt info; offline = (stream_type info = CAM_STREAM_TYPE_OFFLINE_PROC)
     in if f \<in> nv12_like then yuv_frame (preview_nv12 offline d pad) b
        else if f = CAM_FORMAT_YUV_420_NV21_ADRENO then yuv_frame (postview_adreno offline d pad) b
        else if f = CAM_FORMAT_YUV_420_YV12 then yuv_frame (postview_yv12 offline d pad) b
        else if f \<in> {CAM_FORMAT_YUV_422_NV16, CAM_FORMAT_YUV_422_NV61}
        then yuv_frame (preview_nv16 offline d pad) b
        else if f = CAM_FORMAT_YUV_420_NV12_VENUS then preview_venus k COLOR_FMT_NV12 offline d pad b
        else if f = CAM_FORMAT_YUV_420_NV21_VENUS then postview_nv21_venus k offline d pad b
        else if f = CAM_FORMAT_YUV_420_NV12_UBWC then postview_ubwc k offline d pad b
        else (-1, b))"

section \<open>Snapshot and analysis\<close>

definition mm_camera_util_chip_is_a_family :: bool where
  "mm_camera_util_chip_is_a_family = False"

text \<open>Planes whose offset and length are padded to the plane padding.\<close>

definition padded_plane ::
  "uint32 \<Rightarrow> int32 \<Rightarrow> int32 \<Rightarrow> int32 \<Rightarrow> int32 \<Rightarrow> int32 \<Rightarrow> int32 \<Rightarrow>
     cam_mp_len_offset \<Rightarrow> cam_mp_len_offset" where
  "padded_plane pp ox oy st sc =
    plane (PAD_TO_SIZE (ox + st * oy) pp) (PAD_TO_SIZE (st * sc) pp) ox oy st sc"

definition padded_nv12 ::
  "uint32 \<Rightarrow> int32 \<Rightarrow> int32 \<Rightarrow> int32 \<Rightarrow> int32 \<Rightarrow> cam_dimension \<Rightarrow>
     (cam_mp_len_offset \<Rightarrow> cam_mp_len_offset) list" where
  "padded_nv12 pp ox oy st sc d =
    [padded_plane pp ox oy st sc (dim_width d) (dim_height d),
     padded_plane pp ox oy st (sc sdiv 2) (dim_width d) (dim_height d sdiv 2)]"

definition padded_yv12 ::
  "uint32 \<Rightarrow> int32 \<Rightarrow> int32 \<Rightarrow> int32 \<Rightarrow> int32 \<Rightarrow> cam_dimension \<Rightarrow>
     (cam_mp_len_offset \<Rightarrow> cam_mp_len_offset) list" where
  "padded_yv12 pp ox oy st sc d =
    (let chroma = padded_plane pp ox oy (PAD_TO_SIZE (st sdiv 2) CAM_PAD_TO_16) (sc sdiv 2)
           (dim_width d sdiv 2) (dim_height d sdiv 2)
     in [padded_plane pp ox oy st sc (dim_width d) (dim_height d), chroma, chroma])"

definition padded_nv16 ::
  "uint32 \<Rightarrow> int32 \<Rightarrow> int32 \<Rightarrow> int32 \<Rightarrow> int32 \<Rightarrow> cam_dimension \<Rightarrow>
     (cam_mp_len_offset \<Rightarrow> cam_mp_len_offset) list" where
  "padded_nv16 pp ox oy st sc d =
    (let p = padded_plane pp ox oy st sc (dim_width d) (dim_height d) in [p, p])"

text \<open>The offset of the image in its planes, and their stride and scanlines.\<close>

definition snapshot_geometry ::
  "cam_dimension \<Rightarrow> cam_padding_info \<Rightarrow> int32 \<times> int32 \<times> int32 \<times> int32" where
  "snapshot_geometry d pad =
    (if mm_camera_util_chip_is_a_family then
       let sc = PAD_TO_SIZE (dim_height d) CAM_PAD_TO_16; oy = sc - dim_height d
       in (0, oy, dim_width d, sc + oy)
     else
       let ox = PAD_TO_SIZE (pad_offset_x pad) (plane_padding pad);
           oy = PAD_TO_SIZE (pad_offset_y pad) (plane_padding pad)
       in (ox, oy, PAD_TO_SIZE (dim_width d + 2 * ox) (width_padding pad),
           PAD_TO_SIZE (dim_height d + 2 * oy) (height_padding pad)))"

text \<open>Without Venus, \<open>NV12_VENUS\<close> succeeds and leaves the planes as they were.\<close>

definition mm_stream_calc_offset_snapshot ::
  "venus_media \<Rightarrow> cam_format \<Rightarrow> cam_dimension \<Rightarrow> cam_padding_info \<Rightarrow>
     cam_frame_len_offset \<Rightarrow> int32 \<times> cam_frame_len_offset" where
  "mm_stream_calc_offset_snapshot k f d pad b =
    (let (ox, oy, st, sc) = snapshot_geometry d pad; pp = plane_padding pad
     in if f \<in> nv12_like then yuv_frame (padded_nv12 pp ox oy st sc d) b
        else if f = CAM_FORMAT_YUV_420_YV12 then yuv_frame (padded_yv12 pp ox oy st sc d) b
        else if f \<in> {CAM_FORMAT_YUV_422_NV16, CAM_FORMAT_YUV_422_NV61}
        then yuv_frame (padded_nv16 pp ox oy st sc d) b
        else if f = CAM_FORMAT_YUV_420_NV12_UBWC then
          (if UBWC_PRESENT k then
             let c = COLOR_FMT_NV12_UBWC
             in ubwc_frame k (VENUS_BUFFER_SIZE k c (dim_width d) (dim_height d)) (venus_y k c d) d b
           else (-1, b))
        else if f = CAM_FORMAT_YUV_420_NV12_VENUS then
          (if VENUS_PRESENT k then
             let c = COLOR_FMT_NV12
             in venus_frame (VENUS_BUFFER_SIZE k c (dim_width d) (dim_height d))
                  (venus_y k c d) (venus_uv k c d) d b
           else (0, b))
        else if f = CAM_FORMAT_YUV_420_NV21_VENUS then
          (if VENUS_PRESENT k then
             let c = COLOR_FMT_NV21
             in venus_frame (VENUS_BUFFER_SIZE k c (dim_width d) (dim_height d))
                  (venus_y k c d) (venus_uv k c d) d b
           else (-1, b))
        else (-1, b))"

definition analysis_geometry :: "cam_dimension \<Rightarrow> cam_padding_info \<Rightarrow> int32 \<times> int32" where
  "analysis_geometry d pad =
    (PAD_TO_SIZE (if dim_width d < min_stride pad then min_stride pad else dim_width d)
       (width_padding pad),
     PAD_TO_SIZE (if dim_height d < min_scanline pad then min_scanline pad else dim_height d)
       (height_padding pad))"

definition analysis_venus ::
  "venus_media \<Rightarrow> color_fmt \<Rightarrow> cam_dimension \<Rightarrow> cam_frame_len_offset \<Rightarrow>
     int32 \<times> cam_frame_len_offset" where
  "analysis_venus k c d b =
    (if VENUS_PRESENT k then
       let y = venus_y k c d
       in venus_frame (VENUS_BUFFER_SIZE k c (fst y) (snd y)) y (venus_uv k c d) d b
     else (-1, b))"

definition mm_stream_calc_offset_analysis ::
  "venus_media \<Rightarrow> cam_format \<Rightarrow> cam_dimension \<Rightarrow> cam_padding_info \<Rightarrow>
     cam_frame_len_offset \<Rightarrow> int32 \<times> cam_frame_len_offset" where
  "mm_stream_calc_offset_analysis k f d pad b =
    (let (st, sc) = analysis_geometry d pad; pp = plane_padding pad
     in if f \<in> {CAM_FORMAT_YUV_420_NV12, CAM_FORMAT_YUV_420_NV21}
        then yuv_frame (padded_nv12 pp 0 0 st sc d) b
        else if f = CAM_FORMAT_YUV_420_YV12 then yuv_frame (padded_yv12 pp 0 0 st sc d) b
        else if f \<in> {CAM_FORMAT_YUV_422_NV16, CAM_FORMAT_YUV_422_NV61}
        then yuv_frame (padded_nv16 pp 0 0 st sc d) b
        else if f \<in> {CAM_FORMAT_Y_ONLY, CAM_FORMAT_Y_ONLY_10_BPP, CAM_FORMAT_Y_ONLY_12_BPP,
            CAM_FORMAT_Y_ONLY_14_BPP}
        then yuv_frame [padded_plane pp 0 0 st sc (dim_width d) (dim_height d)] b
        else if f = CAM_FORMAT_YUV_420_NV12_VENUS then analysis_venus k COLOR_FMT_NV12 d b
        else if f = CAM_FORMAT_YUV_420_NV21_VENUS then analysis_venus k COLOR_FMT_NV21 d b
        else if f = CAM_FORMAT_YUV_420_NV12_UBWC then
          (if UBWC_PRESENT k then
             let c = COLOR_FMT_NV12_UBWC; y = venus_y k c d
             in ubwc_frame k (VENUS_BUFFER_SIZE k c (fst y) (snd y)) y d b
           else (-1, b))
        else (-1, b))"

section \<open>Raw formats\<close>

text \<open>
  The stride in pixels and in bytes of the packed raw formats; \<open>None\<close> for a format that is
  not one of them.
\<close>

definition raw_stride :: "cam_format \<Rightarrow> int32 \<Rightarrow> (int32 \<times> int32) option" where
  "raw_stride f w =
    (let qcom = (\<lambda>dep. case dep of
           BPP_8 \<Rightarrow> (let st = PAD_TO_SIZE w CAM_PAD_TO_16 in (st, st))
         | BPP_10 \<Rightarrow> (let st = (w + 11) sdiv 12 * 12 in (st, (st * 8) sdiv 6))
         | BPP_12 \<Rightarrow> (let st = (w + 9) sdiv 10 * 10 in (st, (st * 8) sdiv 5))
         | BPP_14 \<Rightarrow> (let st = PAD_TO_SIZE w CAM_PAD_TO_16 in (st, st * 2)));
         mipi = (\<lambda>dep. case dep of
           BPP_8 \<Rightarrow> (let st = PAD_TO_SIZE w CAM_PAD_TO_16 in (st, st))
         | BPP_10 \<Rightarrow> (let st = PAD_TO_SIZE w CAM_PAD_TO_4
                     in (st, PAD_TO_SIZE ((st * 5) sdiv 4) CAM_PAD_TO_8))
         | BPP_12 \<Rightarrow> (let st = PAD_TO_SIZE w CAM_PAD_TO_32 in (st, (st * 3) sdiv 2))
         | BPP_14 \<Rightarrow> (let st = PAD_TO_SIZE w CAM_PAD_TO_64 in (st, (st * 7) sdiv 4)));
         double = (let st = PAD_TO_SIZE w CAM_PAD_TO_16 in (st, st * 2))
     in case f of
          CAM_FORMAT_YUV_RAW_8BIT_YUYV \<Rightarrow> Some double
        | CAM_FORMAT_YUV_RAW_8BIT_YVYU \<Rightarrow> Some double
        | CAM_FORMAT_YUV_RAW_8BIT_UYVY \<Rightarrow> Some double
        | CAM_FORMAT_YUV_RAW_8BIT_VYUY \<Rightarrow> Some double
        | CAM_FORMAT_JPEG_RAW_8BIT \<Rightarrow> Some double
        | CAM_FORMAT_META_RAW_8BIT \<Rightarrow> Some double
        | CAM_FORMAT_META_RAW_10BIT \<Rightarrow> Some (mipi BPP_10)
        | CAM_FORMAT_BAYER_QCOM_RAW dep _ \<Rightarrow> Some (qcom dep)
        | CAM_FORMAT_BAYER_IDEAL_RAW_QCOM dep _ \<Rightarrow> Some (qcom dep)
        | CAM_FORMAT_BAYER_MIPI_RAW dep _ \<Rightarrow> Some (mipi dep)
        | CAM_FORMAT_BAYER_IDEAL_RAW_MIPI dep _ \<Rightarrow> Some (mipi dep)
        | CAM_FORMAT_BAYER_IDEAL_RAW_PLAIN8_8BPP _ \<Rightarrow> Some (qcom BPP_8)
        | CAM_FORMAT_BAYER_IDEAL_RAW_PLAIN16 _ _ \<Rightarrow>
            Some (let st = PAD_TO_SIZE w CAM_PAD_TO_8 in (st, st * 2))
        | _ \<Rightarrow> None)"

text \<open>\<open>META_RAW_8BIT\<close> leaves the width and the height of its plane as they were.\<close>

definition raw_frame ::
  "bool \<Rightarrow> uint32 \<Rightarrow> int32 \<times> int32 \<Rightarrow> int32 \<Rightarrow> cam_frame_len_offset \<Rightarrow>
     int32 \<times> cam_frame_len_offset" where
  "raw_frame keep pp st sc =
    (let l = PAD_TO_SIZE (snd st * sc) pp
     in yuv_frame [\<lambda>p. plane 0 l 0 0 (fst st) sc (if keep then width p else l)
          (if keep then height p else 1) (p\<lparr>stride_in_bytes := snd st\<rparr>)])"

definition mm_stream_calc_offset_raw ::
  "cam_format \<Rightarrow> cam_dimension \<Rightarrow> cam_padding_info \<Rightarrow>
     cam_frame_len_offset \<Rightarrow> int32 \<times> cam_frame_len_offset" where
  "mm_stream_calc_offset_raw f d pad b =
    (let (st, sc) = padded d (width_padding pad) (height_padding pad); pp = plane_padding pad
     in if f = CAM_FORMAT_YUV_420_NV21 then
          yuv_frame
            [\<lambda>p. plane 0 (PAD_TO_SIZE (st * sc) pp) 0 0 st sc (dim_width d) (dim_height d)
               (p\<lparr>stride_in_bytes := st\<rparr>),
             \<lambda>p. plane 0 (PAD_TO_SIZE (st * (sc sdiv 2)) pp) 0 0 st (sc sdiv 2)
               (dim_width d) (dim_height d sdiv 2) (p\<lparr>stride_in_bytes := st\<rparr>)] b
        else (case raw_stride f (dim_width d) of
                None \<Rightarrow> (-1, b)
              | Some rs \<Rightarrow> raw_frame (f = CAM_FORMAT_META_RAW_8BIT) pp rs sc b))"

section \<open>Video and metadata\<close>

definition mm_stream_calc_offset_video ::
  "venus_media \<Rightarrow> cam_format \<Rightarrow> cam_dimension \<Rightarrow> cam_frame_len_offset \<Rightarrow>
     int32 \<times> cam_frame_len_offset" where
  "mm_stream_calc_offset_video k f d b =
    (let w = dim_width d; h = dim_height d;
         venus = (\<lambda>c. if VENUS_PRESENT k
           then venus_frame (VENUS_BUFFER_SIZE k c w h) (venus_y k c d) (venus_uv k c d) d b
           else (0, b))
     in if f \<in> nv12_like - {CAM_FORMAT_YUV_420_NV21} then
          yuv_frame
            [plane 0 (PAD_TO_SIZE (w * h) CAM_PAD_TO_2K) 0 0 w h w h,
             plane 0 (PAD_TO_SIZE (w * (h sdiv 2)) CAM_PAD_TO_2K) 0 0 w (h sdiv 2) w (h sdiv 2)] b
        else if f = CAM_FORMAT_YUV_420_NV12_VENUS then venus COLOR_FMT_NV12
        else if f = CAM_FORMAT_YUV_420_NV21_VENUS then venus COLOR_FMT_NV21
        else if f = CAM_FORMAT_YUV_420_NV12_UBWC then
          (if UBWC_PRESENT k then
             let c = COLOR_FMT_NV12_UBWC
             in ubwc_frame k (VENUS_BUFFER_SIZE k c w h) (venus_y k c d) d b
           else (-1, b))
        else (-1, b))"

definition mm_stream_calc_offset_metadata ::
  "cam_dimension \<Rightarrow> cam_padding_info \<Rightarrow> cam_frame_len_offset \<Rightarrow> int32 \<times> cam_frame_len_offset" where
  "mm_stream_calc_offset_metadata d pad b =
    (let w = dim_width d; h = dim_height d; l = PAD_TO_SIZE (w * h) (plane_padding pad)
     in (0, (set_planes [plane 0 l 0 0 w h w h] b)\<lparr>frame_len := l\<rparr>))"

section \<open>Streams\<close>

text \<open>
  A reprocess stream has the layout of its source. The layout of an external frame of the
  default type is taken over when the stream has none yet; otherwise that type is refused.
\<close>

definition mm_stream_calc_offset_postproc ::
  "venus_media \<Rightarrow> cam_stream_info \<Rightarrow> cam_padding_info \<Rightarrow> cam_frame_len_offset \<Rightarrow>
     int32 \<times> cam_frame_len_offset" where
  "mm_stream_calc_offset_postproc k info pad b =
    (let as_type = (\<lambda>t.
           if t = CAM_STREAM_TYPE_PREVIEW then mm_stream_calc_offset_preview k info (dim info) pad b
           else if t = CAM_STREAM_TYPE_POSTVIEW
           then mm_stream_calc_offset_post_view k info (dim info) pad b
           else if t \<in> {CAM_STREAM_TYPE_SNAPSHOT, CAM_STREAM_TYPE_CALLBACK}
           then mm_stream_calc_offset_snapshot k (fmt info) (dim info) pad b
           else if t = CAM_STREAM_TYPE_VIDEO
           then mm_stream_calc_offset_video k (fmt info) (dim info) b
           else if t = CAM_STREAM_TYPE_RAW
           then mm_stream_calc_offset_raw (fmt info) (dim info) pad b
           else if t = CAM_STREAM_TYPE_ANALYSIS
           then mm_stream_calc_offset_analysis k (fmt info) (dim info) pad b
           else if t = CAM_STREAM_TYPE_METADATA
           then mm_stream_calc_offset_metadata (dim info) pad b
           else if t = CAM_STREAM_TYPE_OFFLINE_PROC
           then mm_stream_calc_offset_snapshot k (fmt info) (dim info) pad b
           else (-1, b))
     in case reprocess_config info of
          CAM_OFFLINE_REPROCESS_TYPE t input_buf_planes \<Rightarrow>
            if t = CAM_STREAM_TYPE_DEFAULT \<and> frame_len b = 0 then (0, input_buf_planes)
            else as_type t
        | CAM_ONLINE_REPROCESS_TYPE t \<Rightarrow> as_type t)"

definition calc_dim :: "cam_stream_info \<Rightarrow> cam_dimension" where
  "calc_dim info =
    (if rotation_feature info \<and> stream_type info \<noteq> CAM_STREAM_TYPE_VIDEO
       \<and> (rotation info = ROTATE_90 \<or> rotation info = ROTATE_270)
     then \<lparr>dim_width = dim_height (dim info), dim_height = dim_width (dim info)\<rparr>
     else dim info)"

definition mm_stream_calc_offset ::
  "venus_media \<Rightarrow> cam_padding_info \<Rightarrow> cam_stream_info \<Rightarrow> int32 \<times> cam_frame_len_offset" where
  "mm_stream_calc_offset k pad info =
    (let d = calc_dim info; b = buf_planes info; t = stream_type info
     in if t = CAM_STREAM_TYPE_PREVIEW then mm_stream_calc_offset_preview k info d pad b
        else if t = CAM_STREAM_TYPE_POSTVIEW then mm_stream_calc_offset_post_view k info d pad b
        else if t \<in> {CAM_STREAM_TYPE_SNAPSHOT, CAM_STREAM_TYPE_CALLBACK}
        then mm_stream_calc_offset_snapshot k (fmt info) d pad b
        else if t = CAM_STREAM_TYPE_OFFLINE_PROC then mm_stream_calc_offset_postproc k info pad b
        else if t = CAM_STREAM_TYPE_VIDEO then mm_stream_calc_offset_video k (fmt info) d b
        else if t = CAM_STREAM_TYPE_RAW then mm_stream_calc_offset_raw (fmt info) d pad b
        else if t = CAM_STREAM_TYPE_ANALYSIS
        then mm_stream_calc_offset_analysis k (fmt info) d pad b
        else if t = CAM_STREAM_TYPE_METADATA then mm_stream_calc_offset_metadata d pad b
        else (-1, b))"

section \<open>Least common multiple\<close>

text \<open>
  The loop adds the larger number until both divide the sum, in 32 bits. That it ends is
  proved with the properties.
\<close>

partial_function (option) lcm_loop :: "uint32 \<Rightarrow> uint32 \<Rightarrow> uint32 \<Rightarrow> uint32 \<Rightarrow> uint32 option" where
  "lcm_loop num1 num2 temp m =
    (if m mod num1 = 0 \<and> m mod num2 = 0 then Some m else lcm_loop num1 num2 temp (m + temp))"

definition mm_stream_calc_lcm :: "int32 \<Rightarrow> int32 \<Rightarrow> uint32 option" where
  "mm_stream_calc_lcm num1 num2 =
    (if num1 <s 1 \<and> num2 <s 1 then Some 0
     else if num1 <s 1 then Some num2
     else if num2 <s 1 then Some num1
     else let temp = (if num2 <s num1 then num1 else num2)
          in lcm_loop num1 num2 temp temp)"

end
