(* ===== verification/StreamOffsetProperties.thy ===== *)
theory StreamOffsetProperties
  imports StreamOffsets
begin

text \<open>
  What the layouts promise: every plane holds its image, the frame holds its planes, the
  lines of raw formats hold their pixels; and where they do not.
\<close>

section \<open>Padding\<close>

definition cam_pad :: "uint32 \<Rightarrow> bool" where
  "cam_pad p \<longleftrightarrow> p \<in> set (List.map (\<lambda>k. 2 ^ k) [0..<14])"

lemma cam_pad_simps [simp]:
  "cam_pad CAM_PAD_TO_2" "cam_pad CAM_PAD_TO_4" "cam_pad CAM_PAD_TO_8" "cam_pad CAM_PAD_TO_16"
  "cam_pad CAM_PAD_TO_32" "cam_pad CAM_PAD_TO_64" "cam_pad CAM_PAD_TO_2K" "cam_pad CAM_PAD_TO_4K"
  by (simp_all add: cam_pad_def cam_pad_defs upt_rec)

lemma unat_pow2:
  assumes "k < 32"
  shows "unat ((2::uint32) ^ k) = 2 ^ k"
proof -
  have "take_bit 32 ((2::nat) ^ k) = 2 ^ k"
    using assms by (intro take_bit_nat_eq_self power_strict_increasing) auto
  then have "unat (word_of_nat (2 ^ k) :: uint32) = 2 ^ k"
    by (simp only: unsigned_of_nat len_of_numeral_defs) simp
  then show ?thesis
    by simp
qed

lemma PAD_TO_SIZE_mask: "PAD_TO_SIZE s (2 ^ k) = push_bit k (drop_bit k (s + (2 ^ k - 1)))"
proof -
  have "(2 ^ k - 1 :: 32 word) = mask k"
    by (simp add: mask_eq_decr_exp)
  then show ?thesis
    by (auto simp: PAD_TO_SIZE_def bit_eq_iff bit_simps)
qed

lemma pad_to_pow2:
  assumes "k < 32" and "unat s + 2 ^ k \<le> 2 ^ 32"
  shows "unat (PAD_TO_SIZE s (2 ^ k)) = (unat s + (2 ^ k - 1)) div 2 ^ k * 2 ^ k"
proof -
  have pow: "unat (2 ^ k - 1 :: uint32) = 2 ^ k - 1"
    using assms(1) by (simp add: unat_sub word_le_nat_alt unat_pow2)
  have "unat s + (2 ^ k - 1) < 2 ^ 32"
    using assms(2) zero_less_power [of "2::nat" k] by linarith
  then have add: "unat (s + (2 ^ k - 1)) = unat s + (2 ^ k - 1)"
    using pow unat_add_lem [of s "2 ^ k - 1 :: uint32"] by simp
  have "(unat s + (2 ^ k - 1)) div 2 ^ k * 2 ^ k \<le> unat s + (2 ^ k - 1)"
    by simp
  also have "\<dots> < 2 ^ 32"
    using assms(2) by (simp add: less_eq_Suc_le)
  finally have "take_bit 32 ((unat s + (2 ^ k - 1)) div 2 ^ k * 2 ^ k)
      = (unat s + (2 ^ k - 1)) div 2 ^ k * 2 ^ k"
    by (simp add: take_bit_nat_eq_self)
  moreover have "unat (push_bit k (drop_bit k w)) = take_bit 32 (unat w div 2 ^ k * 2 ^ k)"
    for w :: uint32
    by (subst unsigned_push_bit_eq, subst unsigned_drop_bit_eq)
      (use take_bit_nat_eq_self [OF unsigned_less [of w]] in
        \<open>simp add: push_bit_eq_mult drop_bit_eq_div\<close>)
  ultimately show ?thesis
    by (simp only: PAD_TO_SIZE_mask add)
qed

lemma pad_bounds:
  assumes "cam_pad p" and "unat s + 8192 \<le> 2 ^ 32"
  shows "unat s \<le> unat (PAD_TO_SIZE s p)" and "unat (PAD_TO_SIZE s p) < unat s + unat p"
    and "unat p dvd unat (PAD_TO_SIZE s p)"
proof -
  obtain k where k: "k < 14" "p = 2 ^ k"
    using assms(1) by (auto simp: cam_pad_def)
  have "(2::nat) ^ k \<le> 2 ^ 13"
    using k(1) by (intro power_increasing) auto
  then have fits: "unat s + 2 ^ k \<le> 2 ^ 32"
    using assms(2) by simp
  have p: "unat p = 2 ^ k"
    using k by (simp add: unat_pow2)
  have padded: "unat (PAD_TO_SIZE s p) = (unat s + (2 ^ k - 1)) div 2 ^ k * 2 ^ k"
    using pad_to_pow2 [of k s] k fits by simp
  have "(unat s + (2 ^ k - 1)) mod 2 ^ k < (2::nat) ^ k"
    by simp
  moreover have "(unat s + (2 ^ k - 1)) div 2 ^ k * 2 ^ k + (unat s + (2 ^ k - 1)) mod 2 ^ k
      = unat s + (2 ^ k - 1)"
    by (rule div_mult_mod_eq)
  ultimately show "unat s \<le> unat (PAD_TO_SIZE s p)"
    and "unat (PAD_TO_SIZE s p) < unat s + unat p"
    unfolding padded p by linarith+
  show "unat p dvd unat (PAD_TO_SIZE s p)"
    unfolding padded p by simp
qed

lemma cam_pad_le: "cam_pad p \<Longrightarrow> unat p \<le> 8192"
  by (auto simp: cam_pad_def upt_rec)

lemma div_word:
  fixes x y :: int32
  assumes "unat x < 2 ^ 31" and "unat y < 2 ^ 31"
  shows "unat (x sdiv y) = unat x div unat y"
proof -
  have "sint x = int (unat x)" and "sint y = int (unat y)"
    using assms by (simp_all add: sint_small del: of_nat_unat)
  then have "sint x sdiv sint y = int (unat x div unat y)"
    by (simp only: signed_div_mod_nat)
  moreover have "unat x div unat y < 2 ^ 32"
    by (rule le_less_trans [OF div_le_dividend]) (use assms(1) in simp)
  ultimately show ?thesis
    by (simp add: signed_divide_word_def unsigned_of_nat take_bit_nat_eq_self)
qed

lemma pad_le:
  assumes "cam_pad p" and "unat s \<le> 8192 * m" and "m \<le> 10"
  shows "unat (PAD_TO_SIZE s p) \<le> 8192 * m"
proof -
  have "unat p dvd 8192"
    using assms(1) by (auto simp: cam_pad_def upt_rec)
  then obtain q where q: "8192 * m = unat p * q"
    by (metis dvd_def dvd_mult2)
  moreover obtain r where r: "unat (PAD_TO_SIZE s p) = unat p * r"
    using pad_bounds(3) [OF assms(1), of s] assms(2,3) by (auto elim: dvdE)
  moreover have "unat (PAD_TO_SIZE s p) < 8192 * m + unat p"
    using pad_bounds(2) [OF assms(1), of s] assms(2,3) by simp
  ultimately have "unat p * r < unat p * (q + 1)"
    by (simp add: algebra_simps)
  then have "r < q + 1"
    by (simp only: mult_less_cancel1)
  then show ?thesis
    using q r by simp
qed

section \<open>Planes that hold their image\<close>

text \<open>
  The image lies in the lines and columns of its plane, the plane in its length, and the
  planes in the frame, which ends in the same page as they.
\<close>

definition plane_fits :: "cam_mp_len_offset \<Rightarrow> bool" where
  "plane_fits p \<longleftrightarrow> unat (offset_x p) + unat (width p) \<le> unat (stride p)
     \<and> unat (offset_y p) + unat (height p) \<le> unat (scanline p)
     \<and> unat (stride p) * unat (scanline p) \<le> unat (len p)"

definition frame_fits :: "cam_frame_len_offset \<Rightarrow> bool" where
  "frame_fits b \<longleftrightarrow> list_all plane_fits (planes_of b)
     \<and> sum_list (List.map (\<lambda>p. unat (len p)) (planes_of b)) \<le> unat (frame_len b)
     \<and> unat (frame_len b) < sum_list (List.map (\<lambda>p. unat (len p)) (planes_of b)) + 4096
     \<and> 4096 dvd unat (frame_len b)"

text \<open>A writer of a plane that makes it fit, whatever was there before.\<close>

definition good_plane :: "(cam_mp_len_offset \<Rightarrow> cam_mp_len_offset) \<Rightarrow> bool" where
  "good_plane f \<longleftrightarrow> (\<forall>p. plane_fits (f p) \<and> unat (len (f p)) \<le> 2 ^ 30 + 8192)"

definition good_planes :: "(cam_mp_len_offset \<Rightarrow> cam_mp_len_offset) list \<Rightarrow> bool" where
  "good_planes ps \<longleftrightarrow> list_all good_plane ps \<and> length ps \<le> 3"

text \<open>The result of a layout that succeeded.\<close>

definition laid_out :: "int32 \<times> cam_frame_len_offset \<Rightarrow> bool" where
  "laid_out res \<longleftrightarrow> fst res = 0 \<and> frame_fits (snd res)"

lemma sum_lens:
  assumes "\<forall>x \<in> set ps. unat (len x) \<le> m" and "length ps * m < 2 ^ 32"
  shows "unat (sum_list (List.map len ps)) = sum_list (List.map (\<lambda>p. unat (len p)) ps)
    \<and> sum_list (List.map (\<lambda>p. unat (len p)) ps) \<le> length ps * m"
  using assms
proof (induction ps)
  case Nil
  then show ?case
    by simp
next
  case (Cons p ps)
  then have IH: "unat (sum_list (List.map len ps)) = sum_list (List.map (\<lambda>p. unat (len p)) ps)"
    and le: "sum_list (List.map (\<lambda>p. unat (len p)) ps) \<le> length ps * m"
    by simp_all
  have "unat (len p) + sum_list (List.map (\<lambda>p. unat (len p)) ps) \<le> length (p # ps) * m"
    using Cons.prems(1) le by simp
  then show ?case
    using IH Cons.prems(2) unat_add_lem [of "len p" "sum_list (List.map len ps)"] by simp
qed

lemma planes_of_set_planes:
  assumes "length ps \<le> length (mp b)" and "length ps \<le> 3"
  shows "planes_of (set_planes ps b) = map2 (\<lambda>f p. f p) ps (mp b)"
proof -
  have "unat (of_nat (length ps) :: uint32) = length ps"
    using assms(2) by (simp add: unsigned_of_nat take_bit_nat_eq_self)
  then show ?thesis
    using assms(1) by (simp add: planes_of_def set_planes_def)
qed

lemma laid_out_yuv:
  assumes ps: "good_planes ps" and mp: "3 \<le> length (mp b)"
  shows "laid_out (yuv_frame ps b)"
proof -
  define qs where "qs = map2 (\<lambda>f p. f p) ps (mp b)"
  have good: "list_all good_plane ps" and small: "length ps \<le> 3"
    using ps by (simp_all add: good_planes_def)
  have planes: "planes_of (set_planes ps b) = qs"
    using planes_of_set_planes [of ps b] small mp by (simp add: qs_def)
  define b' where
    "b' = set_planes ps b\<lparr>frame_len := PAD_TO_SIZE (sum_list (List.map len qs)) CAM_PAD_TO_4K\<rparr>"
  have frame: "yuv_frame ps b = (0, b')" and qs: "planes_of b' = qs"
    using planes by (simp_all add: yuv_frame_def b'_def Let_def planes_of_def)
  have "\<forall>q \<in> set qs. plane_fits q \<and> unat (len q) \<le> 2 ^ 30 + 8192"
    using good by (auto simp: qs_def good_plane_def list_all_iff dest!: set_zip_leftD)
  moreover have "length qs \<le> 3"
    using small by (simp add: qs_def)
  ultimately have sum: "unat (sum_list (List.map len qs)) = sum_list (List.map (\<lambda>p. unat (len p)) qs)"
    and le: "sum_list (List.map (\<lambda>p. unat (len p)) qs) \<le> length qs * (2 ^ 30 + 8192)"
    and fits: "list_all plane_fits qs"
    using sum_lens [of qs "2 ^ 30 + 8192"] by (auto simp: list_all_iff)
  have "unat (sum_list (List.map len qs)) + 8192 \<le> 2 ^ 32"
    using sum le \<open>length qs \<le> 3\<close> by simp
  from pad_bounds [OF cam_pad_simps(8) this] show ?thesis
    using qs fits sum by (simp add: laid_out_def frame frame_fits_def b'_def CAM_PAD_TO_4K_def)
qed

lemma small_product:
  fixes st sc :: uint32
  assumes "unat st \<le> 2 ^ 15" and "unat sc \<le> 2 ^ 15"
  shows "unat (st * sc) = unat st * unat sc \<and> unat st * unat sc \<le> 2 ^ 30"
  using mult_le_mono [OF assms] unat_mult_lem [of st sc] by simp

text \<open>
  A side \<open>s\<close> of a plane that holds \<open>n\<close> pixels behind a margin \<open>ox\<close>, and one that has the
  margin on both ends.
\<close>

definition inside :: "int32 \<Rightarrow> int32 \<Rightarrow> int32 \<Rightarrow> bool" where
  "inside ox n s \<longleftrightarrow> unat ox + unat n \<le> unat s \<and> unat s \<le> 32768"

definition framed :: "int32 \<Rightarrow> int32 \<Rightarrow> int32 \<Rightarrow> bool" where
  "framed ox n s \<longleftrightarrow> unat n + 2 * unat ox \<le> unat s \<and> unat s \<le> 24576"

lemma framed_inside: "framed ox n s \<Longrightarrow> inside ox n s"
  by (simp add: framed_def inside_def)

lemma inside_self: "unat n \<le> 32768 \<Longrightarrow> inside 0 n n"
  by (simp add: inside_def)

lemma half_small: "unat x \<le> 32768 \<Longrightarrow> unat (x sdiv 2) = unat x div 2" for x :: int32
  by (simp add: div_word)

lemma framed_half:
  assumes "framed ox n s"
  shows "inside ox (n sdiv 2) (s sdiv 2)" and "unat (s sdiv 2) \<le> 24576"
  using assms half_small [of n] half_small [of s] by (auto simp: framed_def inside_def)

lemma inside_pad:
  assumes "cam_pad p" and "inside ox n s" and "unat s \<le> 24576"
  shows "inside ox n (PAD_TO_SIZE s p)"
  using pad_bounds [OF assms(1), of s] cam_pad_le [OF assms(1)] assms(2,3)
  by (auto simp: inside_def)

lemma pad_self:
  assumes "cam_pad p" and "unat n \<le> 16384"
  shows "framed 0 n (PAD_TO_SIZE n p)" and "inside 0 n (PAD_TO_SIZE n p)"
  using pad_bounds [OF assms(1), of n] cam_pad_le [OF assms(1)] assms(2)
  by (auto simp: framed_def inside_def)

lemma good_plane_of:
  assumes "inside ox w st" and "inside oy h sc"
    and "l = st * sc \<or> (\<exists>pp. cam_pad pp \<and> l = PAD_TO_SIZE (st * sc) pp)"
  shows "good_plane (plane ofs l ox oy st sc w h)"
proof -
  have area: "unat (st * sc) = unat st * unat sc" "unat st * unat sc \<le> 2 ^ 30"
    using small_product [of st sc] assms(1,2) by (auto simp: inside_def)
  have "unat (st * sc) \<le> unat l \<and> unat l \<le> 2 ^ 30 + 8192"
    using assms(3)
  proof
    assume "\<exists>pp. cam_pad pp \<and> l = PAD_TO_SIZE (st * sc) pp"
    then obtain pp where pp: "cam_pad pp" "l = PAD_TO_SIZE (st * sc) pp"
      by blast
    have "unat (st * sc) + 8192 \<le> 2 ^ 32"
      using area by simp
    from pad_bounds [OF pp(1) this] cam_pad_le [OF pp(1)] show ?thesis
      using area pp(2) by simp
  qed (use area in simp)
  then show ?thesis
    using assms(1,2) area by (simp add: good_plane_def plane_def plane_fits_def inside_def)
qed

lemma good_padded_plane:
  "inside ox w st \<Longrightarrow> inside oy h sc \<Longrightarrow> cam_pad pp \<Longrightarrow> good_plane (padded_plane pp ox oy st sc w h)"
  by (auto simp: padded_plane_def intro!: good_plane_of)

text \<open>Dimensions up to 8192, an even width (two columns share their chroma), real paddings.\<close>

definition dims_ok :: "cam_dimension \<Rightarrow> bool" where
  "dims_ok d \<longleftrightarrow> unat (dim_width d) \<le> 8192 \<and> unat (dim_height d) \<le> 8192
     \<and> even (unat (dim_width d)) \<and> even (unat (dim_height d))"

definition padding_ok :: "cam_padding_info \<Rightarrow> bool" where
  "padding_ok pad \<longleftrightarrow> cam_pad (width_padding pad) \<and> cam_pad (height_padding pad)
     \<and> cam_pad (plane_padding pad) \<and> unat (min_stride pad) \<le> 8192
     \<and> unat (min_scanline pad) \<le> 8192 \<and> unat (pad_offset_x pad) \<le> 8192
     \<and> unat (pad_offset_y pad) \<le> 8192"

section \<open>The planes of each format\<close>

lemma unat_half: "dims_ok d \<Longrightarrow> unat (dim_width d sdiv 2) = unat (dim_width d) div 2"
    "dims_ok d \<Longrightarrow> unat (dim_height d sdiv 2) = unat (dim_height d) div 2"
  by (simp_all add: dims_ok_def half_small)

lemma adreno_chroma:
  assumes "dims_ok d" and "cam_pad p"
  shows "inside 0 (dim_width d) (PAD_TO_SIZE (dim_width d sdiv 2) p * 2)"
proof -
  define st where "st = PAD_TO_SIZE (dim_width d sdiv 2) p"
  have half: "unat (dim_width d sdiv 2) = unat (dim_width d) div 2" "unat (dim_width d) \<le> 8192"
      "even (unat (dim_width d))"
    using assms(1) by (simp_all add: unat_half dims_ok_def)
  then have st: "unat (dim_width d) div 2 \<le> unat st" "unat st \<le> 4096 + 8192"
    using pad_bounds [OF assms(2), of "dim_width d sdiv 2"] cam_pad_le [OF assms(2)]
    by (auto simp: st_def)
  then have "unat (st * 2) = unat st * 2"
    using unat_mult_lem [of st 2] by simp
  then show ?thesis
    using st half by (auto simp: inside_def st_def [symmetric] elim!: evenE)
qed

lemma preview_planes_good:
  assumes "dims_ok d" and "padding_ok pad"
  shows "good_planes (preview_nv12 offline d pad)"
    and "good_planes (preview_adreno offline d pad)"
    and "good_planes (preview_yv12 offline d pad)"
    and "good_planes (preview_nv16 offline d pad)"
    and "good_planes (postview_adreno offline d pad)"
proof -
  have ok: "unat (dim_width d) \<le> 8192" "unat (dim_height d) \<le> 8192"
      "unat (dim_width d sdiv 2) \<le> 8192" "unat (dim_height d sdiv 2) \<le> 8192"
      "cam_pad (width_padding pad)" "cam_pad (height_padding pad)"
    using assms by (auto simp: dims_ok_def padding_ok_def half_small elim!: evenE)
  show "good_planes (preview_nv12 offline d pad)"
    using ok by (auto simp: good_planes_def preview_nv12_def Let_def intro!: good_plane_of pad_self(2))
  show "good_planes (preview_adreno offline d pad)"
    using ok adreno_chroma [OF assms(1)]
    by (auto simp: good_planes_def preview_adreno_def padded_def Let_def intro!: good_plane_of pad_self(2)
        cam_pad_simps)
  show "good_planes (postview_adreno offline d pad)"
    using ok adreno_chroma [OF assms(1)]
    by (auto simp: good_planes_def postview_adreno_def padded_def Let_def intro!: good_plane_of pad_self(2)
        cam_pad_simps)
  show "good_planes (preview_yv12 offline d pad)"
    using ok
    by (auto simp: good_planes_def preview_yv12_def padded_def Let_def intro!: good_plane_of pad_self inside_pad
        framed_half cam_pad_simps)
  show "good_planes (preview_nv16 offline d pad)"
    using ok by (auto simp: good_planes_def preview_nv16_def padded_def Let_def intro!: good_plane_of
        pad_self(2) inside_self)
qed

lemma padded_planes_good:
  assumes "framed ox (dim_width d) st" and "framed oy (dim_height d) sc" and "cam_pad pp"
  shows "good_planes (padded_nv12 pp ox oy st sc d)"
    and "good_planes (padded_yv12 pp ox oy st sc d)"
    and "good_planes (padded_nv16 pp ox oy st sc d)"
  using assms framed_half [OF assms(1)] framed_half [OF assms(2)] framed_inside [OF assms(1)]
    framed_inside [OF assms(2)]
  by (auto simp: good_planes_def padded_nv12_def padded_yv12_def padded_nv16_def Let_def
      intro!: good_padded_plane inside_pad)

lemma snapshot_framed:
  assumes "unat n \<le> 8192" and "unat m \<le> 8192" and "cam_pad p" and "cam_pad pp"
  shows "framed (PAD_TO_SIZE m pp) n (PAD_TO_SIZE (n + 2 * PAD_TO_SIZE m pp) p)"
proof -
  have m: "unat (PAD_TO_SIZE m pp) \<le> 8192"
    using pad_le [OF assms(4), of m 1] assms(2) by simp
  then have twice: "unat (2 * PAD_TO_SIZE m pp) = 2 * unat (PAD_TO_SIZE m pp)"
    using unat_mult_lem [of 2 "PAD_TO_SIZE m pp"] by simp
  then have sum: "unat (n + 2 * PAD_TO_SIZE m pp) = unat n + 2 * unat (PAD_TO_SIZE m pp)"
    using unat_add_lem [of n "2 * PAD_TO_SIZE m pp"] m assms(1) by simp
  then show ?thesis
    using pad_bounds(1) [OF assms(3), of "n + 2 * PAD_TO_SIZE m pp"]
      pad_le [OF assms(3), of "n + 2 * PAD_TO_SIZE m pp" 3] m assms(1)
    by (simp add: framed_def)
qed

lemma analysis_framed:
  assumes "unat n \<le> 8192" and "unat m \<le> 8192" and "cam_pad p"
  shows "framed 0 n (PAD_TO_SIZE (if n < m then m else n) p)"
  using assms pad_bounds(1) [OF assms(3), of "if n < m then m else n"]
    pad_le [OF assms(3), of "if n < m then m else n" 3]
  by (auto simp: framed_def word_less_nat_alt)

section \<open>The layout of a stream\<close>

text \<open>The type a layout is computed for: a reprocess stream has that of its source.\<close>

definition layout_type :: "cam_stream_info \<Rightarrow> cam_stream_type" where
  "layout_type info =
    (if stream_type info = CAM_STREAM_TYPE_OFFLINE_PROC then
       (case reprocess_config info of
          CAM_ONLINE_REPROCESS_TYPE t \<Rightarrow> t | CAM_OFFLINE_REPROCESS_TYPE t _ \<Rightarrow> t)
     else stream_type info)"

definition venus_formats :: "cam_format set" where
  "venus_formats =
    {CAM_FORMAT_YUV_420_NV12_VENUS, CAM_FORMAT_YUV_420_NV21_VENUS, CAM_FORMAT_YUV_420_NV12_UBWC}"

definition supported :: "cam_stream_type \<Rightarrow> cam_format set" where
  "supported t =
    (let common = nv12_like \<union> {CAM_FORMAT_YUV_420_YV12, CAM_FORMAT_YUV_422_NV16,
           CAM_FORMAT_YUV_422_NV61}
     in case t of
          CAM_STREAM_TYPE_PREVIEW \<Rightarrow> common \<union> {CAM_FORMAT_YUV_420_NV21_ADRENO}
        | CAM_STREAM_TYPE_POSTVIEW \<Rightarrow> common \<union> {CAM_FORMAT_YUV_420_NV21_ADRENO}
        | CAM_STREAM_TYPE_SNAPSHOT \<Rightarrow> common
        | CAM_STREAM_TYPE_CALLBACK \<Rightarrow> common
        | CAM_STREAM_TYPE_OFFLINE_PROC \<Rightarrow> common
        | CAM_STREAM_TYPE_ANALYSIS \<Rightarrow> common
        | CAM_STREAM_TYPE_VIDEO \<Rightarrow> nv12_like - {CAM_FORMAT_YUV_420_NV21}
        | _ \<Rightarrow> {})"

lemmas format_sets = nv12_like_def supported_def venus_formats_def

lemma preview_fits:
  assumes "dims_ok d" and "padding_ok pad" and "3 \<le> length (mp b)"
    and "fmt info \<notin> venus_formats"
  shows "if fmt info \<in> supported CAM_STREAM_TYPE_PREVIEW
    then laid_out (mm_stream_calc_offset_preview k info d pad b)
    else mm_stream_calc_offset_preview k info d pad b = (-1, b)"
  using assms(3,4) preview_planes_good [OF assms(1,2)]
  by (auto simp: mm_stream_calc_offset_preview_def format_sets Let_def intro!: laid_out_yuv)

lemma post_view_fits:
  assumes "dims_ok d" and "padding_ok pad" and "3 \<le> length (mp b)"
    and "fmt info \<notin> venus_formats" and "fmt info \<noteq> CAM_FORMAT_YUV_420_YV12"
  shows "if fmt info \<in> supported CAM_STREAM_TYPE_POSTVIEW
    then laid_out (mm_stream_calc_offset_post_view k info d pad b)
    else mm_stream_calc_offset_post_view k info d pad b = (-1, b)"
  using assms(3-5) preview_planes_good [OF assms(1,2)]
  by (auto simp: mm_stream_calc_offset_post_view_def format_sets Let_def intro!: laid_out_yuv)

lemma snapshot_fits:
  assumes "dims_ok d" and "padding_ok pad" and "3 \<le> length (mp b)" and "f \<notin> venus_formats"
  shows "if f \<in> supported CAM_STREAM_TYPE_SNAPSHOT
    then laid_out (mm_stream_calc_offset_snapshot k f d pad b)
    else mm_stream_calc_offset_snapshot k f d pad b = (-1, b)"
proof -
  obtain ox oy st sc where geo: "snapshot_geometry d pad = (ox, oy, st, sc)"
    by (cases "snapshot_geometry d pad")
  then have "framed ox (dim_width d) st" and "framed oy (dim_height d) sc"
    using assms(1,2)
    by (auto simp: snapshot_geometry_def mm_camera_util_chip_is_a_family_def dims_ok_def
        padding_ok_def Let_def intro!: snapshot_framed)
  then show ?thesis
    using assms padded_planes_good [of ox d st oy sc "plane_padding pad"]
    by (auto simp: mm_stream_calc_offset_snapshot_def geo format_sets padding_ok_def Let_def
        intro!: laid_out_yuv)
qed

lemma analysis_fits:
  assumes "dims_ok d" and "padding_ok pad" and "3 \<le> length (mp b)" and "f \<notin> venus_formats"
  shows "if f \<in> supported CAM_STREAM_TYPE_ANALYSIS
    then laid_out (mm_stream_calc_offset_analysis k f d pad b)
    else mm_stream_calc_offset_analysis k f d pad b = (-1, b)"
proof -
  obtain st sc where geo: "analysis_geometry d pad = (st, sc)"
    by (cases "analysis_geometry d pad")
  then have fr: "framed 0 (dim_width d) st" "framed 0 (dim_height d) sc"
    using assms(1,2)
    by (auto simp: analysis_geometry_def dims_ok_def padding_ok_def simp del: if_split
        intro!: analysis_framed)
  then have "good_planes [padded_plane (plane_padding pad) 0 0 st sc (dim_width d) (dim_height d)]"
    using assms(2) by (auto simp: good_planes_def padding_ok_def intro!: good_padded_plane framed_inside)
  then show ?thesis
    using assms padded_planes_good [OF fr, of "plane_padding pad"]
    by (auto simp: mm_stream_calc_offset_analysis_def geo format_sets padding_ok_def Let_def
        intro!: laid_out_yuv)
qed

lemma video_fits:
  assumes "dims_ok d" and "3 \<le> length (mp b)" and "f \<notin> venus_formats"
  shows "if f \<in> supported CAM_STREAM_TYPE_VIDEO
    then laid_out (mm_stream_calc_offset_video k f d b)
    else mm_stream_calc_offset_video k f d b = (-1, b)"
proof -
  define w h where "w = dim_width d" and "h = dim_height d"
  have "inside 0 w w" "inside 0 h h" "inside 0 (h sdiv 2) (h sdiv 2)"
    using assms(1) by (auto simp: w_def h_def dims_ok_def half_small intro!: inside_self)
  then have "good_planes [plane 0 (PAD_TO_SIZE (w * h) CAM_PAD_TO_2K) 0 0 w h w h,
      plane 0 (PAD_TO_SIZE (w * (h sdiv 2)) CAM_PAD_TO_2K) 0 0 w (h sdiv 2) w (h sdiv 2)]"
    by (auto simp: good_planes_def intro!: good_plane_of exI [of _ CAM_PAD_TO_2K])
  from laid_out_yuv [OF this assms(2)] show ?thesis
    using assms(3)
    by (auto simp: mm_stream_calc_offset_video_def format_sets w_def h_def Let_def)
qed

lemma calc_dim_ok: "dims_ok (dim info) \<Longrightarrow> dims_ok (calc_dim info)"
  by (auto simp: dims_ok_def calc_dim_def)


text \<open>A full HD preview in NV21, with paddings of 64 columns, 32 lines and a page.\<close>

definition an_empty_plane :: cam_mp_len_offset where
  "an_empty_plane = \<lparr>len = 0, offset = 0, offset_x = 0, offset_y = 0, stride = 0,
     stride_in_bytes = 0, scanline = 0, width = 0, height = 0, meta_stride = 0,
     meta_scanline = 0, meta_len = 0\<rparr>"

definition a_stream_info :: "cam_stream_type \<Rightarrow> cam_format \<Rightarrow> int32 \<Rightarrow> int32 \<Rightarrow> cam_stream_info" where
  "a_stream_info t f w h = \<lparr>fmt = f, stream_type = t, dim = \<lparr>dim_width = w, dim_height = h\<rparr>,
     rotation_feature = False, rotation = ROTATE_0,
     reprocess_config = CAM_ONLINE_REPROCESS_TYPE CAM_STREAM_TYPE_DEFAULT,
     buf_planes = \<lparr>num_planes = 0, mp = replicate 8 an_empty_plane, frame_len = 0\<rparr>\<rparr>"

definition a_padding :: cam_padding_info where
  "a_padding = \<lparr>width_padding = 64, height_padding = 32, plane_padding = 4096, min_stride = 0,
     min_scanline = 0, pad_offset_x = 0, pad_offset_y = 0\<rparr>"

definition no_media :: venus_media where
  "no_media = \<lparr>VENUS_PRESENT = False, UBWC_PRESENT = False, VENUS_Y_STRIDE = \<lambda>_ w. w,
     VENUS_Y_SCANLINES = \<lambda>_ h. h, VENUS_UV_STRIDE = \<lambda>_ w. w, VENUS_UV_SCANLINES = \<lambda>_ h. h,
     VENUS_Y_META_STRIDE = \<lambda>_ w. w, VENUS_Y_META_SCANLINES = \<lambda>_ h. h,
     VENUS_UV_META_STRIDE = \<lambda>_ w. w, VENUS_UV_META_SCANLINES = \<lambda>_ h. h,
     VENUS_BUFFER_SIZE = \<lambda>_ w h. w * h, MSM_MEDIA_ALIGN = \<lambda>n _. n\<rparr>"

lemma a_padding_ok: "padding_ok a_padding"
  by (simp add: padding_ok_def a_padding_def cam_pad_def upt_rec)


end
