(* ===== verification/StreamRawOffsets.thy ===== *)
theory StreamRawOffsets
  imports StreamOffsetProperties
begin

text \<open>
  Raw formats: what a line of a packed format holds; the YV12 postview that is too small; and
  the least common multiple.
\<close>

section \<open>Lines of raw formats\<close>

text \<open>
  The packing of a raw format as \<open>cam_types.h\<close> documents it: a group of so many pixels takes
  so many bytes.
\<close>

definition packing :: "cam_format \<Rightarrow> nat \<times> nat" where
  "packing f =
    (let qcom = (\<lambda>dep. case dep of BPP_8 \<Rightarrow> (8, 8) | BPP_10 \<Rightarrow> (6, 8) | BPP_12 \<Rightarrow> (5, 8) | BPP_14 \<Rightarrow> (4, 8));
         mipi = (\<lambda>dep. case dep of BPP_8 \<Rightarrow> (1, 1) | BPP_10 \<Rightarrow> (4, 5) | BPP_12 \<Rightarrow> (2, 3) | BPP_14 \<Rightarrow> (4, 7))
     in case f of
          CAM_FORMAT_BAYER_QCOM_RAW dep _ \<Rightarrow> qcom dep
        | CAM_FORMAT_BAYER_IDEAL_RAW_QCOM dep _ \<Rightarrow> qcom dep
        | CAM_FORMAT_BAYER_MIPI_RAW dep _ \<Rightarrow> mipi dep
        | CAM_FORMAT_BAYER_IDEAL_RAW_MIPI dep _ \<Rightarrow> mipi dep
        | CAM_FORMAT_META_RAW_10BIT \<Rightarrow> mipi BPP_10
        | CAM_FORMAT_BAYER_IDEAL_RAW_PLAIN8_8BPP _ \<Rightarrow> (1, 1)
        | CAM_FORMAT_META_RAW_8BIT \<Rightarrow> (1, 1)
        | CAM_FORMAT_JPEG_RAW_8BIT \<Rightarrow> (1, 1)
        | _ \<Rightarrow> (1, 2))"

text \<open>A stride in pixels and in bytes that holds a line of so many pixels, in whole groups.\<close>

definition line_fits :: "nat \<Rightarrow> nat \<Rightarrow> nat \<times> nat \<Rightarrow> int32 \<times> int32 \<Rightarrow> bool" where
  "line_fits n a g st \<longleftrightarrow> n \<le> unat (fst st) \<and> unat (fst st) < n + 64 \<and> fst g dvd unat (fst st)
     \<and> unat (fst st) * snd g \<le> unat (snd st) * fst g \<and> unat (snd st) \<le> 2 * unat (fst st)
     \<and> a dvd unat (snd st)"

lemma pad_line:
  assumes "unat w \<le> 8192" and "cam_pad p" and "unat p \<le> 64"
  obtains r where "unat (PAD_TO_SIZE w p) = unat p * r" and "unat w \<le> unat p * r"
    and "unat p * r < unat w + 64"
  using pad_bounds [OF assms(2), of w] assms(1,3) by (auto elim!: dvdE)

lemma unat_mult_small: "unat a * unat b < 2 ^ 32 \<Longrightarrow> unat (a * b) = unat a * unat b"
  for a b :: uint32
  using unat_mult_lem [of a b] by simp

lemma unat_scale:
  fixes st :: int32
  assumes "unat st \<le> 8300" and "unat m \<le> 8" and "unat n \<le> 8"
  shows "unat ((st * m) sdiv n) = unat st * unat m div unat n"
proof -
  have "unat st * unat m \<le> 8300 * 8"
    using assms by (intro mult_le_mono)
  then show ?thesis
    using assms(3) by (simp add: unat_mult_small div_word)
qed

lemma double_line:
  assumes "unat w \<le> 8192" and "cam_pad p" and "unat p \<le> 64" and "8 dvd unat p"
    and "fst g dvd unat p" and "snd g \<le> 2 * fst g"
  shows "line_fits (unat w) 16 g (PAD_TO_SIZE w p, PAD_TO_SIZE w p * 2)"
proof -
  obtain r where r: "unat (PAD_TO_SIZE w p) = unat p * r" "unat w \<le> unat p * r"
      "unat p * r < unat w + 64"
    using pad_line [OF assms(1-3)] by blast
  have "unat (PAD_TO_SIZE w p * 2) = unat p * r * 2"
    using r(1,3) assms(1) unat_mult_small [of "PAD_TO_SIZE w p" 2] by (simp add: mult.commute)
  moreover have "16 dvd unat p * r * 2"
    using assms(4) by (auto elim!: dvdE)
  moreover have "unat p * r * snd g \<le> unat p * r * 2 * fst g"
    using assms(6) by (simp add: mult.assoc)
  ultimately show ?thesis
    using r assms(5) by (simp add: line_fits_def)
qed

lemma group_line:
  fixes w st :: int32
  assumes "unat st = g * r" and "unat w \<le> g * r" and "g * r < unat w + 64" and "unat w \<le> 8192"
    and "unat n dvd g" and "16 dvd g div unat n * unat m" and "unat n \<le> 8" and "unat m \<le> 2 * unat n"
    and "unat m \<le> 8" and "0 < unat n"
  shows "line_fits (unat w) 16 (unat n, unat m) (st, (st * m) sdiv n)"
proof -
  obtain q where q: "g = unat n * q"
    using assms(5) by (auto elim: dvdE)
  have "unat ((st * m) sdiv n) = unat st * unat m div unat n"
    using assms by (intro unat_scale) auto
  also have "\<dots> = q * unat m * r"
    using assms(1,10) q by (simp add: mult.assoc)
  finally have bytes: "unat ((st * m) sdiv n) = q * unat m * r" .
  have "16 dvd q * unat m * r"
    using assms(6,10) q by simp
  moreover have "q * unat m * r \<le> 2 * (unat n * q * r)"
    using mult_le_mono1 [OF assms(8), of "q * r"] by (simp add: algebra_simps)
  ultimately show ?thesis
    using assms(1-3) q bytes by (simp add: line_fits_def algebra_simps)
qed

text \<open>The strides of the packed Bayer formats with padding to groups.\<close>

lemma round_up:
  fixes w :: int32
  assumes "unat w \<le> 8192" and "unat g = Suc k" and "k < 64"
  shows "\<exists>r. unat ((w + of_nat k) sdiv g * g) = unat g * r \<and> unat w \<le> unat g * r
    \<and> unat g * r < unat w + 64"
proof -
  define r where "r = (unat w + k) div unat g"
  have k: "unat (of_nat k :: int32) = k"
    using assms(3) by (simp add: unsigned_of_nat take_bit_nat_eq_self)
  have sum: "unat (w + of_nat k) = unat w + k"
    using assms(1,3) unat_add_lem [of w "of_nat k"] k by simp
  then have div: "unat ((w + of_nat k) sdiv g) = r"
    using assms by (simp add: div_word r_def)
  have eq: "r * unat g + (unat w + k) mod unat g = unat w + k"
    unfolding r_def by (rule div_mult_mod_eq)
  moreover have "(unat w + k) mod unat g < Suc k"
    using assms(2) mod_less_divisor [of "unat g" "unat w + k"] by simp
  ultimately have "unat w \<le> unat g * r" and "unat g * r < unat w + 64"
    using assms(3) by (simp_all add: mult.commute)
  moreover have "unat ((w + of_nat k) sdiv g * g) = unat g * r"
    using div eq assms(1,3) unat_mult_small [of "(w + of_nat k) sdiv g" g] by (simp add: mult.commute)
  ultimately show ?thesis
    by blast
qed

lemma qcom_10_line:
  assumes "unat w \<le> 8192"
  shows "line_fits (unat w) 16 (6, 8) ((w + 11) sdiv 12 * 12, ((w + 11) sdiv 12 * 12 * 8) sdiv 6)"
proof -
  obtain r where "unat ((w + 11) sdiv 12 * 12) = 12 * r" "unat w \<le> 12 * r" "12 * r < unat w + 64"
    using round_up [of w 12 11] assms by auto
  from group_line [OF this assms, of 6 8] show ?thesis
    by simp
qed

lemma qcom_12_line:
  assumes "unat w \<le> 8192"
  shows "line_fits (unat w) 16 (5, 8) ((w + 9) sdiv 10 * 10, ((w + 9) sdiv 10 * 10 * 8) sdiv 5)"
proof -
  obtain r where "unat ((w + 9) sdiv 10 * 10) = 10 * r" "unat w \<le> 10 * r" "10 * r < unat w + 64"
    using round_up [of w 10 9] assms by auto
  from group_line [OF this assms, of 5 8] show ?thesis
    by simp
qed

lemma mipi_line:
  assumes "unat w \<le> 8192"
  shows "line_fits (unat w) 16 (2, 3)
      (PAD_TO_SIZE w CAM_PAD_TO_32, (PAD_TO_SIZE w CAM_PAD_TO_32 * 3) sdiv 2)"
    and "line_fits (unat w) 16 (4, 7)
      (PAD_TO_SIZE w CAM_PAD_TO_64, (PAD_TO_SIZE w CAM_PAD_TO_64 * 7) sdiv 4)"
proof -
  obtain r where "unat (PAD_TO_SIZE w CAM_PAD_TO_32) = 32 * r" "unat w \<le> 32 * r"
      "32 * r < unat w + 64"
    using pad_line [OF assms cam_pad_simps(5)] by (auto simp: CAM_PAD_TO_32_def)
  from group_line [OF this assms, of 2 3] show "line_fits (unat w) 16 (2, 3)
      (PAD_TO_SIZE w CAM_PAD_TO_32, (PAD_TO_SIZE w CAM_PAD_TO_32 * 3) sdiv 2)"
    by simp
  obtain r where "unat (PAD_TO_SIZE w CAM_PAD_TO_64) = 64 * r" "unat w \<le> 64 * r"
      "64 * r < unat w + 64"
    using pad_line [OF assms cam_pad_simps(6)] by (auto simp: CAM_PAD_TO_64_def)
  from group_line [OF this assms, of 4 7] show "line_fits (unat w) 16 (4, 7)
      (PAD_TO_SIZE w CAM_PAD_TO_64, (PAD_TO_SIZE w CAM_PAD_TO_64 * 7) sdiv 4)"
    by simp
qed

lemma mipi_10_line:
  assumes "unat w \<le> 8192"
  shows "line_fits (unat w) 8 (4, 5)
    (PAD_TO_SIZE w CAM_PAD_TO_4, PAD_TO_SIZE ((PAD_TO_SIZE w CAM_PAD_TO_4 * 5) sdiv 4) CAM_PAD_TO_8)"
proof -
  define st where "st = PAD_TO_SIZE w CAM_PAD_TO_4"
  obtain r where r: "unat st = 4 * r" "unat w \<le> 4 * r" "4 * r < unat w + 4"
    using pad_bounds [OF cam_pad_simps(2), of w] assms
    by (auto simp: CAM_PAD_TO_4_def st_def elim!: dvdE)
  have bytes: "unat ((st * 5) sdiv 4) = 5 * r"
    using unat_scale [of st 5 4] r assms by simp
  then have "5 * r \<le> unat (PAD_TO_SIZE ((st * 5) sdiv 4) CAM_PAD_TO_8)"
    and "unat (PAD_TO_SIZE ((st * 5) sdiv 4) CAM_PAD_TO_8) < 5 * r + 8"
    and "8 dvd unat (PAD_TO_SIZE ((st * 5) sdiv 4) CAM_PAD_TO_8)"
    using pad_bounds [OF cam_pad_simps(3), of "(st * 5) sdiv 4"] r assms
    by (auto simp: CAM_PAD_TO_8_def)
  moreover from this have "unat (PAD_TO_SIZE ((st * 5) sdiv 4) CAM_PAD_TO_8) \<le> 8 * r"
    by (auto elim!: dvdE)
  ultimately show ?thesis
    using r by (simp add: line_fits_def flip: st_def)
qed

text \<open>Whether the lines of a format are aligned to 16 bytes.\<close>

definition packed_by_five :: "cam_format \<Rightarrow> bool" where
  "packed_by_five f \<longleftrightarrow> packing f = (4, 5)"

lemma raw_stride_fits:
  assumes "unat w \<le> 8192" and "raw_stride f w = Some st"
  shows "line_fits (unat w) (if packed_by_five f then 8 else 16) (packing f) st"
proof -
  have pad16: "line_fits (unat w) 16 g (PAD_TO_SIZE w CAM_PAD_TO_16, PAD_TO_SIZE w CAM_PAD_TO_16 * 2)"
    if "g \<in> {(1, 2), (4, 8), (1, 1)}" for g
    using that double_line [OF assms(1) cam_pad_simps(4), of g] by (auto simp: CAM_PAD_TO_16_def)
  have pad8: "line_fits (unat w) 16 (1, 2) (PAD_TO_SIZE w CAM_PAD_TO_8, PAD_TO_SIZE w CAM_PAD_TO_8 * 2)"
    using double_line [OF assms(1) cam_pad_simps(3), of "(1, 2)"] by (simp add: CAM_PAD_TO_8_def)
  obtain r where "unat (PAD_TO_SIZE w CAM_PAD_TO_16) = 16 * r" "unat w \<le> 16 * r"
      "16 * r < unat w + 64"
    using pad_line [OF assms(1) cam_pad_simps(4)] by (auto simp: CAM_PAD_TO_16_def)
  then have single: "line_fits (unat w) 16 g (PAD_TO_SIZE w CAM_PAD_TO_16, PAD_TO_SIZE w CAM_PAD_TO_16)"
    if "g \<in> {(8, 8), (1, 1)}" for g
    using that by (auto simp: line_fits_def)
  show ?thesis
    using assms(2) pad16 pad8 single qcom_10_line [OF assms(1)] qcom_12_line [OF assms(1)]
      mipi_line [OF assms(1)] mipi_10_line [OF assms(1)]
    by (cases f) (auto simp: raw_stride_def packing_def packed_by_five_def Let_def
        split: raw_depth.splits)
qed

text \<open>
  C24: In every packed raw format, for dimensions up to 8192 and real paddings, the layout has
  one plane whose lines hold their pixels: the stride covers the width in whole groups of
  pixels, the bytes of a line are enough for its groups and at most twice that many, and a
  line is aligned to 16 bytes, but for the formats that pack four pixels into five bytes,
  which get 8. The plane holds all its lines and the frame holds the plane.
\<close>

theorem raw_lines_hold_pixels:
  assumes "unat (dim_width d) \<le> 8192" and "unat (dim_height d) \<le> 8192" and "padding_ok pad"
    and "mp b \<noteq> []" and "raw_stride f (dim_width d) \<noteq> None"
    and "mm_stream_calc_offset_raw f d pad b = (rc, b')"
  shows "rc = 0 \<and> (\<exists>p. planes_of b' = [p]
    \<and> line_fits (unat (dim_width d)) (if packed_by_five f then 8 else 16) (packing f)
        (stride p, stride_in_bytes p)
    \<and> unat (dim_height d) \<le> unat (scanline p)
    \<and> unat (stride_in_bytes p) * unat (scanline p) \<le> unat (len p)
    \<and> unat (len p) \<le> unat (frame_len b') \<and> 4096 dvd unat (frame_len b'))"
proof -
  obtain st sb where st: "raw_stride f (dim_width d) = Some (st, sb)"
    using assms(5) by auto
  then have line: "line_fits (unat (dim_width d)) (if packed_by_five f then 8 else 16) (packing f) (st, sb)"
    using raw_stride_fits assms(1) by blast
  define pp sc l where "pp = plane_padding pad"
    and "sc = PAD_TO_SIZE (dim_height d) (height_padding pad)"
    and "l = PAD_TO_SIZE (sb * sc) pp"
  have pads: "cam_pad pp" "cam_pad (height_padding pad)"
    using assms(3) by (simp_all add: padding_ok_def pp_def)
  have sc: "unat (dim_height d) \<le> unat sc" "unat sc \<le> 8192"
    using pad_bounds(1) [OF pads(2), of "dim_height d"] pad_le [OF pads(2), of "dim_height d" 1]
      assms(2) by (simp_all add: sc_def)
  have "unat sb \<le> 2 ^ 15"
    using line assms(1) by (simp add: line_fits_def)
  then have area: "unat (sb * sc) = unat sb * unat sc" "unat sb * unat sc \<le> 2 ^ 30"
    using small_product [of sb sc] sc(2) by simp_all
  then have l: "unat sb * unat sc \<le> unat l" "unat l \<le> 2 ^ 30 + 8192"
    using pad_bounds [OF pads(1), of "sb * sc"] cam_pad_le [OF pads(1)] by (simp_all add: l_def)
  have "f \<noteq> CAM_FORMAT_YUV_420_NV21"
    using st by (auto simp: raw_stride_def)
  moreover obtain q qs where "mp b = q # qs"
    using assms(4) by (cases "mp b") auto
  ultimately show ?thesis
    using assms(6) st line sc l pad_bounds [OF cam_pad_simps(8), of l]
    by (auto simp: mm_stream_calc_offset_raw_def raw_frame_def yuv_frame_def set_planes_def
        planes_of_def plane_def padded_def Let_def sc_def l_def pp_def CAM_PAD_TO_4K_def)
qed

lemma raw_lines_hold_pixels_witness:
  "let (rc, b) = mm_stream_calc_offset_raw (CAM_FORMAT_BAYER_MIPI_RAW BPP_10 (Bayer GBRG))
         \<lparr>dim_width = 4208, dim_height = 3120\<rparr> a_padding
         \<lparr>num_planes = 0, mp = replicate 8 an_empty_plane, frame_len = 0\<rparr>
   in rc = 0 \<and> (\<exists>p. planes_of b = [p] \<and> 3120 \<le> unat (scanline p))"
proof -
  define f d b where "f = CAM_FORMAT_BAYER_MIPI_RAW BPP_10 (Bayer GBRG)"
    and "d = \<lparr>dim_width = 4208 :: int32, dim_height = 3120\<rparr>"
    and "b = \<lparr>num_planes = 0 :: uint32, mp = replicate 8 an_empty_plane, frame_len = 0\<rparr>"
  obtain rc b' where res: "mm_stream_calc_offset_raw f d a_padding b = (rc, b')"
    by (cases "mm_stream_calc_offset_raw f d a_padding b")
  have "unat (dim_width d) = 4208" "unat (dim_height d) = 3120" "mp b \<noteq> []"
      "raw_stride f (dim_width d) \<noteq> None"
    by (simp_all add: f_def d_def b_def raw_stride_def Let_def)
  then show ?thesis
    using raw_lines_hold_pixels [OF _ _ a_padding_ok _ _ res] res
    by (auto simp flip: f_def d_def b_def)
qed

section \<open>YV12 postview\<close>

lemma yv12_chroma_lines:
  assumes "unat w \<le> 8192"
  defines "st1 \<equiv> PAD_TO_SIZE (PAD_TO_SIZE w CAM_PAD_TO_16 sdiv 2) CAM_PAD_TO_16"
  shows "4 * unat (PAD_TO_SIZE (st1 sdiv 2) CAM_PAD_TO_2) \<le> unat w + 50"
    and "unat st1 \<le> 8192"
proof -
  define st where "st = PAD_TO_SIZE w CAM_PAD_TO_16"
  have st: "unat st < unat w + 16" "unat st \<le> 8192"
    using pad_bounds(2) [OF cam_pad_simps(4), of w] pad_le [OF cam_pad_simps(4), of w 1] assms(1)
    by (simp_all add: st_def CAM_PAD_TO_16_def)
  then have half: "unat (st sdiv 2) = unat st div 2"
    by (simp add: half_small)
  then have st1: "unat st1 < unat st div 2 + 16"
    using pad_bounds(2) [OF cam_pad_simps(4), of "st sdiv 2"] st(2)
    by (simp add: st1_def st_def CAM_PAD_TO_16_def)
  then show small: "unat st1 \<le> 8192"
    using st(2) by linarith
  then have "unat (PAD_TO_SIZE (st1 sdiv 2) CAM_PAD_TO_2) < unat st1 div 2 + 2"
    using pad_bounds(2) [OF cam_pad_simps(1), of "st1 sdiv 2"] half_small [of st1]
    by (simp add: CAM_PAD_TO_2_def)
  then show "4 * unat (PAD_TO_SIZE (st1 sdiv 2) CAM_PAD_TO_2) \<le> unat w + 50"
    using st st1 by linarith
qed

text \<open>
  A YV12 postview whose height is more than half its width (by 25 lines) gets chroma
  planes with too few lines: the call succeeds, but the scanlines of both chroma planes are
  fewer than the lines of the image, and their lengths do not hold them. The code halves the
  stride where it means the scanlines.
\<close>

theorem postview_chroma_too_short:
  assumes "stream_type info = CAM_STREAM_TYPE_POSTVIEW" and "fmt info = CAM_FORMAT_YUV_420_YV12"
    and "dims_ok (calc_dim info)" and "3 \<le> length (mp (buf_planes info))"
    and "unat (dim_width (calc_dim info)) + 50 < 2 * unat (dim_height (calc_dim info))"
    and "0 < unat (dim_width (calc_dim info))"
    and "mm_stream_calc_offset k pad info = (rc, b)" and "i \<in> {1, 2}"
  shows "rc = 0 \<and> unat (scanline (planes_of b ! i)) < unat (height (planes_of b ! i))
    \<and> unat (len (planes_of b ! i)) < unat (stride (planes_of b ! i)) * unat (height (planes_of b ! i))"
proof -
  define d where "d = calc_dim info"
  define st1 where "st1 = PAD_TO_SIZE (PAD_TO_SIZE (dim_width d) CAM_PAD_TO_16 sdiv 2) CAM_PAD_TO_16"
  define sc1 where "sc1 = PAD_TO_SIZE (st1 sdiv 2) CAM_PAD_TO_2"
  have d: "unat (dim_width d) \<le> 8192" "unat (dim_height d) \<le> 8192" "even (unat (dim_height d))"
    using assms(3) by (simp_all add: dims_ok_def d_def)
  have lines: "4 * unat sc1 \<le> unat (dim_width d) + 50" "unat st1 \<le> 8192"
    using yv12_chroma_lines [OF d(1)] by (simp_all add: sc1_def st1_def)
  have h: "unat (dim_height d sdiv 2) = unat (dim_height d) div 2"
    using d(2) by (simp add: half_small)
  have short: "unat sc1 < unat (dim_height d sdiv 2)"
    using lines(1) assms(5) d(3) by (auto simp: h d_def [symmetric] elim!: evenE)
  have "0 < unat (PAD_TO_SIZE (dim_width d) CAM_PAD_TO_16)"
    using pad_bounds(1) [OF cam_pad_simps(4), of "dim_width d"] d(1) assms(6)
    by (simp add: d_def)
  moreover have "16 dvd unat (PAD_TO_SIZE (dim_width d) CAM_PAD_TO_16)"
    using pad_bounds(3) [OF cam_pad_simps(4), of "dim_width d"] d(1) by (simp add: CAM_PAD_TO_16_def)
  moreover have "unat (PAD_TO_SIZE (dim_width d) CAM_PAD_TO_16) \<le> 8192"
    using pad_le [OF cam_pad_simps(4), of "dim_width d" 1] d(1) by simp
  ultimately have "0 < unat (PAD_TO_SIZE (dim_width d) CAM_PAD_TO_16 sdiv 2)"
      "unat (PAD_TO_SIZE (dim_width d) CAM_PAD_TO_16 sdiv 2) \<le> 8192"
    by (auto simp: half_small elim!: dvdE)
  then have "0 < unat st1"
    using pad_bounds(1) [OF cam_pad_simps(4), of "PAD_TO_SIZE (dim_width d) CAM_PAD_TO_16 sdiv 2"]
    by (simp add: st1_def)
  moreover have "unat sc1 \<le> 8192"
    using short h d(2) by linarith
  ultimately have area: "unat (st1 * sc1) < unat st1 * unat (dim_height d sdiv 2)"
    using small_product [of st1 sc1] lines(2) short by simp
  obtain p0 p1 p2 ps where "mp (buf_planes info) = p0 # p1 # p2 # ps"
    using assms(4) by (auto simp: numeral_3_eq_3 Suc_le_length_iff)
  then show ?thesis
    using assms(1,2,7,8) short area
    by (auto simp: mm_stream_calc_offset_def mm_stream_calc_offset_post_view_def nv12_like_def
        postview_yv12_def padded_def yuv_frame_def set_planes_def planes_of_def plane_def Let_def
        d_def [symmetric] st1_def [symmetric] sc1_def [symmetric])
qed

lemma postview_chroma_too_short_witness:
  "let (rc, b) = mm_stream_calc_offset no_media a_padding
         (a_stream_info CAM_STREAM_TYPE_POSTVIEW CAM_FORMAT_YUV_420_YV12 640 480)
   in rc = 0 \<and> unat (scanline (planes_of b ! 1)) < unat (height (planes_of b ! 1))"
proof -
  define info where "info = a_stream_info CAM_STREAM_TYPE_POSTVIEW CAM_FORMAT_YUV_420_YV12 640 480"
  obtain rc b where res: "mm_stream_calc_offset no_media a_padding info = (rc, b)"
    by (cases "mm_stream_calc_offset no_media a_padding info")
  have "calc_dim info = \<lparr>dim_width = 640, dim_height = 480\<rparr>" "3 \<le> length (mp (buf_planes info))"
      "stream_type info = CAM_STREAM_TYPE_POSTVIEW" "fmt info = CAM_FORMAT_YUV_420_YV12"
    by (simp_all add: info_def a_stream_info_def calc_dim_def)
  then show ?thesis
    using postview_chroma_too_short [OF _ _ _ _ _ _ res, of 1] res
    by (simp add: dims_ok_def flip: info_def)
qed

section \<open>Least common multiple\<close>

text \<open>The loop from the \<open>i\<close>-th multiple ends at the first one both numbers divide.\<close>

lemma lcm_loop_first:
  assumes "i \<le> j" and "of_nat j * t mod a = 0 \<and> of_nat j * t mod b = 0"
    and "\<forall>k. i \<le> k \<and> k < j \<longrightarrow> \<not> (of_nat k * t mod a = 0 \<and> of_nat k * t mod b = 0)"
  shows "lcm_loop a b t (of_nat i * t) = Some (of_nat j * t)"
  using assms
proof (induction "j - i" arbitrary: i)
  case 0
  then show ?case
    by (simp add: lcm_loop.simps)
next
  case (Suc n)
  have "\<not> (of_nat i * t mod a = 0 \<and> of_nat i * t mod b = 0)"
    using Suc.prems(3) Suc.hyps(2) by simp
  moreover have "of_nat i * t + t = of_nat (Suc i) * t"
    by (simp add: algebra_simps)
  ultimately have "lcm_loop a b t (of_nat i * t) = lcm_loop a b t (of_nat (Suc i) * t)"
    using lcm_loop.simps [of a b t "of_nat i * t"] by (simp only: if_False)
  then show ?case
    using Suc.hyps(1) [of "Suc i"] Suc.hyps(2) Suc.prems by auto
qed

lemma lcm_loop_returns:
  fixes a b t :: uint32
  obtains j where "0 < j" and "of_nat j * t mod a = 0 \<and> of_nat j * t mod b = 0"
    and "\<forall>k. 0 < k \<and> k < j \<longrightarrow> \<not> (of_nat k * t mod a = 0 \<and> of_nat k * t mod b = 0)"
    and "lcm_loop a b t t = Some (of_nat j * t)"
proof -
  define P where "P = (\<lambda>j. 0 < j \<and> of_nat j * t mod a = 0 \<and> of_nat j * t mod b = 0)"
  have "(of_nat (2 ^ 32) :: uint32) = 0"
    by simp
  then have "of_nat (2 ^ 32) * t = 0"
    by (simp only: mult_zero_left)
  then have "P (2 ^ 32)"
    unfolding P_def by (simp only:) simp
  then obtain j where j: "P j" and least: "\<forall>k. P k \<longrightarrow> j \<le> k"
    by (metis LeastI Least_le)
  then have first: "\<forall>k. 0 < k \<and> k < j \<longrightarrow> \<not> (of_nat k * t mod a = 0 \<and> of_nat k * t mod b = 0)"
    unfolding P_def by (meson not_le)
  then have "lcm_loop a b t (of_nat 1 * t) = Some (of_nat j * t)"
    using j unfolding P_def by (intro lcm_loop_first) (auto simp only: One_nat_def Suc_le_eq)
  then show thesis
    using that [of j] j first unfolding P_def by (simp only: of_nat_1 mult_1_left)
qed

lemma unat_mod_zero: "m mod n = 0 \<longleftrightarrow> unat n dvd unat m" for m n :: uint32
  by (simp add: unat_eq_0 [symmetric] unat_mod mod_eq_0_iff_dvd)

text \<open>
  C36: The loop of the least common multiple always ends, also when the multiple does not fit
  into 32 bits and the sum wraps around. When it fits, the result is the least common
  multiple of two positive numbers; a number that is not positive is ignored, and two such
  numbers give 0.
\<close>

theorem calc_lcm_returns:
  shows "\<exists>m. mm_stream_calc_lcm num1 num2 = Some m
    \<and> (0 < sint num1 \<and> 0 < sint num2 \<and> lcm (unat num1) (unat num2) < 2 ^ 32 \<longrightarrow>
         unat m = lcm (unat num1) (unat num2))
    \<and> (\<not> 0 < sint num1 \<and> 0 < sint num2 \<longrightarrow> m = num2)
    \<and> (0 < sint num1 \<and> \<not> 0 < sint num2 \<longrightarrow> m = num1)
    \<and> (\<not> 0 < sint num1 \<and> \<not> 0 < sint num2 \<longrightarrow> m = 0)"
proof (cases "0 < sint num1 \<and> 0 < sint num2")
  case False
  then show ?thesis
    by (auto simp: mm_stream_calc_lcm_def word_sless_alt not_less)
next
  case True
  define t where "t = (if num2 <s num1 then num1 else num2)"
  obtain j where j: "0 < j" "of_nat j * t mod num1 = 0 \<and> of_nat j * t mod num2 = 0"
      "\<forall>k. 0 < k \<and> k < j \<longrightarrow> \<not> (of_nat k * t mod num1 = 0 \<and> of_nat k * t mod num2 = 0)"
      "lcm_loop num1 num2 t t = Some (of_nat j * t)"
    using lcm_loop_returns by blast
  have result: "mm_stream_calc_lcm num1 num2 = Some (of_nat j * t)"
    using True j(4) by (auto simp: mm_stream_calc_lcm_def word_sless_alt t_def Let_def)
  have pos: "0 < unat num1" "0 < unat num2"
    using True by (auto simp: unat_gt_0)
  have "unat (of_nat j * t) = lcm (unat num1) (unat num2)"
    if small: "lcm (unat num1) (unat num2) < 2 ^ 32"
  proof -
    have "unat t dvd lcm (unat num1) (unat num2)"
      by (simp add: t_def)
    then obtain i where i: "lcm (unat num1) (unat num2) = unat t * i" ..
    have exact: "unat (of_nat k * t) = k * unat t" if "k \<le> i" for k
    proof -
      have "k * unat t \<le> lcm (unat num1) (unat num2)"
        using that i by (simp add: mult.commute)
      then have "k * unat t < 2 ^ 32"
        using small by simp
      then show ?thesis
        by (simp add: unat_word_ariths unsigned_of_nat take_bit_nat_def mod_mult_left_eq)
    qed
    have "0 < i"
      using i pos by (auto intro: Nat.gr0I)
    have "of_nat i * t mod num1 = 0 \<and> of_nat i * t mod num2 = 0"
    proof -
      have "unat (of_nat i * t) = lcm (unat num1) (unat num2)"
        using exact [of i] i by (simp add: mult.commute)
      then show ?thesis
        unfolding unat_mod_zero by simp
    qed
    then have "\<not> (0 < i \<and> i < j)"
      using j(3) [THEN spec, of i] by (simp only: simp_thms)
    then have "j \<le> i"
      using \<open>0 < i\<close> by (simp only: simp_thms not_less)
    then have eq: "unat (of_nat j * t) = j * unat t"
      by (rule exact)
    have "lcm (unat num1) (unat num2) dvd j * unat t"
      using j(2) unfolding unat_mod_zero eq by (simp only: lcm_least)
    moreover have "0 < j * unat t"
      using pos j(1) by (simp add: t_def)
    ultimately have "lcm (unat num1) (unat num2) \<le> j * unat t"
      by (rule dvd_imp_le)
    moreover have "j * unat t \<le> lcm (unat num1) (unat num2)"
      using \<open>j \<le> i\<close> i by (simp add: mult.commute)
    ultimately show ?thesis
      using eq by simp
  qed
  then show ?thesis
    using result True by auto
qed

lemma calc_lcm_returns_witness: "\<exists>m. mm_stream_calc_lcm 4 6 = Some m \<and> unat m = 12"
  using calc_lcm_returns [of 4 6] by (auto simp: lcm_nat_def gcd_non_0_nat)

end
