(* ===== verification/CamHandles.thy ===== *)
theory CamHandles
  imports Prelude
begin

text \<open>
  The handles of \<open>mm_camera_interface.c\<close>: a camera, a channel or a stream is named by its
  index in its table and the value of a counter when it was made, so that a handle kept
  after its object was released does not name the object that took its place.
\<close>

type_synonym uint16 = "16 word"

text \<open>The counter \<open>g_handler_history_count\<close> is passed and returned.\<close>

definition mm_camera_util_generate_handler :: "uint16 \<Rightarrow> uint8 \<Rightarrow> uint32 \<times> uint16" where
  "mm_camera_util_generate_handler hist index =
    (let hist = hist + 1;
         hist = (if hist = 0 then hist + 1 else hist);
         handler = (ucast hist :: uint32);
         handler = (push_bit 8 handler) OR ucast index
     in (handler, hist))"

definition mm_camera_util_get_index_by_handler :: "uint32 \<Rightarrow> uint8" where
  "mm_camera_util_get_index_by_handler handler = ucast (handler AND 0xff)"

text \<open>The handles of a sequence of objects, made one after the other.\<close>

fun handlers :: "uint16 \<Rightarrow> uint8 list \<Rightarrow> uint32 list" where
  "handlers hist [] = []"
| "handlers hist (i # is) =
    (let (h, hist') = mm_camera_util_generate_handler hist i in h # handlers hist' is)"

section \<open>What a handle holds\<close>

definition next_count :: "uint16 \<Rightarrow> uint16" where
  "next_count c = (if c + 1 = 0 then 1 else c + 1)"

definition handle_of :: "uint16 \<Rightarrow> uint8 \<Rightarrow> uint32" where
  "handle_of c i = push_bit 8 (ucast c) OR ucast i"

lemma generate_handler_eq:
  "mm_camera_util_generate_handler c i = (handle_of (next_count c) i, next_count c)"
  by (simp add: mm_camera_util_generate_handler_def handle_of_def next_count_def Let_def)

lemma handle_of_inverse:
  "(ucast (handle_of c i AND 0xff) :: uint8) = i" "ucast (drop_bit 8 (handle_of c i)) = c"
proof -
  have mask_8: "(0xff :: uint32) = Bit_Operations.mask 8"
    by (simp add: mask_eq_exp_minus_1)
  show "(ucast (handle_of c i AND 0xff) :: uint8) = i"
    unfolding mask_8 by (rule bit_word_eqI) (auto simp: handle_of_def bit_simps)
  show "ucast (drop_bit 8 (handle_of c i)) = c"
    by (rule bit_word_eqI) (auto simp: handle_of_def bit_simps dest: bit_imp_le_length)
qed

lemma get_index_of_handle [simp]: "mm_camera_util_get_index_by_handler (handle_of c i) = i"
  by (simp add: mm_camera_util_get_index_by_handler_def handle_of_inverse)

lemma handle_of_eq_iff: "handle_of c i = handle_of d j \<longleftrightarrow> c = d \<and> i = j"
  by (metis handle_of_inverse)

lemma handle_nonzero: "c \<noteq> 0 \<Longrightarrow> handle_of c i \<noteq> 0"
  by (metis drop_bit_of_0 handle_of_inverse(2) ucast_0)

text \<open>The counter runs through the nonzero values, in \<open>65535\<close> steps.\<close>

lemma next_count_nonzero: "next_count c \<noteq> 0"
  by (simp add: next_count_def)

lemma unat_next_count: "unat (next_count c) = unat c mod 65535 + 1"
proof (cases "unat c = 65535")
  case True
  then have "c = 0xffff"
    by (simp add: word_unat_eq_iff)
  then show ?thesis
    by (simp add: next_count_def)
next
  case False
  then have "unat c < 65535"
    using unsigned_less [where 'a = nat, of c] by simp
  moreover from this have "unat (c + 1) = unat c + 1"
    by (simp add: unat_word_ariths)
  ultimately show ?thesis
    by (auto simp: next_count_def)
qed

lemma unat_iterated_count: "unat ((next_count ^^ Suc n) c) = (unat c + n) mod 65535 + 1"
  by (induction n) (simp_all add: unat_next_count mod_Suc_eq add.commute)

lemma mod_add_inject:
  fixes a k l m :: nat
  assumes "(a + k) mod m = (a + l) mod m" and "k < m" and "l < m"
  shows "k = l"
proof -
  have "k = l" if "k \<le> l" "l < m" "(a + l) mod m = (a + k) mod m" for k l
  proof -
    have "m dvd l - k"
      using that mod_eq_dvd_iff_nat [of "a + k" "a + l" m] by simp
    then show ?thesis
      using that nat_dvd_not_less [of "l - k" m] by (cases "k = l") auto
  qed
  then show ?thesis
    using assms by (metis nat_le_linear)
qed

lemma handlers_eq:
  "handlers c is = map (\<lambda>k. handle_of ((next_count ^^ Suc k) c) (is ! k)) [0 ..< length is]"
proof (induction "is" arbitrary: c)
  case (Cons i "is")
  have "[0 ..< length (i # is)] = 0 # map Suc [0 ..< length is]"
    by (simp add: upt_conv_Cons map_Suc_upt del: upt_Suc)
  then show ?case
    using Cons.IH [of "next_count c"]
    by (simp add: generate_handler_eq Let_def funpow_swap1 del: upt_Suc)
qed simp

text \<open>
  C34: the index of an object is recovered from its handle, no handle is 0 (the invalid one),
  and handles made within 65535 generations differ, whatever their indices; the bound is sharp.
\<close>

theorem handler_roundtrip:
  "map mm_camera_util_get_index_by_handler (handlers c is) = is
   \<and> 0 \<notin> set (handlers c is)
   \<and> (length is \<le> 65535 \<longrightarrow> distinct (handlers c is))
   \<and> \<not> distinct (handlers c (replicate 65536 i))"
proof (intro conjI impI)
  show "map mm_camera_util_get_index_by_handler (handlers c is) = is"
    by (simp add: handlers_eq comp_def map_nth del: funpow.simps)
  show "0 \<notin> set (handlers c is)"
    using handle_nonzero [OF next_count_nonzero] by (fastforce simp: handlers_eq)
  show "distinct (handlers c is)" if "length is \<le> 65535"
  proof -
    have "inj_on (\<lambda>k. unat ((next_count ^^ Suc k) c)) {0 ..< length is}"
    proof (rule inj_onI)
      fix k l
      assume "k \<in> {0 ..< length is}" "l \<in> {0 ..< length is}"
        and "unat ((next_count ^^ Suc k) c) = unat ((next_count ^^ Suc l) c)"
      then have "(unat c + k) mod 65535 = (unat c + l) mod 65535" "k < 65535" "l < 65535"
        using that by (simp_all add: unat_iterated_count del: funpow.simps)
      then show "k = l"
        by (rule mod_add_inject)
    qed
    then show ?thesis
      by (auto simp: handlers_eq distinct_map inj_on_def handle_of_eq_iff simp del: funpow.simps)
  qed
  have "unat ((next_count ^^ Suc 0) c) = unat ((next_count ^^ Suc 65535) c)"
    by (simp only: unat_iterated_count) simp
  then have "(next_count ^^ Suc 0) c = (next_count ^^ Suc 65535) c"
    by (simp only: word_unat_eq_iff)
  then have "handlers c (replicate 65536 i) ! 0 = handlers c (replicate 65536 i) ! 65535"
    by (simp add: handlers_eq del: upt_Suc funpow.simps)
  then show "\<not> distinct (handlers c (replicate 65536 i))"
    using nth_eq_iff_index_eq [of "handlers c (replicate 65536 i)" 0 65535]
    by (auto simp: handlers_eq)
qed

theorem handler_roundtrip_witness:
  "distinct (handlers 7 [3, 3, 0])
   \<and> map mm_camera_util_get_index_by_handler (handlers 7 [3, 3, 0]) = [3, 3, 0]"
  using handler_roundtrip [of 7 "[3, 3, 0]" 0] by simp

end
