(* ===== verification/PollThread.thy ===== *)
theory PollThread
  imports CamHandles
begin

text \<open>
  \<open>mm_camera_thread.c\<close>, the poll thread: the table \<open>poll_entries\<close> that callers change, the
  array \<open>poll_fds\<close> that \<open>poll\<close> watches, and the pipe by which the callers ask the thread to
  bring the array up to date. A synchronous caller waits until its command was processed.
  \<open>poll_sys_step\<close> interleaves the callers and the thread.
\<close>

definition MAX_STREAM_NUM_IN_BUNDLE :: nat where
  "MAX_STREAM_NUM_IN_BUNDLE = 8"

datatype poll_thread_type = MM_CAMERA_POLL_TYPE_EVT | MM_CAMERA_POLL_TYPE_DATA

datatype pipe_cmd =
    MM_CAMERA_PIPE_CMD_POLL_ENTRIES_UPDATED
  | MM_CAMERA_PIPE_CMD_POLL_ENTRIES_UPDATED_ASYNC
  | MM_CAMERA_PIPE_CMD_COMMIT
  | MM_CAMERA_PIPE_CMD_EXIT

datatype poll_task_state = MM_CAMERA_POLL_TASK_STATE_STOPPED | MM_CAMERA_POLL_TASK_STATE_POLL

datatype call_type = mm_camera_sync_call | mm_camera_async_call

record poll_entry =
  entry_fd :: int32
  notify_cb :: bool
  handler :: uint32
  user_data :: addr

text \<open>A \<open>struct pollfd\<close>: the descriptor, and whether \<open>events\<close> asks for data.\<close>

record pollfd =
  pollfd_fd :: int32
  pollfd_events :: bool

record poll_thread =
  poll_type :: poll_thread_type
  poll_entries :: "poll_entry list"
  pfds_read :: int32
  pipe :: "pipe_cmd list"
  poll_state :: poll_task_state
  poll_fds :: "pollfd list"
  num_fds :: nat
  status :: bool

section \<open>The thread\<close>

text \<open>Store an element at \<open>poll_fds[num_fds]\<close>, and count it.\<close>

definition put_fd :: "int32 \<Rightarrow> bool \<Rightarrow> poll_thread \<Rightarrow> poll_thread option" where
  "put_fd fd ev p =
    (if num_fds p < length (poll_fds p)
     then Some (p\<lparr>poll_fds := (poll_fds p)[num_fds p := \<lparr>pollfd_fd = fd, pollfd_events = ev\<rparr>],
                  num_fds := num_fds p + 1\<rparr>)
     else None)"

definition put_entry :: "poll_entry \<Rightarrow> poll_thread \<Rightarrow> poll_thread option" where
  "put_entry e p = (if 0 \<le>s entry_fd e then put_fd (entry_fd e) True p else put_fd (-1) False p)"

fun put_entries :: "poll_entry list \<Rightarrow> poll_thread \<Rightarrow> poll_thread option" where
  "put_entries [] p = Some p"
| "put_entries (e # es) p = do { p \<leftarrow> put_entry e p; put_entries es p }"

definition rebuild_fds :: "poll_thread \<Rightarrow> poll_thread option" where
  "rebuild_fds p = do {
     p \<leftarrow> put_fd (pfds_read p) True (p\<lparr>num_fds := 0\<rparr>);
     if poll_type p = MM_CAMERA_POLL_TYPE_EVT \<and> num_fds p < MAX_STREAM_NUM_IN_BUNDLE
     then if 0 \<le>s entry_fd (poll_entries p ! 0)
          then put_fd (entry_fd (poll_entries p ! 0)) True p else Some p
     else if poll_type p = MM_CAMERA_POLL_TYPE_DATA \<and> num_fds p \<le> MAX_STREAM_NUM_IN_BUNDLE
     then put_entries (take MAX_STREAM_NUM_IN_BUNDLE (poll_entries p)) p
     else Some p }"

text \<open>
  \<open>mm_camera_poll_proc_pipe\<close> on a command read from the pipe: the new state, and whether the
  thread then calls \<open>mm_camera_poll_sig_done\<close>.
\<close>

fun mm_camera_poll_proc_pipe :: "pipe_cmd \<Rightarrow> poll_thread \<Rightarrow> (bool \<times> poll_thread) option" where
  "mm_camera_poll_proc_pipe MM_CAMERA_PIPE_CMD_POLL_ENTRIES_UPDATED p = do {
     p \<leftarrow> rebuild_fds p; Some (True, p) }"
| "mm_camera_poll_proc_pipe MM_CAMERA_PIPE_CMD_POLL_ENTRIES_UPDATED_ASYNC p = do {
     p \<leftarrow> rebuild_fds p; Some (False, p) }"
| "mm_camera_poll_proc_pipe MM_CAMERA_PIPE_CMD_COMMIT p = Some (True, p)"
| "mm_camera_poll_proc_pipe MM_CAMERA_PIPE_CMD_EXIT p =
     Some (True, p\<lparr>poll_state := MM_CAMERA_POLL_TASK_STATE_STOPPED\<rparr>)"

definition mm_camera_poll_sig_done :: "poll_thread \<Rightarrow> poll_thread" where
  "mm_camera_poll_sig_done p = p\<lparr>status := True\<rparr>"

text \<open>
  One turn of the loop of \<open>mm_camera_poll_fn\<close>: every descriptor is armed, \<open>poll\<close> finds those
  of \<open>ready\<close> (indices of \<open>poll_fds\<close>), and either the pipe is served or the callbacks of the
  others are called, which get the user data listed. \<open>None\<close> is an access outside
  \<open>poll_entries\<close>.
\<close>

definition arm_fds :: "poll_thread \<Rightarrow> poll_thread" where
  "arm_fds p = p\<lparr>poll_fds := map (\<lambda>f. f\<lparr>pollfd_events := True\<rparr>) (take (num_fds p) (poll_fds p))
                             @ drop (num_fds p) (poll_fds p)\<rparr>"

definition notify_entry :: "poll_thread \<Rightarrow> nat set \<Rightarrow> nat \<Rightarrow> addr list option" where
  "notify_entry p ready i =
    (if i \<in> ready
     then if i - 1 < length (poll_entries p)
          then let e = poll_entries p ! (i - 1)
               in Some (if notify_cb e then [user_data e] else [])
          else None
     else Some [])"

fun notify_entries :: "poll_thread \<Rightarrow> nat set \<Rightarrow> nat list \<Rightarrow> addr list option" where
  "notify_entries p ready [] = Some []"
| "notify_entries p ready (i # is) = do {
     cbs \<leftarrow> notify_entry p ready i;
     rest \<leftarrow> notify_entries p ready is;
     Some (cbs @ rest) }"

definition mm_camera_poll_fn_notify :: "poll_thread \<Rightarrow> nat set \<Rightarrow> addr list option" where
  "mm_camera_poll_fn_notify p ready = notify_entries p ready [1 ..< num_fds p]"

section \<open>The calls\<close>

text \<open>
  The first part of \<open>mm_camera_poll_sig\<close> and of \<open>mm_camera_poll_sig_async\<close>, under the mutex:
  \<open>written\<close>, whether the write into the pipe succeeds. Both return 0 in any case.
\<close>

definition poll_sig_write :: "bool \<Rightarrow> pipe_cmd \<Rightarrow> poll_thread \<Rightarrow> poll_thread" where
  "poll_sig_write written cmd p =
    (if written then p\<lparr>status := False, pipe := pipe p @ [cmd]\<rparr> else p\<lparr>status := False\<rparr>)"

text \<open>The slot of a handler, and the change of the table that precedes the signal.\<close>

definition poll_slot :: "poll_thread \<Rightarrow> uint32 \<Rightarrow> nat" where
  "poll_slot p h =
    (if poll_type p = MM_CAMERA_POLL_TYPE_DATA
     then unat (mm_camera_util_get_index_by_handler h) else 0)"

definition add_entry ::
    "uint32 \<Rightarrow> int32 \<Rightarrow> addr \<Rightarrow> poll_thread \<Rightarrow> (int32 \<times> bool \<times> poll_thread)" where
  "add_entry h fd data p =
    (let idx = poll_slot p h
     in if idx < MAX_STREAM_NUM_IN_BUNDLE
        then (0, True, p\<lparr>poll_entries := (poll_entries p)
                [idx := \<lparr>entry_fd = fd, notify_cb = True, handler = h, user_data = data\<rparr>]\<rparr>)
        else (-1, False, p))"

definition del_entry :: "uint32 \<Rightarrow> poll_thread \<Rightarrow> (int32 \<times> bool \<times> poll_thread)" where
  "del_entry h p =
    (let idx = poll_slot p h; e = poll_entries p ! idx
     in if idx < MAX_STREAM_NUM_IN_BUNDLE \<and> h = handler e
        then (0, True, p\<lparr>poll_entries := (poll_entries p)
                [idx := e\<lparr>entry_fd := -1, handler := 0, notify_cb := False\<rparr>]\<rparr>)
        else if MAX_STREAM_NUM_IN_BUNDLE \<le> idx \<or> handler e \<noteq> 0 then (-1, False, p)
        else (0, False, p))"

definition update_cmd :: "call_type \<Rightarrow> pipe_cmd" where
  "update_cmd t = (case t of
     mm_camera_sync_call \<Rightarrow> MM_CAMERA_PIPE_CMD_POLL_ENTRIES_UPDATED
   | mm_camera_async_call \<Rightarrow> MM_CAMERA_PIPE_CMD_POLL_ENTRIES_UPDATED_ASYNC)"

text \<open>\<open>mm_camera_poll_thread_launch\<close>, up to \<open>pthread_create\<close>: \<open>pipe_fd\<close>, the read end, or -1.\<close>

definition poll_launch :: "poll_thread_type \<Rightarrow> int32 \<Rightarrow> poll_thread \<Rightarrow> int32 \<times> poll_thread" where
  "poll_launch ty pipe_fd p =
    (let p = p\<lparr>poll_type := ty,
               poll_fds := map (\<lambda>f. f\<lparr>pollfd_fd := -1\<rparr>) (poll_fds p),
               poll_entries := map (\<lambda>e. e\<lparr>entry_fd := -1\<rparr>) (poll_entries p),
               pfds_read := -1\<rparr>
     in if pipe_fd <s 0 then (-1, p)
        else (0, p\<lparr>pfds_read := pipe_fd, pipe := [], status := False\<rparr>))"

text \<open>The object as its owner's \<open>memset\<close> leaves it.\<close>

definition zeroed_poll_thread :: poll_thread where
  "zeroed_poll_thread =
    \<lparr>poll_type = MM_CAMERA_POLL_TYPE_EVT,
     poll_entries = replicate MAX_STREAM_NUM_IN_BUNDLE
       \<lparr>entry_fd = 0, notify_cb = False, handler = 0, user_data = 0\<rparr>,
     pfds_read = 0, pipe = [], poll_state = MM_CAMERA_POLL_TASK_STATE_STOPPED,
     poll_fds = replicate (MAX_STREAM_NUM_IN_BUNDLE + 1)
       \<lparr>pollfd_fd = 0, pollfd_events = False\<rparr>,
     num_fds = 0, status = False\<rparr>"

section \<open>Callers and thread\<close>

text \<open>
  Where the poll thread is: before its first signal, before it sets its state, in \<open>poll\<close>,
  before the signal of a processed command, ended. A caller changes the table
  without the mutex and then signals (\<open>writers\<close>, the callers in between); a synchronous one
  waits on the condition (\<open>waiters\<close>). The thread that launched waits too.
\<close>

datatype poll_pc = Starting | Started | Polling | Signalling | Ended

record poll_sys =
  pt :: poll_thread
  pc :: poll_pc
  writers :: "nat set"
  waiters :: "nat set"

text \<open>The first statements of \<open>mm_camera_poll_thread\<close> put the pipe into \<open>poll_fds\<close>.\<close>

definition thread_entry :: "poll_thread \<Rightarrow> poll_thread option" where
  "thread_entry p =
    (if num_fds p < length (poll_fds p)
     then Some (p\<lparr>poll_fds := (poll_fds p)[num_fds p := (poll_fds p ! num_fds p)\<lparr>pollfd_fd := pfds_read p\<rparr>],
                  num_fds := num_fds p + 1\<rparr>)
     else None)"

inductive caller_step :: "poll_sys \<Rightarrow> poll_sys \<Rightarrow> bool" where
  add: "c \<notin> writers s \<union> waiters s \<Longrightarrow> add_entry h fd data (pt s) = (0, True, p) \<Longrightarrow>
    caller_step s (s\<lparr>pt := p, writers := insert c (writers s)\<rparr>)"
| del: "c \<notin> writers s \<union> waiters s \<Longrightarrow> del_entry h (pt s) = (0, True, p) \<Longrightarrow>
    caller_step s (s\<lparr>pt := p, writers := insert c (writers s)\<rparr>)"
| sig_async: "c \<in> writers s \<Longrightarrow>
    caller_step s (s\<lparr>pt := poll_sig_write True (update_cmd mm_camera_async_call) (pt s),
                   writers := writers s - {c}\<rparr>)"
| sig_sync: "c \<in> writers s \<Longrightarrow>
    caller_step s (s\<lparr>pt := poll_sig_write True (update_cmd mm_camera_sync_call) (pt s),
                   writers := writers s - {c}, waiters := insert c (waiters s)\<rparr>)"
| commit: "c \<notin> writers s \<union> waiters s \<Longrightarrow>
    caller_step s (s\<lparr>pt := poll_sig_write True MM_CAMERA_PIPE_CMD_COMMIT (pt s),
                   waiters := insert c (waiters s)\<rparr>)"
| exit: "c \<notin> writers s \<union> waiters s \<Longrightarrow> poll_state (pt s) = MM_CAMERA_POLL_TASK_STATE_POLL \<Longrightarrow>
    caller_step s (s\<lparr>pt := poll_sig_write True MM_CAMERA_PIPE_CMD_EXIT (pt s),
                   waiters := insert c (waiters s)\<rparr>)"

text \<open>\<open>pthread_cond_signal\<close> wakes one of the waiting threads, if there is one.\<close>

definition wakes :: "nat set \<Rightarrow> nat set \<Rightarrow> bool" where
  "wakes W W' \<longleftrightarrow> (if W = {} then W' = {} else \<exists>c\<in>W. W' = W - {c})"

inductive poll_thread_step :: "poll_sys \<Rightarrow> poll_sys \<Rightarrow> bool" where
  start: "pc s = Starting \<Longrightarrow> thread_entry (pt s) = Some p \<Longrightarrow> wakes (waiters s) W \<Longrightarrow>
    poll_thread_step s (s\<lparr>pt := mm_camera_poll_sig_done p, pc := Started, waiters := W\<rparr>)"
| started: "pc s = Started \<Longrightarrow>
    poll_thread_step s (s\<lparr>pt := (pt s)\<lparr>poll_state := MM_CAMERA_POLL_TASK_STATE_POLL\<rparr>, pc := Polling\<rparr>)"
| take: "pc s = Polling \<Longrightarrow> pipe (pt s) = cmd # cmds \<Longrightarrow>
    mm_camera_poll_proc_pipe cmd (arm_fds ((pt s)\<lparr>pipe := cmds\<rparr>)) = Some (done, p) \<Longrightarrow>
    poll_thread_step s (s\<lparr>pt := p, pc := (if done then Signalling else Polling)\<rparr>)"
| signal: "pc s = Signalling \<Longrightarrow> wakes (waiters s) W \<Longrightarrow>
    poll_thread_step s (s\<lparr>pt := mm_camera_poll_sig_done (pt s), waiters := W,
      pc := (if poll_state (pt s) = MM_CAMERA_POLL_TASK_STATE_POLL then Polling else Ended)\<rparr>)"

definition poll_sys_step :: "poll_sys \<Rightarrow> poll_sys \<Rightarrow> bool" where
  "poll_sys_step s s' \<longleftrightarrow> caller_step s s' \<or> poll_thread_step s s'"

text \<open>
  The start: \<open>mm_camera_poll_thread_launch\<close> has created the thread, with the pipe open, and
  waits on the condition.
\<close>

definition poll_started :: "poll_thread_type \<Rightarrow> int32 \<Rightarrow> poll_sys" where
  "poll_started ty pipe_fd =
     \<lparr>pt = snd (poll_launch ty pipe_fd zeroed_poll_thread), pc = Starting, writers = {}, waiters = {0}\<rparr>"

definition poll_reachable :: "poll_thread_type \<Rightarrow> int32 \<Rightarrow> poll_sys \<Rightarrow> bool" where
  "poll_reachable ty pipe_fd s \<longleftrightarrow> 0 \<le>s pipe_fd \<and> poll_sys_step\<^sup>*\<^sup>* (poll_started ty pipe_fd) s"

section \<open>The lists\<close>

lemma put_entries_eq:
  "num_fds p + length es \<le> length (poll_fds p) \<Longrightarrow>
    \<exists>q. put_entries es p = Some q \<and> num_fds q = num_fds p + length es
      \<and> length (poll_fds q) = length (poll_fds p)
      \<and> poll_entries q = poll_entries p \<and> pipe q = pipe p \<and> poll_type q = poll_type p
      \<and> pfds_read q = pfds_read p \<and> poll_state q = poll_state p
      \<and> (\<forall>i < num_fds p. poll_fds q ! i = poll_fds p ! i)
      \<and> (\<forall>i < length es. pollfd_fd (poll_fds q ! (num_fds p + i)) =
           (if 0 \<le>s entry_fd (es ! i) then entry_fd (es ! i) else -1))"
proof (induction es arbitrary: p)
  case (Cons e es)
  define fd where "fd = (if 0 \<le>s entry_fd e then (entry_fd e, True) else (-1, False))"
  define p1 where "p1 = p\<lparr>poll_fds := (poll_fds p)[num_fds p :=
      \<lparr>pollfd_fd = fst fd, pollfd_events = snd fd\<rparr>], num_fds := num_fds p + 1\<rparr>"
  have "put_entry e p = Some p1"
    using Cons.prems by (simp add: put_entry_def put_fd_def p1_def fd_def)
  moreover obtain q where q: "put_entries es p1 = Some q"
      "num_fds q = num_fds p1 + length es" "length (poll_fds q) = length (poll_fds p1)"
      "poll_entries q = poll_entries p1" "pipe q = pipe p1" "poll_type q = poll_type p1"
      "pfds_read q = pfds_read p1" "poll_state q = poll_state p1"
      "\<forall>i < num_fds p1. poll_fds q ! i = poll_fds p1 ! i"
      "\<forall>i < length es. pollfd_fd (poll_fds q ! (num_fds p1 + i)) =
           (if 0 \<le>s entry_fd (es ! i) then entry_fd (es ! i) else -1)"
    using Cons.IH [of p1] Cons.prems by (auto simp: p1_def)
  moreover have "pollfd_fd (poll_fds q ! (num_fds p + i)) =
      (if 0 \<le>s entry_fd ((e # es) ! i) then entry_fd ((e # es) ! i) else -1)"
    if "i < length (e # es)" for i
  proof (cases i)
    case 0
    then show ?thesis
      using q(9) Cons.prems by (simp add: p1_def fd_def)
  next
    case (Suc k)
    then show ?thesis
      using q(10) [rule_format, of k] that by (simp add: p1_def)
  qed
  ultimately show ?case
    using q(9) by (auto simp: p1_def)
qed simp

lemma arm_fds_same [simp]:
  "poll_entries (arm_fds p) = poll_entries p" "pipe (arm_fds p) = pipe p"
  "poll_type (arm_fds p) = poll_type p" "pfds_read (arm_fds p) = pfds_read p"
  "poll_state (arm_fds p) = poll_state p" "num_fds (arm_fds p) = num_fds p"
  "status (arm_fds p) = status p" "length (poll_fds (arm_fds p)) = length (poll_fds p)"
  by (simp_all add: arm_fds_def)

lemma arm_fds_fd: "i < length (poll_fds p) \<Longrightarrow>
    pollfd_fd (poll_fds (arm_fds p) ! i) = pollfd_fd (poll_fds p ! i)"
  by (simp add: arm_fds_def nth_append)

text \<open>The array agrees with the table: what the table holds is watched, and nothing else.\<close>

definition watched :: "poll_thread \<Rightarrow> bool" where
  "watched p \<longleftrightarrow> 0 < num_fds p \<and> pollfd_fd (poll_fds p ! 0) = pfds_read p
     \<and> (\<forall>i < MAX_STREAM_NUM_IN_BUNDLE.
          if 0 \<le>s entry_fd (poll_entries p ! i)
          then i + 1 < num_fds p \<and> pollfd_fd (poll_fds p ! (i + 1)) = entry_fd (poll_entries p ! i)
          else i + 1 < num_fds p \<longrightarrow> pollfd_fd (poll_fds p ! (i + 1)) = -1)"

definition sized :: "poll_thread \<Rightarrow> bool" where
  "sized p \<longleftrightarrow> poll_type p = MM_CAMERA_POLL_TYPE_DATA
     \<and> length (poll_entries p) = MAX_STREAM_NUM_IN_BUNDLE
     \<and> length (poll_fds p) = MAX_STREAM_NUM_IN_BUNDLE + 1
     \<and> num_fds p \<le> MAX_STREAM_NUM_IN_BUNDLE + 1"

lemma rebuild_fds_ok:
  assumes "sized p"
  obtains q where "rebuild_fds p = Some q" "sized q" "watched q" "pipe q = pipe p"
    "poll_entries q = poll_entries p" "poll_state q = poll_state p"
proof -
  define p1 where "p1 = p\<lparr>poll_fds := (poll_fds p)[0 := \<lparr>pollfd_fd = pfds_read p, pollfd_events = True\<rparr>],
    num_fds := 1\<rparr>"
  have p1: "put_fd (pfds_read p) True (p\<lparr>num_fds := 0\<rparr>) = Some p1"
    using assms by (simp add: put_fd_def p1_def sized_def)
  obtain q where q: "put_entries (poll_entries p) p1 = Some q"
      "num_fds q = 1 + MAX_STREAM_NUM_IN_BUNDLE" "length (poll_fds q) = length (poll_fds p1)"
      "poll_entries q = poll_entries p" "pipe q = pipe p" "poll_type q = poll_type p"
      "pfds_read q = pfds_read p" "poll_state q = poll_state p"
      "\<forall>i < 1. poll_fds q ! i = poll_fds p1 ! i"
      "\<forall>i < MAX_STREAM_NUM_IN_BUNDLE. pollfd_fd (poll_fds q ! (1 + i)) =
           (if 0 \<le>s entry_fd (poll_entries p ! i) then entry_fd (poll_entries p ! i) else -1)"
    using put_entries_eq [of p1 "poll_entries p"] assms by (auto simp: p1_def sized_def)
  have "rebuild_fds p = Some q"
    using assms q(1) by (simp add: rebuild_fds_def p1 sized_def) (simp add: p1_def MAX_STREAM_NUM_IN_BUNDLE_def)
  moreover have "sized q"
    using assms q by (simp add: sized_def p1_def)
  moreover have "watched q"
    using assms q by (auto simp: watched_def sized_def p1_def)
  ultimately show thesis
    using that q by blast
qed

section \<open>The invariant\<close>

definition is_update :: "pipe_cmd \<Rightarrow> bool" where
  "is_update cmd \<longleftrightarrow> cmd \<in> {MM_CAMERA_PIPE_CMD_POLL_ENTRIES_UPDATED,
                          MM_CAMERA_PIPE_CMD_POLL_ENTRIES_UPDATED_ASYNC}"

definition is_sync :: "pipe_cmd \<Rightarrow> bool" where
  "is_sync cmd \<longleftrightarrow> cmd \<noteq> MM_CAMERA_PIPE_CMD_POLL_ENTRIES_UPDATED_ASYNC"

text \<open>The signals the thread still owes: one for each synchronous command.\<close>

definition owed :: "poll_sys \<Rightarrow> nat" where
  "owed s = length (List.filter is_sync (pipe (pt s)))
     + (if pc s = Starting \<or> pc s = Signalling then 1 else 0)"

text \<open>Every change of the table was processed.\<close>

definition settled :: "poll_sys \<Rightarrow> bool" where
  "settled s \<longleftrightarrow> writers s = {} \<and> (\<forall>cmd \<in> set (pipe (pt s)). \<not> is_update cmd)"

definition poll_inv :: "poll_sys \<Rightarrow> bool" where
  "poll_inv s \<longleftrightarrow> sized (pt s) \<and> finite (waiters s) \<and> card (waiters s) = owed s
     \<and> (pc s = Starting \<longrightarrow> num_fds (pt s) = 0)
     \<and> (settled s \<longrightarrow>
          (if pc s = Starting then \<forall>e \<in> set (poll_entries (pt s)). entry_fd e <s 0
           else watched (pt s)))"

lemma poll_inv_start: "0 \<le>s fd \<Longrightarrow> poll_inv (poll_started MM_CAMERA_POLL_TYPE_DATA fd)"
  by (simp add: poll_inv_def poll_started_def poll_launch_def zeroed_poll_thread_def sized_def
      owed_def settled_def word_sless_alt word_sle_eq)

lemma add_entry_same:
  assumes "add_entry h fd data p = (0, True, q)"
  shows "sized q = sized p" "pipe q = pipe p" "num_fds q = num_fds p"
  using assms by (auto simp: add_entry_def Let_def sized_def split: if_splits)

lemma del_entry_same:
  assumes "del_entry h p = (0, True, q)"
  shows "sized q = sized p" "pipe q = pipe p" "num_fds q = num_fds p"
  using assms by (auto simp: del_entry_def Let_def sized_def split: if_splits)

lemma poll_sig_write_same [simp]:
  "sized (poll_sig_write w cmd p) = sized p" "num_fds (poll_sig_write w cmd p) = num_fds p"
  "watched (poll_sig_write w cmd p) = watched p"
  "poll_entries (poll_sig_write w cmd p) = poll_entries p"
  "pipe (poll_sig_write True cmd p) = pipe p @ [cmd]"
  by (simp_all add: poll_sig_write_def sized_def watched_def)

lemma update_cmd_simps [simp]: "is_update (update_cmd t)"
  "is_sync (update_cmd mm_camera_sync_call)" "\<not> is_sync (update_cmd mm_camera_async_call)"
  by (cases t; simp add: update_cmd_def is_update_def is_sync_def)+

lemma poll_inv_change:
  assumes "poll_inv s" and "sized p = sized (pt s)" and "pipe p = pipe (pt s)"
    and "num_fds p = num_fds (pt s)"
  shows "poll_inv (s\<lparr>pt := p, writers := insert c (writers s)\<rparr>)"
  using assms by (simp add: poll_inv_def owed_def settled_def)

lemma poll_inv_async:
  assumes "poll_inv s"
  shows "poll_inv (s\<lparr>pt := poll_sig_write True (update_cmd mm_camera_async_call) (pt s),
                   writers := W\<rparr>)"
  using assms by (simp add: poll_inv_def owed_def settled_def)

lemma poll_inv_sync:
  assumes "poll_inv s" and "is_sync cmd" and "c \<notin> waiters s" and "W = writers s \<or> is_update cmd"
  shows "poll_inv (s\<lparr>pt := poll_sig_write True cmd (pt s), writers := W,
                   waiters := insert c (waiters s)\<rparr>)"
  using assms by (auto simp add: poll_inv_def owed_def settled_def)

definition poll_threads_apart :: "poll_sys \<Rightarrow> bool" where
  "poll_threads_apart s \<longleftrightarrow> writers s \<inter> waiters s = {}"

lemma poll_inv_caller:
  assumes "caller_step s s'" and "poll_inv s" and "poll_threads_apart s"
  shows "poll_inv s' \<and> poll_threads_apart s'"
  using assms(1)
proof cases
  case (add c h fd data p)
  then show ?thesis
    using assms add_entry_same [OF add(3)] by (auto simp: poll_threads_apart_def intro: poll_inv_change)
next
  case (del c h p)
  then show ?thesis
    using assms del_entry_same [OF del(3)] by (auto simp: poll_threads_apart_def intro: poll_inv_change)
next
  case (sig_async c)
  then show ?thesis
    using assms by (auto simp: poll_threads_apart_def intro: poll_inv_async)
next
  case (sig_sync c)
  then show ?thesis
    using assms by (auto simp: poll_threads_apart_def intro: poll_inv_sync)
next
  case (commit c)
  then show ?thesis
    using assms poll_inv_sync [of s MM_CAMERA_PIPE_CMD_COMMIT c "writers s"]
    by (auto simp: poll_threads_apart_def is_sync_def)
next
  case (exit c)
  then show ?thesis
    using assms poll_inv_sync [of s MM_CAMERA_PIPE_CMD_EXIT c "writers s"]
    by (auto simp: poll_threads_apart_def is_sync_def)
qed

lemma proc_pipe_ok:
  assumes "sized p"
  obtains q where "mm_camera_poll_proc_pipe cmd p = Some (is_sync cmd, q)" "sized q" "pipe q = pipe p"
    "is_update cmd \<Longrightarrow> watched q" "\<not> is_update cmd \<Longrightarrow> watched q = watched p"
    "cmd \<noteq> MM_CAMERA_PIPE_CMD_EXIT \<Longrightarrow> poll_state q = poll_state p"
    "poll_entries q = poll_entries p"
proof (cases "is_update cmd")
  case True
  obtain q where "rebuild_fds p = Some q" "sized q" "watched q" "pipe q = pipe p"
      "poll_state q = poll_state p" "poll_entries q = poll_entries p"
    using rebuild_fds_ok [OF assms] by metis
  then show thesis
    using that [of q] True by (auto simp: is_update_def is_sync_def)
next
  case False
  then show thesis
    using that [of "if cmd = MM_CAMERA_PIPE_CMD_EXIT
        then p\<lparr>poll_state := MM_CAMERA_POLL_TASK_STATE_STOPPED\<rparr> else p"] assms
    by (cases cmd) (auto simp: is_update_def is_sync_def sized_def watched_def)
qed

lemma arm_fds_pipe [simp]: "sized (arm_fds (p\<lparr>pipe := cmds\<rparr>)) = sized p"
    "sized p \<Longrightarrow> watched (arm_fds (p\<lparr>pipe := cmds\<rparr>)) = watched p"
  by (auto simp: sized_def watched_def arm_fds_fd)

lemma sized_watched_update [simp]:
  "sized (p\<lparr>status := b\<rparr>) = sized p" "watched (p\<lparr>status := b\<rparr>) = watched p"
  "sized (p\<lparr>poll_state := t\<rparr>) = sized p" "watched (p\<lparr>poll_state := t\<rparr>) = watched p"
  by (simp_all add: sized_def watched_def)

lemma wakes_card: "wakes W W' \<Longrightarrow> finite W \<Longrightarrow> finite W' \<and> card W' = card W - 1 \<and> W' \<subseteq> W"
  by (auto simp: wakes_def split: if_splits)

lemma poll_inv_thread:
  assumes "poll_thread_step s s'" and "poll_inv s" and "poll_threads_apart s"
  shows "poll_inv s' \<and> poll_threads_apart s'"
  using assms(1)
proof cases
  case (start p W)
  then have "sized p" "pipe p = pipe (pt s)" "poll_entries p = poll_entries (pt s)" 
    "num_fds p = 1" "pollfd_fd (poll_fds p ! 0) = pfds_read p"
    using assms(2) by (auto simp: poll_inv_def thread_entry_def sized_def split: if_splits)
  moreover have "watched p" if "\<forall>e \<in> set (poll_entries (pt s)). entry_fd e <s 0"
    using that calculation assms(2)
    by (auto simp: watched_def poll_inv_def sized_def signed.not_less [symmetric] )
  ultimately show ?thesis
    using assms start wakes_card [of "waiters s" W]
    by (auto simp: poll_inv_def owed_def settled_def mm_camera_poll_sig_done_def
        poll_threads_apart_def)
next
  case started
  then show ?thesis
    using assms
    by (auto simp: poll_inv_def owed_def settled_def poll_threads_apart_def)
next
  case (take cmd cmds "done" p)
  obtain q where q: "mm_camera_poll_proc_pipe cmd (arm_fds ((pt s)\<lparr>pipe := cmds\<rparr>)) = Some (is_sync cmd, q)"
      "sized q" "pipe q = cmds" "is_update cmd \<Longrightarrow> watched q"
      "\<not> is_update cmd \<Longrightarrow> watched q = watched (pt s)"
    using proc_pipe_ok [of "arm_fds ((pt s)\<lparr>pipe := cmds\<rparr>)" cmd] assms(2)
    by (auto simp: poll_inv_def)
  then show ?thesis
    using assms(2,3) take
    by (auto simp: poll_inv_def owed_def settled_def poll_threads_apart_def)
next
  case (signal W)
  then show ?thesis
    using assms(2,3) wakes_card [of "waiters s" W]
    by (auto simp: poll_inv_def owed_def settled_def mm_camera_poll_sig_done_def
        poll_threads_apart_def)
qed

lemma poll_reachable_inv:
  assumes "poll_reachable MM_CAMERA_POLL_TYPE_DATA fd s"
  shows "poll_inv s \<and> poll_threads_apart s"
proof -
  have "poll_sys_step\<^sup>*\<^sup>* (poll_started MM_CAMERA_POLL_TYPE_DATA fd) s" "0 \<le>s fd"
    using assms by (auto simp: poll_reachable_def)
  then show ?thesis
  proof (induction rule: rtranclp_induct)
    case base
    then show ?case
      by (simp add: poll_inv_start) (simp add: poll_threads_apart_def poll_started_def)
  next
    case (step s s')
    then show ?case
      using poll_inv_caller poll_inv_thread by (auto simp: poll_sys_step_def)
  qed
qed

section \<open>Properties\<close>


text \<open>
  The turns of the thread are counted by the commands in the pipe. It stops only for an
  \<open>EXIT\<close>.
\<close>

definition turns :: "poll_sys \<Rightarrow> nat" where
  "turns s = 2 * length (pipe (pt s)) + (case pc s of Starting \<Rightarrow> 2 | Started \<Rightarrow> 1
     | Polling \<Rightarrow> 0 | Signalling \<Rightarrow> 1 | Ended \<Rightarrow> 0)"

definition keeps_running :: "poll_sys \<Rightarrow> bool" where
  "keeps_running s \<longleftrightarrow> MM_CAMERA_PIPE_CMD_EXIT \<notin> set (pipe (pt s)) \<and> pc s \<noteq> Ended
     \<and> (pc s \<in> {Polling, Signalling} \<longrightarrow> poll_state (pt s) = MM_CAMERA_POLL_TASK_STATE_POLL)"

lemma thread_step_turns:
  assumes "poll_thread_step s t" and "poll_inv s" and "keeps_running s"
  shows "turns t < turns s \<and> keeps_running t"
  using assms(1)
proof cases
  case (start p W)
  then show ?thesis
    using assms(3) by (auto simp: turns_def keeps_running_def thread_entry_def
        mm_camera_poll_sig_done_def split: if_splits)
next
  case started
  then show ?thesis
    using assms(3) by (auto simp: turns_def keeps_running_def)
next
  case (take cmd cmds "done" p)
  obtain q where "mm_camera_poll_proc_pipe cmd (arm_fds ((pt s)\<lparr>pipe := cmds\<rparr>)) = Some (is_sync cmd, q)"
      "pipe q = cmds" "cmd \<noteq> MM_CAMERA_PIPE_CMD_EXIT \<Longrightarrow> poll_state q = poll_state (pt s)"
    using proc_pipe_ok [of "arm_fds ((pt s)\<lparr>pipe := cmds\<rparr>)" cmd] assms(2)
    by (auto simp: poll_inv_def)
  then show ?thesis
    using take assms(3) by (auto simp: turns_def keeps_running_def)
next
  case (signal W)
  then show ?thesis
    using assms(3) by (auto simp: turns_def keeps_running_def mm_camera_poll_sig_done_def)
qed

lemma thread_enabled:
  assumes "poll_inv s" and "keeps_running s" and "waiters s \<noteq> {}"
  shows "\<exists>t. poll_thread_step s t"
proof -
  obtain c where "c \<in> waiters s"
    using assms(3) by auto
  then have W: "wakes (waiters s) (waiters s - {c})"
    by (auto simp: wakes_def)
  show ?thesis
  proof (cases "pc s")
    case Starting
    then have "\<exists>p. thread_entry (pt s) = Some p"
      using assms(1) by (auto simp: thread_entry_def poll_inv_def sized_def)
    then show ?thesis
      using Starting W by (meson poll_thread_step.start)
  next
    case Started
    then show ?thesis
      by (meson poll_thread_step.started)
  next
    case Polling
    moreover have "card (waiters s) \<noteq> 0"
      using assms by (auto simp: poll_inv_def)
    ultimately obtain cmd cmds where "pipe (pt s) = cmd # cmds"
      using assms(1) by (cases "pipe (pt s)") (auto simp: poll_inv_def owed_def)
    moreover obtain q where
      "mm_camera_poll_proc_pipe cmd (arm_fds ((pt s)\<lparr>pipe := cmds\<rparr>)) = Some (is_sync cmd, q)"
      using proc_pipe_ok [of "arm_fds ((pt s)\<lparr>pipe := cmds\<rparr>)" cmd] assms(1)
      by (auto simp: poll_inv_def)
    ultimately show ?thesis
      using poll_thread_step.take [OF Polling] by blast
  next
    case Signalling
    then show ?thesis
      using W by (meson poll_thread_step.signal)
  qed (use assms(2) in \<open>simp add: keeps_running_def\<close>)
qed

lemma thread_steps_turns:
  "(poll_thread_step ^^ n) s t \<Longrightarrow> poll_inv s \<and> poll_threads_apart s \<Longrightarrow> keeps_running s \<Longrightarrow>
    n + turns t \<le> turns s \<and> poll_inv t \<and> keeps_running t"
proof (induction n arbitrary: s)
  case (Suc n)
  obtain u where u: "poll_thread_step s u" "(poll_thread_step ^^ n) u t"
    using Suc.prems(1) relpowp_Suc_D2 by metis
  then show ?case
    using Suc.IH [OF u(2)] poll_inv_thread [OF u(1)] thread_step_turns [OF u(1)] Suc.prems by force
qed simp


text \<open>
  A reachable state in which callers wait, for the witnesses: the launching thread, and a caller
  that removes an entry it has added before, behind an update nobody waits for.
\<close>

lemma del_after_add:
  assumes "poll_type p = MM_CAMERA_POLL_TYPE_DATA" and "length (poll_entries p) = MAX_STREAM_NUM_IN_BUNDLE"
    and "unat (mm_camera_util_get_index_by_handler h) < MAX_STREAM_NUM_IN_BUNDLE"
  obtains q r where "add_entry h fd data p = (0, True, q)"
    "del_entry h (poll_sig_write True cmd q) = (0, True, r)"
  using assms by (auto simp: add_entry_def del_entry_def poll_slot_def poll_sig_write_def Let_def)

lemma busy_poll_reachable:
  "\<exists>s. poll_reachable MM_CAMERA_POLL_TYPE_DATA 5 s \<and> waiters s = {0, 1} \<and> keeps_running s"
proof -
  define s0 where "s0 = poll_started MM_CAMERA_POLL_TYPE_DATA 5"
  have s0: "writers s0 = {}" "waiters s0 = {0}" "pc s0 = Starting" "pipe (pt s0) = []"
    "poll_type (pt s0) = MM_CAMERA_POLL_TYPE_DATA"
    "length (poll_entries (pt s0)) = MAX_STREAM_NUM_IN_BUNDLE"
    by (simp_all add: s0_def poll_started_def poll_launch_def zeroed_poll_thread_def word_sless_alt)
  obtain p1 p3 where p1: "add_entry (handle_of 1 2) 9 7 (pt s0) = (0, True, p1)"
    and p3: "del_entry (handle_of 1 2) (poll_sig_write True (update_cmd mm_camera_async_call) p1)
      = (0, True, p3)"
    by (rule del_after_add [OF s0(5,6), of "handle_of 1 2" 9 7 "update_cmd mm_camera_async_call"])
      (simp_all add: MAX_STREAM_NUM_IN_BUNDLE_def)
  define s1 where "s1 = s0\<lparr>pt := p1, writers := {1}\<rparr>"
  define s2 where "s2 = s1\<lparr>pt := poll_sig_write True (update_cmd mm_camera_async_call) (pt s1),
      writers := {}\<rparr>"
  define s3 where "s3 = s2\<lparr>pt := p3, writers := {1}\<rparr>"
  define s4 where "s4 = s3\<lparr>pt := poll_sig_write True (update_cmd mm_camera_sync_call) (pt s3),
      writers := {}, waiters := {0, 1}\<rparr>"
  have a: "caller_step s0 s1"
    using caller_step.add [OF _ p1, of 1] by (simp add: s0 s1_def)
  have b: "caller_step s1 s2"
    using caller_step.sig_async [of 1 s1] by (simp add: s1_def s2_def)
  have c: "caller_step s2 s3"
    using caller_step.del [of 1 s2 "handle_of 1 2" p3] p3 by (simp add: s0 s1_def s2_def s3_def)
  have d: "caller_step s3 s4"
    using caller_step.sig_sync [of 1 s3]
    by (simp add: s0 s1_def s2_def s3_def s4_def insert_commute)
  have "poll_sys_step s0 s1" "poll_sys_step s1 s2" "poll_sys_step s2 s3" "poll_sys_step s3 s4"
    using a b c d by (simp_all add: poll_sys_step_def)
  then have "poll_sys_step\<^sup>*\<^sup>* s0 s4"
    by (iprover intro: converse_rtranclp_into_rtranclp rtranclp.rtrancl_refl)
  then have "poll_reachable MM_CAMERA_POLL_TYPE_DATA 5 s4"
    by (simp add: poll_reachable_def s0_def word_sle_eq)
  moreover have "set (pipe (pt s4)) = {update_cmd mm_camera_async_call, update_cmd mm_camera_sync_call}"
    using del_entry_same(2) [OF p3] add_entry_same(2) [OF p1] s0(4) by (auto simp: s4_def s3_def)
  ultimately show ?thesis
    by (intro exI [of _ s4])
      (auto simp: keeps_running_def update_cmd_def s4_def s3_def s2_def s1_def s0)
qed



section \<open>Releasing the thread\<close>

text \<open>
  \<open>mm_camera_poll_thread_release\<close> leaves a thread alone whose state is \<open>STOPPED\<close>; otherwise it
  tells the thread to exit, joins it, closes the pipe and clears the object. The result
  says whether the thread was joined.
\<close>

definition mm_camera_poll_thread_release :: "poll_thread \<Rightarrow> bool \<times> poll_thread" where
  "mm_camera_poll_thread_release p =
    (if poll_state p = MM_CAMERA_POLL_TASK_STATE_STOPPED then (False, p)
     else (True, zeroed_poll_thread\<lparr>pfds_read := -1\<rparr>))"

text \<open>
  The launching thread returns when the new thread has signalled, before that has set its
  state to \<open>POLL\<close>: a release in between takes it for stopped and leaves it running.
\<close>

theorem release_misses_thread:
  "\<exists>s. poll_reachable MM_CAMERA_POLL_TYPE_DATA 5 s \<and> waiters s = {} \<and> pc s = Started
     \<and> mm_camera_poll_thread_release (pt s) = (False, pt s)
     \<and> (\<exists>t. poll_thread_step s t \<and> pc t = Polling \<and> poll_state (pt t) = MM_CAMERA_POLL_TASK_STATE_POLL)"
proof -
  define s0 where "s0 = poll_started MM_CAMERA_POLL_TYPE_DATA 5"
  obtain p where p: "thread_entry (pt s0) = Some p" "poll_state p = MM_CAMERA_POLL_TASK_STATE_STOPPED"
    by (auto simp: s0_def thread_entry_def poll_started_def poll_launch_def zeroed_poll_thread_def
        word_sless_alt)
  define s1 where "s1 = s0\<lparr>pt := mm_camera_poll_sig_done p, pc := Started, waiters := {}\<rparr>"
  have "poll_thread_step s0 s1"
    unfolding s1_def
    using p by (intro poll_thread_step.start) (auto simp: s0_def poll_started_def wakes_def)
  then have "poll_reachable MM_CAMERA_POLL_TYPE_DATA 5 s1"
    by (auto simp: poll_reachable_def poll_sys_step_def s0_def word_sle_eq)
  then show ?thesis
    using p poll_thread_step.started [of s1]
    by (intro exI [of _ s1]) (auto simp: s1_def mm_camera_poll_thread_release_def mm_camera_poll_sig_done_def)
qed

end
