(* ===== verification/MmStream.thy ===== *)
theory MmStream
  imports PollThread StreamOffsets
begin

text \<open>
  The stream object of \<open>mm_camera_stream.c\<close>: its data, the calls it makes on the kernel, the
  camera daemon and the upper layer, and its operations on buffers. The build has
  \<open>DAEMON_PRESENT\<close>, as \<open>Android.mk\<close> sets it unless the product asks otherwise.
\<close>

section \<open>Data\<close>

type_synonym int8 = "8 word"
type_synonym int64 = "64 word"

datatype mm_stream_state =
    MM_STREAM_STATE_NOTUSED | MM_STREAM_STATE_INITED | MM_STREAM_STATE_ACQUIRED
  | MM_STREAM_STATE_CFG | MM_STREAM_STATE_BUFFED | MM_STREAM_STATE_REG | MM_STREAM_STATE_ACTIVE

datatype cam_stream_buf_type = CAM_STREAM_BUF_TYPE_MPLANE | CAM_STREAM_BUF_TYPE_USERPTR

datatype cam_streaming_mode =
    CAM_STREAMING_MODE_CONTINUOUS | CAM_STREAMING_MODE_BURST | CAM_STREAMING_MODE_BATCH

datatype cam_mapping_buf_type =
    CAM_MAPPING_BUF_TYPE_CAPABILITY | CAM_MAPPING_BUF_TYPE_PARM_BUF
  | CAM_MAPPING_BUF_TYPE_SYNC_RELATED_SENSORS_BUF | CAM_MAPPING_BUF_TYPE_STREAM_BUF
  | CAM_MAPPING_BUF_TYPE_STREAM_INFO | CAM_MAPPING_BUF_TYPE_OFFLINE_INPUT_BUF
  | CAM_MAPPING_BUF_TYPE_OFFLINE_META_BUF | CAM_MAPPING_BUF_TYPE_MISC_BUF
  | CAM_MAPPING_BUF_TYPE_STREAM_USER_BUF

text \<open>
  \<open>mm_camera_buf_def_t\<close>. The union of \<open>planes_buf\<close> and \<open>user_buf\<close> is the fields
  \<open>buf_num_planes\<close> for an \<open>MPLANE\<close> buffer and \<open>bufs_used\<close>, \<open>buf_in_use\<close>, \<open>batch_idx\<close>
  for a \<open>USERPTR\<close> one, a batch; \<open>cont_cnt\<close> and \<open>cont_idx\<close> are the structure in the memory
  of a batch, shared with the kernel.
\<close>

record mm_buf =
  buf_stream_id :: uint32
  buf_stream_type :: cam_stream_type
  buf_type :: cam_stream_buf_type
  buf_idx :: uint32
  is_uv_subsampled :: bool
  ts_sec :: int64
  ts_nsec :: int64
  buf_frame_idx :: uint32
  buf_flags :: uint32
  buf_num_planes :: uint8
  bufs_used :: uint8
  buf_in_use :: uint8
  batch_idx :: "int32 list"
  cont_cnt :: uint32
  cont_idx :: "int32 list"

record mm_stream_buf_status =
  buf_refcnt :: uint8
  initial_reg_flag :: uint8
  in_kernel :: bool
  map_status :: int8

record mm_stream_data_cb =
  cb :: bool
  cb_count :: int8
  cb_sync :: bool

text \<open>The part of \<open>cam_stream_info_t\<close> that \<open>StreamOffsets\<close> does not use.\<close>

record stream_info = cam_stream_info +
  num_bufs :: uint32
  streaming_mode :: cam_streaming_mode
  frame_buf_cnt :: uint8
  batch_size :: uint32
  frameInterval :: int64
  noFrameExpected :: bool

record mem_vtbl =
  has_set_config_ops :: bool
  has_invalidate_buf :: bool
  has_clean_invalidate_buf :: bool

record stream_config =
  cfg_stream_info :: stream_info
  cfg_padding_info :: cam_padding_info
  cfg_mem_vtbl :: mem_vtbl
  cfg_stream_cb_sync :: bool
  cfg_stream_cb :: bool

text \<open>
  \<open>mm_stream_t\<close>. A pointer to an array is \<open>None\<close> while it is \<open>NULL\<close>; the queue of the command
  thread holds the places in \<open>buf\<close> of the buffers to dispatch.
\<close>

record mm_stream_obj =
  my_handle :: uint32
  server_id :: uint32
  fd :: int32
  state :: mm_stream_state
  stream_info :: "stream_info option"
  padding_info :: "cam_padding_info option"
  frame_offset :: cam_frame_len_offset
  cmd_active :: bool
  cmd_queue :: "nat list"
  buf_cb :: "mm_stream_data_cb list"
  buf_num :: uint8
  bufs :: "mm_buf list option"
  buf_status :: "mm_stream_buf_status list"
  plane_buf_num :: uint8
  plane_buf :: "mm_buf list option"
  cur_buf_idx :: int32
  cur_bufs_staged :: uint8
  is_bundled :: bool
  is_linked :: bool
  vtbl :: mem_vtbl
  queued_buffer_count :: int8
  prev_frameID :: uint32
  prev_timestamp :: int64

definition CAM_MAX_NUM_BUFS_PER_STREAM :: nat where "CAM_MAX_NUM_BUFS_PER_STREAM = 64"
definition MM_CAMERA_STREAM_BUF_CB_MAX :: nat where "MM_CAMERA_STREAM_BUF_CB_MAX = 4"

definition zeroed_status :: mm_stream_buf_status where
  "zeroed_status = \<lparr>buf_refcnt = 0, initial_reg_flag = 0, in_kernel = False, map_status = 0\<rparr>"

text \<open>A stream object after \<open>memset\<close>.\<close>

definition zeroed_stream :: mm_stream_obj where
  "zeroed_stream =
    \<lparr>my_handle = 0, server_id = 0, fd = 0, state = MM_STREAM_STATE_NOTUSED, stream_info = None,
     padding_info = None, frame_offset = \<lparr>num_planes = 0, mp = [], frame_len = 0\<rparr>,
     cmd_active = False, cmd_queue = [],
     buf_cb = replicate MM_CAMERA_STREAM_BUF_CB_MAX \<lparr>cb = False, cb_count = 0, cb_sync = False\<rparr>,
     buf_num = 0, bufs = None, buf_status = replicate CAM_MAX_NUM_BUFS_PER_STREAM zeroed_status,
     plane_buf_num = 0, plane_buf = None, cur_buf_idx = 0, cur_bufs_staged = 0,
     is_bundled = False, is_linked = False,
     vtbl = \<lparr>has_set_config_ops = False, has_invalidate_buf = False, has_clean_invalidate_buf = False\<rparr>,
     queued_buffer_count = 0, prev_frameID = 0, prev_timestamp = 0\<rparr>"

section \<open>The calls a stream makes\<close>

text \<open>
  A request of the upper layer to map or unmap buffers, through the operations table it is
  given: it makes them while it is asked for buffers or for their return, and its other
  threads may make them while a stream waits to start.
\<close>

datatype map_request =
    Map cam_mapping_buf_type uint32
  | Map_bundle cam_mapping_buf_type nat
  | Unmap cam_mapping_buf_type uint32

datatype kcall =
    Get_dev_name
  | Open_dev
  | Close_fd
  | VIDIOC_S_PARM
  | VIDIOC_S_FMT uint32 uint32 "uint32 list"
  | VIDIOC_REQBUFS uint8
  | VIDIOC_QBUF uint32 uint32
  | VIDIOC_DQBUF uint8
  | VIDIOC_STREAMON
  | VIDIOC_STREAMOFF
  | IOCTL_RETURN_BUF uint32
  | S_ctrl_STREAM_INFO_SYNC
  | S_ctrl_STREAM_PARM
  | G_ctrl_STREAM_PARM
  | Sendmsg map_request
  | Invalidate_buf uint32
  | Clean_invalidate_buf uint32
  | Get_bufs cam_frame_len_offset
  | Put_bufs
  | Set_config_ops
  | Wait_mapping
  | Malloc
  | Pipe_write pipe_cmd
  | Stream_cb nat nat

text \<open>
  What a dequeued buffer carries (\<open>struct v4l2_buffer\<close>), and what the upper layer answers to a
  request for buffers.
\<close>

record v4l2_frame =
  vb_index :: uint32
  vb_sequence :: uint32
  vb_sec :: int64
  vb_usec :: int64
  vb_flags :: uint32
  vb_uv_subsampled :: bool
  vb_cont_cnt :: uint32
  vb_cont_idx :: "int32 list"

record bufs_answer =
  got_num :: uint8
  got_reg_flags :: "uint8 list"
  got_bufs :: "mm_buf list option"
  got_plane_buf :: "mm_buf list option"

text \<open>
  The environment: answers that depend on the calls made so far, newest first, each with the
  stream that made it. Nothing is assumed of them here.
\<close>

type_synonym history = "(uint32 \<times> kcall) list"

record stream_env =
  rc_of :: "history \<Rightarrow> int32"
  server_id_of :: "history \<Rightarrow> uint32"
  frame_of :: "history \<Rightarrow> v4l2_frame"
  bufs_of :: "history \<Rightarrow> bufs_answer"
  maps_of :: "history \<Rightarrow> map_request list"
  media :: venus_media

text \<open>
  The surroundings that the streams of a channel share: the poll thread, the calls, and the
  queues of the command threads of the channel and of a channel the stream is linked to,
  with handle and place of the buffers announced.
\<close>

record stream_ctx =
  poll :: poll_thread
  calls :: history
  ch_queue :: "(uint32 \<times> nat) list"
  linked_queue :: "(uint32 \<times> nat) list"

record stream_world =
  strm :: mm_stream_obj
  ctx :: stream_ctx

type_synonym 'a result = "('a \<times> stream_world) option"

abbreviation on_strm :: "(mm_stream_obj \<Rightarrow> mm_stream_obj) \<Rightarrow> stream_world \<Rightarrow> stream_world" where
  "on_strm f w \<equiv> w\<lparr>strm := f (strm w)\<rparr>"

definition kcall :: "stream_env \<Rightarrow> kcall \<Rightarrow> stream_world \<Rightarrow> int32 \<times> stream_world" where
  "kcall E c w =
    (let h = (my_handle (strm w), c) # calls (ctx w)
     in (rc_of E h, w\<lparr>ctx := (ctx w)\<lparr>calls := h\<rparr>\<rparr>))"

text \<open>The status of a buffer; an index outside the array is an error.\<close>

definition on_status ::
    "nat \<Rightarrow> (mm_stream_buf_status \<Rightarrow> mm_stream_buf_status) \<Rightarrow> stream_world \<Rightarrow> stream_world option" where
  "on_status i f w =
    (if i < length (buf_status (strm w))
     then Some (on_strm (\<lambda>s. s\<lparr>buf_status := (buf_status s)[i := f (buf_status s ! i)]\<rparr>) w)
     else None)"

definition status_of :: "nat \<Rightarrow> stream_world \<Rightarrow> mm_stream_buf_status option" where
  "status_of i w = (if i < length (buf_status (strm w)) then Some (buf_status (strm w) ! i) else None)"

text \<open>
  A buffer by its pointer: an element of \<open>buf\<close> or of \<open>plane_buf\<close>. Reading through a freed
  array, or outside it, is an error.
\<close>

datatype buf_ref = Buf nat | Plane nat

definition array_of :: "buf_ref \<Rightarrow> mm_stream_obj \<Rightarrow> mm_buf list option" where
  "array_of r s = (case r of Buf _ \<Rightarrow> bufs s | Plane _ \<Rightarrow> plane_buf s)"

definition place_of :: "buf_ref \<Rightarrow> nat" where
  "place_of r = (case r of Buf i \<Rightarrow> i | Plane i \<Rightarrow> i)"

definition read_buf :: "buf_ref \<Rightarrow> stream_world \<Rightarrow> mm_buf option" where
  "read_buf r w = do {
     bs \<leftarrow> array_of r (strm w);
     if place_of r < length bs then Some (bs ! place_of r) else None }"

definition write_buf :: "buf_ref \<Rightarrow> (mm_buf \<Rightarrow> mm_buf) \<Rightarrow> stream_world \<Rightarrow> stream_world option" where
  "write_buf r f w = do {
     bs \<leftarrow> array_of r (strm w);
     if place_of r < length bs
     then let bs' = bs[place_of r := f (bs ! place_of r)]
          in Some (on_strm (\<lambda>s. case r of Buf _ \<Rightarrow> s\<lparr>bufs := Some bs'\<rparr>
                                        | Plane _ \<Rightarrow> s\<lparr>plane_buf := Some bs'\<rparr>) w)
     else None }"

definition is_batch :: "mm_stream_obj \<Rightarrow> bool" where
  "is_batch s = (case stream_info s of None \<Rightarrow> False
                 | Some i \<Rightarrow> streaming_mode i = CAM_STREAMING_MODE_BATCH)"

section \<open>The poll thread, as a stream calls it\<close>

text \<open>
  After the change of the table comes the command. An asynchronous caller goes on; a
  synchronous one waits until the thread has served the pipe up to its command, which is all
  that is in it (\<open>poll_callers_return\<close>).
\<close>

fun serve_pipe :: "pipe_cmd list \<Rightarrow> poll_thread \<Rightarrow> poll_thread option" where
  "serve_pipe [] p = Some (p\<lparr>pipe := []\<rparr>)"
| "serve_pipe (cmd # cmds) p = do {
     (signal, p) \<leftarrow> mm_camera_poll_proc_pipe cmd p;
     serve_pipe cmds (if signal then mm_camera_poll_sig_done p else p) }"

definition mm_camera_poll_sig :: "stream_env \<Rightarrow> call_type option \<Rightarrow> pipe_cmd \<Rightarrow> stream_world \<Rightarrow> int32 result" where
  "mm_camera_poll_sig E async cmd w =
    (let (n, w) = kcall E (Pipe_write cmd) w;
         p = poll_sig_write (1 \<le>s n) cmd (poll (ctx w))
     in if 1 \<le>s n \<and> async \<noteq> Some mm_camera_async_call
        then do { p \<leftarrow> serve_pipe (pipe p) p; Some (0, w\<lparr>ctx := (ctx w)\<lparr>poll := p\<rparr>\<rparr>) }
        else Some (0, w\<lparr>ctx := (ctx w)\<lparr>poll := p\<rparr>\<rparr>))"

definition mm_camera_poll_thread_add_poll_fd :: "stream_env \<Rightarrow> call_type \<Rightarrow> stream_world \<Rightarrow> int32 result" where
  "mm_camera_poll_thread_add_poll_fd E ct w =
    (let h = my_handle (strm w); (rc, changed, p) = add_entry h (fd (strm w)) (unat h) (poll (ctx w));
         w = w\<lparr>ctx := (ctx w)\<lparr>poll := p\<rparr>\<rparr>
     in if changed then mm_camera_poll_sig E (Some ct) (update_cmd ct) w else Some (rc, w))"

definition mm_camera_poll_thread_del_poll_fd :: "stream_env \<Rightarrow> call_type \<Rightarrow> stream_world \<Rightarrow> int32 result" where
  "mm_camera_poll_thread_del_poll_fd E ct w =
    (let (rc, changed, p) = del_entry (my_handle (strm w)) (poll (ctx w));
         w = w\<lparr>ctx := (ctx w)\<lparr>poll := p\<rparr>\<rparr>
     in if changed then mm_camera_poll_sig E (Some ct) (update_cmd ct) w else Some (rc, w))"

definition mm_camera_poll_thread_commit_updates :: "stream_env \<Rightarrow> stream_world \<Rightarrow> int32 result" where
  "mm_camera_poll_thread_commit_updates E w = mm_camera_poll_sig E None MM_CAMERA_PIPE_CMD_COMMIT w"

end
