(* ===== verification/MmStreamBufs.thy ===== *)
theory MmStreamBufs
  imports MmStream
begin

text \<open>
  The life of a buffer in \<open>mm_camera_stream.c\<close>: queued into the kernel, dequeued when a frame
  has been written, announced to the users, given back by the last of them. The lines of
  code on batches (\<open>USERPTR\<close> buffers, which hold the indices of several plane buffers) are
  \<open>mm_stream_write_user_buf\<close> and \<open>mm_stream_read_user_buf\<close>.
\<close>

section \<open>Into the kernel\<close>

text \<open>\<open>mm_stream_qbuf\<close> on the buffer its second argument points to.\<close>

definition mm_stream_qbuf :: "stream_env \<Rightarrow> mm_buf \<Rightarrow> stream_world \<Rightarrow> int32 result" where
  "mm_stream_qbuf E b w =
    (let planes = (if buf_type b = CAM_STREAM_BUF_TYPE_USERPTR then 1 else ucast (buf_num_planes b));
         (rc, w) = (if has_invalidate_buf (vtbl (strm w)) then kcall E (Invalidate_buf (buf_idx b)) w
                    else (0, w))
     in if buf_type b = CAM_STREAM_BUF_TYPE_USERPTR \<and> stream_info (strm w) = None then None
        else if rc <s 0 then Some (rc, w)
        else do {
          let w = on_strm (\<lambda>s. s\<lparr>queued_buffer_count := queued_buffer_count s + 1\<rparr>) w;
          (_, w) \<leftarrow> (if queued_buffer_count (strm w) = 1
                     then mm_camera_poll_thread_add_poll_fd E mm_camera_async_call w
                     else Some (0, w));
          let (rc, w) = kcall E (VIDIOC_QBUF (buf_idx b) planes) w;
          if rc <s 0
          then do {
            let w = on_strm (\<lambda>s. s\<lparr>queued_buffer_count := queued_buffer_count s - 1\<rparr>) w;
            (_, w) \<leftarrow> (if queued_buffer_count (strm w) = 0
                       then mm_camera_poll_thread_del_poll_fd E mm_camera_async_call w
                       else Some (0, w));
            Some (rc, w) }
          else Some (rc, w) })"

section \<open>Out of the kernel\<close>

text \<open>
  The times and numbers of the frames of a batch, as \<open>mm_stream_read_user_buf\<close> writes them:
  \<open>plane_buf\<close> elements chosen by the container the kernel has filled.
\<close>

definition frame_secs :: "int64 \<Rightarrow> int64" where
  "frame_secs t = t sdiv 1000000000"

fun stamp_frames ::
    "nat \<Rightarrow> int32 list \<Rightarrow> uint32 \<Rightarrow> int64 \<Rightarrow> bool \<Rightarrow> buf_ref \<Rightarrow> nat \<Rightarrow> stream_world \<Rightarrow> stream_world option" where
  "stamp_frames i [] frameID interval uv r n w = Some w"
| "stamp_frames i (k # ks) frameID interval uv r n w =
    (if n \<le> i then Some w
     else do {
       w \<leftarrow> write_buf r (\<lambda>b. b\<lparr>batch_idx := (batch_idx b)[i := k]\<rparr>) w;
       let frame_ts = of_nat i * interval + prev_timestamp (strm w);
       w \<leftarrow> (if k <s 0 then None
             else write_buf (Plane (unat k)) (\<lambda>b. b\<lparr>buf_frame_idx := frameID + of_nat i,
                    ts_sec := frame_secs frame_ts,
                    ts_nsec := frame_ts - frame_secs frame_ts * 1000000000,
                    is_uv_subsampled := uv\<rparr>) w);
       stamp_frames (i + 1) ks frameID interval uv r n w })"

definition mm_stream_read_user_buf :: "stream_env \<Rightarrow> buf_ref \<Rightarrow> stream_world \<Rightarrow> int32 result" where
  "mm_stream_read_user_buf E r w = do {
     b \<leftarrow> read_buf r w;
     let frameID = (if buf_frame_idx b = 1 then buf_frame_idx b
                    else (buf_frame_idx b - 1) * cont_cnt b);
     let timeStamp = ts_sec b * 1000000000 + ts_nsec b;
     if timeStamp \<le>s prev_timestamp (strm w)
     then do { (_, w) \<leftarrow> mm_stream_qbuf E b w; Some (0, w) }
     else do {
       info \<leftarrow> stream_info (strm w);
       let fresh = (prev_timestamp (strm w) = 0 \<or> prev_frameID (strm w) \<noteq> buf_frame_idx b + 1);
       let ts_delta = (ucast (timeStamp - prev_timestamp (strm w)) :: int32);
       (interval, w) \<leftarrow>
         (if fresh
          then let interval = frameInterval info * 1000000
               in Some (interval, on_strm (\<lambda>s. s\<lparr>prev_timestamp :=
                                                  timeStamp - ucast (cont_cnt b) * interval\<rparr>) w)
          else if cont_cnt b = 0 then None
          else Some (ucast ((ucast ts_delta :: uint32) div cont_cnt b), w));
       w \<leftarrow> (if unat (cont_cnt b) \<le> length (cont_idx b) \<and> unat (cont_cnt b) \<le> length (batch_idx b)
             then stamp_frames 0 (cont_idx b) frameID interval (is_uv_subsampled b) r
                    (unat (cont_cnt b)) w
             else None);
       let prev = prev_timestamp (strm w);
       w \<leftarrow> write_buf r (\<lambda>b. b\<lparr>ts_sec := frame_secs prev,
               ts_nsec := prev - frame_secs prev * 1000000000,
               bufs_used := ucast (cont_cnt b), buf_in_use := 1\<rparr>) w;
       Some (0, on_strm (\<lambda>s. s\<lparr>prev_timestamp := timeStamp, prev_frameID := buf_frame_idx b\<rparr>) w) } }"

text \<open>
  \<open>mm_stream_read_msm_frame\<close>: the result is the code and the pointer it stores in \<open>buf_info\<close>,
  if any. The kernel writes the container of a batch before it hands it over.
\<close>

definition fill_buf :: "v4l2_frame \<Rightarrow> uint32 \<Rightarrow> mm_buf \<Rightarrow> mm_buf" where
  "fill_buf vb hdl b =
    b\<lparr>buf_stream_id := hdl, buf_idx := vb_index vb, buf_frame_idx := vb_sequence vb,
      ts_sec := vb_sec vb, ts_nsec := vb_usec vb * 1000, buf_flags := vb_flags vb,
      is_uv_subsampled := vb_uv_subsampled vb,
      cont_cnt := (if buf_type b = CAM_STREAM_BUF_TYPE_USERPTR then vb_cont_cnt vb else cont_cnt b),
      cont_idx := (if buf_type b = CAM_STREAM_BUF_TYPE_USERPTR then vb_cont_idx vb else cont_idx b)\<rparr>"

definition mm_stream_read_msm_frame ::
    "stream_env \<Rightarrow> uint8 \<Rightarrow> stream_world \<Rightarrow> (int32 \<times> nat option) result" where
  "mm_stream_read_msm_frame E planes w =
    (let (rc, w) = kcall E (VIDIOC_DQBUF planes) w; vb = frame_of E (calls (ctx w))
     in if rc <s 0 then Some ((rc, None), w)
        else do {
          let w = on_strm (\<lambda>s. s\<lparr>queued_buffer_count := queued_buffer_count s - 1\<rparr>) w;
          (_, w) \<leftarrow> (if queued_buffer_count (strm w) = 0
                     then mm_camera_poll_thread_del_poll_fd E mm_camera_async_call w
                     else Some (0, w));
          let idx = unat (vb_index vb);
          w \<leftarrow> write_buf (Buf idx) (fill_buf vb (my_handle (strm w))) w;
          b \<leftarrow> read_buf (Buf idx) w;
          (_, w) \<leftarrow> (if buf_type b = CAM_STREAM_BUF_TYPE_USERPTR
                     then mm_stream_read_user_buf E (Buf idx) w else Some (0, w));
          let (rc, w) = (if has_clean_invalidate_buf (vtbl (strm w))
                         then kcall E (Clean_invalidate_buf (vb_index vb)) w else (rc, w));
          Some ((rc, Some idx), w) })"

section \<open>Back from the users\<close>

text \<open>
  \<open>mm_stream_write_user_buf\<close>: a container given back whole, or a plane buffer staged into the
  container that is being filled. \<open>queue_batch\<close> is the part both share.
\<close>

definition queue_batch :: "stream_env \<Rightarrow> nat \<Rightarrow> mm_buf \<Rightarrow> (stream_world \<Rightarrow> stream_world) \<Rightarrow>
    stream_world \<Rightarrow> int32 result" where
  "queue_batch E i frame queued w = do {
     w \<leftarrow> on_status i (\<lambda>st. st\<lparr>buf_refcnt := buf_refcnt st - 1\<rparr>) w;
     st \<leftarrow> status_of i w;
     if buf_refcnt st = 0
     then do {
       b \<leftarrow> read_buf (Buf i) w;
       let n = unat (bufs_used b);
       w \<leftarrow> (if n \<le> length (batch_idx b)
             then write_buf (Buf i) (\<lambda>b. b\<lparr>cont_cnt := of_nat n,
                    cont_idx := take n (batch_idx b) @ drop n (cont_idx b)\<rparr>) w
             else None);
       (rc, w) \<leftarrow> mm_stream_qbuf E frame w;
       if rc <s 0 then Some (rc, w)
       else do {
         w \<leftarrow> write_buf (Buf i) (\<lambda>b. b\<lparr>batch_idx := replicate n (-1) @ drop n (batch_idx b),
                buf_in_use := 1\<rparr>) w;
         w \<leftarrow> on_status i (\<lambda>st. st\<lparr>in_kernel := True\<rparr>) w;
         Some (rc, queued w) } }
     else Some (0, w) }"

fun free_batch :: "stream_world \<Rightarrow> nat list \<Rightarrow> nat option option" where
  "free_batch w [] = Some None"
| "free_batch w (i # is) = do {
     st \<leftarrow> status_of i w;
     b \<leftarrow> read_buf (Buf i) w;
     if in_kernel st \<or> buf_in_use b \<noteq> 0 then free_batch w is else Some (Some i) }"

definition mm_stream_write_user_buf :: "stream_env \<Rightarrow> buf_ref \<Rightarrow> stream_world \<Rightarrow> int32 result" where
  "mm_stream_write_user_buf E r w = do {
     frame \<leftarrow> read_buf r w;
     if buf_type frame = CAM_STREAM_BUF_TYPE_USERPTR
     then queue_batch E (unat (buf_idx frame)) frame (\<lambda>w. w) w
     else do {
       let cur = cur_buf_idx (strm w);
       (index, w) \<leftarrow>
         (if cur <s 0 \<or> int (unat (buf_num (strm w))) \<le> sint cur
          then do {
            f \<leftarrow> free_batch w [0 ..< unat (buf_num (strm w))];
            Some (case f of None \<Rightarrow> (None, w)
                  | Some i \<Rightarrow> (Some i, on_strm (\<lambda>s. s\<lparr>cur_buf_idx := of_nat i\<rparr>) w)) }
          else Some (Some (unat cur), w));
       case index of
         None \<Rightarrow> Some (-1, w)
       | Some i \<Rightarrow> do {
           w \<leftarrow> write_buf (Buf i) (\<lambda>b. b\<lparr>batch_idx := (batch_idx b)[0 := ucast (buf_idx frame)]\<rparr>) w;
           let w = on_strm (\<lambda>s. s\<lparr>cur_bufs_staged := cur_bufs_staged s + 1\<rparr>) w;
           b \<leftarrow> read_buf (Buf i) w;
           if cur_bufs_staged (strm w) = bufs_used b
           then queue_batch E i b (on_strm (\<lambda>s. s\<lparr>cur_bufs_staged := 0, cur_buf_idx := -1\<rparr>)) w
           else Some (0, w) } } }"

definition mm_stream_buf_done :: "stream_env \<Rightarrow> buf_ref \<Rightarrow> stream_world \<Rightarrow> int32 result" where
  "mm_stream_buf_done E r w = do {
     frame \<leftarrow> read_buf r w;
     let i = unat (buf_idx frame);
     st \<leftarrow> status_of i w;
     if buf_refcnt st = 0 then Some (-1, w)
     else if stream_info (strm w) = None then None
     else if is_batch (strm w) then mm_stream_write_user_buf E r w
     else do {
       w \<leftarrow> on_status i (\<lambda>st. st\<lparr>buf_refcnt := buf_refcnt st - 1\<rparr>) w;
       st \<leftarrow> status_of i w;
       if buf_refcnt st = 0
       then do {
         (rc, w) \<leftarrow> mm_stream_qbuf E frame w;
         if rc <s 0 then Some (rc, w)
         else do { w \<leftarrow> on_status i (\<lambda>st. st\<lparr>in_kernel := True\<rparr>) w; Some (rc, w) } }
       else Some (0, w) } }"

definition mm_stream_cancel_buf :: "stream_env \<Rightarrow> uint32 \<Rightarrow> stream_world \<Rightarrow> int32 result" where
  "mm_stream_cancel_buf E i w = do {
     st \<leftarrow> status_of (unat i) w;
     if buf_refcnt st \<noteq> 0 then Some (-1, w)
     else if stream_info (strm w) = None then None
     else if is_batch (strm w) then Some (0, w)
     else Some (kcall E (IOCTL_RETURN_BUF i) w) }"

definition mm_stream_get_queued_buf_count :: "stream_world \<Rightarrow> int32" where
  "mm_stream_get_queued_buf_count w = scast (queued_buffer_count (strm w))"

text \<open>Store a callback at the first free place.\<close>

fun put_cb :: "mm_stream_data_cb \<Rightarrow> mm_stream_data_cb list \<Rightarrow> mm_stream_data_cb list option" where
  "put_cb v [] = None"
| "put_cb v (c # cs) = (if cb c then map_option ((#) c) (put_cb v cs) else Some (v # cs))"

definition mm_stream_reg_buf_cb :: "mm_stream_data_cb \<Rightarrow> stream_world \<Rightarrow> int32 \<times> stream_world" where
  "mm_stream_reg_buf_cb v w =
    (case put_cb v (buf_cb (strm w)) of
       None \<Rightarrow> (-1, w)
     | Some cs \<Rightarrow> (0, on_strm (\<lambda>s. s\<lparr>buf_cb := cs\<rparr>) w))"

section \<open>Announcing a frame\<close>

text \<open>
  \<open>mm_stream_notify_channel\<close> puts the buffer into the queue of the command thread of a channel,
  if \<open>malloc\<close> has memory for the node.
\<close>

definition ENOMEM :: int32 where "ENOMEM = 12"

definition mm_stream_notify_channel ::
    "stream_env \<Rightarrow> bool \<Rightarrow> nat \<Rightarrow> stream_world \<Rightarrow> int32 \<times> stream_world" where
  "mm_stream_notify_channel E linked i w =
    (let (node, w) = kcall E Malloc w; m = (my_handle (strm w), i)
     in if node \<noteq> 0
        then (0, w\<lparr>ctx := (if linked then (ctx w)\<lparr>linked_queue := linked_queue (ctx w) @ [m]\<rparr>
                           else (ctx w)\<lparr>ch_queue := ch_queue (ctx w) @ [m]\<rparr>)\<rparr>)
        else (- ENOMEM, w))"

definition mm_stream_handle_rcvd_buf :: "stream_env \<Rightarrow> nat \<Rightarrow> bool \<Rightarrow> stream_world \<Rightarrow> unit result" where
  "mm_stream_handle_rcvd_buf E i has_cb w = do {
     let w = (if is_bundled (strm w) then snd (mm_stream_notify_channel E False i w) else w);
     b \<leftarrow> read_buf (Buf i) w;
     w \<leftarrow> (if is_linked (strm w)
           then do {
             w \<leftarrow> on_status (unat (buf_idx b)) (\<lambda>st. st\<lparr>buf_refcnt := buf_refcnt st + 1\<rparr>) w;
             Some (snd (mm_stream_notify_channel E True i w)) }
           else Some w);
     let w = (if has_cb \<and> cmd_active (strm w)
              then let (node, w) = kcall E Malloc w
                   in if node \<noteq> 0 then on_strm (\<lambda>s. s\<lparr>cmd_queue := cmd_queue s @ [i]\<rparr>) w else w
              else w);
     Some ((), w) }"

text \<open>
  A call of the callback in one place of \<open>buf_cb\<close> on the poll thread: its count goes down if it is positive, and
  the place is freed when the count reaches zero.
\<close>

definition call_cb :: "stream_env \<Rightarrow> nat \<Rightarrow> nat \<Rightarrow> stream_world \<Rightarrow> stream_world" where
  "call_cb E k i w = snd (kcall E (Stream_cb k i) w)"

definition count_cb :: "nat \<Rightarrow> stream_world \<Rightarrow> stream_world" where
  "count_cb k w =
    on_strm (\<lambda>s. s\<lparr>buf_cb := (buf_cb s)[k :=
      (let c = buf_cb s ! k
       in if 0 <s cb_count c
          then let c = c\<lparr>cb_count := cb_count c - 1\<rparr> in if cb_count c = 0 then c\<lparr>cb := False\<rparr> else c
          else c)]\<rparr>) w"

definition mm_stream_dispatch_sync_data :: "stream_env \<Rightarrow> nat \<Rightarrow> nat \<Rightarrow> stream_world \<Rightarrow> stream_world" where
  "mm_stream_dispatch_sync_data E k i w =
    (if cb_sync (buf_cb (strm w) ! k) \<and> cb_count (buf_cb (strm w) ! k) \<noteq> 0
     then count_cb k (call_cb E k i w) else w)"

fun notify_cbs :: "stream_env \<Rightarrow> nat list \<Rightarrow> nat \<Rightarrow> bool \<times> stream_world \<Rightarrow> bool \<times> stream_world" where
  "notify_cbs E [] i (has_cb, w) = (has_cb, w)"
| "notify_cbs E (k # ks) i (has_cb, w) =
    (if cb (buf_cb (strm w) ! k)
     then if cb_sync (buf_cb (strm w) ! k)
          then notify_cbs E ks i (has_cb, mm_stream_dispatch_sync_data E k i w)
          else notify_cbs E ks i (True, w)
     else notify_cbs E ks i (has_cb, w))"

definition mm_stream_data_notify :: "stream_env \<Rightarrow> stream_world \<Rightarrow> unit result" where
  "mm_stream_data_notify E w =
    (if state (strm w) \<noteq> MM_STREAM_STATE_ACTIVE then Some ((), w)
     else do {
       info \<leftarrow> stream_info (strm w);
       let planes = (if streaming_mode info = CAM_STREAMING_MODE_BATCH then 1
                     else ucast (num_planes (frame_offset (strm w))));
       ((rc, r), w) \<leftarrow> mm_stream_read_msm_frame E planes w;
       if rc \<noteq> 0 then Some ((), w)
       else do {
         idx \<leftarrow> r;
         b \<leftarrow> read_buf (Buf idx) w;
         let i = unat (buf_idx b);
         let (has_cb, w) = notify_cbs E [0 ..< length (buf_cb (strm w))] idx (False, w);
         w \<leftarrow> on_status i (\<lambda>st. st\<lparr>in_kernel := False,
                buf_refcnt := buf_refcnt st + (if is_bundled (strm w) then 1 else 0)
                                + (if has_cb then 1 else 0)\<rparr>) w;
         mm_stream_handle_rcvd_buf E idx has_cb w } })"

text \<open>
  A callback of the command thread. It may give the buffer back in its own context, which is why
  \<open>mm_camera_qbuf\<close> takes no lock; the answer to the call says whether it does.
\<close>

definition app_cb :: "stream_env \<Rightarrow> nat \<Rightarrow> nat \<Rightarrow> stream_world \<Rightarrow> stream_world option" where
  "app_cb E k i w =
    (let (returned, w) = kcall E (Stream_cb k i) w
     in if returned \<noteq> 0 \<and> state (strm w) = MM_STREAM_STATE_ACTIVE
        then do { (_, w) \<leftarrow> mm_stream_buf_done E (Buf i) w; Some w }
        else Some w)"

text \<open>
  \<open>mm_stream_dispatch_app_data\<close> on a buffer from the queue of the command thread.
\<close>

fun dispatch_cbs :: "stream_env \<Rightarrow> nat list \<Rightarrow> nat \<Rightarrow> stream_world \<Rightarrow> stream_world option" where
  "dispatch_cbs E [] i w = Some w"
| "dispatch_cbs E (k # ks) i w =
    (if cb (buf_cb (strm w) ! k) \<and> \<not> cb_sync (buf_cb (strm w) ! k)
     then do {
       w \<leftarrow> (if cb_count (buf_cb (strm w) ! k) \<noteq> 0
             then do {
               b \<leftarrow> read_buf (Buf i) w;
               w \<leftarrow> on_status (unat (buf_idx b)) (\<lambda>st. st\<lparr>buf_refcnt := buf_refcnt st + 1\<rparr>) w;
               app_cb E k i w }
             else Some w);
       dispatch_cbs E ks i (count_cb k w) }
     else dispatch_cbs E ks i w)"

definition mm_stream_dispatch_app_data :: "stream_env \<Rightarrow> nat \<Rightarrow> stream_world \<Rightarrow> int32 result" where
  "mm_stream_dispatch_app_data E i w = do {
     w \<leftarrow> dispatch_cbs E [0 ..< length (buf_cb (strm w))] i w;
     mm_stream_buf_done E (Buf i) w }"

end
