(* ===== verification/MmStreamFsm.thy ===== *)
theory MmStreamFsm
  imports MmStreamBufs
begin

text \<open>
  The rest of the stream object: mapping of buffers at the daemon, allocation and
  registration, configuration, start and stop, and the state machine
  \<open>mm_stream_fsm_fn\<close> with its seven states.
\<close>

section \<open>Mapping\<close>

text \<open>
  A mapping of a stream buffer is recorded in \<open>map_status\<close>: 1, or -1 when the message could
  not be sent. \<open>mapped_status\<close> says which mappings those are.
\<close>

definition mapped_status :: "cam_mapping_buf_type \<Rightarrow> mm_stream_obj \<Rightarrow> bool" where
  "mapped_status ty s \<longleftrightarrow> ty = CAM_MAPPING_BUF_TYPE_STREAM_BUF
     \<or> ty = CAM_MAPPING_BUF_TYPE_STREAM_USER_BUF \<and> stream_info s \<noteq> None \<and> is_batch s"

definition mm_stream_map_buf :: "stream_env \<Rightarrow> cam_mapping_buf_type \<Rightarrow> uint32 \<Rightarrow> stream_world \<Rightarrow> int32 result" where
  "mm_stream_map_buf E ty i w =
    (let (rc, w) = kcall E (Sendmsg (Map ty i)) w
     in if mapped_status ty (strm w)
        then do {
          w \<leftarrow> on_status (unat i) (\<lambda>st. st\<lparr>map_status := (if rc <s 0 then -1 else 1)\<rparr>) w;
          Some (rc, w) }
        else Some (rc, w))"

fun map_statuses :: "nat list \<Rightarrow> int8 \<Rightarrow> stream_world \<Rightarrow> stream_world option" where
  "map_statuses [] v w = Some w"
| "map_statuses (i # is) v w = do {
     w \<leftarrow> on_status i (\<lambda>st. st\<lparr>map_status := v\<rparr>) w;
     map_statuses is v w }"

definition mm_stream_map_bufs :: "stream_env \<Rightarrow> cam_mapping_buf_type \<Rightarrow> nat \<Rightarrow> stream_world \<Rightarrow> int32 result" where
  "mm_stream_map_bufs E ty n w =
    (if n < 1 then Some (0, w)
     else if CAM_MAX_NUM_BUFS_PER_STREAM < n then None
     else let (rc, w) = kcall E (Sendmsg (Map_bundle ty n)) w
          in if mapped_status ty (strm w)
             then do {
               w \<leftarrow> map_statuses [0 ..< n] (if rc <s 0 then -1 else 1) w;
               Some (rc, w) }
             else Some (rc, w))"

definition mm_stream_unmap_buf :: "stream_env \<Rightarrow> cam_mapping_buf_type \<Rightarrow> uint32 \<Rightarrow> stream_world \<Rightarrow> int32 result" where
  "mm_stream_unmap_buf E ty i w =
    (let (rc, w) = kcall E (Sendmsg (Unmap ty i)) w
     in do {
          w \<leftarrow> on_status (unat i) (\<lambda>st. st\<lparr>map_status := 0\<rparr>) w;
          Some (rc, w) })"

fun map_op :: "stream_env \<Rightarrow> map_request \<Rightarrow> stream_world \<Rightarrow> int32 result" where
  "map_op E (Map ty i) w = mm_stream_map_buf E ty i w"
| "map_op E (Map_bundle ty n) w = mm_stream_map_bufs E ty n w"
| "map_op E (Unmap ty i) w = mm_stream_unmap_buf E ty i w"

fun map_ops :: "stream_env \<Rightarrow> map_request list \<Rightarrow> stream_world \<Rightarrow> stream_world option" where
  "map_ops E [] w = Some w"
| "map_ops E (m # ms) w = do { (_, w) \<leftarrow> map_op E m w; map_ops E ms w }"

text \<open>A call of the upper layer, which makes its map requests before it answers.\<close>

definition upcall :: "stream_env \<Rightarrow> kcall \<Rightarrow> stream_world \<Rightarrow> int32 result" where
  "upcall E c w =
    (let (rc, w) = kcall E c w
     in do { w \<leftarrow> map_ops E (maps_of E (calls (ctx w))) w; Some (rc, w) })"

text \<open>Whether the waiting starter is signalled after a mapping.\<close>

fun mm_stream_need_wait_for_mapping :: "mm_stream_buf_status list \<Rightarrow> bool \<Rightarrow> bool" where
  "mm_stream_need_wait_for_mapping [] ret = ret"
| "mm_stream_need_wait_for_mapping (st # sts) ret =
    (if map_status st = 0 \<and> in_kernel st then mm_stream_need_wait_for_mapping sts True
     else if map_status st <s 0 then False
     else mm_stream_need_wait_for_mapping sts ret)"

section \<open>Allocation and registration\<close>

definition mm_stream_deinit_bufs :: "stream_env \<Rightarrow> stream_world \<Rightarrow> int32 result" where
  "mm_stream_deinit_bufs E w =
    (if bufs (strm w) = None then Some (0, w)
     else do {
       (rc, w) \<leftarrow> upcall E Put_bufs w;
       Some (rc, on_strm (\<lambda>s. s\<lparr>plane_buf := None, bufs := None\<rparr>) w) })"

definition init_buf :: "uint32 \<Rightarrow> stream_info \<Rightarrow> uint8 \<Rightarrow> mm_buf \<Rightarrow> mm_buf" where
  "init_buf h info flag b =
    (let b = b\<lparr>buf_stream_id := h, buf_stream_type := stream_type info\<rparr>
     in if buf_type b = CAM_STREAM_BUF_TYPE_USERPTR
        then b\<lparr>bufs_used := frame_buf_cnt info, buf_in_use := flag\<rparr> else b)"

fun init_statuses :: "nat list \<Rightarrow> uint8 list \<Rightarrow> stream_info \<Rightarrow> stream_world \<Rightarrow> stream_world option" where
  "init_statuses [] flags info w = Some w"
| "init_statuses (i # is) flags info w =
    (if length flags \<le> i then None
     else do {
       w \<leftarrow> on_status i (\<lambda>st. st\<lparr>initial_reg_flag := flags ! i\<rparr>) w;
       w \<leftarrow> write_buf (Buf i) (init_buf (my_handle (strm w)) info (flags ! i)) w;
       init_statuses is flags info w })"

fun init_planes :: "nat list \<Rightarrow> stream_info \<Rightarrow> stream_world \<Rightarrow> stream_world option" where
  "init_planes [] info w = Some w"
| "init_planes (i # is) info w = do {
     w \<leftarrow> write_buf (Plane i) (\<lambda>b. b\<lparr>buf_stream_id := my_handle (strm w),
                                      buf_stream_type := stream_type info\<rparr>) w;
     init_planes is info w }"

definition init_batch :: "mm_buf list option \<Rightarrow> stream_info \<Rightarrow> stream_world \<Rightarrow> stream_world option" where
  "init_batch planes info w = do {
     _ \<leftarrow> read_buf (Buf 0) w;
     let w = on_strm (\<lambda>s. s\<lparr>plane_buf := planes\<rparr>) w;
     w \<leftarrow> (if planes = None then Some w
           else let w = on_strm (\<lambda>s. s\<lparr>plane_buf_num := buf_num s * frame_buf_cnt info\<rparr>) w
                in init_planes [0 ..< unat (plane_buf_num (strm w))] info w);
     Some (on_strm (\<lambda>s. s\<lparr>cur_bufs_staged := 0, cur_buf_idx := -1\<rparr>) w) }"

definition mm_stream_init_bufs :: "stream_env \<Rightarrow> stream_world \<Rightarrow> int32 result" where
  "mm_stream_init_bufs E w = do {
     (_, w) \<leftarrow> (if bufs (strm w) \<noteq> None then mm_stream_deinit_bufs E w else Some (0, w));
     let ask = Get_bufs (frame_offset (strm w));
     let answer = bufs_of E ((my_handle (strm w), ask) # calls (ctx w));
     (rc, w) \<leftarrow> upcall E ask w;
     let w = on_strm (\<lambda>s. s\<lparr>buf_num := got_num answer, bufs := got_bufs answer\<rparr>) w;
     if rc \<noteq> 0 then Some (rc, w)
     else do {
       info \<leftarrow> stream_info (strm w);
       w \<leftarrow> init_statuses [0 ..< unat (buf_num (strm w))] (got_reg_flags answer) info w;
       w \<leftarrow> (if is_batch (strm w) then init_batch (got_plane_buf answer) info w else Some w);
       Some (rc, on_strm (\<lambda>s. s\<lparr>stream_info := Some (info\<lparr>num_bufs := ucast (buf_num s)\<rparr>)\<rparr>) w) } }"

definition mm_stream_request_buf :: "stream_env \<Rightarrow> stream_world \<Rightarrow> int32 \<times> stream_world" where
  "mm_stream_request_buf E w =
    (if CAM_MAX_NUM_BUFS_PER_STREAM < unat (buf_num (strm w)) then (-1, w)
     else kcall E (VIDIOC_REQBUFS (buf_num (strm w))) w)"

text \<open>Queue the buffers that are to be with the kernel from the start; the others are held.\<close>

fun reg_bufs :: "stream_env \<Rightarrow> nat list \<Rightarrow> stream_world \<Rightarrow> int32 result" where
  "reg_bufs E [] w = Some (0, w)"
| "reg_bufs E (i # is) w = do {
     st \<leftarrow> status_of i w;
     if initial_reg_flag st \<noteq> 0
     then do {
       b \<leftarrow> read_buf (Buf i) w;
       (rc, w) \<leftarrow> mm_stream_qbuf E b w;
       if rc \<noteq> 0 then Some (rc, w)
       else do {
         w \<leftarrow> on_status i (\<lambda>st. st\<lparr>buf_refcnt := 0, in_kernel := True\<rparr>) w;
         reg_bufs E is w } }
     else do {
       w \<leftarrow> on_status i (\<lambda>st. st\<lparr>buf_refcnt := 1, in_kernel := False\<rparr>) w;
       reg_bufs E is w } }"

definition mm_stream_reg_buf :: "stream_env \<Rightarrow> stream_world \<Rightarrow> int32 result" where
  "mm_stream_reg_buf E w =
    (let (rc, w) = mm_stream_request_buf E w
     in if rc \<noteq> 0 then Some (rc, w)
        else let w = on_strm (\<lambda>s. s\<lparr>queued_buffer_count := 0\<rparr>) w
             in reg_bufs E [0 ..< unat (buf_num (strm w))] w)"

fun unreg_statuses :: "nat list \<Rightarrow> stream_world \<Rightarrow> stream_world option" where
  "unreg_statuses [] w = Some w"
| "unreg_statuses (i # is) w = do {
     w \<leftarrow> on_status i (\<lambda>st. st\<lparr>buf_refcnt := 0, in_kernel := False\<rparr>) w;
     unreg_statuses is w }"

definition mm_stream_unreg_buf :: "stream_env \<Rightarrow> stream_world \<Rightarrow> int32 result" where
  "mm_stream_unreg_buf E w =
    (let (rc, w) = kcall E (VIDIOC_REQBUFS 0) w
     in do {
          w \<leftarrow> unreg_statuses [0 ..< unat (buf_num (strm w))] w;
          Some (rc, w) })"

section \<open>Configuration\<close>

definition mm_stream_sync_info :: "stream_env \<Rightarrow> stream_world \<Rightarrow> int32 result" where
  "mm_stream_sync_info E w = do {
     info \<leftarrow> stream_info (strm w);
     pad \<leftarrow> padding_info (strm w);
     let (rc, planes) = mm_stream_calc_offset (media E) pad (cam_stream_info.truncate info);
     let w = on_strm (\<lambda>s. s\<lparr>stream_info := Some (info\<lparr>buf_planes := planes\<rparr>), frame_offset := planes\<rparr>) w;
     Some (if rc = 0 then kcall E S_ctrl_STREAM_INFO_SYNC w else (rc, w)) }"

definition mm_stream_set_fmt :: "stream_env \<Rightarrow> stream_world \<Rightarrow> int32 result" where
  "mm_stream_set_fmt E w = do {
     info \<leftarrow> stream_info (strm w);
     let w_h = dim info;
     if dim_width w_h = 0 \<or> dim_height w_h = 0 then Some (-1, w)
     else let n = unat (ucast (num_planes (frame_offset (strm w))) :: uint8);
              sizes = (if streaming_mode info \<noteq> CAM_STREAMING_MODE_BATCH
                       then map len (take n (mp (frame_offset (strm w))))
                       else [batch_size info])
          in Some (kcall E (VIDIOC_S_FMT (dim_width w_h) (dim_height w_h) sizes) w) }"

definition config_cbs :: "stream_config \<Rightarrow> mm_stream_data_cb list \<Rightarrow> mm_stream_data_cb list" where
  "config_cbs c cbs =
    (let (k, cbs) = (if cfg_stream_cb_sync c
                     then (1, cbs[0 := \<lparr>cb = True, cb_count = -1, cb_sync = True\<rparr>]) else (0, cbs))
     in cbs[k := \<lparr>cb = cfg_stream_cb c, cb_count = -1, cb_sync = False\<rparr>])"

definition mm_stream_config :: "stream_env \<Rightarrow> stream_config \<Rightarrow> stream_world \<Rightarrow> int32 result" where
  "mm_stream_config E c w = do {
     let w = on_strm (\<lambda>s. s\<lparr>stream_info := Some (cfg_stream_info c),
               buf_num := ucast (num_bufs (cfg_stream_info c)), vtbl := cfg_mem_vtbl c,
               padding_info := Some (cfg_padding_info c),
               buf_cb := config_cbs c (buf_cb s)\<rparr>) w;
     (rc, w) \<leftarrow> mm_stream_sync_info E w;
     (rc, w) \<leftarrow> (if rc = 0 then mm_stream_set_fmt E w else Some (rc, w));
     (_, w) \<leftarrow> (if has_set_config_ops (vtbl (strm w)) then upcall E Set_config_ops w else Some (0, w));
     Some (rc, w) }"

text \<open>The parameters are a pointer; its contents go to the daemon through shared memory.\<close>

definition mm_stream_set_parm :: "stream_env \<Rightarrow> bool \<Rightarrow> stream_world \<Rightarrow> int32 \<times> stream_world" where
  "mm_stream_set_parm E in_value w = (if in_value then kcall E S_ctrl_STREAM_PARM w else (-1, w))"

definition mm_stream_get_parm :: "stream_env \<Rightarrow> bool \<Rightarrow> stream_world \<Rightarrow> int32 \<times> stream_world" where
  "mm_stream_get_parm E in_value w = (if in_value then kcall E G_ctrl_STREAM_PARM w else (-1, w))"

definition mm_stream_do_action :: "stream_env \<Rightarrow> bool \<Rightarrow> stream_world \<Rightarrow> int32 \<times> stream_world" where
  "mm_stream_do_action E in_value w = (if in_value then kcall E S_ctrl_STREAM_PARM w else (-1, w))"

definition mm_stream_set_ext_mode :: "stream_env \<Rightarrow> stream_world \<Rightarrow> int32 \<times> stream_world" where
  "mm_stream_set_ext_mode E w =
    (let (rc, w) = kcall E VIDIOC_S_PARM w
     in if rc = 0
        then (rc, on_strm (\<lambda>s. s\<lparr>server_id := server_id_of E (calls (ctx w))\<rparr>) w) else (rc, w))"

definition mm_stream_release :: "stream_env \<Rightarrow> stream_world \<Rightarrow> int32 \<times> stream_world" where
  "mm_stream_release E w =
    (let w = (if 0 \<le>s fd (strm w) then snd (kcall E Close_fd w) else w)
     in (0, on_strm (\<lambda>s. zeroed_stream\<lparr>fd := -1\<rparr>) w))"

section \<open>Start and stop\<close>

text \<open>
  The loop of \<open>mm_stream_streamon\<close>: the first buffer that is queued and not mapped makes it
  wait, once, and a failed mapping before that makes it give up.
\<close>

datatype mapping_check = Mapped | Must_wait | Failed

fun check_mapping :: "nat list \<Rightarrow> stream_world \<Rightarrow> mapping_check option" where
  "check_mapping [] w = Some Mapped"
| "check_mapping (i # is) w = do {
     st \<leftarrow> status_of i w;
     if map_status st = 0 \<and> in_kernel st then Some Must_wait
     else if map_status st <s 0 then Some Failed
     else check_mapping is w }"

definition ETIMEDOUT :: int32 where "ETIMEDOUT = 110"

definition mm_stream_streamon :: "stream_env \<Rightarrow> stream_world \<Rightarrow> int32 result" where
  "mm_stream_streamon E w = do {
     check \<leftarrow> check_mapping [0 ..< unat (buf_num (strm w))] w;
     (rc, w) \<leftarrow> (case check of
         Mapped \<Rightarrow> Some (0, w)
       | Failed \<Rightarrow> Some (-1, w)
       | Must_wait \<Rightarrow> do {
           (rc, w) \<leftarrow> upcall E Wait_mapping w;
           Some (if rc = ETIMEDOUT then -1 else rc, w) });
     if rc <s 0
     then do { (_, w) \<leftarrow> mm_camera_poll_thread_del_poll_fd E mm_camera_sync_call w; Some (rc, w) }
     else do {
       let (rc, w) = kcall E VIDIOC_STREAMON w;
       failed \<leftarrow> (if rc <s 0 then do { info \<leftarrow> stream_info (strm w); Some (num_bufs info \<noteq> 0) }
                  else Some False);
       if failed
       then do { (_, w) \<leftarrow> mm_camera_poll_thread_del_poll_fd E mm_camera_sync_call w; Some (rc, w) }
       else Some (rc, w) } }"

definition mm_stream_streamoff :: "stream_env \<Rightarrow> stream_world \<Rightarrow> int32 result" where
  "mm_stream_streamoff E w = do {
     (rc, w) \<leftarrow> mm_camera_poll_thread_del_poll_fd E mm_camera_sync_call w;
     (rc, w) \<leftarrow> (if rc <s 0
                 then do {
                   (rc, w) \<leftarrow> mm_camera_poll_thread_commit_updates E w;
                   Some (if rc <s 0 then 0 else rc, w) }
                 else Some (rc, w));
     let (off, w) = kcall E VIDIOC_STREAMOFF w;
     Some (rc OR off, w) }"

text \<open>
  The command thread: it is launched with an empty queue, and ends after it has served the
  nodes before the exit command, if \<open>malloc\<close> has memory for that. The release of a thread that
  was not launched links the exit command into a list head of null pointers.
\<close>

definition launch_cmd_thread :: "stream_world \<Rightarrow> stream_world" where
  "launch_cmd_thread = on_strm (\<lambda>s. s\<lparr>cmd_active := True, cmd_queue := []\<rparr>)"

definition cmd_thread_turn :: "stream_env \<Rightarrow> stream_world \<Rightarrow> int32 result" where
  "cmd_thread_turn E w =
    (case cmd_queue (strm w) of
       [] \<Rightarrow> Some (0, w)
     | i # is \<Rightarrow> mm_stream_dispatch_app_data E i (on_strm (\<lambda>s. s\<lparr>cmd_queue := is\<rparr>) w))"

fun serve_cmds :: "stream_env \<Rightarrow> nat list \<Rightarrow> stream_world \<Rightarrow> stream_world option" where
  "serve_cmds E [] w = Some w"
| "serve_cmds E (i # is) w = do { (_, w) \<leftarrow> cmd_thread_turn E w; serve_cmds E is w }"

definition release_cmd_thread :: "stream_env \<Rightarrow> stream_world \<Rightarrow> stream_world option" where
  "release_cmd_thread E w =
    (let (node, w) = kcall E Malloc w
     in if node = 0 then Some w
        else if \<not> cmd_active (strm w) then None
        else do {
          w \<leftarrow> serve_cmds E (cmd_queue (strm w)) w;
          Some (on_strm (\<lambda>s. s\<lparr>cmd_active := False, cmd_queue := []\<rparr>) w) })"

definition has_async_cb :: "mm_stream_obj \<Rightarrow> bool" where
  "has_async_cb s \<longleftrightarrow> (\<exists>c \<in> set (buf_cb s). cb c \<and> \<not> cb_sync c)"

section \<open>The state machine\<close>

datatype mm_stream_evt =
    MM_STREAM_EVT_ACQUIRE
  | MM_STREAM_EVT_RELEASE
  | MM_STREAM_EVT_SET_FMT stream_config
  | MM_STREAM_EVT_GET_BUF
  | MM_STREAM_EVT_PUT_BUF
  | MM_STREAM_EVT_REG_BUF
  | MM_STREAM_EVT_UNREG_BUF
  | MM_STREAM_EVT_START
  | MM_STREAM_EVT_STOP
  | MM_STREAM_EVT_QBUF buf_ref
  | MM_STREAM_EVT_SET_PARM bool
  | MM_STREAM_EVT_GET_PARM bool
  | MM_STREAM_EVT_DO_ACTION bool
  | MM_STREAM_EVT_GET_QUEUED_BUF_COUNT
  | MM_STREAM_EVT_CANCEL_BUF uint32

abbreviation goto :: "mm_stream_state \<Rightarrow> stream_world \<Rightarrow> stream_world" where
  "goto st w \<equiv> on_strm (\<lambda>s. s\<lparr>state := st\<rparr>) w"

definition mm_stream_fsm_inited :: "stream_env \<Rightarrow> mm_stream_evt \<Rightarrow> stream_world \<Rightarrow> int32 result" where
  "mm_stream_fsm_inited E evt w =
    (case evt of
       MM_STREAM_EVT_ACQUIRE \<Rightarrow>
         (let (name, w) = kcall E Get_dev_name w
          in if name = 0 then Some (-1, w)
             else let (f, w) = kcall E Open_dev w; w = on_strm (\<lambda>s. s\<lparr>fd := f\<rparr>) w
                  in if f <s 0 then Some (-1, w)
                     else let (rc, w) = mm_stream_set_ext_mode E w
                          in if rc = 0 then Some (rc, goto MM_STREAM_STATE_ACQUIRED w)
                             else Some (rc, on_strm (\<lambda>s. s\<lparr>fd := -1\<rparr>) (snd (kcall E Close_fd w))))
     | _ \<Rightarrow> Some (0, w))"

text \<open>The events that are the same in several states.\<close>

definition stream_parm_evt :: "stream_env \<Rightarrow> mm_stream_evt \<Rightarrow> stream_world \<Rightarrow> int32 result" where
  "stream_parm_evt E evt w =
    (case evt of
       MM_STREAM_EVT_SET_PARM p \<Rightarrow> Some (mm_stream_set_parm E p w)
     | MM_STREAM_EVT_GET_PARM p \<Rightarrow> Some (mm_stream_get_parm E p w)
     | _ \<Rightarrow> Some (0, w))"

definition mm_stream_fsm_acquired :: "stream_env \<Rightarrow> mm_stream_evt \<Rightarrow> stream_world \<Rightarrow> int32 result" where
  "mm_stream_fsm_acquired E evt w =
    (case evt of
       MM_STREAM_EVT_SET_FMT c \<Rightarrow> do {
         (rc, w) \<leftarrow> mm_stream_config E c w;
         Some (rc, goto MM_STREAM_STATE_CFG w) }
     | MM_STREAM_EVT_RELEASE \<Rightarrow>
         (let (rc, w) = mm_stream_release E w in Some (rc, goto MM_STREAM_STATE_NOTUSED w))
     | _ \<Rightarrow> stream_parm_evt E evt w)"

definition mm_stream_fsm_cfg :: "stream_env \<Rightarrow> mm_stream_evt \<Rightarrow> stream_world \<Rightarrow> int32 result" where
  "mm_stream_fsm_cfg E evt w =
    (case evt of
       MM_STREAM_EVT_SET_FMT c \<Rightarrow> do {
         (rc, w) \<leftarrow> mm_stream_config E c w;
         Some (rc, goto MM_STREAM_STATE_CFG w) }
     | MM_STREAM_EVT_RELEASE \<Rightarrow>
         (let (rc, w) = mm_stream_release E w in Some (rc, goto MM_STREAM_STATE_NOTUSED w))
     | MM_STREAM_EVT_GET_BUF \<Rightarrow> do {
         (rc, w) \<leftarrow> mm_stream_init_bufs E w;
         Some (rc, if rc = 0 then goto MM_STREAM_STATE_BUFFED w else w) }
     | _ \<Rightarrow> stream_parm_evt E evt w)"

definition mm_stream_fsm_buffed :: "stream_env \<Rightarrow> mm_stream_evt \<Rightarrow> stream_world \<Rightarrow> int32 result" where
  "mm_stream_fsm_buffed E evt w =
    (case evt of
       MM_STREAM_EVT_PUT_BUF \<Rightarrow> do {
         (rc, w) \<leftarrow> mm_stream_deinit_bufs E w;
         Some (rc, goto MM_STREAM_STATE_CFG w) }
     | MM_STREAM_EVT_REG_BUF \<Rightarrow> do {
         (rc, w) \<leftarrow> mm_stream_reg_buf E w;
         Some (rc, if rc = 0 then goto MM_STREAM_STATE_REG w else w) }
     | _ \<Rightarrow> stream_parm_evt E evt w)"

definition mm_stream_fsm_reg :: "stream_env \<Rightarrow> mm_stream_evt \<Rightarrow> stream_world \<Rightarrow> int32 result" where
  "mm_stream_fsm_reg E evt w =
    (case evt of
       MM_STREAM_EVT_UNREG_BUF \<Rightarrow> do {
         (rc, w) \<leftarrow> mm_stream_unreg_buf E w;
         Some (rc, goto MM_STREAM_STATE_BUFFED w) }
     | MM_STREAM_EVT_START \<Rightarrow> do {
         let has_cb = has_async_cb (strm w);
         let w = (if has_cb then launch_cmd_thread w else w);
         (rc, w) \<leftarrow> mm_stream_streamon E (goto MM_STREAM_STATE_ACTIVE w);
         if rc \<noteq> 0
         then do {
           w \<leftarrow> (if has_cb then release_cmd_thread E w else Some w);
           Some (rc, goto MM_STREAM_STATE_REG w) }
         else Some (rc, w) }
     | _ \<Rightarrow> stream_parm_evt E evt w)"

definition mm_stream_fsm_active :: "stream_env \<Rightarrow> mm_stream_evt \<Rightarrow> stream_world \<Rightarrow> int32 result" where
  "mm_stream_fsm_active E evt w =
    (case evt of
       MM_STREAM_EVT_QBUF r \<Rightarrow> mm_stream_buf_done E r w
     | MM_STREAM_EVT_CANCEL_BUF i \<Rightarrow> mm_stream_cancel_buf E i w
     | MM_STREAM_EVT_GET_QUEUED_BUF_COUNT \<Rightarrow> Some (mm_stream_get_queued_buf_count w, w)
     | MM_STREAM_EVT_STOP \<Rightarrow> do {
         (rc, w) \<leftarrow> mm_stream_streamoff E w;
         w \<leftarrow> (if has_async_cb (strm w) then release_cmd_thread E w else Some w);
         Some (rc, goto MM_STREAM_STATE_REG w) }
     | MM_STREAM_EVT_DO_ACTION p \<Rightarrow> Some (mm_stream_do_action E p w)
     | _ \<Rightarrow> stream_parm_evt E evt w)"

definition mm_stream_fsm_fn :: "stream_env \<Rightarrow> mm_stream_evt \<Rightarrow> stream_world \<Rightarrow> int32 result" where
  "mm_stream_fsm_fn E evt w =
    (case state (strm w) of
       MM_STREAM_STATE_NOTUSED \<Rightarrow> Some (-1, w)
     | MM_STREAM_STATE_INITED \<Rightarrow> mm_stream_fsm_inited E evt w
     | MM_STREAM_STATE_ACQUIRED \<Rightarrow> mm_stream_fsm_acquired E evt w
     | MM_STREAM_STATE_CFG \<Rightarrow> mm_stream_fsm_cfg E evt w
     | MM_STREAM_STATE_BUFFED \<Rightarrow> mm_stream_fsm_buffed E evt w
     | MM_STREAM_STATE_REG \<Rightarrow> mm_stream_fsm_reg E evt w
     | MM_STREAM_STATE_ACTIVE \<Rightarrow> mm_stream_fsm_active E evt w)"

end
