(* ===== verification/MmStreamInvariants.thy ===== *)
theory MmStreamInvariants
  imports MmStreamFsm
begin

text \<open>
  Who has which buffer of a stream: the kernel has those that were queued and not dequeued, the
  counters of the stream object agree with that, and the reference counts protect the
  rest. The invariant is kept by every operation, under a contract for the kernel, the
  upper layer and the users.
\<close>

section \<open>The buffers in the kernel\<close>

text \<open>
  The buffers handed to the kernel since the last registration and not taken back, by the calls
  made.
\<close>

fun handed :: "stream_env \<Rightarrow> uint32 \<Rightarrow> history \<Rightarrow> nat list" where
  "handed E h [] = []"
| "handed E h (kc # cs) =
    (if fst kc = h
     then case snd kc of
            VIDIOC_QBUF i planes \<Rightarrow>
              if rc_of E (kc # cs) <s 0 then handed E h cs else handed E h cs @ [unat i]
          | VIDIOC_DQBUF planes \<Rightarrow>
              if rc_of E (kc # cs) <s 0 then handed E h cs
              else remove1 (unat (vb_index (frame_of E (kc # cs)))) (handed E h cs)
          | VIDIOC_REQBUFS n \<Rightarrow>
              if rc_of E (kc # cs) <s 0 then handed E h cs else []
          | _ \<Rightarrow> handed E h cs
     else handed E h cs)"

text \<open>Whether a stop or a failed start has taken the stream out of the poll thread since then.\<close>

fun unpolled :: "uint32 \<Rightarrow> history \<Rightarrow> bool" where
  "unpolled h [] = False"
| "unpolled h (kc # cs) =
    (if fst kc = h
     then case snd kc of
            Pipe_write cmd \<Rightarrow> cmd = MM_CAMERA_PIPE_CMD_POLL_ENTRIES_UPDATED \<or> unpolled h cs
          | VIDIOC_REQBUFS n \<Rightarrow> False
          | _ \<Rightarrow> unpolled h cs
     else unpolled h cs)"

abbreviation hist :: "stream_world \<Rightarrow> history" where "hist w \<equiv> calls (ctx w)"
abbreviation hdl :: "stream_world \<Rightarrow> uint32" where "hdl w \<equiv> my_handle (strm w)"

definition in_hand :: "stream_env \<Rightarrow> stream_world \<Rightarrow> nat list" where
  "in_hand E w = handed E (hdl w) (hist w)"

text \<open>The entry of the stream in the table of the poll thread.\<close>

definition polled :: "stream_world \<Rightarrow> bool" where
  "polled w \<longleftrightarrow> (let e = poll_entries (poll (ctx w)) ! poll_slot (poll (ctx w)) (hdl w)
                 in handler e = hdl w \<and> notify_cb e \<and> entry_fd e = fd (strm w))"

definition watched_or_unpolled :: "stream_env \<Rightarrow> stream_world \<Rightarrow> bool" where
  "watched_or_unpolled E w \<longleftrightarrow> (in_hand E w \<noteq> [] \<longrightarrow> polled w \<or> unpolled (hdl w) (hist w))"

text \<open>What every call leaves as it is: the table has a place for the stream.\<close>

definition has_slot :: "stream_world \<Rightarrow> bool" where
  "has_slot w \<longleftrightarrow> sized (poll (ctx w)) \<and> hdl w \<noteq> 0
     \<and> poll_slot (poll (ctx w)) (hdl w) < MAX_STREAM_NUM_IN_BUNDLE"

lemma kcall_simps [simp]:
  "fst (kcall E c w) = rc_of E ((hdl w, c) # hist w)"
  "strm (snd (kcall E c w)) = strm w"
  "hist (snd (kcall E c w)) = (hdl w, c) # hist w"
  "poll (ctx (snd (kcall E c w))) = poll (ctx w)"
  "ch_queue (ctx (snd (kcall E c w))) = ch_queue (ctx w)"
  "linked_queue (ctx (snd (kcall E c w))) = linked_queue (ctx w)"
  by (simp_all add: kcall_def Let_def)

lemma kcall_eq:
  "kcall E c w = (rc_of E ((hdl w, c) # hist w), snd (kcall E c w))"
  by (simp add: kcall_def Let_def)

text \<open>A call other than those that move buffers.\<close>

fun moves :: "kcall \<Rightarrow> bool" where
  "moves (VIDIOC_QBUF i n) = True"
| "moves (VIDIOC_DQBUF n) = True"
| "moves (VIDIOC_REQBUFS n) = True"
| "moves _ = False"

lemma handed_other [simp]: "\<not> moves c \<Longrightarrow> handed E h ((k, c) # cs) = handed E h cs"
  by (cases c) auto

lemma unpolled_other: "unpolled h cs \<Longrightarrow> \<not> moves c \<Longrightarrow> unpolled h ((k, c) # cs)"
  by (cases c) auto

text \<open>
  A step that leaves the stream object and the buffers in the kernel alone: only calls that move
  nothing, and work on the poll thread.
\<close>

definition quiet :: "stream_env \<Rightarrow> stream_world \<Rightarrow> stream_world \<Rightarrow> bool" where
  "quiet E w w' \<longleftrightarrow> strm w' = strm w \<and> in_hand E w' = in_hand E w
     \<and> (has_slot w \<longrightarrow> has_slot w') \<and> (unpolled (hdl w) (hist w) \<longrightarrow> unpolled (hdl w) (hist w'))"

lemma quiet_refl [simp]: "quiet E w w"
  by (simp add: quiet_def)

lemma quiet_trans: "quiet E u v \<Longrightarrow> quiet E v w \<Longrightarrow> quiet E u w"
  by (simp add: quiet_def)

lemma quiet_kcall [simp]: "\<not> moves c \<Longrightarrow> quiet E w (snd (kcall E c w))"
  by (simp add: quiet_def in_hand_def has_slot_def unpolled_other del: handed.simps unpolled.simps)

lemma polled_kcall [simp]: "polled (snd (kcall E c w)) = polled w"
  by (simp add: polled_def)

section \<open>The poll thread\<close>

lemma serve_pipe_ok:
  "sized p \<Longrightarrow> \<exists>q. serve_pipe cmds p = Some q \<and> sized q \<and> poll_entries q = poll_entries p"
proof (induction cmds arbitrary: p)
  case Nil
  then show ?case
    by (simp add: sized_def)
next
  case (Cons cmd cmds)
  obtain q where "mm_camera_poll_proc_pipe cmd p = Some (is_sync cmd, q)" "sized q"
      "poll_entries q = poll_entries p"
    by (rule proc_pipe_ok [OF Cons.prems, of cmd])
  then show ?case
    using Cons.IH [of "if is_sync cmd then mm_camera_poll_sig_done q else q"]
    by (auto simp: mm_camera_poll_sig_done_def)
qed

lemma poll_sig_ok:
  assumes "sized (poll (ctx w))"
  obtains q where "mm_camera_poll_sig E async cmd w =
      Some (0, (snd (kcall E (Pipe_write cmd) w))\<lparr>ctx := (ctx (snd (kcall E (Pipe_write cmd) w)))\<lparr>poll := q\<rparr>\<rparr>)"
    "sized q" "poll_entries q = poll_entries (poll (ctx w))"
proof -
  obtain n w1 where k: "kcall E (Pipe_write cmd) w = (n, w1)"
    by fastforce
  then have w1: "poll (ctx w1) = poll (ctx w)"
    by (metis kcall_simps(4) snd_conv)
  define p where "p = poll_sig_write (1 \<le>s n) cmd (poll (ctx w))"
  have p: "sized p" "poll_entries p = poll_entries (poll (ctx w))"
    using assms by (simp_all add: p_def)
  then obtain q where q: "serve_pipe (pipe p) p = Some q" "sized q"
      "poll_entries q = poll_entries (poll (ctx w))"
    using serve_pipe_ok [OF p(1), of "pipe p"] by auto
  show thesis
  proof (cases "1 \<le>s n \<and> async \<noteq> Some mm_camera_async_call")
    case True
    then have "mm_camera_poll_sig E async cmd w = Some (0, w1\<lparr>ctx := (ctx w1)\<lparr>poll := q\<rparr>\<rparr>)"
      using q(1) by (simp add: mm_camera_poll_sig_def k w1 p_def Let_def)
    then show thesis
      using that [of q] q k by simp
  next
    case False
    then have "mm_camera_poll_sig E async cmd w = Some (0, w1\<lparr>ctx := (ctx w1)\<lparr>poll := p\<rparr>\<rparr>)"
      by (auto simp add: mm_camera_poll_sig_def k w1 p_def Let_def)
    then show thesis
      using that [of p] p k by simp
  qed
qed

lemma poll_slot_same: "poll_type q = poll_type p \<Longrightarrow> poll_slot q h = poll_slot p h"
  by (simp add: poll_slot_def)

lemma add_poll_ok:
  assumes "has_slot w"
  shows "ensures (mm_camera_poll_thread_add_poll_fd E ct w) (\<lambda>(rc, w'). quiet E w w' \<and> polled w')"
proof -
  define e where "e = \<lparr>entry_fd = fd (strm w), notify_cb = True, handler = hdl w, user_data = unat (hdl w)\<rparr>"
  define i where "i = poll_slot (poll (ctx w)) (hdl w)"
  define p where "p = (poll (ctx w))\<lparr>poll_entries := (poll_entries (poll (ctx w)))[i := e]\<rparr>"
  define w1 where "w1 = w\<lparr>ctx := (ctx w)\<lparr>poll := p\<rparr>\<rparr>"
  have i: "i < MAX_STREAM_NUM_IN_BUNDLE" "i < length (poll_entries (poll (ctx w)))"
    using assms by (simp_all add: i_def has_slot_def sized_def)
  then have "sized (poll (ctx w1))"
    using assms by (simp add: w1_def p_def has_slot_def sized_def)
  then obtain q where q: "mm_camera_poll_sig E (Some ct) (update_cmd ct) w1 =
      Some (0, (snd (kcall E (Pipe_write (update_cmd ct)) w1))\<lparr>ctx := (ctx (snd (kcall E (Pipe_write (update_cmd ct)) w1)))\<lparr>poll := q\<rparr>\<rparr>)"
    "sized q" "poll_entries q = poll_entries p"
    by (rule poll_sig_ok) (simp add: w1_def)
  have "mm_camera_poll_thread_add_poll_fd E ct w = mm_camera_poll_sig E (Some ct) (update_cmd ct) w1"
    using i by (simp add: mm_camera_poll_thread_add_poll_fd_def add_entry_def Let_def w1_def p_def
        e_def i_def)
  moreover have "poll_slot q (hdl w) = i"
    using q(2) assms by (auto simp: i_def poll_slot_def has_slot_def sized_def)
  ultimately show ?thesis
    using assms i q
    by (simp add: quiet_def in_hand_def has_slot_def polled_def w1_def unpolled_other
        del: handed.simps unpolled.simps) (simp add: p_def e_def)
qed

lemma del_poll_ok:
  assumes "has_slot w"
  shows "ensures (mm_camera_poll_thread_del_poll_fd E ct w)
    (\<lambda>(rc, w'). quiet E w w' \<and> (polled w \<and> ct = mm_camera_sync_call \<longrightarrow> unpolled (hdl w) (hist w')))"
proof -
  define i where "i = poll_slot (poll (ctx w)) (hdl w)"
  define e where "e = poll_entries (poll (ctx w)) ! i"
  define p where "p = (poll (ctx w))\<lparr>poll_entries :=
      (poll_entries (poll (ctx w)))[i := e\<lparr>entry_fd := -1, handler := 0, notify_cb := False\<rparr>]\<rparr>"
  define w1 where "w1 = w\<lparr>ctx := (ctx w)\<lparr>poll := p\<rparr>\<rparr>"
  have i: "i < MAX_STREAM_NUM_IN_BUNDLE" "i < length (poll_entries (poll (ctx w)))"
    using assms by (simp_all add: i_def has_slot_def sized_def)
  show ?thesis
  proof (cases "handler e = hdl w")
    case True
    have "sized (poll (ctx w1))"
      using assms by (simp add: w1_def p_def has_slot_def sized_def)
    then obtain q where q: "mm_camera_poll_sig E (Some ct) (update_cmd ct) w1 =
        Some (0, (snd (kcall E (Pipe_write (update_cmd ct)) w1))\<lparr>ctx := (ctx (snd (kcall E (Pipe_write (update_cmd ct)) w1)))\<lparr>poll := q\<rparr>\<rparr>)"
      "sized q" "poll_entries q = poll_entries p"
      by (rule poll_sig_ok) (simp add: w1_def)
    have "mm_camera_poll_thread_del_poll_fd E ct w = mm_camera_poll_sig E (Some ct) (update_cmd ct) w1"
      using i True by (simp add: mm_camera_poll_thread_del_poll_fd_def del_entry_def Let_def w1_def p_def
          e_def i_def)
    moreover have "poll_slot q (hdl w) = i"
      using q(2) assms by (auto simp: i_def poll_slot_def has_slot_def sized_def)
    ultimately show ?thesis
      using assms i q
      by (auto simp add: quiet_def in_hand_def has_slot_def w1_def unpolled_other update_cmd_def
          simp del: handed.simps) 
  next
    case False
    then have "\<exists>rc. mm_camera_poll_thread_del_poll_fd E ct w = Some (rc, w)"
      using i by (auto simp: mm_camera_poll_thread_del_poll_fd_def del_entry_def Let_def e_def i_def)
    moreover have "\<not> polled w"
      using False by (simp add: polled_def Let_def e_def i_def)
    ultimately show ?thesis
      by auto
  qed
qed

lemma commit_ok:
  assumes "has_slot w"
  shows "ensures (mm_camera_poll_thread_commit_updates E w) (\<lambda>(rc, w'). quiet E w w' \<and> polled w' = polled w)"
proof -
  have "sized (poll (ctx w))"
    using assms by (simp add: has_slot_def)
  then obtain q where q: "mm_camera_poll_sig E None MM_CAMERA_PIPE_CMD_COMMIT w =
      Some (0, (snd (kcall E (Pipe_write MM_CAMERA_PIPE_CMD_COMMIT) w))\<lparr>ctx := (ctx (snd (kcall E (Pipe_write MM_CAMERA_PIPE_CMD_COMMIT) w)))\<lparr>poll := q\<rparr>\<rparr>)"
    "sized q" "poll_entries q = poll_entries (poll (ctx w))"
    by (rule poll_sig_ok)
  moreover have "poll_slot q (hdl w) = poll_slot (poll (ctx w)) (hdl w)"
    using q(2) assms by (auto simp: poll_slot_def has_slot_def sized_def)
  ultimately show ?thesis
    using assms
    by (auto simp: mm_camera_poll_thread_commit_updates_def quiet_def in_hand_def has_slot_def
        polled_def unpolled_other simp del: handed.simps unpolled.simps)
qed

section \<open>Queueing a buffer\<close>

text \<open>A change of the object that keeps its handle, or also its descriptor.\<close>

lemma obj_same [simp]:
  "my_handle s = hdl w \<Longrightarrow> in_hand E (w\<lparr>strm := s\<rparr>) = in_hand E w"
  "my_handle s = hdl w \<Longrightarrow> has_slot (w\<lparr>strm := s\<rparr>) = has_slot w"
  "my_handle s = hdl w \<Longrightarrow> fd s = fd (strm w) \<Longrightarrow> polled (w\<lparr>strm := s\<rparr>) = polled w"
  "my_handle s = hdl w \<Longrightarrow> fd s = fd (strm w) \<Longrightarrow>
    watched_or_unpolled E (w\<lparr>strm := s\<rparr>) = watched_or_unpolled E w"
  by (simp_all add: in_hand_def has_slot_def polled_def watched_or_unpolled_def)

text \<open>What the environment owes: calls that succeed.\<close>

definition io_ok :: "stream_env \<Rightarrow> bool" where
  "io_ok E \<longleftrightarrow> (\<forall>h i cs. rc_of E ((h, Invalidate_buf i) # cs) = 0)
     \<and> (\<forall>h i cs. rc_of E ((h, Clean_invalidate_buf i) # cs) = 0)
     \<and> (\<forall>h i n cs. rc_of E ((h, VIDIOC_QBUF i n) # cs) = 0)"

text \<open>The counter agrees with the calls.\<close>

definition counted :: "stream_env \<Rightarrow> stream_world \<Rightarrow> bool" where
  "counted E w \<longleftrightarrow> has_slot w \<and> watched_or_unpolled E w
     \<and> unat (queued_buffer_count (strm w)) = length (in_hand E w)"

lemma unat_plus_one: "unat (x :: int8) < 255 \<Longrightarrow> unat (x + 1) = unat x + 1"
  by (simp add: unat_word_ariths)

lemma unat_minus_one8: "x \<noteq> (0 :: int8) \<Longrightarrow> unat (x - 1) = unat x - 1"
  by (rule unat_minus_one)

lemma in_hand_kcall:
  "in_hand E (snd (kcall E c w)) = handed E (hdl w) ((hdl w, c) # hist w)"
  by (simp add: in_hand_def del: handed.simps)

definition queued_ok :: "stream_env \<Rightarrow> mm_buf \<Rightarrow> stream_world \<Rightarrow> int32 \<times> stream_world \<Rightarrow> bool" where
  "queued_ok E b w r \<longleftrightarrow> (\<exists>q. strm (snd r) = (strm w)\<lparr>queued_buffer_count := q\<rparr>)
     \<and> counted E (snd r) \<and> (io_ok E \<longrightarrow> fst r = 0)
     \<and> in_hand E (snd r) = (if fst r <s 0 then in_hand E w else in_hand E w @ [unat (buf_idx b)])"

lemma queued_okE:
  assumes "queued_ok E b w (rc, w')"
  obtains q where "strm w' = (strm w)\<lparr>queued_buffer_count := q\<rparr>" "counted E w'"
    "io_ok E \<longrightarrow> rc = 0"
    "in_hand E w' = (if rc <s 0 then in_hand E w else in_hand E w @ [unat (buf_idx b)])"
  using assms unfolding queued_ok_def fst_conv snd_conv by blast

lemma obj_eta: "s = s\<lparr>queued_buffer_count := queued_buffer_count s\<rparr>"
  by simp

lemma poll_changed_ok:
  assumes "counted E w" and "unat q = length (in_hand E w) + 1 \<or> unat q = length (in_hand E w)"
  shows "ensures (if b then mm_camera_poll_thread_add_poll_fd E ct (w\<lparr>strm := (strm w)\<lparr>queued_buffer_count := q\<rparr>\<rparr>)
                  else Some (0, w\<lparr>strm := (strm w)\<lparr>queued_buffer_count := q\<rparr>\<rparr>))
    (\<lambda>(rc, w'). strm w' = (strm w)\<lparr>queued_buffer_count := q\<rparr> \<and> in_hand E w' = in_hand E w
       \<and> has_slot w' \<and> (b \<longrightarrow> polled w') \<and> (\<not> b \<longrightarrow> polled w' = polled w)
       \<and> (unpolled (hdl w) (hist w) \<longrightarrow> unpolled (hdl w) (hist w')))"
proof (cases b)
  case True
  have "has_slot (w\<lparr>strm := (strm w)\<lparr>queued_buffer_count := q\<rparr>\<rparr>)"
    using assms by (simp add: counted_def)
  from add_poll_ok [OF this, of E ct] show ?thesis
    using True assms by (auto simp: quiet_def counted_def elim!: ensures_mono)
qed (use assms in \<open>simp add: counted_def\<close>)

lemma poll_removed_ok:
  assumes "has_slot w"
  shows "ensures (if b then mm_camera_poll_thread_del_poll_fd E ct (w\<lparr>strm := (strm w)\<lparr>queued_buffer_count := q\<rparr>\<rparr>)
                  else Some (0, w\<lparr>strm := (strm w)\<lparr>queued_buffer_count := q\<rparr>\<rparr>))
    (\<lambda>(rc, w'). strm w' = (strm w)\<lparr>queued_buffer_count := q\<rparr> \<and> in_hand E w' = in_hand E w
       \<and> has_slot w' \<and> (\<not> b \<longrightarrow> polled w' = polled w)
       \<and> (unpolled (hdl w) (hist w) \<longrightarrow> unpolled (hdl w) (hist w')))"
proof (cases b)
  case True
  have "has_slot (w\<lparr>strm := (strm w)\<lparr>queued_buffer_count := q\<rparr>\<rparr>)"
    using assms by simp
  from del_poll_ok [OF this, of E ct] show ?thesis
    using True assms by (auto simp: quiet_def elim!: ensures_mono)
qed (use assms in simp)

lemma mm_stream_qbuf_ok:
  assumes "counted E w" and "buf_type b = CAM_STREAM_BUF_TYPE_MPLANE"
    and "length (in_hand E w) < 64"
  shows "ensures (mm_stream_qbuf E b w) (queued_ok E b w)"
proof -
  define w1 where "w1 = (if has_invalidate_buf (vtbl (strm w)) then snd (kcall E (Invalidate_buf (buf_idx b)) w) else w)"
  define rc1 where "rc1 = (if has_invalidate_buf (vtbl (strm w)) then fst (kcall E (Invalidate_buf (buf_idx b)) w) else 0)"
  have inv: "(if has_invalidate_buf (vtbl (strm w)) then kcall E (Invalidate_buf (buf_idx b)) w else (0, w))
      = (rc1, w1)"
    by (simp add: rc1_def w1_def kcall_def Let_def)
  have w1: "strm w1 = strm w" "in_hand E w1 = in_hand E w" "counted E w1"
    using assms(1) quiet_kcall [of "Invalidate_buf (buf_idx b)" E w]
    by (auto simp: w1_def quiet_def counted_def watched_or_unpolled_def simp del: kcall_simps(3))
  define n where "n = (ucast (buf_num_planes b) :: uint32)"
  define q where "q = queued_buffer_count (strm w)"
  have q: "unat q = length (in_hand E w)" "unat (q + 1) = length (in_hand E w) + 1"
    using assms unat_plus_one [of q] by (simp_all add: counted_def q_def)
  show ?thesis
  proof (cases "rc1 <s 0")
    case True
    then have "\<not> io_ok E"
      by (auto simp: io_ok_def rc1_def word_sless_alt split: if_splits)
    with True show ?thesis
      using assms w1 by (simp add: mm_stream_qbuf_def inv queued_ok_def) (metis obj_eta)
  next
    case False
    obtain rc3 w3 where w3: "(if q + 1 = 1
         then mm_camera_poll_thread_add_poll_fd E mm_camera_async_call (w1\<lparr>strm := (strm w1)\<lparr>queued_buffer_count := q + 1\<rparr>\<rparr>)
         else Some (0, w1\<lparr>strm := (strm w1)\<lparr>queued_buffer_count := q + 1\<rparr>\<rparr>)) = Some (rc3, w3)"
      "strm w3 = (strm w1)\<lparr>queued_buffer_count := q + 1\<rparr>" "in_hand E w3 = in_hand E w1" "has_slot w3"
      "q + 1 = 1 \<longrightarrow> polled w3" "q + 1 \<noteq> 1 \<longrightarrow> polled w3 = polled w1"
      "unpolled (hdl w1) (hist w1) \<longrightarrow> unpolled (hdl w1) (hist w3)"
      using poll_changed_ok [OF w1(3), of "q + 1" "q + 1 = 1" mm_camera_async_call] q w1(2)
      by (auto elim!: ensuresE)
    define w4 where "w4 = snd (kcall E (VIDIOC_QBUF (buf_idx b) n) w3)"
    define rc4 where "rc4 = fst (kcall E (VIDIOC_QBUF (buf_idx b) n) w3)"
    have k: "kcall E (VIDIOC_QBUF (buf_idx b) n) w3 = (rc4, w4)"
      by (simp add: prod_eq_iff rc4_def w4_def)
    have "in_hand E w = [] \<longleftrightarrow> q + 1 = 1"
      using q by (auto simp: unat_eq_0)
    then have "polled w3 \<or> unpolled (hdl w3) (hist w3)"
      using w3 w1 by (auto simp: counted_def watched_or_unpolled_def)
    then have w4: "strm w4 = (strm w)\<lparr>queued_buffer_count := q + 1\<rparr>" "has_slot w4"
      "in_hand E w4 = (if rc4 <s 0 then in_hand E w else in_hand E w @ [unat (buf_idx b)])"
      "polled w4 \<or> unpolled (hdl w4) (hist w4)"
      using w3 w1
      by (auto simp: w4_def rc4_def in_hand_def has_slot_def)
    have run: "mm_stream_qbuf E b w =
        (if rc4 <s 0
         then do {
           (_, w5) \<leftarrow> (if q = 0
                      then mm_camera_poll_thread_del_poll_fd E mm_camera_async_call (w4\<lparr>strm := (strm w4)\<lparr>queued_buffer_count := q\<rparr>\<rparr>)
                      else Some (0, w4\<lparr>strm := (strm w4)\<lparr>queued_buffer_count := q\<rparr>\<rparr>));
           Some (rc4, w5) }
         else Some (rc4, w4))"
      using False assms(2) w3(1) k w4(1) w1(1)
      by (cases "q = 0") (simp_all add: mm_stream_qbuf_def inv n_def [symmetric] q_def [symmetric] Let_def)
    show ?thesis
    proof (cases "rc4 <s 0")
      case True
      have "rc4 = 0" if "io_ok E"
        using that by (simp add: rc4_def io_ok_def)
      then have "\<not> io_ok E"
        using True by auto
      moreover obtain rc5 w5 where w5: "(if q = 0
         then mm_camera_poll_thread_del_poll_fd E mm_camera_async_call (w4\<lparr>strm := (strm w4)\<lparr>queued_buffer_count := q\<rparr>\<rparr>)
         else Some (0, w4\<lparr>strm := (strm w4)\<lparr>queued_buffer_count := q\<rparr>\<rparr>)) = Some (rc5, w5)"
        "strm w5 = (strm w4)\<lparr>queued_buffer_count := q\<rparr>" "in_hand E w5 = in_hand E w4" "has_slot w5"
        "q \<noteq> 0 \<longrightarrow> polled w5 = polled w4"
        "unpolled (hdl w4) (hist w4) \<longrightarrow> unpolled (hdl w4) (hist w5)"
        using poll_removed_ok [OF w4(2), of "q = 0" E mm_camera_async_call q]
        by (auto elim!: ensuresE)
      moreover have "q = 0 \<longleftrightarrow> in_hand E w = []"
        using q(1) by (metis length_0_conv unat_eq_0)
      ultimately show ?thesis
        using True w4 q(1) unfolding run queued_ok_def counted_def watched_or_unpolled_def
        by auto
    next
      case False
      then show ?thesis
        using w4 q(2) unfolding run queued_ok_def counted_def watched_or_unpolled_def
        by (auto simp: rc4_def io_ok_def)
    qed
  qed
qed

section \<open>The ledger\<close>

text \<open>
  One buffer: \<open>h\<close>, it is in the kernel; \<open>c\<close>, how often it is in the queue of the command thread.
  A buffer in the kernel has no reference; the command thread owns one of the references
  of a buffer in its queue; and if no call fails, a buffer without reference is in the
  kernel. Seven is the most references a buffer can have, while it is dispatched: the bundle,
  the link, the command thread, and one for each of the four callbacks.
\<close>

definition entry_ok :: "bool \<Rightarrow> bool \<Rightarrow> mm_stream_buf_status \<Rightarrow> nat \<Rightarrow> bool" where
  "entry_ok io h st c \<longleftrightarrow> (h \<longrightarrow> in_kernel st) \<and> (in_kernel st \<longrightarrow> buf_refcnt st = 0)
     \<and> c \<le> 1 \<and> c \<le> unat (buf_refcnt st) \<and> unat (buf_refcnt st) \<le> 7
     \<and> (c = 1 \<longrightarrow> unat (buf_refcnt st) \<le> 3)
     \<and> (io \<longrightarrow> (if in_kernel st then h else buf_refcnt st \<noteq> 0))"

definition ledger_of ::
    "bool \<Rightarrow> nat list \<Rightarrow> mm_stream_buf_status list \<Rightarrow> nat \<Rightarrow> nat list \<Rightarrow> bool" where
  "ledger_of io H sts n cmds \<longleftrightarrow> length sts = 64 \<and> n \<le> 64 \<and> distinct H \<and> set H \<subseteq> {..<n}
     \<and> set cmds \<subseteq> {..<n} \<and> (\<forall>i < n. entry_ok io (i \<in> set H) (sts ! i) (count_list cmds i))"

lemma ledger_update:
  assumes "ledger_of io H sts n cmds" and "i < n" and "distinct H'"
    and "set H' - {i} = set H - {i}" and "\<And>k. k \<noteq> i \<Longrightarrow> count_list cmds' k = count_list cmds k"
    and "entry_ok io (i \<in> set H') st (count_list cmds' i)"
  shows "ledger_of io H' (sts[i := st]) n cmds'"
proof -
  have "set cmds' - {i} = set cmds - {i}"
    using assms(5) by (auto simp: set_eq_iff) (metis count_notin count_list_0_iff)+
  moreover have "set H' \<subseteq> insert i (set H)" "\<And>k. k \<noteq> i \<Longrightarrow> k \<in> set H' \<longleftrightarrow> k \<in> set H"
    using assms(4) by auto
  ultimately show ?thesis
    using assms by (auto simp: ledger_of_def nth_list_update)
qed

definition good_bufs :: "mm_stream_obj \<Rightarrow> bool" where
  "good_bufs s \<longleftrightarrow> (case bufs s of None \<Rightarrow> False
     | Some bs \<Rightarrow> length bs = unat (buf_num s)
         \<and> (\<forall>i < length bs. unat (buf_idx (bs ! i)) = i \<and> buf_type (bs ! i) = CAM_STREAM_BUF_TYPE_MPLANE))"

lemma good_bufs_same: "bufs s = bufs t \<Longrightarrow> buf_num s = buf_num t \<Longrightarrow> good_bufs s = good_bufs t"
  by (simp add: good_bufs_def cong: option.case_cong)

lemma good_bufs_other [simp]:
  "good_bufs (s\<lparr>buf_status := x\<rparr>) = good_bufs s" "good_bufs (s\<lparr>cmd_queue := q\<rparr>) = good_bufs s"
  "good_bufs (s\<lparr>queued_buffer_count := n\<rparr>) = good_bufs s" "good_bufs (s\<lparr>cmd_active := b\<rparr>) = good_bufs s"
  "good_bufs (s\<lparr>state := st\<rparr>) = good_bufs s" "good_bufs (s\<lparr>buf_cb := cbs\<rparr>) = good_bufs s"
  "good_bufs (s\<lparr>stream_info := i\<rparr>) = good_bufs s" "good_bufs (s\<lparr>is_bundled := b\<rparr>) = good_bufs s"
  "good_bufs (s\<lparr>is_linked := b\<rparr>) = good_bufs s"
  by (rule good_bufs_same; simp)+

definition ledger :: "stream_env \<Rightarrow> stream_world \<Rightarrow> bool" where
  "ledger E w \<longleftrightarrow> counted E w \<and> good_bufs (strm w)
     \<and> ledger_of (io_ok E) (in_hand E w) (buf_status (strm w)) (unat (buf_num (strm w))) (cmd_queue (strm w))"

text \<open>What the stream object is besides its buffers; most operations leave that alone.\<close>

definition settings :: "mm_stream_obj \<Rightarrow> mm_stream_obj" where
  "settings s = s\<lparr>queued_buffer_count := 0, buf_status := [], bufs := None, cmd_queue := []\<rparr>"

lemma settings_fields:
  assumes "settings s = settings t"
  shows "my_handle s = my_handle t" "fd s = fd t" "state s = state t" "stream_info s = stream_info t"
    "padding_info s = padding_info t" "cmd_active s = cmd_active t" "buf_cb s = buf_cb t"
    "buf_num s = buf_num t" "is_bundled s = is_bundled t" "is_linked s = is_linked t" "vtbl s = vtbl t"
    "frame_offset s = frame_offset t" "plane_buf s = plane_buf t" "is_batch s = is_batch t"
proof -
  note eq = arg_cong [OF assms]
  show "my_handle s = my_handle t" "fd s = fd t" "state s = state t" "stream_info s = stream_info t"
    "padding_info s = padding_info t" "cmd_active s = cmd_active t" "buf_cb s = buf_cb t"
    "buf_num s = buf_num t" "is_bundled s = is_bundled t" "is_linked s = is_linked t" "vtbl s = vtbl t"
    "frame_offset s = frame_offset t" "plane_buf s = plane_buf t"
    using eq [of my_handle] eq [of fd] eq [of state] eq [of stream_info] eq [of padding_info]
      eq [of cmd_active] eq [of buf_cb] eq [of buf_num] eq [of is_bundled] eq [of is_linked]
      eq [of vtbl] eq [of frame_offset] eq [of plane_buf]
    by (simp_all add: settings_def)
  then show "is_batch s = is_batch t"
    by (simp add: is_batch_def)
qed

lemma ledger_facts:
  assumes "ledger E w"
  shows "length (buf_status (strm w)) = 64" "unat (buf_num (strm w)) \<le> 64" "counted E w"
    "distinct (in_hand E w)" "set (in_hand E w) \<subseteq> {..<unat (buf_num (strm w))}"
    "set (cmd_queue (strm w)) \<subseteq> {..<unat (buf_num (strm w))}"
    "i < unat (buf_num (strm w)) \<Longrightarrow>
      entry_ok (io_ok E) (i \<in> set (in_hand E w)) (buf_status (strm w) ! i) (count_list (cmd_queue (strm w)) i)"
  using assms by (auto simp: ledger_def ledger_of_def)

lemma read_good:
  assumes "ledger E w" and "i < unat (buf_num (strm w))"
  obtains b where "read_buf (Buf i) w = Some b" "unat (buf_idx b) = i"
    "buf_type b = CAM_STREAM_BUF_TYPE_MPLANE"
  using assms by (auto simp: ledger_def good_bufs_def read_buf_def array_of_def place_of_def
      split: option.splits)

lemma room_in_kernel:
  assumes "ledger E w" and "i < unat (buf_num (strm w))" and "i \<notin> set (in_hand E w)"
  shows "length (in_hand E w) < 64"
proof -
  have "set (in_hand E w) \<subset> {..<unat (buf_num (strm w))}"
    using assms ledger_facts(5) [OF assms(1)] by auto
  then have "card (set (in_hand E w)) < unat (buf_num (strm w))"
    by (metis card_lessThan finite_lessThan psubset_card_mono)
  then show ?thesis
    using ledger_facts(2,4) [OF assms(1)] by (simp add: distinct_card)
qed

lemma ledger_rebuild:
  assumes "ledger E w" and "counted E w'" and "bufs (strm w') = bufs (strm w)"
    and "buf_num (strm w') = buf_num (strm w)"
    and "ledger_of (io_ok E) (in_hand E w') (buf_status (strm w')) (unat (buf_num (strm w))) (cmd_queue (strm w'))"
  shows "ledger E w'"
  using assms by (auto simp: ledger_def good_bufs_def split: option.splits)

lemma on_status_eq: "i < length (buf_status (strm w)) \<Longrightarrow>
    on_status i f w = Some (w\<lparr>strm := (strm w)\<lparr>buf_status := (buf_status (strm w))[i := f (buf_status (strm w) ! i)]\<rparr>\<rparr>)"
  by (simp add: on_status_def)

lemma status_of_eq: "i < length (buf_status (strm w)) \<Longrightarrow> status_of i w = Some (buf_status (strm w) ! i)"
  by (simp add: status_of_def)

definition refs :: "nat \<Rightarrow> stream_world \<Rightarrow> nat" where
  "refs i w = unat (buf_refcnt (buf_status (strm w) ! i))"

lemma mm_stream_buf_done_refs:
  assumes "ledger E w" and "i < unat (buf_num (strm w))" and "stream_info (strm w) \<noteq> None"
    and "\<not> is_batch (strm w)"
    and "buf_refcnt (buf_status (strm w) ! i) = 0
      \<or> count_list (cmd_queue (strm w)) i < unat (buf_refcnt (buf_status (strm w) ! i))"
  shows "ensures (mm_stream_buf_done E (Buf i) w)
    (\<lambda>(rc, w'). ledger E w' \<and> settings (strm w') = settings (strm w) \<and> cmd_queue (strm w') = cmd_queue (strm w)
        \<and> refs i w \<le> refs i w' + 1 \<and> refs i w' \<le> refs i w)"
proof -
  obtain b where b: "read_buf (Buf i) w = Some b" "unat (buf_idx b) = i"
      "buf_type b = CAM_STREAM_BUF_TYPE_MPLANE"
    using read_good [OF assms(1,2)] .
  define st where "st = buf_status (strm w) ! i"
  have i: "i < length (buf_status (strm w))"
    using assms(2) ledger_facts(1,2) [OF assms(1)] by simp
  note entry = ledger_facts(7) [OF assms(1,2), folded st_def]
  have L: "ledger_of (io_ok E) (in_hand E w) (buf_status (strm w)) (unat (buf_num (strm w))) (cmd_queue (strm w))"
    using assms(1) by (simp add: ledger_def)
  show ?thesis
  proof (cases "buf_refcnt st = 0")
    case True
    then show ?thesis
      using assms b i by (simp add: mm_stream_buf_done_def status_of_def st_def)
  next
    case False
    define w1 where "w1 = w\<lparr>strm := (strm w)\<lparr>buf_status := (buf_status (strm w))[i := st\<lparr>buf_refcnt := buf_refcnt st - 1\<rparr>]\<rparr>\<rparr>"
    have st: "status_of i w = Some st"
      using i by (simp add: status_of_def st_def)
    have w1: "on_status i (\<lambda>st. st\<lparr>buf_refcnt := buf_refcnt st - 1\<rparr>) w = Some w1"
      using i by (simp add: on_status_eq w1_def st_def)
    have st1: "status_of i w1 = Some (st\<lparr>buf_refcnt := buf_refcnt st - 1\<rparr>)"
      using i by (simp add: status_of_def w1_def)
    have zero: "buf_refcnt st - 1 = 0 \<longleftrightarrow> buf_refcnt st = 1"
      by simp
    have dec: "unat (buf_refcnt st - 1) = unat (buf_refcnt st) - 1"
      using False by (rule unat_minus_one8)
    have out: "\<not> in_kernel st" "i \<notin> set (in_hand E w)"
      using entry False by (auto simp: entry_ok_def)
    have c1: "counted E w1" "in_hand E w1 = in_hand E w"
      using ledger_facts(3) [OF assms(1)] by (simp_all add: w1_def counted_def)
    show ?thesis
    proof (cases "buf_refcnt st = 1")
      case one: True
      have no_cmd: "count_list (cmd_queue (strm w)) i = 0"
        using assms(5) one by (simp add: st_def)
      obtain rc w2 where w2: "mm_stream_qbuf E b w1 = Some (rc, w2)" "queued_ok E b w1 (rc, w2)"
        using mm_stream_qbuf_ok [OF c1(1) b(3)] room_in_kernel [OF assms(1,2) out(2)] c1(2)
        by (auto elim!: ensuresE)
      obtain q where q: "strm w2 = (strm w1)\<lparr>queued_buffer_count := q\<rparr>" "counted E w2"
          "io_ok E \<longrightarrow> rc = 0" "in_hand E w2 = (if rc <s 0 then in_hand E w else in_hand E w @ [i])"
        using queued_okE [OF w2(2)] unfolding b(2) c1(2) by blast
      define w3 where "w3 = (if rc <s 0 then w2
        else w2\<lparr>strm := (strm w2)\<lparr>buf_status := (buf_status (strm w2))[i := (buf_status (strm w2) ! i)\<lparr>in_kernel := True\<rparr>]\<rparr>\<rparr>)"
      have st2: "i < length (buf_status (strm w2))"
        using i by (simp add: q(1) w1_def)
      have "mm_stream_buf_done E (Buf i) w = Some (rc, w3)"
        using False one assms(3,4)
        by (simp add: mm_stream_buf_done_def b st w1 st1 w2 on_status_eq [OF st2] w3_def Let_def)
      moreover have "ledger E w3"
      proof (rule ledger_rebuild [OF assms(1)])
        show "counted E w3"
          using q(2) by (simp add: w3_def counted_def)
        show "bufs (strm w3) = bufs (strm w)" "buf_num (strm w3) = buf_num (strm w)"
          by (simp_all add: w3_def q(1) w1_def)
        have cmds: "cmd_queue (strm w3) = cmd_queue (strm w)"
          by (simp add: w3_def q(1) w1_def)
        show "ledger_of (io_ok E) (in_hand E w3) (buf_status (strm w3)) (unat (buf_num (strm w))) (cmd_queue (strm w3))"
        proof (cases "rc <s 0")
          case True
          then have "\<not> io_ok E"
            using q(3) by auto
          moreover have eqs: "buf_status (strm w3) = (buf_status (strm w))[i := st\<lparr>buf_refcnt := 0\<rparr>]"
              "in_hand E w3 = in_hand E w"
            using True one q(4) by (simp_all add: w3_def q(1) w1_def)
          ultimately show ?thesis
            unfolding cmds eqs using no_cmd out ledger_facts(4) [OF assms(1)]
            by (intro ledger_update [OF L assms(2)]) (auto simp: entry_ok_def)
        next
          case False
          then have eqs: "in_hand E w3 = in_hand E w @ [i]"
            "buf_status (strm w3) = (buf_status (strm w))[i := st\<lparr>buf_refcnt := 0, in_kernel := True\<rparr>]"
            using one i q(4) by (simp_all add: w3_def q(1) w1_def)
          then show ?thesis
            unfolding cmds eqs using no_cmd out ledger_facts(4) [OF assms(1)]
            by (intro ledger_update [OF L assms(2)]) (auto simp: entry_ok_def)
        qed
      qed
      moreover have "settings (strm w3) = settings (strm w)" "cmd_queue (strm w3) = cmd_queue (strm w)"
        by (simp_all add: w3_def q(1) w1_def settings_def)
      moreover have "refs i w3 = 0" "refs i w = 1"
        using i one by (simp_all add: refs_def w3_def q(1) w1_def st_def)
      ultimately show ?thesis
        by simp
    next
      case more: False
      have "mm_stream_buf_done E (Buf i) w = Some (0, w1)"
        using False more assms(3,4) zero by (simp add: mm_stream_buf_done_def b st w1 st1 Let_def)
      moreover have "ledger E w1"
      proof (rule ledger_rebuild [OF assms(1)])
        have "entry_ok (io_ok E) (i \<in> set (in_hand E w)) (st\<lparr>buf_refcnt := buf_refcnt st - 1\<rparr>)
            (count_list (cmd_queue (strm w)) i)"
          using entry assms(5) False more dec zero by (auto simp: entry_ok_def st_def [symmetric])
        then show "ledger_of (io_ok E) (in_hand E w1) (buf_status (strm w1)) (unat (buf_num (strm w))) (cmd_queue (strm w1))"
          using ledger_facts(4) [OF assms(1)] c1(2)
          unfolding w1_def by (simp, intro ledger_update [OF L assms(2)]) auto
      qed (use c1 in \<open>simp_all add: w1_def\<close>)
      moreover have "refs i w1 + 1 = refs i w"
        using i dec False by (simp add: refs_def w1_def st_def [symmetric] unat_eq_0 [symmetric])
      ultimately show ?thesis
        by (simp add: w1_def settings_def)
    qed
  qed
qed

lemma mm_stream_buf_done_ok:
  assumes "ledger E w" and "i < unat (buf_num (strm w))" and "stream_info (strm w) \<noteq> None"
    and "\<not> is_batch (strm w)"
    and "buf_refcnt (buf_status (strm w) ! i) = 0
      \<or> count_list (cmd_queue (strm w)) i < unat (buf_refcnt (buf_status (strm w) ! i))"
  shows "ensures (mm_stream_buf_done E (Buf i) w)
    (\<lambda>(rc, w'). ledger E w' \<and> settings (strm w') = settings (strm w) \<and> cmd_queue (strm w') = cmd_queue (strm w))"
  by (rule ensures_mono [OF mm_stream_buf_done_refs [OF assms]]) auto

section \<open>Dispatching\<close>

text \<open>Callbacks that are called for ever.\<close>

definition cbs_ok :: "mm_stream_obj \<Rightarrow> bool" where
  "cbs_ok s \<longleftrightarrow> length (buf_cb s) = MM_CAMERA_STREAM_BUF_CB_MAX
     \<and> (\<forall>c \<in> set (buf_cb s). cb c \<longrightarrow> cb_count c <s 0)"

lemma count_cb_forever:
  assumes "cbs_ok (strm w)" and "k < length (buf_cb (strm w))" and "cb (buf_cb (strm w) ! k)"
  shows "count_cb k w = w"
proof -
  have "cb_count (buf_cb (strm w) ! k) <s 0"
    using assms by (auto simp: cbs_ok_def)
  then have "\<not> 0 <s cb_count (buf_cb (strm w) ! k)"
    by (metis signed.less_asym)
  then have "(let c = buf_cb (strm w) ! k in if 0 <s cb_count c
      then let c = c\<lparr>cb_count := cb_count c - 1\<rparr> in if cb_count c = 0 then c\<lparr>cb := False\<rparr> else c
      else c) = buf_cb (strm w) ! k"
    by (simp add: Let_def)
  then show ?thesis
    by (simp add: count_cb_def)
qed

lemma cb_count_nonzero: "cbs_ok s \<Longrightarrow> k < length (buf_cb s) \<Longrightarrow> cb (buf_cb s ! k) \<Longrightarrow>
    cb_count (buf_cb s ! k) \<noteq> 0"
  by (auto simp: cbs_ok_def)

lemma counted_kcall [simp]: "\<not> moves c \<Longrightarrow> counted E w \<Longrightarrow> counted E (snd (kcall E c w))"
  using quiet_kcall [of c E w] by (auto simp: counted_def quiet_def watched_or_unpolled_def)

lemma ledger_kcall [simp]: "\<not> moves c \<Longrightarrow> ledger E w \<Longrightarrow> ledger E (snd (kcall E c w))"
  using quiet_kcall [of c E w] by (simp add: ledger_def quiet_def)

lemma ledger_obj:
  assumes "ledger E w" and "settings s = settings (strm w)"
    and "queued_buffer_count s = queued_buffer_count (strm w)" and "bufs s = bufs (strm w)"
    and "ledger_of (io_ok E) (in_hand E w) (buf_status s) (unat (buf_num (strm w))) (cmd_queue s)"
  shows "ledger E (w\<lparr>strm := s\<rparr>)"
  using assms settings_fields [OF assms(2)]
  by (auto simp: ledger_def counted_def good_bufs_def split: option.splits)

lemma add_ref_ok:
  assumes "ledger E w" and "i < unat (buf_num (strm w))" and "count_list (cmd_queue (strm w)) i = 0"
    and "1 \<le> refs i w" and "refs i w < 7"
  shows "ensures (on_status i (\<lambda>st. st\<lparr>buf_refcnt := buf_refcnt st + 1\<rparr>) w)
    (\<lambda>w'. ledger E w' \<and> settings (strm w') = settings (strm w) \<and> cmd_queue (strm w') = cmd_queue (strm w)
        \<and> refs i w' = refs i w + 1 \<and> ctx w' = ctx w)"
proof -
  define st where "st = buf_status (strm w) ! i"
  have i: "i < length (buf_status (strm w))"
    using assms(2) ledger_facts(1,2) [OF assms(1)] by simp
  have L: "ledger_of (io_ok E) (in_hand E w) (buf_status (strm w)) (unat (buf_num (strm w))) (cmd_queue (strm w))"
    using assms(1) by (simp add: ledger_def)
  have inc: "unat (buf_refcnt st + 1) = unat (buf_refcnt st) + 1"
    using assms(5) by (intro unat_plus_one) (simp add: refs_def st_def)
  define s where "s = (strm w)\<lparr>buf_status := (buf_status (strm w))[i := st\<lparr>buf_refcnt := buf_refcnt st + 1\<rparr>]\<rparr>"
  have "entry_ok (io_ok E) (i \<in> set (in_hand E w)) (st\<lparr>buf_refcnt := buf_refcnt st + 1\<rparr>)
      (count_list (cmd_queue (strm w)) i)"
    using ledger_facts(7) [OF assms(1,2)] assms(3-5) inc
    by (auto simp: entry_ok_def refs_def st_def [symmetric] unat_eq_0 [symmetric])
  then have "ledger E (w\<lparr>strm := s\<rparr>)"
    using ledger_facts(4) [OF assms(1)]
    by (intro ledger_obj [OF assms(1)])
      (simp_all add: s_def settings_def, intro ledger_update [OF L assms(2)], auto)
  then show ?thesis
    using i inc by (simp add: on_status_eq s_def st_def refs_def settings_def)
qed

text \<open>A configured stream that does not work in batches.\<close>

definition plain_stream :: "mm_stream_obj \<Rightarrow> bool" where
  "plain_stream s \<longleftrightarrow> stream_info s \<noteq> None \<and> \<not> is_batch s \<and> cbs_ok s"

lemma plain_settings: "settings s = settings t \<Longrightarrow> plain_stream t \<Longrightarrow> plain_stream s"
  using settings_fields [of s t] by (simp add: plain_stream_def cbs_ok_def)

lemma app_cb_ok:
  assumes "ledger E w" and "i < unat (buf_num (strm w))" and "count_list (cmd_queue (strm w)) i = 0"
    and "2 \<le> refs i w" and "plain_stream (strm w)"
  shows "ensures (app_cb E k i w)
    (\<lambda>w'. ledger E w' \<and> settings (strm w') = settings (strm w) \<and> cmd_queue (strm w') = cmd_queue (strm w)
        \<and> refs i w \<le> refs i w' + 1 \<and> refs i w' \<le> refs i w)"
proof -
  define w1 where "w1 = snd (kcall E (Stream_cb k i) w)"
  define r where "r = fst (kcall E (Stream_cb k i) w)"
  have k: "kcall E (Stream_cb k i) w = (r, w1)"
    by (simp add: prod_eq_iff w1_def r_def)
  have w1: "ledger E w1" "strm w1 = strm w" "refs i w1 = refs i w"
    using assms(1) by (simp_all add: w1_def refs_def)
  have "ensures (mm_stream_buf_done E (Buf i) w1)
    (\<lambda>(rc, w'). ledger E w' \<and> settings (strm w') = settings (strm w1) \<and> cmd_queue (strm w') = cmd_queue (strm w1)
        \<and> refs i w1 \<le> refs i w' + 1 \<and> refs i w' \<le> refs i w1)"
    using assms(2-5) w1 by (intro mm_stream_buf_done_refs) (simp_all add: plain_stream_def refs_def)
  then show ?thesis
    using w1 by (auto simp: app_cb_def k elim!: ensures_mono)
qed

lemma dispatch_cbs_ok:
  assumes "ledger E w" and "i < unat (buf_num (strm w))" and "count_list (cmd_queue (strm w)) i = 0"
    and "1 \<le> refs i w" and "refs i w + length ks \<le> 7" and "plain_stream (strm w)"
    and "\<forall>k \<in> set ks. k < length (buf_cb (strm w))"
  shows "ensures (dispatch_cbs E ks i w)
    (\<lambda>w'. ledger E w' \<and> settings (strm w') = settings (strm w) \<and> cmd_queue (strm w') = cmd_queue (strm w)
        \<and> refs i w \<le> refs i w')"
  using assms
proof (induction ks arbitrary: w)
  case (Cons k ks)
  have cbs0: "cbs_ok (strm w)"
    using Cons.prems(6) by (simp add: plain_stream_def)
  show ?case
  proof (cases "cb (buf_cb (strm w) ! k) \<and> \<not> cb_sync (buf_cb (strm w) ! k)")
    case True
    obtain b where b: "read_buf (Buf i) w = Some b" "unat (buf_idx b) = i"
      using read_good [OF Cons.prems(1,2)] by metis
    obtain w1 where w1: "on_status i (\<lambda>st. st\<lparr>buf_refcnt := buf_refcnt st + 1\<rparr>) w = Some w1"
        "ledger E w1" "settings (strm w1) = settings (strm w)" "cmd_queue (strm w1) = cmd_queue (strm w)"
        "refs i w1 = refs i w + 1"
      using add_ref_ok [OF Cons.prems(1,2,3,4)] Cons.prems(5) by (auto elim!: ensuresE)
    note same1 = settings_fields [OF w1(3)]
    obtain w2 where w2: "app_cb E k i w1 = Some w2" "ledger E w2" "settings (strm w2) = settings (strm w1)"
        "cmd_queue (strm w2) = cmd_queue (strm w1)" "refs i w1 \<le> refs i w2 + 1" "refs i w2 \<le> refs i w1"
      using app_cb_ok [OF w1(2), of i k] Cons.prems(2-4,6) w1(4,5) same1(8) plain_settings [OF w1(3)]
      by (auto elim!: ensuresE)
    have set2: "settings (strm w2) = settings (strm w)"
      using w1(3) w2(3) by simp
    note same = settings_fields [OF set2]
    have plain2: "plain_stream (strm w2)"
      using plain_settings [OF set2] Cons.prems(6) by simp
    then have cbs: "cbs_ok (strm w2)"
      by (simp add: plain_stream_def)
    have "count_cb k w2 = w2"
      using cbs same(7) Cons.prems(7) True by (intro count_cb_forever) auto
    then have run: "dispatch_cbs E (k # ks) i w = dispatch_cbs E ks i w2"
      using True b w1(1) w2(1) cb_count_nonzero [OF cbs0] Cons.prems(7) by simp
    have "ensures (dispatch_cbs E ks i w2)
      (\<lambda>w'. ledger E w' \<and> settings (strm w') = settings (strm w2) \<and> cmd_queue (strm w') = cmd_queue (strm w2)
        \<and> refs i w2 \<le> refs i w')"
      using Cons.prems w1(4,5) w2 plain2 same by (intro Cons.IH) simp_all
    then show ?thesis
      unfolding run by (rule ensures_mono) (use set2 w1(4,5) w2(4,5) in auto)
  next
    case False
    then show ?thesis
      using Cons.IH [of w] Cons.prems by auto
  qed
qed simp

lemma refs_of_queued:
  assumes "ledger E w" and "i < unat (buf_num (strm w))" and "i \<in> set (cmd_queue (strm w))"
  shows "count_list (cmd_queue (strm w)) i = 1" "1 \<le> refs i w" "refs i w \<le> 3"
proof -
  have "count_list (cmd_queue (strm w)) i \<noteq> 0"
    using assms(3) by (simp add: count_list_0_iff)
  then show "count_list (cmd_queue (strm w)) i = 1" "1 \<le> refs i w" "refs i w \<le> 3"
    using ledger_facts(7) [OF assms(1,2)] by (auto simp: entry_ok_def refs_def)
qed

lemma cmd_thread_turn_ok:
  assumes "ledger E w" and "plain_stream (strm w)"
  shows "ensures (cmd_thread_turn E w)
    (\<lambda>(rc, w'). ledger E w' \<and> settings (strm w') = settings (strm w) \<and> cmd_queue (strm w') = tl (cmd_queue (strm w)))"
proof (cases "cmd_queue (strm w)")
  case Nil
  then show ?thesis
    using assms by (simp add: cmd_thread_turn_def)
next
  case (Cons i "is")
  then have i: "i < unat (buf_num (strm w))" "i \<in> set (cmd_queue (strm w))"
    using ledger_facts(6) [OF assms(1)] by auto
  have queued: "count_list is i = 0" "1 \<le> refs i w" "refs i w \<le> 3"
    using refs_of_queued [OF assms(1) i] Cons by auto
  define w0 where "w0 = w\<lparr>strm := (strm w)\<lparr>cmd_queue := is\<rparr>\<rparr>"
  have L: "ledger_of (io_ok E) (in_hand E w) (buf_status (strm w)) (unat (buf_num (strm w))) (i # is)"
    using assms(1) Cons by (simp add: ledger_def)
  have "entry_ok (io_ok E) (i \<in> set (in_hand E w)) (buf_status (strm w) ! i) (count_list is i)"
    using ledger_facts(7) [OF assms(1) i(1)] queued by (auto simp: entry_ok_def)
  then have "ledger_of (io_ok E) (in_hand E w) ((buf_status (strm w))[i := buf_status (strm w) ! i])
      (unat (buf_num (strm w))) is"
    using ledger_facts(4) [OF assms(1)] by (intro ledger_update [OF L i(1)]) auto
  then have w0: "ledger E w0"
    unfolding w0_def by (intro ledger_obj [OF assms(1)]) (simp_all add: settings_def)
  have plain_stream: "plain_stream (strm w0)" "length (buf_cb (strm w0)) = 4"
    using assms(2) by (simp_all add: w0_def plain_stream_def is_batch_def cbs_ok_def MM_CAMERA_STREAM_BUF_CB_MAX_def)
  obtain w1 where w1: "dispatch_cbs E [0 ..< length (buf_cb (strm w0))] i w0 = Some w1" "ledger E w1"
      "settings (strm w1) = settings (strm w0)" "cmd_queue (strm w1) = is" "refs i w0 \<le> refs i w1"
    using dispatch_cbs_ok [OF w0, of i "[0 ..< length (buf_cb (strm w0))]"] i queued plain_stream
    by (auto simp: w0_def refs_def plain_stream_def elim!: ensuresE)
  have "ensures (mm_stream_buf_done E (Buf i) w1)
      (\<lambda>(rc, w'). ledger E w' \<and> settings (strm w') = settings (strm w1) \<and> cmd_queue (strm w') = cmd_queue (strm w1))"
  proof (rule mm_stream_buf_done_ok [OF w1(2)])
    have "1 \<le> refs i w1"
      using queued(2) w1(5) by (simp add: refs_def w0_def)
    then show "buf_refcnt (buf_status (strm w1) ! i) = 0
        \<or> count_list (cmd_queue (strm w1)) i < unat (buf_refcnt (buf_status (strm w1) ! i))"
      using queued(1) w1(4) by (simp add: refs_def)
  qed (use plain_settings [OF w1(3) plain_stream(1)] settings_fields [OF w1(3)] i in
      \<open>simp_all add: plain_stream_def w0_def\<close>)
  then show ?thesis
    using w1 Cons by (simp add: cmd_thread_turn_def mm_stream_dispatch_app_data_def w0_def [symmetric])
      (simp add: w0_def settings_def)
qed

lemma serve_cmds_ok:
  "ledger E w \<Longrightarrow> plain_stream (strm w) \<Longrightarrow> length is = length (cmd_queue (strm w)) \<Longrightarrow>
    ensures (serve_cmds E is w)
      (\<lambda>w'. ledger E w' \<and> settings (strm w') = settings (strm w) \<and> cmd_queue (strm w') = [])"
proof (induction "is" arbitrary: w)
  case (Cons i "is")
  obtain rc w1 where w1: "cmd_thread_turn E w = Some (rc, w1)" "ledger E w1"
      "settings (strm w1) = settings (strm w)" "cmd_queue (strm w1) = tl (cmd_queue (strm w))"
    using cmd_thread_turn_ok [OF Cons.prems(1,2)] by (auto elim!: ensuresE)
  have "length is = length (cmd_queue (strm w1))"
    using w1(4) Cons.prems(3) by simp
  then show ?case
    using Cons.IH [OF w1(2) plain_settings [OF w1(3) Cons.prems(2)]] w1 by simp
qed simp

definition stream_malloc_ok :: "stream_env \<Rightarrow> bool" where
  "stream_malloc_ok E \<longleftrightarrow> (\<forall>h cs. rc_of E ((h, Malloc) # cs) \<noteq> 0)"

lemma release_cmd_thread_ok:
  assumes "ledger E w" and "plain_stream (strm w)" and "cmd_active (strm w)" and "stream_malloc_ok E"
  shows "ensures (release_cmd_thread E w)
    (\<lambda>w'. ledger E w' \<and> settings (strm w') = (settings (strm w))\<lparr>cmd_active := False\<rparr> \<and> cmd_queue (strm w') = [])"
proof -
  define w1 where "w1 = snd (kcall E Malloc w)"
  have w1: "ledger E w1" "strm w1 = strm w"
    using assms(1) by (simp_all add: w1_def)
  obtain w2 where w2: "serve_cmds E (cmd_queue (strm w1)) w1 = Some w2" "ledger E w2"
      "settings (strm w2) = settings (strm w1)" "cmd_queue (strm w2) = []"
    using serve_cmds_ok [OF w1(1)] assms(2) w1(2) by (auto elim!: ensuresE)
  define w3 where "w3 = w2\<lparr>strm := (strm w2)\<lparr>cmd_active := False, cmd_queue := []\<rparr>\<rparr>"
  have "kcall E Malloc w = (rc_of E ((hdl w, Malloc) # hist w), w1)"
    by (simp add: prod_eq_iff w1_def)
  then have "release_cmd_thread E w = Some w3"
    using assms(3,4) w1(2) w2(1) by (simp add: release_cmd_thread_def stream_malloc_ok_def w3_def)
  moreover have "ledger E w3"
    using w2(2,4) by (auto simp: w3_def ledger_def counted_def good_bufs_def split: option.splits)
  moreover have "settings (strm w3) = (settings (strm w2))\<lparr>cmd_active := False\<rparr>"
    by (simp add: w3_def settings_def)
  ultimately show ?thesis
    using w2(3) w1(2) by (simp add: w3_def)
qed

section \<open>A frame arrives\<close>

text \<open>
  The kernel hands out only what it was handed: the documented behaviour of \<open>VIDIOC_DQBUF\<close>, which
  returns 0 or an error.
\<close>

definition kernel_ok :: "stream_env \<Rightarrow> bool" where
  "kernel_ok E \<longleftrightarrow> (\<forall>h n cs. let c = (h, VIDIOC_DQBUF n) # cs in
     rc_of E c <s 0 \<or> rc_of E c = 0 \<and> unat (vb_index (frame_of E c)) \<in> set (handed E h cs))"

text \<open>The buffer \<open>i\<close> has left the kernel, and the object does not know it yet.\<close>

definition taken :: "stream_env \<Rightarrow> nat \<Rightarrow> stream_world \<Rightarrow> stream_world \<Rightarrow> bool" where
  "taken E i w w' \<longleftrightarrow> counted E w' \<and> good_bufs (strm w') \<and> settings (strm w') = settings (strm w)
     \<and> cmd_queue (strm w') = cmd_queue (strm w) \<and> buf_status (strm w') = buf_status (strm w)
     \<and> in_hand E w' = remove1 i (in_hand E w) \<and> i \<in> set (in_hand E w)"

lemma taken_kcall: "\<not> moves c \<Longrightarrow> taken E i w w' \<Longrightarrow> taken E i w (snd (kcall E c w'))"
  using quiet_kcall [of c E w'] by (simp add: taken_def quiet_def)

lemma taken_ledger:
  assumes "taken E i w w'" and "ledger E w" and "\<not> io_ok E"
  shows "ledger E w'"
proof -
  have i: "i < unat (buf_num (strm w))"
    using assms ledger_facts(5) [OF assms(2)] by (auto simp: taken_def)
  have L: "ledger_of (io_ok E) (in_hand E w) (buf_status (strm w)) (unat (buf_num (strm w))) (cmd_queue (strm w))"
    using assms(2) by (simp add: ledger_def)
  have "ledger_of (io_ok E) (remove1 i (in_hand E w)) ((buf_status (strm w))[i := buf_status (strm w) ! i])
      (unat (buf_num (strm w))) (cmd_queue (strm w))"
    using ledger_facts(4,7) [OF assms(2)] i assms(3)
    by (intro ledger_update [OF L i]) (auto simp: entry_ok_def)
  moreover have "buf_num (strm w') = buf_num (strm w)"
    using assms(1) settings_fields(8) [of "strm w'" "strm w"] by (simp add: taken_def)
  ultimately show ?thesis
    using assms(1) by (simp add: ledger_def taken_def)
qed

lemma good_bufs_fill:
  assumes "good_bufs s" and "bufs s = Some bs" and "i < length bs" and "unat (vb_index vb) = i"
  shows "good_bufs (s\<lparr>bufs := Some (bs[i := fill_buf vb h (bs ! i)])\<rparr>)"
  using assms by (auto simp: good_bufs_def nth_list_update fill_buf_def)

lemma mm_stream_read_msm_frame_ok:
  assumes "ledger E w" and "kernel_ok E"
  shows "ensures (mm_stream_read_msm_frame E planes w)
    (\<lambda>((rc, r), w'). case r of
        None \<Rightarrow> rc <s 0 \<and> ledger E w' \<and> settings (strm w') = settings (strm w)
                 \<and> cmd_queue (strm w') = cmd_queue (strm w)
      | Some i \<Rightarrow> taken E i w w' \<and> (io_ok E \<longrightarrow> rc = 0))"
proof -
  define c where "c = (hdl w, VIDIOC_DQBUF planes) # hist w"
  define w1 where "w1 = snd (kcall E (VIDIOC_DQBUF planes) w)"
  have k: "kcall E (VIDIOC_DQBUF planes) w = (rc_of E c, w1)"
    by (simp add: prod_eq_iff w1_def c_def)
  have w1: "strm w1 = strm w" "hist w1 = c" "has_slot w1" "polled w1 = polled w"
    "unpolled (hdl w1) (hist w1) = unpolled (hdl w) (hist w)"
    using ledger_facts(3) [OF assms(1)]
    by (auto simp: w1_def c_def counted_def has_slot_def)
  show ?thesis
  proof (cases "rc_of E c <s 0")
    case True
    then have "in_hand E w1 = in_hand E w"
      by (simp add: in_hand_def w1_def c_def)
    then have "ledger E w1"
      using assms(1) w1 by (simp add: ledger_def counted_def watched_or_unpolled_def)
    then show ?thesis
      using True w1 k by (simp add: mm_stream_read_msm_frame_def)
  next
    case False
    define vb where "vb = frame_of E c"
    define i where "i = unat (vb_index vb)"
    define H where "H = in_hand E w"
    define q where "q = queued_buffer_count (strm w)"
    have i: "i \<in> set H" "rc_of E c = 0"
      using assms(2) False by (auto simp: kernel_ok_def c_def vb_def i_def H_def in_hand_def Let_def)
    have hand1: "in_hand E w1 = remove1 i H"
      using False by (simp add: in_hand_def w1_def H_def i_def vb_def c_def)
    have q: "unat q = length H" "unat (q - 1) = length (remove1 i H)"
    proof -
      show "unat q = length H"
        using ledger_facts(3) [OF assms(1)] by (simp add: counted_def q_def H_def)
      moreover have "q \<noteq> 0"
        using calculation i(1) by auto
      ultimately show "unat (q - 1) = length (remove1 i H)"
        using i(1) by (simp add: unat_minus_one8 length_remove1)
    qed
    obtain rc2 w2 where w2: "(if q - 1 = 0
         then mm_camera_poll_thread_del_poll_fd E mm_camera_async_call (w1\<lparr>strm := (strm w1)\<lparr>queued_buffer_count := q - 1\<rparr>\<rparr>)
         else Some (0, w1\<lparr>strm := (strm w1)\<lparr>queued_buffer_count := q - 1\<rparr>\<rparr>)) = Some (rc2, w2)"
        "strm w2 = (strm w1)\<lparr>queued_buffer_count := q - 1\<rparr>" "in_hand E w2 = in_hand E w1" "has_slot w2"
        "q - 1 \<noteq> 0 \<longrightarrow> polled w2 = polled w1"
        "unpolled (hdl w1) (hist w1) \<longrightarrow> unpolled (hdl w1) (hist w2)"
      using poll_removed_ok [OF w1(3), of "q - 1 = 0" E mm_camera_async_call "q - 1"]
      by (auto elim!: ensuresE)
    have "q - 1 = 0 \<longleftrightarrow> in_hand E w2 = []"
      using q(2) w2(3) hand1 by (metis length_0_conv unat_eq_0)
    then have counted2: "counted E w2"
      using w2 w1 q(2) hand1 ledger_facts(3) [OF assms(1)] i(1)
      by (auto simp: counted_def watched_or_unpolled_def H_def)
    obtain bs where bs: "bufs (strm w) = Some bs" "i < length bs"
      using assms(1) i(1) ledger_facts(5) [OF assms(1)]
      by (auto simp: ledger_def good_bufs_def H_def split: option.splits)
    define b where "b = fill_buf vb (hdl w2) (bs ! i)"
    define w3 where "w3 = w2\<lparr>strm := (strm w2)\<lparr>bufs := Some (bs[i := b])\<rparr>\<rparr>"
    have written: "write_buf (Buf i) (fill_buf vb (hdl w2)) w2 = Some w3" "read_buf (Buf i) w3 = Some b"
      using bs w2(2) w1(1) by (simp_all add: write_buf_def read_buf_def array_of_def place_of_def w3_def b_def Let_def)
    have mplane: "buf_type b = CAM_STREAM_BUF_TYPE_MPLANE"
      using assms(1) bs by (auto simp: ledger_def good_bufs_def b_def fill_buf_def)
    have "taken E i w w3"
    proof -
      have bufs2: "good_bufs (strm w2)" "bufs (strm w2) = Some bs"
        using assms(1) bs w2(2) w1(1) by (auto simp: ledger_def good_bufs_def split: option.splits)
      then have "good_bufs (strm w3)"
        using good_bufs_fill [OF bufs2 bs(2) i_def [symmetric], of "hdl w2"]
        by (simp add: w3_def b_def)
      moreover have "counted E w3"
        using counted2 by (simp add: w3_def counted_def)
      ultimately show ?thesis
        using w2 w1 hand1 i(1) by (simp add: taken_def w3_def settings_def H_def)
    qed
    moreover define w4 where "w4 = (if has_clean_invalidate_buf (vtbl (strm w3))
        then snd (kcall E (Clean_invalidate_buf (vb_index vb)) w3) else w3)"
    ultimately have "taken E i w w4"
      by (simp add: taken_kcall)
    moreover define rc4 where "rc4 = (if has_clean_invalidate_buf (vtbl (strm w3))
        then fst (kcall E (Clean_invalidate_buf (vb_index vb)) w3) else 0)"
    have "(if has_clean_invalidate_buf (vtbl (strm w3))
        then kcall E (Clean_invalidate_buf (vb_index vb)) w3 else (0, w3)) = (rc4, w4)"
      by (simp add: prod_eq_iff rc4_def w4_def)
    then have "mm_stream_read_msm_frame E planes w = Some ((rc4, Some i), w4)"
      using False w2(1) w1(1) written mplane i(2) w2(2)
      by (cases "q = 1"; cases "has_clean_invalidate_buf (vtbl (strm w3))")
        (simp_all add: mm_stream_read_msm_frame_def k vb_def [symmetric] q_def [symmetric] w1(2)
          i_def [symmetric] Let_def)
    moreover have "io_ok E \<longrightarrow> rc4 = 0"
      by (simp add: rc4_def io_ok_def)
    ultimately show ?thesis
      by simp
  qed
qed

text \<open>The callbacks on the poll thread change nothing the stream keeps.\<close>

lemma notify_cbs_ok:
  assumes "cbs_ok (strm w)" and "\<forall>k \<in> set ks. k < length (buf_cb (strm w))"
  shows "case notify_cbs E ks i (has_cb, w) of (has_cb', w') \<Rightarrow>
      strm w' = strm w \<and> in_hand E w' = in_hand E w \<and> (counted E w \<longrightarrow> counted E w')
      \<and> (has_cb' \<longleftrightarrow> has_cb \<or> (\<exists>k \<in> set ks. cb (buf_cb (strm w) ! k) \<and> \<not> cb_sync (buf_cb (strm w) ! k)))"
  using assms
proof (induction ks arbitrary: w has_cb)
  case (Cons k ks)
  define c where "c = buf_cb (strm w) ! k"
  show ?case
  proof (cases "cb c \<and> cb_sync c")
    case True
    define w1 where "w1 = call_cb E k i w"
    have w1: "strm w1 = strm w" "in_hand E w1 = in_hand E w" "counted E w \<longrightarrow> counted E w1"
      using quiet_kcall [of "Stream_cb k i" E w] by (auto simp: w1_def call_cb_def quiet_def)
    then have "count_cb k w1 = w1"
      using Cons.prems True by (intro count_cb_forever) (auto simp: c_def)
    then have "mm_stream_dispatch_sync_data E k i w = w1"
      using cb_count_nonzero [OF Cons.prems(1), of k] Cons.prems(2) True
      by (simp add: mm_stream_dispatch_sync_data_def w1_def c_def)
    then show ?thesis
      using Cons.IH [of w1 has_cb] Cons.prems w1 True by (auto simp: c_def split: prod.splits)
  next
    case False
    then show ?thesis
      using Cons.IH [of w "has_cb \<or> cb c"] Cons.prems
      by (auto simp: c_def split: prod.splits)
  qed
qed simp

lemma has_async_index:
  "has_async_cb s \<longleftrightarrow> (\<exists>k \<in> set [0 ..< length (buf_cb s)]. cb (buf_cb s ! k) \<and> \<not> cb_sync (buf_cb s ! k))"
  by (force simp: has_async_cb_def in_set_conv_nth)

lemma notify_channel_ok [simp]:
  "strm (snd (mm_stream_notify_channel E linked i w)) = strm w"
  "ledger E w \<Longrightarrow> ledger E (snd (mm_stream_notify_channel E linked i w))"
proof -
  define w1 where "w1 = snd (kcall E Malloc w)"
  define n where "n = fst (kcall E Malloc w)"
  have k: "kcall E Malloc w = (n, w1)"
    by (simp add: prod_eq_iff n_def w1_def)
  have w1: "strm w1 = strm w" "ledger E w \<longrightarrow> ledger E w1"
    by (simp_all add: w1_def)
  have same: "ledger E (w1\<lparr>ctx := (ctx w1)\<lparr>linked_queue := q\<rparr>\<rparr>) = ledger E w1"
    "ledger E (w1\<lparr>ctx := (ctx w1)\<lparr>ch_queue := q\<rparr>\<rparr>) = ledger E w1" for q
    by (simp_all add: ledger_def counted_def has_slot_def watched_or_unpolled_def in_hand_def polled_def)
  show "strm (snd (mm_stream_notify_channel E linked i w)) = strm w"
    using w1 by (simp add: mm_stream_notify_channel_def k Let_def)
  show "ledger E w \<Longrightarrow> ledger E (snd (mm_stream_notify_channel E linked i w))"
    using w1 same by (simp add: mm_stream_notify_channel_def k Let_def)
qed

lemma enqueue_cmd_ok:
  assumes "ledger E w" and "i < unat (buf_num (strm w))" and "count_list (cmd_queue (strm w)) i = 0"
    and "1 \<le> refs i w" and "refs i w \<le> 3"
  shows "ledger E (w\<lparr>strm := (strm w)\<lparr>cmd_queue := cmd_queue (strm w) @ [i]\<rparr>\<rparr>)"
proof -
  have L: "ledger_of (io_ok E) (in_hand E w) (buf_status (strm w)) (unat (buf_num (strm w))) (cmd_queue (strm w))"
    using assms(1) by (simp add: ledger_def)
  have "entry_ok (io_ok E) (i \<in> set (in_hand E w)) (buf_status (strm w) ! i) (count_list (cmd_queue (strm w) @ [i]) i)"
    using ledger_facts(7) [OF assms(1,2)] assms(3-5) by (auto simp: entry_ok_def refs_def)
  then have "ledger_of (io_ok E) (in_hand E w) ((buf_status (strm w))[i := buf_status (strm w) ! i])
      (unat (buf_num (strm w))) (cmd_queue (strm w) @ [i])"
    using ledger_facts(4) [OF assms(1)] by (intro ledger_update [OF L assms(2)]) auto
  then show ?thesis
    by (intro ledger_obj [OF assms(1)]) (simp_all add: settings_def)
qed

lemma mm_stream_handle_rcvd_buf_ok:
  assumes "ledger E w" and "i < unat (buf_num (strm w))" and "count_list (cmd_queue (strm w)) i = 0"
    and "1 \<le> refs i w" and "refs i w \<le> 2"
  shows "ensures (mm_stream_handle_rcvd_buf E i has_cb w)
    (\<lambda>(_, w'). ledger E w' \<and> settings (strm w') = settings (strm w)
       \<and> (\<not> cmd_active (strm w) \<longrightarrow> cmd_queue (strm w') = cmd_queue (strm w)))"
proof -
  define w1 where "w1 = (if is_bundled (strm w) then snd (mm_stream_notify_channel E False i w) else w)"
  have w1: "strm w1 = strm w" "ledger E w1"
    using assms(1) notify_channel_ok by (simp_all add: w1_def)
  obtain b where b: "read_buf (Buf i) w1 = Some b" "unat (buf_idx b) = i"
    using read_good [OF w1(2)] assms(2) w1(1) by metis
  obtain w2 where w2: "(if is_linked (strm w1)
         then do {
           w \<leftarrow> on_status (unat (buf_idx b)) (\<lambda>st. st\<lparr>buf_refcnt := buf_refcnt st + 1\<rparr>) w1;
           Some (snd (mm_stream_notify_channel E True i w)) }
         else Some w1) = Some w2" "ledger E w2" "settings (strm w2) = settings (strm w)"
      "cmd_queue (strm w2) = cmd_queue (strm w)" "1 \<le> refs i w2" "refs i w2 \<le> 3"
  proof (cases "is_linked (strm w1)")
    case True
    have "refs i w1 = refs i w"
      using w1(1) by (simp add: refs_def)
    then obtain w2 where w2: "on_status i (\<lambda>st. st\<lparr>buf_refcnt := buf_refcnt st + 1\<rparr>) w1 = Some w2"
        "ledger E w2" "settings (strm w2) = settings (strm w)" "cmd_queue (strm w2) = cmd_queue (strm w)"
        "refs i w2 = refs i w + 1"
      using add_ref_ok [OF w1(2), of i] assms w1(1) by (auto elim!: ensuresE)
    show thesis
      by (rule that [of "snd (mm_stream_notify_channel E True i w2)"])
        (use True w2 b(2) assms in \<open>simp_all add: refs_def\<close>)
  next
    case False
    then show thesis
      using that [of w1] w1 assms by (simp add: refs_def)
  qed
  note same = settings_fields [OF w2(3)]
  show ?thesis
  proof (cases "has_cb \<and> cmd_active (strm w2)")
    case True
    define w3 where "w3 = snd (kcall E Malloc w2)"
    have w3: "ledger E w3" "strm w3 = strm w2"
      using w2(2) by (simp_all add: w3_def)
    then have "ledger E (w3\<lparr>strm := (strm w3)\<lparr>cmd_queue := cmd_queue (strm w3) @ [i]\<rparr>\<rparr>)"
      using assms(2,3) w2 same by (intro enqueue_cmd_ok) (simp_all add: refs_def)
    moreover have k: "kcall E Malloc w2 = (rc_of E ((hdl w2, Malloc) # hist w2), w3)"
      by (simp add: prod_eq_iff w3_def)
    have "mm_stream_handle_rcvd_buf E i has_cb w = Some ((),
        if rc_of E ((hdl w2, Malloc) # hist w2) \<noteq> 0
        then w3\<lparr>strm := (strm w3)\<lparr>cmd_queue := cmd_queue (strm w3) @ [i]\<rparr>\<rparr> else w3)"
      unfolding mm_stream_handle_rcvd_buf_def w1_def [symmetric] Let_def bind.bind_lunit b(1) w2(1)
      using True by (simp add: k)
    moreover have "settings ((strm w3)\<lparr>cmd_queue := cmd_queue (strm w3) @ [i]\<rparr>) = settings (strm w3)"
      by (simp add: settings_def)
    ultimately show ?thesis
      using w3 w2(3) True same(6) by simp
  next
    case False
    have "mm_stream_handle_rcvd_buf E i has_cb w = Some ((), w2)"
      unfolding mm_stream_handle_rcvd_buf_def w1_def [symmetric] Let_def bind.bind_lunit b(1) w2(1)
      using False by auto
    then show ?thesis
      using w2 by simp
  qed
qed

lemma mm_stream_data_notify_ok:
  assumes "ledger E w" and "plain_stream (strm w)" and "kernel_ok E" and "has_async_cb (strm w)"
  shows "ensures (mm_stream_data_notify E w)
    (\<lambda>(_, w'). ledger E w' \<and> settings (strm w') = settings (strm w)
       \<and> (\<not> cmd_active (strm w) \<longrightarrow> cmd_queue (strm w') = cmd_queue (strm w)))"
proof (cases "state (strm w) = MM_STREAM_STATE_ACTIVE")
  case True
  obtain info where info: "stream_info (strm w) = Some info"
    using assms(2) by (auto simp: plain_stream_def)
  define n where "n = (if streaming_mode info = CAM_STREAMING_MODE_BATCH then 1
                     else ucast (num_planes (frame_offset (strm w))) :: uint8)"
  obtain rc r w1 where read: "mm_stream_read_msm_frame E n w = Some ((rc, r), w1)"
      "case r of
        None \<Rightarrow> rc <s 0 \<and> ledger E w1 \<and> settings (strm w1) = settings (strm w)
                 \<and> cmd_queue (strm w1) = cmd_queue (strm w)
      | Some i \<Rightarrow> taken E i w w1 \<and> (io_ok E \<longrightarrow> rc = 0)"
    using mm_stream_read_msm_frame_ok [OF assms(1,3), of n] by (auto elim!: ensuresE)
  have run: "mm_stream_data_notify E w = (if rc \<noteq> 0 then Some ((), w1)
     else do {
       idx \<leftarrow> r;
       b \<leftarrow> read_buf (Buf idx) w1;
       let i = unat (buf_idx b);
       let (has_cb, w) = notify_cbs E [0 ..< length (buf_cb (strm w1))] idx (False, w1);
       w \<leftarrow> on_status i (\<lambda>st. st\<lparr>in_kernel := False,
              buf_refcnt := buf_refcnt st + (if is_bundled (strm w) then 1 else 0)
                              + (if has_cb then 1 else 0)\<rparr>) w;
       mm_stream_handle_rcvd_buf E idx has_cb w })"
    using True read(1) by (simp add: mm_stream_data_notify_def info n_def [symmetric] Let_def)
  show ?thesis
  proof (cases "rc = 0")
    case False
    have "ledger E w1 \<and> settings (strm w1) = settings (strm w) \<and> cmd_queue (strm w1) = cmd_queue (strm w)"
    proof (cases r)
      case None
      then show ?thesis
        using read(2) by simp
    next
      case (Some i)
      then show ?thesis
        using read(2) False taken_ledger [of E i w w1] assms(1) by (auto simp: taken_def)
    qed
    then show ?thesis
      using False by (simp add: run)
  next
    case rc: True
    then obtain i where r: "r = Some i" and t: "taken E i w w1"
      using read(2) by (cases r) auto
    have t: "counted E w1" "good_bufs (strm w1)" "settings (strm w1) = settings (strm w)"
      "cmd_queue (strm w1) = cmd_queue (strm w)" "buf_status (strm w1) = buf_status (strm w)"
      "in_hand E w1 = remove1 i (in_hand E w)" "i \<in> set (in_hand E w)"
      using t by (simp_all only: taken_def simp_thms)
    have i: "i < unat (buf_num (strm w))" "i \<in> set (in_hand E w)"
      using t(7) ledger_facts(5) [OF assms(1)] by auto
    have same: "buf_num (strm w1) = buf_num (strm w)" "buf_cb (strm w1) = buf_cb (strm w)"
      "cmd_active (strm w1) = cmd_active (strm w)"
      using settings_fields [OF t(3)] by auto
    obtain b where b: "read_buf (Buf i) w1 = Some b" "unat (buf_idx b) = i"
      using t(2) i(1) same(1)
      by (auto simp: good_bufs_def read_buf_def array_of_def place_of_def split: option.splits)
    obtain has_cb w2 where w2: "notify_cbs E [0 ..< length (buf_cb (strm w1))] i (False, w1) = (has_cb, w2)"
      by fastforce
    have cbs: "cbs_ok (strm w1)"
      using assms(2) same by (simp add: plain_stream_def cbs_ok_def)
    have w2': "strm w2 = strm w1" "in_hand E w2 = in_hand E w1" "counted E w2" "has_cb"
      using notify_cbs_ok [OF cbs, where ks = "[0 ..< length (buf_cb (strm w1))]" and E = E and i = i and has_cb = False] w2 t(1) assms(4)
        has_async_index [of "strm w"] same by auto
    define st where "st = buf_status (strm w) ! i"
    have st: "in_kernel st" "buf_refcnt st = 0" "count_list (cmd_queue (strm w)) i = 0"
      using ledger_facts(7) [OF assms(1) i(1)] i(2) by (auto simp: entry_ok_def st_def)
    define st' where "st' = st\<lparr>in_kernel := False,
        buf_refcnt := buf_refcnt st + (if is_bundled (strm w2) then 1 else 0) + 1\<rparr>"
    have refs': "1 \<le> unat (buf_refcnt st')" "unat (buf_refcnt st') \<le> 2"
      using st(2) by (simp_all add: st'_def)
    define w3 where "w3 = w2\<lparr>strm := (strm w2)\<lparr>buf_status := (buf_status (strm w2))[i := st']\<rparr>\<rparr>"
    have len: "i < length (buf_status (strm w2))"
      using i(1) ledger_facts(1,2) [OF assms(1)] w2'(1) t(5) by simp
    have set_status: "on_status i (\<lambda>st. st\<lparr>in_kernel := False,
              buf_refcnt := buf_refcnt st + (if is_bundled (strm w2) then 1 else 0)
                              + (if has_cb then 1 else 0)\<rparr>) w2 = Some w3"
      using len w2'(1,4) t(5) by (simp add: on_status_eq w3_def st'_def st_def)
    have L: "ledger_of (io_ok E) (in_hand E w) (buf_status (strm w)) (unat (buf_num (strm w))) (cmd_queue (strm w))"
      using assms(1) by (simp add: ledger_def)
    have "entry_ok (io_ok E) False st' (count_list (cmd_queue (strm w)) i)"
      using refs' st(3) by (auto simp: entry_ok_def st'_def)
    then have "ledger_of (io_ok E) (remove1 i (in_hand E w)) ((buf_status (strm w))[i := st'])
        (unat (buf_num (strm w))) (cmd_queue (strm w))"
      using ledger_facts(4) [OF assms(1)] by (intro ledger_update [OF L i(1)]) auto
    moreover have "counted E w3" "in_hand E w3 = remove1 i (in_hand E w)"
      using w2'(1-3) t(6) by (simp_all add: w3_def counted_def)
    moreover have "good_bufs (strm w3)" "buf_status (strm w3) = (buf_status (strm w))[i := st']"
        "cmd_queue (strm w3) = cmd_queue (strm w)" "buf_num (strm w3) = buf_num (strm w)"
      using w2'(1) t(2,4,5) same(1) by (simp_all add: w3_def)
    ultimately have "ledger E w3"
      by (simp only: ledger_def simp_thms)
    moreover have w3: "settings (strm w3) = settings (strm w)" "cmd_queue (strm w3) = cmd_queue (strm w)"
        "refs i w3 = unat (buf_refcnt st')" "buf_num (strm w3) = buf_num (strm w)"
        "cmd_active (strm w3) = cmd_active (strm w)"
    proof -
      show "settings (strm w3) = settings (strm w)"
        using w2'(1) by (simp add: w3_def t(3) [symmetric]) (simp add: settings_def)
    qed (use w2'(1) t(4) len same in \<open>simp_all add: w3_def refs_def\<close>)
    ultimately have "ensures (mm_stream_handle_rcvd_buf E i has_cb w3)
      (\<lambda>(_, w'). ledger E w' \<and> settings (strm w') = settings (strm w3)
         \<and> (\<not> cmd_active (strm w3) \<longrightarrow> cmd_queue (strm w') = cmd_queue (strm w3)))"
      using i(1) st(3) refs' by (intro mm_stream_handle_rcvd_buf_ok) simp_all
    then show ?thesis
      using rc r b w2 set_status w3 by (simp add: run)
  qed
next
  case False
  then show ?thesis
    using assms by (simp add: mm_stream_data_notify_def)
qed

end
