(* ===== verification/MmStreamRuns.thy ===== *)
theory MmStreamRuns
  imports MmStreamInvariants
begin

text \<open>
  The operations of a stream in sequence, the contract of its environment, and the invariant
  of every state of the state machine.
\<close>

section \<open>Operations and contract\<close>

text \<open>
  An event of the channel, a frame on the poll thread, a turn of the command thread, a
  mapping of another thread, a callback registered, the channel bundling or linking the
  stream.
\<close>

datatype stream_op =
    Event mm_stream_evt
  | Data_notify
  | Cmd_turn
  | Map_op map_request
  | Reg_buf_cb mm_stream_data_cb
  | Bundle
  | Link bool

fun run_op :: "stream_env \<Rightarrow> stream_op \<Rightarrow> stream_world \<Rightarrow> int32 result" where
  "run_op E (Event evt) w = mm_stream_fsm_fn E evt w"
| "run_op E Data_notify w = do { (_, w) \<leftarrow> mm_stream_data_notify E w; Some (0, w) }"
| "run_op E Cmd_turn w = (if cmd_active (strm w) then cmd_thread_turn E w else Some (0, w))"
| "run_op E (Map_op m) w = map_op E m w"
| "run_op E (Reg_buf_cb v) w = Some (mm_stream_reg_buf_cb v w)"
| "run_op E Bundle w = Some (0, on_strm (\<lambda>s. s\<lparr>is_bundled := True\<rparr>) w)"
| "run_op E (Link b) w = Some (0, on_strm (\<lambda>s. s\<lparr>is_linked := b\<rparr>) w)"

fun map_valid :: "map_request \<Rightarrow> bool" where
  "map_valid (Map ty i) = (unat i < CAM_MAX_NUM_BUFS_PER_STREAM)"
| "map_valid (Map_bundle ty n) = (n \<le> CAM_MAX_NUM_BUFS_PER_STREAM)"
| "map_valid (Unmap ty i) = (unat i < CAM_MAX_NUM_BUFS_PER_STREAM)"

text \<open>
  What the users of a stream owe it: valid indices, frames that are not batches, a callback for
  the frames, which stays, and that a buffer is given back by who has a reference of it. A
  reference is the user's if it is not the command thread's.
\<close>

fun op_ok :: "stream_op \<Rightarrow> mm_stream_obj \<Rightarrow> bool" where
  "op_ok (Event (MM_STREAM_EVT_QBUF r)) s =
     (state s = MM_STREAM_STATE_ACTIVE \<longrightarrow>
       (case r of
          Buf i \<Rightarrow> i < unat (buf_num s)
            \<and> (buf_refcnt (buf_status s ! i) = 0
               \<or> count_list (cmd_queue s) i < unat (buf_refcnt (buf_status s ! i)))
        | Plane i \<Rightarrow> False))"
| "op_ok (Event (MM_STREAM_EVT_CANCEL_BUF i)) s = (unat i < CAM_MAX_NUM_BUFS_PER_STREAM)"
| "op_ok (Event (MM_STREAM_EVT_SET_FMT c)) s =
     (streaming_mode (cfg_stream_info c) \<noteq> CAM_STREAMING_MODE_BATCH \<and> cfg_stream_cb c)"
| "op_ok (Map_op m) s = map_valid m"
| "op_ok (Reg_buf_cb v) s = (cb_count v <s 0)"
| "op_ok _ s = True"

text \<open>The upper layer delivers as many buffers as it says, at most 64, each with its index.\<close>

definition upper_ok :: "stream_env \<Rightarrow> bool" where
  "upper_ok E \<longleftrightarrow> (\<forall>cs. \<forall>m \<in> set (maps_of E cs). map_valid m)
     \<and> (\<forall>h fo cs. let c = (h, Get_bufs fo) # cs; a = bufs_of E c in
          rc_of E c = 0 \<longrightarrow>
            (\<exists>bs. got_bufs a = Some bs \<and> length bs = unat (got_num a) \<and> length bs \<le> 64
               \<and> length bs \<le> length (got_reg_flags a)
               \<and> (\<forall>i < length bs. unat (buf_idx (bs ! i)) = i
                    \<and> buf_type (bs ! i) = CAM_STREAM_BUF_TYPE_MPLANE)))"

lemma upper_okD:
  assumes "upper_ok E" and "rc_of E ((h, Get_bufs fo) # cs) = 0"
  obtains bs where "got_bufs (bufs_of E ((h, Get_bufs fo) # cs)) = Some bs"
    "length bs = unat (got_num (bufs_of E ((h, Get_bufs fo) # cs)))" "length bs \<le> 64"
    "length bs \<le> length (got_reg_flags (bufs_of E ((h, Get_bufs fo) # cs)))"
    "\<forall>i < length bs. unat (buf_idx (bs ! i)) = i \<and> buf_type (bs ! i) = CAM_STREAM_BUF_TYPE_MPLANE"
  using assms unfolding upper_ok_def Let_def by blast

definition env_ok :: "stream_env \<Rightarrow> bool" where
  "env_ok E \<longleftrightarrow> kernel_ok E \<and> upper_ok E \<and> stream_malloc_ok E"

section \<open>The invariant\<close>

definition settled_stream :: "mm_stream_obj \<Rightarrow> bool" where
  "settled_stream s \<longleftrightarrow> \<not> cmd_active s \<and> cmd_queue s = []"

definition configured :: "mm_stream_obj \<Rightarrow> bool" where
  "configured s \<longleftrightarrow> plain_stream s \<and> has_async_cb s"

definition allocated :: "mm_stream_obj \<Rightarrow> bool" where
  "allocated s \<longleftrightarrow> good_bufs s \<and> unat (buf_num s) \<le> 64"

definition stream_inv :: "stream_env \<Rightarrow> stream_world \<Rightarrow> bool" where
  "stream_inv E w \<longleftrightarrow>
    (let s = strm w in length (buf_status s) = 64 \<and> cbs_ok s
     \<and> (case state s of
          MM_STREAM_STATE_NOTUSED \<Rightarrow> settled_stream s
        | MM_STREAM_STATE_INITED \<Rightarrow> has_slot w \<and> settled_stream s
        | MM_STREAM_STATE_ACQUIRED \<Rightarrow> has_slot w \<and> settled_stream s
        | MM_STREAM_STATE_CFG \<Rightarrow> has_slot w \<and> settled_stream s \<and> configured s
        | MM_STREAM_STATE_BUFFED \<Rightarrow> has_slot w \<and> settled_stream s \<and> configured s \<and> allocated s
        | MM_STREAM_STATE_REG \<Rightarrow> settled_stream s \<and> configured s \<and> ledger E w
        | MM_STREAM_STATE_ACTIVE \<Rightarrow> cmd_active s \<and> configured s \<and> ledger E w))"

section \<open>Mapping\<close>

text \<open>Steps that only change the record of the mappings.\<close>

definition remapped :: "stream_env \<Rightarrow> stream_world \<Rightarrow> stream_world \<Rightarrow> bool" where
  "remapped E w w' \<longleftrightarrow> (\<exists>sts. strm w' = (strm w)\<lparr>buf_status := sts\<rparr>
       \<and> map (\<lambda>st. st\<lparr>map_status := 0\<rparr>) sts = map (\<lambda>st. st\<lparr>map_status := 0\<rparr>) (buf_status (strm w)))
     \<and> in_hand E w' = in_hand E w \<and> has_slot w' = has_slot w \<and> polled w' = polled w
     \<and> (unpolled (hdl w) (hist w) \<longrightarrow> unpolled (hdl w) (hist w'))"

lemma remapped_refl [simp]: "remapped E w w"
  unfolding remapped_def by (intro conjI exI [of _ "buf_status (strm w)"]) simp_all

lemma remapped_trans:
  assumes "remapped E u v" and "remapped E v w"
  shows "remapped E u w"
proof -
  obtain a where a: "strm v = (strm u)\<lparr>buf_status := a\<rparr>"
      "map (\<lambda>st. st\<lparr>map_status := 0\<rparr>) a = map (\<lambda>st. st\<lparr>map_status := 0\<rparr>) (buf_status (strm u))"
    using assms(1) unfolding remapped_def by blast
  obtain b where b: "strm w = (strm v)\<lparr>buf_status := b\<rparr>"
      "map (\<lambda>st. st\<lparr>map_status := 0\<rparr>) b = map (\<lambda>st. st\<lparr>map_status := 0\<rparr>) (buf_status (strm v))"
    using assms(2) unfolding remapped_def by blast
  have "strm w = (strm u)\<lparr>buf_status := b\<rparr>"
      "map (\<lambda>st. st\<lparr>map_status := 0\<rparr>) b = map (\<lambda>st. st\<lparr>map_status := 0\<rparr>) (buf_status (strm u))"
    using a b by simp_all
  moreover have "hdl v = hdl u"
    using a by simp
  ultimately show ?thesis
    using assms unfolding remapped_def by metis
qed

lemma remapped_kcall: "\<not> moves c \<Longrightarrow> remapped E w (snd (kcall E c w))"
proof -
  assume "\<not> moves c"
  then show ?thesis
    unfolding remapped_def
    by (intro conjI exI [of _ "buf_status (strm w)"])
      (simp_all add: in_hand_def has_slot_def unpolled_other del: handed.simps unpolled.simps)
qed

lemma remapped_status:
  assumes "i < length (buf_status (strm w))"
  shows "\<exists>w'. on_status i (\<lambda>st. st\<lparr>map_status := v\<rparr>) w = Some w' \<and> remapped E w w'"
proof -
  have "map (\<lambda>st. st\<lparr>map_status := 0\<rparr>) ((buf_status (strm w))[i := (buf_status (strm w) ! i)\<lparr>map_status := v\<rparr>])
      = map (\<lambda>st. st\<lparr>map_status := 0\<rparr>) (buf_status (strm w))"
    using assms by (simp add: map_update list_update_same_conv)
  then show ?thesis
    using assms unfolding remapped_def by (auto simp: on_status_eq)
qed

lemma remapped_entry:
  assumes "map (\<lambda>st. st\<lparr>map_status := 0\<rparr>) sts = map (\<lambda>st. st\<lparr>map_status := 0\<rparr>) sts'" and "i < length sts'"
  shows "length sts = length sts'" "buf_refcnt (sts ! i) = buf_refcnt (sts' ! i)"
    "in_kernel (sts ! i) = in_kernel (sts' ! i)" "initial_reg_flag (sts ! i) = initial_reg_flag (sts' ! i)"
proof -
  show len: "length sts = length sts'"
    using assms(1) map_eq_imp_length_eq by auto
  have "(sts ! i)\<lparr>map_status := 0\<rparr> = (sts' ! i)\<lparr>map_status := 0\<rparr>"
    using assms len by (metis (no_types, lifting) nth_map)
  from arg_cong [OF this, of buf_refcnt] arg_cong [OF this, of in_kernel]
    arg_cong [OF this, of initial_reg_flag]
  show "buf_refcnt (sts ! i) = buf_refcnt (sts' ! i)" "in_kernel (sts ! i) = in_kernel (sts' ! i)"
    "initial_reg_flag (sts ! i) = initial_reg_flag (sts' ! i)"
    by simp_all
qed

lemma remapped_object:
  assumes "remapped E w w'"
  shows "settings (strm w') = settings (strm w)" "bufs (strm w') = bufs (strm w)"
    "cmd_queue (strm w') = cmd_queue (strm w)" "queued_buffer_count (strm w') = queued_buffer_count (strm w)"
    "length (buf_status (strm w')) = length (buf_status (strm w))"
  using assms map_eq_imp_length_eq unfolding remapped_def settings_def by auto

lemma remapped_ledger:
  assumes "remapped E w w'" and "ledger E w"
  shows "ledger E w'"
proof -
  obtain sts where sts: "strm w' = (strm w)\<lparr>buf_status := sts\<rparr>"
      "map (\<lambda>st. st\<lparr>map_status := 0\<rparr>) sts = map (\<lambda>st. st\<lparr>map_status := 0\<rparr>) (buf_status (strm w))"
      "in_hand E w' = in_hand E w" "has_slot w' = has_slot w" "polled w' = polled w"
      "unpolled (hdl w) (hist w) \<longrightarrow> unpolled (hdl w) (hist w')"
    using assms(1) unfolding remapped_def by blast
  have len: "length sts = 64"
    using sts(2) ledger_facts(1) [OF assms(2)] map_eq_imp_length_eq by metis
  have "entry_ok (io_ok E) (i \<in> set (in_hand E w)) (sts ! i) (count_list (cmd_queue (strm w)) i)"
    if "i < unat (buf_num (strm w))" for i
    using ledger_facts(7) [OF assms(2) that] remapped_entry [OF sts(2), of i]
      ledger_facts(1,2) [OF assms(2)] that
    by (simp add: entry_ok_def)
  then have "ledger_of (io_ok E) (in_hand E w) sts (unat (buf_num (strm w))) (cmd_queue (strm w))"
    using assms(2) len by (simp add: ledger_def ledger_of_def)
  moreover have "counted E w'"
    using assms(2) sts by (auto simp: ledger_def counted_def watched_or_unpolled_def)
  ultimately show ?thesis
    using assms(2) sts(1,3) by (simp add: ledger_def)
qed

lemma map_op_ok:
  assumes "map_valid m" and "length (buf_status (strm w)) = 64"
  shows "ensures (map_op E m w) (\<lambda>(rc, w'). remapped E w w')"
proof -
  define w1 where "w1 = snd (kcall E (Sendmsg m) w)"
  define rc where "rc = fst (kcall E (Sendmsg m) w)"
  have k: "kcall E (Sendmsg m) w = (rc, w1)"
    by (simp add: prod_eq_iff rc_def w1_def)
  have w1: "remapped E w w1" "length (buf_status (strm w1)) = 64"
    using assms(2) remapped_kcall [of "Sendmsg m" E w] by (simp_all add: w1_def)
  have status: "\<exists>w2. on_status i (\<lambda>st. st\<lparr>map_status := v\<rparr>) w1 = Some w2 \<and> remapped E w w2"
    if "i < 64" for i v
    using remapped_status [of i w1 v E] remapped_trans [OF w1(1)] w1(2) that by auto
  have statuses: "ensures (map_statuses is v w1) (\<lambda>w2. remapped E w w2)" if "\<forall>i \<in> set is. i < 64" for "is" v
  proof -
    have "ensures (map_statuses is v u) (\<lambda>w2. remapped E w w2)"
      if "remapped E w u" "length (buf_status (strm u)) = 64" "\<forall>i \<in> set is. i < 64" for u
      using that
    proof (induction "is" arbitrary: u)
      case (Cons i "is")
      obtain u' where "on_status i (\<lambda>st. st\<lparr>map_status := v\<rparr>) u = Some u'" "remapped E u u'"
        using remapped_status [of i u v E] Cons.prems by auto
      then show ?case
        using Cons.IH [of u'] Cons.prems remapped_trans remapped_object(5) by auto
    qed simp
    then show ?thesis
      using w1 that by blast
  qed
  show ?thesis
  proof (cases m)
    case (Map ty i)
    obtain w2 where "on_status (unat i) (\<lambda>st. st\<lparr>map_status := (if rc <s 0 then -1 else 1)\<rparr>) w1 = Some w2"
        "remapped E w w2"
      using status [of "unat i"] assms(1) Map by (auto simp: CAM_MAX_NUM_BUFS_PER_STREAM_def)
    then show ?thesis
      using k w1 Map by (simp add: mm_stream_map_buf_def)
  next
    case (Map_bundle ty n)
    have "ensures (map_statuses [0 ..< n] (if rc <s 0 then -1 else 1) w1) (\<lambda>w2. remapped E w w2)"
      using statuses [of "[0 ..< n]"] assms(1) Map_bundle by (auto simp: CAM_MAX_NUM_BUFS_PER_STREAM_def)
    then show ?thesis
      using k w1 assms(1) Map_bundle by (auto simp: mm_stream_map_bufs_def)
  next
    case (Unmap ty i)
    obtain w2 where "on_status (unat i) (\<lambda>st. st\<lparr>map_status := 0\<rparr>) w1 = Some w2" "remapped E w w2"
      using status [of "unat i"] assms(1) Unmap by (auto simp: CAM_MAX_NUM_BUFS_PER_STREAM_def)
    then show ?thesis
      using k Unmap by (simp add: mm_stream_unmap_buf_def)
  qed
qed

lemma map_ops_ok:
  "\<forall>m \<in> set ms. map_valid m \<Longrightarrow> length (buf_status (strm w)) = 64 \<Longrightarrow>
    ensures (map_ops E ms w) (\<lambda>w'. remapped E w w')"
proof (induction ms arbitrary: w)
  case (Cons m ms)
  obtain rc w1 where w1: "map_op E m w = Some (rc, w1)" "remapped E w w1"
    using map_op_ok [of m w E] Cons.prems by (auto elim!: ensuresE)
  then have "ensures (map_ops E ms w1) (\<lambda>w'. remapped E w1 w')"
    using Cons.IH [of w1] Cons.prems remapped_object(5) [OF w1(2)] by simp
  then show ?case
    using w1 remapped_trans [OF w1(2)] by (auto elim!: ensures_mono)
qed simp

lemma upcall_ok:
  assumes "upper_ok E" and "\<not> moves c" and "length (buf_status (strm w)) = 64"
  shows "ensures (upcall E c w) (\<lambda>(rc, w'). remapped E w w' \<and> rc = rc_of E ((hdl w, c) # hist w))"
proof -
  define w1 where "w1 = snd (kcall E c w)"
  have k: "kcall E c w = (rc_of E ((hdl w, c) # hist w), w1)"
    by (simp add: prod_eq_iff w1_def)
  have "remapped E w w1" "length (buf_status (strm w1)) = 64"
    using assms remapped_kcall [of c E w] by (simp_all add: w1_def)
  then show ?thesis
    using map_ops_ok [of "maps_of E (hist w1)" w1 E] assms(1) remapped_trans
    by (auto simp: upcall_def k upper_ok_def elim!: ensures_mono)
qed

section \<open>Allocation and registration\<close>

text \<open>What allocation may change: the buffers, their number, their status.\<close>

definition same_stream_setup :: "mm_stream_obj \<Rightarrow> mm_stream_obj \<Rightarrow> bool" where
  "same_stream_setup s t \<longleftrightarrow> my_handle s = my_handle t \<and> fd s = fd t \<and> buf_cb s = buf_cb t
     \<and> cmd_active s = cmd_active t \<and> cmd_queue s = cmd_queue t \<and> state s = state t
     \<and> (stream_info s = None) = (stream_info t = None) \<and> is_batch s = is_batch t
     \<and> length (buf_status s) = length (buf_status t)"

lemma same_stream_setup_refl [simp]: "same_stream_setup s s"
  by (simp add: same_stream_setup_def)

lemma same_stream_setup_trans: "same_stream_setup s t \<Longrightarrow> same_stream_setup t u \<Longrightarrow> same_stream_setup s u"
  by (simp add: same_stream_setup_def)

lemma same_stream_setup_settings:
  assumes "settings s = settings t" and "cmd_queue s = cmd_queue t"
    and "length (buf_status s) = length (buf_status t)"
  shows "same_stream_setup s t"
  using assms settings_fields [OF assms(1)] by (simp add: same_stream_setup_def)

lemma same_stream_setup_simps:
  assumes "same_stream_setup s t"
  shows "settled_stream s = settled_stream t" "configured s = configured t" "cbs_ok s = cbs_ok t"
    "plain_stream s = plain_stream t" "has_async_cb s = has_async_cb t"
  using assms by (simp_all add: same_stream_setup_def settled_stream_def configured_def plain_stream_def cbs_ok_def
      has_async_cb_def)

lemma remapped_setup:
  assumes "remapped E w w'"
  shows "same_stream_setup (strm w') (strm w) \<and> has_slot w' = has_slot w"
proof
  note same = remapped_object [OF assms]
  show "same_stream_setup (strm w') (strm w)"
    by (rule same_stream_setup_settings [OF same(1,3,5)])
  show "has_slot w' = has_slot w"
    using assms unfolding remapped_def by blast
qed

lemma mm_stream_deinit_bufs_ok:
  assumes "upper_ok E" and "length (buf_status (strm w)) = 64"
  shows "ensures (mm_stream_deinit_bufs E w)
    (\<lambda>(rc, w'). same_stream_setup (strm w') (strm w) \<and> has_slot w' = has_slot w \<and> bufs (strm w') = None)"
proof (cases "bufs (strm w) = None")
  case True
  then show ?thesis
    by (simp add: mm_stream_deinit_bufs_def)
next
  case False
  obtain rc w1 where w1: "upcall E Put_bufs w = Some (rc, w1)" "remapped E w w1"
    using upcall_ok [OF assms(1), of Put_bufs w] assms(2) by (auto elim!: ensuresE)
  then show ?thesis
    using False remapped_setup [OF w1(2)]
    by (simp add: mm_stream_deinit_bufs_def same_stream_setup_def is_batch_def)
qed

lemma init_statuses_ok:
  "good_bufs (strm w) \<Longrightarrow> unat (buf_num (strm w)) \<le> 64 \<Longrightarrow> length (buf_status (strm w)) = 64 \<Longrightarrow>
    \<forall>i \<in> set is. i < unat (buf_num (strm w)) \<and> i < length flags \<Longrightarrow>
    ensures (init_statuses is flags info w)
      (\<lambda>w'. same_stream_setup (strm w') (strm w) \<and> has_slot w' = has_slot w \<and> good_bufs (strm w')
         \<and> buf_num (strm w') = buf_num (strm w) \<and> stream_info (strm w') = stream_info (strm w))"
proof (induction "is" arbitrary: w)
  case (Cons i "is")
  obtain bs where bs: "bufs (strm w) = Some bs" "length bs = unat (buf_num (strm w))"
    using Cons.prems(1) by (auto simp: good_bufs_def split: option.splits)
  define f where "f = init_buf (hdl w) info (flags ! i)"
  define s1 where "s1 = (strm w)\<lparr>buf_status := (buf_status (strm w))[i := (buf_status (strm w) ! i)\<lparr>initial_reg_flag := flags ! i\<rparr>]\<rparr>"
  define w2 where "w2 = w\<lparr>strm := s1\<lparr>bufs := Some (bs[i := f (bs ! i)])\<rparr>\<rparr>"
  have f: "buf_idx (f b) = buf_idx b" "buf_type (f b) = buf_type b" for b
    by (simp_all add: f_def init_buf_def Let_def)
  have step: "init_statuses (i # is) flags info w = init_statuses is flags info w2"
    using Cons.prems bs
    by (simp add: on_status_eq write_buf_def array_of_def place_of_def s1_def w2_def f_def Let_def)
  have "good_bufs (strm w2)"
    using Cons.prems(1,4) bs f by (auto simp: good_bufs_def w2_def s1_def nth_list_update)
  moreover have "same_stream_setup (strm w2) (strm w)" "has_slot w2 = has_slot w" "buf_num (strm w2) = buf_num (strm w)"
      "stream_info (strm w2) = stream_info (strm w)"
    by (simp_all add: same_stream_setup_def is_batch_def w2_def s1_def)
  ultimately show ?case
    unfolding step using Cons.IH [of w2] Cons.prems same_stream_setup_trans
    by (auto simp: same_stream_setup_def elim!: ensures_mono)
qed simp

lemma mm_stream_init_bufs_ok:
  assumes "upper_ok E" and "length (buf_status (strm w)) = 64" and "configured (strm w)"
  shows "ensures (mm_stream_init_bufs E w)
    (\<lambda>(rc, w'). same_stream_setup (strm w') (strm w) \<and> has_slot w' = has_slot w \<and> (rc = 0 \<longrightarrow> allocated (strm w')))"
proof -
  obtain rc0 w0 where w0: "(if bufs (strm w) \<noteq> None then mm_stream_deinit_bufs E w else Some (0, w)) = Some (rc0, w0)"
      "same_stream_setup (strm w0) (strm w)" "has_slot w0 = has_slot w"
    using mm_stream_deinit_bufs_ok [OF assms(1,2)] by (cases "bufs (strm w)") (auto elim!: ensuresE)
  define ask where "ask = Get_bufs (frame_offset (strm w0))"
  define a where "a = bufs_of E ((hdl w0, ask) # hist w0)"
  obtain rc w1 where w1: "upcall E ask w0 = Some (rc, w1)" "remapped E w0 w1"
      "rc = rc_of E ((hdl w0, ask) # hist w0)"
    using upcall_ok [OF assms(1), of ask w0] w0(2) assms(2)
    by (auto simp: ask_def same_stream_setup_def elim!: ensuresE)
  define w2 where "w2 = w1\<lparr>strm := (strm w1)\<lparr>buf_num := got_num a, bufs := got_bufs a\<rparr>\<rparr>"
  have w2: "same_stream_setup (strm w2) (strm w)" "has_slot w2 = has_slot w"
    using remapped_setup [OF w1(2)] w0(2,3)
    by (auto simp: w2_def same_stream_setup_def is_batch_def)
  have run: "mm_stream_init_bufs E w = (if rc \<noteq> 0 then Some (rc, w2)
     else do {
       info \<leftarrow> stream_info (strm w2);
       w \<leftarrow> init_statuses [0 ..< unat (buf_num (strm w2))] (got_reg_flags a) info w2;
       w \<leftarrow> (if is_batch (strm w) then init_batch (got_plane_buf a) info w else Some w);
       Some (rc, on_strm (\<lambda>s. s\<lparr>stream_info := Some (info\<lparr>num_bufs := ucast (buf_num s)\<rparr>)\<rparr>) w) })"
    using w0(1) w1(1)
    by (simp add: mm_stream_init_bufs_def ask_def [symmetric] a_def [symmetric] w2_def Let_def
        cong: if_cong)
  show ?thesis
  proof (cases "rc = 0")
    case False
    then show ?thesis
      using w2 by (simp add: run)
  next
    case True
    then obtain bs where bs: "got_bufs a = Some bs" "length bs = unat (got_num a)" "length bs \<le> 64"
        "length bs \<le> length (got_reg_flags a)"
        "\<forall>i < length bs. unat (buf_idx (bs ! i)) = i \<and> buf_type (bs ! i) = CAM_STREAM_BUF_TYPE_MPLANE"
      using upper_okD [OF assms(1)] w1(3) unfolding a_def ask_def by metis
    have plain_stream: "plain_stream (strm w2)"
      using assms(3) same_stream_setup_simps [OF w2(1)] by (simp add: configured_def)
    then obtain info where info: "stream_info (strm w2) = Some info"
      by (auto simp: plain_stream_def)
    have "good_bufs (strm w2)" "unat (buf_num (strm w2)) \<le> 64" "length (buf_status (strm w2)) = 64"
      using bs w2(1) assms(2) by (simp_all add: good_bufs_def w2_def same_stream_setup_def)
    moreover have "\<forall>i \<in> set [0 ..< unat (buf_num (strm w2))].
        i < unat (buf_num (strm w2)) \<and> i < length (got_reg_flags a)"
      using bs by (auto simp: w2_def)
    ultimately obtain w3 where w3: "init_statuses [0 ..< unat (buf_num (strm w2))] (got_reg_flags a) info w2 = Some w3"
        "same_stream_setup (strm w3) (strm w2)" "has_slot w3 = has_slot w2" "good_bufs (strm w3)"
        "buf_num (strm w3) = buf_num (strm w2)"
      using init_statuses_ok [of w2 "[0 ..< unat (buf_num (strm w2))]" "got_reg_flags a" info]
      by (auto elim!: ensuresE)
    have "\<not> is_batch (strm w3)"
      using plain_stream w3(2) by (simp add: plain_stream_def same_stream_setup_def)
    moreover have "same_stream_setup (strm w3) (strm w)"
      using w3(2) w2(1) by (rule same_stream_setup_trans)
    ultimately show ?thesis
      using True w2 w3 info bs(2,3) same_stream_setup_trans
      by (simp add: run allocated_def same_stream_setup_def is_batch_def w2_def)
  qed
qed

lemma ledger_extend:
  assumes "ledger_of io H sts k []" and "k < 64" and "entry_ok io (k \<in> set H') st 0"
    and "distinct H'" and "set H' - {k} = set H"
  shows "ledger_of io H' (sts[k := st]) (Suc k) []"
proof -
  have same: "i \<in> set H' \<longleftrightarrow> i \<in> set H" if "i < k" for i
    using assms(5) that by auto
  have "set H' \<subseteq> {..<Suc k}"
    using assms(1,5) by (auto simp: ledger_of_def less_Suc_eq)
  moreover have "entry_ok io (i \<in> set H') (sts[k := st] ! i) 0" if "i < Suc k" for i
    using that assms(1,2,3) same [of i] by (cases "i = k") (simp_all add: ledger_of_def)
  ultimately show ?thesis
    using assms(1,2,4) by (simp add: ledger_of_def)
qed

lemma ledger_of_length: "ledger_of io H sts k cmds \<Longrightarrow> length H \<le> k \<and> distinct H \<and> k \<notin> set H"
  using card_mono [of "{..<k}" "set H"] by (auto simp: ledger_of_def distinct_card)

lemma reg_bufs_ok:
  assumes "counted E w" and "allocated (strm w)" and "cmd_queue (strm w) = []"
    and "ledger_of (io_ok E) (in_hand E w) (buf_status (strm w)) k []"
    and "k \<le> unat (buf_num (strm w))"
  shows "ensures (reg_bufs E [k ..< unat (buf_num (strm w))] w)
    (\<lambda>(rc, w'). same_stream_setup (strm w') (strm w) \<and> has_slot w' \<and> allocated (strm w') \<and> (rc = 0 \<longrightarrow> ledger E w'))"
  using assms
proof (induction "unat (buf_num (strm w)) - k" arbitrary: w k)
  case 0
  then show ?case
    by (simp add: ledger_def allocated_def counted_def)
next
  case (Suc d)
  define n where "n = unat (buf_num (strm w))"
  have k: "k < n" "n \<le> 64" "[k ..< n] = k # [Suc k ..< n]"
    using Suc.hyps(2) Suc.prems(2) by (auto simp: n_def allocated_def upt_conv_Cons)
  have len: "length (buf_status (strm w)) = 64"
    using Suc.prems(4) by (simp add: ledger_of_def)
  define st where "st = buf_status (strm w) ! k"
  obtain b where b: "read_buf (Buf k) w = Some b" "unat (buf_idx b) = k" "buf_type b = CAM_STREAM_BUF_TYPE_MPLANE"
    using Suc.prems(2) k(1)
    by (auto simp: allocated_def good_bufs_def read_buf_def array_of_def place_of_def n_def split: option.splits)
  have hand: "length (in_hand E w) < 64" "distinct (in_hand E w)" "k \<notin> set (in_hand E w)"
    using ledger_of_length [OF Suc.prems(4)] k by auto
  show ?case
  proof (cases "initial_reg_flag st = 0")
    case True
    define w1 where "w1 = w\<lparr>strm := (strm w)\<lparr>buf_status := (buf_status (strm w))[k := st\<lparr>buf_refcnt := 1, in_kernel := False\<rparr>]\<rparr>\<rparr>"
    have run: "reg_bufs E [k ..< n] w = reg_bufs E [Suc k ..< n] w1"
      using True k len by (simp add: status_of_def on_status_eq st_def w1_def)
    have same: "same_stream_setup (strm w1) (strm w)" "buf_num (strm w1) = buf_num (strm w)"
      by (simp_all add: w1_def same_stream_setup_def is_batch_def)
    have "ledger_of (io_ok E) (in_hand E w1) (buf_status (strm w1)) (Suc k) []"
      using ledger_extend [OF Suc.prems(4), of "in_hand E w" "st\<lparr>buf_refcnt := 1, in_kernel := False\<rparr>"] hand k
      by (simp add: w1_def entry_ok_def)
    moreover have "counted E w1" "allocated (strm w1)" "cmd_queue (strm w1) = []"
      using Suc.prems(1-3) by (simp_all add: w1_def counted_def allocated_def)
    ultimately have "ensures (reg_bufs E [Suc k ..< unat (buf_num (strm w1))] w1)
      (\<lambda>(rc, w'). same_stream_setup (strm w') (strm w1) \<and> has_slot w' \<and> allocated (strm w') \<and> (rc = 0 \<longrightarrow> ledger E w'))"
      using Suc.hyps(2) k same(2) by (intro Suc.hyps(1)) (simp_all add: n_def)
    then show ?thesis
      using same same_stream_setup_trans [OF _ same(1)]
      by (auto simp: n_def [symmetric] run elim!: ensures_mono)
  next
    case False
    obtain rc w1 where w1: "mm_stream_qbuf E b w = Some (rc, w1)" "queued_ok E b w (rc, w1)"
      using mm_stream_qbuf_ok [OF Suc.prems(1) b(3) hand(1)] by (auto elim!: ensuresE)
    obtain q where q: "strm w1 = (strm w)\<lparr>queued_buffer_count := q\<rparr>" "counted E w1"
        "in_hand E w1 = (if rc <s 0 then in_hand E w else in_hand E w @ [k])"
      using queued_okE [OF w1(2)] unfolding b(2) by blast
    have same1: "same_stream_setup (strm w1) (strm w)" "buf_num (strm w1) = buf_num (strm w)" "allocated (strm w1)"
        "has_slot w1"
      using Suc.prems(2) q(2) by (simp_all add: q(1) same_stream_setup_def is_batch_def allocated_def counted_def)
    show ?thesis
    proof (cases "rc = 0")
      case rc: False
      then have "reg_bufs E [k ..< n] w = Some (rc, w1)"
        using False k len b(1) w1(1) by (simp add: status_of_def st_def)
      then show ?thesis
        using rc same1 by (simp add: n_def)
    next
      case rc: True
      define w2 where "w2 = w1\<lparr>strm := (strm w1)\<lparr>buf_status := (buf_status (strm w1))[k := st\<lparr>buf_refcnt := 0, in_kernel := True\<rparr>]\<rparr>\<rparr>"
      have run: "reg_bufs E [k ..< n] w = reg_bufs E [Suc k ..< n] w2"
        using False rc k len b(1) w1(1) by (simp add: status_of_def on_status_eq st_def w2_def q(1))
      have same: "same_stream_setup (strm w2) (strm w)" "buf_num (strm w2) = buf_num (strm w)"
        by (simp_all add: w2_def q(1) same_stream_setup_def is_batch_def)
      have "ledger_of (io_ok E) (in_hand E w2) (buf_status (strm w2)) (Suc k) []"
        using ledger_extend [OF Suc.prems(4), of "in_hand E w @ [k]" "st\<lparr>buf_refcnt := 0, in_kernel := True\<rparr>"]
          hand k q(3) rc
        by (simp add: w2_def q(1) entry_ok_def)
      moreover have "counted E w2" "allocated (strm w2)" "cmd_queue (strm w2) = []"
        using Suc.prems(3) q(2) same1(3) by (simp_all add: w2_def counted_def allocated_def q(1))
      ultimately have "ensures (reg_bufs E [Suc k ..< unat (buf_num (strm w2))] w2)
        (\<lambda>(rc, w'). same_stream_setup (strm w') (strm w2) \<and> has_slot w' \<and> allocated (strm w') \<and> (rc = 0 \<longrightarrow> ledger E w'))"
        using Suc.hyps(2) k same(2) by (intro Suc.hyps(1)) (simp_all add: n_def)
      then show ?thesis
        using same same_stream_setup_trans [OF _ same(1)]
        by (auto simp: n_def [symmetric] run elim!: ensures_mono)
    qed
  qed
qed

lemma mm_stream_reg_buf_ok:
  assumes "has_slot w" and "allocated (strm w)" and "cmd_queue (strm w) = []"
    and "length (buf_status (strm w)) = 64"
  shows "ensures (mm_stream_reg_buf E w)
    (\<lambda>(rc, w'). same_stream_setup (strm w') (strm w) \<and> has_slot w' \<and> allocated (strm w') \<and> (rc = 0 \<longrightarrow> ledger E w'))"
proof -
  define c where "c = VIDIOC_REQBUFS (buf_num (strm w))"
  define w1 where "w1 = snd (kcall E c w)"
  define rc where "rc = rc_of E ((hdl w, c) # hist w)"
  have k: "mm_stream_request_buf E w = (rc, w1)"
    using assms(2) by (simp add: mm_stream_request_buf_def allocated_def c_def w1_def rc_def
        CAM_MAX_NUM_BUFS_PER_STREAM_def prod_eq_iff)
  have w1: "strm w1 = strm w" "has_slot w1"
    using assms(1) by (simp_all add: w1_def has_slot_def)
  show ?thesis
  proof (cases "rc = 0")
    case False
    then show ?thesis
      using k w1 assms(2) by (simp add: mm_stream_reg_buf_def)
  next
    case True
    define w2 where "w2 = w1\<lparr>strm := (strm w1)\<lparr>queued_buffer_count := 0\<rparr>\<rparr>"
    have hand: "in_hand E w2 = []"
      using True by (simp add: w2_def in_hand_def w1_def c_def rc_def)
    have "counted E w2"
      using w1(2) hand by (simp add: counted_def watched_or_unpolled_def) (simp add: w2_def)
    moreover have "allocated (strm w2)" "cmd_queue (strm w2) = []"
        "ledger_of (io_ok E) (in_hand E w2) (buf_status (strm w2)) 0 []"
      using assms w1(1) hand by (simp_all add: w2_def allocated_def ledger_of_def)
    ultimately have "ensures (reg_bufs E [0 ..< unat (buf_num (strm w2))] w2)
      (\<lambda>(rc, w'). same_stream_setup (strm w') (strm w2) \<and> has_slot w' \<and> allocated (strm w') \<and> (rc = 0 \<longrightarrow> ledger E w'))"
      by (intro reg_bufs_ok) simp_all
    moreover have "same_stream_setup (strm w2) (strm w)"
      by (simp add: w2_def w1(1) same_stream_setup_def is_batch_def)
    moreover have "mm_stream_reg_buf E w = reg_bufs E [0 ..< unat (buf_num (strm w2))] w2"
      using True by (simp add: mm_stream_reg_buf_def k w2_def)
    ultimately show ?thesis
      using same_stream_setup_trans by (auto elim!: ensures_mono)
  qed
qed

lemma unreg_statuses_ok:
  "length (buf_status (strm w)) = 64 \<Longrightarrow> \<forall>i \<in> set is. i < 64 \<Longrightarrow>
    ensures (unreg_statuses is w) (\<lambda>w'. same_stream_setup (strm w') (strm w) \<and> has_slot w' = has_slot w
      \<and> bufs (strm w') = bufs (strm w) \<and> buf_num (strm w') = buf_num (strm w))"
proof (induction "is" arbitrary: w)
  case (Cons i "is")
  define w1 where "w1 = w\<lparr>strm := (strm w)\<lparr>buf_status := (buf_status (strm w))[i := (buf_status (strm w) ! i)\<lparr>buf_refcnt := 0, in_kernel := False\<rparr>]\<rparr>\<rparr>"
  have "unreg_statuses (i # is) w = unreg_statuses is w1"
    using Cons.prems by (simp add: on_status_eq w1_def)
  moreover have w1: "same_stream_setup (strm w1) (strm w)" "has_slot w1 = has_slot w" "bufs (strm w1) = bufs (strm w)"
      "buf_num (strm w1) = buf_num (strm w)" "length (buf_status (strm w1)) = 64"
    using Cons.prems(1) by (simp_all add: w1_def same_stream_setup_def is_batch_def)
  ultimately show ?case
    using Cons.IH [of w1] Cons.prems(2) same_stream_setup_trans [OF _ w1(1)] by (auto elim!: ensures_mono)
qed simp

lemma mm_stream_unreg_buf_ok:
  assumes "allocated (strm w)" and "length (buf_status (strm w)) = 64"
  shows "ensures (mm_stream_unreg_buf E w)
    (\<lambda>(rc, w'). same_stream_setup (strm w') (strm w) \<and> has_slot w' = has_slot w \<and> allocated (strm w'))"
proof -
  define w1 where "w1 = snd (kcall E (VIDIOC_REQBUFS 0) w)"
  have w1: "strm w1 = strm w" "has_slot w1 = has_slot w"
    by (simp_all add: w1_def has_slot_def)
  have "\<forall>i \<in> set [0 ..< unat (buf_num (strm w1))]. i < 64"
    using assms(1) w1(1) by (auto simp: allocated_def)
  then obtain w2 where w2: "unreg_statuses [0 ..< unat (buf_num (strm w1))] w1 = Some w2"
      "same_stream_setup (strm w2) (strm w1)" "has_slot w2 = has_slot w1" "bufs (strm w2) = bufs (strm w1)"
      "buf_num (strm w2) = buf_num (strm w1)"
    using unreg_statuses_ok [of w1 "[0 ..< unat (buf_num (strm w1))]"] assms(2) w1(1)
    by (auto elim!: ensuresE)
  then have "allocated (strm w2)"
    using assms(1) w1(1) by (simp add: allocated_def good_bufs_same [of "strm w2" "strm w"])
  moreover have k: "kcall E (VIDIOC_REQBUFS 0) w = (fst (kcall E (VIDIOC_REQBUFS 0) w), w1)"
    by (simp add: prod_eq_iff w1_def)
  then have "mm_stream_unreg_buf E w = Some (fst (kcall E (VIDIOC_REQBUFS 0) w), w2)"
    using w2(1) by (simp add: mm_stream_unreg_buf_def split_beta)
  ultimately show ?thesis
    using w1 w2(2,3) same_stream_setup_trans by simp
qed

end
