(* ===== verification/MmStreamReach.thy ===== *)
theory MmStreamReach
  imports MmStreamRuns
begin

text \<open>
  Configuration, start and stop keep their part of the invariant of a stream, so the state
  machine keeps it in every state, and so does every sequence of operations the contract
  allows.
\<close>

section \<open>Configuration\<close>

lemma config_cbs_ok:
  assumes "cbs_ok s" and "cfg_stream_cb c"
  shows "cbs_ok (s\<lparr>buf_cb := config_cbs c (buf_cb s)\<rparr>)" "has_async_cb (s\<lparr>buf_cb := config_cbs c (buf_cb s)\<rparr>)"
proof -
  define k where "k = (if cfg_stream_cb_sync c then 1 else 0 :: nat)"
  define cbs where "cbs = (if cfg_stream_cb_sync c
      then (buf_cb s)[0 := \<lparr>cb = True, cb_count = -1, cb_sync = True\<rparr>] else buf_cb s)"
  have eq: "config_cbs c (buf_cb s) = cbs[k := \<lparr>cb = True, cb_count = -1, cb_sync = False\<rparr>]"
    using assms(2) by (simp add: config_cbs_def k_def cbs_def)
  have neg: "(-1 :: int8) <s 0"
    by (simp add: word_sless_alt)
  have len: "length cbs = 4" "k < 4"
    using assms(1) by (simp_all add: cbs_ok_def cbs_def k_def MM_CAMERA_STREAM_BUF_CB_MAX_def)
  have "\<forall>d \<in> set cbs. cb d \<longrightarrow> cb_count d <s 0"
    using assms(1) neg set_update_subset_insert [of "buf_cb s" 0 "\<lparr>cb = True, cb_count = -1, cb_sync = True\<rparr>"]
    by (auto simp: cbs_ok_def cbs_def)
  then have "\<forall>d \<in> set (config_cbs c (buf_cb s)). cb d \<longrightarrow> cb_count d <s 0"
    using neg set_update_subset_insert [of cbs k "\<lparr>cb = True, cb_count = -1, cb_sync = False\<rparr>"]
    by (auto simp: eq)
  then show "cbs_ok (s\<lparr>buf_cb := config_cbs c (buf_cb s)\<rparr>)"
    using len by (simp add: cbs_ok_def MM_CAMERA_STREAM_BUF_CB_MAX_def) (simp add: eq)
  have "\<lparr>cb = True, cb_count = -1, cb_sync = False\<rparr> \<in> set (config_cbs c (buf_cb s))"
    using len by (simp add: eq set_update_memI)
  then show "has_async_cb (s\<lparr>buf_cb := config_cbs c (buf_cb s)\<rparr>)"
    by (auto simp: has_async_cb_def intro: bexI [rotated])
qed

lemma has_slot_kcall [simp]: "has_slot (snd (kcall E c w)) = has_slot w"
  by (simp add: has_slot_def)

text \<open>A step of the configuration: it may change what is known of the format only.\<close>

definition config_step :: "stream_world \<Rightarrow> stream_world \<Rightarrow> bool" where
  "config_step w w' \<longleftrightarrow> same_stream_setup (strm w') (strm w) \<and> has_slot w' = has_slot w"

lemma config_step_trans: "config_step u v \<Longrightarrow> config_step v w \<Longrightarrow> config_step u w"
  using same_stream_setup_trans [of "strm w" "strm v" "strm u"] by (simp add: config_step_def)

lemma mm_stream_sync_info_ok:
  assumes "stream_info (strm w) \<noteq> None" and "padding_info (strm w) \<noteq> None"
  shows "ensures (mm_stream_sync_info E w) (\<lambda>(rc, w'). config_step w w')"
proof -
  obtain info pad where "stream_info (strm w) = Some info" "padding_info (strm w) = Some pad"
    using assms by blast
  then show ?thesis
    by (simp add: mm_stream_sync_info_def config_step_def split_beta same_stream_setup_def is_batch_def Let_def)
qed

lemma mm_stream_set_fmt_ok:
  assumes "stream_info (strm w) \<noteq> None"
  shows "ensures (mm_stream_set_fmt E w) (\<lambda>(rc, w'). config_step w w')"
  using assms by (auto simp: mm_stream_set_fmt_def config_step_def split_beta Let_def)

lemma mm_stream_config_ok:
  assumes "upper_ok E" and "length (buf_status (strm w)) = 64" and "cbs_ok (strm w)"
    and "streaming_mode (cfg_stream_info c) \<noteq> CAM_STREAMING_MODE_BATCH" and "cfg_stream_cb c"
  shows "ensures (mm_stream_config E c w) (\<lambda>(rc, w'). configured (strm w')
    \<and> settled_stream (strm w') = settled_stream (strm w) \<and> has_slot w' = has_slot w
    \<and> length (buf_status (strm w')) = 64 \<and> state (strm w') = state (strm w))"
proof -
  define s0 where "s0 = (strm w)\<lparr>stream_info := Some (cfg_stream_info c),
      buf_num := ucast (num_bufs (cfg_stream_info c)), vtbl := cfg_mem_vtbl c,
      padding_info := Some (cfg_padding_info c), buf_cb := config_cbs c (buf_cb (strm w))\<rparr>"
  define w0 where "w0 = w\<lparr>strm := s0\<rparr>"
  obtain rc1 w1 where w1: "mm_stream_sync_info E w0 = Some (rc1, w1)" "config_step w0 w1"
    using mm_stream_sync_info_ok [of w0 E] by (auto simp: w0_def s0_def elim!: ensuresE)
  have "stream_info (strm w1) \<noteq> None"
    using w1(2) by (simp add: config_step_def same_stream_setup_def w0_def s0_def)
  then obtain rc2 w2 where w2: "(if rc1 = 0 then mm_stream_set_fmt E w1 else Some (rc1, w1)) = Some (rc2, w2)"
      "config_step w0 w2"
    using mm_stream_set_fmt_ok [of w1 E] w1(2) config_step_trans [OF w1(2)]
    by (cases "rc1 = 0") (auto elim!: ensuresE)
  obtain rc3 w3 where w3: "(if has_set_config_ops (vtbl (strm w2)) then upcall E Set_config_ops w2 else Some (0, w2))
      = Some (rc3, w3)" "config_step w0 w3"
  proof (cases "has_set_config_ops (vtbl (strm w2))")
    case True
    have "length (buf_status (strm w2)) = 64"
      using w2(2) assms(2) by (simp add: config_step_def same_stream_setup_def w0_def s0_def)
    then obtain rc3 w3 where "upcall E Set_config_ops w2 = Some (rc3, w3)" "remapped E w2 w3"
      using upcall_ok [OF assms(1), of Set_config_ops w2] by (auto elim!: ensuresE)
    moreover from this have "config_step w2 w3"
      using remapped_setup by (simp add: config_step_def)
    ultimately show thesis
      using that True config_step_trans [OF w2(2)] by simp
  next
    case False
    then show thesis
      using that w2(2) by simp
  qed
  have "mm_stream_config E c w = Some (rc2, w3)"
    unfolding mm_stream_config_def Let_def s0_def [symmetric] w0_def [symmetric] w1(1)
    by (simp add: w2(1) w3(1))
  moreover have "configured s0"
    using config_cbs_ok [OF assms(3,5)] assms(4)
    by (simp add: configured_def plain_stream_def is_batch_def s0_def cbs_ok_def has_async_cb_def)
  moreover have "settled_stream s0 = settled_stream (strm w)" "length (buf_status s0) = 64"
      "state s0 = state (strm w)"
    using assms(2) by (simp_all add: s0_def settled_stream_def)
  ultimately show ?thesis
    using w3(2) same_stream_setup_simps(1,2) [of "strm w3" s0]
    by (simp add: config_step_def w0_def) (simp add: same_stream_setup_def s0_def)
qed

section \<open>Start and stop\<close>

lemma del_poll_ledger:
  assumes "ledger E w"
  shows "ensures (mm_camera_poll_thread_del_poll_fd E mm_camera_sync_call w)
    (\<lambda>(rc, w'). ledger E w' \<and> strm w' = strm w)"
proof -
  have slot: "has_slot w"
    using ledger_facts(3) [OF assms] by (simp add: counted_def)
  obtain rc w1 where w1: "mm_camera_poll_thread_del_poll_fd E mm_camera_sync_call w = Some (rc, w1)"
      "quiet E w w1" "polled w \<longrightarrow> unpolled (hdl w) (hist w1)"
    using del_poll_ok [OF slot, of E mm_camera_sync_call] by (auto elim!: ensuresE)
  then have "ledger E w1"
    using assms slot by (auto simp: ledger_def counted_def watched_or_unpolled_def quiet_def)
  then show ?thesis
    using w1 by (simp add: quiet_def)
qed

lemma commit_ledger:
  assumes "ledger E w"
  shows "ensures (mm_camera_poll_thread_commit_updates E w) (\<lambda>(rc, w'). ledger E w' \<and> strm w' = strm w)"
proof -
  have slot: "has_slot w"
    using ledger_facts(3) [OF assms] by (simp add: counted_def)
  obtain rc w1 where w1: "mm_camera_poll_thread_commit_updates E w = Some (rc, w1)"
      "quiet E w w1" "polled w1 = polled w"
    using commit_ok [OF slot, of E] by (auto elim!: ensuresE)
  then have "ledger E w1"
    using assms slot by (auto simp: ledger_def counted_def watched_or_unpolled_def quiet_def)
  then show ?thesis
    using w1 by (simp add: quiet_def)
qed

lemma ledger_other [simp]:
  "ledger E (w\<lparr>strm := (strm w)\<lparr>state := st\<rparr>\<rparr>) = ledger E w"
  "ledger E (w\<lparr>strm := (strm w)\<lparr>cmd_active := b\<rparr>\<rparr>) = ledger E w"
  "ledger E (w\<lparr>strm := (strm w)\<lparr>buf_cb := cbs\<rparr>\<rparr>) = ledger E w"
  "ledger E (w\<lparr>strm := (strm w)\<lparr>is_bundled := b\<rparr>\<rparr>) = ledger E w"
  "ledger E (w\<lparr>strm := (strm w)\<lparr>is_linked := b\<rparr>\<rparr>) = ledger E w"
  by (simp_all add: ledger_def counted_def)

lemma check_mapping_ok:
  "\<forall>i \<in> set is. i < length (buf_status (strm w)) \<Longrightarrow> \<exists>r. check_mapping is w = Some r"
  by (induction "is") (simp_all add: status_of_def)

text \<open>What a start or a stop leaves alone.\<close>

definition kept_stream :: "stream_env \<Rightarrow> stream_world \<Rightarrow> stream_world \<Rightarrow> bool" where
  "kept_stream E w w' \<longleftrightarrow> ledger E w' \<and> settings (strm w') = settings (strm w)
     \<and> cmd_queue (strm w') = cmd_queue (strm w)"

lemma mm_stream_streamon_ok:
  assumes "upper_ok E" and "ledger E w" and "stream_info (strm w) \<noteq> None"
  shows "ensures (mm_stream_streamon E w) (\<lambda>(rc, w'). kept_stream E w w')"
proof -
  note facts = ledger_facts [OF assms(2)]
  obtain check where check: "check_mapping [0 ..< unat (buf_num (strm w))] w = Some check"
    using check_mapping_ok [of "[0 ..< unat (buf_num (strm w))]" w] facts(1,2) by fastforce
  obtain rc1 w1 where w1: "(case check of
         Mapped \<Rightarrow> Some (0, w)
       | Failed \<Rightarrow> Some (-1, w)
       | Must_wait \<Rightarrow> do {
           (rc, w) \<leftarrow> upcall E Wait_mapping w;
           Some (if rc = ETIMEDOUT then -1 else rc, w) }) = Some (rc1, w1)" "kept_stream E w w1"
  proof (cases check)
    case Must_wait
    obtain rc u where u: "upcall E Wait_mapping w = Some (rc, u)" "remapped E w u"
      using upcall_ok [OF assms(1), of Wait_mapping w] facts(1) by (auto elim!: ensuresE)
    have "kept_stream E w u"
      using remapped_ledger [OF u(2) assms(2)] remapped_object [OF u(2)] by (simp add: kept_stream_def)
    then show thesis
      using that Must_wait u(1) by simp
  qed (use that assms(2) in \<open>simp_all add: kept_stream_def\<close>)
  have L1: "ledger E w1" "stream_info (strm w1) = stream_info (strm w)"
    using w1(2) settings_fields(4) [of "strm w1" "strm w"] by (simp_all add: kept_stream_def)
  obtain rc2 w2 where w2: "mm_camera_poll_thread_del_poll_fd E mm_camera_sync_call w1 = Some (rc2, w2)"
      "ledger E w2" "strm w2 = strm w1"
    using del_poll_ledger [OF L1(1)] by (auto elim!: ensuresE)
  define w3 where "w3 = snd (kcall E VIDIOC_STREAMON w1)"
  define rc3 where "rc3 = fst (kcall E VIDIOC_STREAMON w1)"
  have k: "kcall E VIDIOC_STREAMON w1 = (rc3, w3)"
    by (simp add: prod_eq_iff w3_def rc3_def)
  have w3: "ledger E w3" "strm w3 = strm w1"
    using L1(1) by (simp_all add: w3_def)
  obtain rc4 w4 where w4: "mm_camera_poll_thread_del_poll_fd E mm_camera_sync_call w3 = Some (rc4, w4)"
      "ledger E w4" "strm w4 = strm w3"
    using del_poll_ledger [OF w3(1)] by (auto elim!: ensuresE)
  obtain info where info: "stream_info (strm w3) = Some info"
    using assms(3) L1(2) w3(2) by auto
  show ?thesis
    unfolding mm_stream_streamon_def check w1(1) bind.bind_lunit
    using w1(2) w2 w3 w4 k info
    by (auto simp: kept_stream_def)
qed

lemma mm_stream_streamoff_ok:
  assumes "ledger E w"
  shows "ensures (mm_stream_streamoff E w) (\<lambda>(rc, w'). kept_stream E w w')"
proof -
  obtain rc1 w1 where w1: "mm_camera_poll_thread_del_poll_fd E mm_camera_sync_call w = Some (rc1, w1)"
      "ledger E w1" "strm w1 = strm w"
    using del_poll_ledger [OF assms] by (auto elim!: ensuresE)
  obtain rc2 w2 where w2: "mm_camera_poll_thread_commit_updates E w1 = Some (rc2, w2)" "ledger E w2" "strm w2 = strm w1"
    using commit_ledger [OF w1(2)] by (auto elim!: ensuresE)
  define w3 where "w3 = (if rc1 <s 0 then w2 else w1)"
  have w3: "ledger E w3" "strm w3 = strm w"
    using w1 w2 by (simp_all add: w3_def)
  have "mm_stream_streamoff E w = Some ((if rc1 <s 0 then if rc2 <s 0 then 0 else rc2 else rc1)
      OR fst (kcall E VIDIOC_STREAMOFF w3), snd (kcall E VIDIOC_STREAMOFF w3))"
    unfolding mm_stream_streamoff_def w1(1) bind.bind_lunit
    using w2(1) by (simp add: w3_def split_beta)
  then show ?thesis
    using w3 by (simp add: kept_stream_def)
qed

section \<open>The state machine\<close>

text \<open>The invariant, state by state.\<close>

definition ready :: "stream_world \<Rightarrow> bool" where
  "ready w \<longleftrightarrow> has_slot w \<and> settled_stream (strm w) \<and> configured (strm w)"

lemma goto_same [simp]:
  "cbs_ok (s\<lparr>state := st\<rparr>) = cbs_ok s" "settled_stream (s\<lparr>state := st\<rparr>) = settled_stream s"
  "configured (s\<lparr>state := st\<rparr>) = configured s" "allocated (s\<lparr>state := st\<rparr>) = allocated s"
  by (simp_all add: cbs_ok_def settled_stream_def configured_def plain_stream_def is_batch_def
      has_async_cb_def allocated_def)

lemma goto_world:
  "has_slot (w\<lparr>strm := (strm w)\<lparr>state := st\<rparr>\<rparr>) = has_slot w"
  "strm (w\<lparr>strm := (strm w)\<lparr>state := st\<rparr>\<rparr>) = (strm w)\<lparr>state := st\<rparr>"
  "state ((strm w)\<lparr>state := st\<rparr>) = st"
  "buf_status ((strm w)\<lparr>state := st\<rparr>) = buf_status (strm w)"
  "cmd_active ((strm w)\<lparr>state := st\<rparr>) = cmd_active (strm w)"
  by simp_all

lemma stream_inv_simps:
  "stream_inv E (w\<lparr>strm := (strm w)\<lparr>state := MM_STREAM_STATE_ACQUIRED\<rparr>\<rparr>) \<longleftrightarrow>
    length (buf_status (strm w)) = 64 \<and> cbs_ok (strm w) \<and> has_slot w \<and> settled_stream (strm w)"
  "stream_inv E (w\<lparr>strm := (strm w)\<lparr>state := MM_STREAM_STATE_CFG\<rparr>\<rparr>) \<longleftrightarrow>
    length (buf_status (strm w)) = 64 \<and> cbs_ok (strm w) \<and> ready w"
  "stream_inv E (w\<lparr>strm := (strm w)\<lparr>state := MM_STREAM_STATE_BUFFED\<rparr>\<rparr>) \<longleftrightarrow>
    length (buf_status (strm w)) = 64 \<and> cbs_ok (strm w) \<and> ready w \<and> allocated (strm w)"
  "stream_inv E (w\<lparr>strm := (strm w)\<lparr>state := MM_STREAM_STATE_REG\<rparr>\<rparr>) \<longleftrightarrow>
    length (buf_status (strm w)) = 64 \<and> cbs_ok (strm w) \<and> settled_stream (strm w)
    \<and> configured (strm w) \<and> ledger E w"
  "stream_inv E (w\<lparr>strm := (strm w)\<lparr>state := MM_STREAM_STATE_ACTIVE\<rparr>\<rparr>) \<longleftrightarrow>
    length (buf_status (strm w)) = 64 \<and> cbs_ok (strm w) \<and> cmd_active (strm w)
    \<and> configured (strm w) \<and> ledger E w"
  unfolding stream_inv_def Let_def ready_def goto_world ledger_other goto_same mm_stream_state.case
  by (rule refl | blast)+

text \<open>The fields the invariant reads, outside the ledger.\<close>

lemma stream_inv_same:
  assumes "stream_inv E w" and "same_stream_setup (strm w') (strm w)" and "has_slot w' = has_slot w"
    and "state (strm w) \<in> {MM_STREAM_STATE_NOTUSED, MM_STREAM_STATE_INITED, MM_STREAM_STATE_ACQUIRED, MM_STREAM_STATE_CFG}"
  shows "stream_inv E w'"
proof -
  have "length (buf_status (strm w')) = length (buf_status (strm w))" "state (strm w') = state (strm w)"
    using assms(2) by (simp_all add: same_stream_setup_def)
  then show ?thesis
    using assms(1,4) unfolding stream_inv_def Let_def assms(3) same_stream_setup_simps [OF assms(2)]
    by (elim insertE) simp_all
qed

lemma stream_inv_kcall [simp]: "\<not> moves c \<Longrightarrow> stream_inv E w \<Longrightarrow> stream_inv E (snd (kcall E c w))"
  by (simp add: stream_inv_def Let_def split: mm_stream_state.splits)

lemma parm_evt_ok:
  assumes "stream_inv E w"
  shows "ensures (stream_parm_evt E evt w) (\<lambda>(rc, w'). stream_inv E w')"
  using assms
  by (cases evt) (auto simp: stream_parm_evt_def mm_stream_set_parm_def mm_stream_get_parm_def split_beta)

lemma fsm_inited_ok:
  assumes "stream_inv E w" and "state (strm w) = MM_STREAM_STATE_INITED"
  shows "ensures (mm_stream_fsm_inited E evt w) (\<lambda>(rc, w'). stream_inv E w')"
proof (cases "evt = MM_STREAM_EVT_ACQUIRE")
  case True
  define w1 where "w1 = snd (kcall E Get_dev_name w)"
  define w2 where "w2 = snd (kcall E Open_dev w1)"
  define f where "f = fst (kcall E Open_dev w1)"
  define w3 where "w3 = w2\<lparr>strm := (strm w2)\<lparr>fd := f\<rparr>\<rparr>"
  define w4 where "w4 = snd (kcall E VIDIOC_S_PARM w3)"
  define rc where "rc = fst (kcall E VIDIOC_S_PARM w3)"
  have fd: "stream_inv E (v\<lparr>strm := (strm v)\<lparr>fd := g\<rparr>\<rparr>)"
    if "stream_inv E v" "state (strm v) = MM_STREAM_STATE_INITED" for v g
    using that by (simp add: stream_inv_def Let_def cbs_ok_def settled_stream_def)
  have w1: "stream_inv E w1" "state (strm w1) = MM_STREAM_STATE_INITED"
    using assms by (simp_all add: w1_def)
  then have w3: "stream_inv E w3" "state (strm w3) = MM_STREAM_STATE_INITED"
    using fd [of w2 f] by (simp_all add: w2_def w3_def)
  then have w4: "stream_inv E w4" "state (strm w4) = MM_STREAM_STATE_INITED"
    by (simp_all add: w4_def)
  have id: "stream_inv E (w4\<lparr>strm := (strm w4)\<lparr>server_id := x, state := MM_STREAM_STATE_ACQUIRED\<rparr>\<rparr>)" for x
    using w4 by (simp add: stream_inv_def Let_def cbs_ok_def settled_stream_def)
  have closed: "stream_inv E ((snd (kcall E Close_fd w4))\<lparr>strm := (strm (snd (kcall E Close_fd w4)))\<lparr>fd := -1\<rparr>\<rparr>)"
    using w4 by (intro fd) simp_all
  have k: "kcall E Get_dev_name w = (fst (kcall E Get_dev_name w), w1)" "kcall E Open_dev w1 = (f, w2)"
      "kcall E VIDIOC_S_PARM w3 = (rc, w4)"
    by (simp_all only: w1_def w2_def w4_def f_def rc_def prod.collapse)
  have "mm_stream_fsm_inited E evt w =
    (if fst (kcall E Get_dev_name w) = 0 then Some (-1, w1) else if f <s 0 then Some (-1, w3)
     else if rc = 0
     then Some (rc, w4\<lparr>strm := (strm w4)\<lparr>server_id := server_id_of E (hist w4),
            state := MM_STREAM_STATE_ACQUIRED\<rparr>\<rparr>)
     else Some (rc, (snd (kcall E Close_fd w4))\<lparr>strm := (strm (snd (kcall E Close_fd w4)))\<lparr>fd := -1\<rparr>\<rparr>))"
    unfolding mm_stream_fsm_inited_def True mm_stream_evt.case mm_stream_set_ext_mode_def
    by (subst k(1), simp only: Let_def prod.case k(2) w3_def [symmetric], simp add: k(3) del: kcall_simps(1))
  then show ?thesis
    using w1(1) w3(1) id closed by simp
next
  case False
  then show ?thesis
    using assms(1) by (cases evt) (simp_all add: mm_stream_fsm_inited_def)
qed

lemma release_ok: "stream_inv E (snd (mm_stream_release E w)\<lparr>strm := (strm (snd (mm_stream_release E w)))\<lparr>state := MM_STREAM_STATE_NOTUSED\<rparr>\<rparr>)"
  by (simp add: mm_stream_release_def stream_inv_def Let_def zeroed_stream_def settled_stream_def
      cbs_ok_def CAM_MAX_NUM_BUFS_PER_STREAM_def)

text \<open>\<open>config\<close> from either of the two states that allow it.\<close>

lemma config_evt_ok:
  assumes "stream_inv E w" and "state (strm w) \<in> {MM_STREAM_STATE_ACQUIRED, MM_STREAM_STATE_CFG}"
    and "upper_ok E" and "op_ok (Event (MM_STREAM_EVT_SET_FMT c)) (strm w)"
  shows "ensures (mm_stream_config E c w) (\<lambda>(rc, w'). stream_inv E (goto MM_STREAM_STATE_CFG w'))"
proof -
  have "length (buf_status (strm w)) = 64" "cbs_ok (strm w)" "has_slot w" "settled_stream (strm w)"
    using assms(1,2) by (auto simp: stream_inv_def Let_def)
  then have "ensures (mm_stream_config E c w) (\<lambda>(rc, w'). configured (strm w')
    \<and> settled_stream (strm w') = settled_stream (strm w) \<and> has_slot w' = has_slot w
    \<and> length (buf_status (strm w')) = 64 \<and> state (strm w') = state (strm w))"
    using assms(3,4) by (intro mm_stream_config_ok) simp_all
  then show ?thesis
    by (rule ensures_mono)
      (use \<open>has_slot w\<close> \<open>settled_stream (strm w)\<close> in
        \<open>auto simp: stream_inv_simps ready_def configured_def plain_stream_def\<close>)
qed

lemma fsm_acquired_ok:
  assumes "stream_inv E w" and "state (strm w) = MM_STREAM_STATE_ACQUIRED"
    and "upper_ok E" and "op_ok (Event evt) (strm w)"
  shows "ensures (mm_stream_fsm_acquired E evt w) (\<lambda>(rc, w'). stream_inv E w')"
  using assms release_ok [of E w] parm_evt_ok [OF assms(1), of evt] config_evt_ok [OF assms(1) _ assms(3)]
  by (cases evt) (simp_all add: mm_stream_fsm_acquired_def case_prod_unfold Let_def)

lemma fsm_cfg_ok:
  assumes "stream_inv E w" and "state (strm w) = MM_STREAM_STATE_CFG"
    and "upper_ok E" and "op_ok (Event evt) (strm w)"
  shows "ensures (mm_stream_fsm_cfg E evt w) (\<lambda>(rc, w'). stream_inv E w')"
proof (cases "evt = MM_STREAM_EVT_GET_BUF")
  case True
  have w: "length (buf_status (strm w)) = 64" "cbs_ok (strm w)" "has_slot w" "settled_stream (strm w)"
      "configured (strm w)"
    using assms(1,2) by (auto simp: stream_inv_def Let_def)
  obtain rc w1 where w1: "mm_stream_init_bufs E w = Some (rc, w1)" "same_stream_setup (strm w1) (strm w)"
      "has_slot w1 = has_slot w" "rc = 0 \<longrightarrow> allocated (strm w1)"
    using mm_stream_init_bufs_ok [OF assms(3) w(1,5)] by (auto elim!: ensuresE)
  have "stream_inv E w1"
    using assms(1,2) w1(2,3) stream_inv_same by simp
  moreover have "stream_inv E (goto MM_STREAM_STATE_BUFFED w1)" if "rc = 0"
    using that w w1(3,4) same_stream_setup_simps [OF w1(2)] w1(2)
    by (simp add: stream_inv_simps ready_def) (simp add: same_stream_setup_def)
  ultimately show ?thesis
    using True w1(1) by (simp add: mm_stream_fsm_cfg_def)
next
  case False
  then show ?thesis
    using assms release_ok [of E w] parm_evt_ok [OF assms(1), of evt] config_evt_ok [OF assms(1) _ assms(3)]
    by (cases evt) (simp_all add: mm_stream_fsm_cfg_def case_prod_unfold Let_def)
qed

lemma fsm_buffed_ok:
  assumes "stream_inv E w" and "state (strm w) = MM_STREAM_STATE_BUFFED" and "upper_ok E"
  shows "ensures (mm_stream_fsm_buffed E evt w) (\<lambda>(rc, w'). stream_inv E w')"
proof -
  have w: "length (buf_status (strm w)) = 64" "cbs_ok (strm w)" "has_slot w" "settled_stream (strm w)"
      "configured (strm w)" "allocated (strm w)" "cmd_queue (strm w) = []"
    using assms(1,2) by (auto simp: stream_inv_def Let_def settled_stream_def)
  have same: "length (buf_status (strm v)) = 64 \<and> cbs_ok (strm v) \<and> settled_stream (strm v)
      \<and> configured (strm v) \<and> state (strm v) = state (strm w)" if "same_stream_setup (strm v) (strm w)" for v
    using that same_stream_setup_simps [OF that] w by (simp add: same_stream_setup_def)
  show ?thesis
  proof (cases "evt = MM_STREAM_EVT_PUT_BUF \<or> evt = MM_STREAM_EVT_REG_BUF")
    case True
    have "ensures (mm_stream_deinit_bufs E w) (\<lambda>(rc, w'). stream_inv E (goto MM_STREAM_STATE_CFG w'))"
      by (rule ensures_mono [OF mm_stream_deinit_bufs_ok [OF assms(3) w(1)]])
        (use same w in \<open>auto simp: stream_inv_simps ready_def\<close>)
    moreover have "ensures (mm_stream_reg_buf E w)
        (\<lambda>(rc, w'). stream_inv E (if rc = 0 then goto MM_STREAM_STATE_REG w' else w'))"
      by (rule ensures_mono [OF mm_stream_reg_buf_ok [OF w(3,6,7,1)]])
        (use same w assms(2) in \<open>auto simp: stream_inv_simps, auto simp: stream_inv_def Let_def\<close>)
    ultimately show ?thesis
      using True by (auto simp: mm_stream_fsm_buffed_def case_prod_unfold)
  next
    case False
    then show ?thesis
      using parm_evt_ok [OF assms(1), of evt] by (cases evt) (simp_all add: mm_stream_fsm_buffed_def)
  qed
qed

lemma released_inv:
  assumes "plain_stream (strm w)" and "has_async_cb (strm w)"
    and "ledger E w' \<and> settings (strm w') = (settings (strm w))\<lparr>cmd_active := False\<rparr> \<and> cmd_queue (strm w') = []"
  shows "stream_inv E (goto MM_STREAM_STATE_REG w')"
proof -
  have *: "ledger E w'" "settings (strm w') = settings ((strm w)\<lparr>cmd_active := False\<rparr>)" "cmd_queue (strm w') = []"
    using assms(3) by (simp_all add: settings_def)
  note same = settings_fields [OF *(2)]
  have "plain_stream (strm w')"
    using assms(1) by (intro plain_settings [OF *(2)]) (simp add: plain_stream_def is_batch_def cbs_ok_def)
  moreover have "has_async_cb (strm w')" "settled_stream (strm w')"
    using assms(2) same(6,7) *(3) by (simp_all add: has_async_cb_def settled_stream_def)
  ultimately show ?thesis
    unfolding stream_inv_simps using *(1) ledger_facts(1) [OF *(1)] by (simp add: configured_def plain_stream_def)
qed

lemma active_kept:
  assumes "stream_inv E w" and "state (strm w) = MM_STREAM_STATE_ACTIVE"
    and "ledger E w'" and "settings (strm w') = settings (strm w)"
  shows "stream_inv E w'"
proof -
  note same = settings_fields [OF assms(4)]
  have w: "cbs_ok (strm w)" "cmd_active (strm w)" "plain_stream (strm w)" "has_async_cb (strm w)"
    using assms(1,2) by (auto simp: stream_inv_def Let_def configured_def)
  have "plain_stream (strm w')" "has_async_cb (strm w')" "cmd_active (strm w')" "state (strm w') = MM_STREAM_STATE_ACTIVE"
    using plain_settings [OF assms(4) w(3)] w same(3,6,7) assms(2) by (simp_all add: has_async_cb_def)
  then show ?thesis
    using assms(3) ledger_facts(1) [OF assms(3)]
    by (simp add: stream_inv_def Let_def configured_def plain_stream_def)
qed

lemma ledger_allocated: "ledger E w \<Longrightarrow> allocated (strm w)"
  using ledger_facts(2) by (simp add: allocated_def ledger_def)

lemma fsm_reg_ok:
  assumes "stream_inv E w" and "state (strm w) = MM_STREAM_STATE_REG" and "env_ok E"
  shows "ensures (mm_stream_fsm_reg E evt w) (\<lambda>(rc, w'). stream_inv E w')"
proof -
  have w: "length (buf_status (strm w)) = 64" "cbs_ok (strm w)" "settled_stream (strm w)"
      "configured (strm w)" "ledger E w"
    using assms(1,2) by (auto simp: stream_inv_def Let_def)
  have env: "upper_ok E" "stream_malloc_ok E"
    using assms(3) by (simp_all add: env_ok_def)
  have cb: "has_async_cb (strm w)"
    using w(4) by (simp add: configured_def)
  show ?thesis
  proof (cases "evt = MM_STREAM_EVT_UNREG_BUF \<or> evt = MM_STREAM_EVT_START")
    case True
    have "ensures (mm_stream_unreg_buf E w) (\<lambda>(rc, w'). stream_inv E (goto MM_STREAM_STATE_BUFFED w'))"
    proof (rule ensures_mono [OF mm_stream_unreg_buf_ok [OF ledger_allocated [OF w(5)] w(1)]], clarify)
      fix rc w'
      assume *: "same_stream_setup (strm w') (strm w)" "has_slot w' = has_slot w" "allocated (strm w')"
      have "has_slot w"
        using ledger_facts(3) [OF w(5)] by (simp add: counted_def)
      moreover have "length (buf_status (strm w')) = 64"
        using *(1) w(1) by (simp add: same_stream_setup_def)
      ultimately show "stream_inv E (goto MM_STREAM_STATE_BUFFED w')"
        unfolding stream_inv_simps ready_def same_stream_setup_simps [OF *(1)] *(2) using w * by blast
    qed
    moreover have "ensures (mm_stream_fsm_reg E MM_STREAM_EVT_START w) (\<lambda>(rc, w'). stream_inv E w')"
    proof -
      define s1 where "s1 = (strm w)\<lparr>cmd_active := True, cmd_queue := [], state := MM_STREAM_STATE_ACTIVE\<rparr>"
      define w1 where "w1 = w\<lparr>strm := s1\<rparr>"
      have s1: "s1 = (strm w)\<lparr>cmd_active := True, state := MM_STREAM_STATE_ACTIVE\<rparr>"
        using w(3) by (simp add: s1_def settled_stream_def)
      have L1: "ledger E w1"
        using w(5) by (simp add: w1_def s1 ledger_def counted_def)
      have p1: "plain_stream (strm w1)" "has_async_cb (strm w1)" "cbs_ok (strm w1)"
        using w(2,4) by (simp_all add: w1_def s1 configured_def plain_stream_def is_batch_def cbs_ok_def has_async_cb_def)
      obtain rc w2 where w2: "mm_stream_streamon E w1 = Some (rc, w2)" "kept_stream E w1 w2"
        using mm_stream_streamon_ok [OF env(1) L1] p1(1) by (auto simp: plain_stream_def elim!: ensuresE)
      have L2: "ledger E w2" "settings (strm w2) = settings (strm w1)"
        using w2(2) by (simp_all add: kept_stream_def)
      note same2 = settings_fields [OF L2(2)]
      have p2: "plain_stream (strm w2)" "has_async_cb (strm w2)" "cbs_ok (strm w2)" "cmd_active (strm w2)"
          "state (strm w2) = MM_STREAM_STATE_ACTIVE"
        using plain_settings [OF L2(2) p1(1)] p1(2,3) same2(3,6,7)
        by (simp_all add: cbs_ok_def has_async_cb_def) (simp_all add: w1_def s1)
      have run: "mm_stream_fsm_reg E MM_STREAM_EVT_START w = (if rc \<noteq> 0
          then do { w \<leftarrow> release_cmd_thread E w2; Some (rc, goto MM_STREAM_STATE_REG w) }
          else Some (rc, w2))"
        using cb w2(1) by (simp add: mm_stream_fsm_reg_def launch_cmd_thread_def w1_def s1_def)
      have "stream_inv E w2"
        using L2(1) p2 ledger_facts(1) [OF L2(1)] by (simp add: stream_inv_def Let_def configured_def)
      moreover have "ensures (release_cmd_thread E w2) (\<lambda>w'. stream_inv E (goto MM_STREAM_STATE_REG w'))"
        by (rule ensures_mono [OF release_cmd_thread_ok [OF L2(1) p2(1,4) env(2)]])
          (rule released_inv [OF p2(1,2)], simp_all)
      ultimately show ?thesis
        by (simp add: run)
    qed
    ultimately show ?thesis
      using True by (auto simp: mm_stream_fsm_reg_def case_prod_unfold)
  next
    case False
    then show ?thesis
      using parm_evt_ok [OF assms(1), of evt] by (cases evt) (simp_all add: mm_stream_fsm_reg_def)
  qed
qed

lemma fsm_active_ok:
  assumes "stream_inv E w" and "state (strm w) = MM_STREAM_STATE_ACTIVE" and "env_ok E"
    and "op_ok (Event evt) (strm w)"
  shows "ensures (mm_stream_fsm_active E evt w) (\<lambda>(rc, w'). stream_inv E w')"
proof -
  have w: "length (buf_status (strm w)) = 64" "cbs_ok (strm w)" "cmd_active (strm w)"
      "configured (strm w)" "ledger E w"
    using assms(1,2) by (auto simp: stream_inv_def Let_def)
  have env: "upper_ok E" "stream_malloc_ok E"
    using assms(3) by (simp_all add: env_ok_def)
  have plain_stream: "plain_stream (strm w)" "has_async_cb (strm w)"
    using w(4) by (simp_all add: configured_def)
  consider (qbuf) r where "evt = MM_STREAM_EVT_QBUF r" | (cancel) i where "evt = MM_STREAM_EVT_CANCEL_BUF i"
    | (stop) "evt = MM_STREAM_EVT_STOP"
    | (other) "\<forall>r. evt \<noteq> MM_STREAM_EVT_QBUF r" "\<forall>i. evt \<noteq> MM_STREAM_EVT_CANCEL_BUF i" "evt \<noteq> MM_STREAM_EVT_STOP"
    by blast
  then show ?thesis
  proof cases
    case qbuf
    then obtain i where i: "r = Buf i" "i < unat (buf_num (strm w))"
        "buf_refcnt (buf_status (strm w) ! i) = 0
          \<or> count_list (cmd_queue (strm w)) i < unat (buf_refcnt (buf_status (strm w) ! i))"
      using assms(2,4) by (cases r) auto
    have "ensures (mm_stream_buf_done E (Buf i) w)
      (\<lambda>(rc, w'). ledger E w' \<and> settings (strm w') = settings (strm w) \<and> cmd_queue (strm w') = cmd_queue (strm w))"
      using i plain_stream(1) by (intro mm_stream_buf_done_ok [OF w(5)]) (simp_all add: plain_stream_def)
    then show ?thesis
      using qbuf i(1) by (auto simp: mm_stream_fsm_active_def case_prod_unfold elim!: ensures_mono
          intro: active_kept [OF assms(1,2)])
  next
    case cancel
    have "unat i < length (buf_status (strm w))" "stream_info (strm w) \<noteq> None" "\<not> is_batch (strm w)"
      using assms(4) cancel w(1) plain_stream(1) by (simp_all add: CAM_MAX_NUM_BUFS_PER_STREAM_def plain_stream_def)
    then show ?thesis
      using assms(1) cancel
      by (auto simp: mm_stream_fsm_active_def mm_stream_cancel_buf_def status_of_eq case_prod_unfold)
  next
    case stop
    obtain rc w1 where w1: "mm_stream_streamoff E w = Some (rc, w1)" "kept_stream E w w1"
      using mm_stream_streamoff_ok [OF w(5)] by (auto elim!: ensuresE)
    have L1: "ledger E w1" "settings (strm w1) = settings (strm w)"
      using w1(2) by (simp_all add: kept_stream_def)
    note same1 = settings_fields [OF L1(2)]
    have p1: "plain_stream (strm w1)" "has_async_cb (strm w1)" "cmd_active (strm w1)"
      using plain_settings [OF L1(2) plain_stream(1)] plain_stream(2) w(3) same1(6,7) by (simp_all add: has_async_cb_def)
    have "ensures (release_cmd_thread E w1) (\<lambda>w'. stream_inv E (goto MM_STREAM_STATE_REG w'))"
      by (rule ensures_mono [OF release_cmd_thread_ok [OF L1(1) p1(1,3) env(2)]])
        (rule released_inv [OF p1(1,2)], simp_all)
    then show ?thesis
      using stop w1(1) p1(2) by (simp add: mm_stream_fsm_active_def)
  next
    case other
    then show ?thesis
      using assms(1) parm_evt_ok [OF assms(1), of evt]
      by (cases evt) (simp_all add: mm_stream_fsm_active_def mm_stream_do_action_def case_prod_unfold)
  qed
qed

lemma mm_stream_fsm_fn_ok:
  assumes "stream_inv E w" and "env_ok E" and "op_ok (Event evt) (strm w)"
  shows "ensures (mm_stream_fsm_fn E evt w) (\<lambda>(rc, w'). stream_inv E w')"
  using assms fsm_inited_ok [OF assms(1)] fsm_acquired_ok [OF assms(1) _ _ assms(3)]
    fsm_cfg_ok [OF assms(1) _ _ assms(3)] fsm_buffed_ok [OF assms(1)] fsm_reg_ok [OF assms(1) _ assms(2)]
    fsm_active_ok [OF assms(1) _ assms(2,3)]
  by (cases "state (strm w)") (simp_all add: mm_stream_fsm_fn_def env_ok_def)

section \<open>Every operation\<close>

lemma remapped_inv:
  assumes "remapped E w w'" and "stream_inv E w"
  shows "stream_inv E w'"
proof -
  note same = remapped_object [OF assms(1)]
  have as_before: "same_stream_setup (strm w') (strm w)" "has_slot w' = has_slot w"
    using remapped_setup [OF assms(1)] by simp_all
  have "allocated (strm w') = allocated (strm w)"
    using settings_fields(8) [OF same(1)] same(2) good_bufs_same [of "strm w'" "strm w"]
    by (simp add: allocated_def)
  moreover have "state (strm w') = state (strm w)" "cmd_active (strm w') = cmd_active (strm w)"
      "length (buf_status (strm w')) = length (buf_status (strm w))"
    using settings_fields(3,6) [OF same(1)] same(5) by simp_all
  ultimately show ?thesis
    using assms(2) remapped_ledger [OF assms(1)]
    unfolding stream_inv_def Let_def as_before(2) same_stream_setup_simps [OF as_before(1)]
    by (cases "state (strm w)") simp_all
qed

lemma put_cb_ok:
  "put_cb v cs = Some cs' \<Longrightarrow> cb_count v <s 0 \<Longrightarrow> \<forall>c \<in> set cs. cb c \<longrightarrow> cb_count c <s 0 \<Longrightarrow>
    length cs' = length cs \<and> (\<forall>c \<in> set cs'. cb c \<longrightarrow> cb_count c <s 0)
    \<and> {c \<in> set cs. cb c} \<subseteq> set cs'"
proof (induction cs arbitrary: cs')
  case (Cons c cs)
  then show ?case
    by (cases "cb c") (auto simp: subset_iff)
qed simp

lemma reg_buf_cb_ok:
  assumes "stream_inv E w" and "cb_count v <s 0"
  shows "stream_inv E (snd (mm_stream_reg_buf_cb v w))"
proof (cases "put_cb v (buf_cb (strm w))")
  case None
  then show ?thesis
    using assms(1) by (simp add: mm_stream_reg_buf_cb_def)
next
  case (Some cs)
  define s' where "s' = (strm w)\<lparr>buf_cb := cs\<rparr>"
  have w: "cbs_ok (strm w)"
    using assms(1) by (simp add: stream_inv_def Let_def)
  then have cs: "length cs = 4" "\<forall>c \<in> set cs. cb c \<longrightarrow> cb_count c <s 0" "{c \<in> set (buf_cb (strm w)). cb c} \<subseteq> set cs"
    using put_cb_ok [OF Some assms(2)] by (simp_all add: cbs_ok_def MM_CAMERA_STREAM_BUF_CB_MAX_def)
  have "cbs_ok s'"
    using cs(1,2) by (simp add: s'_def cbs_ok_def MM_CAMERA_STREAM_BUF_CB_MAX_def)
  moreover have "configured (strm w) \<Longrightarrow> configured s'"
    using calculation cs(3) by (auto simp: s'_def configured_def plain_stream_def is_batch_def has_async_cb_def)
  moreover have "settled_stream s' = settled_stream (strm w)" "allocated s' = allocated (strm w)"
      "length (buf_status s') = length (buf_status (strm w))" "state s' = state (strm w)"
      "cmd_active s' = cmd_active (strm w)" "has_slot (w\<lparr>strm := s'\<rparr>) = has_slot w"
      "ledger E (w\<lparr>strm := s'\<rparr>) = ledger E w"
    by (simp_all add: s'_def settled_stream_def allocated_def)
  ultimately have "stream_inv E (w\<lparr>strm := s'\<rparr>)"
    using assms(1) unfolding stream_inv_def Let_def
    by (cases "state (strm w)") simp_all
  then show ?thesis
    using Some by (simp add: mm_stream_reg_buf_cb_def s'_def)
qed

lemma flags_inv:
  "stream_inv E (w\<lparr>strm := (strm w)\<lparr>is_bundled := b\<rparr>\<rparr>) = stream_inv E w"
  "stream_inv E (w\<lparr>strm := (strm w)\<lparr>is_linked := b\<rparr>\<rparr>) = stream_inv E w"
proof -
  have "cbs_ok ((strm w)\<lparr>is_bundled := b\<rparr>) = cbs_ok (strm w)"
    "settled_stream ((strm w)\<lparr>is_bundled := b\<rparr>) = settled_stream (strm w)"
    "configured ((strm w)\<lparr>is_bundled := b\<rparr>) = configured (strm w)"
    "allocated ((strm w)\<lparr>is_bundled := b\<rparr>) = allocated (strm w)"
    "has_slot (w\<lparr>strm := (strm w)\<lparr>is_bundled := b\<rparr>\<rparr>) = has_slot w"
    by (simp_all add: cbs_ok_def settled_stream_def configured_def plain_stream_def is_batch_def
        has_async_cb_def allocated_def)
  then show "stream_inv E (w\<lparr>strm := (strm w)\<lparr>is_bundled := b\<rparr>\<rparr>) = stream_inv E w"
    by (cases "state (strm w)") (simp_all add: stream_inv_def Let_def)
  have "cbs_ok ((strm w)\<lparr>is_linked := b\<rparr>) = cbs_ok (strm w)"
    "settled_stream ((strm w)\<lparr>is_linked := b\<rparr>) = settled_stream (strm w)"
    "configured ((strm w)\<lparr>is_linked := b\<rparr>) = configured (strm w)"
    "allocated ((strm w)\<lparr>is_linked := b\<rparr>) = allocated (strm w)"
    "has_slot (w\<lparr>strm := (strm w)\<lparr>is_linked := b\<rparr>\<rparr>) = has_slot w"
    by (simp_all add: cbs_ok_def settled_stream_def configured_def plain_stream_def is_batch_def
        has_async_cb_def allocated_def)
  then show "stream_inv E (w\<lparr>strm := (strm w)\<lparr>is_linked := b\<rparr>\<rparr>) = stream_inv E w"
    by (cases "state (strm w)") (simp_all add: stream_inv_def Let_def)
qed

lemma data_notify_inv:
  assumes "stream_inv E w" and "kernel_ok E"
  shows "ensures (mm_stream_data_notify E w) (\<lambda>(u, w'). stream_inv E w')"
proof (cases "state (strm w) = MM_STREAM_STATE_ACTIVE")
  case True
  have w: "plain_stream (strm w)" "has_async_cb (strm w)" "ledger E w"
    using assms(1) True by (auto simp: stream_inv_def Let_def configured_def)
  show ?thesis
    by (rule ensures_mono [OF mm_stream_data_notify_ok [OF w(3,1) assms(2) w(2)]])
      (auto intro: active_kept [OF assms(1) True])
next
  case False
  then show ?thesis
    using assms(1) by (simp add: mm_stream_data_notify_def)
qed

lemma cmd_turn_inv:
  assumes "stream_inv E w" and "cmd_active (strm w)"
  shows "ensures (cmd_thread_turn E w) (\<lambda>(rc, w'). stream_inv E w')"
proof -
  have state: "state (strm w) = MM_STREAM_STATE_ACTIVE"
    using assms by (cases "state (strm w)") (auto simp: stream_inv_def Let_def settled_stream_def)
  then have w: "plain_stream (strm w)" "ledger E w"
    using assms(1) by (auto simp: stream_inv_def Let_def configured_def)
  show ?thesis
    by (rule ensures_mono [OF cmd_thread_turn_ok [OF w(2,1)]])
      (auto intro: active_kept [OF assms(1) state])
qed

lemma run_op_ok:
  assumes "stream_inv E w" and "env_ok E" and "op_ok op (strm w)"
  shows "ensures (run_op E op w) (\<lambda>(rc, w'). stream_inv E w')"
proof (cases op)
  case (Event evt)
  then show ?thesis
    using mm_stream_fsm_fn_ok [OF assms(1,2)] assms(3) by simp
next
  case Data_notify
  then show ?thesis
    using data_notify_inv [OF assms(1)] assms(2) by (simp add: env_ok_def case_prod_unfold)
next
  case Cmd_turn
  then show ?thesis
    using cmd_turn_inv [OF assms(1)] assms(1) by simp
next
  case (Map_op m)
  have "length (buf_status (strm w)) = 64"
    using assms(1) by (simp add: stream_inv_def Let_def)
  then show ?thesis
    using Map_op map_op_ok [of m w E] assms(3) remapped_inv [OF _ assms(1)]
    by (auto elim!: ensures_mono)
next
  case (Reg_buf_cb v)
  then show ?thesis
    using reg_buf_cb_ok [OF assms(1), of v] assms(3) by (simp add: case_prod_unfold)
qed (use assms(1) in \<open>simp_all add: flags_inv\<close>)

text \<open>The contract of a run: the environment keeps its side, and so do the users at every step.\<close>

definition user_ok :: "stream_op \<Rightarrow> stream_world \<Rightarrow> bool" where
  "user_ok op w = op_ok op (strm w)"

definition stream_contract :: "stream_env \<Rightarrow> stream_op \<Rightarrow> stream_world \<Rightarrow> bool" where
  "stream_contract E op w \<longleftrightarrow> env_ok E \<and> user_ok op w"

interpretation stream_runs: safe_runs "run_op E" "stream_inv E" "stream_contract E" for E
  by unfold_locales (auto simp: stream_contract_def user_ok_def intro: run_op_ok)

text \<open>A stream before its first event, with a place in the table of the poll thread.\<close>

definition fresh_stream :: "stream_world \<Rightarrow> bool" where
  "fresh_stream w \<longleftrightarrow> has_slot w
     \<and> strm w = zeroed_stream\<lparr>my_handle := hdl w, fd := fd (strm w), vtbl := vtbl (strm w), state := MM_STREAM_STATE_INITED\<rparr>"

lemma fresh_inv: "fresh_stream w \<Longrightarrow> stream_inv E w"
proof -
  assume w: "fresh_stream w"
  then obtain h f v where "strm w = zeroed_stream\<lparr>my_handle := h, fd := f, vtbl := v, state := MM_STREAM_STATE_INITED\<rparr>"
    by (auto simp: fresh_stream_def)
  then show ?thesis
    using w by (simp add: stream_inv_def Let_def fresh_stream_def settled_stream_def cbs_ok_def
        zeroed_stream_def CAM_MAX_NUM_BUFS_PER_STREAM_def)
qed

lemma stream_run_kept:
  assumes "env_ok E" and "fresh_stream w0" and "run_ok (run_op E) user_ok ops w0"
  obtains rs w where "run_steps (run_op E) ops w0 = Some (rs, w)" "stream_inv E w"
proof -
  have contract: "run_ok (run_op E) (stream_contract E) ops w"
    if "run_ok (run_op E) user_ok ops w" for w
    using that
  proof (induction ops arbitrary: w)
    case (Cons op ops)
    then show ?case
      using assms(1) by (auto simp: stream_contract_def split: option.splits)
  qed simp
  show thesis
    using stream_runs.run_kept [OF fresh_inv [OF assms(2)] contract [OF assms(3)]] that
    by (auto elim!: ensuresE)
qed

end
