(* ===== verification/MmStreamGraph.thy ===== *)
theory MmStreamGraph
  imports MmStreamReach
begin

text \<open>
  The states of a stream form a graph. The operations below a state handler leave the state
  alone, whatever the environment answers, so a handler moves exactly as it says.
\<close>

section \<open>What leaves the state alone\<close>

definition same_state :: "stream_world \<Rightarrow> stream_world \<Rightarrow> bool" where
  "same_state w w' \<longleftrightarrow> state (strm w') = state (strm w)"

named_theorems stays

lemma same_state_refl [simp]: "same_state w w"
  by (simp add: same_state_def)

lemma same_state_trans: "same_state u v \<Longrightarrow> same_state v w \<Longrightarrow> same_state u w"
  by (simp add: same_state_def)

lemma same_state_kcall [simp]: "same_state u (snd (kcall E c w)) = same_state u w"
  by (simp add: same_state_def)

lemma kcall_stays [stays]: "kcall E c w = (rc, w') \<Longrightarrow> state (strm w') = state (strm w)"
  by (metis kcall_simps(2) snd_conv)

lemma on_status_stays [stays]: "on_status i f w = Some w' \<Longrightarrow> state (strm w') = state (strm w)"
  by (auto simp: on_status_def split: if_splits)

lemma write_buf_stays [stays]: "write_buf r f w = Some w' \<Longrightarrow> state (strm w') = state (strm w)"
  by (auto simp: write_buf_def Let_def split: if_splits bind_splits buf_ref.splits)

lemma poll_sig_stays [stays]:
  "mm_camera_poll_sig E ct cmd w = Some (rc, w') \<Longrightarrow> state (strm w') = state (strm w)"
  by (auto simp: mm_camera_poll_sig_def Let_def split: if_splits bind_splits prod.splits dest!: stays)

lemma add_poll_stays [stays]:
  "mm_camera_poll_thread_add_poll_fd E ct w = Some (rc, w') \<Longrightarrow> state (strm w') = state (strm w)"
  by (auto simp: mm_camera_poll_thread_add_poll_fd_def Let_def split: if_splits prod.splits dest!: stays)

lemma del_poll_stays [stays]:
  "mm_camera_poll_thread_del_poll_fd E ct w = Some (rc, w') \<Longrightarrow> state (strm w') = state (strm w)"
  by (auto simp: mm_camera_poll_thread_del_poll_fd_def Let_def split: if_splits prod.splits dest!: stays)

lemma commit_stays [stays]:
  "mm_camera_poll_thread_commit_updates E w = Some (rc, w') \<Longrightarrow> state (strm w') = state (strm w)"
  by (auto simp: mm_camera_poll_thread_commit_updates_def dest!: stays)

lemma qbuf_stays [stays]: "mm_stream_qbuf E b w = Some (rc, w') \<Longrightarrow> state (strm w') = state (strm w)"
  by (auto simp: mm_stream_qbuf_def Let_def split: if_splits bind_splits prod.splits dest!: stays)

lemma stamp_frames_stays [stays]:
  "stamp_frames i ks fr iv uv r n w = Some w' \<Longrightarrow> state (strm w') = state (strm w)"
  by (induction i ks fr iv uv r n w rule: stamp_frames.induct)
    (auto simp: Let_def split: if_splits bind_splits dest!: stays)

lemma read_user_buf_stays [stays]:
  "mm_stream_read_user_buf E r w = Some (rc, w') \<Longrightarrow> state (strm w') = state (strm w)"
  by (auto simp: mm_stream_read_user_buf_def Let_def split: if_splits bind_splits prod.splits dest!: stays)

lemma read_frame_stays [stays]:
  "mm_stream_read_msm_frame E n w = Some (rc, w') \<Longrightarrow> state (strm w') = state (strm w)"
  by (auto simp: mm_stream_read_msm_frame_def Let_def split: if_splits bind_splits prod.splits dest!: stays)

lemma queue_batch_stays [stays]:
  assumes "\<And>v. state (strm (q v)) = state (strm v)" and "queue_batch E i b q w = Some (rc, w')"
  shows "state (strm w') = state (strm w)"
  using assms(2)
  by (auto simp: queue_batch_def Let_def assms(1) split: if_splits bind_splits prod.splits dest!: stays)

lemma write_user_buf_stays [stays]:
  "mm_stream_write_user_buf E r w = Some (rc, w') \<Longrightarrow> state (strm w') = state (strm w)"
  by (auto simp: mm_stream_write_user_buf_def Let_def
      split: if_splits bind_splits prod.splits option.splits dest!: stays [rotated])

lemma buf_done_stays [stays]:
  "mm_stream_buf_done E r w = Some (rc, w') \<Longrightarrow> state (strm w') = state (strm w)"
  by (auto simp: mm_stream_buf_done_def Let_def split: if_splits bind_splits prod.splits dest!: stays)

lemma cancel_buf_stays [stays]:
  "mm_stream_cancel_buf E i w = Some (rc, w') \<Longrightarrow> state (strm w') = state (strm w)"
  by (auto simp: mm_stream_cancel_buf_def split: if_splits bind_splits dest!: stays)

lemma dispatch_cbs_stays [stays]:
  "dispatch_cbs E ks i w = Some w' \<Longrightarrow> state (strm w') = state (strm w)"
proof (induction ks arbitrary: w)
  case (Cons k ks)
  then show ?case
    by (auto simp: count_cb_def app_cb_def Let_def split: if_splits bind_splits prod.splits dest!: stays)
qed simp

lemma cmd_turn_stays [stays]:
  "cmd_thread_turn E w = Some (rc, w') \<Longrightarrow> state (strm w') = state (strm w)"
  by (auto simp: cmd_thread_turn_def mm_stream_dispatch_app_data_def
      split: bind_splits list.splits dest!: stays)

lemma serve_cmds_stays [stays]: "serve_cmds E is w = Some w' \<Longrightarrow> state (strm w') = state (strm w)"
proof (induction "is" arbitrary: w)
  case (Cons i "is")
  then show ?case
    by (auto split: bind_splits dest!: stays)
qed simp

lemma release_cmd_stays [stays]: "release_cmd_thread E w = Some w' \<Longrightarrow> state (strm w') = state (strm w)"
  by (auto simp: release_cmd_thread_def split: if_splits bind_splits prod.splits dest!: stays)

lemma map_statuses_stays [stays]: "map_statuses is v w = Some w' \<Longrightarrow> state (strm w') = state (strm w)"
proof (induction "is" arbitrary: w)
  case (Cons i "is")
  then show ?case
    by (auto split: bind_splits dest!: stays)
qed simp

lemma map_op_stays [stays]: "map_op E m w = Some (rc, w') \<Longrightarrow> state (strm w') = state (strm w)"
  by (cases m) (auto simp: mm_stream_map_buf_def mm_stream_map_bufs_def mm_stream_unmap_buf_def Let_def
      split: if_splits bind_splits prod.splits dest!: stays)

lemma map_ops_stays [stays]: "map_ops E ms w = Some w' \<Longrightarrow> state (strm w') = state (strm w)"
proof (induction ms arbitrary: w)
  case (Cons m ms)
  then show ?case
    by (auto split: bind_splits dest!: stays)
qed simp

lemma upcall_stays [stays]: "upcall E c w = Some (rc, w') \<Longrightarrow> state (strm w') = state (strm w)"
  by (auto simp: upcall_def split: bind_splits prod.splits dest!: stays)

lemma init_statuses_stays [stays]:
  "init_statuses is flags info w = Some w' \<Longrightarrow> state (strm w') = state (strm w)"
proof (induction "is" arbitrary: w)
  case (Cons i "is")
  then show ?case
    by (auto split: if_splits bind_splits dest!: stays)
qed simp

lemma init_planes_stays [stays]: "init_planes is info w = Some w' \<Longrightarrow> state (strm w') = state (strm w)"
proof (induction "is" arbitrary: w)
  case (Cons i "is")
  then show ?case
    by (auto split: bind_splits dest!: stays)
qed simp

lemma init_batch_stays [stays]: "init_batch planes info w = Some w' \<Longrightarrow> state (strm w') = state (strm w)"
  by (auto simp: init_batch_def Let_def split: if_splits bind_splits dest!: stays)

lemma deinit_bufs_stays [stays]:
  "mm_stream_deinit_bufs E w = Some (rc, w') \<Longrightarrow> state (strm w') = state (strm w)"
  by (auto simp: mm_stream_deinit_bufs_def split: if_splits bind_splits dest!: stays)

lemma init_bufs_stays [stays]:
  "mm_stream_init_bufs E w = Some (rc, w') \<Longrightarrow> state (strm w') = state (strm w)"
  by (auto simp: mm_stream_init_bufs_def Let_def split: if_splits bind_splits dest!: stays)

lemma reg_bufs_stays [stays]: "reg_bufs E is w = Some (rc, w') \<Longrightarrow> state (strm w') = state (strm w)"
proof (induction "is" arbitrary: w)
  case (Cons i "is")
  then show ?case
    by (auto split: if_splits bind_splits dest!: stays)
qed simp

lemma reg_buf_stays [stays]:
  "mm_stream_reg_buf E w = Some (rc, w') \<Longrightarrow> state (strm w') = state (strm w)"
  by (auto simp: mm_stream_reg_buf_def mm_stream_request_buf_def Let_def
      split: if_splits prod.splits dest!: stays)

lemma unreg_statuses_stays [stays]: "unreg_statuses is w = Some w' \<Longrightarrow> state (strm w') = state (strm w)"
proof (induction "is" arbitrary: w)
  case (Cons i "is")
  then show ?case
    by (auto split: bind_splits dest!: stays)
qed simp

lemma unreg_buf_stays [stays]:
  "mm_stream_unreg_buf E w = Some (rc, w') \<Longrightarrow> state (strm w') = state (strm w)"
  by (auto simp: mm_stream_unreg_buf_def split: bind_splits prod.splits dest!: stays)

lemma config_stays [stays]:
  "mm_stream_config E c w = Some (rc, w') \<Longrightarrow> state (strm w') = state (strm w)"
  by (auto simp: mm_stream_config_def mm_stream_sync_info_def mm_stream_set_fmt_def Let_def
      split: if_splits bind_splits prod.splits dest!: stays)

lemma streamon_stays [stays]:
  "mm_stream_streamon E w = Some (rc, w') \<Longrightarrow> state (strm w') = state (strm w)"
  by (auto simp: mm_stream_streamon_def Let_def
      split: if_splits bind_splits prod.splits mapping_check.splits dest!: stays)

lemma streamoff_stays [stays]:
  "mm_stream_streamoff E w = Some (rc, w') \<Longrightarrow> state (strm w') = state (strm w)"
  by (auto simp: mm_stream_streamoff_def Let_def split: if_splits bind_splits prod.splits dest!: stays)

lemma parm_evt_stays [stays]:
  "stream_parm_evt E evt w = Some (rc, w') \<Longrightarrow> state (strm w') = state (strm w)"
  by (cases evt) (auto simp: stream_parm_evt_def mm_stream_set_parm_def mm_stream_get_parm_def
      split: if_splits dest!: stays)

section \<open>The graph\<close>

text \<open>
  The next state by the code the event returns. A configuration moves to \<open>CFG\<close>, the buffers are
  put or unregistered and the stream stops also when that fails.
\<close>

definition next_stream_state :: "mm_stream_state \<Rightarrow> mm_stream_evt \<Rightarrow> int32 \<Rightarrow> mm_stream_state" where
  "next_stream_state st evt rc =
    (case (st, evt) of
       (MM_STREAM_STATE_INITED, MM_STREAM_EVT_ACQUIRE) \<Rightarrow>
         if rc = 0 then MM_STREAM_STATE_ACQUIRED else st
     | (MM_STREAM_STATE_ACQUIRED, MM_STREAM_EVT_SET_FMT _) \<Rightarrow> MM_STREAM_STATE_CFG
     | (MM_STREAM_STATE_ACQUIRED, MM_STREAM_EVT_RELEASE) \<Rightarrow> MM_STREAM_STATE_NOTUSED
     | (MM_STREAM_STATE_CFG, MM_STREAM_EVT_RELEASE) \<Rightarrow> MM_STREAM_STATE_NOTUSED
     | (MM_STREAM_STATE_CFG, MM_STREAM_EVT_GET_BUF) \<Rightarrow>
         if rc = 0 then MM_STREAM_STATE_BUFFED else st
     | (MM_STREAM_STATE_BUFFED, MM_STREAM_EVT_PUT_BUF) \<Rightarrow> MM_STREAM_STATE_CFG
     | (MM_STREAM_STATE_BUFFED, MM_STREAM_EVT_REG_BUF) \<Rightarrow>
         if rc = 0 then MM_STREAM_STATE_REG else st
     | (MM_STREAM_STATE_REG, MM_STREAM_EVT_UNREG_BUF) \<Rightarrow> MM_STREAM_STATE_BUFFED
     | (MM_STREAM_STATE_REG, MM_STREAM_EVT_START) \<Rightarrow>
         if rc = 0 then MM_STREAM_STATE_ACTIVE else st
     | (MM_STREAM_STATE_ACTIVE, MM_STREAM_EVT_STOP) \<Rightarrow> MM_STREAM_STATE_REG
     | _ \<Rightarrow> st)"

text \<open>The states in which an event is handled.\<close>

definition handled_in :: "mm_stream_evt \<Rightarrow> mm_stream_state set" where
  "handled_in evt =
    (case evt of
       MM_STREAM_EVT_ACQUIRE \<Rightarrow> {MM_STREAM_STATE_INITED}
     | MM_STREAM_EVT_SET_FMT _ \<Rightarrow> {MM_STREAM_STATE_ACQUIRED, MM_STREAM_STATE_CFG}
     | MM_STREAM_EVT_RELEASE \<Rightarrow> {MM_STREAM_STATE_ACQUIRED, MM_STREAM_STATE_CFG}
     | MM_STREAM_EVT_GET_BUF \<Rightarrow> {MM_STREAM_STATE_CFG}
     | MM_STREAM_EVT_PUT_BUF \<Rightarrow> {MM_STREAM_STATE_BUFFED}
     | MM_STREAM_EVT_REG_BUF \<Rightarrow> {MM_STREAM_STATE_BUFFED}
     | MM_STREAM_EVT_UNREG_BUF \<Rightarrow> {MM_STREAM_STATE_REG}
     | MM_STREAM_EVT_START \<Rightarrow> {MM_STREAM_STATE_REG}
     | MM_STREAM_EVT_SET_PARM _ \<Rightarrow> - {MM_STREAM_STATE_NOTUSED, MM_STREAM_STATE_INITED}
     | MM_STREAM_EVT_GET_PARM _ \<Rightarrow> - {MM_STREAM_STATE_NOTUSED, MM_STREAM_STATE_INITED}
     | _ \<Rightarrow> {MM_STREAM_STATE_ACTIVE})"

lemmas stream_handlers =
  mm_stream_fsm_inited_def mm_stream_fsm_acquired_def mm_stream_fsm_cfg_def mm_stream_fsm_buffed_def
  mm_stream_fsm_reg_def mm_stream_fsm_active_def

lemma fsm_unhandled:
  "state (strm w) \<notin> handled_in evt \<Longrightarrow>
    mm_stream_fsm_fn E evt w = Some (if state (strm w) = MM_STREAM_STATE_NOTUSED then -1 else 0, w)"
  by (cases "state (strm w)"; cases evt)
    (simp_all add: mm_stream_fsm_fn_def stream_handlers stream_parm_evt_def handled_in_def)

lemma fsm_next:
  assumes "mm_stream_fsm_fn E evt w = Some (rc, w')"
  shows "state (strm w') = next_stream_state (state (strm w)) evt rc"
proof (cases "state (strm w) \<in> handled_in evt")
  case False
  then show ?thesis
    using assms by (cases "state (strm w)"; cases evt)
      (auto simp: fsm_unhandled next_stream_state_def handled_in_def)
next
  case True
  show ?thesis
  proof (cases "state (strm w)")
    case MM_STREAM_STATE_INITED
    then show ?thesis
      using assms True
      by (cases evt) (auto simp: mm_stream_fsm_fn_def handled_in_def mm_stream_fsm_inited_def
          mm_stream_set_ext_mode_def next_stream_state_def Let_def split: if_splits prod.splits dest!: stays)
  next
    case MM_STREAM_STATE_ACQUIRED
    then show ?thesis
      using assms True
      by (cases evt) (auto simp: mm_stream_fsm_fn_def handled_in_def mm_stream_fsm_acquired_def
          next_stream_state_def split: bind_splits prod.splits dest!: stays)
  next
    case MM_STREAM_STATE_CFG
    then show ?thesis
      using assms True
      by (cases evt) (auto simp: mm_stream_fsm_fn_def handled_in_def mm_stream_fsm_cfg_def
          next_stream_state_def split: if_splits bind_splits prod.splits dest!: stays)
  next
    case MM_STREAM_STATE_BUFFED
    then show ?thesis
      using assms True
      by (cases evt) (auto simp: mm_stream_fsm_fn_def handled_in_def mm_stream_fsm_buffed_def
          next_stream_state_def split: if_splits bind_splits prod.splits dest!: stays)
  next
    case MM_STREAM_STATE_REG
    then show ?thesis
      using assms True
      by (cases evt) (auto simp: mm_stream_fsm_fn_def handled_in_def mm_stream_fsm_reg_def
          launch_cmd_thread_def next_stream_state_def Let_def split: if_splits bind_splits prod.splits dest!: stays)
  next
    case MM_STREAM_STATE_ACTIVE
    then show ?thesis
      using assms True
      by (cases evt) (auto simp: mm_stream_fsm_fn_def handled_in_def mm_stream_fsm_active_def
          mm_stream_do_action_def next_stream_state_def split: if_splits bind_splits prod.splits dest!: stays)
  qed (use assms in \<open>simp add: mm_stream_fsm_fn_def next_stream_state_def\<close>)
qed

section \<open>A sample environment\<close>

text \<open>
  A device that works, for the witnesses: the kernel hands the buffers out in the order it got
  them, and reports no frame when it has none; a stream gets two buffers. \<open>gives\<close> says whether the callbacks give them back at once.
\<close>

fun sample_fifo :: "uint32 \<Rightarrow> history \<Rightarrow> uint32 list" where
  "sample_fifo h [] = []"
| "sample_fifo h (kc # cs) =
    (if fst kc = h
     then case snd kc of
            VIDIOC_QBUF i planes \<Rightarrow> sample_fifo h cs @ [i]
          | VIDIOC_DQBUF planes \<Rightarrow> tl (sample_fifo h cs)
          | VIDIOC_REQBUFS n \<Rightarrow> []
          | _ \<Rightarrow> sample_fifo h cs
     else sample_fifo h cs)"

fun sample_rc :: "bool \<Rightarrow> history \<Rightarrow> int32" where
  "sample_rc gives [] = 0"
| "sample_rc gives (kc # cs) =
    (case snd kc of
       Get_dev_name \<Rightarrow> 1
     | Open_dev \<Rightarrow> 7
     | Malloc \<Rightarrow> 1
     | Pipe_write cmd \<Rightarrow> 8
     | VIDIOC_DQBUF n \<Rightarrow> if sample_fifo (fst kc) cs = [] then -1 else 0
     | Stream_cb k i \<Rightarrow> if gives then 1 else 0
     | _ \<Rightarrow> 0)"

fun sample_frame :: "history \<Rightarrow> v4l2_frame" where
  "sample_frame cs =
    \<lparr>vb_index = (case cs of [] \<Rightarrow> 0
                | kc # cs \<Rightarrow> (case sample_fifo (fst kc) cs of [] \<Rightarrow> 0 | i # _ \<Rightarrow> i)),
     vb_sequence = 1, vb_sec = 0, vb_usec = 0, vb_flags = 0, vb_uv_subsampled = False,
     vb_cont_cnt = 0, vb_cont_idx = []\<rparr>"

definition sample_buf :: "nat \<Rightarrow> mm_buf" where
  "sample_buf i =
    \<lparr>buf_stream_id = 0, buf_stream_type = CAM_STREAM_TYPE_PREVIEW, buf_type = CAM_STREAM_BUF_TYPE_MPLANE,
     buf_idx = of_nat i, is_uv_subsampled = False, ts_sec = 0, ts_nsec = 0, buf_frame_idx = 0,
     buf_flags = 0, buf_num_planes = 2, bufs_used = 0, buf_in_use = 0, batch_idx = [], cont_cnt = 0,
     cont_idx = []\<rparr>"

definition sample_media :: venus_media where
  "sample_media =
    \<lparr>VENUS_PRESENT = False, UBWC_PRESENT = False, VENUS_Y_STRIDE = (\<lambda>c x. x), VENUS_Y_SCANLINES = (\<lambda>c x. x),
     VENUS_UV_STRIDE = (\<lambda>c x. x), VENUS_UV_SCANLINES = (\<lambda>c x. x), VENUS_Y_META_STRIDE = (\<lambda>c x. x),
     VENUS_Y_META_SCANLINES = (\<lambda>c x. x), VENUS_UV_META_STRIDE = (\<lambda>c x. x),
     VENUS_UV_META_SCANLINES = (\<lambda>c x. x), VENUS_BUFFER_SIZE = (\<lambda>c x y. ucast (x * y)),
     MSM_MEDIA_ALIGN = (\<lambda>x y. x)\<rparr>"

definition sample_env :: "bool \<Rightarrow> stream_env" where
  "sample_env gives =
    \<lparr>rc_of = sample_rc gives, server_id_of = (\<lambda>cs. 1), frame_of = sample_frame,
     bufs_of = (\<lambda>cs. \<lparr>got_num = 2, got_reg_flags = [1, 1],
                       got_bufs = Some [sample_buf 0, sample_buf 1], got_plane_buf = None\<rparr>),
     maps_of = (\<lambda>cs. case cs of kc # _ \<Rightarrow>
        if snd kc = Put_bufs then [Unmap CAM_MAPPING_BUF_TYPE_STREAM_BUF 0, Unmap CAM_MAPPING_BUF_TYPE_STREAM_BUF 1]
        else (case snd kc of Get_bufs _ \<Rightarrow> [Map_bundle CAM_MAPPING_BUF_TYPE_STREAM_BUF 2] | _ \<Rightarrow> [])
      | [] \<Rightarrow> []),
     media = sample_media\<rparr>"

definition sample_planes :: cam_frame_len_offset where
  "sample_planes = \<lparr>num_planes = 0,
     mp = replicate 8 \<lparr>len = 0, offset = 0, offset_x = 0, offset_y = 0, stride = 0, stride_in_bytes = 0,
            scanline = 0, width = 0, height = 0, meta_stride = 0, meta_scanline = 0, meta_len = 0\<rparr>,
     frame_len = 0\<rparr>"

definition sample_config :: stream_config where
  "sample_config =
    \<lparr>cfg_stream_info =
       \<lparr>fmt = CAM_FORMAT_YUV_420_NV21, stream_type = CAM_STREAM_TYPE_PREVIEW,
        dim = \<lparr>dim_width = 64, dim_height = 64\<rparr>, rotation_feature = False, rotation = ROTATE_0,
        reprocess_config = CAM_ONLINE_REPROCESS_TYPE CAM_STREAM_TYPE_PREVIEW, buf_planes = sample_planes,
        num_bufs = 2, streaming_mode = CAM_STREAMING_MODE_CONTINUOUS, frame_buf_cnt = 0, batch_size = 0,
        frameInterval = 0, noFrameExpected = False\<rparr>,
     cfg_padding_info = \<lparr>width_padding = 2, height_padding = 2, plane_padding = 2, min_stride = 0,
        min_scanline = 0, pad_offset_x = 0, pad_offset_y = 0\<rparr>,
     cfg_mem_vtbl = \<lparr>has_set_config_ops = True, has_invalidate_buf = True, has_clean_invalidate_buf = True\<rparr>,
     cfg_stream_cb_sync = False, cfg_stream_cb = True\<rparr>"

definition sample_world :: stream_world where
  "sample_world =
    \<lparr>strm = zeroed_stream\<lparr>my_handle := 256, fd := -1, state := MM_STREAM_STATE_INITED\<rparr>,
     ctx = \<lparr>poll = snd (poll_launch MM_CAMERA_POLL_TYPE_DATA 5 zeroed_poll_thread), calls = [],
            ch_queue = [], linked_queue = []\<rparr>\<rparr>"

end
