(* ===== verification/MmChannel.thy ===== *)
theory MmChannel
  imports SuperbufThread MmStreamGraph CamHandles
begin

text \<open>
  The channel object of \<open>mm_camera_channel.c\<close>: the streams it has and those it is linked to,
  their start and stop together, and the state machine \<open>mm_channel_fsm_fn\<close>. It works on the
  streams through their own state machine (\<open>MmStreamFsm\<close>) and posts commands to its
  command thread (\<open>SuperbufThread\<close>).
\<close>

section \<open>Data\<close>

datatype mm_channel_state =
    MM_CHANNEL_STATE_NOTUSED | MM_CHANNEL_STATE_STOPPED | MM_CHANNEL_STATE_ACTIVE
  | MM_CHANNEL_STATE_PAUSED

text \<open>
  A place of the array \<open>streams\<close>: the stream object, its channel \<open>ch_obj\<close> (0 for \<open>NULL\<close>), for a copy
  of a stream of another channel where that stream is, and for a stream the channel it is
  linked to.
\<close>

record mm_stream_slot =
  slot_obj :: mm_stream_obj
  slot_ch :: addr
  slot_link :: "(addr \<times> nat) option"
  slot_linked_obj :: "addr option"

text \<open>
  A channel; \<open>ch_notes\<close> and \<open>ch_linked_notes\<close> are the frames its streams have announced, \<open>cmds_posted\<close> the
  commands posted since its command thread was launched. The superbuf queue has the settings
  the channel writes; what the command thread does with it is in \<open>SuperbufThread\<close>.
\<close>

record channel =
  ch_handle :: uint32
  ch_state :: mm_channel_state
  slots :: "mm_stream_slot list"
  poll_of :: poll_thread
  ch_notes :: "(uint32 \<times> nat) list"
  ch_linked_notes :: "(uint32 \<times> nat) list"
  notify_cb_set :: bool
  bundle_active :: bool
  bundle_queue :: mm_channel_queue
  cmd_launched :: bool
  cb_launched :: bool
  cmds_posted :: "channel_cmd list"
  wait_prep :: bool

record channels =
  channel_at :: "addr \<Rightarrow> channel"
  history_of :: history
  syncs :: mm_channel_frame_sync_info
  handle_count :: uint16

text \<open>
  The environment: that of the streams, and the buffers, by stream and place, that the
  command threads hand back while a caller waits for them, by the calls made so far.
\<close>

record channel_env =
  senv :: stream_env
  gives :: "history \<Rightarrow> (uint32 \<times> nat) list"

type_synonym 'a ch_result = "('a \<times> channels) option"

definition on_ch :: "addr \<Rightarrow> (channel \<Rightarrow> channel) \<Rightarrow> channels \<Rightarrow> channels" where
  "on_ch a f W = W\<lparr>channel_at := (channel_at W)(a := f (channel_at W a))\<rparr>"

definition on_slot :: "nat \<Rightarrow> (mm_stream_slot \<Rightarrow> mm_stream_slot) \<Rightarrow> channel \<Rightarrow> channel" where
  "on_slot k f c = c\<lparr>slots := (slots c)[k := f (slots c ! k)]\<rparr>"

definition zeroed_slot :: mm_stream_slot where
  "zeroed_slot = \<lparr>slot_obj = zeroed_stream, slot_ch = 0, slot_link = None, slot_linked_obj = None\<rparr>"

definition zeroed_queue :: mm_channel_queue where
  "zeroed_queue =
    \<lparr>que = [], que_size = 0, num_streams = 0, bundled_streams = replicate PollThread.MAX_STREAM_NUM_IN_BUNDLE 0,
     attr = \<lparr>notify_mode = MM_CAMERA_SUPER_BUF_NOTIFY_BURST, water_mark = 0, look_back = 0,
       post_frame_skip = 0, max_unmatched_frames = 0, enable_frame_sync = False,
       priority = MM_CAMERA_SUPER_BUF_PRIORITY_NORMAL, user_expected_frame_id = 0\<rparr>,
     expected_frame_id = 0, match_cnt = 0, expected_frame_id_without_led = 0,
     led_on_start_frame_id = 0, led_off_start_frame_id = 0, led_on_num_frames = 0, once = False,
     frame_skip_count = 0, good_frame_id = 0\<rparr>"

text \<open>The object as \<open>memset\<close> leaves it.\<close>

definition zeroed_channel :: channel where
  "zeroed_channel =
    \<lparr>ch_handle = 0, ch_state = MM_CHANNEL_STATE_NOTUSED,
     slots = replicate PollThread.MAX_STREAM_NUM_IN_BUNDLE zeroed_slot, poll_of = zeroed_poll_thread,
     ch_notes = [], ch_linked_notes = [], notify_cb_set = False, bundle_active = False,
     bundle_queue = zeroed_queue, cmd_launched = False, cb_launched = False, cmds_posted = [], wait_prep = False\<rparr>"

section \<open>Its streams\<close>

text \<open>An operation on the stream in a place, with the poll thread and the queues of its channel.\<close>

definition stream_view :: "addr \<Rightarrow> nat \<Rightarrow> channels \<Rightarrow> stream_world" where
  "stream_view a k W =
    (let c = channel_at W a
     in \<lparr>strm = slot_obj (slots c ! k),
         ctx = \<lparr>poll = poll_of c, calls = history_of W, ch_queue = ch_notes c, linked_queue = ch_linked_notes c\<rparr>\<rparr>)"

text \<open>The release of a stream clears the whole object.\<close>

definition put_stream :: "addr \<Rightarrow> nat \<Rightarrow> stream_world \<Rightarrow> channels \<Rightarrow> channels" where
  "put_stream a k w W =
    (let f = \<lambda>s. (if my_handle (strm w) = 0 then zeroed_slot\<lparr>slot_obj := strm w\<rparr> else s\<lparr>slot_obj := strm w\<rparr>)
     in (on_ch a (\<lambda>c. (on_slot k f c)\<lparr>poll_of := poll (ctx w), ch_notes := ch_queue (ctx w),
                ch_linked_notes := linked_queue (ctx w)\<rparr>) W)\<lparr>history_of := calls (ctx w)\<rparr>)"

definition on_stream :: "channel_env \<Rightarrow> addr \<Rightarrow> nat \<Rightarrow> stream_op \<Rightarrow> channels \<Rightarrow> int32 ch_result" where
  "on_stream E a k op W =
    (if k < length (slots (channel_at W a))
     then map_option (\<lambda>(rc, w). (rc, put_stream a k w W)) (run_op (senv E) op (stream_view a k W))
     else None)"

text \<open>A call that only the channel makes.\<close>

definition ch_call :: "channel_env \<Rightarrow> kcall \<Rightarrow> addr \<Rightarrow> channels \<Rightarrow> int32 \<times> channels" where
  "ch_call E k a W =
    (let h = (ch_handle (channel_at W a), k) # history_of W
     in (rc_of (senv E) h, W\<lparr>history_of := h\<rparr>))"

definition stream_by_handler :: "uint32 \<Rightarrow> mm_stream_slot list \<Rightarrow> nat option" where
  "stream_by_handler h ss =
    first_index (\<lambda>s. state (slot_obj s) \<noteq> MM_STREAM_STATE_NOTUSED \<and> my_handle (slot_obj s) = h) ss"

definition is_own :: "addr \<Rightarrow> channels \<Rightarrow> nat \<Rightarrow> bool" where
  "is_own a W k \<longleftrightarrow> slot_ch (slots (channel_at W a) ! k) = a"

text \<open>
  An operation on the stream with a handle. For a linked stream it does nothing and returns
  0, or it goes to the stream of the other channel (\<open>redirect\<close>), whose place must be known.
\<close>

definition with_stream :: "channel_env \<Rightarrow> bool \<Rightarrow> addr \<Rightarrow> uint32 \<Rightarrow> stream_op \<Rightarrow> channels \<Rightarrow> int32 ch_result" where
  "with_stream E redirect a h op W =
    (case stream_by_handler h (slots (channel_at W a)) of
       None \<Rightarrow> Some (-1, W)
     | Some k \<Rightarrow>
         if is_own a W k then on_stream E a k op W
         else if redirect
         then (case slot_link (slots (channel_at W a) ! k) of
                 None \<Rightarrow> None
               | Some (b, j) \<Rightarrow> on_stream E b j op W)
         else Some (0, W))"

definition channel_qbuf :: "channel_env \<Rightarrow> addr \<Rightarrow> uint32 \<Rightarrow> buf_ref \<Rightarrow> channels \<Rightarrow> int32 ch_result" where
  "channel_qbuf E a h r = with_stream E True a h (Event (MM_STREAM_EVT_QBUF r))"

definition mm_channel_cancel_buf :: "channel_env \<Rightarrow> addr \<Rightarrow> uint32 \<Rightarrow> uint32 \<Rightarrow> channels \<Rightarrow> int32 ch_result" where
  "mm_channel_cancel_buf E a h i = with_stream E True a h (Event (MM_STREAM_EVT_CANCEL_BUF i))"

definition mm_channel_get_queued_buf_count :: "channel_env \<Rightarrow> addr \<Rightarrow> uint32 \<Rightarrow> channels \<Rightarrow> int32 ch_result" where
  "mm_channel_get_queued_buf_count E a h = with_stream E True a h (Event MM_STREAM_EVT_GET_QUEUED_BUF_COUNT)"

definition mm_channel_set_stream_parm :: "channel_env \<Rightarrow> addr \<Rightarrow> uint32 \<Rightarrow> channels \<Rightarrow> int32 ch_result" where
  "mm_channel_set_stream_parm E a h = with_stream E False a h (Event (MM_STREAM_EVT_SET_PARM True))"

definition mm_channel_get_stream_parm :: "channel_env \<Rightarrow> addr \<Rightarrow> uint32 \<Rightarrow> channels \<Rightarrow> int32 ch_result" where
  "mm_channel_get_stream_parm E a h = with_stream E False a h (Event (MM_STREAM_EVT_GET_PARM True))"

definition mm_channel_do_stream_action :: "channel_env \<Rightarrow> addr \<Rightarrow> uint32 \<Rightarrow> channels \<Rightarrow> int32 ch_result" where
  "mm_channel_do_stream_action E a h = with_stream E False a h (Event (MM_STREAM_EVT_DO_ACTION True))"

definition mm_channel_config_stream ::
    "channel_env \<Rightarrow> addr \<Rightarrow> uint32 \<Rightarrow> stream_config \<Rightarrow> channels \<Rightarrow> int32 ch_result" where
  "mm_channel_config_stream E a h c = with_stream E False a h (Event (MM_STREAM_EVT_SET_FMT c))"

definition mm_channel_reg_stream_buf_cb ::
    "channel_env \<Rightarrow> addr \<Rightarrow> uint32 \<Rightarrow> mm_stream_data_cb \<Rightarrow> channels \<Rightarrow> int32 ch_result" where
  "mm_channel_reg_stream_buf_cb E a h v = with_stream E False a h (Reg_buf_cb v)"

text \<open>Requests to map or unmap, with the handle of the stream; a missing one is \<open>NULL\<close>.\<close>

type_synonym buf_map = "(uint32 \<times> cam_mapping_buf_type \<times> uint32) option"
type_synonym buf_maps = "(uint32 \<times> cam_mapping_buf_type \<times> nat) option"

definition mm_channel_map_stream_buf :: "channel_env \<Rightarrow> addr \<Rightarrow> buf_map \<Rightarrow> channels \<Rightarrow> int32 ch_result" where
  "mm_channel_map_stream_buf E a p W =
    do { (h, ty, i) \<leftarrow> p; with_stream E False a h (Map_op (Map ty i)) W }"

definition mm_channel_map_stream_bufs :: "channel_env \<Rightarrow> addr \<Rightarrow> buf_maps \<Rightarrow> channels \<Rightarrow> int32 ch_result" where
  "mm_channel_map_stream_bufs E a p W =
    (case p of
       None \<Rightarrow> Some (-1, W)
     | Some (h, ty, n) \<Rightarrow>
         if n = 0 then Some (-1, W) else with_stream E False a h (Map_op (Map_bundle ty n)) W)"

definition mm_channel_unmap_stream_buf :: "channel_env \<Rightarrow> addr \<Rightarrow> buf_map \<Rightarrow> channels \<Rightarrow> int32 ch_result" where
  "mm_channel_unmap_stream_buf E a p W =
    do { (h, ty, i) \<leftarrow> p; with_stream E False a h (Map_op (Unmap ty i)) W }"

section \<open>Adding, linking and deleting streams\<close>

definition free_slot :: "channel \<Rightarrow> nat option" where
  "free_slot c = first_index (\<lambda>s. state (slot_obj s) = MM_STREAM_STATE_NOTUSED) (slots c)"

definition mm_channel_add_stream :: "channel_env \<Rightarrow> addr \<Rightarrow> channels \<Rightarrow> uint32 ch_result" where
  "mm_channel_add_stream E a W =
    (case free_slot (channel_at W a) of
       None \<Rightarrow> Some (0, W)
     | Some k \<Rightarrow>
         let (h, n) = mm_camera_util_generate_handler (handle_count W) (of_nat k);
             s = zeroed_slot\<lparr>slot_obj := zeroed_stream\<lparr>fd := -1, my_handle := h, state := MM_STREAM_STATE_INITED\<rparr>,
                   slot_ch := a\<rparr>;
             W = (on_ch a (on_slot k (\<lambda>_. s)) W)\<lparr>handle_count := n\<rparr>
         in do {
              (rc, W) \<leftarrow> on_stream E a k (Event MM_STREAM_EVT_ACQUIRE) W;
              Some (if rc = 0 then (my_handle (slot_obj (slots (channel_at W a) ! k)), W)
                    else (0, on_ch a (on_slot k (\<lambda>_. zeroed_slot)) W)) })"

text \<open>The stream to link is given by its channel and its handle.\<close>

definition mm_channel_link_stream :: "addr \<Rightarrow> (addr \<times> uint32) option \<Rightarrow> channels \<Rightarrow> uint32 \<times> channels" where
  "mm_channel_link_stream a link W =
    (case link of
       None \<Rightarrow> (0, W)
     | Some (b, h) \<Rightarrow>
         (case stream_by_handler h (slots (channel_at W b)) of
            None \<Rightarrow> (0, W)
          | Some j \<Rightarrow>
              (case free_slot (channel_at W a) of
                 None \<Rightarrow> (0, W)
               | Some k \<Rightarrow>
                   let s = slots (channel_at W b) ! j
                   in (my_handle (slot_obj s), on_ch a (on_slot k (\<lambda>_. s\<lparr>slot_link := Some (b, j)\<rparr>)) W))))"

text \<open>Whether the stream a place is a copy of is linked, and to which channel.\<close>

definition set_link :: "addr \<Rightarrow> nat \<Rightarrow> bool \<Rightarrow> channels \<Rightarrow> channels option" where
  "set_link a k linked W = do {
     (b, j) \<leftarrow> slot_link (slots (channel_at W a) ! k);
     Some (on_ch b (on_slot j (\<lambda>s. s\<lparr>slot_obj := (slot_obj s)\<lparr>is_linked := linked\<rparr>,
                                    slot_linked_obj := (if linked then Some a else None)\<rparr>)) W) }"

definition mm_channel_del_stream :: "channel_env \<Rightarrow> addr \<Rightarrow> uint32 \<Rightarrow> channels \<Rightarrow> int32 ch_result" where
  "mm_channel_del_stream E a h W =
    (case stream_by_handler h (slots (channel_at W a)) of
       None \<Rightarrow> Some (-1, W)
     | Some k \<Rightarrow>
         if is_own a W k then on_stream E a k (Event MM_STREAM_EVT_RELEASE) W
         else do { W \<leftarrow> set_link a k False W; Some (0, on_ch a (on_slot k (\<lambda>_. zeroed_slot)) W) })"

text \<open>The streams, by place, as \<open>start\<close> and \<open>stop\<close> gather them.\<close>

definition used_streams :: "channel \<Rightarrow> nat list" where
  "used_streams c =
    concat (List.map (\<lambda>s. if my_handle (slot_obj s) = 0 then []
       else case stream_by_handler (my_handle (slot_obj s)) (slots c) of None \<Rightarrow> [] | Some k \<Rightarrow> [k]) (slots c))"

definition info_at :: "addr \<Rightarrow> channels \<Rightarrow> nat \<Rightarrow> stream_info option" where
  "info_at a W k = stream_info (slot_obj (slots (channel_at W a) ! k))"

text \<open>
  The bundle information: the channel and the server numbers of its own streams but metadata.
  A handle without a stream clears it.
\<close>

fun bundle_ids :: "addr \<Rightarrow> channels \<Rightarrow> mm_stream_slot list \<Rightarrow> (int32 \<times> uint32 list) option" where
  "bundle_ids a W [] = Some (0, [])"
| "bundle_ids a W (s # ss) =
    (if my_handle (slot_obj s) = 0 then bundle_ids a W ss
     else case stream_by_handler (my_handle (slot_obj s)) (slots (channel_at W a)) of
            None \<Rightarrow> Some (-1, [])
          | Some k \<Rightarrow> do {
              info \<leftarrow> info_at a W k;
              (rc, ids) \<leftarrow> bundle_ids a W ss;
              Some (rc, if stream_type info \<noteq> CAM_STREAM_TYPE_METADATA \<and> is_own a W k
                        then server_id (slot_obj (slots (channel_at W a) ! k)) # ids else ids) })"

definition mm_channel_get_bundle_info :: "addr \<Rightarrow> channels \<Rightarrow> (int32 \<times> uint32 \<times> uint32 list) option" where
  "mm_channel_get_bundle_info a W = do {
     (rc, ids) \<leftarrow> bundle_ids a W (slots (channel_at W a));
     Some (if rc = 0 then (0, ch_handle (channel_at W a), ids) else (rc, 0, [])) }"

section \<open>Commands to the command thread\<close>

definition post_cmd :: "channel_env \<Rightarrow> addr \<Rightarrow> channel_cmd \<Rightarrow> channels \<Rightarrow> int32 \<times> channels" where
  "post_cmd E a cmd W =
    (let (node, W) = ch_call E Malloc a W
     in if node \<noteq> 0 then (0, on_ch a (\<lambda>c. c\<lparr>cmds_posted := cmds_posted c @ [cmd]\<rparr>) W) else (-1, W))"

definition mm_channel_request_super_buf :: "channel_env \<Rightarrow> addr \<Rightarrow> req_buf option \<Rightarrow> channels \<Rightarrow> int32 \<times> channels" where
  "mm_channel_request_super_buf E a r W =
    (case r of None \<Rightarrow> (-1, W) | Some r \<Rightarrow> post_cmd E a (MM_CAMERA_CMD_TYPE_REQ_DATA_CB r) W)"

definition mm_channel_cancel_super_buf_request :: "channel_env \<Rightarrow> addr \<Rightarrow> channels \<Rightarrow> int32 \<times> channels" where
  "mm_channel_cancel_super_buf_request E a =
    mm_channel_request_super_buf E a
      (Some \<lparr>rb_type = MM_CAMERA_REQ_SUPER_BUF, num_buf_requested = 0, num_retro_buf_requested = 0\<rparr>)"

definition mm_channel_config_notify_mode :: "channel_env \<Rightarrow> addr \<Rightarrow> notify_mode \<Rightarrow> channels \<Rightarrow> int32 \<times> channels" where
  "mm_channel_config_notify_mode E a m = post_cmd E a (MM_CAMERA_CMD_TYPE_CONFIG_NOTIFY m)"

definition mm_channel_start_zsl_snapshot :: "channel_env \<Rightarrow> addr \<Rightarrow> channels \<Rightarrow> int32 \<times> channels" where
  "mm_channel_start_zsl_snapshot E a = post_cmd E a MM_CAMERA_CMD_TYPE_START_ZSL"

definition mm_channel_stop_zsl_snapshot :: "channel_env \<Rightarrow> addr \<Rightarrow> channels \<Rightarrow> int32 \<times> channels" where
  "mm_channel_stop_zsl_snapshot E a = post_cmd E a MM_CAMERA_CMD_TYPE_STOP_ZSL"

definition mm_channel_proc_general_cmd :: "channel_env \<Rightarrow> addr \<Rightarrow> general_cmd \<Rightarrow> channels \<Rightarrow> int32 \<times> channels" where
  "mm_channel_proc_general_cmd E a g = post_cmd E a (MM_CAMERA_CMD_TYPE_GENERAL g)"

text \<open>
  Who waits for a thread of the channel, until it has served a command or has ended, finds the
  buffers given back that it handed back meanwhile.
\<close>

fun give_backs :: "channel_env \<Rightarrow> addr \<Rightarrow> (uint32 \<times> nat) list \<Rightarrow> channels \<Rightarrow> channels option" where
  "give_backs E a [] W = Some W"
| "give_backs E a ((h, i) # gs) W = do {
     (_, W) \<leftarrow> channel_qbuf E a h (Buf i) W;
     give_backs E a gs W }"

definition await_thread :: "channel_env \<Rightarrow> addr \<Rightarrow> channels \<Rightarrow> channels option" where
  "await_thread E a W = give_backs E a (gives E (history_of W)) W"

definition mm_channel_flush_super_buf_queue ::
    "channel_env \<Rightarrow> addr \<Rightarrow> uint32 \<Rightarrow> cam_stream_type \<Rightarrow> channels \<Rightarrow> int32 ch_result" where
  "mm_channel_flush_super_buf_queue E a f ty W =
    (let (rc, W) = post_cmd E a (MM_CAMERA_CMD_TYPE_FLUSH_QUEUE f ty) W
     in if rc = 0 then do { W \<leftarrow> await_thread E a W; Some (rc, W) } else Some (rc, W))"

text \<open>\<open>mm_camera_cmd_thread_release\<close> of the command thread and of the callback thread.\<close>

definition release_cmd :: "channel_env \<Rightarrow> addr \<Rightarrow> channels \<Rightarrow> channels option" where
  "release_cmd E a W =
    (let (node, W) = ch_call E Malloc a W
     in if node = 0 then Some W
        else do {
          W \<leftarrow> await_thread E a W;
          Some (on_ch a (\<lambda>c. c\<lparr>cmd_launched := False, cmds_posted := []\<rparr>) W) })"

definition release_cb :: "channel_env \<Rightarrow> addr \<Rightarrow> channels \<Rightarrow> channels option" where
  "release_cb E a W =
    (let (node, W) = ch_call E Malloc a W
     in if node = 0 then Some W
        else do {
          W \<leftarrow> await_thread E a W;
          Some (on_ch a (\<lambda>c. c\<lparr>cb_launched := False\<rparr>) W) })"

section \<open>Start and stop\<close>

text \<open>The place of the metadata stream of the channel among the streams gathered, or 0.\<close>

definition is_meta :: "addr \<Rightarrow> channels \<Rightarrow> nat \<Rightarrow> bool" where
  "is_meta a W k \<longleftrightarrow> is_own a W k
     \<and> (case info_at a W k of None \<Rightarrow> False | Some i \<Rightarrow> stream_type i = CAM_STREAM_TYPE_METADATA)"

definition meta_stream_idx :: "addr \<Rightarrow> channels \<Rightarrow> nat list \<Rightarrow> nat" where
  "meta_stream_idx a W ks = fold (\<lambda>j m. if is_meta a W (ks ! j) then j else m) [0 ..< length ks] 0"

definition swapped :: "nat \<Rightarrow> nat \<Rightarrow> 'a list \<Rightarrow> 'a list" where
  "swapped i j xs = xs[i := xs ! j, j := xs ! i]"

definition start_order :: "addr \<Rightarrow> channels \<Rightarrow> nat list" where
  "start_order a W =
    (let ks = used_streams (channel_at W a); m = meta_stream_idx a W ks
     in if 0 < m then swapped 0 m ks else ks)"

definition stop_order :: "addr \<Rightarrow> channels \<Rightarrow> nat list" where
  "stop_order a W =
    (let ks = used_streams (channel_at W a); m = meta_stream_idx a W ks
     in if m + 1 < length ks then swapped (length ks - 1) m ks else ks)"

definition frames_expected :: "addr \<Rightarrow> channels \<Rightarrow> nat \<Rightarrow> bool" where
  "frames_expected a W k \<longleftrightarrow> (case info_at a W k of None \<Rightarrow> False | Some i \<Rightarrow> \<not> noFrameExpected i)"

text \<open>The bundle of a channel with a callback: its queue, the flags of its streams, its threads.\<close>

definition setup_queue :: "uint32 list \<Rightarrow> mm_channel_queue \<Rightarrow> mm_channel_queue" where
  "setup_queue hs q =
    (let q = mm_channel_superbuf_queue_init q
     in q\<lparr>num_streams := of_nat (length hs), expected_frame_id := ucast (user_expected_frame_id (attr q)),
          expected_frame_id_without_led := 0, led_off_start_frame_id := 0, led_on_start_frame_id := 0,
          led_on_num_frames := 0, good_frame_id := 0,
          bundled_streams := hs @ drop (length hs) (bundled_streams q)\<rparr>)"

definition start_bundle :: "addr \<Rightarrow> nat list \<Rightarrow> channels \<Rightarrow> channels" where
  "start_bundle a ks W =
    (let ks = filter (frames_expected a W) ks; own = filter (is_own a W) ks;
         hs = List.map (\<lambda>k. my_handle (slot_obj (slots (channel_at W a) ! k))) ks
     in on_ch a (\<lambda>c. fold (\<lambda>k. on_slot k (\<lambda>s. s\<lparr>slot_obj := (slot_obj s)\<lparr>is_bundled := True\<rparr>\<rparr>)) own
              (c\<lparr>bundle_queue := setup_queue hs (bundle_queue c), cb_launched := True, cmd_launched := True,
                 cmds_posted := [], bundle_active := True\<rparr>)) W)"

fun set_links :: "addr \<Rightarrow> bool \<Rightarrow> nat list \<Rightarrow> channels \<Rightarrow> channels option" where
  "set_links a linked [] W = Some W"
| "set_links a linked (k # ks) W =
    (if is_own a W k then set_links a linked ks W
     else do { W \<leftarrow> set_link a k linked W; set_links a linked ks W })"

text \<open>
  Starting the streams one by one; on a failure, with the number of those before it. A
  stream that is linked is not started.
\<close>

fun start_streams :: "channel_env \<Rightarrow> addr \<Rightarrow> nat list \<Rightarrow> nat \<Rightarrow> channels \<Rightarrow> (int32 \<times> nat) ch_result" where
  "start_streams E a [] i W = Some ((0, i), W)"
| "start_streams E a (k # ks) i W =
    (if \<not> is_own a W k then start_streams E a ks (i + 1) W
     else if state (slot_obj (slots (channel_at W a) ! k)) = MM_STREAM_STATE_ACTIVE then Some ((-1, i), W)
     else do {
       (rc, W) \<leftarrow> on_stream E a k (Event MM_STREAM_EVT_GET_BUF) W;
       if rc \<noteq> 0 then Some ((rc, i), W)
       else do {
         (rc, W) \<leftarrow> on_stream E a k (Event MM_STREAM_EVT_REG_BUF) W;
         if rc \<noteq> 0 then Some ((rc, i), W)
         else do {
           (rc, W) \<leftarrow> on_stream E a k (Event MM_STREAM_EVT_START) W;
           if rc \<noteq> 0 then Some ((rc, i), W) else start_streams E a ks (i + 1) W } } })"

fun stream_events :: "channel_env \<Rightarrow> addr \<Rightarrow> nat \<Rightarrow> mm_stream_evt list \<Rightarrow> channels \<Rightarrow> channels option" where
  "stream_events E a k [] W = Some W"
| "stream_events E a k (evt # evts) W = do {
     (_, W) \<leftarrow> on_stream E a k (Event evt) W;
     stream_events E a k evts W }"

text \<open>Events for the own streams of a list, whatever they return.\<close>

fun each_own :: "channel_env \<Rightarrow> addr \<Rightarrow> mm_stream_evt list \<Rightarrow> nat list \<Rightarrow> channels \<Rightarrow> channels option" where
  "each_own E a evts [] W = Some W"
| "each_own E a evts (k # ks) W =
    (if \<not> is_own a W k then each_own E a evts ks W
     else do {
       W \<leftarrow> stream_events E a k evts W;
       each_own E a evts ks W })"

text \<open>After a failed start the links are undone, and the copies of linked streams cleared.\<close>

fun drop_links :: "channel_env \<Rightarrow> addr \<Rightarrow> cam_stream_type \<Rightarrow> nat list \<Rightarrow> channels \<Rightarrow> channels option" where
  "drop_links E a ty [] W = Some W"
| "drop_links E a ty (k # ks) W =
    (if is_own a W k then drop_links E a ty ks W
     else do {
       W \<leftarrow> set_link a k False W;
       (_, W) \<leftarrow> (if bundle_active (channel_at W a)
                  then mm_channel_flush_super_buf_queue E a 0 ty W else Some (0, W));
       drop_links E a ty ks (on_ch a (on_slot k (\<lambda>_. zeroed_slot)) W) })"

definition end_threads :: "channel_env \<Rightarrow> addr \<Rightarrow> channels \<Rightarrow> channels option" where
  "end_threads E a W = do { W \<leftarrow> release_cmd E a W; release_cb E a W }"

definition undo_start :: "channel_env \<Rightarrow> addr \<Rightarrow> nat list \<Rightarrow> nat \<Rightarrow> channels \<Rightarrow> channels option" where
  "undo_start E a ks i W = do {
     info \<leftarrow> info_at a W (ks ! i);
     W \<leftarrow> drop_links E a (stream_type info) ks W;
     W \<leftarrow> each_own E a [MM_STREAM_EVT_STOP, MM_STREAM_EVT_UNREG_BUF, MM_STREAM_EVT_PUT_BUF]
            (take (i + 1) ks) W;
     if bundle_active (channel_at W a)
     then do {
       W \<leftarrow> end_threads E a W;
       Some (on_ch a (\<lambda>c. c\<lparr>bundle_active := False, bundle_queue := zeroed_queue\<rparr>) W) }
     else Some W }"

definition mm_channel_start :: "channel_env \<Rightarrow> addr \<Rightarrow> channels \<Rightarrow> int32 ch_result" where
  "mm_channel_start E a W =
    (let ks = start_order a W
     in if \<exists>k \<in> set ks. info_at a W k = None then None
        else do {
          let W = (if notify_cb_set (channel_at W a) then start_bundle a ks W else W);
          W \<leftarrow> set_links a True ks W;
          ((rc, i), W) \<leftarrow> start_streams E a ks 0 W;
          W \<leftarrow> (if rc \<noteq> 0 then undo_start E a ks i W else Some W);
          let W = on_ch a (\<lambda>c. c\<lparr>wait_prep := False\<rparr>) W;
          Some (rc, if enable_frame_sync (attr (bundle_queue (channel_at W a)))
                    then W\<lparr>syncs := snd (mm_frame_sync_register_channel a (syncs W))\<rparr> else W) })"

definition mm_channel_stop :: "channel_env \<Rightarrow> addr \<Rightarrow> channels \<Rightarrow> int32 ch_result" where
  "mm_channel_stop E a W =
    (let W = (if enable_frame_sync (attr (bundle_queue (channel_at W a)))
              then W\<lparr>syncs := snd (mm_frame_sync_unregister_channel a (syncs W))\<rparr> else W);
         ks = stop_order a W
     in if \<exists>k \<in> set ks. is_own a W k \<and> info_at a W k = None then None
        else do {
          W \<leftarrow> each_own E a [MM_STREAM_EVT_STOP, MM_STREAM_EVT_UNREG_BUF] ks W;
          W \<leftarrow> set_links a False ks W;
          W \<leftarrow> (if bundle_active (channel_at W a)
                then do {
                  (_, W) \<leftarrow> mm_channel_flush_super_buf_queue E a 0 CAM_STREAM_TYPE_DEFAULT W;
                  W \<leftarrow> end_threads E a W;
                  Some (on_ch a (\<lambda>c. c\<lparr>bundle_active := False,
                    bundle_queue := (mm_channel_superbuf_queue_init (bundle_queue c))
                      \<lparr>expected_frame_id := 0, good_frame_id := 0, match_cnt := 0\<rparr>\<rparr>) W) }
                else Some W);
          W \<leftarrow> each_own E a [MM_STREAM_EVT_PUT_BUF] ks W;
          Some (0, on_ch a (\<lambda>c. fold (\<lambda>k. on_slot k (\<lambda>_. zeroed_slot))
                             (filter (\<lambda>k. \<not> is_own a W k) ks) c) W) })"

section \<open>Opening and closing a channel\<close>

text \<open>
  The poll thread is launched with the read end of its pipe, or -1, and has set itself up; the
  code does not look whether that worked.
\<close>

definition launched_poll :: "int32 \<Rightarrow> poll_thread \<Rightarrow> poll_thread option" where
  "launched_poll pipe_fd p =
    (let (rc, p) = poll_launch MM_CAMERA_POLL_TYPE_DATA pipe_fd p
     in if rc = 0
        then do { p \<leftarrow> thread_entry p; Some (p\<lparr>poll_state := MM_CAMERA_POLL_TASK_STATE_POLL\<rparr>) }
        else Some p)"

definition mm_channel_init ::
    "int32 \<Rightarrow> mm_camera_channel_attr option \<Rightarrow> bool \<Rightarrow> channel \<Rightarrow> (int32 \<times> channel) option" where
  "mm_channel_init pipe_fd new_attr with_cb c = do {
     p \<leftarrow> launched_poll pipe_fd (poll_of c);
     let q = bundle_queue c;
     Some (0, c\<lparr>notify_cb_set := with_cb,
                bundle_queue := (case new_attr of None \<Rightarrow> q | Some x \<Rightarrow> q\<lparr>attr := x\<rparr>),
                poll_of := p, ch_state := MM_CHANNEL_STATE_STOPPED\<rparr>) }"

definition mm_channel_release :: "channel \<Rightarrow> channel" where
  "mm_channel_release c =
    c\<lparr>poll_of := snd (mm_camera_poll_thread_release (poll_of c)), bundle_active := False,
      bundle_queue := zeroed_queue, notify_cb_set := False, ch_state := MM_CHANNEL_STATE_NOTUSED\<rparr>"

section \<open>The state machine\<close>

datatype mm_channel_evt =
    MM_CHANNEL_EVT_ADD_STREAM
  | MM_CHANNEL_EVT_DEL_STREAM uint32
  | MM_CHANNEL_EVT_LINK_STREAM "(addr \<times> uint32) option"
  | MM_CHANNEL_EVT_CONFIG_STREAM uint32 stream_config
  | MM_CHANNEL_EVT_GET_BUNDLE_INFO
  | MM_CHANNEL_EVT_START
  | MM_CHANNEL_EVT_STOP
  | MM_CHANNEL_EVT_PAUSE
  | MM_CHANNEL_EVT_RESUME
  | MM_CHANNEL_EVT_REQUEST_SUPER_BUF "req_buf option"
  | MM_CHANNEL_EVT_CANCEL_REQUEST_SUPER_BUF
  | MM_CHANNEL_EVT_FLUSH_SUPER_BUF_QUEUE uint32
  | MM_CHANNEL_EVT_CONFIG_NOTIFY_MODE notify_mode
  | MM_CHANNEL_EVT_START_ZSL_SNAPSHOT
  | MM_CHANNEL_EVT_STOP_ZSL_SNAPSHOT
  | MM_CHANNEL_EVT_MAP_STREAM_BUF buf_map
  | MM_CHANNEL_EVT_UNMAP_STREAM_BUF buf_map
  | MM_CHANNEL_EVT_SET_STREAM_PARM uint32
  | MM_CHANNEL_EVT_GET_STREAM_PARM uint32
  | MM_CHANNEL_EVT_DO_STREAM_ACTION uint32
  | MM_CHANNEL_EVT_DELETE
  | MM_CHANNEL_EVT_AF_BRACKETING uint32
  | MM_CHANNEL_EVT_AE_BRACKETING uint32
  | MM_CHANNEL_EVT_FLASH_BRACKETING uint32
  | MM_CHANNEL_EVT_ZOOM_1X uint32
  | MM_CAMERA_EVT_CAPTURE_SETTING "frame_config option"
  | MM_CHANNEL_EVT_GET_STREAM_QUEUED_BUF_COUNT uint32
  | MM_CHANNEL_EVT_MAP_STREAM_BUFS buf_maps
  | MM_CHANNEL_EVT_REG_STREAM_BUF_CB uint32 mm_stream_data_cb

text \<open>What an event writes through the pointers it is given.\<close>

datatype evt_out = Nothing_out | Handle_out uint32 | Bundle_out uint32 "uint32 list"

definition no_out :: "int32 ch_result \<Rightarrow> (int32 \<times> evt_out) ch_result" where
  "no_out r = map_option (\<lambda>(rc, W). ((rc, Nothing_out), W)) r"

definition mm_channel_fsm_fn_stopped ::
    "channel_env \<Rightarrow> addr \<Rightarrow> mm_channel_evt \<Rightarrow> channels \<Rightarrow> (int32 \<times> evt_out) ch_result" where
  "mm_channel_fsm_fn_stopped E a evt W =
    (case evt of
       MM_CHANNEL_EVT_ADD_STREAM \<Rightarrow> do {
         (h, W) \<leftarrow> mm_channel_add_stream E a W; Some ((0, Handle_out h), W) }
     | MM_CHANNEL_EVT_LINK_STREAM l \<Rightarrow>
         (let (h, W) = mm_channel_link_stream a l W in Some ((0, Handle_out h), W))
     | MM_CHANNEL_EVT_DEL_STREAM h \<Rightarrow> no_out (mm_channel_del_stream E a h W)
     | MM_CHANNEL_EVT_START \<Rightarrow> do {
         (rc, W) \<leftarrow> mm_channel_start E a W;
         Some ((rc, Nothing_out),
           if rc = 0 then on_ch a (\<lambda>c. c\<lparr>ch_state := MM_CHANNEL_STATE_ACTIVE\<rparr>) W else W) }
     | MM_CHANNEL_EVT_CONFIG_STREAM h cfg \<Rightarrow> no_out (mm_channel_config_stream E a h cfg W)
     | MM_CHANNEL_EVT_GET_BUNDLE_INFO \<Rightarrow> do {
         (rc, b, ids) \<leftarrow> mm_channel_get_bundle_info a W; Some ((rc, Bundle_out b ids), W) }
     | MM_CHANNEL_EVT_DELETE \<Rightarrow> Some ((0, Nothing_out), on_ch a mm_channel_release W)
     | MM_CHANNEL_EVT_SET_STREAM_PARM h \<Rightarrow> no_out (mm_channel_set_stream_parm E a h W)
     | MM_CHANNEL_EVT_GET_STREAM_QUEUED_BUF_COUNT h \<Rightarrow> no_out (mm_channel_get_queued_buf_count E a h W)
     | MM_CHANNEL_EVT_GET_STREAM_PARM h \<Rightarrow> no_out (mm_channel_get_stream_parm E a h W)
     | MM_CHANNEL_EVT_DO_STREAM_ACTION h \<Rightarrow> no_out (mm_channel_do_stream_action E a h W)
     | MM_CHANNEL_EVT_MAP_STREAM_BUF p \<Rightarrow> no_out (mm_channel_map_stream_buf E a p W)
     | MM_CHANNEL_EVT_MAP_STREAM_BUFS p \<Rightarrow> no_out (mm_channel_map_stream_bufs E a p W)
     | MM_CHANNEL_EVT_UNMAP_STREAM_BUF p \<Rightarrow> no_out (mm_channel_unmap_stream_buf E a p W)
     | MM_CHANNEL_EVT_REG_STREAM_BUF_CB h v \<Rightarrow> no_out (mm_channel_reg_stream_buf_cb E a h v W)
     | _ \<Rightarrow> Some ((0, Nothing_out), W))"

definition offline_buf :: "cam_mapping_buf_type \<Rightarrow> bool" where
  "offline_buf ty \<longleftrightarrow> ty = CAM_MAPPING_BUF_TYPE_OFFLINE_INPUT_BUF \<or> ty = CAM_MAPPING_BUF_TYPE_OFFLINE_META_BUF"

text \<open>In the active state only offline buffers are mapped; other requests do nothing and return 0.\<close>

definition mm_channel_fsm_fn_active ::
    "channel_env \<Rightarrow> addr \<Rightarrow> mm_channel_evt \<Rightarrow> channels \<Rightarrow> (int32 \<times> evt_out) ch_result" where
  "mm_channel_fsm_fn_active E a evt W =
    (case evt of
       MM_CHANNEL_EVT_STOP \<Rightarrow> do {
         (rc, W) \<leftarrow> mm_channel_stop E a W;
         Some ((rc, Nothing_out), on_ch a (\<lambda>c. c\<lparr>ch_state := MM_CHANNEL_STATE_STOPPED\<rparr>) W) }
     | MM_CHANNEL_EVT_REQUEST_SUPER_BUF r \<Rightarrow> no_out (Some (mm_channel_request_super_buf E a r W))
     | MM_CHANNEL_EVT_CANCEL_REQUEST_SUPER_BUF \<Rightarrow> no_out (Some (mm_channel_cancel_super_buf_request E a W))
     | MM_CHANNEL_EVT_FLUSH_SUPER_BUF_QUEUE f \<Rightarrow>
         no_out (mm_channel_flush_super_buf_queue E a f CAM_STREAM_TYPE_DEFAULT W)
     | MM_CHANNEL_EVT_START_ZSL_SNAPSHOT \<Rightarrow> no_out (Some (mm_channel_start_zsl_snapshot E a W))
     | MM_CHANNEL_EVT_STOP_ZSL_SNAPSHOT \<Rightarrow> no_out (Some (mm_channel_stop_zsl_snapshot E a W))
     | MM_CHANNEL_EVT_CONFIG_NOTIFY_MODE m \<Rightarrow> no_out (Some (mm_channel_config_notify_mode E a m W))
     | MM_CHANNEL_EVT_SET_STREAM_PARM h \<Rightarrow> no_out (mm_channel_set_stream_parm E a h W)
     | MM_CHANNEL_EVT_GET_STREAM_QUEUED_BUF_COUNT h \<Rightarrow> no_out (mm_channel_get_queued_buf_count E a h W)
     | MM_CHANNEL_EVT_GET_STREAM_PARM h \<Rightarrow> no_out (mm_channel_get_stream_parm E a h W)
     | MM_CHANNEL_EVT_DO_STREAM_ACTION h \<Rightarrow> no_out (mm_channel_do_stream_action E a h W)
     | MM_CHANNEL_EVT_MAP_STREAM_BUF p \<Rightarrow>
         no_out (case p of Some (h, ty, i) \<Rightarrow> if offline_buf ty then mm_channel_map_stream_buf E a p W else Some (0, W)
                 | None \<Rightarrow> Some (0, W))
     | MM_CHANNEL_EVT_MAP_STREAM_BUFS p \<Rightarrow>
         no_out (case p of Some (h, ty, n) \<Rightarrow> if 0 < n \<and> offline_buf ty then mm_channel_map_stream_bufs E a p W else Some (0, W)
                 | None \<Rightarrow> Some (0, W))
     | MM_CHANNEL_EVT_UNMAP_STREAM_BUF p \<Rightarrow>
         no_out (case p of Some (h, ty, i) \<Rightarrow> if offline_buf ty then mm_channel_unmap_stream_buf E a p W else Some (0, W)
                 | None \<Rightarrow> Some (0, W))
     | MM_CHANNEL_EVT_AF_BRACKETING x \<Rightarrow>
         no_out (Some (mm_channel_proc_general_cmd E a (MM_CAMERA_GENERIC_CMD_TYPE_AF_BRACKETING x) W))
     | MM_CHANNEL_EVT_AE_BRACKETING x \<Rightarrow>
         no_out (Some (mm_channel_proc_general_cmd E a (MM_CAMERA_GENERIC_CMD_TYPE_AE_BRACKETING x) W))
     | MM_CHANNEL_EVT_FLASH_BRACKETING x \<Rightarrow>
         no_out (Some (mm_channel_proc_general_cmd E a (MM_CAMERA_GENERIC_CMD_TYPE_FLASH_BRACKETING x) W))
     | MM_CHANNEL_EVT_ZOOM_1X x \<Rightarrow>
         no_out (Some (mm_channel_proc_general_cmd E a (MM_CAMERA_GENERIC_CMD_TYPE_ZOOM_1X x) W))
     | MM_CAMERA_EVT_CAPTURE_SETTING fc \<Rightarrow>
         no_out (Some (mm_channel_proc_general_cmd E a (case fc of
             None \<Rightarrow> MM_CAMERA_GENERIC_CMD_TYPE_CAPTURE_SETTING 0
                       \<lparr>fc_num_batch = 0, fc_configs = replicate MAX_CAPTURE_BATCH_NUM zero_settings\<rparr>
           | Some f \<Rightarrow> MM_CAMERA_GENERIC_CMD_TYPE_CAPTURE_SETTING 1 f) W))
     | MM_CHANNEL_EVT_REG_STREAM_BUF_CB h v \<Rightarrow> no_out (mm_channel_reg_stream_buf_cb E a h v W)
     | _ \<Rightarrow> Some ((0, Nothing_out), W))"

definition mm_channel_fsm_fn ::
    "channel_env \<Rightarrow> addr \<Rightarrow> mm_channel_evt \<Rightarrow> channels \<Rightarrow> (int32 \<times> evt_out) ch_result" where
  "mm_channel_fsm_fn E a evt W =
    (case ch_state (channel_at W a) of
       MM_CHANNEL_STATE_NOTUSED \<Rightarrow> Some ((-1, Nothing_out), W)
     | MM_CHANNEL_STATE_STOPPED \<Rightarrow> mm_channel_fsm_fn_stopped E a evt W
     | MM_CHANNEL_STATE_ACTIVE \<Rightarrow> mm_channel_fsm_fn_active E a evt W
     | MM_CHANNEL_STATE_PAUSED \<Rightarrow> Some ((0, Nothing_out), W))"

end
