(* ===== verification/MmStreamFrame.thy ===== *)
theory MmStreamFrame
  imports MmStreamGraph
begin

text \<open>
  The streams of a channel share its poll thread and the record of the calls. What a stream
  does leaves alone what the others rely on: their entries in the table of the poll thread
  and the calls they have made.
\<close>

section \<open>What a stream leaves alone\<close>

definition no_entry :: poll_entry where
  "no_entry = \<lparr>entry_fd = -1, notify_cb = False, handler = 0, user_data = 0\<rparr>"

text \<open>What the other streams see: the buffers they have in the kernel, the table without its entry.\<close>

definition outside :: "stream_world \<Rightarrow>
    uint32 \<times> (stream_env \<Rightarrow> uint32 \<Rightarrow> nat list \<times> bool) \<times> poll_entry list \<times> poll_thread_type" where
  "outside w =
    (let p = poll (ctx w)
     in (hdl w, \<lambda>E h. if h = hdl w then ([], False) else (handed E h (hist w), unpolled h (hist w)),
         (poll_entries p)[poll_slot p (hdl w) := no_entry], poll_type p))"

named_theorems spares

lemma outside_strm [simp]: "my_handle s = hdl w \<Longrightarrow> outside (w\<lparr>strm := s\<rparr>) = outside w"
  by (simp add: outside_def Let_def fun_eq_iff cong: if_cong)

lemma outside_hdl: "outside w' = outside w \<Longrightarrow> hdl w' = hdl w"
  by (simp add: outside_def Let_def)

lemma outside_kcall [simp]: "outside (snd (kcall E c w)) = outside w"
  by (simp add: outside_def Let_def fun_eq_iff cong: if_cong)

lemma outside_poll [simp]:
  "poll_entries p = poll_entries (poll (ctx w)) \<Longrightarrow> poll_type p = poll_type (poll (ctx w)) \<Longrightarrow>
    outside (w\<lparr>ctx := (ctx w)\<lparr>poll := p\<rparr>\<rparr>) = outside w"
  by (simp add: outside_def Let_def fun_eq_iff poll_slot_same [of p "poll (ctx w)"] cong: if_cong)

lemma outside_entry:
  "outside (w\<lparr>ctx := (ctx w)\<lparr>poll := (poll (ctx w))\<lparr>poll_entries :=
      (poll_entries (poll (ctx w)))[poll_slot (poll (ctx w)) (hdl w) := e]\<rparr>\<rparr>\<rparr>) = outside w"
  by (simp add: outside_def Let_def fun_eq_iff poll_slot_def cong: if_cong)

lemma outside_queues [simp]:
  "outside (w\<lparr>ctx := (ctx w)\<lparr>ch_queue := q\<rparr>\<rparr>) = outside w"
  "outside (w\<lparr>ctx := (ctx w)\<lparr>linked_queue := q\<rparr>\<rparr>) = outside w"
  by (simp_all add: outside_def Let_def fun_eq_iff cong: if_cong)

lemma add_entry_outside:
  "add_entry (hdl w) f d (poll (ctx w)) = (rc, ch, p) \<Longrightarrow>
    outside (w\<lparr>ctx := (ctx w)\<lparr>poll := p\<rparr>\<rparr>) = outside w"
  using outside_entry [of w] by (auto simp: add_entry_def Let_def split: if_splits)

lemma del_entry_outside:
  "del_entry (hdl w) (poll (ctx w)) = (rc, ch, p) \<Longrightarrow>
    outside (w\<lparr>ctx := (ctx w)\<lparr>poll := p\<rparr>\<rparr>) = outside w"
  using outside_entry [of w] by (auto simp: del_entry_def Let_def split: if_splits)

lemma put_entries_same:
  "put_entries es p = Some q \<Longrightarrow> poll_entries q = poll_entries p \<and> poll_type q = poll_type p"
  by (induction es arbitrary: p) (auto simp: put_entry_def put_fd_def split: if_splits bind_splits)

lemma rebuild_fds_same:
  "rebuild_fds p = Some q \<Longrightarrow> poll_entries q = poll_entries p \<and> poll_type q = poll_type p"
  by (auto simp: rebuild_fds_def put_fd_def split: if_splits bind_splits dest!: put_entries_same)

lemma proc_pipe_same:
  "mm_camera_poll_proc_pipe cmd p = Some (b, q) \<Longrightarrow> poll_entries q = poll_entries p \<and> poll_type q = poll_type p"
  by (cases cmd) (auto split: bind_splits dest!: rebuild_fds_same)

lemma serve_pipe_same:
  "serve_pipe cmds p = Some q \<Longrightarrow> poll_entries q = poll_entries p \<and> poll_type q = poll_type p"
proof (induction cmds arbitrary: p)
  case (Cons cmd cmds)
  obtain b p1 where p1: "mm_camera_poll_proc_pipe cmd p = Some (b, p1)"
      "serve_pipe cmds (if b then mm_camera_poll_sig_done p1 else p1) = Some q"
    using Cons.prems by (auto split: bind_splits)
  then show ?case
    using Cons.IH [OF p1(2)] proc_pipe_same [OF p1(1)] by (simp add: mm_camera_poll_sig_done_def split: if_splits)
qed auto

lemma sig_write_same [simp]:
  "poll_entries (poll_sig_write b cmd p) = poll_entries p" "poll_type (poll_sig_write b cmd p) = poll_type p"
  by (simp_all add: poll_sig_write_def)

lemma kcall_spares [spares]: "kcall E c w = (rc, w') \<Longrightarrow> outside w' = outside w"
  by (metis outside_kcall snd_conv)

lemma on_status_spares [spares]: "on_status i f w = Some w' \<Longrightarrow> outside w' = outside w"
  by (auto simp: on_status_def split: if_splits)

lemma write_buf_spares [spares]: "write_buf r f w = Some w' \<Longrightarrow> outside w' = outside w"
  by (auto simp: write_buf_def Let_def split: if_splits bind_splits buf_ref.splits)

lemma poll_sig_spares [spares]:
  "mm_camera_poll_sig E ct cmd w = Some (rc, w') \<Longrightarrow> outside w' = outside w"
  by (auto simp: mm_camera_poll_sig_def Let_def split: if_splits bind_splits prod.splits
      dest!: spares serve_pipe_same)

lemma add_poll_spares [spares]:
  "mm_camera_poll_thread_add_poll_fd E ct w = Some (rc, w') \<Longrightarrow> outside w' = outside w"
  by (auto simp: mm_camera_poll_thread_add_poll_fd_def Let_def split: if_splits prod.splits
      dest!: spares add_entry_outside)

lemma del_poll_spares [spares]:
  "mm_camera_poll_thread_del_poll_fd E ct w = Some (rc, w') \<Longrightarrow> outside w' = outside w"
  by (auto simp: mm_camera_poll_thread_del_poll_fd_def Let_def split: if_splits prod.splits
      dest!: spares del_entry_outside)

lemma commit_spares [spares]:
  "mm_camera_poll_thread_commit_updates E w = Some (rc, w') \<Longrightarrow> outside w' = outside w"
  by (auto simp: mm_camera_poll_thread_commit_updates_def dest!: spares)

lemma qbuf_spares [spares]: "mm_stream_qbuf E b w = Some (rc, w') \<Longrightarrow> outside w' = outside w"
  by (auto simp: mm_stream_qbuf_def Let_def split: if_splits bind_splits prod.splits dest!: spares)

lemma stamp_frames_spares [spares]:
  "stamp_frames i ks fr iv uv r n w = Some w' \<Longrightarrow> outside w' = outside w"
  by (induction i ks fr iv uv r n w rule: stamp_frames.induct)
    (auto simp: Let_def split: if_splits bind_splits dest!: spares)

lemma read_user_buf_spares [spares]:
  "mm_stream_read_user_buf E r w = Some (rc, w') \<Longrightarrow> outside w' = outside w"
  by (auto simp: mm_stream_read_user_buf_def Let_def split: if_splits bind_splits prod.splits dest!: spares)

lemma read_frame_spares [spares]:
  "mm_stream_read_msm_frame E n w = Some (rc, w') \<Longrightarrow> outside w' = outside w"
  by (auto simp: mm_stream_read_msm_frame_def Let_def split: if_splits bind_splits prod.splits dest!: spares)

lemma queue_batch_spares [spares]:
  assumes "\<And>v. outside (q v) = outside v" and "queue_batch E i b q w = Some (rc, w')"
  shows "outside w' = outside w"
  using assms(2)
  by (auto simp: queue_batch_def Let_def assms(1) split: if_splits bind_splits prod.splits dest!: spares)

lemma write_user_buf_spares [spares]:
  "mm_stream_write_user_buf E r w = Some (rc, w') \<Longrightarrow> outside w' = outside w"
  by (auto simp: mm_stream_write_user_buf_def Let_def
      split: if_splits bind_splits prod.splits option.splits dest!: spares [rotated])

lemma buf_done_spares [spares]:
  "mm_stream_buf_done E r w = Some (rc, w') \<Longrightarrow> outside w' = outside w"
  by (auto simp: mm_stream_buf_done_def Let_def split: if_splits bind_splits prod.splits dest!: spares)

lemma cancel_buf_spares [spares]:
  "mm_stream_cancel_buf E i w = Some (rc, w') \<Longrightarrow> outside w' = outside w"
  by (auto simp: mm_stream_cancel_buf_def split: if_splits bind_splits dest!: spares)

lemma dispatch_cbs_spares [spares]:
  "dispatch_cbs E ks i w = Some w' \<Longrightarrow> outside w' = outside w"
proof (induction ks arbitrary: w)
  case (Cons k ks)
  then show ?case
    by (auto simp: count_cb_def app_cb_def Let_def split: if_splits bind_splits prod.splits dest!: spares)
qed simp

lemma cmd_turn_spares [spares]:
  "cmd_thread_turn E w = Some (rc, w') \<Longrightarrow> outside w' = outside w"
  by (auto simp: cmd_thread_turn_def mm_stream_dispatch_app_data_def
      split: bind_splits list.splits dest!: spares)

lemma serve_cmds_spares [spares]: "serve_cmds E is w = Some w' \<Longrightarrow> outside w' = outside w"
proof (induction "is" arbitrary: w)
  case (Cons i "is")
  then show ?case
    by (auto split: bind_splits dest!: spares)
qed simp

lemma release_cmd_spares [spares]: "release_cmd_thread E w = Some w' \<Longrightarrow> outside w' = outside w"
  by (auto simp: release_cmd_thread_def split: if_splits bind_splits prod.splits dest!: spares)

lemma map_statuses_spares [spares]: "map_statuses is v w = Some w' \<Longrightarrow> outside w' = outside w"
proof (induction "is" arbitrary: w)
  case (Cons i "is")
  then show ?case
    by (auto split: bind_splits dest!: spares)
qed simp

lemma map_op_spares [spares]: "map_op E m w = Some (rc, w') \<Longrightarrow> outside w' = outside w"
  by (cases m) (auto simp: mm_stream_map_buf_def mm_stream_map_bufs_def mm_stream_unmap_buf_def Let_def
      split: if_splits bind_splits prod.splits dest!: spares)

lemma map_ops_spares [spares]: "map_ops E ms w = Some w' \<Longrightarrow> outside w' = outside w"
proof (induction ms arbitrary: w)
  case (Cons m ms)
  then show ?case
    by (auto split: bind_splits dest!: spares)
qed simp

lemma upcall_spares [spares]: "upcall E c w = Some (rc, w') \<Longrightarrow> outside w' = outside w"
  by (auto simp: upcall_def split: bind_splits prod.splits dest!: spares)

lemma init_statuses_spares [spares]:
  "init_statuses is flags info w = Some w' \<Longrightarrow> outside w' = outside w"
proof (induction "is" arbitrary: w)
  case (Cons i "is")
  then show ?case
    by (auto split: if_splits bind_splits dest!: spares)
qed simp

lemma init_planes_spares [spares]: "init_planes is info w = Some w' \<Longrightarrow> outside w' = outside w"
proof (induction "is" arbitrary: w)
  case (Cons i "is")
  then show ?case
    by (auto split: bind_splits dest!: spares)
qed simp

lemma init_batch_spares [spares]: "init_batch planes info w = Some w' \<Longrightarrow> outside w' = outside w"
  by (auto simp: init_batch_def Let_def split: if_splits bind_splits dest!: spares)

lemma deinit_bufs_spares [spares]:
  "mm_stream_deinit_bufs E w = Some (rc, w') \<Longrightarrow> outside w' = outside w"
  by (auto simp: mm_stream_deinit_bufs_def split: if_splits bind_splits dest!: spares)

lemma init_bufs_spares [spares]:
  "mm_stream_init_bufs E w = Some (rc, w') \<Longrightarrow> outside w' = outside w"
  by (auto simp: mm_stream_init_bufs_def Let_def split: if_splits bind_splits dest!: spares)

lemma reg_bufs_spares [spares]: "reg_bufs E is w = Some (rc, w') \<Longrightarrow> outside w' = outside w"
proof (induction "is" arbitrary: w)
  case (Cons i "is")
  then show ?case
    by (auto split: if_splits bind_splits dest!: spares)
qed simp

lemma reg_buf_spares [spares]:
  "mm_stream_reg_buf E w = Some (rc, w') \<Longrightarrow> outside w' = outside w"
  by (auto simp: mm_stream_reg_buf_def mm_stream_request_buf_def Let_def
      split: if_splits prod.splits dest!: spares)

lemma unreg_statuses_spares [spares]: "unreg_statuses is w = Some w' \<Longrightarrow> outside w' = outside w"
proof (induction "is" arbitrary: w)
  case (Cons i "is")
  then show ?case
    by (auto split: bind_splits dest!: spares)
qed simp

lemma unreg_buf_spares [spares]:
  "mm_stream_unreg_buf E w = Some (rc, w') \<Longrightarrow> outside w' = outside w"
  by (auto simp: mm_stream_unreg_buf_def split: bind_splits prod.splits dest!: spares)

lemma config_spares [spares]:
  "mm_stream_config E c w = Some (rc, w') \<Longrightarrow> outside w' = outside w"
  by (auto simp: mm_stream_config_def mm_stream_sync_info_def mm_stream_set_fmt_def Let_def
      split: if_splits bind_splits prod.splits dest!: spares)

lemma streamon_spares [spares]:
  "mm_stream_streamon E w = Some (rc, w') \<Longrightarrow> outside w' = outside w"
  by (auto simp: mm_stream_streamon_def Let_def
      split: if_splits bind_splits prod.splits mapping_check.splits dest!: spares)

lemma streamoff_spares [spares]:
  "mm_stream_streamoff E w = Some (rc, w') \<Longrightarrow> outside w' = outside w"
  by (auto simp: mm_stream_streamoff_def Let_def split: if_splits bind_splits prod.splits dest!: spares)

lemma parm_evt_spares [spares]:
  "stream_parm_evt E evt w = Some (rc, w') \<Longrightarrow> outside w' = outside w"
  by (cases evt) (auto simp: stream_parm_evt_def mm_stream_set_parm_def mm_stream_get_parm_def
      split: if_splits dest!: spares)

lemma notify_cbs_spares [spares]:
  "notify_cbs E ks i (b, w) = (c, w') \<Longrightarrow> outside w' = outside w"
proof (induction ks arbitrary: b w)
  case (Cons k ks)
  have "outside (mm_stream_dispatch_sync_data E k i w) = outside w"
    by (simp add: mm_stream_dispatch_sync_data_def count_cb_def call_cb_def)
  then show ?case
    using Cons by (auto split: if_splits)
qed simp

lemma notify_channel_spares: "outside (snd (mm_stream_notify_channel E linked i w)) = outside w"
  by (auto simp: mm_stream_notify_channel_def Let_def split: prod.splits dest!: spares)

lemma handle_rcvd_spares [spares]:
  "mm_stream_handle_rcvd_buf E i b w = Some (u, w') \<Longrightarrow> outside w' = outside w"
  by (auto simp: mm_stream_handle_rcvd_buf_def Let_def notify_channel_spares
      split: if_splits bind_splits prod.splits dest!: spares)

lemma data_notify_spares [spares]:
  "mm_stream_data_notify E w = Some (u, w') \<Longrightarrow> outside w' = outside w"
  by (auto simp: mm_stream_data_notify_def Let_def split: if_splits bind_splits prod.splits dest!: spares)

lemma reg_cb_spares [spares]: "mm_stream_reg_buf_cb v w = (rc, w') \<Longrightarrow> outside w' = outside w"
  by (auto simp: mm_stream_reg_buf_cb_def split: option.splits)

definition releases :: "stream_op \<Rightarrow> stream_world \<Rightarrow> bool" where
  "releases op w \<longleftrightarrow> op = Event MM_STREAM_EVT_RELEASE
     \<and> state (strm w) \<in> {MM_STREAM_STATE_ACQUIRED, MM_STREAM_STATE_CFG}"

lemma fsm_spares:
  assumes "mm_stream_fsm_fn E evt w = Some (rc, w')" and "\<not> releases (Event evt) w"
  shows "outside w' = outside w"
proof (cases "state (strm w)")
  case MM_STREAM_STATE_INITED
  then show ?thesis
    using assms by (cases evt) (auto simp: mm_stream_fsm_fn_def mm_stream_fsm_inited_def
        mm_stream_set_ext_mode_def Let_def split: if_splits prod.splits dest!: spares)
next
  case MM_STREAM_STATE_ACQUIRED
  then show ?thesis
    using assms by (cases evt) (auto simp: mm_stream_fsm_fn_def mm_stream_fsm_acquired_def releases_def
        split: bind_splits prod.splits dest!: spares)
next
  case MM_STREAM_STATE_CFG
  then show ?thesis
    using assms by (cases evt) (auto simp: mm_stream_fsm_fn_def mm_stream_fsm_cfg_def releases_def
        split: if_splits bind_splits prod.splits dest!: spares)
next
  case MM_STREAM_STATE_BUFFED
  then show ?thesis
    using assms by (cases evt) (auto simp: mm_stream_fsm_fn_def mm_stream_fsm_buffed_def
        split: if_splits bind_splits prod.splits dest!: spares)
next
  case MM_STREAM_STATE_REG
  then show ?thesis
    using assms by (cases evt) (auto simp: mm_stream_fsm_fn_def mm_stream_fsm_reg_def launch_cmd_thread_def
        Let_def split: if_splits bind_splits prod.splits dest!: spares)
next
  case MM_STREAM_STATE_ACTIVE
  then show ?thesis
    using assms by (cases evt) (auto simp: mm_stream_fsm_fn_def mm_stream_fsm_active_def
        mm_stream_do_action_def split: if_splits bind_splits prod.splits dest!: spares)
qed (use assms in \<open>simp add: mm_stream_fsm_fn_def\<close>)

lemma run_op_spares:
  assumes "run_op E op w = Some (rc, w')" and "\<not> releases op w"
  shows "outside w' = outside w"
  using assms fsm_spares
  by (cases op) (auto split: if_splits bind_splits prod.splits dest!: spares)

text \<open>A release closes the descriptor and clears the object.\<close>

lemma release_event:
  assumes "releases (Event MM_STREAM_EVT_RELEASE) w"
    and "mm_stream_fsm_fn E MM_STREAM_EVT_RELEASE w = Some (rc, w')"
  shows "rc = 0 \<and> strm w' = zeroed_stream\<lparr>fd := -1\<rparr> \<and> poll (ctx w') = poll (ctx w)
    \<and> (hist w' = hist w \<or> hist w' = (hdl w, Close_fd) # hist w)"
  using assms
  by (auto simp: releases_def mm_stream_fsm_fn_def mm_stream_fsm_acquired_def mm_stream_fsm_cfg_def
      mm_stream_release_def zeroed_stream_def split: if_splits)

section \<open>The state\<close>

lemma notify_cbs_stays [stays]:
  "notify_cbs E ks i (b, w) = (c, w') \<Longrightarrow> state (strm w') = state (strm w)"
proof (induction ks arbitrary: b w)
  case (Cons k ks)
  have "state (strm (mm_stream_dispatch_sync_data E k i w)) = state (strm w)"
    by (simp add: mm_stream_dispatch_sync_data_def count_cb_def call_cb_def)
  then show ?case
    using Cons by (auto split: if_splits)
qed simp

lemma notify_channel_stays: "state (strm (snd (mm_stream_notify_channel E linked i w))) = state (strm w)"
  by (auto simp: mm_stream_notify_channel_def Let_def split: prod.splits dest!: stays)

lemma handle_rcvd_stays [stays]:
  "mm_stream_handle_rcvd_buf E i b w = Some (u, w') \<Longrightarrow> state (strm w') = state (strm w)"
  by (auto simp: mm_stream_handle_rcvd_buf_def Let_def notify_channel_stays
      split: if_splits bind_splits prod.splits dest!: stays)

lemma data_notify_stays [stays]:
  "mm_stream_data_notify E w = Some (u, w') \<Longrightarrow> state (strm w') = state (strm w)"
  by (auto simp: mm_stream_data_notify_def Let_def split: if_splits bind_splits prod.splits dest!: stays)

lemma reg_cb_stays [stays]: "mm_stream_reg_buf_cb v w = (rc, w') \<Longrightarrow> state (strm w') = state (strm w)"
  by (auto simp: mm_stream_reg_buf_cb_def split: option.splits)

lemma run_op_state:
  assumes "run_op E op w = Some (rc, w')"
  shows "state (strm w') = (case op of Event evt \<Rightarrow> next_stream_state (state (strm w)) evt rc
    | _ \<Rightarrow> state (strm w))"
  using assms fsm_next
  by (cases op) (auto split: if_splits bind_splits prod.splits dest!: stays)

section \<open>What another stream sees of it\<close>

text \<open>Two worlds that agree on all a stream relies on.\<close>

definition same_for :: "stream_env \<Rightarrow> stream_world \<Rightarrow> stream_world \<Rightarrow> bool" where
  "same_for E v v' \<longleftrightarrow> strm v' = strm v \<and> in_hand E v' = in_hand E v \<and> polled v' = polled v
     \<and> unpolled (hdl v) (hist v') = unpolled (hdl v) (hist v) \<and> has_slot v' = has_slot v"

lemma same_for_inv: "same_for E v v' \<Longrightarrow> stream_inv E v' = stream_inv E v"
  by (simp add: same_for_def stream_inv_def ledger_def counted_def watched_or_unpolled_def Let_def
      cong: mm_stream_state.case_cong)

lemma same_forI:
  assumes "strm v' = strm v" and "outside w' = outside w" and "ctx v = ctx w" and "ctx v' = ctx w'"
    and "hdl v \<noteq> hdl w" and "poll_slot (poll (ctx v)) (hdl v) \<noteq> poll_slot (poll (ctx v)) (hdl w)"
    and "sized (poll (ctx v))" and "sized (poll (ctx v'))"
  shows "same_for E v v'"
proof -
  have ty: "poll_type (poll (ctx w')) = poll_type (poll (ctx w))" "hdl w' = hdl w"
    using assms(2) by (simp_all add: outside_def Let_def)
  then have slot: "poll_slot (poll (ctx w')) h = poll_slot (poll (ctx w)) h" for h
    by (simp add: poll_slot_def)
  have "(poll_entries (poll (ctx w')))[poll_slot (poll (ctx w)) (hdl w) := no_entry]
      = (poll_entries (poll (ctx w)))[poll_slot (poll (ctx w)) (hdl w) := no_entry]"
    using assms(2) by (simp add: outside_def Let_def slot ty)
  from arg_cong [OF this, of "\<lambda>es. es ! poll_slot (poll (ctx w)) (hdl v)"]
  have "poll_entries (poll (ctx w')) ! poll_slot (poll (ctx w)) (hdl v)
      = poll_entries (poll (ctx w)) ! poll_slot (poll (ctx w)) (hdl v)"
    using assms(3,6) by simp
  moreover have "handed E (hdl v) (hist w') = handed E (hdl v) (hist w)"
      "unpolled (hdl v) (hist w') = unpolled (hdl v) (hist w)"
    using arg_cong [OF assms(2), of "\<lambda>x. fst (snd x) E (hdl v)"] assms(5)
    by (simp_all add: outside_def Let_def ty)
  ultimately show ?thesis
    using assms(1,3,4,7,8) by (simp add: same_for_def in_hand_def polled_def has_slot_def slot)
qed

end
