(* ===== verification/MmChannelInvariants.thy ===== *)
theory MmChannelInvariants
  imports MmChannel MmStreamFrame
begin

text \<open>
  The invariant of a channel that is linked to no other: its streams are sound, each by the
  invariant of \<open>MmStreamRuns\<close>, and none disturbs another; their states go together with the
  state of the channel.
\<close>

section \<open>Sound channels\<close>

abbreviation slot_at :: "addr \<Rightarrow> channels \<Rightarrow> nat \<Rightarrow> mm_stream_slot" where
  "slot_at a W k \<equiv> slots (channel_at W a) ! k"

abbreviation obj_at :: "addr \<Rightarrow> channels \<Rightarrow> nat \<Rightarrow> mm_stream_obj" where
  "obj_at a W k \<equiv> slot_obj (slot_at a W k)"

text \<open>A place is free, or has a stream of the channel, named by a handle with its index.\<close>

definition slot_ok :: "channel_env \<Rightarrow> addr \<Rightarrow> channels \<Rightarrow> nat \<Rightarrow> bool" where
  "slot_ok E a W k \<longleftrightarrow>
    (if my_handle (obj_at a W k) = 0 then state (obj_at a W k) = MM_STREAM_STATE_NOTUSED
     else state (obj_at a W k) \<notin> {MM_STREAM_STATE_NOTUSED, MM_STREAM_STATE_INITED}
       \<and> is_own a W k \<and> unat (mm_camera_util_get_index_by_handler (my_handle (obj_at a W k))) = k
       \<and> stream_inv (senv E) (stream_view a k W))"

definition streams_ok :: "channel_env \<Rightarrow> addr \<Rightarrow> channels \<Rightarrow> bool" where
  "streams_ok E a W \<longleftrightarrow> length (slots (channel_at W a)) = 8 \<and> sized (poll_of (channel_at W a))
     \<and> (\<forall>k < 8. slot_ok E a W k)"

text \<open>What an operation on one stream leaves of the channel.\<close>

definition rest_of :: "channel \<Rightarrow> uint32 \<times> mm_channel_state \<times> bool \<times> bool \<times> mm_channel_queue \<times> bool \<times> bool
    \<times> channel_cmd list \<times> bool" where
  "rest_of c = (ch_handle c, ch_state c, notify_cb_set c, bundle_active c, bundle_queue c, cmd_launched c,
     cb_launched c, cmds_posted c, wait_prep c)"

definition only_streams :: "addr \<Rightarrow> nat set \<Rightarrow> channels \<Rightarrow> channels \<Rightarrow> bool" where
  "only_streams a K W W' \<longleftrightarrow> rest_of (channel_at W' a) = rest_of (channel_at W a) \<and> syncs W' = syncs W
     \<and> handle_count W' = handle_count W \<and> (\<forall>k < 8. my_handle (obj_at a W' k) = my_handle (obj_at a W k))
     \<and> (\<forall>k < 8. k \<notin> K \<longrightarrow> slot_at a W' k = slot_at a W k)"

lemma only_streams_refl [simp]: "only_streams a K W W"
  by (simp add: only_streams_def)

lemma only_streams_trans:
  "only_streams a K U V \<Longrightarrow> only_streams a L V W \<Longrightarrow> only_streams a (K \<union> L) U W"
  by (simp add: only_streams_def)

lemma only_streams_mono: "only_streams a K W W' \<Longrightarrow> K \<subseteq> L \<Longrightarrow> only_streams a L W W'"
  by (auto simp: only_streams_def)

section \<open>Looking streams up\<close>

lemma first_index_eq:
  "first_index P xs = Some i \<longleftrightarrow> i < length xs \<and> P (xs ! i) \<and> (\<forall>j < i. \<not> P (xs ! j))"
proof (induction xs arbitrary: i)
  case (Cons x xs)
  then show ?case
    by (cases i) (auto simp: All_less_Suc2)
qed simp

lemma concat_if: "concat (List.map (\<lambda>k. if P k then [] else [k]) ks) = filter (\<lambda>k. \<not> P k) ks"
  by (induction ks) auto

lemma lookup_stream:
  assumes "streams_ok E a W" and "k < 8" and "my_handle (obj_at a W k) \<noteq> 0"
  shows "stream_by_handler (my_handle (obj_at a W k)) (slots (channel_at W a)) = Some k"
proof -
  have ok: "slot_ok E a W j" if "j < 8" for j
    using assms(1) that by (simp add: streams_ok_def)
  have "state (obj_at a W k) \<noteq> MM_STREAM_STATE_NOTUSED"
    using ok [OF assms(2)] assms(3) by (simp add: slot_ok_def)
  moreover have "my_handle (obj_at a W j) \<noteq> my_handle (obj_at a W k)" if "j < k" for j
    using ok [of j] ok [OF assms(2)] that assms(2,3) by (auto simp: slot_ok_def split: if_splits)
  ultimately show ?thesis
    using assms(1,2) by (auto simp: stream_by_handler_def first_index_eq streams_ok_def)
qed

lemma lookup_found:
  assumes "streams_ok E a W" and "stream_by_handler h (slots (channel_at W a)) = Some k"
  shows "k < 8" "my_handle (obj_at a W k) = h" "h \<noteq> 0" "is_own a W k"
proof -
  have k: "k < 8" "my_handle (obj_at a W k) = h" "state (obj_at a W k) \<noteq> MM_STREAM_STATE_NOTUSED"
    using assms by (auto simp: stream_by_handler_def first_index_eq streams_ok_def)
  moreover have "slot_ok E a W k"
    using assms(1) k(1) by (simp add: streams_ok_def)
  ultimately show "k < 8" "my_handle (obj_at a W k) = h" "h \<noteq> 0" "is_own a W k"
    by (auto simp: slot_ok_def split: if_splits)
qed

definition in_use_at :: "addr \<Rightarrow> channels \<Rightarrow> nat list" where
  "in_use_at a W = filter (\<lambda>k. my_handle (obj_at a W k) \<noteq> 0) [0 ..< 8]"

lemma used_streams_ok:
  assumes "streams_ok E a W"
  shows "used_streams (channel_at W a) = in_use_at a W"
proof -
  let ?ss = "slots (channel_at W a)"
  have len: "length ?ss = 8"
    using assms by (simp add: streams_ok_def)
  have "used_streams (channel_at W a) = concat (List.map (\<lambda>k. if my_handle (obj_at a W k) = 0 then []
       else case stream_by_handler (my_handle (obj_at a W k)) ?ss of None \<Rightarrow> [] | Some k \<Rightarrow> [k]) [0 ..< 8])"
    unfolding used_streams_def
    by (subst map_nth [symmetric]) (simp add: len o_def)
  also have "\<dots> = concat (List.map (\<lambda>k. if my_handle (obj_at a W k) = 0 then [] else [k]) [0 ..< 8])"
    using lookup_stream [OF assms] by (intro arg_cong [of _ _ concat] map_cong) auto
  also have "\<dots> = in_use_at a W"
    unfolding in_use_at_def by (simp add: concat_if)
  finally show ?thesis .
qed

section \<open>One stream\<close>

lemma put_stream_slots:
  assumes "my_handle (strm w) \<noteq> 0"
  shows "slots (channel_at (put_stream a k w W) a) = (slots (channel_at W a))[k := (slot_at a W k)\<lparr>slot_obj := strm w\<rparr>]"
    "poll_of (channel_at (put_stream a k w W) a) = poll (ctx w)"
    "rest_of (channel_at (put_stream a k w W) a) = rest_of (channel_at W a)"
    "syncs (put_stream a k w W) = syncs W" "handle_count (put_stream a k w W) = handle_count W"
  using assms by (simp_all add: put_stream_def Let_def on_ch_def on_slot_def rest_of_def)

lemma view_put:
  "k < length (slots (channel_at W a)) \<Longrightarrow> stream_view a k (put_stream a k w W) = w"
  by (simp add: stream_view_def put_stream_def Let_def on_ch_def on_slot_def)

lemma view_put_other:
  "j \<noteq> k \<Longrightarrow> stream_view a j (put_stream a k w W) = \<lparr>strm = obj_at a W j, ctx = ctx w\<rparr>"
  by (simp add: stream_view_def put_stream_def Let_def on_ch_def on_slot_def)

lemma view_simps [simp]:
  "strm (stream_view a k W) = obj_at a W k" "poll (ctx (stream_view a k W)) = poll_of (channel_at W a)"
  "hist (stream_view a k W) = history_of W"
  "ctx (stream_view a j W) = ctx (stream_view a k W) \<longleftrightarrow> True"
  by (simp_all add: stream_view_def Let_def)

lemma slot_index:
  assumes "poll_type p = MM_CAMERA_POLL_TYPE_DATA"
  shows "poll_slot p h = unat (mm_camera_util_get_index_by_handler h)"
  using assms by (simp add: poll_slot_def)

text \<open>The other streams do not notice.\<close>

lemma put_others:
  assumes "slot_ok E a W j" and "j \<noteq> k" and "sized (poll_of (channel_at W a))"
    and "run_op (senv E) op (stream_view a k W) = Some (rc, w)" and "\<not> releases op (stream_view a k W)"
    and "sized (poll (ctx w))" and "my_handle (obj_at a W k) \<noteq> 0"
    and "unat (mm_camera_util_get_index_by_handler (my_handle (obj_at a W k))) = k"
  shows "slot_ok E a (put_stream a k w W) j"
proof -
  have slot: "slot_at a (put_stream a k w W) j = slot_at a W j"
    using assms(2) by (simp add: put_stream_def Let_def on_ch_def on_slot_def)
  show ?thesis
  proof (cases "my_handle (obj_at a W j) = 0")
    case True
    then show ?thesis
      using assms(1) slot by (simp add: slot_ok_def)
  next
    case False
    have data: "poll_type (poll_of (channel_at W a)) = MM_CAMERA_POLL_TYPE_DATA"
      using assms(3) by (simp add: sized_def)
    have j: "unat (mm_camera_util_get_index_by_handler (my_handle (obj_at a W j))) = j"
        "stream_inv (senv E) (stream_view a j W)"
      using assms(1) False by (simp_all add: slot_ok_def)
    have "same_for (senv E) (stream_view a j W) (stream_view a j (put_stream a k w W))"
    proof (rule same_forI)
      show "outside w = outside (stream_view a k W)"
        by (rule run_op_spares [OF assms(4,5)])
      show "ctx (stream_view a j (put_stream a k w W)) = ctx w"
        using assms(2) by (simp add: view_put_other)
      show "hdl (stream_view a j W) \<noteq> hdl (stream_view a k W)"
        using j(1) assms(2,8) by auto
      show "poll_slot (poll (ctx (stream_view a j W))) (hdl (stream_view a j W))
          \<noteq> poll_slot (poll (ctx (stream_view a j W))) (hdl (stream_view a k W))"
        using j(1) assms(2,8) by (simp add: slot_index data)
    qed (use slot assms(2,3,6) in \<open>simp_all add: view_put_other\<close>)
    then show ?thesis
      using assms(1) slot same_for_inv j(2) by (auto simp: slot_ok_def is_own_def)
  qed
qed

lemma next_state_used:
  "st \<notin> {MM_STREAM_STATE_NOTUSED, MM_STREAM_STATE_INITED} \<Longrightarrow> \<not> (evt = MM_STREAM_EVT_RELEASE \<and>
    st \<in> {MM_STREAM_STATE_ACQUIRED, MM_STREAM_STATE_CFG}) \<Longrightarrow>
    next_stream_state st evt rc \<notin> {MM_STREAM_STATE_NOTUSED, MM_STREAM_STATE_INITED}"
  by (cases st; cases evt) (auto simp: next_stream_state_def)

lemma inv_sized:
  "stream_inv E w \<Longrightarrow> state (strm w) \<noteq> MM_STREAM_STATE_NOTUSED \<Longrightarrow> sized (poll (ctx w))"
  by (auto simp: stream_inv_def Let_def ledger_def counted_def has_slot_def split: mm_stream_state.splits)

definition state_after :: "stream_op \<Rightarrow> mm_stream_state \<Rightarrow> int32 \<Rightarrow> mm_stream_state" where
  "state_after op st rc = (case op of Event evt \<Rightarrow> next_stream_state st evt rc | _ \<Rightarrow> st)"

lemma on_stream_ok:
  assumes "streams_ok E a W" and "k < 8" and "my_handle (obj_at a W k) \<noteq> 0" and "env_ok (senv E)"
    and "op_ok op (obj_at a W k)" and "\<not> releases op (stream_view a k W)"
  shows "ensures (on_stream E a k op W) (\<lambda>(rc, W'). streams_ok E a W' \<and> only_streams a {k} W W'
    \<and> state (obj_at a W' k) = state_after op (state (obj_at a W k)) rc)"
proof -
  have len: "length (slots (channel_at W a)) = 8" "sized (poll_of (channel_at W a))"
      and ok: "\<And>j. j < 8 \<Longrightarrow> slot_ok E a W j"
    using assms(1) by (simp_all add: streams_ok_def)
  have k: "state (obj_at a W k) \<notin> {MM_STREAM_STATE_NOTUSED, MM_STREAM_STATE_INITED}" "is_own a W k"
      "unat (mm_camera_util_get_index_by_handler (my_handle (obj_at a W k))) = k"
      "stream_inv (senv E) (stream_view a k W)"
    using ok [OF assms(2)] assms(3) by (simp_all add: slot_ok_def)
  obtain rc w where run: "run_op (senv E) op (stream_view a k W) = Some (rc, w)" "stream_inv (senv E) w"
    using run_op_ok [OF k(4) assms(4), of op] assms(5) by (auto elim!: ensuresE)
  have st: "state (strm w) = state_after op (state (obj_at a W k)) rc"
    using run_op_state [OF run(1)] by (cases op) (simp_all add: state_after_def)
  then have used: "state (strm w) \<notin> {MM_STREAM_STATE_NOTUSED, MM_STREAM_STATE_INITED}"
    using next_state_used [OF k(1)] k(1) assms(6)
    by (auto simp: state_after_def releases_def split: stream_op.splits)
  have hdl: "my_handle (strm w) = my_handle (obj_at a W k)"
    using outside_hdl [OF run_op_spares [OF run(1) assms(6)]] by simp
  have sized: "sized (poll (ctx w))"
    using inv_sized [OF run(2)] used by simp
  let ?W = "put_stream a k w W"
  have "on_stream E a k op W = Some (rc, ?W)"
    using run(1) len(1) assms(2) by (simp add: on_stream_def)
  moreover have "slot_ok E a ?W j" if "j < 8" for j
  proof (cases "j = k")
    case True
    then show ?thesis
      using k hdl used run(2) assms(2,3) len(1) view_put [of k W a w]
      by (simp add: slot_ok_def put_stream_slots is_own_def)
  next
    case False
    then show ?thesis
      using put_others [OF ok [OF that] _ len(2) run(1) assms(6) sized assms(3) k(3)] by simp
  qed
  moreover have "only_streams a {k} W ?W"
    using hdl assms(2,3) len(1) by (auto simp: only_streams_def put_stream_slots nth_list_update)
  ultimately show ?thesis
    using st hdl assms(2,3) len(1) sized by (simp add: streams_ok_def put_stream_slots)
qed

end
