(* ===== verification/MmChannelStart.thy ===== *)
theory MmChannelStart
  imports MmChannelInvariants
begin

text \<open>
  Starting and stopping the streams of a channel together: what the steps of \<open>mm_channel_start\<close>
  and \<open>mm_channel_stop\<close> do to a channel that is linked to no other.
\<close>

section \<open>Steps that leave the streams alone\<close>

lemma streams_ok_same:
  assumes "streams_ok E a W" and "slots (channel_at W' a) = slots (channel_at W a)"
    and "poll_of (channel_at W' a) = poll_of (channel_at W a)"
    and "\<And>k. same_for (senv E) (stream_view a k W) (stream_view a k W')"
  shows "streams_ok E a W'"
  unfolding streams_ok_def slot_ok_def is_own_def assms(2,3) same_for_inv [OF assms(4)]
  using assms(1) unfolding streams_ok_def slot_ok_def is_own_def .

definition same_ctx :: "channel \<Rightarrow> channel \<Rightarrow> bool" where
  "same_ctx c c' \<longleftrightarrow> slots c' = slots c \<and> poll_of c' = poll_of c"

lemma on_ch_streams_ok:
  assumes "streams_ok E a W" and "same_ctx (channel_at W a) (f (channel_at W a))"
  shows "streams_ok E a (on_ch a f W)"
proof (rule streams_ok_same [OF assms(1)])
  fix k
  show "same_for (senv E) (stream_view a k W) (stream_view a k (on_ch a f W))"
    using assms(2)
    by (simp add: same_for_def same_ctx_def on_ch_def stream_view_def in_hand_def polled_def has_slot_def Let_def)
qed (use assms(2) in \<open>simp_all add: on_ch_def same_ctx_def\<close>)

lemma syncs_streams_ok [simp]: "streams_ok E a (W\<lparr>syncs := s\<rparr>) = streams_ok E a W"
  by (simp add: streams_ok_def slot_ok_def is_own_def stream_view_def)

lemma ch_call_streams:
  assumes "streams_ok E a W"
  shows "streams_ok E a (snd (ch_call E Malloc b W))"
    "channel_at (snd (ch_call E Malloc b W)) = channel_at W"
    "syncs (snd (ch_call E Malloc b W)) = syncs W" "handle_count (snd (ch_call E Malloc b W)) = handle_count W"
proof -
  show "channel_at (snd (ch_call E Malloc b W)) = channel_at W"
    "syncs (snd (ch_call E Malloc b W)) = syncs W" "handle_count (snd (ch_call E Malloc b W)) = handle_count W"
    by (simp_all add: ch_call_def Let_def)
  show "streams_ok E a (snd (ch_call E Malloc b W))"
    by (rule streams_ok_same [OF assms])
      (simp_all add: ch_call_def Let_def same_for_def stream_view_def in_hand_def polled_def has_slot_def)
qed

section \<open>Several events\<close>

definition plain_evts :: "mm_stream_evt set" where
  "plain_evts = {MM_STREAM_EVT_STOP, MM_STREAM_EVT_UNREG_BUF, MM_STREAM_EVT_PUT_BUF}"

text \<open>Where these events lead, whatever they return.\<close>

definition led_to :: "mm_stream_evt list \<Rightarrow> mm_stream_state \<Rightarrow> mm_stream_state" where
  "led_to evts st = fold (\<lambda>evt st. next_stream_state st evt 0) evts st"

lemma plain_next: "evt \<in> plain_evts \<Longrightarrow> next_stream_state st evt rc = next_stream_state st evt 0"
  by (auto simp: plain_evts_def next_stream_state_def split: mm_stream_state.splits)

lemma plain_op: "evt \<in> plain_evts \<Longrightarrow> op_ok (Event evt) s" "evt \<in> plain_evts \<Longrightarrow> \<not> releases (Event evt) w"
  by (auto simp: plain_evts_def releases_def)

lemma only_streams_used:
  "only_streams a K W W' \<Longrightarrow> k < 8 \<Longrightarrow> my_handle (obj_at a W' k) = my_handle (obj_at a W k)"
  by (simp add: only_streams_def)

lemma only_streams_other:
  "only_streams a K W W' \<Longrightarrow> k < 8 \<Longrightarrow> k \<notin> K \<Longrightarrow> slot_at a W' k = slot_at a W k"
  by (simp add: only_streams_def)

lemma stream_events_ok:
  assumes "streams_ok E a W" and "k < 8" and "my_handle (obj_at a W k) \<noteq> 0" and "env_ok (senv E)"
    and "set evts \<subseteq> plain_evts"
  shows "ensures (stream_events E a k evts W) (\<lambda>W'. streams_ok E a W' \<and> only_streams a {k} W W'
    \<and> state (obj_at a W' k) = led_to evts (state (obj_at a W k)))"
  using assms(1,3,5)
proof (induction evts arbitrary: W)
  case Nil
  then show ?case
    by (simp add: led_to_def)
next
  case (Cons evt evts)
  have evt: "evt \<in> plain_evts" "set evts \<subseteq> plain_evts"
    using Cons.prems(3) by simp_all
  obtain rc W1 where W1: "on_stream E a k (Event evt) W = Some (rc, W1)" "streams_ok E a W1"
      "only_streams a {k} W W1" "state (obj_at a W1 k) = next_stream_state (state (obj_at a W k)) evt rc"
    using on_stream_ok [OF Cons.prems(1) assms(2) Cons.prems(2) assms(4) plain_op [OF evt(1)]]
    by (auto simp: state_after_def elim!: ensuresE)
  have st: "state (obj_at a W1 k) = next_stream_state (state (obj_at a W k)) evt 0"
    using W1(4) plain_next [OF evt(1)] by simp
  have "my_handle (obj_at a W1 k) \<noteq> 0"
    using only_streams_used [OF W1(3) assms(2)] Cons.prems(2) by simp
  from Cons.IH [OF W1(2) this evt(2)] show ?case
    using W1(1) st only_streams_trans [OF W1(3), of "{k}"]
    by (auto simp: led_to_def elim!: ensures_mono)
qed

lemma own_used:
  assumes "streams_ok E a W" and "k < 8" and "my_handle (obj_at a W k) \<noteq> 0"
  shows "is_own a W k"
  using assms by (auto simp: streams_ok_def slot_ok_def split: if_splits)

lemma each_own_ok:
  assumes "streams_ok E a W" and "\<forall>k \<in> set ks. k < 8 \<and> my_handle (obj_at a W k) \<noteq> 0" and "distinct ks"
    and "env_ok (senv E)" and "set evts \<subseteq> plain_evts"
  shows "ensures (each_own E a evts ks W) (\<lambda>W'. streams_ok E a W' \<and> only_streams a (set ks) W W'
    \<and> (\<forall>k \<in> set ks. state (obj_at a W' k) = led_to evts (state (obj_at a W k))))"
  using assms(1-3)
proof (induction ks arbitrary: W)
  case (Cons k ks)
  have k: "k < 8" "my_handle (obj_at a W k) \<noteq> 0" "is_own a W k"
    using Cons.prems own_used by simp_all
  obtain W1 where W1: "stream_events E a k evts W = Some W1" "streams_ok E a W1" "only_streams a {k} W W1"
      "state (obj_at a W1 k) = led_to evts (state (obj_at a W k))"
    using stream_events_ok [OF Cons.prems(1) k(1,2) assms(4,5)] by (auto elim!: ensuresE)
  have rest: "\<forall>j \<in> set ks. j < 8 \<and> my_handle (obj_at a W1 j) \<noteq> 0"
    using Cons.prems(2) only_streams_used [OF W1(3)] by simp
  have same: "obj_at a W1 j = obj_at a W j" if "j \<in> set ks" for j
  proof -
    have "j < 8" "j \<notin> {k}"
      using Cons.prems(2,3) that by auto
    from only_streams_other [OF W1(3) this] show ?thesis
      by simp
  qed
  obtain W2 where W2: "each_own E a evts ks W1 = Some W2" "streams_ok E a W2" "only_streams a (set ks) W1 W2"
      "\<forall>j \<in> set ks. state (obj_at a W2 j) = led_to evts (state (obj_at a W1 j))"
    using Cons.IH [OF W1(2) rest] Cons.prems(3) by (auto elim!: ensuresE)
  have "obj_at a W2 k = obj_at a W1 k"
    using only_streams_other [OF W2(3) k(1)] Cons.prems(3) by simp
  then show ?case
    using k(3) W1 W2 same only_streams_trans [OF W1(3) W2(3)] by simp
qed simp

section \<open>Starting the streams\<close>

definition all_in :: "addr \<Rightarrow> mm_stream_state set \<Rightarrow> nat list \<Rightarrow> channels \<Rightarrow> bool" where
  "all_in a S ks W \<longleftrightarrow> (\<forall>k \<in> set ks. state (obj_at a W k) \<in> S)"

definition start_result :: "channel_env \<Rightarrow> addr \<Rightarrow> nat list \<Rightarrow> nat \<Rightarrow> channels \<Rightarrow> (int32 \<times> nat) \<times> channels \<Rightarrow> bool" where
  "start_result E a ks i W r \<longleftrightarrow>
    (case r of ((rc, n), W') \<Rightarrow> streams_ok E a W' \<and> only_streams a (set ks) W W'
      \<and> (if rc = 0 then all_in a {MM_STREAM_STATE_ACTIVE} ks W'
         else i \<le> n \<and> n - i < length ks
           \<and> all_in a {MM_STREAM_STATE_CFG, MM_STREAM_STATE_BUFFED, MM_STREAM_STATE_REG, MM_STREAM_STATE_ACTIVE}
               (take (n - i + 1) ks) W'
           \<and> all_in a {MM_STREAM_STATE_CFG} (drop (n - i + 1) ks) W'))"

lemma start_streams_ok:
  assumes "streams_ok E a W" and "\<forall>k \<in> set ks. k < 8 \<and> my_handle (obj_at a W k) \<noteq> 0" and "distinct ks"
    and "env_ok (senv E)" and "all_in a {MM_STREAM_STATE_CFG} ks W"
  shows "ensures (start_streams E a ks i W) (start_result E a ks i W)"
  using assms(1-3,5)
proof (induction ks arbitrary: W i)
  case Nil
  then show ?case
    by (simp add: all_in_def start_result_def)
next
  case (Cons k ks)
  have k: "k < 8" "my_handle (obj_at a W k) \<noteq> 0" "is_own a W k" "state (obj_at a W k) = MM_STREAM_STATE_CFG"
    using Cons.prems own_used by (simp_all add: all_in_def)
  have step: "ensures (on_stream E a k (Event evt) U) (\<lambda>(rc, U'). streams_ok E a U' \<and> only_streams a {k} W U'
      \<and> my_handle (obj_at a U' k) \<noteq> 0 \<and> state (obj_at a U' k) = next_stream_state (state (obj_at a U k)) evt rc)"
    if "streams_ok E a U" "only_streams a {k} W U" "my_handle (obj_at a U k) \<noteq> 0"
      "evt \<in> {MM_STREAM_EVT_GET_BUF, MM_STREAM_EVT_REG_BUF, MM_STREAM_EVT_START}" for U evt
  proof -
    have "op_ok (Event evt) (obj_at a U k)" "\<not> releases (Event evt) (stream_view a k U)"
      using that(4) by (auto simp: releases_def)
    from on_stream_ok [OF that(1) k(1) that(3) assms(4) this] show ?thesis
      using only_streams_trans [OF that(2), of "{k}"] only_streams_used k(1) that(3)
      by (fastforce simp: state_after_def elim!: ensures_mono)
  qed
  have others: "obj_at a U j = obj_at a W j" if "only_streams a {k} W U" "j \<in> set ks" for U j
  proof -
    have "j < 8" "j \<notin> {k}"
      using Cons.prems(2,3) that by auto
    from only_streams_other [OF that(1) this] show ?thesis
      by simp
  qed
  have failed: "start_result E a (k # ks) i W ((rc, i), U)" if "streams_ok E a U" "only_streams a {k} W U" "rc \<noteq> 0"
      "state (obj_at a U k) \<in> {MM_STREAM_STATE_CFG, MM_STREAM_STATE_BUFFED, MM_STREAM_STATE_REG}" for rc U
    using that others [OF that(2)] Cons.prems(4) only_streams_mono [OF that(2), of "insert k (set ks)"]
    by (auto simp: all_in_def start_result_def)
  obtain r1 W1 where W1: "on_stream E a k (Event MM_STREAM_EVT_GET_BUF) W = Some (r1, W1)" "streams_ok E a W1"
      "only_streams a {k} W W1" "my_handle (obj_at a W1 k) \<noteq> 0"
      "state (obj_at a W1 k) = (if r1 = 0 then MM_STREAM_STATE_BUFFED else MM_STREAM_STATE_CFG)"
    using step [OF Cons.prems(1) only_streams_refl k(2), of MM_STREAM_EVT_GET_BUF] k(4)
    by (auto simp: next_stream_state_def elim!: ensuresE)
  show ?case
  proof (cases "r1 = 0")
    case False
    then show ?thesis
      using W1 k(3,4) failed [OF W1(2,3), of r1] by simp
  next
    case r1: True
    obtain r2 W2 where W2: "on_stream E a k (Event MM_STREAM_EVT_REG_BUF) W1 = Some (r2, W2)" "streams_ok E a W2"
        "only_streams a {k} W W2" "my_handle (obj_at a W2 k) \<noteq> 0"
        "state (obj_at a W2 k) = (if r2 = 0 then MM_STREAM_STATE_REG else MM_STREAM_STATE_BUFFED)"
      using step [OF W1(2-4), of MM_STREAM_EVT_REG_BUF] W1(5) r1
      by (auto simp: next_stream_state_def elim!: ensuresE)
    show ?thesis
    proof (cases "r2 = 0")
      case False
      then show ?thesis
        using W1 W2 r1 k(3,4) failed [OF W2(2,3), of r2] by simp
    next
      case r2: True
      obtain r3 W3 where W3: "on_stream E a k (Event MM_STREAM_EVT_START) W2 = Some (r3, W3)" "streams_ok E a W3"
          "only_streams a {k} W W3" "my_handle (obj_at a W3 k) \<noteq> 0"
          "state (obj_at a W3 k) = (if r3 = 0 then MM_STREAM_STATE_ACTIVE else MM_STREAM_STATE_REG)"
        using step [OF W2(2-4), of MM_STREAM_EVT_START] W2(5) r2
        by (auto simp: next_stream_state_def elim!: ensuresE)
      show ?thesis
      proof (cases "r3 = 0")
        case False
        then show ?thesis
          using W1 W2 W3 r1 r2 k(3,4) failed [OF W3(2,3), of r3] by simp
      next
        case r3: True
        have "all_in a {MM_STREAM_STATE_CFG} ks W3"
          using Cons.prems(4) others [OF W3(3)] by (auto simp: all_in_def)
        moreover have "\<forall>j \<in> set ks. j < 8 \<and> my_handle (obj_at a W3 j) \<noteq> 0"
          using Cons.prems(2) only_streams_used [OF W3(3)] by simp
        ultimately have rest: "ensures (start_streams E a ks (i + 1) W3) (start_result E a ks (i + 1) W3)"
          using Cons.IH [OF W3(2)] Cons.prems(3) by simp
        have "start_result E a (k # ks) i W r" if r: "start_result E a ks (i + 1) W3 r" for r
        proof -
          obtain rc n V where V: "r = ((rc, n), V)" "only_streams a (set ks) W3 V"
            using r by (auto simp: start_result_def split: prod.splits)
          have here: "state (obj_at a V k) = MM_STREAM_STATE_ACTIVE"
            using only_streams_other [OF V(2) k(1)] Cons.prems(3) W3(5) r3 by simp
          have only: "only_streams a (set (k # ks)) W V"
            using only_streams_trans [OF W3(3) V(2)] by simp
          have n: "take (n - i + 1) (k # ks) = k # take (n - (i + 1) + 1) ks"
              "drop (n - i + 1) (k # ks) = drop (n - (i + 1) + 1) ks" "n - i < length (k # ks)"
            if "i + 1 \<le> n" "n - (i + 1) < length ks"
            using that by (simp_all add: Suc_diff_Suc)
          show ?thesis
            using r V here only n by (auto simp: all_in_def start_result_def)
        qed
        then have "ensures (start_streams E a ks (i + 1) W3) (start_result E a (k # ks) i W)"
          by (rule ensures_mono [OF rest])
        then show ?thesis
          using W1 W2 W3 r1 r2 r3 k(3,4) by simp
      qed
    qed
  qed
qed

section \<open>Gathering the streams\<close>

lemma swapped_props:
  assumes "i < length xs" and "j < length xs"
  shows "set (swapped i j xs) = set xs" "distinct (swapped i j xs) = distinct xs"
proof -
  have "mset (swapped i j xs) = mset xs"
    using mset_swap [OF assms(2,1)] unfolding swapped_def by (simp add: list_update_swap)
  then show "set (swapped i j xs) = set xs" "distinct (swapped i j xs) = distinct xs"
    using mset_eq_setD mset_eq_imp_distinct_iff by blast+
qed

lemma meta_idx_bound: "meta_stream_idx a W ks < length ks \<or> meta_stream_idx a W ks = 0"
proof -
  have "fold (\<lambda>j m. if P j then j else m) js m < n \<or> fold (\<lambda>j m. if P j then j else m) js m = 0"
    if "\<forall>j \<in> set js. j < n" "m < n \<or> m = 0" for P js m and n :: nat
    using that by (induction js arbitrary: m) auto
  then show ?thesis
    by (simp add: meta_stream_idx_def)
qed

lemma in_use_props: "distinct (in_use_at a W)" "\<forall>k \<in> set (in_use_at a W). k < 8 \<and> my_handle (obj_at a W k) \<noteq> 0"
  by (auto simp: in_use_at_def)

lemma start_order_props:
  assumes "streams_ok E a W"
  shows "set (start_order a W) = set (in_use_at a W)" "distinct (start_order a W)"
proof -
  define ks where "ks = in_use_at a W"
  define i where "i = meta_stream_idx a W ks"
  have i: "i < length ks \<or> i = 0"
    unfolding i_def by (rule meta_idx_bound)
  have "start_order a W = (if 0 < i then swapped 0 i ks else ks)"
    by (simp add: start_order_def used_streams_ok [OF assms] Let_def i_def ks_def)
  moreover have "set (swapped 0 i ks) = set ks \<and> distinct (swapped 0 i ks) = distinct ks" if "0 < i"
    using swapped_props [of 0 ks i] i that by (cases ks) simp_all
  moreover have "distinct ks"
    using in_use_props(1) by (simp add: ks_def)
  ultimately show "set (start_order a W) = set (in_use_at a W)" "distinct (start_order a W)"
    by (simp_all add: ks_def)
qed

lemma stop_order_props:
  assumes "streams_ok E a W"
  shows "set (stop_order a W) = set (in_use_at a W)" "distinct (stop_order a W)"
  using in_use_props(1) [of a W]
  by (auto simp: stop_order_def used_streams_ok [OF assms] Let_def swapped_props)

lemma info_known:
  assumes "streams_ok E a W" and "k < 8" and "my_handle (obj_at a W k) \<noteq> 0"
    and "state (obj_at a W k) \<noteq> MM_STREAM_STATE_ACQUIRED"
  shows "info_at a W k \<noteq> None"
proof -
  have "stream_inv (senv E) (stream_view a k W)" "state (obj_at a W k) \<noteq> MM_STREAM_STATE_NOTUSED"
      "state (obj_at a W k) \<noteq> MM_STREAM_STATE_INITED"
    using assms(1-3) by (auto simp: streams_ok_def slot_ok_def split: if_splits)
  then have "configured (obj_at a W k)"
    using assms(4) by (auto simp: stream_inv_def Let_def split: mm_stream_state.splits)
  then show ?thesis
    by (simp add: info_at_def configured_def plain_stream_def)
qed

section \<open>Bundling\<close>

lemma fold_on_slot_nth:
  assumes "\<And>s. f (f s) = f s"
  shows "k < length (slots c) \<Longrightarrow> slots (fold (\<lambda>k. on_slot k f) ks c) ! k
    = (if k \<in> set ks then f (slots c ! k) else slots c ! k)"
proof (induction ks arbitrary: c)
  case (Cons i ks)
  then show ?case
    using assms by (cases "i = k") (simp_all add: on_slot_def)
qed simp

lemma fold_on_slot_rest:
  "length (slots (fold (\<lambda>k. on_slot k f) ks c)) = length (slots c)"
  "poll_of (fold (\<lambda>k. on_slot k f) ks c) = poll_of c" "rest_of (fold (\<lambda>k. on_slot k f) ks c) = rest_of c"
  "ch_notes (fold (\<lambda>k. on_slot k f) ks c) = ch_notes c"
  "ch_linked_notes (fold (\<lambda>k. on_slot k f) ks c) = ch_linked_notes c"
  by (induction ks arbitrary: c) (simp_all add: on_slot_def rest_of_def)

lemma view_id [simp]: "(stream_view a k W)\<lparr>strm := obj_at a W k\<rparr> = stream_view a k W"
  by (simp add: stream_view_def Let_def)

lemma start_bundle_ok:
  assumes "streams_ok E a W"
  shows "streams_ok E a (start_bundle a ks W)"
    "ch_state (channel_at (start_bundle a ks W) a) = ch_state (channel_at W a)"
    "bundle_active (channel_at (start_bundle a ks W) a)"
    "notify_cb_set (channel_at (start_bundle a ks W) a) = notify_cb_set (channel_at W a)"
    "attr (bundle_queue (channel_at (start_bundle a ks W) a)) = attr (bundle_queue (channel_at W a))"
    "\<And>k. k < 8 \<Longrightarrow> my_handle (obj_at a (start_bundle a ks W) k) = my_handle (obj_at a W k)
       \<and> state (obj_at a (start_bundle a ks W) k) = state (obj_at a W k)"
proof -
  let ?W = "start_bundle a ks W"
  let ?f = "\<lambda>s. s\<lparr>slot_obj := (slot_obj s)\<lparr>is_bundled := True\<rparr>\<rparr>"
  define own where "own = filter (is_own a W) (filter (frames_expected a W) ks)"
  define c where "c = (channel_at W a)\<lparr>bundle_queue := setup_queue
      (List.map (\<lambda>k. my_handle (obj_at a W k)) (filter (frames_expected a W) ks)) (bundle_queue (channel_at W a)),
      cb_launched := True, cmd_launched := True, cmds_posted := [], bundle_active := True\<rparr>"
  have W: "channel_at ?W a = fold (\<lambda>k. on_slot k ?f) own c" "history_of ?W = history_of W"
    by (simp_all add: start_bundle_def Let_def on_ch_def own_def c_def)
  have len: "length (slots c) = 8" "sized (poll_of c)"
    using assms by (simp_all add: streams_ok_def c_def)
  have slot: "slot_at a ?W k = (if k \<in> set own then ?f (slot_at a W k) else slot_at a W k)" if "k < 8" for k
    using fold_on_slot_nth [of ?f k c own] that len(1) by (simp add: W(1)) (simp add: c_def)
  have "slot_ok E a ?W k" if k: "k < 8" for k
  proof -
    have ok: "slot_ok E a W k"
      using assms k by (simp add: streams_ok_def)
    have "stream_inv (senv E) (stream_view a k ?W) = stream_inv (senv E) ((stream_view a k W)\<lparr>strm := obj_at a ?W k\<rparr>)"
      by (simp add: stream_view_def W fold_on_slot_rest c_def Let_def)
    also have "\<dots> = stream_inv (senv E) (stream_view a k W)"
      using slot [OF k] flags_inv(1) [where E = "senv E" and w = "stream_view a k W" and b = True]
        by simp
    finally show ?thesis
      using ok slot [OF k] by (cases "my_handle (obj_at a W k) = 0") (simp_all add: slot_ok_def is_own_def)
  qed
  then show "streams_ok E a ?W"
    using len by (simp add: streams_ok_def W fold_on_slot_rest)
  have rest: "rest_of (channel_at ?W a) = rest_of c"
    by (simp add: W fold_on_slot_rest)
  then show "ch_state (channel_at ?W a) = ch_state (channel_at W a)" "bundle_active (channel_at ?W a)"
    "notify_cb_set (channel_at ?W a) = notify_cb_set (channel_at W a)"
    "attr (bundle_queue (channel_at ?W a)) = attr (bundle_queue (channel_at W a))"
    by (simp_all add: rest_of_def c_def setup_queue_def mm_channel_superbuf_queue_init_def Let_def)
  show "my_handle (obj_at a ?W k) = my_handle (obj_at a W k) \<and> state (obj_at a ?W k) = state (obj_at a W k)"
    if "k < 8" for k
    using slot [OF that] by simp
qed

section \<open>A channel with no links\<close>

lemma no_links:
  assumes "\<forall>k \<in> set ks. is_own a W k"
  shows "set_links a b ks W = Some W" "drop_links E a ty ks W = Some W" "filter (\<lambda>k. \<not> is_own a W k) ks = []"
  using assms by (induction ks) simp_all

section \<open>Waiting for the threads of a stopped channel\<close>

text \<open>A buffer given back to a stream that is not active is ignored.\<close>

lemma put_same:
  assumes "my_handle (obj_at a W k) \<noteq> 0"
  shows "put_stream a k (stream_view a k W) W = W"
proof -
  have "on_slot k (\<lambda>s. s\<lparr>slot_obj := obj_at a W k\<rparr>) (channel_at W a) = channel_at W a"
    by (simp add: on_slot_def)
  then show ?thesis
    using assms by (simp add: put_stream_def Let_def on_ch_def stream_view_def)
qed

definition none_active :: "addr \<Rightarrow> channels \<Rightarrow> bool" where
  "none_active a W \<longleftrightarrow> (\<forall>k < 8. state (obj_at a W k) \<noteq> MM_STREAM_STATE_ACTIVE)"

lemma qbuf_ignored:
  assumes "streams_ok E a W" and "none_active a W"
  shows "\<exists>rc. channel_qbuf E a h r W = Some (rc, W)"
proof (cases "stream_by_handler h (slots (channel_at W a))")
  case None
  then show ?thesis
    by (simp add: channel_qbuf_def with_stream_def)
next
  case (Some k)
  note k = lookup_found [OF assms(1) Some]
  have "state (strm (stream_view a k W)) \<notin> handled_in (MM_STREAM_EVT_QBUF r)"
    using assms(2) k(1) by (simp add: none_active_def handled_in_def)
  from fsm_unhandled [OF this] have "\<exists>rc. on_stream E a k (Event (MM_STREAM_EVT_QBUF r)) W = Some (rc, W)"
    using assms(1) k put_same [where a = a and W = W and k = k] by (simp add: on_stream_def streams_ok_def)
  then show ?thesis
    using Some k(4) by (simp add: channel_qbuf_def with_stream_def)
qed

lemma await_quiet:
  assumes "streams_ok E a W" and "none_active a W"
  shows "await_thread E a W = Some W"
proof -
  have "give_backs E a gs W = Some W" for gs
  proof (induction gs)
    case (Cons g gs)
    then show ?case
      using qbuf_ignored [OF assms, of "fst g" "Buf (snd g)"] by (cases g) auto
  qed simp
  then show ?thesis
    by (simp add: await_thread_def)
qed

text \<open>The threads end, and nothing of the streams changes.\<close>

definition same_slots :: "addr \<Rightarrow> channels \<Rightarrow> channels \<Rightarrow> bool" where
  "same_slots a W W' \<longleftrightarrow> slots (channel_at W' a) = slots (channel_at W a)
     \<and> ch_state (channel_at W' a) = ch_state (channel_at W a)
     \<and> notify_cb_set (channel_at W' a) = notify_cb_set (channel_at W a)"

lemma post_cmd_ok:
  assumes "streams_ok E a W" and "post_cmd E a cmd W = (rc, W')"
  shows "streams_ok E a W' \<and> same_slots a W W'"
proof -
  obtain n W1 where W1: "ch_call E Malloc a W = (n, W1)"
    by fastforce
  have "streams_ok E a W1" "channel_at W1 = channel_at W"
    using ch_call_streams [OF assms(1), where b = a] W1 by (metis snd_conv)+
  then show ?thesis
    using assms(2) W1 on_ch_streams_ok [of E a W1]
    by (auto simp: post_cmd_def same_ctx_def same_slots_def on_ch_def split: if_splits)
qed

lemma end_threads_quiet:
  assumes "streams_ok E a W" and "none_active a W"
  shows "ensures (end_threads E a W) (\<lambda>W'. streams_ok E a W' \<and> same_slots a W W')"
proof -
  have call: "streams_ok E a (snd (ch_call E Malloc a U)) \<and> same_slots a U (snd (ch_call E Malloc a U))
      \<and> none_active a (snd (ch_call E Malloc a U))" if "streams_ok E a U" "none_active a U" for U
    using ch_call_streams [OF that(1), where b = a] that(2) by (simp add: same_slots_def none_active_def)
  have quiet: "streams_ok E a (on_ch a f U) \<and> same_slots a U (on_ch a f U)"
    if "streams_ok E a U" "\<And>c. slots (f c) = slots c \<and> poll_of (f c) = poll_of c \<and> ch_state (f c) = ch_state c
      \<and> notify_cb_set (f c) = notify_cb_set c" for f U
    using that on_ch_streams_ok [of E a U f] by (simp add: same_ctx_def same_slots_def on_ch_def)
  have cmd: "ensures (release_cmd E a U) (\<lambda>V. streams_ok E a V \<and> same_slots a U V)"
    if "streams_ok E a U" "none_active a U" for U
    using call [OF that] await_quiet [of E a "snd (ch_call E Malloc a U)"]
      quiet [of "snd (ch_call E Malloc a U)" "\<lambda>c. c\<lparr>cmd_launched := False, cmds_posted := []\<rparr>"]
    by (simp add: release_cmd_def case_prod_unfold Let_def same_slots_def)
  have cb: "ensures (release_cb E a U) (\<lambda>V. streams_ok E a V \<and> same_slots a U V)"
    if "streams_ok E a U" "none_active a U" for U
    using call [OF that] await_quiet [of E a "snd (ch_call E Malloc a U)"]
      quiet [of "snd (ch_call E Malloc a U)" "\<lambda>c. c\<lparr>cb_launched := False\<rparr>"]
    by (simp add: release_cb_def case_prod_unfold Let_def same_slots_def)
  obtain U where U: "release_cmd E a W = Some U" "streams_ok E a U" "same_slots a W U"
    using cmd [OF assms] by (auto elim!: ensuresE)
  have "none_active a U"
    using U(3) assms(2) by (simp add: same_slots_def none_active_def)
  from cb [OF U(2) this] show ?thesis
    using U by (auto simp: end_threads_def same_slots_def elim!: ensures_mono)
qed

end
