(* ===== verification/MmChannelStop.thy ===== *)
theory MmChannelStop
  imports MmChannelStart
begin

text \<open>
  What \<open>mm_channel_start\<close> and \<open>mm_channel_stop\<close> do to the streams of a channel that is linked to no
  other: all are started or none is, and a stop takes all back to where they were configured.
\<close>

section \<open>The streams of a channel\<close>

definition used_in :: "addr \<Rightarrow> mm_stream_state set \<Rightarrow> channels \<Rightarrow> bool" where
  "used_in a S W \<longleftrightarrow> (\<forall>k < 8. my_handle (obj_at a W k) \<noteq> 0 \<longrightarrow> state (obj_at a W k) \<in> S)"

definition same_handles :: "addr \<Rightarrow> channels \<Rightarrow> channels \<Rightarrow> bool" where
  "same_handles a W W' \<longleftrightarrow> (\<forall>k < 8. my_handle (obj_at a W' k) = my_handle (obj_at a W k))"

lemma used_in_all: "used_in a S W = all_in a S (in_use_at a W) W"
  by (auto simp: used_in_def all_in_def in_use_at_def)

lemma all_in_cong: "set ks = set ls \<Longrightarrow> all_in a S ks W = all_in a S ls W"
  by (simp add: all_in_def)

lemma same_handles_in_use: "same_handles a W W' \<Longrightarrow> in_use_at a W' = in_use_at a W"
  by (auto simp: same_handles_def in_use_at_def intro!: filter_cong)

lemma only_streams_handles: "only_streams a K W W' \<Longrightarrow> same_handles a W W'"
  by (simp add: only_streams_def same_handles_def)

lemma same_slots_handles: "same_slots a W W' \<Longrightarrow> same_handles a W W' \<and> used_in a S W' = used_in a S W"
  by (simp add: same_slots_def same_handles_def used_in_def)

lemma same_handles_trans: "same_handles a U V \<Longrightarrow> same_handles a V W \<Longrightarrow> same_handles a U W"
  by (simp add: same_handles_def)

lemma used_none_active:
  assumes "streams_ok E a W" and "used_in a S W" and "MM_STREAM_STATE_ACTIVE \<notin> S"
  shows "none_active a W"
proof -
  have "state (obj_at a W k) \<noteq> MM_STREAM_STATE_ACTIVE" if "k < 8" for k
    using assms that by (cases "my_handle (obj_at a W k) = 0") (auto simp: streams_ok_def slot_ok_def used_in_def)
  then show ?thesis
    by (simp add: none_active_def)
qed

lemma all_own: "streams_ok E a W \<Longrightarrow> \<forall>k \<in> set (in_use_at a W). is_own a W k"
  using own_used in_use_props(2) by blast

text \<open>Changes of a channel that leave its streams alone.\<close>

lemma on_ch_kept:
  assumes "streams_ok E a W" and "same_ctx (channel_at W a) (f (channel_at W a))"
  shows "streams_ok E a (on_ch a f W)" "same_handles a W (on_ch a f W)" "used_in a S (on_ch a f W) = used_in a S W"
  using assms on_ch_streams_ok [where f = f, OF assms]
  by (simp_all add: same_ctx_def on_ch_def same_handles_def used_in_def)

lemma led_back:
  "st \<in> {MM_STREAM_STATE_CFG, MM_STREAM_STATE_BUFFED, MM_STREAM_STATE_REG, MM_STREAM_STATE_ACTIVE} \<Longrightarrow>
     led_to [MM_STREAM_EVT_STOP, MM_STREAM_EVT_UNREG_BUF, MM_STREAM_EVT_PUT_BUF] st = MM_STREAM_STATE_CFG"
  "led_to [MM_STREAM_EVT_STOP, MM_STREAM_EVT_UNREG_BUF] MM_STREAM_STATE_ACTIVE = MM_STREAM_STATE_BUFFED"
  "led_to [MM_STREAM_EVT_PUT_BUF] MM_STREAM_STATE_BUFFED = MM_STREAM_STATE_CFG"
  by (cases st) (simp_all add: led_to_def next_stream_state_def)

section \<open>Start\<close>

definition start_outcome :: "channel_env \<Rightarrow> addr \<Rightarrow> channels \<Rightarrow> int32 \<times> channels \<Rightarrow> bool" where
  "start_outcome E a W r \<longleftrightarrow> (case r of (rc, W') \<Rightarrow>
     streams_ok E a W' \<and> same_handles a W W' \<and> ch_state (channel_at W' a) = ch_state (channel_at W a)
     \<and> used_in a {if rc = 0 then MM_STREAM_STATE_ACTIVE else MM_STREAM_STATE_CFG} W'
     \<and> notify_cb_set (channel_at W' a) = notify_cb_set (channel_at W a)
     \<and> (rc = 0 \<longrightarrow> attr (bundle_queue (channel_at W' a)) = attr (bundle_queue (channel_at W a)))
     \<and> (rc \<noteq> 0 \<longrightarrow> bundle_active (channel_at W' a) = False)
     \<and> (rc \<noteq> 0 \<longrightarrow> notify_cb_set (channel_at W a) \<longrightarrow> bundle_queue (channel_at W' a) = zeroed_queue))"

lemma undo_start_ok:
  assumes "streams_ok E a W" and "env_ok (senv E)" and "set ks = set (in_use_at a W)" and "distinct ks" and "i < length ks"
    and "\<forall>k \<in> set ks. info_at a W k \<noteq> None"
    and "all_in a {MM_STREAM_STATE_CFG, MM_STREAM_STATE_BUFFED, MM_STREAM_STATE_REG, MM_STREAM_STATE_ACTIVE}
      (take (i + 1) ks) W"
    and "all_in a {MM_STREAM_STATE_CFG} (drop (i + 1) ks) W"
  shows "ensures (undo_start E a ks i W) (\<lambda>W'. streams_ok E a W' \<and> same_handles a W W'
    \<and> used_in a {MM_STREAM_STATE_CFG} W' \<and> ch_state (channel_at W' a) = ch_state (channel_at W a)
    \<and> notify_cb_set (channel_at W' a) = notify_cb_set (channel_at W a) \<and> \<not> bundle_active (channel_at W' a)
    \<and> (bundle_active (channel_at W a) \<longrightarrow> bundle_queue (channel_at W' a) = zeroed_queue))"
proof -
  let ?evts = "[MM_STREAM_EVT_STOP, MM_STREAM_EVT_UNREG_BUF, MM_STREAM_EVT_PUT_BUF]"
  let ?K = "set (take (i + 1) ks)"
  have own: "\<forall>k \<in> set ks. is_own a W k"
    using all_own [OF assms(1)] assms(3) by simp
  obtain info where info: "info_at a W (ks ! i) = Some info"
    using assms(5,6) nth_mem by blast
  have used: "\<forall>k \<in> ?K. k < 8 \<and> my_handle (obj_at a W k) \<noteq> 0"
    using in_use_props(2) assms(3) by (metis in_set_takeD)
  obtain W1 where W1: "each_own E a ?evts (take (i + 1) ks) W = Some W1" "streams_ok E a W1" "only_streams a ?K W W1"
      "\<forall>k \<in> ?K. state (obj_at a W1 k) = led_to ?evts (state (obj_at a W k))"
    using each_own_ok [OF assms(1) used distinct_take [OF assms(4)] assms(2), of ?evts]
    by (auto simp: plain_evts_def elim!: ensuresE)
  have cfg: "state (obj_at a W1 k) = MM_STREAM_STATE_CFG" if k: "k < 8" "my_handle (obj_at a W1 k) \<noteq> 0" for k
  proof (cases "k \<in> ?K")
    case True
    then show ?thesis
      using W1(4) assms(7) led_back(1) by (simp add: all_in_def)
  next
    case False
    have "k \<in> set ks"
      using k only_streams_used [OF W1(3)] assms(3) by (simp add: in_use_at_def)
    then have "k \<in> set (drop (i + 1) ks)"
      using False by (metis Un_iff append_take_drop_id set_append)
    then show ?thesis
      using assms(8) only_streams_other [OF W1(3) k(1) False] by (simp add: all_in_def)
  qed
  then have U: "used_in a {MM_STREAM_STATE_CFG} W1" "same_handles a W W1"
      "ch_state (channel_at W1 a) = ch_state (channel_at W a)"
      "bundle_active (channel_at W1 a) = bundle_active (channel_at W a)"
      "notify_cb_set (channel_at W1 a) = notify_cb_set (channel_at W a)"
    using W1(3) by (auto simp: used_in_def only_streams_handles only_streams_def rest_of_def)
  have drop: "undo_start E a ks i W = (if bundle_active (channel_at W1 a)
      then do { W \<leftarrow> end_threads E a W1; Some (on_ch a (\<lambda>c. c\<lparr>bundle_active := False, bundle_queue := zeroed_queue\<rparr>) W) }
      else Some W1)"
    using info no_links(2) [OF own] W1(1) by (simp add: undo_start_def)
  show ?thesis
  proof (cases "bundle_active (channel_at W1 a)")
    case False
    then show ?thesis
      using drop W1(2) U by simp
  next
    case True
    obtain V where V: "end_threads E a W1 = Some V" "streams_ok E a V" "same_slots a W1 V"
      using end_threads_quiet [OF W1(2) used_none_active [OF W1(2) U(1)]] by (auto elim!: ensuresE)
    define f where "f = (\<lambda>c::channel. c\<lparr>bundle_active := False, bundle_queue := zeroed_queue\<rparr>)"
    have f: "same_ctx (channel_at V a) (f (channel_at V a))"
        "ch_state (channel_at (on_ch a f V) a) = ch_state (channel_at V a)"
        "notify_cb_set (channel_at (on_ch a f V) a) = notify_cb_set (channel_at V a)"
        "\<not> bundle_active (channel_at (on_ch a f V) a)" "bundle_queue (channel_at (on_ch a f V) a) = zeroed_queue"
      by (simp_all add: f_def same_ctx_def on_ch_def)
    have "undo_start E a ks i W = Some (on_ch a f V)"
      using drop True V(1) by (simp add: f_def)
    then show ?thesis
      using on_ch_kept [where f = f, OF V(2) f(1)] f(2-5) U V(3) same_slots_handles [OF V(3)] same_handles_trans
      by (simp add: same_slots_def) blast
  qed
qed

lemma configured_known:
  assumes "streams_ok E a W" and "used_in a S W" and "MM_STREAM_STATE_ACQUIRED \<notin> S" and "set ks = set (in_use_at a W)"
  shows "\<forall>k \<in> set ks. info_at a W k \<noteq> None"
proof
  fix k
  assume "k \<in> set ks"
  then have k: "k < 8" "my_handle (obj_at a W k) \<noteq> 0"
    using assms(4) by (simp_all add: in_use_at_def)
  then have "state (obj_at a W k) \<noteq> MM_STREAM_STATE_ACQUIRED"
    using assms(2,3) by (auto simp: used_in_def)
  then show "info_at a W k \<noteq> None"
    by (rule info_known [OF assms(1) k])
qed

lemma mm_channel_start_ok:
  assumes "streams_ok E a W" and "env_ok (senv E)" and "used_in a {MM_STREAM_STATE_CFG} W"
    and "\<not> bundle_active (channel_at W a)"
  shows "ensures (mm_channel_start E a W) (start_outcome E a W)"
proof -
  define ks where "ks = start_order a W"
  define W1 where "W1 = (if notify_cb_set (channel_at W a) then start_bundle a ks W else W)"
  have ks: "set ks = set (in_use_at a W)" "distinct ks"
    using start_order_props [OF assms(1)] by (simp_all add: ks_def)
  have W1: "streams_ok E a W1" "same_handles a W W1" "ch_state (channel_at W1 a) = ch_state (channel_at W a)"
      "notify_cb_set (channel_at W1 a) = notify_cb_set (channel_at W a)"
      "attr (bundle_queue (channel_at W1 a)) = attr (bundle_queue (channel_at W a))"
      "bundle_active (channel_at W1 a) = notify_cb_set (channel_at W a)" "used_in a {MM_STREAM_STATE_CFG} W1"
    using start_bundle_ok [where ks = ks, OF assms(1)] assms
    by (auto simp: W1_def same_handles_def used_in_def)
  have use: "set ks = set (in_use_at a W1)"
    using ks(1) same_handles_in_use [OF W1(2)] by simp
  have cfg: "all_in a {MM_STREAM_STATE_CFG} ks W1"
    using W1(7) all_in_cong [OF use] by (simp add: used_in_all)
  have used: "\<forall>k \<in> set ks. k < 8 \<and> my_handle (obj_at a W1 k) \<noteq> 0"
    using in_use_props(2) use by simp
  obtain rc i W2 where W2: "start_streams E a ks 0 W1 = Some ((rc, i), W2)" "start_result E a ks 0 W1 ((rc, i), W2)"
    using start_streams_ok [OF W1(1) used ks(2) assms(2) cfg, of 0] by (auto elim!: ensuresE)
  have W2_ok: "streams_ok E a W2" "only_streams a (set ks) W1 W2"
    using W2(2) by (simp_all add: start_result_def)
  have use2: "set ks = set (in_use_at a W2)"
    using use same_handles_in_use [OF only_streams_handles [OF W2_ok(2)]] by simp
  have rest: "ch_state (channel_at W2 a) = ch_state (channel_at W a)"
      "bundle_active (channel_at W2 a) = notify_cb_set (channel_at W a)"
      "notify_cb_set (channel_at W2 a) = notify_cb_set (channel_at W a)"
      "attr (bundle_queue (channel_at W2 a)) = attr (bundle_queue (channel_at W a))"
    using W2_ok(2) W1(3-6) by (simp_all add: only_streams_def rest_of_def)
  have handles: "same_handles a W W2"
    using same_handles_trans W1(2) only_streams_handles W2_ok(2) by blast
  define fin where "fin = (\<lambda>V. let V = on_ch a (\<lambda>c. c\<lparr>wait_prep := False\<rparr>) V
      in if enable_frame_sync (attr (bundle_queue (channel_at V a)))
         then V\<lparr>syncs := snd (mm_frame_sync_register_channel a (syncs V))\<rparr> else V)"
  have info: "\<not> (\<exists>k \<in> set ks. info_at a W k = None)"
    using configured_known [OF assms(1,3) _ ks(1)] by auto
  have "set_links a True ks W1 = Some W1"
    using no_links(1) all_own [OF W1(1)] use by simp
  then have run: "mm_channel_start E a W =
      do { V \<leftarrow> (if rc \<noteq> 0 then undo_start E a ks i W2 else Some W2); Some (rc, fin V) }"
    unfolding mm_channel_start_def Let_def ks_def [symmetric] W1_def [symmetric] fin_def if_not_P [OF info]
    using W2(1) by simp
  have fin: "start_outcome E a W (rc, fin V)" if "start_outcome E a W (rc, V)" for V
  proof -
    define f where "f = (\<lambda>c::channel. c\<lparr>wait_prep := False\<rparr>)"
    have "same_ctx (channel_at V a) (f (channel_at V a))"
      by (simp add: f_def same_ctx_def)
    note kept = on_ch_kept [where f = f and E = E, OF _ this]
    have "start_outcome E a W (rc, on_ch a f V)"
      using that kept same_handles_trans [of a W V]
      by (simp add: start_outcome_def) (simp add: f_def on_ch_def)
    then show ?thesis
      by (simp add: fin_def f_def Let_def start_outcome_def used_in_def same_handles_def)
  qed
  show ?thesis
  proof (cases "rc = 0")
    case True
    then have "all_in a {MM_STREAM_STATE_ACTIVE} (in_use_at a W2) W2"
      using W2(2) use2 by (simp add: start_result_def all_in_def)
    then have "start_outcome E a W (rc, W2)"
      using True W2_ok(1) handles rest by (simp add: start_outcome_def used_in_all)
    from fin [OF this] show ?thesis
      using run True by simp
  next
    case False
    have i: "i < length ks"
      "all_in a {MM_STREAM_STATE_CFG, MM_STREAM_STATE_BUFFED, MM_STREAM_STATE_REG, MM_STREAM_STATE_ACTIVE} (take (i + 1) ks) W2"
      "all_in a {MM_STREAM_STATE_CFG} (drop (i + 1) ks) W2"
      using W2(2) False by (simp_all add: start_result_def)
    have "MM_STREAM_STATE_ACQUIRED \<notin> {MM_STREAM_STATE_CFG, MM_STREAM_STATE_BUFFED, MM_STREAM_STATE_REG, MM_STREAM_STATE_ACTIVE}"
      by simp
    moreover have "used_in a {MM_STREAM_STATE_CFG, MM_STREAM_STATE_BUFFED, MM_STREAM_STATE_REG, MM_STREAM_STATE_ACTIVE} W2"
    proof -
      have "set ks = set (take (i + 1) ks) \<union> set (drop (i + 1) ks)"
        by (metis append_take_drop_id set_append)
      then show ?thesis
        using i(2,3) use2 by (auto simp: used_in_all all_in_def)
    qed
    ultimately have known: "\<forall>k \<in> set ks. info_at a W2 k \<noteq> None"
      using configured_known [OF W2_ok(1) _ _ use2] by blast
    obtain V where V: "undo_start E a ks i W2 = Some V" "streams_ok E a V" "same_handles a W2 V"
        "used_in a {MM_STREAM_STATE_CFG} V" "ch_state (channel_at V a) = ch_state (channel_at W2 a)"
        "notify_cb_set (channel_at V a) = notify_cb_set (channel_at W2 a)" "\<not> bundle_active (channel_at V a)"
        "bundle_active (channel_at W2 a) \<longrightarrow> bundle_queue (channel_at V a) = zeroed_queue"
      using undo_start_ok [OF W2_ok(1) assms(2) use2 ks(2) i(1) known i(2,3)] by (auto elim!: ensuresE)
    have "start_outcome E a W (rc, V)"
      using False V rest same_handles_trans [OF handles V(3)] by (simp add: start_outcome_def)
    from fin [OF this] show ?thesis
      using run False V(1) by simp
  qed
qed

section \<open>Stop\<close>

definition stop_outcome :: "channel_env \<Rightarrow> addr \<Rightarrow> channels \<Rightarrow> int32 \<times> channels \<Rightarrow> bool" where
  "stop_outcome E a W r \<longleftrightarrow> (case r of (rc, W') \<Rightarrow> rc = 0 \<and>
     streams_ok E a W' \<and> same_handles a W W' \<and> used_in a {MM_STREAM_STATE_CFG} W' \<and> \<not> bundle_active (channel_at W' a))"

lemma flush_quiet:
  assumes "streams_ok E a W" and "none_active a W"
  shows "ensures (mm_channel_flush_super_buf_queue E a f ty W) (\<lambda>(rc, W'). streams_ok E a W' \<and> same_slots a W W')"
proof -
  obtain rc V where V: "post_cmd E a (MM_CAMERA_CMD_TYPE_FLUSH_QUEUE f ty) W = (rc, V)"
    by fastforce
  have ok: "streams_ok E a V" "same_slots a W V"
    using post_cmd_ok [OF assms(1) V] by simp_all
  have "none_active a V"
    using assms(2) ok(2) by (simp add: same_slots_def none_active_def)
  then show ?thesis
    using V ok await_quiet [OF ok(1)] by (simp add: mm_channel_flush_super_buf_queue_def)
qed

lemma mm_channel_stop_ok:
  assumes "streams_ok E a W" and "env_ok (senv E)" and "used_in a {MM_STREAM_STATE_ACTIVE} W"
  shows "ensures (mm_channel_stop E a W) (stop_outcome E a W)"
proof -
  define W0 where "W0 = (if enable_frame_sync (attr (bundle_queue (channel_at W a)))
      then W\<lparr>syncs := snd (mm_frame_sync_unregister_channel a (syncs W))\<rparr> else W)"
  define ks where "ks = stop_order a W0"
  have W0: "streams_ok E a W0" "channel_at W0 = channel_at W"
    using assms(1) by (simp_all add: W0_def)
  then have handles: "same_handles a W W0" and active: "used_in a {MM_STREAM_STATE_ACTIVE} W0"
    using assms(3) by (simp_all add: same_handles_def used_in_def)
  have ks: "set ks = set (in_use_at a W0)" "distinct ks"
    using stop_order_props [OF W0(1)] by (simp_all add: ks_def)
  have used: "\<forall>k \<in> set ks. k < 8 \<and> my_handle (obj_at a W0 k) \<noteq> 0"
    using in_use_props(2) ks(1) by simp
  obtain W1 where W1: "each_own E a [MM_STREAM_EVT_STOP, MM_STREAM_EVT_UNREG_BUF] ks W0 = Some W1"
      "streams_ok E a W1" "only_streams a (set ks) W0 W1"
      "\<forall>k \<in> set ks. state (obj_at a W1 k) = led_to [MM_STREAM_EVT_STOP, MM_STREAM_EVT_UNREG_BUF] (state (obj_at a W0 k))"
    using each_own_ok [OF W0(1) used ks(2) assms(2), of "[MM_STREAM_EVT_STOP, MM_STREAM_EVT_UNREG_BUF]"]
    by (auto simp: plain_evts_def elim!: ensuresE)
  have use1: "set ks = set (in_use_at a W1)"
    using ks(1) same_handles_in_use [OF only_streams_handles [OF W1(3)]] by simp
  have buffed: "used_in a {MM_STREAM_STATE_BUFFED} W1"
    using W1(4) active ks(1) use1 led_back(2) by (simp add: used_in_all all_in_def)
  define flush where "flush = (\<lambda>V. if bundle_active (channel_at V a)
      then do { (_, V) \<leftarrow> mm_channel_flush_super_buf_queue E a 0 CAM_STREAM_TYPE_DEFAULT V; V \<leftarrow> end_threads E a V;
        Some (on_ch a (\<lambda>c. c\<lparr>bundle_active := False, bundle_queue := (mm_channel_superbuf_queue_init (bundle_queue c))
          \<lparr>expected_frame_id := 0, good_frame_id := 0, match_cnt := 0\<rparr>\<rparr>) V) } else Some V)"
  obtain W2 where W2: "flush W1 = Some W2" "streams_ok E a W2" "same_handles a W1 W2"
      "used_in a {MM_STREAM_STATE_BUFFED} W2" "\<not> bundle_active (channel_at W2 a)"
  proof (cases "bundle_active (channel_at W1 a)")
    case False
    then show ?thesis
      using that [of W1] W1(2) buffed by (simp add: flush_def same_handles_def)
  next
    case True
    obtain rc U where U: "mm_channel_flush_super_buf_queue E a 0 CAM_STREAM_TYPE_DEFAULT W1 = Some (rc, U)"
        "streams_ok E a U" "same_slots a W1 U"
      using flush_quiet [where f = 0 and ty = CAM_STREAM_TYPE_DEFAULT, OF W1(2) used_none_active [OF W1(2) buffed]]
      by (auto elim!: ensuresE)
    have U_in: "used_in a {MM_STREAM_STATE_BUFFED} U" "same_handles a W1 U"
      using same_slots_handles [OF U(3)] buffed by simp_all
    obtain V where V: "end_threads E a U = Some V" "streams_ok E a V" "same_slots a U V"
      using end_threads_quiet [OF U(2) used_none_active [OF U(2) U_in(1)]] by (auto elim!: ensuresE)
    define f where "f = (\<lambda>c::channel. c\<lparr>bundle_active := False, bundle_queue := (mm_channel_superbuf_queue_init (bundle_queue c))
          \<lparr>expected_frame_id := 0, good_frame_id := 0, match_cnt := 0\<rparr>\<rparr>)"
    have f: "same_ctx (channel_at V a) (f (channel_at V a))" "\<not> bundle_active (channel_at (on_ch a f V) a)"
      by (simp_all add: f_def same_ctx_def on_ch_def)
    have "flush W1 = Some (on_ch a f V)"
      using True U(1) V(1) by (simp add: flush_def f_def)
    moreover have "same_handles a W1 V" "used_in a {MM_STREAM_STATE_BUFFED} V"
      using same_slots_handles [OF V(3)] U_in same_handles_trans by auto
    ultimately show ?thesis
      using that on_ch_kept [where f = f, OF V(2) f(1)] f(2) same_handles_trans by blast
  qed
  have used2: "\<forall>k \<in> set ks. k < 8 \<and> my_handle (obj_at a W2 k) \<noteq> 0"
    using in_use_props(2) [of a W2] same_handles_in_use [OF W2(3)] use1 by simp
  obtain W3 where W3: "each_own E a [MM_STREAM_EVT_PUT_BUF] ks W2 = Some W3" "streams_ok E a W3"
      "only_streams a (set ks) W2 W3"
      "\<forall>k \<in> set ks. state (obj_at a W3 k) = led_to [MM_STREAM_EVT_PUT_BUF] (state (obj_at a W2 k))"
    using each_own_ok [OF W2(2) used2 ks(2) assms(2), of "[MM_STREAM_EVT_PUT_BUF]"]
    by (auto simp: plain_evts_def elim!: ensuresE)
  have h3: "same_handles a W W3"
    using handles only_streams_handles [OF W1(3)] W2(3) only_streams_handles [OF W3(3)] same_handles_trans by blast
  have "set ks = set (in_use_at a W3)" "set ks = set (in_use_at a W2)"
    using use1 same_handles_in_use [OF W2(3)] same_handles_in_use [OF only_streams_handles [OF W3(3)]] by simp_all
  then have "used_in a {MM_STREAM_STATE_CFG} W3"
    using W3(4) W2(4) led_back(3) by (simp add: used_in_all all_in_def)
  moreover have "\<not> bundle_active (channel_at W3 a)"
    using W3(3) W2(5) by (simp add: only_streams_def rest_of_def)
  ultimately have out: "stop_outcome E a W (0, W3)"
    using W3(2) h3 by (simp add: stop_outcome_def)
  have own: "\<forall>k \<in> set ks. is_own a W1 k" "filter (\<lambda>k. \<not> is_own a W3 k) ks = []"
    using all_own [OF W1(2)] all_own [OF W3(2)] use1 \<open>set ks = set (in_use_at a W3)\<close> by (simp_all add: filter_empty_conv)
  have info: "\<not> (\<exists>k \<in> set ks. is_own a W0 k \<and> info_at a W0 k = None)"
    using configured_known [OF W0(1) active _ ks(1)] by auto
  have "mm_channel_stop E a W = do {
      V \<leftarrow> each_own E a [MM_STREAM_EVT_STOP, MM_STREAM_EVT_UNREG_BUF] ks W0;
      V \<leftarrow> set_links a False ks V; V \<leftarrow> flush V; V \<leftarrow> each_own E a [MM_STREAM_EVT_PUT_BUF] ks V;
      Some (0, on_ch a (\<lambda>c. fold (\<lambda>k. on_slot k (\<lambda>_. zeroed_slot)) (filter (\<lambda>k. \<not> is_own a V k) ks) c) V) }"
    unfolding mm_channel_stop_def W0_def [symmetric] Let_def ks_def [symmetric] flush_def if_not_P [OF info]
    ..
  also have "\<dots> = Some (0, on_ch a id W3)"
    using W1(1) no_links(1) [OF own(1)] W2(1) W3(1) own(2) by (simp add: id_def)
  also have "on_ch a id W3 = W3"
    by (simp add: on_ch_def)
  finally show ?thesis
    using out by simp
qed

end
