(* ===== verification/MmChannelRuns.thy ===== *)
theory MmChannelRuns
  imports MmChannelStop
begin

text \<open>
  The operations of a channel in sequence, the contract of its users, and its invariant in every
  state of its state machine.
\<close>

section \<open>An operation on one stream by its handle\<close>

text \<open>What an operation that leaves the state of the channel alone keeps of it.\<close>

definition keeps :: "channel_env \<Rightarrow> addr \<Rightarrow> mm_stream_state set \<Rightarrow> channels \<Rightarrow> channels \<Rightarrow> bool" where
  "keeps E a S W W' \<longleftrightarrow> streams_ok E a W' \<and> used_in a S W'
     \<and> ch_state (channel_at W' a) = ch_state (channel_at W a)
     \<and> bundle_active (channel_at W' a) = bundle_active (channel_at W a)"

lemma keeps_trans: "keeps E a S U V \<Longrightarrow> keeps E a S V W \<Longrightarrow> keeps E a S U W"
  by (simp add: keeps_def)

definition closed_under :: "stream_op \<Rightarrow> mm_stream_state set \<Rightarrow> bool" where
  "closed_under op S \<longleftrightarrow> op \<noteq> Event MM_STREAM_EVT_RELEASE \<and> (\<forall>st \<in> S. \<forall>rc. state_after op st rc \<in> S)"

lemma on_stream_keeps:
  assumes "streams_ok E a W" and "k < 8" and "my_handle (obj_at a W k) \<noteq> 0" and "env_ok (senv E)"
    and "op_ok op (obj_at a W k)" and "closed_under op S" and "used_in a S W"
  shows "ensures (on_stream E a k op W) (\<lambda>(rc, W'). keeps E a S W W')"
proof -
  have "\<not> releases op (stream_view a k W)"
    using assms(6) by (auto simp: closed_under_def releases_def)
  from on_stream_ok [OF assms(1-5) this] obtain rc V where V: "on_stream E a k op W = Some (rc, V)"
      "streams_ok E a V" "only_streams a {k} W V" "state (obj_at a V k) = state_after op (state (obj_at a W k)) rc"
    by (auto elim!: ensuresE)
  have "used_in a S V"
    unfolding used_in_def
  proof (intro allI impI)
    fix j
    assume j: "j < (8 :: nat)" "my_handle (obj_at a V j) \<noteq> 0"
    then have used: "state (obj_at a W j) \<in> S"
      using assms(7) only_streams_used [OF V(3) j(1)] by (simp add: used_in_def)
    show "state (obj_at a V j) \<in> S"
      using used V(4) assms(6) only_streams_other [OF V(3) j(1)]
      by (cases "j = k") (auto simp: closed_under_def)
  qed
  then show ?thesis
    using V(1-3) by (simp add: keeps_def only_streams_def rest_of_def)
qed

lemma with_stream_keeps:
  assumes "streams_ok E a W" and "env_ok (senv E)" and "used_in a S W" and "closed_under op S"
    and "\<And>k. stream_by_handler h (slots (channel_at W a)) = Some k \<Longrightarrow> op_ok op (obj_at a W k)"
  shows "ensures (with_stream E redirect a h op W) (\<lambda>(rc, W'). keeps E a S W W')"
proof (cases "stream_by_handler h (slots (channel_at W a))")
  case None
  then show ?thesis
    using assms(1,3) by (simp add: with_stream_def keeps_def)
next
  case (Some k)
  note k = lookup_found [OF assms(1) Some]
  then show ?thesis
    using on_stream_keeps [OF assms(1) k(1) _ assms(2) assms(5) [OF Some] assms(4,3)] Some
    by (simp add: with_stream_def)
qed

lemma closed_stopped:
  assumes "op \<in> {Event (MM_STREAM_EVT_SET_FMT c), Event (MM_STREAM_EVT_SET_PARM b), Event (MM_STREAM_EVT_GET_PARM b),
    Event (MM_STREAM_EVT_DO_ACTION b), Event (MM_STREAM_EVT_QBUF r), Event (MM_STREAM_EVT_CANCEL_BUF i),
    Event MM_STREAM_EVT_GET_QUEUED_BUF_COUNT, Map_op m, Reg_buf_cb v, Data_notify, Cmd_turn}"
  shows "closed_under op {MM_STREAM_STATE_ACQUIRED, MM_STREAM_STATE_CFG}"
  using assms by (auto simp: closed_under_def state_after_def next_stream_state_def)

lemma closed_active:
  assumes "op \<in> {Event (MM_STREAM_EVT_SET_PARM b), Event (MM_STREAM_EVT_GET_PARM b),
    Event (MM_STREAM_EVT_DO_ACTION b), Event (MM_STREAM_EVT_QBUF r), Event (MM_STREAM_EVT_CANCEL_BUF i),
    Event MM_STREAM_EVT_GET_QUEUED_BUF_COUNT, Map_op m, Reg_buf_cb v, Data_notify, Cmd_turn}"
  shows "closed_under op {MM_STREAM_STATE_ACTIVE}"
  using assms by (auto simp: closed_under_def state_after_def next_stream_state_def)

section \<open>Commands\<close>

lemma post_cmd_keeps:
  assumes "streams_ok E a W" and "used_in a S W"
  shows "keeps E a S W (snd (post_cmd E a cmd W))"
proof -
  obtain rc V where V: "post_cmd E a cmd W = (rc, V)"
    by fastforce
  have "bundle_active (channel_at V a) = bundle_active (channel_at W a)"
    using V by (auto simp: post_cmd_def ch_call_def Let_def on_ch_def split: if_splits)
  then show ?thesis
    using post_cmd_ok [OF assms(1) V] same_slots_handles [of a W V] assms(2) V
    by (simp add: keeps_def same_slots_def)
qed

text \<open>The buffers handed back while a caller waits are references of their users.\<close>

definition give_ok :: "addr \<Rightarrow> uint32 \<Rightarrow> buf_ref \<Rightarrow> channels \<Rightarrow> bool" where
  "give_ok a h r W \<longleftrightarrow>
    (case stream_by_handler h (slots (channel_at W a)) of
       None \<Rightarrow> True | Some k \<Rightarrow> op_ok (Event (MM_STREAM_EVT_QBUF r)) (obj_at a W k))"

fun gives_ok :: "channel_env \<Rightarrow> addr \<Rightarrow> (uint32 \<times> nat) list \<Rightarrow> channels \<Rightarrow> bool" where
  "gives_ok E a [] W = True"
| "gives_ok E a ((h, i) # gs) W =
    (give_ok a h (Buf i) W
     \<and> (case channel_qbuf E a h (Buf i) W of None \<Rightarrow> True | Some (rc, W) \<Rightarrow> gives_ok E a gs W))"

lemma qbuf_keeps:
  assumes "streams_ok E a W" and "env_ok (senv E)" and "used_in a S W" and "give_ok a h r W"
    and "S \<in> {{MM_STREAM_STATE_ACQUIRED, MM_STREAM_STATE_CFG}, {MM_STREAM_STATE_ACTIVE}}"
  shows "ensures (channel_qbuf E a h r W) (\<lambda>(rc, W'). keeps E a S W W')"
proof -
  have "closed_under (Event (MM_STREAM_EVT_QBUF r)) S"
    using assms(5) closed_stopped closed_active by auto
  then show ?thesis
    unfolding channel_qbuf_def using assms(4)
    by (intro with_stream_keeps assms(1-3)) (simp_all add: give_ok_def)
qed

lemma give_backs_keeps:
  assumes "env_ok (senv E)" and "S \<in> {{MM_STREAM_STATE_ACQUIRED, MM_STREAM_STATE_CFG}, {MM_STREAM_STATE_ACTIVE}}"
  shows "streams_ok E a W \<Longrightarrow> used_in a S W \<Longrightarrow> gives_ok E a gs W \<Longrightarrow> ensures (give_backs E a gs W) (keeps E a S W)"
proof (induction gs arbitrary: W)
  case Nil
  then show ?case
    by (simp add: keeps_def)
next
  case (Cons g gs)
  obtain h i where g: "g = (h, i)"
    by fastforce
  obtain rc V where V: "channel_qbuf E a h (Buf i) W = Some (rc, V)" "keeps E a S W V"
    using qbuf_keeps [where h = h and r = "Buf i", OF Cons.prems(1) assms(1) Cons.prems(2) _ assms(2)] Cons.prems(3) g
    by (auto elim!: ensuresE)
  have "streams_ok E a V" "used_in a S V" "gives_ok E a gs V"
    using Cons.prems(3) V g by (simp_all add: keeps_def)
  from Cons.IH [OF this] have "ensures (give_backs E a gs V) (keeps E a S V)" .
  then show ?case
    using V g keeps_trans by (auto elim!: ensures_mono)
qed

definition flush_ok :: "channel_env \<Rightarrow> addr \<Rightarrow> uint32 \<Rightarrow> channels \<Rightarrow> bool" where
  "flush_ok E a f W \<longleftrightarrow>
    (let W = snd (post_cmd E a (MM_CAMERA_CMD_TYPE_FLUSH_QUEUE f CAM_STREAM_TYPE_DEFAULT) W)
     in gives_ok E a (gives E (history_of W)) W)"

lemma flush_keeps:
  assumes "streams_ok E a W" and "env_ok (senv E)" and "used_in a S W" and "flush_ok E a f W"
    and "S \<in> {{MM_STREAM_STATE_ACQUIRED, MM_STREAM_STATE_CFG}, {MM_STREAM_STATE_ACTIVE}}"
  shows "ensures (mm_channel_flush_super_buf_queue E a f CAM_STREAM_TYPE_DEFAULT W) (\<lambda>(rc, W'). keeps E a S W W')"
proof -
  obtain rc V where V: "post_cmd E a (MM_CAMERA_CMD_TYPE_FLUSH_QUEUE f CAM_STREAM_TYPE_DEFAULT) W = (rc, V)"
    by fastforce
  have keep: "keeps E a S W V"
    using post_cmd_keeps [OF assms(1,3), of "MM_CAMERA_CMD_TYPE_FLUSH_QUEUE f CAM_STREAM_TYPE_DEFAULT"] V by simp
  then have "ensures (await_thread E a V) (keeps E a S V)"
    using give_backs_keeps [OF assms(2,5), of a V] assms(4) V
    by (simp add: await_thread_def keeps_def flush_ok_def)
  then show ?thesis
    using V keep keeps_trans by (auto simp: mm_channel_flush_super_buf_queue_def elim!: ensures_mono)
qed

section \<open>Adding and deleting\<close>

lemma free_slot_found:
  assumes "streams_ok E a W" and "free_slot (channel_at W a) = Some k"
  shows "k < 8" "my_handle (obj_at a W k) = 0"
proof -
  have k: "k < 8" "state (obj_at a W k) = MM_STREAM_STATE_NOTUSED"
    using assms by (auto simp: free_slot_def first_index_eq streams_ok_def)
  then have "slot_ok E a W k"
    using assms(1) by (simp add: streams_ok_def)
  then show "k < 8" "my_handle (obj_at a W k) = 0"
    using k by (auto simp: slot_ok_def split: if_splits)
qed

text \<open>The place of a stream cleared, the others as they were.\<close>

lemma slot_cleared:
  assumes "length (slots (channel_at W a)) = 8" and "sized (poll_of (channel_at W a))" and "k < 8"
    and "my_handle s = 0" and "state s = MM_STREAM_STATE_NOTUSED"
    and "slots (channel_at W' a) = (slots (channel_at W a))[k := zeroed_slot\<lparr>slot_obj := s\<rparr>]"
    and "poll_of (channel_at W' a) = poll_of (channel_at W a)"
    and "history_of W' = history_of W \<or> history_of W' = (h, Close_fd) # history_of W"
    and "\<And>j. j < 8 \<Longrightarrow> j \<noteq> k \<Longrightarrow> slot_ok E a W j \<and> (my_handle (obj_at a W j) \<noteq> 0 \<longrightarrow> state (obj_at a W j) \<in> S)"
  shows "streams_ok E a W' \<and> used_in a S W'"
proof -
  have "slot_ok E a W' j \<and> (my_handle (obj_at a W' j) \<noteq> 0 \<longrightarrow> state (obj_at a W' j) \<in> S)" if j: "j < 8" for j
  proof (cases "j = k")
    case True
    then show ?thesis
      using assms(1,3-6) by (simp add: slot_ok_def)
  next
    case False
    have "same_for (senv E) (stream_view a j W) (stream_view a j W')"
      using False assms(8)
      by (auto simp: same_for_def stream_view_def assms(6,7) in_hand_def polled_def has_slot_def Let_def split: if_splits)
    from same_for_inv [OF this] have "slot_ok E a W' j = slot_ok E a W j"
      using False by (simp add: slot_ok_def is_own_def assms(6))
    then show ?thesis
      using assms(9) [OF j False] False by (simp add: assms(6))
  qed
  then show ?thesis
    using assms(1,2) by (simp add: streams_ok_def used_in_def assms(6,7))
qed

lemma del_keeps:
  assumes "streams_ok E a W" and "env_ok (senv E)"
    and "used_in a {MM_STREAM_STATE_ACQUIRED, MM_STREAM_STATE_CFG} W"
  shows "ensures (mm_channel_del_stream E a h W)
    (\<lambda>(rc, W'). keeps E a {MM_STREAM_STATE_ACQUIRED, MM_STREAM_STATE_CFG} W W')"
proof (cases "stream_by_handler h (slots (channel_at W a))")
  case None
  then show ?thesis
    using assms(1,3) by (simp add: mm_channel_del_stream_def keeps_def)
next
  case (Some k)
  note k = lookup_found [OF assms(1) Some]
  let ?w = "stream_view a k W"
  have ok: "slot_ok E a W j" if "j < 8" for j
    using assms(1) that by (simp add: streams_ok_def)
  have rel: "releases (Event MM_STREAM_EVT_RELEASE) ?w"
    using assms(3) k by (simp add: releases_def used_in_def)
  have "stream_inv (senv E) ?w"
    using ok [OF k(1)] k by (simp add: slot_ok_def)
  from run_op_ok [OF this assms(2), of "Event MM_STREAM_EVT_RELEASE"]
  obtain rc w where run: "mm_stream_fsm_fn (senv E) MM_STREAM_EVT_RELEASE ?w = Some (rc, w)"
    by (auto elim!: ensuresE)
  note w = release_event [OF rel run]
  let ?W = "put_stream a k w W"
  have len: "length (slots (channel_at W a)) = 8" "sized (poll_of (channel_at W a))"
    using assms(1) by (simp_all add: streams_ok_def)
  have "my_handle (strm w) = 0"
    using w by (simp add: zeroed_stream_def)
  then have slots: "slots (channel_at ?W a) = (slots (channel_at W a))[k := zeroed_slot\<lparr>slot_obj := strm w\<rparr>]"
      "poll_of (channel_at ?W a) = poll_of (channel_at W a)"
      "ch_state (channel_at ?W a) = ch_state (channel_at W a)"
      "bundle_active (channel_at ?W a) = bundle_active (channel_at W a)"
      "history_of ?W = history_of W \<or> history_of ?W = (hdl ?w, Close_fd) # history_of W"
    using w by (auto simp: put_stream_def Let_def on_ch_def on_slot_def)
  have "streams_ok E a ?W \<and> used_in a {MM_STREAM_STATE_ACQUIRED, MM_STREAM_STATE_CFG} ?W"
    using ok assms(3) w by (intro slot_cleared [OF len k(1) _ _ slots(1,2,5)]) (auto simp: zeroed_stream_def used_in_def)
  then show ?thesis
    using run Some k(4) slots(3,4) len(1) k(1)
    by (simp add: mm_channel_del_stream_def on_stream_def keeps_def)
qed

lemma add_keeps:
  assumes "streams_ok E a W" and "env_ok (senv E)"
    and "used_in a {MM_STREAM_STATE_ACQUIRED, MM_STREAM_STATE_CFG} W"
  shows "ensures (mm_channel_add_stream E a W)
    (\<lambda>(h, W'). keeps E a {MM_STREAM_STATE_ACQUIRED, MM_STREAM_STATE_CFG} W W')"
proof (cases "free_slot (channel_at W a)")
  case None
  then show ?thesis
    using assms(1,3) by (simp add: mm_channel_add_stream_def keeps_def)
next
  case (Some k)
  note k = free_slot_found [OF assms(1) Some]
  have len: "length (slots (channel_at W a)) = 8" "sized (poll_of (channel_at W a))"
    using assms(1) by (simp_all add: streams_ok_def)
  have ok: "slot_ok E a W j" if "j < 8" for j
    using assms(1) that by (simp add: streams_ok_def)
  define h where "h = handle_of (next_count (handle_count W)) (of_nat k)"
  define s where "s = zeroed_slot\<lparr>slot_obj := zeroed_stream\<lparr>fd := -1, my_handle := h, state := MM_STREAM_STATE_INITED\<rparr>,
      slot_ch := a\<rparr>"
  define V where "V = (on_ch a (on_slot k (\<lambda>_. s)) W)\<lparr>handle_count := next_count (handle_count W)\<rparr>"
  have h: "h \<noteq> 0" "unat (mm_camera_util_get_index_by_handler h) = k"
    using handle_nonzero [OF next_count_nonzero] k(1) by (simp_all add: h_def unat_of_nat)
  have V: "slots (channel_at V a) = (slots (channel_at W a))[k := s]" "poll_of (channel_at V a) = poll_of (channel_at W a)"
      "ch_state (channel_at V a) = ch_state (channel_at W a)"
      "bundle_active (channel_at V a) = bundle_active (channel_at W a)" "history_of V = history_of W"
    by (simp_all add: V_def on_ch_def on_slot_def)
  have obj: "obj_at a V k = slot_obj s" "is_own a V k"
    using V(1) len(1) k(1) by (simp_all add: is_own_def s_def)
  have fresh: "fresh_stream (stream_view a k V)"
    using h len k(1) by (simp add: fresh_stream_def has_slot_def obj V slot_index sized_def s_def zeroed_slot_def
        zeroed_stream_def MAX_STREAM_NUM_IN_BUNDLE_def)
  obtain rc w where run: "run_op (senv E) (Event MM_STREAM_EVT_ACQUIRE) (stream_view a k V) = Some (rc, w)"
      "stream_inv (senv E) w"
    using run_op_ok [OF fresh_inv [OF fresh] assms(2), of "Event MM_STREAM_EVT_ACQUIRE"] by (auto elim!: ensuresE)
  have st: "state (strm w) = (if rc = 0 then MM_STREAM_STATE_ACQUIRED else MM_STREAM_STATE_INITED)"
    using run_op_state [OF run(1)] by (simp add: obj s_def next_stream_state_def)
  have keep: "\<not> releases (Event MM_STREAM_EVT_ACQUIRE) (stream_view a k V)"
    by (simp add: releases_def)
  have hdl: "my_handle (strm w) = h"
    using outside_hdl [OF run_op_spares [OF run(1) keep]] by (simp add: obj s_def)
  have sized: "sized (poll (ctx w))"
    using inv_sized [OF run(2)] st by simp
  let ?V = "put_stream a k w V"
  have others: "slot_ok E a ?V j \<and> (my_handle (obj_at a ?V j) \<noteq> 0 \<longrightarrow>
      state (obj_at a ?V j) \<in> {MM_STREAM_STATE_ACQUIRED, MM_STREAM_STATE_CFG})" if j: "j < 8" "j \<noteq> k" for j
  proof -
    have same: "same_for (senv E) (stream_view a j W) (stream_view a j V)" "slot_at a V j = slot_at a W j"
      using j(2) by (auto simp: same_for_def stream_view_def V in_hand_def polled_def has_slot_def Let_def)
    from same_for_inv [OF this(1)] have "slot_ok E a V j = slot_ok E a W j"
      using same(2) by (simp add: slot_ok_def is_own_def)
    then have "slot_ok E a ?V j"
      using ok [OF j(1)] put_others [OF _ j(2) _ run(1) keep sized] len(2) h by (simp add: V(2) obj s_def)
    moreover have "obj_at a ?V j = obj_at a W j"
      using j(2) same(2) hdl h(1) by (simp add: put_stream_slots)
    ultimately show ?thesis
      using assms(3) j(1) by (simp add: used_in_def)
  qed
  have here: "obj_at a ?V k = strm w" "is_own a ?V k" "stream_view a k ?V = w"
    using hdl h(1) obj(2) len(1) k(1) V(1) by (simp_all add: put_stream_slots is_own_def view_put)
  have len_V: "length (slots (channel_at ?V a)) = 8" "sized (poll_of (channel_at ?V a))"
      "ch_state (channel_at ?V a) = ch_state (channel_at W a)"
      "bundle_active (channel_at ?V a) = bundle_active (channel_at W a)"
    using hdl h(1) len V sized put_stream_slots(3) [of w a k V] by (simp_all add: put_stream_slots rest_of_def)
  have "length (slots (channel_at (on_ch a (on_slot k (\<lambda>_. s)) W) a)) = 8"
    using len(1) by (simp add: on_ch_def on_slot_def)
  then have eq: "mm_channel_add_stream E a W = Some (if rc = 0 then (h, ?V) else (0, on_ch a (on_slot k (\<lambda>_. zeroed_slot)) ?V))"
    using Some run(1) len(1) k(1) here(1) hdl
    by (simp add: mm_channel_add_stream_def generate_handler_eq h_def [symmetric] s_def [symmetric] V_def [symmetric]
        Let_def on_stream_def V(1))
  show ?thesis
  proof (cases "rc = 0")
    case True
    have "slot_ok E a ?V k"
      using True here st hdl h run(2) by (simp add: slot_ok_def)
    then have "streams_ok E a ?V \<and> used_in a {MM_STREAM_STATE_ACQUIRED, MM_STREAM_STATE_CFG} ?V"
      using others len_V(1,2) here(1) st True by (fastforce simp: streams_ok_def used_in_def)
    then show ?thesis
      using True eq len_V by (simp add: keeps_def)
  next
    case False
    let ?U = "on_ch a (on_slot k (\<lambda>_. zeroed_slot)) ?V"
    have "zeroed_slot\<lparr>slot_obj := zeroed_stream\<rparr> = zeroed_slot"
      by (simp add: zeroed_slot_def)
    then have "streams_ok E a ?U \<and> used_in a {MM_STREAM_STATE_ACQUIRED, MM_STREAM_STATE_CFG} ?U"
      using others by (intro slot_cleared [OF len_V(1,2) k(1), where s = zeroed_stream])
        (simp_all add: zeroed_stream_def on_ch_def on_slot_def)
    then show ?thesis
      using False eq len_V(3,4) by (simp add: keeps_def) (simp add: on_ch_def on_slot_def)
  qed
qed

end
