(* ===== verification/MmChannelReach.thy ===== *)
theory MmChannelReach
  imports MmChannelRuns
begin

text \<open>
  What users of a channel owe it, and that its invariant holds after every operation they may
  do: those of its state machine, buffers given back or taken back by its users, frames and
  turns of the threads of its streams.
\<close>

section \<open>Operations and contract\<close>

datatype channel_op =
    Channel_event mm_channel_evt
  | Give_back uint32 buf_ref
  | Take_back uint32 uint32
  | Stream_frame nat
  | Stream_turn nat

fun run_channel_op :: "channel_env \<Rightarrow> addr \<Rightarrow> channel_op \<Rightarrow> channels \<Rightarrow> (int32 \<times> evt_out) ch_result" where
  "run_channel_op E a (Channel_event evt) W = mm_channel_fsm_fn E a evt W"
| "run_channel_op E a (Give_back h r) W = no_out (channel_qbuf E a h r W)"
| "run_channel_op E a (Take_back h i) W = no_out (mm_channel_cancel_buf E a h i W)"
| "run_channel_op E a (Stream_frame k) W = no_out (on_stream E a k Data_notify W)"
| "run_channel_op E a (Stream_turn k) W = no_out (on_stream E a k Cmd_turn W)"

text \<open>
  No stream of another channel is linked; a start and a question for the bundle need all streams
  configured; requests are valid as those of a stream are.
\<close>

fun evt_ok :: "channel_env \<Rightarrow> addr \<Rightarrow> mm_channel_evt \<Rightarrow> channels \<Rightarrow> bool" where
  "evt_ok E a (MM_CHANNEL_EVT_LINK_STREAM l) W = False"
| "evt_ok E a MM_CHANNEL_EVT_START W =
     (ch_state (channel_at W a) = MM_CHANNEL_STATE_STOPPED \<longrightarrow> used_in a {MM_STREAM_STATE_CFG} W)"
| "evt_ok E a MM_CHANNEL_EVT_GET_BUNDLE_INFO W =
     (ch_state (channel_at W a) = MM_CHANNEL_STATE_STOPPED \<longrightarrow> used_in a {MM_STREAM_STATE_CFG} W)"
| "evt_ok E a (MM_CHANNEL_EVT_CONFIG_STREAM h c) W = op_ok (Event (MM_STREAM_EVT_SET_FMT c)) zeroed_stream"
| "evt_ok E a (MM_CHANNEL_EVT_MAP_STREAM_BUF p) W =
     (case p of None \<Rightarrow> False | Some (h, ty, i) \<Rightarrow> map_valid (Map ty i))"
| "evt_ok E a (MM_CHANNEL_EVT_UNMAP_STREAM_BUF p) W =
     (case p of None \<Rightarrow> False | Some (h, ty, i) \<Rightarrow> map_valid (Unmap ty i))"
| "evt_ok E a (MM_CHANNEL_EVT_MAP_STREAM_BUFS p) W =
     (case p of None \<Rightarrow> True | Some (h, ty, n) \<Rightarrow> map_valid (Map_bundle ty n))"
| "evt_ok E a (MM_CHANNEL_EVT_REG_STREAM_BUF_CB h v) W = op_ok (Reg_buf_cb v) zeroed_stream"
| "evt_ok E a (MM_CHANNEL_EVT_FLUSH_SUPER_BUF_QUEUE f) W = flush_ok E a f W"
| "evt_ok E a _ W = True"

definition open_channel :: "addr \<Rightarrow> channels \<Rightarrow> bool" where
  "open_channel a W \<longleftrightarrow> ch_state (channel_at W a) \<noteq> MM_CHANNEL_STATE_NOTUSED"

definition used_at :: "addr \<Rightarrow> channels \<Rightarrow> nat \<Rightarrow> bool" where
  "used_at a W k \<longleftrightarrow> k < 8 \<and> my_handle (obj_at a W k) \<noteq> 0"

fun channel_op_ok :: "channel_env \<Rightarrow> addr \<Rightarrow> channel_op \<Rightarrow> channels \<Rightarrow> bool" where
  "channel_op_ok E a (Channel_event evt) W = evt_ok E a evt W"
| "channel_op_ok E a (Give_back h r) W = (open_channel a W \<and> give_ok a h r W)"
| "channel_op_ok E a (Take_back h i) W = (open_channel a W \<and> unat i < CAM_MAX_NUM_BUFS_PER_STREAM)"
| "channel_op_ok E a (Stream_frame k) W = (open_channel a W \<and> used_at a W k)"
| "channel_op_ok E a (Stream_turn k) W = (open_channel a W \<and> used_at a W k)"

section \<open>The invariant\<close>

definition chan_inv :: "channel_env \<Rightarrow> addr \<Rightarrow> channels \<Rightarrow> bool" where
  "chan_inv E a W \<longleftrightarrow>
    (case ch_state (channel_at W a) of
       MM_CHANNEL_STATE_NOTUSED \<Rightarrow> True
     | MM_CHANNEL_STATE_STOPPED \<Rightarrow>
         streams_ok E a W \<and> used_in a {MM_STREAM_STATE_ACQUIRED, MM_STREAM_STATE_CFG} W
         \<and> \<not> bundle_active (channel_at W a)
     | MM_CHANNEL_STATE_ACTIVE \<Rightarrow> streams_ok E a W \<and> used_in a {MM_STREAM_STATE_ACTIVE} W
     | MM_CHANNEL_STATE_PAUSED \<Rightarrow> False)"

lemma inv_stopped:
  assumes "chan_inv E a W" and "ch_state (channel_at W a) = MM_CHANNEL_STATE_STOPPED"
  shows "streams_ok E a W" "used_in a {MM_STREAM_STATE_ACQUIRED, MM_STREAM_STATE_CFG} W"
    "\<not> bundle_active (channel_at W a)"
  using assms by (simp_all add: chan_inv_def)

lemma inv_active:
  assumes "chan_inv E a W" and "ch_state (channel_at W a) = MM_CHANNEL_STATE_ACTIVE"
  shows "streams_ok E a W" "used_in a {MM_STREAM_STATE_ACTIVE} W"
  using assms by (simp_all add: chan_inv_def)

text \<open>The states the streams may have in a state of the channel.\<close>

definition stream_states :: "mm_channel_state \<Rightarrow> mm_stream_state set" where
  "stream_states st =
    (if st = MM_CHANNEL_STATE_STOPPED then {MM_STREAM_STATE_ACQUIRED, MM_STREAM_STATE_CFG} else {MM_STREAM_STATE_ACTIVE})"

lemma inv_open:
  assumes "chan_inv E a W" and "open_channel a W"
  shows "streams_ok E a W" "used_in a (stream_states (ch_state (channel_at W a))) W"
    "stream_states (ch_state (channel_at W a)) \<in> {{MM_STREAM_STATE_ACQUIRED, MM_STREAM_STATE_CFG}, {MM_STREAM_STATE_ACTIVE}}"
  using assms by (auto simp: chan_inv_def open_channel_def stream_states_def split: mm_channel_state.splits)

lemma keeps_inv:
  assumes "chan_inv E a W" and "open_channel a W" and "keeps E a (stream_states (ch_state (channel_at W a))) W W'"
  shows "chan_inv E a W'"
  using assms by (auto simp: chan_inv_def open_channel_def stream_states_def keeps_def split: mm_channel_state.splits)

lemma no_out_ensures: "ensures (no_out r) P = ensures r (\<lambda>(rc, W). P ((rc, Nothing_out), W))"
  by (cases r) (auto simp: no_out_def)

text \<open>An operation on a stream, by its handle or its place, in an open channel.\<close>

definition quiet_op :: "stream_op \<Rightarrow> bool" where
  "quiet_op op \<longleftrightarrow> closed_under op {MM_STREAM_STATE_ACQUIRED, MM_STREAM_STATE_CFG}
     \<and> closed_under op {MM_STREAM_STATE_ACTIVE}"

lemma quiet_op_simps [simp]:
  "quiet_op (Event (MM_STREAM_EVT_SET_PARM b))" "quiet_op (Event (MM_STREAM_EVT_GET_PARM b))"
  "quiet_op (Event (MM_STREAM_EVT_DO_ACTION b))" "quiet_op (Event (MM_STREAM_EVT_QBUF r))"
  "quiet_op (Event (MM_STREAM_EVT_CANCEL_BUF i))" "quiet_op (Event MM_STREAM_EVT_GET_QUEUED_BUF_COUNT)"
  "quiet_op (Map_op m)" "quiet_op (Reg_buf_cb v)" "quiet_op Data_notify" "quiet_op Cmd_turn"
  using closed_stopped closed_active by (auto simp: quiet_op_def)

lemma with_stream_inv:
  assumes "chan_inv E a W" and "open_channel a W" and "env_ok (senv E)" and "quiet_op op"
    and "\<And>k. stream_by_handler h (slots (channel_at W a)) = Some k \<Longrightarrow> op_ok op (obj_at a W k)"
  shows "ensures (with_stream E redirect a h op W) (\<lambda>(rc, W'). chan_inv E a W')"
proof -
  have "closed_under op (stream_states (ch_state (channel_at W a)))"
    using assms(4) by (simp add: quiet_op_def stream_states_def)
  then have "ensures (with_stream E redirect a h op W) (\<lambda>(rc, W'). keeps E a (stream_states (ch_state (channel_at W a))) W W')"
    using assms(5) by (intro with_stream_keeps inv_open [OF assms(1,2)] assms(3))
  then show ?thesis
    by (auto intro: keeps_inv [OF assms(1,2)] elim!: ensures_mono)
qed

lemma at_stream_inv:
  assumes "chan_inv E a W" and "open_channel a W" and "env_ok (senv E)" and "quiet_op op"
    and "used_at a W k" and "op_ok op (obj_at a W k)"
  shows "ensures (on_stream E a k op W) (\<lambda>(rc, W'). chan_inv E a W')"
proof -
  have "closed_under op (stream_states (ch_state (channel_at W a)))"
    using assms(4) by (simp add: quiet_op_def stream_states_def)
  from on_stream_keeps [OF inv_open(1) [OF assms(1,2)] _ _ assms(3,6) this inv_open(2) [OF assms(1,2)]] assms(5)
  show ?thesis
    by (auto simp: used_at_def intro: keeps_inv [OF assms(1,2)] elim!: ensures_mono)
qed

lemma post_inv:
  assumes "chan_inv E a W" and "open_channel a W"
  shows "chan_inv E a (snd (post_cmd E a cmd W))"
  using keeps_inv [OF assms] post_cmd_keeps inv_open [OF assms] by blast

lemma bundle_ids_known:
  assumes "streams_ok E a W" and "used_in a {MM_STREAM_STATE_CFG} W"
  shows "bundle_ids a W ss \<noteq> None"
proof (induction ss)
  case (Cons s ss)
  have "info_at a W k \<noteq> None" if "stream_by_handler h (slots (channel_at W a)) = Some k" for h k
    using lookup_found [OF assms(1) that] info_known [OF assms(1)] assms(2) by (simp add: used_in_def)
  then show ?case
    using Cons by (fastforce split: option.splits)
qed simp

section \<open>Every event\<close>

lemma start_event:
  assumes "chan_inv E a W" and "ch_state (channel_at W a) = MM_CHANNEL_STATE_STOPPED" and "env_ok (senv E)"
    and "used_in a {MM_STREAM_STATE_CFG} W"
  shows "ensures (mm_channel_fsm_fn_stopped E a MM_CHANNEL_EVT_START W) (\<lambda>(r, W'). chan_inv E a W')"
proof -
  obtain rc V where V: "mm_channel_start E a W = Some (rc, V)" "start_outcome E a W (rc, V)"
    using mm_channel_start_ok [OF inv_stopped(1) [OF assms(1,2)] assms(3,4) inv_stopped(3) [OF assms(1,2)]]
    by (auto elim!: ensuresE)
  define f where "f = (\<lambda>c::channel. c\<lparr>ch_state := MM_CHANNEL_STATE_ACTIVE\<rparr>)"
  have f: "same_ctx (channel_at V a) (f (channel_at V a))"
      "ch_state (channel_at (on_ch a f V) a) = MM_CHANNEL_STATE_ACTIVE"
    by (simp_all add: f_def same_ctx_def on_ch_def)
  show ?thesis
  proof (cases "rc = 0")
    case True
    then have "streams_ok E a V" "used_in a {MM_STREAM_STATE_ACTIVE} V"
      using V(2) by (simp_all add: start_outcome_def)
    then have "chan_inv E a (on_ch a f V)"
      using on_ch_kept [where f = f and E = E, OF _ f(1)] f(2) by (simp add: chan_inv_def)
    then show ?thesis
      using V(1) True by (simp add: mm_channel_fsm_fn_stopped_def f_def)
  next
    case False
    then have "chan_inv E a V"
      using V(2) assms(2) by (auto simp: start_outcome_def chan_inv_def used_in_def)
    then show ?thesis
      using V(1) False by (simp add: mm_channel_fsm_fn_stopped_def)
  qed
qed

lemma stop_event:
  assumes "chan_inv E a W" and "ch_state (channel_at W a) = MM_CHANNEL_STATE_ACTIVE" and "env_ok (senv E)"
  shows "ensures (mm_channel_fsm_fn_active E a MM_CHANNEL_EVT_STOP W) (\<lambda>(r, W'). chan_inv E a W')"
proof -
  obtain rc V where V: "mm_channel_stop E a W = Some (rc, V)" "stop_outcome E a W (rc, V)"
    using mm_channel_stop_ok [OF inv_active(1) [OF assms(1,2)] assms(3) inv_active(2) [OF assms(1,2)]]
    by (auto elim!: ensuresE)
  define f where "f = (\<lambda>c::channel. c\<lparr>ch_state := MM_CHANNEL_STATE_STOPPED\<rparr>)"
  have f: "same_ctx (channel_at V a) (f (channel_at V a))"
      "ch_state (channel_at (on_ch a f V) a) = MM_CHANNEL_STATE_STOPPED"
      "bundle_active (channel_at (on_ch a f V) a) = bundle_active (channel_at V a)"
    by (simp_all add: f_def same_ctx_def on_ch_def)
  have "used_in a {MM_STREAM_STATE_ACQUIRED, MM_STREAM_STATE_CFG} V" "streams_ok E a V" "\<not> bundle_active (channel_at V a)"
    using V(2) by (auto simp: stop_outcome_def used_in_def)
  then have "chan_inv E a (on_ch a f V)"
    using on_ch_kept [where f = f and E = E, OF _ f(1)] f(2,3) by (simp add: chan_inv_def)
  then show ?thesis
    using V(1) by (simp add: mm_channel_fsm_fn_active_def f_def)
qed

lemmas stream_requests = mm_channel_set_stream_parm_def mm_channel_get_stream_parm_def mm_channel_do_stream_action_def
  mm_channel_get_queued_buf_count_def mm_channel_reg_stream_buf_cb_def mm_channel_map_stream_buf_def
  mm_channel_map_stream_bufs_def mm_channel_unmap_stream_buf_def

lemmas channel_commands = mm_channel_request_super_buf_def mm_channel_cancel_super_buf_request_def
  mm_channel_config_notify_mode_def mm_channel_start_zsl_snapshot_def mm_channel_stop_zsl_snapshot_def
  mm_channel_proc_general_cmd_def

lemma map_event:
  assumes "chan_inv E a W" and "open_channel a W" and "env_ok (senv E)"
  shows "(case p of None \<Rightarrow> False | Some (h, ty, i) \<Rightarrow> map_valid (Map ty i)) \<Longrightarrow>
      ensures (mm_channel_map_stream_buf E a p W) (\<lambda>(rc, W'). chan_inv E a W')"
    "(case p of None \<Rightarrow> False | Some (h, ty, i) \<Rightarrow> map_valid (Unmap ty i)) \<Longrightarrow>
      ensures (mm_channel_unmap_stream_buf E a p W) (\<lambda>(rc, W'). chan_inv E a W')"
    "(case q of None \<Rightarrow> True | Some (h, ty, n) \<Rightarrow> map_valid (Map_bundle ty n)) \<Longrightarrow>
      ensures (mm_channel_map_stream_bufs E a q W) (\<lambda>(rc, W'). chan_inv E a W')"
  using with_stream_inv [OF assms] assms(1)
  by (auto simp: stream_requests split: option.splits)

lemma event_stopped:
  assumes "chan_inv E a W" and "ch_state (channel_at W a) = MM_CHANNEL_STATE_STOPPED" and "env_ok (senv E)"
    and "evt_ok E a evt W"
  shows "ensures (mm_channel_fsm_fn_stopped E a evt W) (\<lambda>(r, W'). chan_inv E a W')"
proof -
  note inv = inv_stopped [OF assms(1,2)]
  have opn: "open_channel a W"
    using assms(2) by (simp add: open_channel_def)
  have kept: "chan_inv E a V" if "keeps E a {MM_STREAM_STATE_ACQUIRED, MM_STREAM_STATE_CFG} W V" for V
    using keeps_inv [OF assms(1) opn] that assms(2) by (simp add: stream_states_def)
  note stream = with_stream_inv [OF assms(1) opn assms(3)]
  show ?thesis
  proof (cases evt)
    case MM_CHANNEL_EVT_ADD_STREAM
    then show ?thesis
      using add_keeps [OF inv(1) assms(3) inv(2)]
      by (auto simp: mm_channel_fsm_fn_stopped_def intro: kept elim!: ensures_mono)
  next
    case (MM_CHANNEL_EVT_DEL_STREAM h)
    then show ?thesis
      using del_keeps [OF inv(1) assms(3) inv(2), of h]
      by (auto simp: mm_channel_fsm_fn_stopped_def no_out_ensures intro: kept elim!: ensures_mono)
  next
    case (MM_CHANNEL_EVT_CONFIG_STREAM h c)
    have "ensures (with_stream E False a h (Event (MM_STREAM_EVT_SET_FMT c)) W)
        (\<lambda>(rc, W'). keeps E a {MM_STREAM_STATE_ACQUIRED, MM_STREAM_STATE_CFG} W W')"
      using assms(4) MM_CHANNEL_EVT_CONFIG_STREAM closed_stopped
      by (intro with_stream_keeps inv assms(3)) simp_all
    then show ?thesis
      using MM_CHANNEL_EVT_CONFIG_STREAM
      by (auto simp: mm_channel_fsm_fn_stopped_def mm_channel_config_stream_def no_out_ensures
          intro: kept elim!: ensures_mono)
  next
    case MM_CHANNEL_EVT_GET_BUNDLE_INFO
    then obtain rc ids where "bundle_ids a W (slots (channel_at W a)) = Some (rc, ids)"
      using bundle_ids_known [OF inv(1), of "slots (channel_at W a)"] assms(2,4) by auto
    then show ?thesis
      using MM_CHANNEL_EVT_GET_BUNDLE_INFO assms(1)
      by (simp add: mm_channel_fsm_fn_stopped_def mm_channel_get_bundle_info_def)
  next
    case MM_CHANNEL_EVT_START
    then show ?thesis
      using start_event [OF assms(1-3)] assms(2,4) by simp
  next
    case (MM_CHANNEL_EVT_MAP_STREAM_BUF p)
    then show ?thesis
      using map_event(1) [OF assms(1) opn assms(3)] assms(4) by (simp add: mm_channel_fsm_fn_stopped_def no_out_ensures)
  next
    case (MM_CHANNEL_EVT_UNMAP_STREAM_BUF p)
    then show ?thesis
      using map_event(2) [OF assms(1) opn assms(3)] assms(4) by (simp add: mm_channel_fsm_fn_stopped_def no_out_ensures)
  next
    case (MM_CHANNEL_EVT_MAP_STREAM_BUFS p)
    then show ?thesis
      using map_event(3) [OF assms(1) opn assms(3)] assms(4) by (simp add: mm_channel_fsm_fn_stopped_def no_out_ensures)
  next
    case MM_CHANNEL_EVT_DELETE
    then show ?thesis
      by (simp add: mm_channel_fsm_fn_stopped_def chan_inv_def on_ch_def mm_channel_release_def)
  qed (use assms(1,4) stream in \<open>simp_all add: mm_channel_fsm_fn_stopped_def no_out_ensures stream_requests\<close>)
qed

lemma event_active:
  assumes "chan_inv E a W" and "ch_state (channel_at W a) = MM_CHANNEL_STATE_ACTIVE" and "env_ok (senv E)"
    and "evt_ok E a evt W"
  shows "ensures (mm_channel_fsm_fn_active E a evt W) (\<lambda>(r, W'). chan_inv E a W')"
proof -
  note inv = inv_active [OF assms(1,2)]
  have opn: "open_channel a W"
    using assms(2) by (simp add: open_channel_def)
  have kept: "chan_inv E a V" if "keeps E a {MM_STREAM_STATE_ACTIVE} W V" for V
    using keeps_inv [OF assms(1) opn] that assms(2) by (simp add: stream_states_def)
  note stream = with_stream_inv [OF assms(1) opn assms(3)]
  note posted = post_inv [OF assms(1) opn]
  show ?thesis
  proof (cases evt)
    case MM_CHANNEL_EVT_STOP
    then show ?thesis
      using stop_event [OF assms(1-3)] by simp
  next
    case (MM_CHANNEL_EVT_FLUSH_SUPER_BUF_QUEUE f)
    then have "ensures (mm_channel_flush_super_buf_queue E a f CAM_STREAM_TYPE_DEFAULT W)
        (\<lambda>(rc, W'). keeps E a {MM_STREAM_STATE_ACTIVE} W W')"
      using flush_keeps [OF inv(1) assms(3) inv(2)] assms(4) by simp
    then show ?thesis
      using MM_CHANNEL_EVT_FLUSH_SUPER_BUF_QUEUE
      by (auto simp: mm_channel_fsm_fn_active_def no_out_ensures intro: kept elim!: ensures_mono)
  next
    case (MM_CHANNEL_EVT_MAP_STREAM_BUF p)
    then show ?thesis
      using map_event(1) [OF assms(1) opn assms(3), of p] assms(1,4)
      by (auto simp: mm_channel_fsm_fn_active_def no_out_ensures split: option.splits)
  next
    case (MM_CHANNEL_EVT_UNMAP_STREAM_BUF p)
    then show ?thesis
      using map_event(2) [OF assms(1) opn assms(3), of p] assms(1,4)
      by (auto simp: mm_channel_fsm_fn_active_def no_out_ensures split: option.splits)
  next
    case (MM_CHANNEL_EVT_MAP_STREAM_BUFS p)
    then show ?thesis
      using map_event(3) [OF assms(1) opn assms(3), of p] assms(1,4)
      by (auto simp: mm_channel_fsm_fn_active_def no_out_ensures split: option.splits)
  next
    case (MM_CHANNEL_EVT_REQUEST_SUPER_BUF r)
    then show ?thesis
      using posted assms(1)
      by (cases r) (simp_all add: mm_channel_fsm_fn_active_def no_out_ensures channel_commands case_prod_unfold)
  next
    case MM_CHANNEL_EVT_CANCEL_REQUEST_SUPER_BUF
    then show ?thesis
      using posted by (simp add: mm_channel_fsm_fn_active_def no_out_ensures channel_commands case_prod_unfold)
  next
    case MM_CHANNEL_EVT_START_ZSL_SNAPSHOT
    then show ?thesis
      using posted by (simp add: mm_channel_fsm_fn_active_def no_out_ensures channel_commands case_prod_unfold)
  next
    case MM_CHANNEL_EVT_STOP_ZSL_SNAPSHOT
    then show ?thesis
      using posted by (simp add: mm_channel_fsm_fn_active_def no_out_ensures channel_commands case_prod_unfold)
  next
    case (MM_CHANNEL_EVT_CONFIG_NOTIFY_MODE m)
    then show ?thesis
      using posted by (simp add: mm_channel_fsm_fn_active_def no_out_ensures channel_commands case_prod_unfold)
  qed (use assms(1,4) stream posted in \<open>simp_all add: mm_channel_fsm_fn_active_def no_out_ensures stream_requests
    channel_commands case_prod_unfold\<close>)
qed

section \<open>Every run\<close>

definition channel_contract :: "channel_env \<Rightarrow> addr \<Rightarrow> channel_op \<Rightarrow> channels \<Rightarrow> bool" where
  "channel_contract E a op W \<longleftrightarrow> env_ok (senv E) \<and> channel_op_ok E a op W"

lemma channel_op_kept:
  assumes "chan_inv E a W" and "env_ok (senv E)" and "channel_op_ok E a op W"
  shows "ensures (run_channel_op E a op W) (\<lambda>(r, W'). chan_inv E a W')"
proof (cases op)
  case (Channel_event evt)
  then show ?thesis
    using event_stopped [OF assms(1) _ assms(2), of evt] event_active [OF assms(1) _ assms(2), of evt] assms(1,3)
    by (cases "ch_state (channel_at W a)") (simp_all add: mm_channel_fsm_fn_def)
next
  case (Give_back h r)
  then have "ensures (with_stream E True a h (Event (MM_STREAM_EVT_QBUF r)) W) (\<lambda>(rc, W'). chan_inv E a W')"
    using assms(3) by (intro with_stream_inv assms(1,2)) (auto simp: give_ok_def)
  then show ?thesis
    using Give_back by (simp add: no_out_ensures channel_qbuf_def)
next
  case (Take_back h i)
  then show ?thesis
    using with_stream_inv [OF assms(1) _ assms(2), of "Event (MM_STREAM_EVT_CANCEL_BUF i)" h True] assms(3)
    by (simp add: no_out_ensures mm_channel_cancel_buf_def)
next
  case (Stream_frame k)
  then show ?thesis
    using at_stream_inv [OF assms(1) _ assms(2), of Data_notify k] assms(3) by (simp add: no_out_ensures)
next
  case (Stream_turn k)
  then show ?thesis
    using at_stream_inv [OF assms(1) _ assms(2), of Cmd_turn k] assms(3) by (simp add: no_out_ensures)
qed

interpretation channel_runs: safe_runs "run_channel_op E a" "chan_inv E a" "channel_contract E a" for E a
  by unfold_locales (auto simp: channel_contract_def intro: channel_op_kept)

lemma channel_run_kept:
  assumes "env_ok (senv E)" and "chan_inv E a W0" and "run_ok (run_channel_op E a) (channel_op_ok E a) ops W0"
  obtains rs W where "run_steps (run_channel_op E a) ops W0 = Some (rs, W)" "chan_inv E a W"
proof -
  have contract: "run_ok (run_channel_op E a) (channel_contract E a) ops W"
    if "run_ok (run_channel_op E a) (channel_op_ok E a) ops W" for W
    using that
  proof (induction ops arbitrary: W)
    case (Cons op ops)
    then show ?case
      using assms(1) by (auto simp: channel_contract_def split: option.splits)
  qed simp
  show thesis
    using channel_runs.run_kept [OF assms(2) contract [OF assms(3)]] that by (auto elim!: ensuresE)
qed

section \<open>A channel that is opened\<close>

text \<open>The cleared object gets its handle and is initialised.\<close>

definition opened_channel :: "addr \<Rightarrow> channels \<Rightarrow> bool" where
  "opened_channel a W \<longleftrightarrow>
    (\<exists>h pipe x b. mm_channel_init pipe x b (zeroed_channel\<lparr>ch_handle := h\<rparr>) = Some (0, channel_at W a))"

lemma opened_inv:
  assumes "opened_channel a W"
  shows "chan_inv E a W"
proof -
  obtain h pipe x b where init: "mm_channel_init pipe x b (zeroed_channel\<lparr>ch_handle := h\<rparr>) = Some (0, channel_at W a)"
    using assms by (auto simp: opened_channel_def)
  obtain p where p: "launched_poll pipe zeroed_poll_thread = Some p"
    using init by (cases "launched_poll pipe zeroed_poll_thread") (auto simp: mm_channel_init_def zeroed_channel_def)
  note c = init [simplified mm_channel_init_def zeroed_channel_def channel.select_convs channel.update_convs
      p Let_def Option.bind.simps option.inject prod.inject, THEN conjunct2, symmetric]
  have at: "poll_of (channel_at W a) = p" "slots (channel_at W a) = replicate 8 zeroed_slot"
      "ch_state (channel_at W a) = MM_CHANNEL_STATE_STOPPED" "\<not> bundle_active (channel_at W a)"
    by (simp_all add: c MAX_STREAM_NUM_IN_BUNDLE_def)
  have "sized p"
    using p by (auto simp: launched_poll_def poll_launch_def thread_entry_def zeroed_poll_thread_def sized_def
        MAX_STREAM_NUM_IN_BUNDLE_def Let_def split: if_splits)
  then have "streams_ok E a W"
    using at(1,2) by (simp add: streams_ok_def slot_ok_def zeroed_slot_def zeroed_stream_def)
  moreover have "used_in a S W" for S
    using at(2) by (simp add: used_in_def zeroed_slot_def zeroed_stream_def)
  ultimately show ?thesis
    using at(3,4) by (simp add: chan_inv_def)
qed

end
