(* ===== verification/MmStreamProperties.thy ===== *)
theory MmStreamProperties
  imports MmStreamGraph
begin

text \<open>
  What a stream promises over any sequence of operations its contract allows, the functional
  behaviour of giving a buffer back, and the errors its code has.
\<close>

section \<open>The sample environment keeps the contract\<close>

lemma handed_sample: "handed (sample_env g) h cs = map unat (sample_fifo h cs)"
proof (induction cs)
  case (Cons kc cs)
  have dq: "remove1 (unat x) (map unat (x # xs)) = map unat xs" for x :: uint32 and xs
    by simp
  show ?case
  proof (cases "fst kc = h")
    case True
    then show ?thesis
      using Cons.IH
      by (cases "snd kc"; cases "sample_fifo h cs") (simp_all add: sample_env_def word_sless_alt)
  next
    case False
    then show ?thesis
      using Cons.IH by simp
  qed
qed simp

lemma sample_env_ok: "env_ok (sample_env g)"
proof -
  have "kernel_ok (sample_env g)"
    unfolding kernel_ok_def
  proof (intro allI)
    fix h n cs
    show "let c = (h, VIDIOC_DQBUF n) # cs in rc_of (sample_env g) c <s 0
        \<or> rc_of (sample_env g) c = 0 \<and> unat (vb_index (frame_of (sample_env g) c)) \<in> set (handed (sample_env g) h cs)"
      by (cases "sample_fifo h cs") (simp_all add: handed_sample Let_def, simp_all add: sample_env_def word_sless_alt)
  qed
  moreover have "stream_malloc_ok (sample_env g)"
    by (simp add: stream_malloc_ok_def sample_env_def)
  moreover have "upper_ok (sample_env g)"
  proof -
    have "\<forall>m \<in> set (maps_of (sample_env g) cs). map_valid m" for cs
      by (auto simp: sample_env_def CAM_MAX_NUM_BUFS_PER_STREAM_def split: list.splits kcall.splits
          if_splits)
    then show ?thesis
      by (simp add: upper_ok_def Let_def) (simp add: sample_env_def All_less_Suc sample_buf_def)
  qed
  ultimately show ?thesis
    by (simp add: env_ok_def)
qed

lemma sample_io_ok: "io_ok (sample_env g)"
  by (simp add: io_ok_def sample_env_def)

lemma sample_fresh: "fresh_stream sample_world"
proof -
  have "\<not> (5 :: int32) <s 0"
    by (simp add: word_sless_alt)
  then show ?thesis
    by (simp add: fresh_stream_def sample_world_def has_slot_def sized_def poll_slot_def poll_launch_def
        zeroed_poll_thread_def zeroed_stream_def MAX_STREAM_NUM_IN_BUNDLE_def Let_def
        mm_camera_util_get_index_by_handler_def)
qed

section \<open>Properties\<close>

lemma ledger_says:
  assumes "ledger E w"
  shows "unat (queued_buffer_count (strm w)) = length (in_hand E w) \<and> distinct (in_hand E w)
      \<and> (\<forall>i < unat (buf_num (strm w)).
           (i \<in> set (in_hand E w) \<longrightarrow> buf_refcnt (buf_status (strm w) ! i) = 0)
         \<and> count_list (cmd_queue (strm w)) i \<le> unat (buf_refcnt (buf_status (strm w) ! i))
         \<and> (io_ok E \<longrightarrow> (i \<in> set (in_hand E w)) = (buf_refcnt (buf_status (strm w) ! i) = 0)))
      \<and> (in_hand E w \<noteq> [] \<longrightarrow> polled w \<or> unpolled (hdl w) (hist w))"
proof (intro conjI allI)
  show "unat (queued_buffer_count (strm w)) = length (in_hand E w)"
    "in_hand E w \<noteq> [] \<longrightarrow> polled w \<or> unpolled (hdl w) (hist w)"
    using ledger_facts(3) [OF assms] by (simp_all add: counted_def watched_or_unpolled_def)
  show "distinct (in_hand E w)"
    using ledger_facts(4) [OF assms] .
  fix i
  show "i < unat (buf_num (strm w)) \<longrightarrow>
           (i \<in> set (in_hand E w) \<longrightarrow> buf_refcnt (buf_status (strm w) ! i) = 0)
         \<and> count_list (cmd_queue (strm w)) i \<le> unat (buf_refcnt (buf_status (strm w) ! i))
         \<and> (io_ok E \<longrightarrow> (i \<in> set (in_hand E w)) = (buf_refcnt (buf_status (strm w) ! i) = 0))"
    using ledger_facts(7) [OF assms, of i] by (auto simp: entry_ok_def split: if_splits)
qed

text \<open>
  C3: In every run the contract allows, from a stream before its first event on, no operation
  goes wrong. While the stream is registered or active, its counter of queued buffers is the
  number of buffers the kernel has; a buffer is in the kernel once at most and then nobody
  has a reference of it; every entry in the queue of the command thread owns a reference;
  and, if no cache or queue call fails, no buffer is lost: it is in the kernel or
  referenced. While the kernel has buffers, the descriptor is polled, unless a stop or
  failed start has taken it out.
\<close>

theorem stream_ledger:
  assumes "env_ok E" and "fresh_stream w0" and "run_ok (run_op E) user_ok ops w0"
  shows "\<exists>rs w. run_steps (run_op E) ops w0 = Some (rs, w)
    \<and> (state (strm w) \<in> {MM_STREAM_STATE_REG, MM_STREAM_STATE_ACTIVE} \<longrightarrow>
        unat (queued_buffer_count (strm w)) = length (in_hand E w) \<and> distinct (in_hand E w)
      \<and> (\<forall>i < unat (buf_num (strm w)).
           (i \<in> set (in_hand E w) \<longrightarrow> buf_refcnt (buf_status (strm w) ! i) = 0)
         \<and> count_list (cmd_queue (strm w)) i \<le> unat (buf_refcnt (buf_status (strm w) ! i))
         \<and> (io_ok E \<longrightarrow> (i \<in> set (in_hand E w)) = (buf_refcnt (buf_status (strm w) ! i) = 0)))
      \<and> (in_hand E w \<noteq> [] \<longrightarrow> polled w \<or> unpolled (hdl w) (hist w)))"
proof -
  obtain rs w where run: "run_steps (run_op E) ops w0 = Some (rs, w)" and inv: "stream_inv E w"
    using stream_run_kept [OF assms] .
  have "ledger E w" if "state (strm w) \<in> {MM_STREAM_STATE_REG, MM_STREAM_STATE_ACTIVE}"
    using inv that by (auto simp: stream_inv_def Let_def)
  then show ?thesis
    using run ledger_says [of E w] by blast
qed


text \<open>
  C10: Whatever the environment answers, an event moves the stream along its graph, decided by
  the code it returns; and an event that the state does not handle does nothing.
\<close>

theorem stream_moves_along_graph:
  "(mm_stream_fsm_fn E evt w = Some (rc, w') \<longrightarrow>
      state (strm w') = next_stream_state (state (strm w)) evt rc)
   \<and> (state (strm w) \<notin> handled_in evt \<longrightarrow>
      mm_stream_fsm_fn E evt w = Some (if state (strm w) = MM_STREAM_STATE_NOTUSED then -1 else 0, w))"
  using fsm_next [of E evt w rc w'] fsm_unhandled [of w evt E] by blast

lemma buf_done_effect:
  assumes "ledger E w" and "plain_stream (strm w)" and "i < unat (buf_num (strm w))"
    and "count_list (cmd_queue (strm w)) i < unat (buf_refcnt (buf_status (strm w) ! i))"
  shows "\<exists>rc w'. mm_stream_buf_done E (Buf i) w = Some (rc, w')
    \<and> (if unat (buf_refcnt (buf_status (strm w) ! i)) = 1
       then in_hand E w' = (if rc <s 0 then in_hand E w else in_hand E w @ [i])
         \<and> buf_status (strm w') = (buf_status (strm w))[i := (buf_status (strm w) ! i)
              \<lparr>buf_refcnt := 0, in_kernel := \<not> rc <s 0\<rparr>]
       else rc = 0 \<and> ctx w' = ctx w
         \<and> buf_status (strm w') = (buf_status (strm w))[i := (buf_status (strm w) ! i)
              \<lparr>buf_refcnt := buf_refcnt (buf_status (strm w) ! i) - 1\<rparr>])"
proof -
  obtain b where b: "read_buf (Buf i) w = Some b" "unat (buf_idx b) = i"
      "buf_type b = CAM_STREAM_BUF_TYPE_MPLANE"
    using read_good [OF assms(1,3)] .
  define st where "st = buf_status (strm w) ! i"
  have i: "i < length (buf_status (strm w))"
    using assms(3) ledger_facts(1,2) [OF assms(1)] by simp
  have st: "status_of i w = Some st" "buf_refcnt st \<noteq> 0" "\<not> in_kernel st" "i \<notin> set (in_hand E w)"
    using i assms(4) ledger_facts(7) [OF assms(1,3)]
    by (auto simp: status_of_def st_def entry_ok_def)
  define w1 where "w1 = w\<lparr>strm := (strm w)\<lparr>buf_status := (buf_status (strm w))[i := st\<lparr>buf_refcnt := buf_refcnt st - 1\<rparr>]\<rparr>\<rparr>"
  have w1: "on_status i (\<lambda>st. st\<lparr>buf_refcnt := buf_refcnt st - 1\<rparr>) w = Some w1"
      "status_of i w1 = Some (st\<lparr>buf_refcnt := buf_refcnt st - 1\<rparr>)"
    using i by (simp_all add: on_status_eq status_of_def w1_def st_def)
  have run: "mm_stream_buf_done E (Buf i) w = (if buf_refcnt st = 1
      then do {
        (rc, w) \<leftarrow> mm_stream_qbuf E b w1;
        if rc <s 0 then Some (rc, w)
        else do { w \<leftarrow> on_status i (\<lambda>st. st\<lparr>in_kernel := True\<rparr>) w; Some (rc, w) } }
      else Some (0, w1))"
    using assms(2) st(2) by (auto simp: mm_stream_buf_done_def b st(1) w1 plain_stream_def Let_def cong: if_cong)
  have one: "unat (buf_refcnt st) = 1 \<longleftrightarrow> buf_refcnt st = 1"
    by (metis unat_1 word_unat_eq_iff)
  show ?thesis
  proof (cases "buf_refcnt st = 1")
    case True
    have c1: "counted E w1" "in_hand E w1 = in_hand E w"
      using ledger_facts(3) [OF assms(1)] by (simp_all add: w1_def counted_def)
    obtain rc w2 where w2: "mm_stream_qbuf E b w1 = Some (rc, w2)" "queued_ok E b w1 (rc, w2)"
      using mm_stream_qbuf_ok [OF c1(1) b(3)] room_in_kernel [OF assms(1,3) st(4)] c1(2)
      by (auto elim!: ensuresE)
    obtain q where q: "strm w2 = (strm w1)\<lparr>queued_buffer_count := q\<rparr>"
        "in_hand E w2 = (if rc <s 0 then in_hand E w else in_hand E w @ [i])"
      using queued_okE [OF w2(2)] unfolding b(2) c1(2) by blast
    have len: "i < length (buf_status (strm w2))"
      using i by (simp add: q(1) w1_def)
    have eq: "st\<lparr>buf_refcnt := 0\<rparr> = st\<lparr>buf_refcnt := 0, in_kernel := False\<rparr>"
      using st(3) by (cases st) simp
    show ?thesis
    proof (cases "rc <s 0")
      case neg: True
      then have "mm_stream_buf_done E (Buf i) w = Some (rc, w2)"
        using True w2(1) by (simp add: run)
      then show ?thesis
        using True neg q eq one by (simp add: st_def [symmetric]) (simp add: w1_def)
    next
      case False
      then have "mm_stream_buf_done E (Buf i) w = Some (rc,
          w2\<lparr>strm := (strm w2)\<lparr>buf_status := (buf_status (strm w2))[i := (buf_status (strm w2) ! i)\<lparr>in_kernel := True\<rparr>]\<rparr>\<rparr>)"
        using True w2(1) on_status_eq [OF len] by (simp add: run)
      then show ?thesis
        using True False q one i by (simp add: st_def [symmetric]) (simp add: w1_def)
    qed
  next
    case False
    then show ?thesis
      using run one by (simp add: st_def [symmetric]) (simp add: w1_def)
  qed
qed



section \<open>Witnesses\<close>

text \<open>A preview that starts, gets two frames, and gives the first to its user.\<close>

definition sample_start :: "stream_op list" where
  "sample_start =
    [Event MM_STREAM_EVT_ACQUIRE, Event (MM_STREAM_EVT_SET_FMT sample_config), Event MM_STREAM_EVT_GET_BUF,
     Event MM_STREAM_EVT_REG_BUF, Event MM_STREAM_EVT_START]"

definition sample_ops :: "stream_op list" where
  "sample_ops = sample_start @ [Data_notify, Data_notify, Cmd_turn]"

lemma sample_allowed: "run_ok (run_op (sample_env False)) user_ok sample_ops sample_world"
  by code_simp

lemma sample_result:
  "\<exists>rs w. run_steps (run_op (sample_env False)) sample_ops sample_world = Some (rs, w)
     \<and> state (strm w) = MM_STREAM_STATE_ACTIVE \<and> buf_num (strm w) = 2 \<and> cmd_queue (strm w) = [1]
     \<and> map buf_refcnt (take 2 (buf_status (strm w))) = [1, 1]"
proof -
  have "case run_steps (run_op (sample_env False)) sample_ops sample_world of None \<Rightarrow> False
    | Some (rs, w) \<Rightarrow> state (strm w) = MM_STREAM_STATE_ACTIVE \<and> buf_num (strm w) = 2 \<and> cmd_queue (strm w) = [1]
     \<and> map buf_refcnt (take 2 (buf_status (strm w))) = [1, 1]"
    by code_simp
  then show ?thesis
    by (auto split: option.splits)
qed

lemma sample_refs:
  assumes "map buf_refcnt (take 2 (buf_status s)) = [1, 1]"
  shows "buf_refcnt (buf_status s ! 0) = 1" "buf_refcnt (buf_status s ! 1) = 1"
proof -
  obtain a b cs where "buf_status s = a # b # cs"
    using assms by (metis (no_types, lifting) list.distinct(1) list.exhaust list.simps(8,9) list.inject
        take_Suc_Cons take_Nil numeral_2_eq_2)
  then show "buf_refcnt (buf_status s ! 0) = 1" "buf_refcnt (buf_status s ! 1) = 1"
    using assms by simp_all
qed

theorem stream_ledger_witness:
  "\<exists>rs w. run_steps (run_op (sample_env False)) sample_ops sample_world = Some (rs, w)
     \<and> state (strm w) = MM_STREAM_STATE_ACTIVE \<and> in_hand (sample_env False) w = [] \<and> queued_buffer_count (strm w) = 0"
proof -
  obtain rs w where w: "run_steps (run_op (sample_env False)) sample_ops sample_world = Some (rs, w)"
     "state (strm w) = MM_STREAM_STATE_ACTIVE" "buf_num (strm w) = 2"
     "map buf_refcnt (take 2 (buf_status (strm w))) = [1, 1]"
    by (insert sample_result, elim exE conjE) (rule that)
  note refs = sample_refs [OF w(4)]
  obtain rs' w' where "run_steps (run_op (sample_env False)) sample_ops sample_world = Some (rs', w')"
    and says: "state (strm w') \<in> {MM_STREAM_STATE_REG, MM_STREAM_STATE_ACTIVE} \<longrightarrow>
        unat (queued_buffer_count (strm w')) = length (in_hand (sample_env False) w') \<and> distinct (in_hand (sample_env False) w')
      \<and> (\<forall>i < unat (buf_num (strm w')).
           (i \<in> set (in_hand (sample_env False) w') \<longrightarrow> buf_refcnt (buf_status (strm w') ! i) = 0)
         \<and> count_list (cmd_queue (strm w')) i \<le> unat (buf_refcnt (buf_status (strm w') ! i))
         \<and> (io_ok (sample_env False) \<longrightarrow> (i \<in> set (in_hand (sample_env False) w')) = (buf_refcnt (buf_status (strm w') ! i) = 0)))
      \<and> (in_hand (sample_env False) w' \<noteq> [] \<longrightarrow> polled w' \<or> unpolled (hdl w') (hist w'))"
    using stream_ledger [OF sample_env_ok sample_fresh sample_allowed] by blast
  then have "w' = w"
    using w(1) by simp
  have "0 \<notin> set (in_hand (sample_env False) w)" "1 \<notin> set (in_hand (sample_env False) w)"
  proof -
    have "\<forall>i < 2. i \<in> set (in_hand (sample_env False) w) \<longrightarrow> buf_refcnt (buf_status (strm w) ! i) = 0"
      using says w(2,3) by (simp add: \<open>w' = w\<close>)
    then show "0 \<notin> set (in_hand (sample_env False) w)" "1 \<notin> set (in_hand (sample_env False) w)"
      using refs by (auto dest: spec [of _ 0] spec [of _ 1])
  qed
  moreover have "set (in_hand (sample_env False) w) \<subseteq> {..<2}"
  proof -
    have "stream_inv (sample_env False) w"
      using stream_run_kept [OF sample_env_ok sample_fresh sample_allowed] w(1) by (metis option.inject prod.inject)
    then have "ledger (sample_env False) w"
      using w(2) by (simp add: stream_inv_def Let_def)
    then show ?thesis
      using ledger_facts(5) w(3) by fastforce
  qed
  ultimately have "in_hand (sample_env False) w = []"
    by (metis lessThan_iff less_2_cases list.set_intros(1) neq_Nil_conv subset_code(1) One_nat_def)
  moreover from this have "queued_buffer_count (strm w) = 0"
    using says w(2) by (simp add: \<open>w' = w\<close> unat_eq_0)
  ultimately show ?thesis
    using w(1,2) by blast
qed


theorem stream_moves_along_graph_witness:
  "\<exists>w'. mm_stream_fsm_fn (sample_env False) MM_STREAM_EVT_ACQUIRE sample_world = Some (0, w')
   \<and> state (strm w') = MM_STREAM_STATE_ACQUIRED
   \<and> mm_stream_fsm_fn (sample_env False) MM_STREAM_EVT_START sample_world = Some (0, sample_world)"
proof -
  have state: "state (strm sample_world) = MM_STREAM_STATE_INITED"
    by (simp add: sample_world_def)
  have "case mm_stream_fsm_fn (sample_env False) MM_STREAM_EVT_ACQUIRE sample_world of
      None \<Rightarrow> False | Some (rc, w') \<Rightarrow> rc = 0"
    by code_simp
  then obtain w' where "mm_stream_fsm_fn (sample_env False) MM_STREAM_EVT_ACQUIRE sample_world = Some (0, w')"
    by (auto split: option.splits)
  then show ?thesis
    using stream_moves_along_graph [of "sample_env False" MM_STREAM_EVT_ACQUIRE sample_world 0 w']
      stream_moves_along_graph [of "sample_env False" MM_STREAM_EVT_START sample_world]
    by (simp add: state next_stream_state_def handled_in_def)
qed



section \<open>Errors\<close>

definition sample_restart :: "stream_op list" where
  "sample_restart = sample_start @ [Event MM_STREAM_EVT_STOP, Event MM_STREAM_EVT_START]"


definition sample_end :: "stream_op list" where
  "sample_end = sample_start @ [Data_notify, Data_notify, Event MM_STREAM_EVT_STOP,
     Event MM_STREAM_EVT_UNREG_BUF, Event MM_STREAM_EVT_PUT_BUF, Event MM_STREAM_EVT_RELEASE]"

text \<open>
  A stream stopped while its users have all its buffers stays in the poll thread for ever: the
  stop removes its entry, then serves the frames of the command thread, and the first
  buffer the callbacks' thread gives back puts the entry back. It is still there when the
  stream is released and its descriptor closed.
\<close>

theorem released_stream_polled:
  "run_ok (run_op (sample_env True)) user_ok sample_end sample_world
   \<and> (\<exists>rs w. run_steps (run_op (sample_env True)) sample_end sample_world = Some (rs, w)
        \<and> state (strm w) = MM_STREAM_STATE_NOTUSED \<and> fst (hd (hist w)) = 256 \<and> snd (hd (hist w)) = Close_fd
        \<and> (\<exists>e \<in> set (poll_entries (poll (ctx w))). entry_fd e = 7 \<and> handler e = 256 \<and> notify_cb e))"
proof
  show "run_ok (run_op (sample_env True)) user_ok sample_end sample_world"
    by code_simp
  have "case run_steps (run_op (sample_env True)) sample_end sample_world of None \<Rightarrow> False
    | Some (rs, w) \<Rightarrow> state (strm w) = MM_STREAM_STATE_NOTUSED \<and> fst (hd (hist w)) = 256 \<and> snd (hd (hist w)) = Close_fd
        \<and> (\<exists>e \<in> set (poll_entries (poll (ctx w))). entry_fd e = 7 \<and> handler e = 256 \<and> notify_cb e)"
    by code_simp
  then show "\<exists>rs w. run_steps (run_op (sample_env True)) sample_end sample_world = Some (rs, w)
        \<and> state (strm w) = MM_STREAM_STATE_NOTUSED \<and> fst (hd (hist w)) = 256 \<and> snd (hd (hist w)) = Close_fd
        \<and> (\<exists>e \<in> set (poll_entries (poll (ctx w))). entry_fd e = 7 \<and> handler e = 256 \<and> notify_cb e)"
    by (auto split: option.splits)
qed

end
