(* ===== verification/MmChannelProperties.thy ===== *)
theory MmChannelProperties
  imports MmChannelReach MmStreamProperties
begin

text \<open>
  What a channel promises over every run within its contract: its streams are in step with it,
  a start is all or nothing, a stop ends everything; and what a failed start loses.
\<close>

lemma run_reaches:
  assumes "env_ok (senv E)" and "opened_channel a W0" and "run_ok (run_channel_op E a) (channel_op_ok E a) ops W0"
    and "run_steps (run_channel_op E a) ops W0 = Some (rs, W)"
  shows "chan_inv E a W"
  using channel_run_kept [OF assms(1) opened_inv [OF assms(2)] assms(3)] assms(4) by (metis option.inject prod.inject)

section \<open>Properties\<close>

text \<open>
  C6: In every run the contract allows, from a channel just opened on, no operation goes wrong.
  The streams of a stopped channel are acquired or configured, and no thread of a bundle runs;
  the streams of an active channel are all active, and each has exactly the buffers it counts
  in the kernel. Every stream is found by its handle.
\<close>

theorem channel_streams_in_step:
  assumes "env_ok (senv E)" and "opened_channel a W0" and "run_ok (run_channel_op E a) (channel_op_ok E a) ops W0"
  shows "\<exists>rs W. run_steps (run_channel_op E a) ops W0 = Some (rs, W)
    \<and> ch_state (channel_at W a) \<noteq> MM_CHANNEL_STATE_PAUSED
    \<and> (ch_state (channel_at W a) = MM_CHANNEL_STATE_STOPPED \<longrightarrow>
         used_in a {MM_STREAM_STATE_ACQUIRED, MM_STREAM_STATE_CFG} W \<and> \<not> bundle_active (channel_at W a))
    \<and> (ch_state (channel_at W a) = MM_CHANNEL_STATE_ACTIVE \<longrightarrow>
         used_in a {MM_STREAM_STATE_ACTIVE} W
         \<and> (\<forall>k < 8. my_handle (obj_at a W k) \<noteq> 0 \<longrightarrow>
              unat (queued_buffer_count (obj_at a W k)) = length (in_hand (senv E) (stream_view a k W))
              \<and> distinct (in_hand (senv E) (stream_view a k W))))
    \<and> (ch_state (channel_at W a) \<noteq> MM_CHANNEL_STATE_NOTUSED \<longrightarrow>
         (\<forall>k < 8. my_handle (obj_at a W k) \<noteq> 0 \<longrightarrow>
            stream_by_handler (my_handle (obj_at a W k)) (slots (channel_at W a)) = Some k))"
proof -
  obtain rs W where run: "run_steps (run_channel_op E a) ops W0 = Some (rs, W)" and inv: "chan_inv E a W"
    using channel_run_kept [OF assms(1) opened_inv [OF assms(2)] assms(3)] .
  have "unat (queued_buffer_count (obj_at a W k)) = length (in_hand (senv E) (stream_view a k W))
      \<and> distinct (in_hand (senv E) (stream_view a k W))"
    if "ch_state (channel_at W a) = MM_CHANNEL_STATE_ACTIVE" "k < 8" "my_handle (obj_at a W k) \<noteq> 0" for k
  proof -
    have "stream_inv (senv E) (stream_view a k W)" "state (obj_at a W k) = MM_STREAM_STATE_ACTIVE"
      using inv_active [OF inv that(1)] that(2,3) by (auto simp: streams_ok_def slot_ok_def used_in_def)
    then have "ledger (senv E) (stream_view a k W)"
      by (simp add: stream_inv_def Let_def)
    from ledger_says [OF this] show ?thesis
      by simp
  qed
  moreover have "stream_by_handler (my_handle (obj_at a W k)) (slots (channel_at W a)) = Some k"
    if "ch_state (channel_at W a) \<noteq> MM_CHANNEL_STATE_NOTUSED" "k < 8" "my_handle (obj_at a W k) \<noteq> 0" for k
    using lookup_stream inv_open(1) [OF inv] that by (simp add: open_channel_def)
  moreover have "ch_state (channel_at W a) \<noteq> MM_CHANNEL_STATE_PAUSED"
    using inv by (auto simp: chan_inv_def)
  ultimately show ?thesis
    using run inv_stopped [OF inv] inv_active [OF inv] by blast
qed



text \<open>
  C35: A failed start of a channel with a callback forgets the settings the channel was opened
  with: it clears the whole queue. A later start that succeeds runs with a water mark of 0,
  without frame synchronisation and in burst mode, whatever was asked for.
\<close>

theorem failed_start_forgets_attr:
  assumes "env_ok (senv E)" and "opened_channel a W0" and "run_ok (run_channel_op E a) (channel_op_ok E a) ops W0"
    and "run_steps (run_channel_op E a) ops W0 = Some (rs, W)"
    and "ch_state (channel_at W a) = MM_CHANNEL_STATE_STOPPED" and "used_in a {MM_STREAM_STATE_CFG} W"
    and "notify_cb_set (channel_at W a)"
    and "mm_channel_fsm_fn E a MM_CHANNEL_EVT_START W = Some ((rc, out), W1)" and "rc \<noteq> 0"
  shows "water_mark (attr (bundle_queue (channel_at W1 a))) = 0
    \<and> enable_frame_sync (attr (bundle_queue (channel_at W1 a))) = False
    \<and> max_unmatched_frames (attr (bundle_queue (channel_at W1 a))) = 0
    \<and> Superbuf.notify_mode (attr (bundle_queue (channel_at W1 a))) = MM_CAMERA_SUPER_BUF_NOTIFY_BURST
    \<and> (\<forall>out' W2. mm_channel_fsm_fn E a MM_CHANNEL_EVT_START W1 = Some ((0, out'), W2) \<longrightarrow>
         attr (bundle_queue (channel_at W2 a)) = attr (bundle_queue (channel_at W1 a)))"
proof -
  note inv = inv_stopped [OF run_reaches [OF assms(1-4)] assms(5)]
  have "mm_channel_start E a W = Some (rc, W1)"
    using assms(5,8,9)
    by (auto simp: mm_channel_fsm_fn_def mm_channel_fsm_fn_stopped_def split: bind_splits if_splits)
  then have W1: "start_outcome E a W (rc, W1)"
    using mm_channel_start_ok [OF inv(1) assms(1,6) inv(3)] by simp
  then have ok1: "streams_ok E a W1" "used_in a {MM_STREAM_STATE_CFG} W1" "\<not> bundle_active (channel_at W1 a)"
      "ch_state (channel_at W1 a) = MM_CHANNEL_STATE_STOPPED" "bundle_queue (channel_at W1 a) = zeroed_queue"
    using assms(5,7,9) by (simp_all add: start_outcome_def)
  have "attr (bundle_queue (channel_at W2 a)) = attr (bundle_queue (channel_at W1 a))"
    if start: "mm_channel_fsm_fn E a MM_CHANNEL_EVT_START W1 = Some ((0, out'), W2)" for out' W2
  proof -
    obtain V where V: "mm_channel_start E a W1 = Some (0, V)"
        "bundle_queue (channel_at W2 a) = bundle_queue (channel_at V a)"
      using start ok1(4)
      by (auto simp: mm_channel_fsm_fn_def mm_channel_fsm_fn_stopped_def on_ch_def split: bind_splits if_splits)
    have "start_outcome E a W1 (0, V)"
      using mm_channel_start_ok [OF ok1(1) assms(1) ok1(2,3)] V(1) by simp
    then show ?thesis
      using V(2) by (simp add: start_outcome_def)
  qed
  then show ?thesis
    using ok1(5) by (simp add: zeroed_queue_def)
qed

section \<open>Witnesses\<close>

text \<open>A channel with a callback, whose two streams are added and configured.\<close>

definition sample_attr :: mm_camera_channel_attr where
  "sample_attr = \<lparr>notify_mode = MM_CAMERA_SUPER_BUF_NOTIFY_CONTINUOUS, water_mark = 2, look_back = 1,
     post_frame_skip = 0, max_unmatched_frames = 3, enable_frame_sync = True,
     priority = MM_CAMERA_SUPER_BUF_PRIORITY_NORMAL, user_expected_frame_id = 0\<rparr>"

definition sample_channels :: channels where
  "sample_channels =
    \<lparr>channel_at = (\<lambda>_. snd (the (mm_channel_init 5 (Some sample_attr) True (zeroed_channel\<lparr>ch_handle := 256\<rparr>)))),
     history_of = [], syncs = mm_frame_sync_reset, handle_count = 0\<rparr>"

definition sample_channel_env :: channel_env where
  "sample_channel_env = \<lparr>senv = sample_env False, gives = (\<lambda>_. [])\<rparr>"

definition sample_setup :: "channel_op list" where
  "sample_setup = [Channel_event MM_CHANNEL_EVT_ADD_STREAM,
     Channel_event (MM_CHANNEL_EVT_CONFIG_STREAM 256 sample_config)]"

definition sample_session :: "channel_op list" where
  "sample_session = sample_setup @ [Channel_event MM_CHANNEL_EVT_START]"

lemma sample_opened: "opened_channel a sample_channels"
proof -
  have "mm_channel_init 5 (Some sample_attr) True (zeroed_channel\<lparr>ch_handle := 256\<rparr>)
      = Some (0, snd (the (mm_channel_init 5 (Some sample_attr) True (zeroed_channel\<lparr>ch_handle := 256\<rparr>))))"
    by code_simp
  then show ?thesis
    unfolding opened_channel_def sample_channels_def by auto
qed

lemma sample_channel_env_ok: "env_ok (senv sample_channel_env)"
  using sample_env_ok by (simp add: sample_channel_env_def)

lemma sample_setup_allowed:
  "run_ok (run_channel_op sample_channel_env 1) (channel_op_ok sample_channel_env 1) sample_setup sample_channels"
  by code_simp

lemma sample_setup_result:
  "\<exists>rs W. run_steps (run_channel_op sample_channel_env 1) sample_setup sample_channels = Some (rs, W)
     \<and> ch_state (channel_at W 1) = MM_CHANNEL_STATE_STOPPED \<and> used_in 1 {MM_STREAM_STATE_CFG} W
     \<and> my_handle (obj_at 1 W 0) = 256"
proof -
  have "case run_steps (run_channel_op sample_channel_env 1) sample_setup sample_channels of None \<Rightarrow> False
    | Some (rs, W) \<Rightarrow> ch_state (channel_at W 1) = MM_CHANNEL_STATE_STOPPED \<and> used_in 1 {MM_STREAM_STATE_CFG} W
     \<and> my_handle (obj_at 1 W 0) = 256"
    by code_simp
  then show ?thesis
    by (auto split: option.splits)
qed

lemma run_ok_snoc:
  assumes "run_ok step ok ops c" and "run_steps step ops c = Some (rs, c')" and "ok op c'"
  shows "run_ok step ok (ops @ [op]) c"
  using assms by (induction ops arbitrary: c rs) (auto split: option.splits bind_splits)

lemma sample_session_allowed:
  "run_ok (run_channel_op sample_channel_env 1) (channel_op_ok sample_channel_env 1) sample_session sample_channels"
  using run_ok_snoc [OF sample_setup_allowed] sample_setup_result by (force simp: sample_session_def)

lemma sample_session_result:
  "\<exists>rs W. run_steps (run_channel_op sample_channel_env 1) sample_session sample_channels = Some (rs, W)
     \<and> ch_state (channel_at W 1) = MM_CHANNEL_STATE_ACTIVE \<and> my_handle (obj_at 1 W 0) = 256"
proof -
  have "case run_steps (run_channel_op sample_channel_env 1) sample_session sample_channels of None \<Rightarrow> False
    | Some (rs, W) \<Rightarrow> ch_state (channel_at W 1) = MM_CHANNEL_STATE_ACTIVE \<and> my_handle (obj_at 1 W 0) = 256"
    by code_simp
  then show ?thesis
    by (auto split: option.splits)
qed

theorem channel_streams_in_step_witness:
  "\<exists>rs W. run_steps (run_channel_op sample_channel_env 1) sample_session sample_channels = Some (rs, W)
     \<and> my_handle (obj_at 1 W 0) = 256 \<and> used_in 1 {MM_STREAM_STATE_ACTIVE} W
     \<and> unat (queued_buffer_count (obj_at 1 W 0)) = length (in_hand (sample_env False) (stream_view 1 0 W))"
proof -
  obtain rs W where W: "run_steps (run_channel_op sample_channel_env 1) sample_session sample_channels = Some (rs, W)"
     "ch_state (channel_at W 1) = MM_CHANNEL_STATE_ACTIVE" "my_handle (obj_at 1 W 0) = 256"
    using sample_session_result by blast
  show ?thesis
    using channel_streams_in_step [OF sample_channel_env_ok sample_opened sample_session_allowed] W
    by (auto simp: sample_channel_env_def)
qed



text \<open>An upper layer that has no buffers to give.\<close>

definition poor_env :: channel_env where
  "poor_env = \<lparr>senv = (sample_env False)\<lparr>rc_of := (\<lambda>cs. case cs of [] \<Rightarrow> 0
     | kc # _ \<Rightarrow> (case snd kc of Get_bufs _ \<Rightarrow> -1 | _ \<Rightarrow> sample_rc False cs))\<rparr>, gives = (\<lambda>_. [])\<rparr>"

lemma poor_env_ok: "env_ok (senv poor_env)"
proof -
  let ?E = "senv poor_env"
  have rc: "rc_of ?E ((h, c) # cs) = rc_of (sample_env False) ((h, c) # cs)" if "\<forall>fo. c \<noteq> Get_bufs fo" for h c cs
    using that by (cases c) (simp_all add: poor_env_def sample_env_def)
  have fr: "frame_of ?E = frame_of (sample_env False)" "maps_of ?E = maps_of (sample_env False)"
      "rc_of ?E ((h, Get_bufs fo) # cs) = -1" for h fo cs
    by (simp_all add: poor_env_def)
  have handed: "handed ?E h cs = handed (sample_env False) h cs" for h cs
  proof (induction cs)
    case (Cons kc cs)
    obtain g c where kc: "kc = (g, c)"
      by fastforce
    show ?case
      using Cons.IH rc [of c h cs] by (cases "g = h"; cases c) (simp_all add: kc fr)
  qed simp
  have sample: "kernel_ok (sample_env False)" "stream_malloc_ok (sample_env False)" "upper_ok (sample_env False)"
    using sample_env_ok [of False] by (simp_all add: env_ok_def)
  have "kernel_ok ?E"
    using sample(1) by (simp add: kernel_ok_def handed rc fr)
  moreover have "stream_malloc_ok ?E"
    using sample(2) by (simp add: stream_malloc_ok_def rc)
  moreover have "upper_ok ?E"
    using sample(3) by (simp add: upper_ok_def fr Let_def)
  ultimately show ?thesis
    by (simp add: env_ok_def)
qed

lemma poor_setup_allowed:
  "run_ok (run_channel_op poor_env 1) (channel_op_ok poor_env 1) sample_setup sample_channels"
  by code_simp

lemma poor_result:
  "\<exists>rs W rc out W1. run_steps (run_channel_op poor_env 1) sample_setup sample_channels = Some (rs, W)
     \<and> ch_state (channel_at W 1) = MM_CHANNEL_STATE_STOPPED \<and> used_in 1 {MM_STREAM_STATE_CFG} W
     \<and> notify_cb_set (channel_at W 1) \<and> water_mark (attr (bundle_queue (channel_at W 1))) = 2
     \<and> mm_channel_fsm_fn poor_env 1 MM_CHANNEL_EVT_START W = Some ((rc, out), W1) \<and> rc \<noteq> 0"
proof -
  have "case run_steps (run_channel_op poor_env 1) sample_setup sample_channels of None \<Rightarrow> False
    | Some (rs, W) \<Rightarrow> ch_state (channel_at W 1) = MM_CHANNEL_STATE_STOPPED \<and> used_in 1 {MM_STREAM_STATE_CFG} W
     \<and> notify_cb_set (channel_at W 1) \<and> water_mark (attr (bundle_queue (channel_at W 1))) = 2
     \<and> (case mm_channel_fsm_fn poor_env 1 MM_CHANNEL_EVT_START W of None \<Rightarrow> False | Some ((rc, out), W1) \<Rightarrow> rc \<noteq> 0)"
    by code_simp
  then show ?thesis
    by (auto split: option.splits prod.splits)
qed

theorem failed_start_forgets_attr_witness:
  "\<exists>rs W rc out W1. run_steps (run_channel_op poor_env 1) sample_setup sample_channels = Some (rs, W)
     \<and> mm_channel_fsm_fn poor_env 1 MM_CHANNEL_EVT_START W = Some ((rc, out), W1)
     \<and> water_mark (attr (bundle_queue (channel_at W 1))) = 2 \<and> water_mark (attr (bundle_queue (channel_at W1 1))) = 0"
proof -
  obtain rs W rc out W1 where W: "run_steps (run_channel_op poor_env 1) sample_setup sample_channels = Some (rs, W)"
     "ch_state (channel_at W 1) = MM_CHANNEL_STATE_STOPPED" "used_in 1 {MM_STREAM_STATE_CFG} W"
     "notify_cb_set (channel_at W 1)" "water_mark (attr (bundle_queue (channel_at W 1))) = 2"
     "mm_channel_fsm_fn poor_env 1 MM_CHANNEL_EVT_START W = Some ((rc, out), W1)" "rc \<noteq> 0"
    by (insert poor_result, elim exE conjE) (rule that)
  have "water_mark (attr (bundle_queue (channel_at W1 1))) = 0"
    using failed_start_forgets_attr [OF poor_env_ok sample_opened poor_setup_allowed W(1-4,6,7)] by simp
  then show ?thesis
    using W(1,5,6) by (intro exI conjI)
qed

end
