(* ===== verification/Spec2Isabelle.thy ===== *)
theory Spec2Isabelle
  imports CamApi LocTimerProperties AgpsProperties SuperbufThreadProperties StreamRawOffsets MmChannelProperties
begin

text \<open>
  A verification development for the Huawei \<open>bach\<close> device tree, an Android repository whose
  C and C++ code under \<open>src/\<close> holds the camera HAL (\<open>camera/QCamera2\<close>), the GNSS stack
  (\<open>gps\<close>) and small vendor HALs. It models the parts that carry the logic of the two large
  stacks: state machines, queues, timers and the ownership of buffers and objects.

  The program.

  The camera service calls the HAL through \<open>QCamera2HWI.cpp\<close>. A call posts an event into the
  command queues of \<open>QCameraStateMachine\<close>, wakes its thread, and sleeps until the result of
  the event is in the list \<open>m_apiResultList\<close>. The thread takes one command per turn, API
  commands first, and hands it to the handler of the current state; the handler calls the
  hardware interface and signals the result. Under the HAL, \<open>mm-camera-interface\<close> collects
  the buffers of the bundled streams of a channel, frame by frame, into superbufs in a queue
  that matches, orders, hands out and gives back; each of its streams takes buffers from the
  users to the kernel and back, with a poll thread that waits for their frames and a command
  thread that calls their users; the channel starts and stops its streams together. In the GNSS stack the message thread runs
  the timers of \<open>LocTimer\<close> (kept in a heap, one kernel timer per clock, a poll thread that
  turns its expiry into a message), and \<open>AgpsManager\<close> opens and closes data calls for the
  modem's requests.

  The theories, and the code they model.

  \<open>Prelude\<close>: machine types, weakest preconditions for programs of the state monad, the error
  sum and its composition \<open>and_then\<close>, facts on lists and maps the components share.

  \<open>CamTypes\<close>, \<open>CamHwi\<close>: \<open>QCameraStateMachine.h\<close>, the events, states and payloads, and the
  hardware interface behind \<open>m_parent\<close>. A call on it is a value of \<open>hwi_op\<close>, logged, and
  answered by the oracle \<open>hw\<close>, an arbitrary function of the calls made so far: no property of
  the hardware is assumed.

  \<open>CamPreviewStopped\<close>, \<open>CamPreviewReady\<close>, \<open>CamPreviewing\<close>, \<open>CamPrepareSnapshot\<close>,
  \<open>CamPicTaking\<close>, \<open>CamRecording\<close> (with VIDEO PIC TAKING), \<open>CamPreviewPicTaking\<close>: one handler
  each of \<open>QCameraStateMachine.cpp\<close>, every event and every internal event. \<open>CamStateMachine\<close>:
  the dispatch \<open>stateMachine\<close> and the queries. \<open>CamInvariants\<close>: the contract of a handler as
  the locale \<open>state_handler\<close>, interpreted on all eight. \<open>CamProperties\<close>: what follows for the whole
  machine: every API call is answered exactly once (with the few exceptions, shown to be the
  only ones), the exact graph of the states, what may be running in which state, which calls
  each state permits.

  \<open>CamList\<close>, \<open>CamQueue\<close>: \<open>cam_list.h\<close> and \<open>QCameraQueue.cpp\<close> with pointers: a heap of nodes
  with next and prev links, an access outside it is \<open>None\<close>. The queue refines a FIFO list, and
  hands out or releases each datum once. \<open>CamThread\<close>: the two command queues, the semaphore
  (\<open>cam_semaphore.h\<close>) and the turns of \<open>smEvtProcRoutine\<close>; it refines a pair of lists, and the
  semaphore counts their commands. \<open>CamApi\<close>: \<open>processAPI\<close>, \<open>waitAPIResult\<close> and
  \<open>signalAPIResult\<close>, and the round trip of a call through thread, machine and mailbox.

  \<open>LocHeap\<close>: \<open>LocHeap.cpp\<close>, a heap of objects with its sizes; order, contents, balance.
  \<open>LocTimer\<close>: \<open>LocTimer.cpp\<close> as steps of three kinds of thread. \<open>LocTimerInvariants\<close>: the
  invariants of every interleaving. \<open>LocTimerProperties\<close>: no delegate dangles, no timer is
  forgotten, a started timer ends once, deadlines, and two schedules that go wrong.

  \<open>Agps\<close>: \<open>Agps.cpp\<close> over a store of subscribers, where a use of a deleted one is an error.
  \<open>AgpsSpec\<close>: the specification without pointers and the simulation. \<open>AgpsProperties\<close>: the
  refinement, the invariant, the discipline of the data calls, and what goes wrong.

  \<open>FrameSync\<close>, \<open>Superbuf\<close>, \<open>SuperbufMatch\<close>: \<open>mm_camera_channel.c\<close>, the synchronisation of
  the frames of two cameras, the operations of the superbuf queue, and the matching of an
  incoming buffer with its metadata. \<open>SuperbufInvariants\<close>, \<open>SuperbufEnqueue\<close>,
  \<open>SuperbufOrder\<close>: what every operation keeps. \<open>SuperbufProperties\<close>: the order of the queue,
  the conservation of the buffers, that the operations return, and what goes wrong.
  \<open>SuperbufThread\<close>: the command thread that calls these operations,
  \<open>mm_channel_process_stream_buf\<close>, with the snapshots without shutter lag and the messages to
  the callback thread. \<open>SuperbufThreadInvariants\<close>, \<open>SuperbufDispatch\<close>, \<open>SuperbufRequests\<close>:
  what a command, a turn of its loop and a run keep. \<open>SuperbufThreadProperties\<close>: no buffer is
  lost between the threads of two cameras, requests are met exactly, starts and stops alternate.

  \<open>CamStreamTypes\<close>, \<open>StreamOffsets\<close>: the layout of the frames of a stream
  (\<open>mm_stream_calc_offset\<close> and its parts in \<open>mm_camera_stream.c\<close>) over the formats and paddings
  of \<open>cam_types.h\<close>, in 32-bit arithmetic. \<open>StreamOffsetProperties\<close>, \<open>StreamRawOffsets\<close>: for
  images of at most 8192 by 8192 with the padding the server gives, planes lie in the frame and
  images in the planes, without wrap-around; the same for the packed raw formats; the loop of
  the least common multiple ends.

  \<open>CamHandles\<close>: \<open>mm_camera_util_generate_handler\<close> of \<open>mm_camera_interface.c\<close> and the way back.
  \<open>PollThread\<close>: the poll thread of \<open>mm_camera_thread.c\<close>, its table of descriptors, its pipe and
  the callers that wait for it, as steps; the thread watches what the table says, and no
  caller waits for ever.

  \<open>MmStream\<close>: a stream object of \<open>mm_camera.h\<close> with its buffers and their states, and what it
  works with: the poll thread, the log of the calls on kernel and server, and their answers as
  an arbitrary function of that log. \<open>MmStreamBufs\<close>: the life of a buffer in
  \<open>mm_camera_stream.c\<close>, \<open>MmStreamFsm\<close>: its set-up and the state machine, every event of every
  state. \<open>MmStreamInvariants\<close>: the ledger of the buffers, and that queueing, dequeuing,
  announcing, dispatching and giving back keep it. \<open>MmStreamRuns\<close>, \<open>MmStreamReach\<close>: the same for
  the set-up and the whole machine; the contract of the locale \<open>safe_runs\<close>, interpreted on runs
  of a stream. \<open>MmStreamGraph\<close>: the graph of the states, and a sample device for witnesses.
  \<open>MmStreamProperties\<close>: what follows: the ledger in every run, well-formedness, the graph,
  what a give-back and a stop do, and two runs that go wrong.

  \<open>MmStreamFrame\<close>: what an operation of a stream leaves alone, which is all that the other
  streams of its channel rely on. \<open>MmChannel\<close>: the channel object of \<open>mm_camera_channel.c\<close>, with
  its streams (a place \<open>mm_stream_slot\<close> holds a stream or a copy of one that is linked), its poll
  thread, the settings of its queue and the commands it posts; start, stop and the state
  machine \<open>mm_channel_fsm_fn\<close>, every event of every state. \<open>MmChannelInvariants\<close>: every stream
  keeps its invariant whatever another does. \<open>MmChannelStart\<close>, \<open>MmChannelStop\<close>: the steps of a start,
  of its undoing and of a stop. \<open>MmChannelRuns\<close>, \<open>MmChannelReach\<close>: all other operations, and the
  locale \<open>safe_runs\<close> interpreted on runs of a channel that is linked to no other.
  \<open>MmChannelProperties\<close>: streams in step with their channel, a start that is all or nothing, a
  stop that ends everything, and the settings a failed start loses.

  Conventions.

  Machine integers are words of their width. A use of freed memory, a null pointer or an
  index out of bounds is an error value (\<open>None\<close> or \<open>Inl\<close>), so a theorem that a run gives
  \<open>Some\<close> or \<open>Inr\<close> says that it does not happen. Methods that hold a lock throughout are one
  step; where the code releases it, the step ends. Loops over linked lists that change are
  \<open>partial_function (option)\<close>, and that they return is proved (\<open>queue_refines_list\<close>,
  \<open>superbuf_operations_return\<close>). The flush of the superbuf queue recurses on fuel, one more
  than the length of the queue: every turn takes a superbuf out, so the last one finds none.

  Parameters.

  The answers of the hardware interface; the results of \<open>malloc\<close>, as an address that is
  assumed fresh (or 0) and a truth value where only success matters; whether the allocator
  leaves freed memory as it was (\<open>intact\<close>, for the one loop that reads a node it has freed);
  the clock, the expiry of a kernel timer and the order of the threads, as events of a
  schedule; the order of the events the framework and the modem send to the AGPS manager
  (\<open>agps_ok\<close>, with a run that satisfies it); the answers of ioctls, server and memory to a
  stream (\<open>stream_env\<close>), of which \<open>env_ok\<close> asks that the kernel hands out only buffers it
  has, that the tables of buffers the users provide are complete, and that \<open>malloc\<close> of a
  command node succeeds; the order in which a stream or a channel is used
  (\<open>user_ok\<close>, \<open>channel_op_ok\<close>), and the buffers a thread of a channel hands back while a caller waits
  for it (\<open>gives\<close>); the \<open>VENUS\<close> macros of the kernel headers and the
  build flags that choose them (\<open>venus_media\<close>).

  Not modelled.

  The hardware interface itself (\<open>QCamera2HWI.cpp\<close> beyond the mailbox), the channels, streams
  and post-processing that both HALs have above \<open>mm-camera-interface\<close>: they forward to ioctls, ion memory and vendor libraries whose
  behaviour is not in the repository. The translation of camera parameters and metadata:
  tables from strings to vendor constants. \<open>mm_jpeg\<close>, \<open>usbcamcore\<close>: sequences of vendor or
  kernel calls. The HIDL services, fingerprint, thermal, audio and lights: conversions of
  structures around vendor calls. Build files, overlays and policies hold no code.
\<close>

end
